(* ===== verification/Go_Base.thy ===== *)
theory Go_Base
  imports Main "HOL-Library.Word" "HOL-Library.Char_ord" "HOL-Library.List_Lexorder"
    "HOL-Library.Sublist" "HOL-Library.Multiset"
begin

text \<open>
  Prelude of the development: the Go types the components share (64-bit words, byte strings with
  their lexicographic order, contexts), the standard-library search routine \<open>sort.Search\<close>, and the
  generic interfaces the component theories interpret: transition systems with an invariant,
  sticky failure latches, and bounded pools.
\<close>

unbundle bit_operations_syntax

named_theorems go_defs \<open>definitions of the shared Go primitives\<close>

type_synonym u64 = "64 word"

text \<open>A Go \<open>string\<close> is a byte sequence; HOL characters are bytes, and the order instances of
  \<open>Char_ord\<close> and \<open>List_Lexorder\<close> give Go's byte-wise string comparison.\<close>

type_synonym gostring = string

lemma Nil_less_iff: "[] < (s::'a::linorder list) \<longleftrightarrow> s \<noteq> []"
  by (cases s) auto

definition max_int64 :: int where
  "max_int64 = 9223372036854775807"

definition min_int64 :: int where
  "min_int64 = - 9223372036854775808"

definition is_int64 :: "int \<Rightarrow> bool" where
  "is_int64 x \<longleftrightarrow> min_int64 \<le> x \<and> x \<le> max_int64"

text \<open>Two's-complement wrap-around of an \<open>int64\<close> result.\<close>

definition wrap64 :: "int \<Rightarrow> int" where
  "wrap64 x = (x + 9223372036854775808) mod 18446744073709551616 - 9223372036854775808"

lemma wrap64_id [simp]: "is_int64 x \<Longrightarrow> wrap64 x = x"
  by (simp add: wrap64_def is_int64_def min_int64_def max_int64_def)

lemma is_int64_wrap64 [simp]: "is_int64 (wrap64 x)"
proof -
  have "0 \<le> (x + 9223372036854775808) mod 18446744073709551616"
    and "(x + 9223372036854775808) mod 18446744073709551616 < 18446744073709551616"
    by simp_all
  then show ?thesis
    unfolding wrap64_def is_int64_def min_int64_def max_int64_def by linarith
qed

text \<open>A call's \<open>context.Context\<close> as the code observes it: absent, or present with whether
  \<open>Err()\<close> is set and with its \<open>Deadline()\<close>.\<close>

datatype ctx = NilCtx | Ctx (ctx_canceled: bool) (ctx_deadline: "int option")

subsection \<open>\<open>sort.Search\<close>\<close>

text \<open>The standard library's bisection: the least index in \<open>[i, j)\<close> at which a monotone
  predicate holds, or \<open>j\<close>.\<close>

function sort_search :: "(nat \<Rightarrow> bool) \<Rightarrow> nat \<Rightarrow> nat \<Rightarrow> nat" where
  "sort_search f i j =
     (if i < j then
        let h = (i + j) div 2
        in if \<not> f h then sort_search f (h + 1) j else sort_search f i h
      else i)"
  by pat_completeness auto
termination
  by (relation "measure (\<lambda>(f, i, j). j - i)") auto

declare sort_search.simps [simp del]

lemma sort_search_stop: "\<not> i < j \<Longrightarrow> sort_search f i j = i"
  by (subst sort_search.simps) simp

lemma sort_search_right:
  "i < j \<Longrightarrow> \<not> f ((i + j) div 2) \<Longrightarrow> sort_search f i j = sort_search f ((i + j) div 2 + 1) j"
  by (subst sort_search.simps) (simp add: Let_def)

lemma sort_search_left:
  "i < j \<Longrightarrow> f ((i + j) div 2) \<Longrightarrow> sort_search f i j = sort_search f i ((i + j) div 2)"
  by (subst sort_search.simps) (simp add: Let_def)

lemma sort_search_range: "i \<le> j \<Longrightarrow> i \<le> sort_search f i j \<and> sort_search f i j \<le> j"
proof (induction f i j rule: sort_search.induct)
  case (1 f i j)
  show ?case
  proof (cases "i < j")
    case True
    let ?h = "(i + j) div 2"
    have h: "i \<le> ?h" "?h < j" using True by auto
    show ?thesis
      using "1.IH" [OF True refl] h True
      by (cases "f ?h") (auto simp: sort_search_left sort_search_right)
  next
    case False
    with "1.prems" show ?thesis by (simp add: sort_search_stop)
  qed
qed

lemma sort_search_least:
  assumes "i \<le> j" and "j \<le> n"
    and "\<forall>a b. a \<le> b \<longrightarrow> b < n \<longrightarrow> f a \<longrightarrow> f b"
    and "\<forall>a < i. \<not> f a"
    and "\<forall>a. j \<le> a \<longrightarrow> a < n \<longrightarrow> f a"
  shows "(\<forall>a < sort_search f i j. \<not> f a) \<and> (\<forall>a. sort_search f i j \<le> a \<longrightarrow> a < n \<longrightarrow> f a)"
  using assms
proof (induction f i j rule: sort_search.induct)
  case (1 f i j)
  show ?case
  proof (cases "i < j")
    case False
    with "1.prems" have "i = j" by simp
    with "1.prems" show ?thesis by (simp add: sort_search_stop)
  next
    case True
    let ?h = "(i + j) div 2"
    have h: "i \<le> ?h" "?h < j" "?h < n" using True "1.prems"(2) by auto
    show ?thesis
    proof (cases "f ?h")
      case False
      have eq: "sort_search f i j = sort_search f (?h + 1) j"
        using True False by (rule sort_search_right)
      have low: "\<forall>a < ?h + 1. \<not> f a"
        using False "1.prems"(3) h(3) by (metis less_Suc_eq_le Suc_eq_plus1)
      have "?h + 1 \<le> j" using h by simp
      from "1.IH"(1) [OF True refl False this "1.prems"(2,3) low "1.prems"(5)]
      show ?thesis unfolding eq .
    next
      case fh: True
      have eq: "sort_search f i j = sort_search f i ?h"
        using True fh by (rule sort_search_left)
      have high: "\<forall>a. ?h \<le> a \<longrightarrow> a < n \<longrightarrow> f a"
        using fh "1.prems"(3) by blast
      have "?h \<le> n" using h by simp
      from "1.IH"(2) [OF True refl _ h(1) this "1.prems"(3,4) high] fh
      show ?thesis unfolding eq by blast
    qed
  qed
qed

subsection \<open>Transition systems with an invariant\<close>

inductive reachable :: "('s \<Rightarrow> bool) \<Rightarrow> ('s \<Rightarrow> 's \<Rightarrow> bool) \<Rightarrow> 's \<Rightarrow> bool" for initial step where
  reachable_init: "initial s \<Longrightarrow> reachable initial step s"
| reachable_step: "reachable initial step s \<Longrightarrow> step s t \<Longrightarrow> reachable initial step t"

locale invariant_system =
  fixes initial :: "'s \<Rightarrow> bool"
    and step :: "'s \<Rightarrow> 's \<Rightarrow> bool"
    and invar :: "'s \<Rightarrow> bool"
  assumes invar_initial: "initial s \<Longrightarrow> invar s"
    and invar_step: "invar s \<Longrightarrow> step s t \<Longrightarrow> invar t"
begin

lemma reachable_invar: "reachable initial step s \<Longrightarrow> invar s"
  by (induction rule: reachable.induct) (auto intro: invar_initial invar_step)

end

subsection \<open>Sticky failure latches\<close>

text \<open>A component with a sticky latch keeps the first failure through every later operation.\<close>

locale sticky_latch =
  fixes failure :: "'s \<Rightarrow> 'e option"
    and run :: "'s \<Rightarrow> 'o \<Rightarrow> 's"
  assumes latch_kept: "failure s = Some e \<Longrightarrow> failure (run s op) = Some e"
begin

lemma latched_forever: "failure s = Some e \<Longrightarrow> failure (foldl run s ops) = Some e"
  by (induction ops arbitrary: s) (auto intro: latch_kept)

lemma clean_prefix:
  assumes "failure (foldl run s (xs @ ys)) = None"
  shows "failure (foldl run s xs) = None"
  using assms latched_forever [of "foldl run s xs" _ ys] by (cases "failure (foldl run s xs)") auto

end

end
