(* ===== verification/Owners.thy ===== *)
theory Owners
  imports Go_Base
begin

text \<open>
  The owner barrier of \<open>internal/dispatchadmission\<close> (\<open>owners.go\<close>, \<open>owner_measurement.go\<close>):
  bounded turn slots with generations, the pause and request fences, the irreversible terminal
  fence and the one-shot measurement fence. Every method body is atomic under \<open>owners.mu\<close> up to the
  points where it unlocks to wait for \<open>changed\<close>; a waiting call is a pending call that remembers the
  epoch of the channel it read, and \<open>close(changed)\<close> is the step to the next epoch. A nil
  \<open>*Owners\<close> is the disabled barrier, the \<open>None\<close> case of the exported methods.
\<close>

section \<open>State and operations\<close>

datatype owner_error =
  ErrConfig | ErrCanceled | ErrLimit | ErrProtocol | ErrBusy | ErrFenced | ErrContext

record owners =
  ow_limit_owners :: int
  ow_limit_requests :: int
  ow_active :: u64
  ow_requests :: u64
  ow_generations :: "nat \<Rightarrow> u64"
  ow_request_generations :: "nat \<Rightarrow> u64"
  ow_waiters :: int
  ow_paused :: bool
  ow_requests_fenced :: bool
  ow_paused_ready :: bool
  ow_requests_ready :: bool
  ow_terminal :: u64
  ow_measurement :: u64
  ow_measurement_used :: bool
  ow_changed :: nat
  ow_err :: "owner_error option"
  ow_ctx_done :: bool

record owner_turn =
  turn_generation :: u64
  turn_slot :: nat
  turn_request :: bool

definition zero_turn :: owner_turn where
  "zero_turn = \<lparr>turn_generation = 0, turn_slot = 0, turn_request = False\<rparr>"

text \<open>What one atomic segment of a call leads to: it returned a value, it returned an error, or it
  unlocked to wait for the \<open>changed\<close> channel of the given epoch.\<close>

datatype 'a outcome = Returned 'a | Failed owner_error | Waiting nat

definition NewOwners :: "ctx \<Rightarrow> int \<Rightarrow> int \<Rightarrow> owner_error + owners" where
  "NewOwners c limit_owners limit_requests =
     (if c = NilCtx \<or> ctx_canceled c \<or> limit_owners < 1 \<or> limit_owners > 64 \<or>
         limit_requests < 1 \<or> limit_requests > 64
      then Inl ErrConfig
      else Inr \<lparr>ow_limit_owners = limit_owners, ow_limit_requests = limit_requests,
        ow_active = 0, ow_requests = 0, ow_generations = (\<lambda>_. 0),
        ow_request_generations = (\<lambda>_. 0), ow_waiters = 0, ow_paused = False,
        ow_requests_fenced = False, ow_paused_ready = False, ow_requests_ready = False,
        ow_terminal = 0, ow_measurement = 0, ow_measurement_used = False, ow_changed = 0,
        ow_err = None, ow_ctx_done = False\<rparr>)"

definition notifyLocked :: "owners \<Rightarrow> owners" where
  "notifyLocked s = s\<lparr>ow_changed := ow_changed s + 1\<rparr>"

definition failLocked :: "owner_error \<Rightarrow> owners \<Rightarrow> owner_error \<times> owners" where
  "failLocked e s =
     (case ow_err s of
        None \<Rightarrow> (e, notifyLocked (s\<lparr>ow_err := Some e, ow_ctx_done := True\<rparr>))
      | Some e0 \<Rightarrow> (e0, s))"

definition failed :: "owner_error \<Rightarrow> owners \<Rightarrow> 'a outcome \<times> owners" where
  "failed e s = (case failLocked e s of (e', s') \<Rightarrow> (Failed e', s'))"

definition slot_mask :: "nat \<Rightarrow> u64" where
  "slot_mask n = push_bit n 1"

definition trailing_zeros64 :: "u64 \<Rightarrow> nat" where
  "trailing_zeros64 w = (case find (bit w) [0..<64] of Some i \<Rightarrow> i | None \<Rightarrow> 64)"

text \<open>Owner turns and request turns are two instances of the same slot table; the accessors select
  one of them, as the code selects its pointers.\<close>

definition turn_count :: "bool \<Rightarrow> owners \<Rightarrow> u64" where
  "turn_count request s = (if request then ow_requests s else ow_active s)"

definition set_turn_count :: "bool \<Rightarrow> u64 \<Rightarrow> owners \<Rightarrow> owners" where
  "set_turn_count request v s =
     (if request then s\<lparr>ow_requests := v\<rparr> else s\<lparr>ow_active := v\<rparr>)"

definition turn_generations :: "bool \<Rightarrow> owners \<Rightarrow> nat \<Rightarrow> u64" where
  "turn_generations request s = (if request then ow_request_generations s else ow_generations s)"

definition set_turn_generations :: "bool \<Rightarrow> (nat \<Rightarrow> u64) \<Rightarrow> owners \<Rightarrow> owners" where
  "set_turn_generations request v s =
     (if request then s\<lparr>ow_request_generations := v\<rparr> else s\<lparr>ow_generations := v\<rparr>)"

definition turn_limit :: "bool \<Rightarrow> owners \<Rightarrow> int" where
  "turn_limit request s = (if request then ow_limit_requests s else ow_limit_owners s)"

definition available_slots :: "bool \<Rightarrow> owners \<Rightarrow> u64" where
  "available_slots request s =
     NOT (turn_count request s) AND drop_bit (nat (64 - turn_limit request s)) (- 1)"

definition enterLocked :: "bool \<Rightarrow> owners \<Rightarrow> owner_turn outcome \<times> owners" where
  "enterLocked request s =
     (let available = available_slots request s
      in if available = 0 then failed ErrLimit s
         else let slot = trailing_zeros64 available;
                  generations = turn_generations request s
           in if generations slot = - 1 then failed ErrLimit s
              else let generations' = generations(slot := generations slot + 1)
                in (Returned \<lparr>turn_generation = generations' slot, turn_slot = slot,
                              turn_request = request\<rparr>,
                    set_turn_count request (turn_count request s OR slot_mask slot)
                      (set_turn_generations request generations' s)))"

text \<open>One turn of the loop of \<open>Enter\<close>; \<open>parked\<close> is the call's local flag, and the deferred
  function takes a parked call out of \<open>waiters\<close> when it returns.\<close>

definition unpark :: "bool \<Rightarrow> owners \<Rightarrow> owners" where
  "unpark parked s = (if parked then s\<lparr>ow_waiters := ow_waiters s - 1\<rparr> else s)"

definition enter_iteration :: "bool \<Rightarrow> ctx \<Rightarrow> owners \<Rightarrow> owner_turn outcome \<times> owners" where
  "enter_iteration parked c s =
     (case ow_err s of
        Some e \<Rightarrow> (Failed e, unpark parked s)
      | None \<Rightarrow>
          if ctx_canceled c then (Failed ErrContext, unpark parked s)
          else if ow_ctx_done s then (Failed ErrCanceled, unpark parked s)
          else if \<not> ow_paused s then
            (case enterLocked False s of (r, s') \<Rightarrow> (r, unpark parked s'))
          else if \<not> parked then
            (if ow_waiters s = ow_limit_owners s then failed ErrLimit s
             else (Waiting (ow_changed s), s\<lparr>ow_waiters := ow_waiters s + 1\<rparr>))
          else (Waiting (ow_changed s), s))"

text \<open>The exported methods on a possibly nil receiver: \<open>on_owners d f\<close> is \<open>d\<close> for nil.\<close>

definition on_owners ::
  "'a outcome \<Rightarrow> (owners \<Rightarrow> 'a outcome \<times> owners) \<Rightarrow> owners option \<Rightarrow> 'a outcome \<times> owners option" where
  "on_owners d f os =
     (case os of None \<Rightarrow> (d, None) | Some s \<Rightarrow> (case f s of (r, s') \<Rightarrow> (r, Some s')))"

definition enter_call :: "ctx \<Rightarrow> owners \<Rightarrow> owner_turn outcome \<times> owners" where
  "enter_call c s = (if c = NilCtx then failed ErrCanceled s else enter_iteration False c s)"

definition Enter :: "ctx \<Rightarrow> owners option \<Rightarrow> owner_turn outcome \<times> owners option" where
  "Enter c = on_owners (Returned zero_turn) (enter_call c)"

definition request_call :: "ctx \<Rightarrow> owners \<Rightarrow> owner_turn outcome \<times> owners" where
  "request_call c s =
     (if c = NilCtx then failed ErrCanceled s
      else case ow_err s of
        Some e \<Rightarrow> (Failed e, s)
      | None \<Rightarrow>
          if ctx_canceled c then (Failed ErrContext, s)
          else if ow_ctx_done s then (Failed ErrCanceled, s)
          else if ow_requests_fenced s then (Failed ErrFenced, s)
          else enterLocked True s)"

definition EnterRequest :: "ctx \<Rightarrow> owners option \<Rightarrow> owner_turn outcome \<times> owners option" where
  "EnterRequest c = on_owners (Returned zero_turn) (request_call c)"

definition end_call :: "owner_turn \<Rightarrow> owners \<Rightarrow> owners" where
  "end_call t s =
     (let active = turn_count (turn_request t) s;
          generations = turn_generations (turn_request t) s;
          msk = slot_mask (turn_slot t)
      in if turn_generation t = 0 \<or> active AND msk = 0 \<or>
            generations (turn_slot t) \<noteq> turn_generation t
         then snd (failLocked ErrProtocol s)
         else if \<not> turn_request t \<and> (ow_terminal s = msk \<or> ow_measurement s = msk)
         then snd (failLocked ErrProtocol s)
         else let active' = active AND NOT msk;
                  s' = set_turn_count (turn_request t) active' s
           in if active' = 0 \<and> (turn_request t \<and> ow_requests_fenced s' \<or>
                                  \<not> turn_request t \<and> ow_paused s') \<or>
                 \<not> turn_request t \<and>
                   (ow_terminal s' \<noteq> 0 \<and> ow_active s' = ow_terminal s' \<or>
                    ow_measurement s' \<noteq> 0 \<and> ow_active s' = ow_measurement s')
              then notifyLocked s' else s')"

definition End_turn :: "owner_turn \<Rightarrow> owners option \<Rightarrow> owners option" where
  "End_turn t os = map_option (end_call t) os"

text \<open>The wait loop shared by \<open>FenceTerminal\<close> and \<open>FenceMeasurement\<close>: everything but the
  retained slot has drained.\<close>

definition retained_iteration :: "u64 \<Rightarrow> ctx \<Rightarrow> owners \<Rightarrow> unit outcome \<times> owners" where
  "retained_iteration msk c s =
     (case ow_err s of
        Some e \<Rightarrow> (Failed e, s)
      | None \<Rightarrow>
          if ctx_canceled c \<or> ow_ctx_done s then failed ErrCanceled s
          else if ow_active s = msk \<and> ow_requests s = 0 then (Returned (), s)
          else (Waiting (ow_changed s), s))"

definition retainable :: "owner_turn \<Rightarrow> owners \<Rightarrow> bool" where
  "retainable t s \<longleftrightarrow>
     \<not> (turn_request t \<or> turn_generation t = 0 \<or> int (turn_slot t) \<ge> ow_limit_owners s \<or>
        ow_active s AND slot_mask (turn_slot t) = 0 \<or>
        ow_generations s (turn_slot t) \<noteq> turn_generation t \<or>
        ow_terminal s \<noteq> 0 \<or> ow_measurement s \<noteq> 0 \<or> ow_paused s \<or> ow_requests_fenced s \<or>
        ow_paused_ready s \<or> ow_requests_ready s)"

definition terminal_call :: "owner_turn \<Rightarrow> ctx \<Rightarrow> owners \<Rightarrow> unit outcome \<times> owners" where
  "terminal_call t c s =
     (case ow_err s of
        Some e \<Rightarrow> (Failed e, s)
      | None \<Rightarrow>
          if c = NilCtx \<or> ctx_canceled c \<or> ow_ctx_done s then failed ErrCanceled s
          else if ctx_deadline c = None then failed ErrConfig s
          else if \<not> retainable t s then failed ErrProtocol s
          else retained_iteration (slot_mask (turn_slot t)) c
                 (notifyLocked (s\<lparr>ow_terminal := slot_mask (turn_slot t),
                   ow_paused := True, ow_requests_fenced := True\<rparr>)))"

definition FenceTerminal :: "owner_turn \<Rightarrow> ctx \<Rightarrow> owners option \<Rightarrow> unit outcome \<times> owners option" where
  "FenceTerminal t c = on_owners (Failed ErrConfig) (terminal_call t c)"

definition measurement_call :: "owner_turn \<Rightarrow> ctx \<Rightarrow> owners \<Rightarrow> unit outcome \<times> owners" where
  "measurement_call t c s =
     (case ow_err s of
        Some e \<Rightarrow> (Failed e, s)
      | None \<Rightarrow>
          if c = NilCtx \<or> ctx_canceled c \<or> ow_ctx_done s then failed ErrCanceled s
          else if ctx_deadline c = None then failed ErrConfig s
          else if \<not> retainable t s \<or> ow_measurement_used s then failed ErrProtocol s
          else retained_iteration (slot_mask (turn_slot t)) c
                 (notifyLocked (s\<lparr>ow_measurement_used := True,
                   ow_measurement := slot_mask (turn_slot t),
                   ow_paused := True, ow_requests_fenced := True\<rparr>)))"

definition FenceMeasurement :: "owner_turn \<Rightarrow> ctx \<Rightarrow> owners option \<Rightarrow> unit outcome \<times> owners option" where
  "FenceMeasurement t c = on_owners (Failed ErrConfig) (measurement_call t c)"

definition fence_closed :: "bool \<Rightarrow> owners \<Rightarrow> bool" where
  "fence_closed request s = (if request then ow_requests_fenced s else ow_paused s)"

definition fence_ready :: "bool \<Rightarrow> owners \<Rightarrow> bool" where
  "fence_ready request s = (if request then ow_requests_ready s else ow_paused_ready s)"

definition set_closed :: "bool \<Rightarrow> bool \<Rightarrow> owners \<Rightarrow> owners" where
  "set_closed request v s =
     (if request then s\<lparr>ow_requests_fenced := v\<rparr> else s\<lparr>ow_paused := v\<rparr>)"

definition set_ready :: "bool \<Rightarrow> bool \<Rightarrow> owners \<Rightarrow> owners" where
  "set_ready request v s =
     (if request then s\<lparr>ow_requests_ready := v\<rparr> else s\<lparr>ow_paused_ready := v\<rparr>)"

definition fence_iteration :: "bool \<Rightarrow> ctx \<Rightarrow> owners \<Rightarrow> unit outcome \<times> owners" where
  "fence_iteration request c s =
     (case ow_err s of
        Some e \<Rightarrow> (Failed e, s)
      | None \<Rightarrow>
          if ctx_canceled c \<or> ow_ctx_done s then failed ErrCanceled s
          else if turn_count request s = 0 then (Returned (), set_ready request True s)
          else (Waiting (ow_changed s), s))"

definition fence_call :: "bool \<Rightarrow> ctx \<Rightarrow> owners \<Rightarrow> unit outcome \<times> owners" where
  "fence_call request c s =
     (if ow_terminal s \<noteq> 0 \<or> ow_measurement s \<noteq> 0 then failed ErrProtocol s
      else if c = NilCtx then failed ErrCanceled s
      else if fence_closed request s then failed ErrProtocol s
      else fence_iteration request c (notifyLocked (set_closed request True s)))"

definition fence :: "bool \<Rightarrow> ctx \<Rightarrow> owners option \<Rightarrow> unit outcome \<times> owners option" where
  "fence request c = on_owners (Returned ()) (fence_call request c)"

definition Pause :: "ctx \<Rightarrow> owners option \<Rightarrow> unit outcome \<times> owners option" where
  "Pause = fence False"

definition FenceRequests :: "ctx \<Rightarrow> owners option \<Rightarrow> unit outcome \<times> owners option" where
  "FenceRequests = fence True"

definition reopen_call :: "bool \<Rightarrow> owners \<Rightarrow> unit outcome \<times> owners" where
  "reopen_call request s =
     (if ow_terminal s \<noteq> 0 \<or> ow_measurement s \<noteq> 0 then failed ErrProtocol s
      else case ow_err s of
        Some e \<Rightarrow> (Failed e, s)
      | None \<Rightarrow>
          if ow_ctx_done s then failed ErrCanceled s
          else if \<not> fence_closed request s \<or> \<not> fence_ready request s \<or> turn_count request s \<noteq> 0
          then failed ErrBusy s
          else (Returned (), notifyLocked (set_ready request False (set_closed request False s))))"

definition reopen :: "bool \<Rightarrow> owners option \<Rightarrow> unit outcome \<times> owners option" where
  "reopen request = on_owners (Returned ()) (reopen_call request)"

definition Resume :: "owners option \<Rightarrow> unit outcome \<times> owners option" where
  "Resume = reopen False"

definition OpenRequests :: "owners option \<Rightarrow> unit outcome \<times> owners option" where
  "OpenRequests = reopen True"

text \<open>An \<open>OwnerMeasurement\<close> retains its issuing turn and the context it was acquired under;
  the original context is given as it stands when the method runs.\<close>

definition validLocked :: "owner_turn \<Rightarrow> ctx \<Rightarrow> ctx \<Rightarrow> owners \<Rightarrow> bool" where
  "validLocked t original c s \<longleftrightarrow>
     (case (c, original) of
        (Ctx canceled (Some deadline), Ctx original_canceled (Some original_deadline)) \<Rightarrow>
          \<not> deadline > original_deadline \<and> \<not> original_canceled \<and> \<not> canceled \<and>
          \<not> ow_ctx_done s \<and> ow_err s = None \<and>
          ow_measurement s = slot_mask (turn_slot t) \<and>
          ow_generations s (turn_slot t) = turn_generation t \<and>
          ow_active s = slot_mask (turn_slot t) \<and> ow_requests s = 0 \<and>
          ow_paused s \<and> ow_requests_fenced s \<and>
          \<not> ow_paused_ready s \<and> \<not> ow_requests_ready s \<and> ow_terminal s = 0
      | _ \<Rightarrow> False)"

definition Quiescent :: "owner_turn \<Rightarrow> ctx \<Rightarrow> ctx \<Rightarrow> owners option \<Rightarrow> bool" where
  "Quiescent t original c os = (case os of None \<Rightarrow> False | Some s \<Rightarrow> validLocked t original c s)"

definition resume_call :: "owner_turn \<Rightarrow> ctx \<Rightarrow> ctx \<Rightarrow> owners \<Rightarrow> unit outcome \<times> owners" where
  "resume_call t original c s =
     (if \<not> validLocked t original c s then failed ErrProtocol s
      else (Returned (), notifyLocked (s\<lparr>ow_measurement := 0, ow_paused := False,
                                         ow_requests_fenced := False\<rparr>)))"

definition measurement_Resume ::
  "owner_turn \<Rightarrow> ctx \<Rightarrow> ctx \<Rightarrow> owners option \<Rightarrow> unit outcome \<times> owners option" where
  "measurement_Resume t original c = on_owners (Failed ErrConfig) (resume_call t original c)"

section \<open>The barrier as a transition system\<close>

text \<open>A pending call has unlocked in its wait loop and holds the epoch of the channel it selects
  on. The world also keeps the measurement handles that \<open>FenceMeasurement\<close> has returned, since only
  a holder of such a handle can call its \<open>Resume\<close>.\<close>

datatype pending =
    PEnter (epoch: nat)
  | PFence bool (epoch: nat)
  | PTerminal owner_turn (epoch: nat)
  | PMeasure owner_turn (epoch: nat)

type_synonym world = "owners \<times> pending multiset \<times> owner_turn multiset"

fun after :: "(nat \<Rightarrow> pending) \<Rightarrow> 'a outcome \<Rightarrow> pending multiset \<Rightarrow> pending multiset" where
  "after k (Waiting e) P = add_mset (k e) P"
| "after k _ P = P"

fun issued :: "owner_turn \<Rightarrow> unit outcome \<Rightarrow> owner_turn multiset \<Rightarrow> owner_turn multiset" where
  "issued t (Returned _) H = add_mset t H"
| "issued t _ H = H"

definition awake :: "nat \<Rightarrow> ctx \<Rightarrow> owners \<Rightarrow> bool" where
  "awake e c s \<longleftrightarrow> c \<noteq> NilCtx \<and> (ow_changed s \<noteq> e \<or> ctx_canceled c \<or> ow_ctx_done s)"

inductive owners_step :: "world \<Rightarrow> world \<Rightarrow> bool" where
  call_enter: "enter_call c s = (r, s') \<Longrightarrow> owners_step (s, P, H) (s', after PEnter r P, H)"
| wake_enter: "awake e c s \<Longrightarrow> enter_iteration True c s = (r, s') \<Longrightarrow>
    owners_step (s, add_mset (PEnter e) P, H) (s', after PEnter r P, H)"
| call_request: "request_call c s = (r, s') \<Longrightarrow> owners_step (s, P, H) (s', P, H)"
| call_end: "owners_step (s, P, H) (end_call t s, P, H)"
| call_fence: "fence_call q c s = (r, s') \<Longrightarrow>
    owners_step (s, P, H) (s', after (PFence q) r P, H)"
| wake_fence: "awake e c s \<Longrightarrow> fence_iteration q c s = (r, s') \<Longrightarrow>
    owners_step (s, add_mset (PFence q e) P, H) (s', after (PFence q) r P, H)"
| call_reopen: "reopen_call q s = (r, s') \<Longrightarrow> owners_step (s, P, H) (s', P, H)"
| call_terminal: "terminal_call t c s = (r, s') \<Longrightarrow>
    owners_step (s, P, H) (s', after (PTerminal t) r P, H)"
| wake_terminal: "awake e c s \<Longrightarrow> retained_iteration (slot_mask (turn_slot t)) c s = (r, s') \<Longrightarrow>
    owners_step (s, add_mset (PTerminal t e) P, H) (s', after (PTerminal t) r P, H)"
| call_measure: "measurement_call t c s = (r, s') \<Longrightarrow>
    owners_step (s, P, H) (s', after (PMeasure t) r P, issued t r H)"
| wake_measure: "awake e c s \<Longrightarrow> retained_iteration (slot_mask (turn_slot t)) c s = (r, s') \<Longrightarrow>
    owners_step (s, add_mset (PMeasure t e) P, H) (s', after (PMeasure t) r P, issued t r H)"
| call_resume: "t \<in># H \<Longrightarrow> resume_call t original c s = (r, s') \<Longrightarrow>
    owners_step (s, P, H) (s', P, H)"
| parent_cancel: "owners_step (s, P, H) (s\<lparr>ow_ctx_done := True\<rparr>, P, H)"

definition owners_initial :: "world \<Rightarrow> bool" where
  "owners_initial w \<longleftrightarrow> (\<exists>c lo lr s. NewOwners c lo lr = Inr s \<and> w = (s, {#}, {#}))"

end
