(* ===== verification/Owners_Safety.thy ===== *)
theory Owners_Safety
  imports Owners
begin

text \<open>
  The invariant of the owner barrier and what it gives: drained fences, slot tokens that end only
  their own turn, an irreversible terminal fence, and waiters that never miss the notification
  they wait for. Each operation has a lemma for the state invariant and one for the calls that are
  pending beside it; the transition system is an instance of the prelude's
  \<open>invariant_system\<close>.
\<close>

section \<open>Slot words\<close>

lemma bit_slot_mask [simp]: "bit (slot_mask n) i \<longleftrightarrow> i = n \<and> n < 64"
  by (auto simp: slot_mask_def bit_simps)

lemma u64_eq_iff: "(v::u64) = w \<longleftrightarrow> (\<forall>i<64. bit v i = bit w i)"
  by (auto intro: bit_word_eqI)

lemma slot_mask_eq_0 [simp]: "slot_mask n = 0 \<longleftrightarrow> 64 \<le> n"
  by (auto simp: u64_eq_iff not_less)

lemma and_slot_mask_eq_0: "w AND slot_mask n = 0 \<longleftrightarrow> \<not> (n < 64 \<and> bit w n)"
  by (auto simp: u64_eq_iff bit_and_iff)

lemma word_neq_0_bit: "(w::u64) \<noteq> 0 \<Longrightarrow> \<exists>i<64. bit w i"
  using bit_imp_le_length [of w] by (fastforce simp: bit_eq_iff)

lemma trailing_zeros64:
  assumes "w \<noteq> 0"
  shows "trailing_zeros64 w < 64" "bit w (trailing_zeros64 w)"
    and "\<And>i. i < trailing_zeros64 w \<Longrightarrow> \<not> bit w i"
proof -
  obtain i where i: "i < 64" "bit w i" using word_neq_0_bit [OF assms] by blast
  obtain j where j: "find (bit w) [0..<64] = Some j"
    using i by (cases "find (bit w) [0..<64]") (auto simp: find_None_iff)
  then obtain k where k: "k < 64" "bit w k" "\<forall>l<k. \<not> bit w l" "j = k"
    by (auto simp: find_Some_iff)
  then show "trailing_zeros64 w < 64" "bit w (trailing_zeros64 w)"
    and "\<And>i. i < trailing_zeros64 w \<Longrightarrow> \<not> bit w i"
    using j by (auto simp: trailing_zeros64_def)
qed

lemma bit_available_slots:
  assumes "1 \<le> turn_limit q s" "turn_limit q s \<le> 64"
  shows "bit (available_slots q s) i \<longleftrightarrow> int i < turn_limit q s \<and> \<not> bit (turn_count q s) i"
  using assms by (auto simp: available_slots_def bit_simps)

section \<open>The invariant\<close>

definition retained_ok :: "u64 \<Rightarrow> owners \<Rightarrow> bool" where
  "retained_ok m s \<longleftrightarrow>
     (m \<noteq> 0 \<longrightarrow> ow_paused s \<and> ow_requests_fenced s \<and> \<not> ow_paused_ready s \<and>
        \<not> ow_requests_ready s \<and> (\<exists>n < 64. m = slot_mask n \<and> bit (ow_active s) n))"

definition limits_ok :: "owners \<Rightarrow> bool" where
  "limits_ok s \<longleftrightarrow> (\<forall>q. 1 \<le> turn_limit q s \<and> turn_limit q s \<le> 64)"

definition slots_bounded :: "owners \<Rightarrow> bool" where
  "slots_bounded s \<longleftrightarrow> (\<forall>q i. bit (turn_count q s) i \<longrightarrow> int i < turn_limit q s)"

definition fences_drained :: "owners \<Rightarrow> bool" where
  "fences_drained s \<longleftrightarrow> (\<forall>q. fence_ready q s \<longrightarrow> fence_closed q s \<and> turn_count q s = 0)"

definition state_ok :: "owners \<Rightarrow> bool" where
  "state_ok s \<longleftrightarrow> limits_ok s \<and> slots_bounded s \<and> fences_drained s \<and>
     retained_ok (ow_terminal s) s \<and> retained_ok (ow_measurement s) s \<and>
     (ow_terminal s = 0 \<or> ow_measurement s = 0) \<and>
     (ow_measurement s \<noteq> 0 \<longrightarrow> ow_measurement_used s) \<and>
     (ow_err s \<noteq> None \<longrightarrow> ow_ctx_done s)"

lemmas accessor_defs = turn_count_def set_turn_count_def turn_generations_def
  set_turn_generations_def turn_limit_def fence_closed_def fence_ready_def set_closed_def
  set_ready_def

lemmas state_ok_defs = state_ok_def limits_ok_def slots_bounded_def fences_drained_def
  retained_ok_def all_bool_eq

lemma state_ok_notify [simp]: "state_ok (notifyLocked s) = state_ok s"
  by (simp add: state_ok_defs accessor_defs notifyLocked_def)

lemma state_ok_waiters [simp]: "state_ok (s\<lparr>ow_waiters := n\<rparr>) = state_ok s"
  by (simp add: state_ok_defs accessor_defs)

lemma state_ok_latched: "state_ok s \<Longrightarrow> state_ok (s\<lparr>ow_err := Some e, ow_ctx_done := True\<rparr>)"
  by (simp add: state_ok_defs accessor_defs)

lemma state_ok_fail: "state_ok s \<Longrightarrow> failLocked e s = (e', s') \<Longrightarrow> state_ok s'"
  by (auto simp: failLocked_def state_ok_latched split: option.splits)

lemma state_ok_failed: "state_ok s \<Longrightarrow> failed e s = (r, s') \<Longrightarrow> state_ok s'"
  by (auto simp: failed_def split: prod.splits dest: state_ok_fail)

lemma state_ok_cancel: "state_ok s \<Longrightarrow> state_ok (s\<lparr>ow_ctx_done := True\<rparr>)"
  by (simp add: state_ok_defs accessor_defs)

lemma state_ok_unpark [simp]: "state_ok (unpark p s) = state_ok s"
  by (simp add: unpark_def)

text \<open>A successful entry takes a free slot below the limit.\<close>

lemma enterLocked_Returned:
  assumes "enterLocked q s = (Returned t, s')" and "limits_ok s"
  obtains n where "n < 64" "int n < turn_limit q s" "\<not> bit (turn_count q s) n"
    "turn_generations q s n \<noteq> - 1" "turn_slot t = n" "turn_request t = q"
    "turn_generation t = turn_generations q s n + 1"
    "s' = set_turn_count q (turn_count q s OR slot_mask n)
            (set_turn_generations q ((turn_generations q s)(n := turn_generations q s n + 1)) s)"
proof -
  let ?a = "available_slots q s"
  from assms(1) have ne: "?a \<noteq> 0"
    by (auto simp: enterLocked_def failed_def Let_def split: if_splits prod.splits)
  from trailing_zeros64 [OF ne] assms(2) have
    n: "trailing_zeros64 ?a < 64" "int (trailing_zeros64 ?a) < turn_limit q s"
       "\<not> bit (turn_count q s) (trailing_zeros64 ?a)"
    by (auto simp: bit_available_slots limits_ok_def)
  show ?thesis
    by (rule that [OF n]) (use assms(1) ne in
      \<open>auto simp: enterLocked_def failed_def Let_def split: if_splits prod.splits\<close>)
qed

lemma enterLocked_cases:
  obtains (ok) t where "enterLocked q s = (Returned t, snd (enterLocked q s))"
  | (fail) "enterLocked q s = failed ErrLimit s"
proof (cases "enterLocked q s = failed ErrLimit s")
  case False
  then have "\<exists>t. fst (enterLocked q s) = Returned t"
    by (auto simp: enterLocked_def Let_def split: if_splits)
  then show ?thesis using ok by (metis prod.collapse)
qed (rule fail)

lemma state_ok_enterLocked:
  assumes "state_ok s" "enterLocked q s = (r, s')" "\<not> fence_closed q s"
  shows "state_ok s'"
proof (cases q s rule: enterLocked_cases)
  case (ok t)
  with assms have "enterLocked q s = (Returned t, s')" by simp
  then obtain n where n: "n < 64" "int n < turn_limit q s" "\<not> bit (turn_count q s) n"
    "s' = set_turn_count q (turn_count q s OR slot_mask n)
            (set_turn_generations q ((turn_generations q s)(n := turn_generations q s n + 1)) s)"
    using assms(1) by (auto elim!: enterLocked_Returned simp: state_ok_def)
  show ?thesis
    using assms(1,3) n(1,2) unfolding n(4)
    by (cases q) (auto simp: state_ok_defs accessor_defs bit_or_iff)
next
  case fail
  with assms show ?thesis by (metis state_ok_failed)
qed


lemma state_ok_enter_iteration:
  "state_ok s \<Longrightarrow> enter_iteration p c s = (r, s') \<Longrightarrow> state_ok s'"
  by (auto simp: enter_iteration_def fence_closed_def split: option.splits if_splits prod.splits
      dest: state_ok_failed state_ok_enterLocked [where q = False])

lemma state_ok_enter_call: "state_ok s \<Longrightarrow> enter_call c s = (r, s') \<Longrightarrow> state_ok s'"
  by (auto simp: enter_call_def split: if_splits dest: state_ok_failed state_ok_enter_iteration)

lemma state_ok_request_call: "state_ok s \<Longrightarrow> request_call c s = (r, s') \<Longrightarrow> state_ok s'"
  by (auto simp: request_call_def fence_closed_def split: option.splits if_splits
      dest: state_ok_failed state_ok_enterLocked [where q = True])

text \<open>Ending a turn: either the token is refused and the barrier fails, or exactly the token's
  bit is cleared.\<close>

definition turn_live :: "owner_turn \<Rightarrow> owners \<Rightarrow> bool" where
  "turn_live t s \<longleftrightarrow> turn_generation t \<noteq> 0 \<and> turn_slot t < 64 \<and>
     bit (turn_count (turn_request t) s) (turn_slot t) \<and>
     turn_generations (turn_request t) s (turn_slot t) = turn_generation t"

definition turn_retained :: "owner_turn \<Rightarrow> owners \<Rightarrow> bool" where
  "turn_retained t s \<longleftrightarrow> \<not> turn_request t \<and>
     (ow_terminal s = slot_mask (turn_slot t) \<or> ow_measurement s = slot_mask (turn_slot t))"

definition cleared :: "owner_turn \<Rightarrow> owners \<Rightarrow> owners" where
  "cleared t s = set_turn_count (turn_request t)
     (turn_count (turn_request t) s AND NOT (slot_mask (turn_slot t))) s"

lemma end_call_refused:
  "\<not> (turn_live t s \<and> \<not> turn_retained t s) \<Longrightarrow> end_call t s = snd (failLocked ErrProtocol s)"
  by (auto simp: end_call_def turn_live_def turn_retained_def and_slot_mask_eq_0 Let_def)

lemma end_call_accepted:
  assumes "turn_live t s" "\<not> turn_retained t s"
  shows "end_call t s = (if turn_count (turn_request t) (cleared t s) = 0 \<and>
             fence_closed (turn_request t) s \<or>
           \<not> turn_request t \<and> (ow_terminal s \<noteq> 0 \<and> ow_active (cleared t s) = ow_terminal s \<or>
             ow_measurement s \<noteq> 0 \<and> ow_active (cleared t s) = ow_measurement s)
         then notifyLocked (cleared t s) else cleared t s)"
  using assms
  by (cases "turn_request t")
    (auto simp: end_call_def turn_live_def turn_retained_def and_slot_mask_eq_0 cleared_def
      accessor_defs Let_def)

lemma retained_ok_cleared:
  assumes "retained_ok m s" "turn_request t \<or> m \<noteq> slot_mask (turn_slot t)"
  shows "retained_ok m (cleared t s)"
proof (cases "turn_request t")
  case True
  with assms(1) show ?thesis by (simp add: retained_ok_def cleared_def accessor_defs)
next
  case False
  with assms have "\<And>n. m = slot_mask n \<Longrightarrow> n \<noteq> turn_slot t" by auto
  with assms(1) False show ?thesis
    by (fastforce simp: retained_ok_def cleared_def accessor_defs bit_and_iff bit_not_iff)
qed

lemma turn_count_cleared: "turn_count q (cleared t s) = (if q = turn_request t
    then turn_count q s AND NOT (slot_mask (turn_slot t)) else turn_count q s)"
  by (auto simp: cleared_def accessor_defs)

lemma cleared_frame [simp]:
  "turn_limit q (cleared t s) = turn_limit q s" "fence_ready q (cleared t s) = fence_ready q s"
  "fence_closed q (cleared t s) = fence_closed q s" "ow_terminal (cleared t s) = ow_terminal s"
  "ow_measurement (cleared t s) = ow_measurement s" "ow_err (cleared t s) = ow_err s"
  "ow_measurement_used (cleared t s) = ow_measurement_used s"
  "ow_ctx_done (cleared t s) = ow_ctx_done s" "ow_changed (cleared t s) = ow_changed s"
  "ow_waiters (cleared t s) = ow_waiters s" "ow_paused (cleared t s) = ow_paused s"
  "ow_limit_owners (cleared t s) = ow_limit_owners s"
  by (simp_all add: cleared_def accessor_defs)

lemma state_ok_cleared:
  assumes "state_ok s" "turn_live t s" "\<not> turn_retained t s"
  shows "state_ok (cleared t s)"
proof -
  have "slots_bounded (cleared t s)"
    using assms(1) by (auto simp: state_ok_def slots_bounded_def turn_count_cleared bit_and_iff)
  moreover have "fences_drained (cleared t s)"
    using assms(1,2) by (auto simp: state_ok_def fences_drained_def turn_count_cleared turn_live_def)
  moreover have "retained_ok (ow_terminal s) (cleared t s)" "retained_ok (ow_measurement s) (cleared t s)"
    using assms(1,3) by (auto simp: state_ok_def turn_retained_def intro!: retained_ok_cleared)
  ultimately show ?thesis
    using assms(1) by (simp add: state_ok_def limits_ok_def)
qed

lemma state_ok_end_call: "state_ok s \<Longrightarrow> state_ok (end_call t s)"
proof (cases "turn_live t s \<and> \<not> turn_retained t s")
  case True
  moreover assume "state_ok s"
  ultimately show ?thesis by (simp add: end_call_accepted state_ok_cleared)
next
  case False
  moreover assume "state_ok s"
  ultimately show ?thesis
    by (simp add: end_call_refused) (metis state_ok_fail prod.collapse)
qed

lemma state_ok_retained_iteration:
  "state_ok s \<Longrightarrow> retained_iteration m c s = (r, s') \<Longrightarrow> state_ok s'"
  by (auto simp: retained_iteration_def split: option.splits if_splits dest: state_ok_failed)


lemma retainableD:
  assumes "retainable t s"
  shows "turn_slot t < 64" "bit (ow_active s) (turn_slot t)" "ow_terminal s = 0"
    "ow_measurement s = 0" "\<not> ow_paused s" "\<not> ow_requests_fenced s"
    "\<not> ow_paused_ready s" "\<not> ow_requests_ready s"
  using assms by (auto simp: retainable_def and_slot_mask_eq_0)

lemma state_ok_retain_terminal:
  assumes "state_ok s" "retainable t s"
  shows "state_ok (s\<lparr>ow_terminal := slot_mask (turn_slot t), ow_paused := True,
    ow_requests_fenced := True\<rparr>)"
  using assms(1) retainableD [OF assms(2)] by (auto simp: state_ok_defs accessor_defs)

lemma state_ok_retain_measurement:
  assumes "state_ok s" "retainable t s"
  shows "state_ok (s\<lparr>ow_measurement_used := True, ow_measurement := slot_mask (turn_slot t),
    ow_paused := True, ow_requests_fenced := True\<rparr>)"
  using assms(1) retainableD [OF assms(2)] by (auto simp: state_ok_defs accessor_defs)

lemma state_ok_terminal_call: "state_ok s \<Longrightarrow> terminal_call t c s = (r, s') \<Longrightarrow> state_ok s'"
  by (auto simp: terminal_call_def split: option.splits if_splits dest: state_ok_failed
      elim!: state_ok_retained_iteration [rotated] intro: state_ok_retain_terminal)

lemma state_ok_measurement_call: "state_ok s \<Longrightarrow> measurement_call t c s = (r, s') \<Longrightarrow> state_ok s'"
  by (auto simp: measurement_call_def split: option.splits if_splits dest: state_ok_failed
      elim!: state_ok_retained_iteration [rotated] intro: state_ok_retain_measurement)

lemma state_ok_set_ready:
  assumes "state_ok s" "fence_closed q s" "turn_count q s = 0" "ow_terminal s = 0" "ow_measurement s = 0"
  shows "state_ok (set_ready q True s)"
  using assms by (cases q) (auto simp: state_ok_defs accessor_defs)

lemma state_ok_fence_iteration:
  "state_ok s \<Longrightarrow> fence_closed q s \<Longrightarrow> ow_terminal s = 0 \<Longrightarrow> ow_measurement s = 0 \<Longrightarrow>
   fence_iteration q c s = (r, s') \<Longrightarrow> state_ok s'"
  by (auto simp: fence_iteration_def state_ok_set_ready split: option.splits if_splits
      dest: state_ok_failed)

lemma state_ok_set_closed:
  "state_ok s \<Longrightarrow> state_ok (set_closed q True s)"
  by (cases q) (auto simp: state_ok_defs accessor_defs)

lemma set_closed_frame [simp]:
  "fence_closed q (notifyLocked (set_closed q v s)) = v"
  "ow_terminal (notifyLocked (set_closed q v s)) = ow_terminal s"
  "ow_measurement (notifyLocked (set_closed q v s)) = ow_measurement s"
  by (simp_all add: accessor_defs notifyLocked_def)

lemma state_ok_fence_call: "state_ok s \<Longrightarrow> fence_call q c s = (r, s') \<Longrightarrow> state_ok s'"
  by (auto simp: fence_call_def split: if_splits dest: state_ok_failed
      elim!: state_ok_fence_iteration [rotated -1] intro: state_ok_set_closed)

lemma state_ok_reopened:
  assumes "state_ok s" "ow_terminal s = 0" "ow_measurement s = 0"
  shows "state_ok (set_ready q False (set_closed q False s))"
  using assms by (cases q) (auto simp: state_ok_defs accessor_defs)

lemma state_ok_reopen_call: "state_ok s \<Longrightarrow> reopen_call q s = (r, s') \<Longrightarrow> state_ok s'"
  by (auto simp: reopen_call_def state_ok_reopened split: option.splits if_splits dest: state_ok_failed)

lemma validLockedD:
  assumes "validLocked t original c s"
  shows "ow_measurement s = slot_mask (turn_slot t)" "ow_active s = slot_mask (turn_slot t)"
    "ow_requests s = 0" "ow_terminal s = 0" "\<not> ow_paused_ready s" "\<not> ow_requests_ready s"
    "ow_err s = None" "ow_paused s" "ow_requests_fenced s"
  using assms
  by (cases c; cases original; auto simp: validLocked_def split: option.splits)+

lemma state_ok_resumed:
  assumes "state_ok s" "validLocked t original c s"
  shows "state_ok (s\<lparr>ow_measurement := 0, ow_paused := False, ow_requests_fenced := False\<rparr>)"
  using assms(1) validLockedD [OF assms(2)] by (auto simp: state_ok_defs accessor_defs)

lemma state_ok_resume_call: "state_ok s \<Longrightarrow> resume_call t original c s = (r, s') \<Longrightarrow> state_ok s'"
  by (auto simp: resume_call_def state_ok_resumed split: if_splits dest: state_ok_failed)


section \<open>Pending calls\<close>

text \<open>While a call is pending, \<open>stable\<close> says what nobody else may undo; if its epoch is still the
  current one, nothing has been notified since it looked, and \<open>blocked\<close> says that what it
  waits for has not happened either.\<close>

fun stable :: "pending \<Rightarrow> owners \<Rightarrow> bool" where
  "stable (PEnter _) s = True"
| "stable (PFence q _) s = (fence_closed q s \<and> \<not> fence_ready q s \<and>
     ow_terminal s = 0 \<and> ow_measurement s = 0)"
| "stable (PTerminal t _) s = (ow_terminal s = slot_mask (turn_slot t) \<and> turn_slot t < 64)"
| "stable (PMeasure t _) s = (ow_measurement s = slot_mask (turn_slot t) \<and> turn_slot t < 64)"

fun blocked :: "pending \<Rightarrow> owners \<Rightarrow> bool" where
  "blocked (PEnter _) s = ow_paused s"
| "blocked (PFence q _) s = (turn_count q s \<noteq> 0)"
| "blocked (PTerminal t _) s = (\<not> (ow_active s = slot_mask (turn_slot t) \<and> ow_requests s = 0))"
| "blocked (PMeasure t _) s = (\<not> (ow_active s = slot_mask (turn_slot t) \<and> ow_requests s = 0))"

definition pend_ok :: "owners \<Rightarrow> pending \<Rightarrow> bool" where
  "pend_ok s p \<longleftrightarrow> stable p s \<and> epoch p \<le> ow_changed s \<and>
     (epoch p = ow_changed s \<longrightarrow> ow_err s = None \<and> blocked p s)"

lemma pend_ok_notifyI: "stable p s \<Longrightarrow> epoch p \<le> ow_changed s \<Longrightarrow> pend_ok (notifyLocked s) p"
  by (cases p) (auto simp: pend_ok_def notifyLocked_def accessor_defs)

lemma pend_ok_fail: "pend_ok s p \<Longrightarrow> failLocked e s = (e', s') \<Longrightarrow> pend_ok s' p"
  by (cases p)
    (auto simp: failLocked_def pend_ok_def notifyLocked_def accessor_defs split: option.splits if_splits)

lemma pend_ok_failed: "pend_ok s p \<Longrightarrow> failed e s = (r, s') \<Longrightarrow> pend_ok s' p"
  by (auto simp: failed_def split: prod.splits dest: pend_ok_fail)

lemma pend_ok_waiters [simp]: "pend_ok (s\<lparr>ow_waiters := n\<rparr>) p = pend_ok s p"
  by (cases p) (auto simp: pend_ok_def accessor_defs)

lemma pend_ok_unpark [simp]: "pend_ok (unpark b s) p = pend_ok s p"
  by (simp add: unpark_def)

lemma pend_ok_cancel [simp]: "pend_ok (s\<lparr>ow_ctx_done := True\<rparr>) p = pend_ok s p"
  by (cases p) (auto simp: pend_ok_def accessor_defs)

lemma or_slot_mask_eq_0: "n < 64 \<Longrightarrow> w OR slot_mask n \<noteq> 0"
  by (auto simp: u64_eq_iff bit_or_iff)

lemma pend_ok_enterLocked:
  assumes "state_ok s" "pend_ok s p" "\<not> fence_closed q s" "enterLocked q s = (r, s')"
  shows "pend_ok s' p"
proof (cases q s rule: enterLocked_cases)
  case (ok t)
  with assms have "enterLocked q s = (Returned t, s')" by simp
  then obtain n where n: "n < 64"
    "s' = set_turn_count q (turn_count q s OR slot_mask n)
            (set_turn_generations q ((turn_generations q s)(n := turn_generations q s n + 1)) s)"
    using assms(1) by (auto elim!: enterLocked_Returned simp: state_ok_def)
  have "ow_terminal s = 0" "ow_measurement s = 0"
    using assms(1,3) by (auto simp: state_ok_def retained_ok_def fence_closed_def split: if_splits)
  then show ?thesis
    using assms(2) n(1) or_slot_mask_eq_0 [OF n(1)] unfolding n(2)
    by (cases p) (auto simp: pend_ok_def accessor_defs)
next
  case fail
  with assms show ?thesis by (metis pend_ok_failed)
qed

lemma pend_ok_enter_iteration:
  "state_ok s \<Longrightarrow> pend_ok s p \<Longrightarrow> enter_iteration b c s = (r, s') \<Longrightarrow> pend_ok s' p"
  by (auto simp: enter_iteration_def fence_closed_def split: option.splits if_splits prod.splits
      dest: pend_ok_failed pend_ok_enterLocked [where q = False])

lemma pend_ok_enter_call:
  "state_ok s \<Longrightarrow> pend_ok s p \<Longrightarrow> enter_call c s = (r, s') \<Longrightarrow> pend_ok s' p"
  by (auto simp: enter_call_def split: if_splits dest: pend_ok_failed pend_ok_enter_iteration)

lemma pend_ok_request_call:
  "state_ok s \<Longrightarrow> pend_ok s p \<Longrightarrow> request_call c s = (r, s') \<Longrightarrow> pend_ok s' p"
  by (auto simp: request_call_def fence_closed_def split: option.splits if_splits
      dest: pend_ok_failed pend_ok_enterLocked [where q = True])

lemma stable_cleared [simp]: "stable p (cleared t s) = stable p s"
  by (cases p) simp_all

lemma blocked_cleared:
  assumes "state_ok s" "stable p s" "blocked p s" "turn_live t s"
    and "\<not> (turn_count (turn_request t) (cleared t s) = 0 \<and> fence_closed (turn_request t) s)"
    and "\<not> (\<not> turn_request t \<and> (ow_terminal s \<noteq> 0 \<and> ow_active (cleared t s) = ow_terminal s \<or>
             ow_measurement s \<noteq> 0 \<and> ow_active (cleared t s) = ow_measurement s))"
  shows "blocked p (cleared t s)"
proof -
  have fenced: "fence_closed True s" if "ow_terminal s \<noteq> 0 \<or> ow_measurement s \<noteq> 0"
    using that assms(1) by (auto simp: state_ok_def retained_ok_def fence_closed_def)
  show ?thesis
  proof (cases p)
    case (PEnter e)
    with assms(3) show ?thesis by simp
  next
    case (PFence q e)
    with assms(2,3,5) show ?thesis by (cases "q = turn_request t") (auto simp: turn_count_cleared)
  next
    case (PTerminal u e)
    with assms(2,5,6) fenced show ?thesis
      by (cases "turn_request t") (auto simp: turn_count_def)
  next
    case (PMeasure u e)
    with assms(2,5,6) fenced show ?thesis
      by (cases "turn_request t") (auto simp: turn_count_def)
  qed
qed

lemma pend_ok_end_call:
  assumes "state_ok s" "pend_ok s p"
  shows "pend_ok (end_call t s) p"
proof (cases "turn_live t s \<and> \<not> turn_retained t s")
  case True
  let ?now = "turn_count (turn_request t) (cleared t s) = 0 \<and> fence_closed (turn_request t) s \<or>
           \<not> turn_request t \<and> (ow_terminal s \<noteq> 0 \<and> ow_active (cleared t s) = ow_terminal s \<or>
             ow_measurement s \<noteq> 0 \<and> ow_active (cleared t s) = ow_measurement s)"
  have eq: "end_call t s = (if ?now then notifyLocked (cleared t s) else cleared t s)"
    using True by (simp add: end_call_accepted)
  show ?thesis
  proof (cases ?now)
    case True
    have "pend_ok (notifyLocked (cleared t s)) p"
      using assms(2) by (intro pend_ok_notifyI) (auto simp: pend_ok_def)
    then show ?thesis unfolding eq if_P [OF True] .
  next
    case False
    have "blocked p s \<Longrightarrow> blocked p (cleared t s)"
      using assms \<open>turn_live t s \<and> \<not> turn_retained t s\<close> False
      by (intro blocked_cleared) (auto simp: pend_ok_def)
    then have "pend_ok (cleared t s) p"
      using assms(2) by (auto simp: pend_ok_def)
    then show ?thesis unfolding eq if_not_P [OF False] .
  qed
next
  case False
  then show ?thesis
    using assms(2) by (simp add: end_call_refused) (metis pend_ok_fail prod.collapse)
qed

lemma pend_ok_retained_iteration:
  "pend_ok s p \<Longrightarrow> retained_iteration m c s = (r, s') \<Longrightarrow> pend_ok s' p"
  by (auto simp: retained_iteration_def split: option.splits if_splits dest: pend_ok_failed)

text \<open>The fences start only when no other fence is pending, so they disturb no pending call.\<close>

lemma pend_ok_retain:
  assumes "pend_ok s p" "retainable t s"
    and "s' = s\<lparr>ow_terminal := slot_mask (turn_slot t), ow_paused := True, ow_requests_fenced := True\<rparr> \<or>
      s' = s\<lparr>ow_measurement_used := True, ow_measurement := slot_mask (turn_slot t),
        ow_paused := True, ow_requests_fenced := True\<rparr>"
  shows "pend_ok (notifyLocked s') p"
proof (rule pend_ok_notifyI)
  show "stable p s'"
    using assms retainableD [OF assms(2)]
    by (cases p) (auto simp: pend_ok_def accessor_defs split: if_splits)
  show "epoch p \<le> ow_changed s'"
    using assms(1,3) by (auto simp: pend_ok_def)
qed

lemma pend_ok_terminal_call:
  "pend_ok s p \<Longrightarrow> terminal_call t c s = (r, s') \<Longrightarrow> pend_ok s' p"
  by (auto simp: terminal_call_def split: option.splits if_splits
      dest: pend_ok_failed pend_ok_retain pend_ok_retained_iteration)

lemma pend_ok_measurement_call:
  "pend_ok s p \<Longrightarrow> measurement_call t c s = (r, s') \<Longrightarrow> pend_ok s' p"
  by (auto simp: measurement_call_def split: option.splits if_splits
      dest: pend_ok_failed pend_ok_retain pend_ok_retained_iteration)

fun is_fence :: "bool \<Rightarrow> pending \<Rightarrow> bool" where
  "is_fence q (PFence r _) = (q = r)"
| "is_fence q _ = False"

lemma stable_fence_closed: "stable p s \<Longrightarrow> is_fence q p \<Longrightarrow> fence_closed q s"
  by (cases p) (simp_all only: is_fence.simps stable.simps)

lemma pend_ok_set_ready:
  "pend_ok s p \<Longrightarrow> \<not> is_fence q p \<Longrightarrow> pend_ok (set_ready q True s) p"
  by (cases p) (auto simp: pend_ok_def accessor_defs)

lemma pend_ok_fence_iteration:
  "pend_ok s p \<Longrightarrow> \<not> is_fence q p \<Longrightarrow> fence_iteration q c s = (r, s') \<Longrightarrow> pend_ok s' p"
  by (auto simp: fence_iteration_def pend_ok_set_ready split: option.splits if_splits dest: pend_ok_failed)

lemma pend_ok_set_closed:
  "pend_ok s p \<Longrightarrow> pend_ok (notifyLocked (set_closed q True s)) p"
  by (rule pend_ok_notifyI; cases p) (auto simp: pend_ok_def accessor_defs)

lemma pend_ok_fence_call:
  assumes "pend_ok s p" "fence_call q c s = (r, s')"
  shows "pend_ok s' p"
proof (cases "is_fence q p")
  case True
  then have "fence_closed q s" using assms(1) by (cases p) (auto simp: pend_ok_def)
  then show ?thesis using assms by (auto simp: fence_call_def split: if_splits dest: pend_ok_failed)
next
  case False
  then show ?thesis using assms
    by (auto simp: fence_call_def split: if_splits
        dest: pend_ok_failed pend_ok_set_closed pend_ok_fence_iteration [rotated])
qed

lemma pend_ok_reopen_call:
  assumes "state_ok s" "pend_ok s p" "reopen_call q s = (r, s')"
  shows "pend_ok s' p"
proof -
  have "pend_ok (notifyLocked (set_ready q False (set_closed q False s))) p"
    if "fence_ready q s" "ow_terminal s = 0" "ow_measurement s = 0"
    using that assms(2) by (intro pend_ok_notifyI; cases p) (auto simp: pend_ok_def accessor_defs split: if_splits)
  then show ?thesis
    using assms by (auto simp: reopen_call_def split: option.splits if_splits dest: pend_ok_failed)
qed

fun is_measure :: "pending \<Rightarrow> bool" where
  "is_measure (PMeasure _ _) = True"
| "is_measure _ = False"

lemma pend_ok_resume_call:
  assumes "pend_ok s p" "\<not> is_measure p" "turn_slot t < 64" "resume_call t original c s = (r, s')"
  shows "pend_ok s' p"
proof -
  have "pend_ok (notifyLocked (s\<lparr>ow_measurement := 0, ow_paused := False, ow_requests_fenced := False\<rparr>)) p"
    if v: "validLocked t original c s"
  proof (rule pend_ok_notifyI)
    have "ow_measurement s \<noteq> 0" "ow_terminal s = 0"
      using validLockedD(1,4) [OF v] assms(3) by auto
    then show "stable p (s\<lparr>ow_measurement := 0, ow_paused := False, ow_requests_fenced := False\<rparr>)"
      using assms(1,2) by (cases p) (simp_all add: pend_ok_def)
  qed (use assms(1) in \<open>simp add: pend_ok_def\<close>)
  then show ?thesis
    using assms(4) pend_ok_failed [OF assms(1), of ErrProtocol r s']
    unfolding resume_call_def by (metis prod.inject)
qed


text \<open>The call that starts or goes on waiting is itself in order.\<close>

lemma failed_not_Waiting [simp]: "failed e s \<noteq> (Waiting n, s')"
  by (auto simp: failed_def split: prod.splits)

lemma enterLocked_not_Waiting [simp]: "enterLocked q s \<noteq> (Waiting n, s')"
  by (auto simp: enterLocked_def Let_def)

lemma enter_iteration_Waiting:
  "enter_iteration b c s = (Waiting e, s') \<Longrightarrow> pend_ok s' (PEnter e)"
proof -
  assume it: "enter_iteration b c s = (Waiting e, s')"
  then have err: "ow_err s = None" by (auto simp: enter_iteration_def split: option.splits)
  with it have paused: "ow_paused s"
    by (cases "ow_paused s") (simp_all add: enter_iteration_def split: if_splits prod.splits)
  have "ow_changed s = e \<and> (s' = s \<or> s' = s\<lparr>ow_waiters := ow_waiters s + 1\<rparr>)"
    using it err paused by (simp add: enter_iteration_def split: if_splits) fastforce+
  moreover have "pend_ok s (PEnter (ow_changed s))"
    using err paused by (simp add: pend_ok_def)
  ultimately show ?thesis by (elim conjE disjE) simp_all
qed

lemma enter_call_Waiting: "enter_call c s = (Waiting e, s') \<Longrightarrow> pend_ok s' (PEnter e)"
  by (auto simp: enter_call_def split: if_splits dest: enter_iteration_Waiting)

lemma fence_iteration_Waiting:
  "fence_iteration q c s = (Waiting e, s') \<Longrightarrow> stable (PFence q e) s \<Longrightarrow> pend_ok s' (PFence q e)"
  by (auto simp: fence_iteration_def pend_ok_def split: option.splits if_splits)

lemma fence_call_Waiting:
  assumes "state_ok s" "fence_call q c s = (Waiting e, s')"
  shows "pend_ok s' (PFence q e) \<and> \<not> fence_closed q s"
proof -
  have nc: "\<not> fence_closed q s" and z: "ow_terminal s = 0" "ow_measurement s = 0"
    and it: "fence_iteration q c (notifyLocked (set_closed q True s)) = (Waiting e, s')"
    using assms(2) by (auto simp: fence_call_def split: if_splits)
  have "\<not> fence_ready q s"
    using assms(1) nc by (auto simp: state_ok_def fences_drained_def)
  then have "stable (PFence q e) (notifyLocked (set_closed q True s))"
    using z by (auto simp: accessor_defs notifyLocked_def)
  with it nc show ?thesis by (auto dest: fence_iteration_Waiting)
qed

lemma retained_iteration_Waiting:
  "retained_iteration (slot_mask (turn_slot t)) c s = (Waiting e, s') \<Longrightarrow>
   stable (PTerminal t e) s \<Longrightarrow> pend_ok s' (PTerminal t e)"
  "retained_iteration (slot_mask (turn_slot t)) c s = (Waiting e, s') \<Longrightarrow>
   stable (PMeasure t e) s \<Longrightarrow> pend_ok s' (PMeasure t e)"
  by (auto simp: retained_iteration_def pend_ok_def split: option.splits if_splits)

lemma terminal_call_Waiting: "terminal_call t c s = (Waiting e, s') \<Longrightarrow> pend_ok s' (PTerminal t e)"
  by (auto simp: terminal_call_def notifyLocked_def split: option.splits if_splits
      dest: retainableD(1) intro!: retained_iteration_Waiting(1))

lemma measurement_call_Waiting: "measurement_call t c s = (Waiting e, s') \<Longrightarrow> pend_ok s' (PMeasure t e)"
  by (auto simp: measurement_call_def notifyLocked_def split: option.splits if_splits
      dest: retainableD(1) intro!: retained_iteration_Waiting(2))

text \<open>Which operations touch the waiter count and the measurement flag.\<close>

definition same_counts :: "owners \<Rightarrow> owners \<Rightarrow> bool" where
  "same_counts s s' \<longleftrightarrow> ow_waiters s' = ow_waiters s \<and> ow_limit_owners s' = ow_limit_owners s \<and>
     ow_measurement_used s' = ow_measurement_used s"

lemma same_counts_refl [simp]: "same_counts s s"
  by (simp add: same_counts_def)

lemma same_counts_failLocked: "failLocked e s = (e', s') \<Longrightarrow> same_counts s s'"
  by (auto simp: failLocked_def same_counts_def notifyLocked_def split: option.splits)

lemma same_counts_failed: "failed e s = (r, s') \<Longrightarrow> same_counts s s'"
  by (auto simp: failed_def split: prod.splits dest: same_counts_failLocked)

lemma same_counts_enterLocked: "enterLocked q s = (r, s') \<Longrightarrow> same_counts s s'"
  by (auto simp: enterLocked_def Let_def same_counts_def accessor_defs split: if_splits
      dest: same_counts_failed [unfolded same_counts_def])

lemma same_counts_request_call: "request_call c s = (r, s') \<Longrightarrow> same_counts s s'"
  by (auto simp: request_call_def split: option.splits if_splits
      dest: same_counts_failed same_counts_enterLocked)

lemma same_counts_end_call: "same_counts s (end_call t s)"
proof (cases "turn_live t s \<and> \<not> turn_retained t s")
  case True
  then show ?thesis by (simp add: end_call_accepted same_counts_def notifyLocked_def)
next
  case False
  then show ?thesis by (simp add: end_call_refused) (metis same_counts_failLocked prod.collapse)
qed

lemma same_counts_fence_iteration: "fence_iteration q c s = (r, s') \<Longrightarrow> same_counts s s'"
  by (auto simp: fence_iteration_def split: option.splits if_splits dest: same_counts_failed)
    (auto simp: same_counts_def accessor_defs)

lemma same_counts_fence_call: "fence_call q c s = (r, s') \<Longrightarrow> same_counts s s'"
  by (auto simp: fence_call_def split: if_splits dest: same_counts_failed
      dest!: same_counts_fence_iteration) (auto simp: same_counts_def accessor_defs notifyLocked_def)

lemma same_counts_reopen_call: "reopen_call q s = (r, s') \<Longrightarrow> same_counts s s'"
  by (auto simp: reopen_call_def split: option.splits if_splits dest: same_counts_failed)
    (auto simp: same_counts_def accessor_defs notifyLocked_def)

lemma same_counts_retained_iteration: "retained_iteration m c s = (r, s') \<Longrightarrow> same_counts s s'"
  by (auto simp: retained_iteration_def split: option.splits if_splits dest: same_counts_failed)

lemma same_counts_terminal_call: "terminal_call t c s = (r, s') \<Longrightarrow> same_counts s s'"
  by (auto simp: terminal_call_def split: option.splits if_splits dest: same_counts_failed
      dest!: same_counts_retained_iteration) (auto simp: same_counts_def notifyLocked_def)

lemma same_counts_resume_call: "resume_call t original c s = (r, s') \<Longrightarrow> same_counts s s'"
  by (auto simp: resume_call_def split: if_splits dest: same_counts_failed)
    (auto simp: same_counts_def notifyLocked_def)

lemma failed_result: "failed e s = (r, s') \<Longrightarrow> same_counts s s' \<and> (\<exists>e'. r = Failed e')"
  using same_counts_failed by (fastforce simp: failed_def split: prod.splits)

lemma enterLocked_result:
  "enterLocked q s = (r, s') \<Longrightarrow> same_counts s s' \<and> (\<forall>n. r \<noteq> Waiting n)"
  using same_counts_enterLocked enterLocked_not_Waiting by blast

lemma enter_iteration_counts:
  assumes "enter_iteration b c s = (r, s')"
  shows "ow_limit_owners s' = ow_limit_owners s \<and> ow_measurement_used s' = ow_measurement_used s \<and>
    (case r of Waiting _ \<Rightarrow> ow_waiters s' = ow_waiters s + of_bool (\<not> b) \<and>
                 (\<not> b \<longrightarrow> ow_waiters s \<noteq> ow_limit_owners s)
     | _ \<Rightarrow> ow_waiters s' = ow_waiters s - of_bool b)"
  using assms
  by (auto simp: enter_iteration_def unpark_def same_counts_def
      split: option.splits if_splits prod.splits outcome.split
      dest!: failed_result enterLocked_result)

lemma measurement_call_cases:
  assumes "measurement_call t c s = (r, s')"
  obtains (refused) "same_counts s s'" "\<exists>e. r = Failed e"
  | (started) "retainable t s" "\<not> ow_measurement_used s"
      "retained_iteration (slot_mask (turn_slot t)) c
         (notifyLocked (s\<lparr>ow_measurement_used := True, ow_measurement := slot_mask (turn_slot t),
            ow_paused := True, ow_requests_fenced := True\<rparr>)) = (r, s')"
  using assms by (auto simp: measurement_call_def split: option.splits if_splits dest!: failed_result)

lemma measurement_call_counts:
  assumes "measurement_call t c s = (r, s')"
  shows "ow_limit_owners s' = ow_limit_owners s \<and> ow_waiters s' = ow_waiters s \<and>
    (ow_measurement_used s \<longrightarrow> ow_measurement_used s') \<and>
    ((\<exists>e. r = Failed e) \<or> \<not> ow_measurement_used s \<and> ow_measurement_used s' \<and> turn_slot t < 64)"
  using assms
proof (cases rule: measurement_call_cases)
  case refused
  then show ?thesis by (simp add: same_counts_def)
next
  case started
  then show ?thesis
    using same_counts_retained_iteration [OF started(3)] retainableD(1) [OF started(1)]
    by (simp add: same_counts_def notifyLocked_def)
qed

section \<open>The world invariant\<close>

fun is_enter :: "pending \<Rightarrow> bool" where
  "is_enter (PEnter _) = True"
| "is_enter _ = False"

definition pcount :: "(pending \<Rightarrow> bool) \<Rightarrow> pending multiset \<Rightarrow> nat" where
  "pcount f P = size (filter_mset f P)"

lemma pcount_add [simp]: "pcount f (add_mset p P) = of_bool (f p) + pcount f P"
  by (simp add: pcount_def)

lemma pcount_zeroD: "pcount f P = 0 \<Longrightarrow> p \<in># P \<Longrightarrow> \<not> f p"
  by (auto simp: pcount_def)

fun world_ok :: "world \<Rightarrow> bool" where
  "world_ok (s, P, H) \<longleftrightarrow> state_ok s \<and> (\<forall>p \<in># P. pend_ok s p) \<and>
     ow_waiters s = int (pcount is_enter P) \<and> ow_waiters s \<le> ow_limit_owners s \<and>
     pcount (is_fence False) P \<le> 1 \<and> pcount (is_fence True) P \<le> 1 \<and>
     pcount is_measure P + size H \<le> of_bool (ow_measurement_used s) \<and>
     (\<forall>t \<in># H. turn_slot t < 64)"

lemma world_ok_same_counts:
  assumes "world_ok (s, P, H)" "same_counts s s'" "state_ok s'" "\<And>p. p \<in># P \<Longrightarrow> pend_ok s' p"
  shows "world_ok (s', P, H)"
  using assms by (simp add: same_counts_def)

lemma world_ok_drop: "world_ok (s, add_mset p P, H) \<Longrightarrow> \<not> is_enter p \<Longrightarrow> world_ok (s, P, H)"
  by auto

lemma world_ok_initial: "owners_initial w \<Longrightarrow> world_ok w"
  by (auto simp: owners_initial_def NewOwners_def state_ok_defs accessor_defs pcount_def
      split: if_splits)

lemma world_ok_enter:
  assumes w: "world_ok (s, if b then add_mset (PEnter e) P else P, H)"
    and it: "enter_iteration b c s = (r, s')"
  shows "world_ok (s', after PEnter r P, H)"
proof -
  have p: "pend_ok s' q" if "q \<in># P" for q
    using that w it by (auto intro: pend_ok_enter_iteration split: if_splits)
  note k = enter_iteration_counts [OF it] and s = state_ok_enter_iteration [OF _ it]
  show ?thesis
  proof (cases r)
    case (Waiting n)
    with it have "pend_ok s' (PEnter n)" by (auto dest: enter_iteration_Waiting)
    with Waiting p k s w show ?thesis by (cases b) auto
  qed (use p k s w in \<open>cases b; auto\<close>)+
qed


lemma world_ok_fence:
  assumes w: "world_ok (s, P, H)" and st: "state_ok s'" and sc: "same_counts s s'"
    and p: "\<And>p. p \<in># P \<Longrightarrow> pend_ok s' p"
    and new: "\<And>e. r = Waiting e \<Longrightarrow> pend_ok s' (PFence q e) \<and> pcount (is_fence q) P = 0"
  shows "world_ok (s', after (PFence q) r P, H)"
proof (cases r)
  case (Waiting e)
  with new have "pend_ok s' (PFence q e)" "pcount (is_fence q) P = 0" by auto
  with Waiting w st sc p show ?thesis by (cases q) (auto simp: same_counts_def)
qed (use w st sc p in \<open>simp_all add: same_counts_def\<close>)

lemma world_ok_retained:
  assumes w: "world_ok (s, P, H)" and st: "state_ok s'" and sc: "same_counts s s'"
    and p: "\<And>p. p \<in># P \<Longrightarrow> pend_ok s' p"
    and new: "\<And>e. r = Waiting e \<Longrightarrow> pend_ok s' (PTerminal t e)"
  shows "world_ok (s', after (PTerminal t) r P, H)"
  using assms by (cases r) (simp_all add: same_counts_def)

lemma world_ok_measured:
  assumes "state_ok s'" "ow_waiters s' = int (pcount is_enter P)" "ow_waiters s' \<le> ow_limit_owners s'"
    and "pcount (is_fence False) P \<le> 1" "pcount (is_fence True) P \<le> 1"
    and "\<And>p. p \<in># P \<Longrightarrow> pend_ok s' p" "\<forall>t \<in># H. turn_slot t < 64"
    and "\<And>e. r = Waiting e \<Longrightarrow> pend_ok s' (PMeasure t e)"
    and "if \<exists>e. r = Failed e then pcount is_measure P + size H \<le> of_bool (ow_measurement_used s')
         else pcount is_measure P + size H = 0 \<and> ow_measurement_used s' \<and> turn_slot t < 64"
  shows "world_ok (s', after (PMeasure t) r P, issued t r H)"
  using assms by (cases r) simp_all

lemma world_ok_call_measure:
  assumes w: "world_ok (s, P, H)" and m: "measurement_call t c s = (r, s')"
  shows "world_ok (s', after (PMeasure t) r P, issued t r H)"
proof (rule world_ok_measured)
  note k = measurement_call_counts [OF m]
  show "state_ok s'" using w m by (auto intro: state_ok_measurement_call)
  show "pend_ok s' p" if "p \<in># P" for p
    using that w m by (auto intro: pend_ok_measurement_call)
  show "r = Waiting e \<Longrightarrow> pend_ok s' (PMeasure t e)" for e
    using m by (auto intro: measurement_call_Waiting)
  show "if \<exists>e. r = Failed e then pcount is_measure P + size H \<le> of_bool (ow_measurement_used s')
         else pcount is_measure P + size H = 0 \<and> ow_measurement_used s' \<and> turn_slot t < 64"
    using w k by (cases "ow_measurement_used s") auto
qed (use w measurement_call_counts [OF m] in auto)

lemma world_ok_wake_measure:
  assumes w: "world_ok (s, add_mset (PMeasure t e) P, H)"
    and m: "retained_iteration (slot_mask (turn_slot t)) c s = (r, s')"
  shows "world_ok (s', after (PMeasure t) r P, issued t r H)"
proof (rule world_ok_measured)
  note k = same_counts_retained_iteration [OF m]
  show "state_ok s'" using w m by (auto intro: state_ok_retained_iteration)
  show "pend_ok s' p" if "p \<in># P" for p
    using that w m by (auto intro: pend_ok_retained_iteration)
  show "r = Waiting e' \<Longrightarrow> pend_ok s' (PMeasure t e')" for e'
    using m w by (auto simp: pend_ok_def [of s] intro!: retained_iteration_Waiting(2))
  show "if \<exists>e. r = Failed e then pcount is_measure P + size H \<le> of_bool (ow_measurement_used s')
         else pcount is_measure P + size H = 0 \<and> ow_measurement_used s' \<and> turn_slot t < 64"
    using w k by (auto simp: same_counts_def pend_ok_def [of s] split: if_splits)
qed (use w same_counts_retained_iteration [OF m] in \<open>auto simp: same_counts_def\<close>)

lemma world_ok_call_fence:
  assumes w: "world_ok (s, P, H)" and f: "fence_call q c s = (r, s')"
  shows "world_ok (s', after (PFence q) r P, H)"
proof (rule world_ok_fence [OF w])
  show "state_ok s'" using w f by (auto intro: state_ok_fence_call)
  show "same_counts s s'" using f by (rule same_counts_fence_call)
  show "pend_ok s' p" if "p \<in># P" for p using that w f by (auto intro: pend_ok_fence_call)
  fix e assume e: "r = Waiting e"
  with w f have new: "pend_ok s' (PFence q e)" "\<not> fence_closed q s"
    by (auto dest: fence_call_Waiting)
  have "\<not> is_fence q p" if "p \<in># P" for p
  proof -
    have "stable p s" using that w by (simp add: pend_ok_def)
    with new(2) show ?thesis by (blast dest: stable_fence_closed)
  qed
  then have "filter_mset (is_fence q) P = {#}" by (simp add: filter_mset_False filter_mset_cong)
  with new show "pend_ok s' (PFence q e) \<and> pcount (is_fence q) P = 0" by (simp add: pcount_def)
qed

lemma world_ok_wake_fence:
  assumes w: "world_ok (s, add_mset (PFence q e) P, H)" and f: "fence_iteration q c s = (r, s')"
  shows "world_ok (s', after (PFence q) r P, H)"
proof (rule world_ok_fence [OF world_ok_drop [OF w]])
  have st: "stable (PFence q e) s" using w by (simp add: pend_ok_def)
  have z: "pcount (is_fence q) P = 0" using w by (cases q) simp_all
  show "state_ok s'" using w st f by (auto intro: state_ok_fence_iteration)
  show "same_counts s s'" using f by (rule same_counts_fence_iteration)
  show "pend_ok s' p" if "p \<in># P" for p
    using that w f pcount_zeroD [OF z that] by (auto intro: pend_ok_fence_iteration)
  show "r = Waiting e' \<Longrightarrow> pend_ok s' (PFence q e') \<and> pcount (is_fence q) P = 0" for e'
    using st f z by (auto intro!: fence_iteration_Waiting)
qed simp

lemma world_ok_wake_terminal:
  assumes w: "world_ok (s, add_mset (PTerminal t e) P, H)"
    and m: "retained_iteration (slot_mask (turn_slot t)) c s = (r, s')"
  shows "world_ok (s', after (PTerminal t) r P, H)"
proof (rule world_ok_retained [OF world_ok_drop [OF w]])
  show "state_ok s'" using w m by (auto intro: state_ok_retained_iteration)
  show "same_counts s s'" using m by (rule same_counts_retained_iteration)
  show "pend_ok s' p" if "p \<in># P" for p using that w m by (auto intro: pend_ok_retained_iteration)
  show "r = Waiting e' \<Longrightarrow> pend_ok s' (PTerminal t e')" for e'
    using m w by (auto simp: pend_ok_def [of s] intro!: retained_iteration_Waiting(1))
qed simp

lemma world_ok_call_resume:
  assumes w: "world_ok (s, P, H)" and t: "t \<in># H" and m: "resume_call t original c s = (r, s')"
  shows "world_ok (s', P, H)"
proof (rule world_ok_same_counts [OF w])
  obtain H' where "H = add_mset t H'" using t by (metis insert_DiffM)
  then have z: "pcount is_measure P = 0" using w by (cases "ow_measurement_used s") auto
  show "pend_ok s' p" if "p \<in># P" for p
    using that w t m pcount_zeroD [OF z that] by (auto intro: pend_ok_resume_call)
qed (use w m in \<open>auto intro: same_counts_resume_call state_ok_resume_call\<close>)

lemma world_ok_step:
  assumes "world_ok w" "owners_step w w'"
  shows "world_ok w'"
  using assms(2,1)
proof (induction rule: owners_step.induct)
  case (call_enter c s r s' P H)
  then show ?case
  proof (cases "c = NilCtx")
    case True
    with call_enter have f: "failed ErrCanceled s = (r, s')" by (simp add: enter_call_def)
    then have "world_ok (s', P, H)"
      using call_enter.prems
      by (intro world_ok_same_counts [OF call_enter.prems])
        (auto intro: same_counts_failed state_ok_failed pend_ok_failed)
    with failed_result [OF f] show ?thesis by auto
  next
    case False
    with call_enter show ?thesis
      by (intro world_ok_enter [where b = False]) (auto simp: enter_call_def)
  qed
next
  case (wake_enter e c s r s' P H)
  then show ?case by (intro world_ok_enter [where b = True]) auto
next
  case (call_request c s r s' P H)
  then show ?case
    by (intro world_ok_same_counts [OF call_request.prems])
      (auto intro: same_counts_request_call state_ok_request_call pend_ok_request_call)
next
  case (call_end s P H t)
  then show ?case
    by (intro world_ok_same_counts [OF call_end])
      (auto intro: same_counts_end_call state_ok_end_call pend_ok_end_call)
next
  case (call_reopen q s r s' P H)
  then show ?case
    by (intro world_ok_same_counts [OF call_reopen.prems])
      (auto intro: same_counts_reopen_call state_ok_reopen_call pend_ok_reopen_call)
next
  case (call_terminal t c s r s' P H)
  then show ?case
    by (intro world_ok_retained [OF call_terminal.prems])
      (auto intro: same_counts_terminal_call state_ok_terminal_call pend_ok_terminal_call
        terminal_call_Waiting)
next
  case (parent_cancel s P H)
  then show ?case
    by (intro world_ok_same_counts [OF parent_cancel]) (auto simp: same_counts_def state_ok_cancel)
qed (auto intro: world_ok_call_fence world_ok_wake_fence world_ok_wake_terminal
    world_ok_call_measure world_ok_wake_measure world_ok_call_resume simp del: world_ok.simps)

interpretation barrier: invariant_system owners_initial owners_step world_ok
  by unfold_locales (auto intro: world_ok_initial world_ok_step simp del: world_ok.simps)


section \<open>Properties\<close>

subsection \<open>A concrete run\<close>

text \<open>A barrier of two owner slots and one request slot; an owner enters, \<open>Pause\<close> starts to
  wait for it, and the owner ends its turn.\<close>

definition run_start :: owners where
  "run_start = \<lparr>ow_limit_owners = 2, ow_limit_requests = 1, ow_active = 0, ow_requests = 0,
     ow_generations = (\<lambda>_. 0), ow_request_generations = (\<lambda>_. 0), ow_waiters = 0,
     ow_paused = False, ow_requests_fenced = False, ow_paused_ready = False,
     ow_requests_ready = False, ow_terminal = 0, ow_measurement = 0, ow_measurement_used = False,
     ow_changed = 0, ow_err = None, ow_ctx_done = False\<rparr>"

definition run_turn :: owner_turn where
  "run_turn = \<lparr>turn_generation = 1, turn_slot = 0, turn_request = False\<rparr>"

definition run_entered :: owners where
  "run_entered = run_start\<lparr>ow_active := 1, ow_generations := (\<lambda>_. 0)(0 := 1)\<rparr>"

definition run_fenced :: owners where
  "run_fenced = run_entered\<lparr>ow_paused := True, ow_changed := 1\<rparr>"

definition run_drained :: owners where
  "run_drained = run_fenced\<lparr>ow_active := 0, ow_changed := 2\<rparr>"

lemmas run_defs = run_start_def run_turn_def run_entered_def run_fenced_def run_drained_def

lemmas run_eval = run_defs enter_call_def enter_iteration_def enterLocked_def available_slots_def
  accessor_defs fence_call_def fence_iteration_def notifyLocked_def end_call_def unpark_def Let_def

lemma trailing_zeros64_mask [simp]: "trailing_zeros64 (mask 2) = 0"
  by code_simp

lemma slot_mask_0 [simp]: "slot_mask 0 = 1"
  by (simp add: slot_mask_def)

lemma run_enter: "enter_call (Ctx False None) run_start = (Returned run_turn, run_entered)"
  by (simp add: run_eval)

lemma run_fence: "fence_call False (Ctx False None) run_entered = (Waiting 1, run_fenced)"
  by (simp add: run_eval)

lemma run_end: "end_call run_turn run_fenced = run_drained"
  by (simp add: run_eval)

lemma run_reachable:
  "reachable owners_initial owners_step (run_drained, {#PFence False 1#}, {#})"
proof -
  have "NewOwners (Ctx False None) 2 1 = Inr run_start"
    by (simp add: NewOwners_def run_start_def)
  then have "reachable owners_initial owners_step (run_start, {#}, {#})"
    by (intro reachable_init) (auto simp: owners_initial_def)
  then have "reachable owners_initial owners_step (run_entered, {#}, {#})"
    using owners_step.call_enter [OF run_enter, of "{#}" "{#}"] by (auto intro: reachable_step)
  then have "reachable owners_initial owners_step (run_fenced, {#PFence False 1#}, {#})"
    using owners_step.call_fence [OF run_fence, of "{#}" "{#}"] by (auto intro: reachable_step)
  then show ?thesis
    using owners_step.call_end [of run_fenced "{#PFence False 1#}" "{#}" run_turn] run_end
    by (auto intro: reachable_step)
qed


subsection \<open>Drained fences\<close>

text \<open>C1. In every reachable state of the barrier, under any interleaving of entries, ends, fences,
  reopenings, terminal and measurement fences, cancellations and wake-ups: once \<open>Pause\<close> (or
  \<open>FenceRequests\<close>) has reported success, and until the matching reopening, the fence is closed and
  no owner turn (request turn) is active.\<close>

theorem owners_fence_drained:
  assumes "reachable owners_initial owners_step (s, P, H)" and "fence_ready q s"
  shows "fence_closed q s \<and> turn_count q s = 0"
  using barrier.reachable_invar [OF assms(1)] assms(2)
  by (simp add: state_ok_def fences_drained_def)

lemma run_ready_reachable:
  "reachable owners_initial owners_step (run_drained\<lparr>ow_paused_ready := True\<rparr>, {#}, {#})"
proof -
  have "fence_iteration False (Ctx False None) run_drained =
      (Returned (), run_drained\<lparr>ow_paused_ready := True\<rparr>)"
    by (simp add: run_eval)
  then show ?thesis
    using owners_step.wake_fence [of 1 "Ctx False None" run_drained False "Returned ()"
        "run_drained\<lparr>ow_paused_ready := True\<rparr>" "{#}" "{#}"] run_reachable
    by (auto intro: reachable_step simp: awake_def run_defs)
qed

theorem owners_fence_drained_witness:
  "fence_ready False (run_drained\<lparr>ow_paused_ready := True\<rparr>) \<and>
   fence_closed False (run_drained\<lparr>ow_paused_ready := True\<rparr>) \<and>
   turn_count False (run_drained\<lparr>ow_paused_ready := True\<rparr>) = 0"
proof -
  have r: "fence_ready False (run_drained\<lparr>ow_paused_ready := True\<rparr>)" by (simp add: fence_ready_def)
  show ?thesis using r owners_fence_drained [OF run_ready_reachable r] by blast
qed

subsection \<open>No lost wake-up\<close>

text \<open>C2. No pending call misses its notification: whenever, in a reachable state, what a parked
  \<open>Enter\<close>, a waiting fence or a waiting retained fence waits for has become true, or the barrier
  has failed, the \<open>changed\<close> channel that the call selects on has already been closed, so the call
  can run.\<close>

theorem owners_no_lost_wakeup:
  assumes "reachable owners_initial owners_step (s, P, H)" and "p \<in># P"
    and "ow_err s \<noteq> None \<or> \<not> blocked p s"
  shows "epoch p < ow_changed s"
proof -
  have "pend_ok s p" using barrier.reachable_invar [OF assms(1)] assms(2) by simp
  with assms(3) show ?thesis by (auto simp: pend_ok_def)
qed

theorem owners_no_lost_wakeup_witness:
  "\<not> blocked (PFence False 1) run_drained \<and> epoch (PFence False 1) < ow_changed run_drained"
proof -
  have b: "\<not> blocked (PFence False 1) run_drained" by (simp add: run_eval)
  show ?thesis using b owners_no_lost_wakeup [OF run_reachable, of "PFence False 1"] by simp
qed

subsection \<open>Turn tokens\<close>

text \<open>Ending a turn with a live token that is not retained clears exactly that token's slot
  and raises no failure; any other token (stale generation, free slot, already ended, or the
  retained terminal or measurement turn) clears no slot at all and leaves the barrier failed.\<close>

theorem owners_end_token:
  "if turn_live t s \<and> \<not> turn_retained t s
   then ow_err (end_call t s) = ow_err s \<and>
     (\<forall>q i. bit (turn_count q (end_call t s)) i \<longleftrightarrow>
        bit (turn_count q s) i \<and> \<not> (q = turn_request t \<and> i = turn_slot t))
   else ow_err (end_call t s) \<noteq> None \<and> (\<forall>q. turn_count q (end_call t s) = turn_count q s)"
proof (cases "turn_live t s \<and> \<not> turn_retained t s")
  case True
  then have "end_call t s = cleared t s \<or> end_call t s = notifyLocked (cleared t s)"
    by (simp add: end_call_accepted)
  then have "ow_err (end_call t s) = ow_err s"
    "\<And>q. turn_count q (end_call t s) = turn_count q (cleared t s)"
    by (auto simp: notifyLocked_def turn_count_def)
  with True show ?thesis
    by (auto simp: turn_count_cleared bit_and_iff bit_not_iff turn_live_def dest: bit_imp_le_length)
next
  case False
  then show ?thesis
    by (auto simp: end_call_refused failLocked_def notifyLocked_def turn_count_def split: option.split)
qed

subsection \<open>Admission against the set of held slots\<close>

definition held :: "bool \<Rightarrow> owners \<Rightarrow> nat set" where
  "held q s = {i. bit (turn_count q s) i}"

lemma held_bounded:
  assumes "state_ok s"
  shows "held q s \<subseteq> {..< nat (turn_limit q s)}"
proof -
  have "slots_bounded s" using assms by (simp add: state_ok_def)
  then show ?thesis by (auto simp: held_def slots_bounded_def zless_nat_eq_int_zless)
qed

lemma finite_held [simp]: "finite (held q s)"
proof (rule finite_subset)
  show "held q s \<subseteq> {..<64}" by (auto simp: held_def dest: bit_imp_le_length)
qed simp

lemma available_iff:
  assumes "state_ok s"
  shows "available_slots q s \<noteq> 0 \<longleftrightarrow> card (held q s) < nat (turn_limit q s)"
proof -
  have lim: "1 \<le> turn_limit q s" "turn_limit q s \<le> 64"
    using assms by (auto simp: state_ok_def limits_ok_def)
  have "available_slots q s \<noteq> 0 \<longleftrightarrow> (\<exists>i. bit (available_slots q s) i)"
    using word_neq_0_bit [of "available_slots q s"] by (cases "available_slots q s = 0") auto
  also have "\<dots> \<longleftrightarrow> (\<exists>i. int i < turn_limit q s \<and> i \<notin> held q s)"
    by (simp add: bit_available_slots [OF lim] held_def)
  also have "\<dots> \<longleftrightarrow> held q s \<noteq> {..< nat (turn_limit q s)}"
    using held_bounded [OF assms, of q] by (auto simp: zless_nat_eq_int_zless)
  also have "\<dots> \<longleftrightarrow> card (held q s) < nat (turn_limit q s)"
  proof
    assume "held q s \<noteq> {..< nat (turn_limit q s)}"
    then have "card (held q s) < card {..< nat (turn_limit q s)}"
      using held_bounded [OF assms, of q] by (intro psubset_card_mono) auto
    then show "card (held q s) < nat (turn_limit q s)" by simp
  next
    assume "card (held q s) < nat (turn_limit q s)"
    then show "held q s \<noteq> {..< nat (turn_limit q s)}" by (metis card_lessThan less_irrefl)
  qed
  finally show ?thesis .
qed

lemma enterLocked_takes:
  assumes "enterLocked q s = (Returned t, s')" and "state_ok s"
  shows "turn_slot t \<notin> held q s" "int (turn_slot t) < turn_limit q s"
    "held q s' = insert (turn_slot t) (held q s)" "held (\<not> q) s' = held (\<not> q) s"
    "turn_live t s'" "turn_request t = q"
proof -
  have "limits_ok s" using assms(2) by (simp add: state_ok_def)
  from assms(1) this obtain n where n: "n < 64" "int n < turn_limit q s" "\<not> bit (turn_count q s) n"
    "turn_generations q s n \<noteq> - 1" "turn_slot t = n" "turn_request t = q"
    "turn_generation t = turn_generations q s n + 1"
    "s' = set_turn_count q (turn_count q s OR slot_mask n)
            (set_turn_generations q ((turn_generations q s)(n := turn_generations q s n + 1)) s)"
    by (rule enterLocked_Returned)
  have g: "turn_generation t \<noteq> 0"
    using n(4,7) by (metis add.commute add_eq_0_iff)
  have c: "turn_count q s' = turn_count q s OR slot_mask n" "turn_count (\<not> q) s' = turn_count (\<not> q) s"
    "turn_generations q s' n = turn_generations q s n + 1"
    unfolding n(8) by (cases q; simp add: accessor_defs)+
  show "turn_slot t \<notin> held q s" "int (turn_slot t) < turn_limit q s" "turn_request t = q"
    using n(2,3,5,6) by (simp_all add: held_def)
  show "held q s' = insert (turn_slot t) (held q s)" "held (\<not> q) s' = held (\<not> q) s"
    using n(1,5) by (auto simp: held_def c bit_or_iff)
  show "turn_live t s'"
    using n(1,5,6,7) g by (simp add: turn_live_def c bit_or_iff)
qed

text \<open>C4. Entering refines admission to a bounded set of slots: in a reachable barrier whose slot
  generations are not exhausted, \<open>enterLocked\<close> succeeds exactly when fewer than the configured
  limit of slots are held; it then takes one slot that was free and below the limit and returns a
  live token for it, and otherwise it holds nothing new and the barrier fails.\<close>

theorem owners_enter_refines:
  assumes "reachable owners_initial owners_step (s, P, H)"
    and "\<And>i. turn_generations q s i \<noteq> - 1"
  shows "if card (held q s) < nat (turn_limit q s)
    then \<exists>t s'. enterLocked q s = (Returned t, s') \<and> turn_slot t \<notin> held q s \<and>
      int (turn_slot t) < turn_limit q s \<and> held q s' = insert (turn_slot t) (held q s) \<and>
      held (\<not> q) s' = held (\<not> q) s \<and> turn_live t s' \<and> turn_request t = q
    else held q (snd (enterLocked q s)) = held q s \<and> ow_err (snd (enterLocked q s)) \<noteq> None"
proof -
  have ok: "state_ok s" using barrier.reachable_invar [OF assms(1)] by simp
  show ?thesis
  proof (cases "available_slots q s = 0")
    case False
    then have e: "\<exists>t s'. enterLocked q s = (Returned t, s')"
      using assms(2) by (auto simp: enterLocked_def Let_def)
    from False show ?thesis
      using e enterLocked_takes [OF _ ok] available_iff [OF ok, of q] by fastforce
  next
    case True
    have "ow_err (snd (failed ErrLimit s :: owner_turn outcome \<times> owners)) \<noteq> None"
      and "held q (snd (failed ErrLimit s :: owner_turn outcome \<times> owners)) = held q s"
      by (auto simp: failed_def failLocked_def notifyLocked_def held_def turn_count_def
          split: option.split)
    with True show ?thesis
      using available_iff [OF ok, of q] by (simp add: enterLocked_def)
  qed
qed

theorem owners_enter_refines_witness:
  "card (held True run_drained) < nat (turn_limit True run_drained) \<and>
   (\<exists>t s'. enterLocked True run_drained = (Returned t, s') \<and> turn_live t s')"
proof -
  have h: "card (held True run_drained) < nat (turn_limit True run_drained)"
    by (simp add: held_def run_defs accessor_defs)
  have "\<And>i. turn_generations True run_drained i \<noteq> - 1"
    by (simp add: run_defs accessor_defs)
  then show ?thesis
    using h owners_enter_refines [OF run_reachable, of True] by (auto split: if_splits)
qed

subsection \<open>The sticky failure latch\<close>

text \<open>The atomic segments of the methods as one operation type.\<close>

datatype owner_op =
    OpEnter ctx | OpWakeEnter ctx | OpRequest ctx | OpEnd owner_turn | OpFence bool ctx
  | OpWakeFence bool ctx | OpReopen bool | OpTerminal owner_turn ctx | OpMeasure owner_turn ctx
  | OpWakeRetained owner_turn ctx | OpResume owner_turn ctx ctx | OpCancel

fun owner_run :: "owners \<Rightarrow> owner_op \<Rightarrow> owners" where
  "owner_run s (OpEnter c) = snd (enter_call c s)"
| "owner_run s (OpWakeEnter c) = snd (enter_iteration True c s)"
| "owner_run s (OpRequest c) = snd (request_call c s)"
| "owner_run s (OpEnd t) = end_call t s"
| "owner_run s (OpFence q c) = snd (fence_call q c s)"
| "owner_run s (OpWakeFence q c) = snd (fence_iteration q c s)"
| "owner_run s (OpReopen q) = snd (reopen_call q s)"
| "owner_run s (OpTerminal t c) = snd (terminal_call t c s)"
| "owner_run s (OpMeasure t c) = snd (measurement_call t c s)"
| "owner_run s (OpWakeRetained t c) = snd (retained_iteration (slot_mask (turn_slot t)) c s)"
| "owner_run s (OpResume t d c) = snd (resume_call t d c s)"
| "owner_run s OpCancel = s\<lparr>ow_ctx_done := True\<rparr>"

lemma failed_latched [simp]: "ow_err s = Some e \<Longrightarrow> failed e' s = (Failed e, s)"
  by (simp add: failed_def failLocked_def)

lemma unpark_err [simp]: "ow_err (unpark p s) = ow_err s"
  by (simp add: unpark_def)

lemma frame_err [simp]:
  "ow_err (notifyLocked s) = ow_err s" "ow_err (set_closed q v s) = ow_err s"
  by (simp_all add: notifyLocked_def set_closed_def)

lemma end_call_err: "ow_err s = Some e \<Longrightarrow> ow_err (end_call t s) = Some e"
  by (cases "turn_live t s \<and> \<not> turn_retained t s")
    (auto simp: end_call_accepted end_call_refused failLocked_def)

lemma resume_call_latched: "ow_err s = Some e \<Longrightarrow> resume_call t d c s = (Failed e, s)"
  using validLockedD(7) [of t d c s] by (auto simp: resume_call_def)

interpretation owner_latch: sticky_latch ow_err owner_run
proof
  fix s :: owners and e op
  assume e: "ow_err s = Some e"
  show "ow_err (owner_run s op) = Some e"
  proof (cases op)
    case (OpFence q c)
    with e show ?thesis by (simp add: fence_call_def fence_iteration_def)
  qed (use e in \<open>simp_all add: enter_call_def enter_iteration_def request_call_def end_call_err
      fence_iteration_def reopen_call_def terminal_call_def measurement_call_def
      retained_iteration_def resume_call_latched\<close>)
qed

lemma latched_calls:
  assumes "ow_err s = Some e"
  shows "fst (enter_call c s) = Failed e" "fst (request_call c s) = Failed e"
    "fst (fence_call q c s) = Failed e" "fst (reopen_call q s) = Failed e"
    "fst (terminal_call t c s) = Failed e" "fst (measurement_call t c s) = Failed e"
    "fst (resume_call t d c s) = Failed e"
  using assms by (simp_all add: enter_call_def enter_iteration_def request_call_def fence_call_def
      fence_iteration_def reopen_call_def terminal_call_def measurement_call_def resume_call_latched)

text \<open>C5. The first failure of the barrier is sticky: once it is latched, after any sequence of
  operations every exported call that can fail returns that same error, so no turn is admitted and
  no fence is reported as drained again.\<close>

theorem owners_failure_sticky:
  assumes "ow_err s = Some e"
  shows "let s' = foldl owner_run s ops in
    fst (Enter c (Some s')) = Failed e \<and> fst (EnterRequest c (Some s')) = Failed e \<and>
    fst (Pause c (Some s')) = Failed e \<and> fst (FenceRequests c (Some s')) = Failed e \<and>
    fst (Resume (Some s')) = Failed e \<and> fst (OpenRequests (Some s')) = Failed e \<and>
    fst (FenceTerminal t c (Some s')) = Failed e \<and> fst (FenceMeasurement t c (Some s')) = Failed e \<and>
    fst (measurement_Resume t d c (Some s')) = Failed e"
proof -
  have "ow_err (foldl owner_run s ops) = Some e"
    using assms by (rule owner_latch.latched_forever)
  from latched_calls [OF this] show ?thesis
    by (simp add: Let_def Enter_def EnterRequest_def Pause_def FenceRequests_def fence_def
        Resume_def OpenRequests_def reopen_def FenceTerminal_def FenceMeasurement_def
        measurement_Resume_def on_owners_def prod.case_eq_if)
qed

theorem owners_failure_sticky_witness:
  "let s = owner_run run_drained (OpEnd zero_turn);
       s' = foldl owner_run s [OpReopen False, OpEnter (Ctx False None)] in
   ow_err s = Some ErrProtocol \<and> fst (Enter (Ctx False None) (Some s')) = Failed ErrProtocol"
proof -
  have "ow_err (owner_run run_drained (OpEnd zero_turn)) = Some ErrProtocol"
    by (simp add: end_call_def zero_turn_def run_defs accessor_defs failLocked_def Let_def)
  with owners_failure_sticky [OF this, of "[OpReopen False, OpEnter (Ctx False None)]" "Ctx False None"]
  show ?thesis by (simp only: Let_def simp_thms)
qed

end
