(* ===== verification/Go_Errors.thy ===== *)
theory Go_Errors
  imports Go_Base
begin

text \<open>
  Go's \<open>error\<close> values as the code builds and inspects them. A non-nil error is a tree: a value of
  \<open>errors.New\<close> (a package-level sentinel is identified by its message, which no other value of the
  package shares), a \<open>fmt.Errorf\<close> value with one \<open>%w\<close> operand at the end or at the start, an \<open>errors.Join\<close> value, a value
  of a package's own error type with its payload, its text and what its \<open>Unwrap\<close> returns, or the
  error of a done context. \<open>ErrPanic\<close> is a run-time panic, which the program never handles as a
  value; it only makes the panicking branches of the code visible.
\<close>

datatype 'a goerr =
    ErrNew gostring
  | ErrWrap gostring "'a goerr"
  | ErrSuffix "'a goerr" gostring
  | ErrJoin "'a goerr list"
  | ErrTyped 'a gostring "'a goerr option"
  | ErrCtxDone
  | ErrPanic gostring

text \<open>\<open>errors.Is\<close> compares with each node of the tree in pre-order; \<open>errors.As\<close> finds the first
  payload in the same order.\<close>

fun errors_Is :: "'a goerr \<Rightarrow> 'a goerr \<Rightarrow> bool" where
  "errors_Is (ErrNew m) target \<longleftrightarrow> ErrNew m = target"
| "errors_Is (ErrWrap m e) target \<longleftrightarrow> ErrWrap m e = target \<or> errors_Is e target"
| "errors_Is (ErrSuffix e m) target \<longleftrightarrow> ErrSuffix e m = target \<or> errors_Is e target"
| "errors_Is (ErrJoin es) target \<longleftrightarrow> ErrJoin es = target \<or> list_ex (\<lambda>e. errors_Is e target) es"
| "errors_Is (ErrTyped a m u) target \<longleftrightarrow> ErrTyped a m u = target \<or>
     (case u of None \<Rightarrow> False | Some e \<Rightarrow> errors_Is e target)"
| "errors_Is ErrCtxDone target \<longleftrightarrow> ErrCtxDone = target"
| "errors_Is (ErrPanic m) target \<longleftrightarrow> ErrPanic m = target"

fun errors_As :: "'a goerr \<Rightarrow> 'a list" where
  "errors_As (ErrNew m) = []"
| "errors_As (ErrWrap m e) = errors_As e"
| "errors_As (ErrSuffix e m) = errors_As e"
| "errors_As (ErrJoin es) = concat (map errors_As es)"
| "errors_As (ErrTyped a m u) = a # (case u of None \<Rightarrow> [] | Some e \<Rightarrow> errors_As e)"
| "errors_As ErrCtxDone = []"
| "errors_As (ErrPanic m) = []"

text \<open>The error interface value itself may be nil.\<close>

definition is_error :: "'a goerr option \<Rightarrow> 'a goerr \<Rightarrow> bool" where
  "is_error e target \<longleftrightarrow> (case e of None \<Rightarrow> False | Some e' \<Rightarrow> errors_Is e' target)"

definition as_error :: "'a goerr option \<Rightarrow> 'a option" where
  "as_error e = (case e of None \<Rightarrow> None
     | Some e' \<Rightarrow> (case errors_As e' of [] \<Rightarrow> None | a # _ \<Rightarrow> Some a))"

text \<open>\<open>errors.Join\<close> drops nil operands and is nil when all of them are.\<close>

definition errors_Join :: "'a goerr option list \<Rightarrow> 'a goerr option" where
  "errors_Join es = (let some = concat (map (\<lambda>e. case e of None \<Rightarrow> [] | Some x \<Rightarrow> [x]) es)
     in if some = [] then None else Some (ErrJoin some))"

text \<open>The text \<open>Error()\<close> returns: \<open>ErrWrap\<close> carries the text before its
  operand, \<open>ErrSuffix\<close> the text after it, \<open>Join\<close> puts one
  operand per line, and the text of a context error is left open by its two values.\<close>

fun error_text :: "gostring \<Rightarrow> 'a goerr \<Rightarrow> gostring" where
  "error_text ctx (ErrNew m) = m"
| "error_text ctx (ErrWrap m e) = m @ error_text ctx e"
| "error_text ctx (ErrSuffix e m) = error_text ctx e @ m"
| "error_text ctx (ErrJoin []) = []"
| "error_text ctx (ErrJoin [e]) = error_text ctx e"
| "error_text ctx (ErrJoin (e # d # es)) = error_text ctx e @ CHR 0x0A # error_text ctx (ErrJoin (d # es))"
| "error_text ctx (ErrTyped a m u) = m"
| "error_text ctx ErrCtxDone = ctx"
| "error_text ctx (ErrPanic m) = m"

lemma errors_Is_refl [simp]: "errors_Is e e"
  by (cases e) auto

lemma errors_Join_None [simp]: "errors_Join es = None \<longleftrightarrow> (\<forall>e \<in> set es. e = None)"
  by (auto simp: errors_Join_def Let_def split: option.splits)

lemma errors_Join_Some [simp]: "errors_Join [None, Some e] = Some (ErrJoin [e])"
  "errors_Join [Some d, Some e] = Some (ErrJoin [d, e])"
  by (simp_all add: errors_Join_def)

lemma is_error_Join_new:
  "is_error (errors_Join es) (ErrNew m) \<longleftrightarrow> (\<exists>e \<in> set es. is_error e (ErrNew m))"
proof (cases "errors_Join es")
  case None
  then have "\<forall>e \<in> set es. e = None" by simp
  with None show ?thesis by (auto simp: is_error_def simp del: errors_Join_None)
next
  case (Some x)
  then have "x = ErrJoin (concat (map (\<lambda>e. case e of None \<Rightarrow> [] | Some x \<Rightarrow> [x]) es))"
    by (auto simp: errors_Join_def Let_def split: if_splits)
  then show ?thesis using Some by (fastforce simp: is_error_def list_ex_iff split: option.splits)
qed

end
