(* ===== verification/Go_Strings.thy ===== *)
theory Go_Strings
  imports Go_Base
begin

text \<open>
  The parts of Go's \<open>strings\<close>, \<open>unicode/utf8\<close> and \<open>path\<close> packages that the components use, on
  byte strings: UTF-8 decoding as \<open>utf8.DecodeRuneInString\<close> does it, \<open>TrimSpace\<close> over the Unicode
  white-space runes, substring tests, \<open>Split\<close> and \<open>Join\<close>.
\<close>

subsection \<open>UTF-8\<close>

abbreviation byte :: "char \<Rightarrow> nat" where
  "byte c \<equiv> of_char c"

definition cont_byte :: "nat \<Rightarrow> nat \<Rightarrow> char \<Rightarrow> bool" where
  "cont_byte lo hi c \<longleftrightarrow> lo \<le> byte c \<and> byte c \<le> hi"

text \<open>The first rune of a string and its width; \<open>None\<close> for an empty string or an invalid encoding
  (where Go yields \<open>RuneError\<close> with width 1).\<close>

definition second_range :: "nat \<Rightarrow> nat \<times> nat" where
  "second_range b = (if b = 0xE0 then (0xA0, 0xBF) else if b = 0xED then (0x80, 0x9F)
     else if b = 0xF0 then (0x90, 0xBF) else if b = 0xF4 then (0x80, 0x8F) else (0x80, 0xBF))"

fun decode_rune :: "gostring \<Rightarrow> (nat \<times> nat) option" where
  "decode_rune [] = None"
| "decode_rune (c # cs) =
     (let b = byte c; (lo, hi) = second_range b in
      if b < 0x80 then Some (b, 1)
      else if 0xC2 \<le> b \<and> b \<le> 0xDF then
        (case cs of c1 # _ \<Rightarrow> if cont_byte lo hi c1
            then Some ((b - 0xC0) * 64 + (byte c1 - 0x80), 2) else None | _ \<Rightarrow> None)
      else if 0xE0 \<le> b \<and> b \<le> 0xEF then
        (case cs of c1 # c2 # _ \<Rightarrow> if cont_byte lo hi c1 \<and> cont_byte 0x80 0xBF c2
            then Some ((b - 0xE0) * 4096 + (byte c1 - 0x80) * 64 + (byte c2 - 0x80), 3) else None
         | _ \<Rightarrow> None)
      else if 0xF0 \<le> b \<and> b \<le> 0xF4 then
        (case cs of c1 # c2 # c3 # _ \<Rightarrow>
            if cont_byte lo hi c1 \<and> cont_byte 0x80 0xBF c2 \<and> cont_byte 0x80 0xBF c3
            then Some ((b - 0xF0) * 262144 + (byte c1 - 0x80) * 4096 + (byte c2 - 0x80) * 64 +
                       (byte c3 - 0x80), 4) else None
         | _ \<Rightarrow> None)
      else None)"

lemma decode_rune_width: "decode_rune s = Some (r, n) \<Longrightarrow> 0 < n \<and> n \<le> length s"
  by (cases s)
    (auto simp: Let_def split: if_splits list.splits prod.splits)

text \<open>The runes a \<open>range\<close> loop over a string visits, with \<open>RuneError\<close> for each invalid byte.\<close>

function runes :: "gostring \<Rightarrow> nat list" where
  "runes s = (case s of [] \<Rightarrow> [] | c # cs \<Rightarrow>
     (case decode_rune s of
        None \<Rightarrow> 0xFFFD # runes cs
      | Some (r, n) \<Rightarrow> r # runes (drop n s)))"
  by pat_completeness auto
termination
proof (relation "measure length")
  fix s c cs x r n
  assume "s = c # cs" "decode_rune s = Some x" "(r, n) = x"
  then show "(drop n s, s) \<in> measure length"
    using decode_rune_width [of s r n] by auto
qed simp_all

declare runes.simps [simp del]

function ValidString :: "gostring \<Rightarrow> bool" where
  "ValidString s = (case s of [] \<Rightarrow> True | c # cs \<Rightarrow>
     (case decode_rune s of None \<Rightarrow> False | Some (r, n) \<Rightarrow> ValidString (drop n s)))"
  by pat_completeness auto
termination
proof (relation "measure length")
  fix s c cs x r n
  assume "s = c # cs" "decode_rune s = Some x" "(r, n) = x"
  then show "(drop n s, s) \<in> measure length"
    using decode_rune_width [of s r n] by auto
qed simp_all

declare ValidString.simps [simp del]

lemma ValidString_Nil [simp]: "ValidString []"
  by (simp add: ValidString.simps)

lemma decode_rune_ascii [simp]: "byte c < 128 \<Longrightarrow> decode_rune (c # cs) = Some (byte c, 1)"
  by (simp add: Let_def split: prod.split)

lemma ValidString_Cons_ascii: "byte c < 128 \<Longrightarrow> ValidString (c # cs) = ValidString cs"
  by (subst ValidString.simps) simp

lemma ValidString_ascii: "\<forall>c \<in> set s. byte c < 128 \<Longrightarrow> ValidString s"
  by (induction s) (simp_all add: ValidString_Cons_ascii)

lemma runes_Nil [simp]: "runes [] = []"
  by (simp add: runes.simps)

lemma runes_Cons_ascii: "byte c < 128 \<Longrightarrow> runes (c # cs) = byte c # runes cs"
  by (subst runes.simps) simp

lemma runes_ascii: "\<forall>c \<in> set s. byte c < 128 \<Longrightarrow> runes s = map byte s"
  by (induction s) (simp_all add: runes_Cons_ascii)

subsection \<open>Trimming white space\<close>

text \<open>The UTF-8 encodings of the runes \<open>unicode.IsSpace\<close> accepts. A string starts (ends) with
  such a rune exactly when it has the encoding as a prefix (suffix).\<close>

definition space_encodings :: "gostring list" where
  "space_encodings = [[CHR 0x09], [CHR 0x0A], [CHR 0x0B], [CHR 0x0C], [CHR 0x0D], [CHR 0x20],
     [CHR 0xC2, CHR 0x85], [CHR 0xC2, CHR 0xA0], [CHR 0xE1, CHR 0x9A, CHR 0x80]] @
     map (\<lambda>n. [CHR 0xE2, CHR 0x80, char_of n]) ([0x80..<0x8B] @ [0xA8, 0xA9, 0xAF]) @
     [[CHR 0xE2, CHR 0x81, CHR 0x9F], [CHR 0xE3, CHR 0x80, CHR 0x80]]"

definition space_prefix :: "gostring list \<Rightarrow> gostring \<Rightarrow> nat" where
  "space_prefix ws s = (case find (\<lambda>w. take (length w) s = w) ws of None \<Rightarrow> 0 | Some w \<Rightarrow> length w)"

function strip :: "gostring list \<Rightarrow> gostring \<Rightarrow> gostring" where
  "strip ws s = (if space_prefix ws s = 0 \<or> s = [] then s else strip ws (drop (space_prefix ws s) s))"
  by pat_completeness auto
termination
  by (relation "measure (\<lambda>(ws, s). length s)") auto

declare strip.simps [simp del]

definition TrimSpace :: "gostring \<Rightarrow> gostring" where
  "TrimSpace s = rev (strip (map rev space_encodings) (rev (strip space_encodings s)))"

subsection \<open>Substrings\<close>

definition ContainsAny :: "gostring \<Rightarrow> gostring \<Rightarrow> bool" where
  "ContainsAny s cs \<longleftrightarrow> list_ex (\<lambda>c. c \<in> set cs) s"

definition HasPrefix :: "gostring \<Rightarrow> gostring \<Rightarrow> bool" where
  "HasPrefix s p \<longleftrightarrow> take (length p) s = p"

definition HasSuffix :: "gostring \<Rightarrow> gostring \<Rightarrow> bool" where
  "HasSuffix s p \<longleftrightarrow> take (length p) (rev s) = rev p"

text \<open>\<open>strings.Split\<close> at a one-byte separator.\<close>

fun Split :: "char \<Rightarrow> gostring \<Rightarrow> gostring list" where
  "Split c [] = [[]]"
| "Split c (x # xs) =
     (if x = c then [] # Split c xs
      else case Split c xs of [] \<Rightarrow> [[x]] | p # ps \<Rightarrow> (x # p) # ps)"

fun Join :: "char \<Rightarrow> gostring list \<Rightarrow> gostring" where
  "Join c [] = []"
| "Join c [p] = p"
| "Join c (p # ps) = p @ c # Join c ps"

lemma Split_nonempty [simp]: "Split c s \<noteq> []"
  by (induction s) (auto split: list.split)

lemma Join_Cons: "ps \<noteq> [] \<Longrightarrow> Join c (p # ps) = p @ c # Join c ps"
  by (cases ps) auto

lemma Join_Split [simp]: "Join c (Split c s) = s"
proof (induction s)
  case (Cons x xs)
  then show ?case
    by (cases "Split c xs"; cases "tl (Split c xs)") (auto simp: Join_Cons)
qed simp

lemma Split_parts_free: "p \<in> set (Split c s) \<Longrightarrow> c \<notin> set p"
proof (induction s arbitrary: p)
  case (Cons x xs)
  then show ?case by (cases "Split c xs") (auto split: if_splits)
qed simp

lemma Split_append: "c \<notin> set p \<Longrightarrow> Split c (p @ c # s) = p # Split c s"
  by (induction p) auto

lemma Split_free: "c \<notin> set p \<Longrightarrow> Split c p = [p]"
  by (induction p) auto

lemma Split_Join: "ps \<noteq> [] \<Longrightarrow> \<forall>p \<in> set ps. c \<notin> set p \<Longrightarrow> Split c (Join c ps) = ps"
  by (induction c ps rule: Join.induct) (auto simp: Split_append Split_free)

lemma HasPrefix_split: "HasPrefix s p \<and> drop (length p) s = x \<longleftrightarrow> s = p @ x"
  unfolding HasPrefix_def by (metis append_eq_conv_conj append_take_drop_id)

lemma HasPrefix_iff: "HasPrefix s p \<longleftrightarrow> prefix p s"
  by (auto simp: HasPrefix_def prefix_def) (metis append_take_drop_id)

lemma HasSuffix_iff: "HasSuffix s p \<longleftrightarrow> suffix p s"
  using HasPrefix_iff [of "rev s" "rev p"]
  by (simp add: HasSuffix_def HasPrefix_def suffix_to_prefix)

subsection \<open>Decimal numbers\<close>

fun decimal_nat :: "nat \<Rightarrow> gostring" where
  "decimal_nat n = (if n < 10 then [char_of (48 + n)] else decimal_nat (n div 10) @ [char_of (48 + n mod 10)])"

declare decimal_nat.simps [simp del]

definition decimal :: "int \<Rightarrow> gostring" where
  "decimal i = (if i < 0 then CHR ''-'' # decimal_nat (nat (- i)) else decimal_nat (nat i))"

end
