(* ===== verification/Lifecycle_Capacity.thy ===== *)
theory Lifecycle_Capacity
  imports Go_Errors Go_Strings
begin

text \<open>
  The policy envelope and the disk-pressure gate of \<open>internal/lifecycle\<close> (\<open>policy.go\<close>,
  \<open>capacity.go\<close>, the owner names of \<open>static.go\<close>): tick limits, owner registration, the 128-bit
  percentage, the capacity probe over the file-system observations it makes, and the hysteresis
  latch of \<open>Gate\<close>. \<open>platformCapacity\<close> (a system call) is an argument of the probe.
\<close>

section \<open>Policy\<close>

type_synonym lerr = "unit goerr"

abbreviation "SoftWatermarkPercent \<equiv> 80 :: int"
abbreviation "HardWatermarkPercent \<equiv> 90 :: int"
abbreviation "ResumeWatermarkPercent \<equiv> 75 :: int"
abbreviation "MaxOwnersPerController \<equiv> 32 :: nat"
abbreviation "MaxCandidatesPerTick \<equiv> 64 :: int"
abbreviation "MaxDeletesPerTick \<equiv> 16 :: int"
abbreviation "MaxQueriesPerTick \<equiv> 16 :: int"
abbreviation "MaxOwnerQueriesPerTick \<equiv> 12 :: int"
abbreviation "MaxStatsPerTick \<equiv> 256 :: int"
abbreviation "MaxDescriptorsPerTick \<equiv> 8 :: int"
abbreviation "MaxMetadataBytesPerTick \<equiv> 1048576 :: int"
abbreviation "MaxPressureDependentAdmissionBytes \<equiv> 51539607552 :: int"

abbreviation "SearchOwner \<equiv> ''search-generations''"
abbreviation "SourceOwner \<equiv> ''source-generations''"
abbreviation "ObservationV2Owner \<equiv> ''observation-v2-generations''"
abbreviation "ResolverOwner \<equiv> ''resolver-namespaces''"
abbreviation "RelationshipV3Owner \<equiv> ''relationship-v3-namespaces''"
abbreviation "ProofOwner \<equiv> ''proof-bundles''"
abbreviation "ReaderOwner \<equiv> ''readers''"
abbreviation "JobOwner \<equiv> ''durable-jobs''"
abbreviation "TombstoneOwner \<equiv> ''service-tombstones''"

definition SelectedCleanupDeleteLimit :: "gostring \<Rightarrow> int" where
  "SelectedCleanupDeleteLimit owner =
     (if owner = ObservationV2Owner then 1024
      else if owner = SearchOwner then 64
      else if owner = RelationshipV3Owner then 1024
      else MaxDeletesPerTick)"

abbreviation "ErrCapacityUnavailable \<equiv> (ErrNew ''lifecycle filesystem capacity is unavailable'' :: lerr)"
abbreviation "ErrPressureRefusal \<equiv> (ErrNew ''lifecycle hard disk watermark reached'' :: lerr)"

record limits =
  Candidates :: int
  Deletes :: int
  Queries :: int
  Stats :: int
  Descriptors :: int
  MetadataBytes :: int

definition DefaultLimits :: limits where
  "DefaultLimits = \<lparr>Candidates = MaxCandidatesPerTick, Deletes = MaxDeletesPerTick,
     Queries = MaxQueriesPerTick, Stats = MaxStatsPerTick, Descriptors = MaxDescriptorsPerTick,
     MetadataBytes = MaxMetadataBytesPerTick\<rparr>"

definition limits_validate :: "limits \<Rightarrow> lerr option" where
  "limits_validate l =
     (if Candidates l < 1 \<or> Candidates l > MaxCandidatesPerTick \<or>
         Deletes l < 1 \<or> Deletes l > MaxDeletesPerTick \<or>
         Queries l < 1 \<or> Queries l > MaxQueriesPerTick \<or>
         Stats l < 1 \<or> Stats l > MaxStatsPerTick \<or>
         Descriptors l < 1 \<or> Descriptors l > MaxDescriptorsPerTick \<or>
         MetadataBytes l < 1 \<or> MetadataBytes l > MaxMetadataBytesPerTick
      then Some (ErrNew ''lifecycle tick limits exceed the fixed envelope'') else None)"

text \<open>\<open>Completeness\<close> is a string type; its zero value is the empty string.\<close>

abbreviation "Exact \<equiv> ''exact''"
abbreviation "LowerBound \<equiv> ''lower_bound''"
abbreviation "Unavailable \<equiv> ''unavailable''"

record owner_result =
  or_owner :: gostring
  or_cursor :: gostring
  or_scanned :: int
  or_deleted :: int
  or_logical_bytes :: int
  or_root_bytes :: int
  or_member_bytes :: int
  or_more :: bool
  or_attempted_at :: "int option"
  or_cycle_start :: bool
  or_cycle_complete :: bool
  or_advance_on_error :: bool
  or_completeness :: gostring
  or_err :: "lerr option"

definition zero_result :: owner_result where
  "zero_result = \<lparr>or_owner = [], or_cursor = [], or_scanned = 0, or_deleted = 0,
     or_logical_bytes = 0, or_root_bytes = 0, or_member_bytes = 0, or_more = False,
     or_attempted_at = None, or_cycle_start = False, or_cycle_complete = False,
     or_advance_on_error = False, or_completeness = [], or_err = None\<rparr>"

text \<open>\<open>OwnerResult{Cursor: cursor, Completeness: Unavailable, Err: err}\<close>.\<close>

definition unavailableOwnerResult :: "gostring \<Rightarrow> lerr \<Rightarrow> owner_result" where
  "unavailableOwnerResult cursor e =
     zero_result\<lparr>or_cursor := cursor, or_completeness := Unavailable, or_err := Some e\<rparr>"

text \<open>A registered owner is a name with the owner value, which may be nil. \<open>sort.Slice\<close> by name
  is not stable, but names that compare equal are refused below, so the stable sort gives the same
  accepted lists.\<close>

type_synonym 'o registered = "gostring \<times> 'o option"

definition owner_invalid :: "'o registered \<Rightarrow> bool" where
  "owner_invalid r \<longleftrightarrow> fst r = [] \<or> TrimSpace (fst r) \<noteq> fst r \<or> snd r = None"

fun check_owners :: "gostring option \<Rightarrow> 'o registered list \<Rightarrow> lerr option" where
  "check_owners previous [] = None"
| "check_owners previous (r # rs) =
     (if owner_invalid r then Some (ErrNew ''lifecycle owner registration is invalid'')
      else if previous = Some (fst r) then Some (ErrNew ''duplicate lifecycle owner'')
      else check_owners (Some (fst r)) rs)"

definition normalizeOwners :: "'o registered list \<Rightarrow> lerr + 'o registered list" where
  "normalizeOwners owners =
     (if owners = [] \<or> length owners > MaxOwnersPerController
      then Inl (ErrNew ''lifecycle owner count must be from 1 through 32'')
      else let result = sort_key fst owners
        in case check_owners None result of Some e \<Rightarrow> Inl e | None \<Rightarrow> Inr result)"

lemma check_owners_distinct:
  assumes "check_owners p rs = None" "sorted (map fst rs)" "\<forall>x. p = Some x \<longrightarrow> (\<forall>r \<in> set rs. x \<le> fst r)"
  shows "distinct (map fst rs) \<and> (\<forall>x. p = Some x \<longrightarrow> x \<notin> fst ` set rs) \<and> (\<forall>r \<in> set rs. \<not> owner_invalid r)"
  using assms
proof (induction p rs rule: check_owners.induct)
  case (2 p r rs)
  have v: "\<not> owner_invalid r" "p \<noteq> Some (fst r)" "check_owners (Some (fst r)) rs = None"
    using "2.prems"(1) by (auto split: if_splits)
  have s: "sorted (map fst rs)" "\<forall>r' \<in> set rs. fst r \<le> fst r'" using "2.prems"(2) by auto
  from "2.IH" [OF v(1,2,3) s(1)] s(2)
  have ih: "distinct (map fst rs)" "fst r \<notin> fst ` set rs" "\<forall>r \<in> set rs. \<not> owner_invalid r" by auto
  have "x \<notin> fst ` set (r # rs)" if "p = Some x" for x
  proof -
    have "x \<le> fst r" "x \<noteq> fst r" using that "2.prems"(3) v(2) by auto
    then show ?thesis using s(2) by fastforce
  qed
  with ih v show ?case by auto
qed simp

text \<open>An accepted registry is the given owners in strictly increasing name order.\<close>

lemma normalizeOwners_sorted:
  assumes "normalizeOwners owners = Inr result"
  shows "sorted_wrt (<) (map fst result)" "mset result = mset owners" "result \<noteq> []"
    "\<forall>r \<in> set result. \<not> owner_invalid r" "length result \<le> MaxOwnersPerController"
proof -
  have c: "check_owners None result = None" "result = sort_key fst owners" "owners \<noteq> []"
    "length owners \<le> 32"
    using assms by (auto simp: normalizeOwners_def Let_def split: if_splits option.splits)
  have "distinct (map fst result)" "\<forall>r \<in> set result. \<not> owner_invalid r"
    using check_owners_distinct [OF c(1)] c(2) by auto
  then show "sorted_wrt (<) (map fst result)" "\<forall>r \<in> set result. \<not> owner_invalid r"
    using c(2) by (simp_all add: strict_sorted_iff)
  show "mset result = mset owners" using c(2) by simp
  show "result \<noteq> []" using c(2,3) by (metis length_0_conv length_sort)
  show "length result \<le> MaxOwnersPerController" using c by simp
qed

section \<open>Capacity\<close>

abbreviation "PressureNormal \<equiv> ''normal''"
abbreviation "PressureCollect \<equiv> ''collect''"
abbreviation "PressureRefuse \<equiv> ''refuse''"
abbreviation "PressureUnavailable \<equiv> ''unavailable''"

record capacity =
  TotalBytes :: int
  AvailableBytes :: int
  UsedBytes :: int
  ProjectedBytes :: int
  UsedPercent :: int
  Pressure :: gostring

definition zero_capacity :: capacity where
  "zero_capacity = \<lparr>TotalBytes = 0, AvailableBytes = 0, UsedBytes = 0, ProjectedBytes = 0,
     UsedPercent = 0, Pressure = []\<rparr>"

text \<open>\<open>bits.Mul64\<close> and \<open>bits.Div64\<close>; the division panics unless the divisor exceeds the high
  word.\<close>

definition Mul64 :: "u64 \<Rightarrow> u64 \<Rightarrow> u64 \<times> u64" where
  "Mul64 x y = (word_of_nat (unat x * unat y div 2 ^ 64), x * y)"

definition Div64 :: "u64 \<Rightarrow> u64 \<Rightarrow> u64 \<Rightarrow> (u64 \<times> u64) option" where
  "Div64 hi lo y =
     (if y \<le> hi then None
      else Some (word_of_nat ((unat hi * 2 ^ 64 + unat lo) div unat y),
                 word_of_nat ((unat hi * 2 ^ 64 + unat lo) mod unat y)))"

definition percentCeiling :: "int \<Rightarrow> int \<Rightarrow> int option" where
  "percentCeiling part total_bytes =
     (if part \<le> 0 \<or> total_bytes \<le> 0 then Some 0
      else let (high, low) = Mul64 (word_of_int part) 100
        in case Div64 high low (word_of_int total_bytes) of
             None \<Rightarrow> None
           | Some (percent, remainder) \<Rightarrow>
               let percent' = (if remainder > 0 then percent + 1 else percent)
               in if percent' > 100 then Some 100 else Some (sint percent'))"

text \<open>What \<open>ProbeCapacity\<close> observes: \<open>Lstat\<close> results carry whether the path is a directory and
  a symbolic link, and the identity \<open>os.SameFile\<close> compares.\<close>

record file_info =
  fi_dir :: bool
  fi_symlink :: bool
  fi_id :: nat

definition ProbeCapacity ::
  "ctx \<Rightarrow> lerr + file_info \<Rightarrow> lerr + unit \<Rightarrow> lerr + file_info \<Rightarrow> lerr + file_info \<Rightarrow>
   lerr + int \<times> int \<Rightarrow> capacity \<times> lerr option" where
  "ProbeCapacity c before root opened after platform =
     (let zero = (\<lambda>e. (zero_capacity, Some e)) in
      if ctx_canceled c then zero ErrCtxDone
      else case before of Inl e \<Rightarrow> zero (ErrWrap ''inspect lifecycle data root: '' e)
      | Inr b \<Rightarrow>
      if \<not> fi_dir b \<or> fi_symlink b then zero (ErrNew ''lifecycle data root is not a real directory'')
      else case root of Inl e \<Rightarrow> zero (ErrWrap ''open lifecycle data root: '' e)
      | Inr _ \<Rightarrow> case opened of Inl e \<Rightarrow> zero (ErrWrap ''inspect open lifecycle data root: '' e)
      | Inr opened_info \<Rightarrow> case after of Inl e \<Rightarrow> zero (ErrWrap ''reinspect lifecycle data root: '' e)
      | Inr a \<Rightarrow>
      if fi_id b \<noteq> fi_id opened_info \<or> fi_id opened_info \<noteq> fi_id a
      then zero (ErrNew ''lifecycle data root changed while probing capacity'')
      else case platform of Inl e \<Rightarrow> zero e
      | Inr (total_bytes, available) \<Rightarrow>
      if total_bytes \<le> 0 \<or> available < 0 \<or> available > total_bytes
      then zero (ErrNew ''filesystem returned invalid lifecycle capacity'')
      else (zero_capacity\<lparr>TotalBytes := total_bytes, AvailableBytes := available,
              UsedBytes := total_bytes - available\<rparr>, None))"

record gate =
  gate_data_dir :: gostring
  gate_latched :: bool

text \<open>The part of \<open>CheckObserved\<close> under the gate's mutex: the latch and the watermarks, for a
  capacity whose percentage is known.\<close>

definition apply_watermarks :: "bool \<Rightarrow> capacity \<Rightarrow> capacity \<times> lerr option \<times> bool" where
  "apply_watermarks latched cap =
     (if latched \<and> UsedPercent cap \<ge> ResumeWatermarkPercent
      then (cap\<lparr>Pressure := PressureRefuse\<rparr>, Some ErrPressureRefusal, True)
      else if UsedPercent cap \<ge> HardWatermarkPercent
      then (cap\<lparr>Pressure := PressureRefuse\<rparr>, Some ErrPressureRefusal, True)
      else if UsedPercent cap \<ge> SoftWatermarkPercent
      then (cap\<lparr>Pressure := PressureCollect\<rparr>, None, False)
      else (cap\<lparr>Pressure := PressureNormal\<rparr>, None, False))"

definition admission_bytes_error :: lerr where
  "admission_bytes_error = ErrNew ''lifecycle admission bytes must be from 0 through 51539607552''"

definition CheckObserved ::
  "gate option \<Rightarrow> ctx \<Rightarrow> capacity \<Rightarrow> int \<Rightarrow> (capacity \<times> lerr option) \<times> gate option" where
  "CheckObserved g c cap estimatedBytes =
     (case g of None \<Rightarrow> ((zero_capacity\<lparr>Pressure := PressureUnavailable\<rparr>, Some ErrCapacityUnavailable), None)
      | Some g \<Rightarrow>
        if c = NilCtx
        then ((zero_capacity\<lparr>Pressure := PressureUnavailable\<rparr>, Some ErrCapacityUnavailable), Some g)
        else if ctx_canceled c then ((zero_capacity, Some ErrCtxDone), Some g)
        else if estimatedBytes < 0 \<or> estimatedBytes > MaxPressureDependentAdmissionBytes
        then ((zero_capacity, Some admission_bytes_error), Some g)
        else if TotalBytes cap \<le> 0 \<or> AvailableBytes cap < 0 \<or> AvailableBytes cap > TotalBytes cap \<or>
                UsedBytes cap \<noteq> wrap64 (TotalBytes cap - AvailableBytes cap)
        then ((zero_capacity\<lparr>Pressure := PressureUnavailable\<rparr>, Some ErrCapacityUnavailable), Some g)
        else if UsedBytes cap > max_int64 - estimatedBytes
        then ((zero_capacity, Some (ErrNew ''lifecycle projected capacity overflows int64'')), Some g)
        else
          let projected = min (wrap64 (UsedBytes cap + estimatedBytes)) (TotalBytes cap)
          in case percentCeiling projected (TotalBytes cap) of
               None \<Rightarrow> ((zero_capacity, Some (ErrPanic ''integer overflow'')), Some g)
             | Some percent \<Rightarrow>
                 (case apply_watermarks (gate_latched g)
                         (cap\<lparr>ProjectedBytes := projected, UsedPercent := percent\<rparr>) of
                    (cap', err, latched) \<Rightarrow> ((cap', err), Some (g\<lparr>gate_latched := latched\<rparr>))))"

definition Check ::
  "gate option \<Rightarrow> (ctx \<Rightarrow> gostring \<Rightarrow> capacity \<times> lerr option) option \<Rightarrow> ctx \<Rightarrow> int \<Rightarrow>
   (capacity \<times> lerr option) \<times> gate option" where
  "Check g probe c estimatedBytes =
     (case (g, probe) of
        (Some g', Some p) \<Rightarrow>
          if gate_data_dir g' = []
          then ((zero_capacity\<lparr>Pressure := PressureUnavailable\<rparr>, Some ErrCapacityUnavailable), g)
          else if estimatedBytes < 0 \<or> estimatedBytes > MaxPressureDependentAdmissionBytes
          then ((zero_capacity, Some admission_bytes_error), g)
          else (case p c (gate_data_dir g') of
              (_, Some e) \<Rightarrow>
                if c = NilCtx then ((zero_capacity, Some (ErrPanic ''nil context'')), g)
                else if ctx_canceled c then ((zero_capacity, Some ErrCtxDone), g)
                else ((zero_capacity\<lparr>Pressure := PressureUnavailable\<rparr>,
                       Some (ErrWrap [] ErrCapacityUnavailable)), g)
            | (cap, None) \<Rightarrow> CheckObserved g c cap estimatedBytes)
      | _ \<Rightarrow> ((zero_capacity\<lparr>Pressure := PressureUnavailable\<rparr>, Some ErrCapacityUnavailable), g))"

section \<open>The percentage\<close>

lemma unat_word_of_int_u64: "0 \<le> x \<Longrightarrow> x < 2 ^ 64 \<Longrightarrow> unat (word_of_int x :: u64) = nat x"
  by (simp add: unat_eq_nat_uint uint_word_of_int take_bit_int_eq_self)

lemma unat_word_of_nat_u64: "n < 2 ^ 64 \<Longrightarrow> unat (word_of_nat n :: u64) = n"
  by (simp add: unat_of_nat take_bit_nat_eq_self)

lemma Mul64_value:
  assumes "unat x * unat y div 2 ^ 64 < 2 ^ 64" and "Mul64 x y = (hi, lo)"
  shows "unat hi * 2 ^ 64 + unat lo = unat x * unat y" "unat hi = unat x * unat y div 2 ^ 64"
proof -
  show hi: "unat hi = unat x * unat y div 2 ^ 64"
    using assms by (auto simp: Mul64_def unat_word_of_nat_u64)
  have "unat lo = unat x * unat y mod 2 ^ 64"
    using assms(2) by (auto simp: Mul64_def unat_word_ariths)
  with hi show "unat hi * 2 ^ 64 + unat lo = unat x * unat y" by simp
qed

definition ceiling_percent :: "int \<Rightarrow> int \<Rightarrow> int" where
  "ceiling_percent part total_bytes = (100 * part + total_bytes - 1) div total_bytes"

lemma ceiling_div_nat:
  fixes p t :: nat
  assumes "0 < t"
  shows "(p + t - 1) div t = p div t + (if p mod t > 0 then 1 else 0)"
proof -
  have "p + t - 1 = p div t * t + (p mod t + t - 1)"
    using assms by simp
  then have "(p + t - 1) div t = p div t + (p mod t + t - 1) div t"
    using assms by (simp only: div_mult_self3 [of t "p div t"] neq0_conv)
  moreover have "(p mod t + t - 1) div t = (if p mod t > 0 then 1 else 0)"
  proof (cases "p mod t")
    case (Suc k)
    moreover have "k < t" using Suc mod_less_divisor [OF assms, of p] by linarith
    ultimately show ?thesis by (simp add: div_nat_eqI)
  qed (use assms in simp)
  ultimately show ?thesis by simp
qed

lemma percentCeiling_exact:
  assumes "0 < part" "part \<le> total_bytes" "total_bytes \<le> max_int64"
  shows "percentCeiling part total_bytes = Some (ceiling_percent part total_bytes)"
proof -
  let ?P = "nat part" and ?T = "nat total_bytes"
  let ?p = "word_of_int part :: u64" and ?t = "word_of_int total_bytes :: u64"
  have up: "unat ?p = ?P" "unat ?t = ?T"
    using assms by (simp_all add: unat_word_of_int_u64 max_int64_def)
  have PT: "0 < ?P" "?P \<le> ?T" "?T < 2 ^ 63" using assms by (simp_all add: max_int64_def)
  obtain hi lo where m: "Mul64 ?p 100 = (hi, lo)" by fastforce
  have "unat ?p * unat (100::u64) div 2 ^ 64 < 2 ^ 64" using PT up by simp
  from Mul64_value [OF this m] up
  have v: "unat hi * 2 ^ 64 + unat lo = ?P * 100" "unat hi = ?P * 100 div 2 ^ 64" by simp_all
  have "unat hi < ?T" using PT v(2) by (simp add: less_mult_imp_div_less)
  then have lt: "\<not> ?t \<le> hi" using up by (simp add: word_le_nat_alt)
  let ?q = "?P * 100 div ?T" and ?r = "?P * 100 mod ?T"
  have q: "?q \<le> 100" using PT by (metis div_le_mono div_mult_self_is_m less_le_trans mult.commute mult_le_mono1)
  have uq: "unat (word_of_nat ?q :: u64) = ?q" "unat (word_of_nat ?r :: u64) = ?r"
    using q PT by (auto intro!: unat_word_of_nat_u64 intro: less_trans [OF mod_less_divisor])
  let ?c = "?q + (if ?r > 0 then 1 else 0)"
  have cd: "(?P * 100 + ?T - 1) div ?T = ?c" using ceiling_div_nat [of ?T "?P * 100"] PT by simp
  have c: "ceiling_percent part total_bytes = int ?c"
    unfolding cd [symmetric] using PT
    by (simp add: ceiling_percent_def zdiv_int of_nat_diff mult.commute)
  have "?P * 100 + ?T - 1 < 101 * ?T" using PT by linarith
  then have c100: "?c \<le> 100" unfolding cd [symmetric] using less_mult_imp_div_less by fastforce
  let ?w = "if (word_of_nat ?r :: u64) > 0 then word_of_nat ?q + 1 else word_of_nat ?q :: u64"
  have w: "?w = word_of_nat ?c"
    using uq(2) by (auto simp: word_greater_zero_iff unat_gt_0 [symmetric])
  have uw: "unat (word_of_nat ?c :: u64) = ?c"
    using c100 by (intro unat_word_of_nat_u64) simp
  then have "\<not> (word_of_nat ?c :: u64) > 100"
    using c100 by (simp only: word_less_nat_alt) simp
  moreover have "sint (word_of_nat n :: u64) = int n" if "n \<le> 100" for n
    using that by (simp add: signed_of_nat signed_take_bit_int_eq_self)
  then have "sint (word_of_nat ?c :: u64) = int ?c" using c100 by blast
  moreover have "percentCeiling part total_bytes = (if ?w > 100 then Some 100 else Some (sint ?w))"
    using assms lt v(1) up m by (simp add: percentCeiling_def Div64_def Let_def)
  ultimately show ?thesis unfolding c w by (simp only: if_False)
qed

text \<open>C6. The 128-bit percentage is exact: for every part of a total that fits \<open>int64\<close>,
  \<open>percentCeiling\<close> neither panics in \<open>bits.Div64\<close> nor wraps, and returns the least percentage
  that covers the part, so it reaches a watermark exactly when the exact ratio exceeds the
  percentage below it.\<close>

theorem percentCeiling_least:
  assumes "0 < part" "part \<le> total_bytes" "total_bytes \<le> max_int64"
  shows "\<exists>p. percentCeiling part total_bytes = Some p \<and> 1 \<le> p \<and> p \<le> 100 \<and>
    100 * part \<le> p * total_bytes \<and> (p - 1) * total_bytes < 100 * part"
proof -
  let ?p = "ceiling_percent part total_bytes" and ?n = "100 * part + total_bytes - 1"
  have t: "0 < total_bytes" using assms by simp
  have "?p * total_bytes + ?n mod total_bytes = ?n"
    unfolding ceiling_percent_def by (rule div_mult_mod_eq)
  moreover have "0 \<le> ?n mod total_bytes" "?n mod total_bytes < total_bytes" using t by simp_all
  ultimately have b: "100 * part \<le> ?p * total_bytes" "(?p - 1) * total_bytes < 100 * part"
    by (auto simp: left_diff_distrib)
  have "0 < ?p * total_bytes" using b(1) assms(1) by linarith
  then have "1 \<le> ?p" using t by (simp add: zero_less_mult_iff)
  moreover have "(?p - 1) * total_bytes < 100 * total_bytes" using b(2) assms(2) by linarith
  then have "?p \<le> 100" using t by simp
  ultimately show ?thesis using b percentCeiling_exact [OF assms] by blast
qed

theorem percentCeiling_least_witness:
  "\<exists>p. percentCeiling 9223372036854775806 9223372036854775807 = Some p \<and> 1 \<le> p \<and> p \<le> 100 \<and>
    100 * (9223372036854775806::int) \<le> p * 9223372036854775807 \<and>
    (p - 1) * 9223372036854775807 < 100 * (9223372036854775806::int)"
  by (rule percentCeiling_least) (simp_all add: max_int64_def)

section \<open>The pressure latch\<close>

text \<open>The observation a \<open>CheckObserved\<close> call makes, when the call gets as far as the latch: the
  percentage its projection has of the total.\<close>

definition observation_ok :: "capacity \<Rightarrow> int \<Rightarrow> bool" where
  "observation_ok cap est \<longleftrightarrow> 0 \<le> est \<and> est \<le> MaxPressureDependentAdmissionBytes \<and>
     0 < TotalBytes cap \<and> 0 \<le> AvailableBytes cap \<and> AvailableBytes cap \<le> TotalBytes cap \<and>
     UsedBytes cap = TotalBytes cap - AvailableBytes cap \<and> UsedBytes cap \<le> max_int64 - est"

definition projected_bytes :: "capacity \<Rightarrow> int \<Rightarrow> int" where
  "projected_bytes cap est = min (UsedBytes cap + est) (TotalBytes cap)"

definition gate_percent :: "ctx \<times> capacity \<times> int \<Rightarrow> int option" where
  "gate_percent call = (case call of (c, cap, est) \<Rightarrow>
     if c \<noteq> NilCtx \<and> \<not> ctx_canceled c \<and> observation_ok cap est
     then Some (if projected_bytes cap est = 0 then 0
                else ceiling_percent (projected_bytes cap est) (TotalBytes cap))
     else None)"

lemma CheckObserved_percent:
  assumes "gate_percent (c, cap, est) = Some p" "is_int64 (TotalBytes cap)"
  shows "CheckObserved (Some g) c cap est =
    (case apply_watermarks (gate_latched g)
            (cap\<lparr>ProjectedBytes := projected_bytes cap est, UsedPercent := p\<rparr>) of
       (cap', err, latched) \<Rightarrow> ((cap', err), Some (g\<lparr>gate_latched := latched\<rparr>)))"
proof -
  have o: "observation_ok cap est" "c \<noteq> NilCtx" "\<not> ctx_canceled c"
    and p: "p = (if projected_bytes cap est = 0 then 0
                else ceiling_percent (projected_bytes cap est) (TotalBytes cap))"
    using assms(1) by (auto simp: gate_percent_def split: if_splits)
  have w: "wrap64 (TotalBytes cap - AvailableBytes cap) = TotalBytes cap - AvailableBytes cap"
    "wrap64 (UsedBytes cap + est) = UsedBytes cap + est"
    using o(1) assms(2)
    by (auto simp: observation_ok_def is_int64_def max_int64_def min_int64_def intro!: wrap64_id)
  have b: "0 \<le> projected_bytes cap est" "projected_bytes cap est \<le> TotalBytes cap"
    "TotalBytes cap \<le> max_int64"
    using o(1) assms(2) by (auto simp: projected_bytes_def observation_ok_def is_int64_def)
  have "percentCeiling (projected_bytes cap est) (TotalBytes cap) = Some p"
    using b percentCeiling_exact [of "projected_bytes cap est" "TotalBytes cap"]
    by (cases "projected_bytes cap est = 0") (auto simp: p percentCeiling_def)
  then show ?thesis
    using o w by (simp add: CheckObserved_def observation_ok_def projected_bytes_def Let_def)
qed

lemma CheckObserved_unlatched:
  assumes "gate_percent (c, cap, est) = None" "is_int64 (TotalBytes cap)"
  shows "snd (CheckObserved (Some g) c cap est) = Some g"
    and "snd (fst (CheckObserved (Some g) c cap est)) \<noteq> None"
    and "snd (fst (CheckObserved (Some g) c cap est)) \<noteq> Some ErrPressureRefusal"
proof -
  have w: "wrap64 (TotalBytes cap - AvailableBytes cap) = TotalBytes cap - AvailableBytes cap"
    if "0 \<le> AvailableBytes cap" "AvailableBytes cap \<le> TotalBytes cap" "0 < TotalBytes cap"
    using that assms(2) by (auto simp: is_int64_def max_int64_def min_int64_def intro!: wrap64_id)
  have "c = NilCtx \<or> ctx_canceled c \<or> \<not> observation_ok cap est"
    using assms(1) by (auto simp: gate_percent_def split: if_splits)
  then show "snd (CheckObserved (Some g) c cap est) = Some g"
    "snd (fst (CheckObserved (Some g) c cap est)) \<noteq> None"
    "snd (fst (CheckObserved (Some g) c cap est)) \<noteq> Some ErrPressureRefusal"
    using w by (auto simp: CheckObserved_def observation_ok_def admission_bytes_error_def)
qed

text \<open>The latch over a sequence of percentages.\<close>

definition latch_step :: "bool \<Rightarrow> int \<Rightarrow> bool" where
  "latch_step latched p \<longleftrightarrow> HardWatermarkPercent \<le> p \<or> latched \<and> ResumeWatermarkPercent \<le> p"

definition under_pressure :: "int list \<Rightarrow> bool" where
  "under_pressure ps \<longleftrightarrow> (\<exists>xs p ys. ps = xs @ p # ys \<and> HardWatermarkPercent \<le> p \<and>
     (\<forall>q \<in> set ys. ResumeWatermarkPercent \<le> q))"

lemma under_pressure_Nil [simp]: "\<not> under_pressure []"
  by (simp add: under_pressure_def)

lemma under_pressure_snoc:
  "under_pressure (ps @ [p]) \<longleftrightarrow> latch_step (under_pressure ps) p"
proof
  assume "under_pressure (ps @ [p])"
  then obtain xs h ys where d: "ps @ [p] = xs @ h # ys" "HardWatermarkPercent \<le> h"
    "\<forall>q \<in> set ys. ResumeWatermarkPercent \<le> q" by (auto simp: under_pressure_def)
  show "latch_step (under_pressure ps) p"
  proof (cases ys rule: rev_cases)
    case Nil
    with d show ?thesis by (simp add: latch_step_def)
  next
    case (snoc zs z)
    with d have "ps = xs @ h # zs" "p = z" by simp_all
    with d snoc show ?thesis by (auto simp: latch_step_def under_pressure_def)
  qed
next
  assume "latch_step (under_pressure ps) p"
  then consider "HardWatermarkPercent \<le> p" | "under_pressure ps" "ResumeWatermarkPercent \<le> p"
    by (auto simp: latch_step_def)
  then show "under_pressure (ps @ [p])"
  proof cases
    case 1
    then show ?thesis unfolding under_pressure_def by fastforce
  next
    case 2
    then obtain xs h ys where d: "ps = xs @ h # ys" "HardWatermarkPercent \<le> h"
      "\<forall>q \<in> set ys. ResumeWatermarkPercent \<le> q" by (auto simp: under_pressure_def)
    with 2(2) have "ps @ [p] = xs @ h # (ys @ [p]) \<and> (\<forall>q \<in> set (ys @ [p]). ResumeWatermarkPercent \<le> q)"
      by simp
    with d(2) show ?thesis unfolding under_pressure_def by blast
  qed
qed

definition gate_run :: "gate option \<Rightarrow> (ctx \<times> capacity \<times> int) list \<Rightarrow> gate option" where
  "gate_run g calls = foldl (\<lambda>g (c, cap, est). snd (CheckObserved g c cap est)) g calls"

definition int64_call :: "ctx \<times> capacity \<times> int \<Rightarrow> bool" where
  "int64_call call \<longleftrightarrow> is_int64 (TotalBytes (fst (snd call)))"

lemma apply_watermarks_latch:
  "apply_watermarks l (cap\<lparr>UsedPercent := p\<rparr>) = (cap', err, l') \<Longrightarrow>
   l' = latch_step l p \<and> err = (if l' then Some ErrPressureRefusal else None)"
  by (auto simp: apply_watermarks_def latch_step_def split: if_splits)

lemma gate_run_latched:
  assumes "\<forall>call \<in> set calls. int64_call call"
  shows "gate_run (Some g) calls =
    Some (g\<lparr>gate_latched := foldl latch_step (gate_latched g) (List.map_filter gate_percent calls)\<rparr>)"
  using assms
proof (induction calls arbitrary: g)
  case (Cons call calls)
  obtain c cap est where call: "call = (c, cap, est)" by (cases call)
  have i: "is_int64 (TotalBytes cap)" using Cons.prems call by (simp add: int64_call_def)
  show ?case
  proof (cases "gate_percent (c, cap, est)")
    case None
    then show ?thesis
      using Cons CheckObserved_unlatched(1) [OF None i, of g]
      by (simp add: gate_run_def call List.map_filter_simps)
  next
    case (Some p)
    obtain cap' err l' where a: "apply_watermarks (gate_latched g)
        (cap\<lparr>ProjectedBytes := projected_bytes cap est, UsedPercent := p\<rparr>) = (cap', err, l')"
      by (metis prod_cases3)
    then have "l' = latch_step (gate_latched g) p" by (auto dest: apply_watermarks_latch)
    with a have "snd (CheckObserved (Some g) c cap est) =
        Some (g\<lparr>gate_latched := latch_step (gate_latched g) p\<rparr>)"
      by (simp add: CheckObserved_percent [OF Some i])
    then show ?thesis
      using Cons Some by (simp add: gate_run_def call List.map_filter_simps)
  qed
qed (simp add: gate_run_def List.map_filter_simps)

lemma foldl_latch_step: "foldl latch_step False ps = under_pressure ps"
  by (induction ps rule: rev_induct) (simp_all add: under_pressure_snoc)

text \<open>C7. The gate is the hysteresis latch its watermarks describe: from a fresh gate, after any
  calls (well formed or not, canceled or not), a further well-formed check is refused for pressure
  exactly when some observed percentage reached the hard watermark and none after it, the new one
  included, fell below the resume watermark; otherwise it is admitted.\<close>

theorem gate_hysteresis:
  assumes "\<forall>call \<in> set (calls @ [(c, cap, est)]). int64_call call"
    and "gate_percent (c, cap, est) = Some p"
  shows "snd (fst (CheckObserved (gate_run (Some \<lparr>gate_data_dir = d, gate_latched = False\<rparr>) calls) c cap est)) =
    (if under_pressure (List.map_filter gate_percent calls @ [p]) then Some ErrPressureRefusal else None)"
proof -
  let ?g = "\<lparr>gate_data_dir = d, gate_latched = under_pressure (List.map_filter gate_percent calls)\<rparr>"
  have g: "gate_run (Some \<lparr>gate_data_dir = d, gate_latched = False\<rparr>) calls = Some ?g"
    using assms(1) by (simp add: gate_run_latched foldl_latch_step)
  have i: "is_int64 (TotalBytes cap)" using assms(1) by (simp add: int64_call_def)
  obtain cap' err l' where a: "apply_watermarks (gate_latched ?g)
      (cap\<lparr>ProjectedBytes := projected_bytes cap est, UsedPercent := p\<rparr>) = (cap', err, l')"
    by (metis prod_cases3)
  from apply_watermarks_latch [OF a] show ?thesis
    unfolding g CheckObserved_percent [OF assms(2) i] using a
    by (simp add: under_pressure_snoc)
qed

definition sample_capacity :: "int \<Rightarrow> capacity" where
  "sample_capacity used = zero_capacity\<lparr>TotalBytes := 1000, AvailableBytes := 1000 - used, UsedBytes := used\<rparr>"

lemmas sample_defs = sample_capacity_def zero_capacity_def gate_percent_def observation_ok_def
  projected_bytes_def ceiling_percent_def int64_call_def is_int64_def max_int64_def min_int64_def

theorem gate_hysteresis_witness:
  "snd (fst (CheckObserved (gate_run (Some \<lparr>gate_data_dir = ''d'', gate_latched = False\<rparr>)
      [(Ctx False None, sample_capacity 900, 5)]) (Ctx False None) (sample_capacity 755) 0)) =
   Some ErrPressureRefusal"
proof -
  have p: "gate_percent (Ctx False None, sample_capacity 755, 0) = Some 76"
    "gate_percent (Ctx False None, sample_capacity 900, 5) = Some 91"
    by (simp_all add: sample_defs)
  have u: "under_pressure (List.map_filter gate_percent [(Ctx False None, sample_capacity 900, 5)] @ [76])"
    by (simp add: List.map_filter_simps p foldl_latch_step [symmetric] latch_step_def)
  show ?thesis
    using gate_hysteresis [of "[(Ctx False None, sample_capacity 900, 5)]" "Ctx False None"
        "sample_capacity 755" 0 76 "''d''"] p(1) u
    by (simp add: int64_call_def sample_capacity_def is_int64_def max_int64_def min_int64_def)
qed

end
