(* ===== verification/Lifecycle_Controller.thy ===== *)
theory Lifecycle_Controller
  imports Lifecycle_Capacity
begin

text \<open>
  The fair owner rotation of \<open>internal/lifecycle/controller.go\<close> over the durable cursors of
  \<open>internal/store/lifecycle.go\<close>. The Go interface \<open>CursorStore\<close> is the locale \<open>cursor_store\<close>; the
  SurrealDB table behind it is a map from record identifiers to rows, with a queue of the outcomes
  of the coming database calls, so that a call can fail before or after its transaction commits.
  The digest that names records and the owners' \<open>Sweep\<close> methods are parameters.
\<close>

section \<open>Durable cursors\<close>

record cursor_row =
  row_key :: gostring
  row_cursor :: gostring
  row_revision :: u64

text \<open>The outcome of a database call: it succeeds, it fails before the transaction, or its reply
  is lost after the transaction committed.\<close>

datatype io = IoOk | IoFail lerr | IoLost lerr

record cursor_db =
  db_rows :: "gostring \<rightharpoonup> cursor_row"
  db_io :: "io list"

definition next_io :: "cursor_db \<Rightarrow> io \<times> cursor_db" where
  "next_io d = (case db_io d of [] \<Rightarrow> (IoOk, d) | x # xs \<Rightarrow> (x, d\<lparr>db_io := xs\<rparr>))"

abbreviation "ErrLifecycleCursorConflict \<equiv> (ErrNew ''lifecycle cursor changed'' :: lerr)"

definition validateLifecycleCursor :: "gostring \<Rightarrow> gostring \<Rightarrow> lerr option" where
  "validateLifecycleCursor key cursor =
     (if key = [] \<or> TrimSpace key \<noteq> key \<or> \<not> ValidString key \<or> length key > 128 \<or>
         ContainsAny key [CHR 0x00, CHR 0x0D, CHR 0x0A]
      then Some (ErrNew ''lifecycle cursor key is invalid'')
      else if \<not> ValidString cursor \<or> length cursor > 512 \<or>
         ContainsAny cursor [CHR 0x00, CHR 0x0D, CHR 0x0A]
      then Some (ErrNew ''lifecycle cursor value is invalid'') else None)"

definition GetLifecycleCursor ::
  "(gostring \<Rightarrow> gostring) \<Rightarrow> cursor_db \<Rightarrow> gostring \<Rightarrow> (lerr + gostring \<times> u64) \<times> cursor_db" where
  "GetLifecycleCursor rid d key =
     (case validateLifecycleCursor key [] of
        Some e \<Rightarrow> (Inl e, d)
      | None \<Rightarrow>
          (case next_io d of
             (IoFail e, d') \<Rightarrow> (Inl (ErrWrap ''get lifecycle cursor: '' e), d')
           | (IoLost e, d') \<Rightarrow> (Inl (ErrWrap ''get lifecycle cursor: '' e), d')
           | (IoOk, d') \<Rightarrow>
               (case db_rows d' (rid key) of
                  None \<Rightarrow> (Inr ([], 0), d')
                | Some row \<Rightarrow>
                    if row_key row \<noteq> key \<or> row_revision row = 0 \<or>
                       validateLifecycleCursor (row_key row) (row_cursor row) \<noteq> None
                    then (Inl (ErrNew ''get lifecycle cursor: stored row is malformed''), d')
                    else (Inr (row_cursor row, row_revision row), d'))))"

text \<open>The transaction of \<open>CompareAndSwapLifecycleCursor\<close>: whether the revision matches, and the
  row it upserts when it does.\<close>

definition cas_matches :: "u64 \<Rightarrow> cursor_row option \<Rightarrow> bool" where
  "cas_matches expected existing \<longleftrightarrow>
     (if expected = 0 then existing = None else map_option row_revision existing = Some expected)"

definition cas_transaction ::
  "gostring \<Rightarrow> gostring \<Rightarrow> u64 \<Rightarrow> gostring \<Rightarrow> cursor_db \<Rightarrow> bool \<times> cursor_db" where
  "cas_transaction r key expected cursor d =
     (if cas_matches expected (db_rows d r)
      then (True, d\<lparr>db_rows := (db_rows d)(r \<mapsto>
              \<lparr>row_key = key, row_cursor = cursor, row_revision = expected + 1\<rparr>)\<rparr>)
      else (False, d))"

definition CompareAndSwapLifecycleCursor ::
  "(gostring \<Rightarrow> gostring) \<Rightarrow> cursor_db \<Rightarrow> gostring \<Rightarrow> u64 \<Rightarrow> gostring \<Rightarrow> lerr option \<times> cursor_db" where
  "CompareAndSwapLifecycleCursor rid d key expected cursor =
     (case validateLifecycleCursor key cursor of
        Some e \<Rightarrow> (Some e, d)
      | None \<Rightarrow>
          (case next_io d of
             (IoFail e, d') \<Rightarrow> (Some (ErrWrap ''compare and swap lifecycle cursor: '' e), d')
           | (IoLost e, d') \<Rightarrow> (Some (ErrWrap ''compare and swap lifecycle cursor: '' e),
                               snd (cas_transaction (rid key) key expected cursor d'))
           | (IoOk, d') \<Rightarrow>
               (case cas_transaction (rid key) key expected cursor d' of
                  (matches, d'') \<Rightarrow> (if matches then None else Some ErrLifecycleCursorConflict, d''))))"

section \<open>The controller\<close>

record controller =
  ct_owners :: "gostring list"
  ct_limits :: limits

definition rotationCursorKey :: gostring where
  "rotationCursorKey = ''rotation''"

definition NewController :: "bool \<Rightarrow> gostring option list \<Rightarrow> lerr + controller" where
  "NewController has_store owners =
     (if \<not> has_store then Inl (ErrNew ''lifecycle cursor store is nil'')
      else if list_ex (\<lambda>x. x = None) owners then Inl (ErrNew ''lifecycle owner is nil'')
      else case normalizeOwners (map (\<lambda>x. (the x, x)) owners) of
             Inl e \<Rightarrow> Inl e
           | Inr normalized \<Rightarrow> Inr \<lparr>ct_owners = map fst normalized, ct_limits = DefaultLimits\<rparr>)"

definition nextOwner :: "gostring list \<Rightarrow> gostring \<Rightarrow> gostring" where
  "nextOwner owners previous =
     (let index = sort_search (\<lambda>i. owners ! i > previous) 0 (length owners)
      in owners ! (if index = length owners then 0 else index))"

definition unavailable_result :: "gostring \<Rightarrow> lerr \<Rightarrow> owner_result" where
  "unavailable_result owner e =
     zero_result\<lparr>or_owner := owner, or_completeness := Unavailable, or_err := Some e\<rparr>"

text \<open>The stages of \<open>tick\<close> after the sweep: the stamp, the bounded-result check, the check of a
  requested advance on error, and the two compare-and-swaps.\<close>

definition stamp_result :: "gostring list \<Rightarrow> gostring \<Rightarrow> int \<Rightarrow> owner_result \<Rightarrow> owner_result" where
  "stamp_result owners name attemptedAt r =
     r\<lparr>or_owner := name, or_attempted_at := Some attemptedAt,
       or_cycle_start := (name = hd owners), or_cycle_complete := (name = last owners)\<rparr>"

definition check_bounded :: "limits \<Rightarrow> gostring \<Rightarrow> owner_result \<Rightarrow> owner_result" where
  "check_bounded l cursor r =
     (if or_err r \<noteq> None then r
      else let r' = (if or_completeness r = [] then r\<lparr>or_completeness := Exact\<rparr> else r)
        in if or_scanned r' < 0 \<or> or_scanned r' > Candidates l \<or>
              or_deleted r' < 0 \<or> or_deleted r' > Deletes l \<or>
              or_cursor r' = cursor \<and> or_more r' \<and> or_scanned r' = 0 \<and> or_deleted r' = 0
           then r'\<lparr>or_err := Some (ErrNew ''lifecycle owner returned an invalid bounded result''),
                   or_completeness := Unavailable\<rparr>
           else r')"

definition check_advance :: "gostring \<Rightarrow> owner_result \<Rightarrow> owner_result" where
  "check_advance cursor r =
     (if or_err r \<noteq> None \<and> or_advance_on_error r \<and> (or_cursor r = [] \<or> or_cursor r = cursor)
      then r\<lparr>or_err := errors_Join [or_err r,
               Some (ErrNew ''lifecycle owner requested invalid cursor advancement on error'')],
             or_advance_on_error := False\<rparr>
      else r)"

definition joined_failure :: "gostring \<Rightarrow> lerr \<Rightarrow> owner_result \<Rightarrow> owner_result" where
  "joined_failure msg e r =
     r\<lparr>or_err := errors_Join [or_err r, Some (ErrWrap msg e)], or_completeness := Unavailable\<rparr>"

definition save_cursor ::
  "('s \<Rightarrow> gostring \<Rightarrow> u64 \<Rightarrow> gostring \<Rightarrow> lerr option \<times> 's) \<Rightarrow> gostring \<Rightarrow> u64 \<Rightarrow>
   owner_result \<times> 's \<Rightarrow> owner_result \<times> 's" where
  "save_cursor cas key revision rs =
     (case rs of (r, s) \<Rightarrow>
        if or_err r = None \<or> or_advance_on_error r
        then (case cas s key revision (or_cursor r) of
                (None, s') \<Rightarrow> (r, s')
              | (Some e, s') \<Rightarrow> (joined_failure ''save lifecycle owner cursor: '' e r, s'))
        else (r, s))"

definition save_rotation ::
  "('s \<Rightarrow> gostring \<Rightarrow> u64 \<Rightarrow> gostring \<Rightarrow> lerr option \<times> 's) \<Rightarrow> u64 \<Rightarrow> gostring \<Rightarrow>
   owner_result \<times> 's \<Rightarrow> owner_result \<times> 's" where
  "save_rotation cas revision name rs =
     (case rs of (r, s) \<Rightarrow>
        case cas s rotationCursorKey revision name of
          (None, s') \<Rightarrow> (r, s')
        | (Some e, s') \<Rightarrow> (joined_failure ''save lifecycle rotation: '' e r, s'))"

definition owner_key :: "gostring \<Rightarrow> gostring" where
  "owner_key name = ''owner:'' @ name"

definition tick ::
  "('s \<Rightarrow> gostring \<Rightarrow> (lerr + gostring \<times> u64) \<times> 's) \<Rightarrow>
   ('s \<Rightarrow> gostring \<Rightarrow> u64 \<Rightarrow> gostring \<Rightarrow> lerr option \<times> 's) \<Rightarrow>
   controller option \<Rightarrow> ctx \<Rightarrow> bool \<Rightarrow> int \<Rightarrow>
   (gostring \<Rightarrow> int \<Rightarrow> gostring \<Rightarrow> limits \<Rightarrow> owner_result) \<Rightarrow> 's \<Rightarrow> owner_result \<times> 's" where
  "tick get cas ctl c selectedCleanup now sweep s =
     (if ctx_canceled c then (unavailable_result [] ErrCtxDone, s)
      else case ctl of
        None \<Rightarrow> (unavailable_result [] (ErrNew ''lifecycle controller is not configured''), s)
      | Some ctl \<Rightarrow>
        if ct_owners ctl = []
        then (unavailable_result [] (ErrNew ''lifecycle controller is not configured''), s)
        else case limits_validate (ct_limits ctl) of
          Some e \<Rightarrow> (unavailable_result [] e, s)
        | None \<Rightarrow>
          (case get s rotationCursorKey of
             (Inl e, s1) \<Rightarrow> (unavailable_result [] (ErrWrap ''read lifecycle rotation: '' e), s1)
           | (Inr (rotation, rotationRevision), s1) \<Rightarrow>
               let name = nextOwner (ct_owners ctl) rotation;
                   limits = (if selectedCleanup
                     then (ct_limits ctl)\<lparr>Deletes := SelectedCleanupDeleteLimit name\<rparr>
                     else ct_limits ctl)
               in (case get s1 (owner_key name) of
                     (Inl e, s2) \<Rightarrow>
                       (unavailable_result name (ErrWrap ''read lifecycle owner cursor: '' e), s2)
                   | (Inr (cursor, cursorRevision), s2) \<Rightarrow>
                       let result = check_advance cursor (check_bounded limits cursor
                             (stamp_result (ct_owners ctl) name now (sweep name now cursor limits)))
                       in save_rotation cas rotationRevision name
                            (save_cursor cas (owner_key name) cursorRevision (result, s2)))))"

text \<open>Consecutive turns, each with its own time and the sweeps of that turn.\<close>

fun tick_run ::
  "('s \<Rightarrow> gostring \<Rightarrow> (lerr + gostring \<times> u64) \<times> 's) \<Rightarrow>
   ('s \<Rightarrow> gostring \<Rightarrow> u64 \<Rightarrow> gostring \<Rightarrow> lerr option \<times> 's) \<Rightarrow> controller \<Rightarrow>
   (int \<times> (gostring \<Rightarrow> int \<Rightarrow> gostring \<Rightarrow> limits \<Rightarrow> owner_result)) list \<Rightarrow> 's \<Rightarrow>
   owner_result list \<times> 's" where
  "tick_run get cas ctl [] s = ([], s)"
| "tick_run get cas ctl ((now, sweep) # turns) s =
     (case tick get cas (Some ctl) (Ctx False None) False now sweep s of
        (r, s1) \<Rightarrow> (case tick_run get cas ctl turns s1 of (rs, s2) \<Rightarrow> (r # rs, s2)))"

section \<open>The next owner\<close>

lemma nextOwner_index:
  assumes "sorted_wrt (<) owners" "owners \<noteq> []"
  shows "\<exists>j < length owners. nextOwner owners previous = owners ! j"
proof (cases "sort_search (\<lambda>i. owners ! i > previous) 0 (length owners) = length owners")
  case True
  with assms(2) show ?thesis by (auto simp: nextOwner_def Let_def)
next
  case False
  with sort_search_range [of 0 "length owners" "\<lambda>i. owners ! i > previous"]
  have "sort_search (\<lambda>i. owners ! i > previous) 0 (length owners) < length owners" by simp
  with False show ?thesis by (auto simp: nextOwner_def Let_def)
qed

text \<open>After owner \<open>i\<close> comes owner \<open>i + 1\<close>, and the first one after the last.\<close>

lemma nextOwner_successor:
  assumes "sorted_wrt (<) owners" "i < length owners"
  shows "nextOwner owners (owners ! i) = owners ! ((i + 1) mod length owners)"
proof -
  let ?f = "\<lambda>a. owners ! a > owners ! i" and ?n = "length owners"
  let ?k = "sort_search ?f 0 ?n"
  have mono: "?f a \<longleftrightarrow> i < a" if "a < ?n" for a
  proof -
    have "owners ! x < owners ! y" if "x < y" "y < ?n" for x y
      using sorted_wrt_nth_less [OF assms(1) that] .
    then show ?thesis using that assms(2) by (cases a i rule: linorder_cases) (auto dest: order_less_asym)
  qed
  have m: "\<forall>a b. a \<le> b \<longrightarrow> b < ?n \<longrightarrow> ?f a \<longrightarrow> ?f b"
  proof (intro allI impI)
    fix a b assume "a \<le> b" "b < ?n" "?f a"
    then show "?f b" using mono [of a] mono [of b] by simp
  qed
  have l: "\<forall>a < ?k. \<not> ?f a" "\<forall>a. ?k \<le> a \<longrightarrow> a < ?n \<longrightarrow> ?f a"
    using sort_search_least [OF le0 order_refl m] by (meson leD less_zeroE)+
  have r: "?k \<le> ?n" using sort_search_range [of 0 ?n ?f] by simp
  have "i < ?k" using l(2) mono assms(2) by (metis less_irrefl not_le_imp_less)
  moreover have "\<not> Suc i < ?k"
  proof
    assume "Suc i < ?k"
    then have "\<not> ?f (Suc i)" "Suc i < ?n" using l(1) r by auto
    then show False using mono by simp
  qed
  ultimately have "?k = i + 1" by simp
  then show ?thesis using assms(2) by (auto simp: nextOwner_def Let_def mod_if)
qed

section \<open>The cursor store interface\<close>

text \<open>What a client of \<open>CursorStore\<close> relies on while the store is healthy: \<open>current\<close> is the
  cursor and revision a key stands at, a read returns it, a compare-and-swap at the current revision
  replaces it and touches no other key, and one at another revision changes nothing.\<close>

locale cursor_store =
  fixes get :: "'s \<Rightarrow> gostring \<Rightarrow> (lerr + gostring \<times> u64) \<times> 's"
    and cas :: "'s \<Rightarrow> gostring \<Rightarrow> u64 \<Rightarrow> gostring \<Rightarrow> lerr option \<times> 's"
    and healthy :: "'s \<Rightarrow> bool"
    and current :: "'s \<Rightarrow> gostring \<Rightarrow> gostring \<times> u64"
    and accepts :: "gostring \<Rightarrow> gostring \<Rightarrow> bool"
  assumes get_current: "healthy s \<Longrightarrow> accepts k [] \<Longrightarrow> get s k = (Inr (current s k), s)"
    and cas_current: "healthy s \<Longrightarrow> accepts k v \<Longrightarrow> snd (current s k) \<noteq> - 1 \<Longrightarrow>
      \<exists>s'. cas s k (snd (current s k)) v = (None, s') \<and> healthy s' \<and>
        current s' = (current s)(k := (v, snd (current s k) + 1))"
    and cas_stale: "healthy s \<Longrightarrow> accepts k v \<Longrightarrow> r \<noteq> snd (current s k) \<Longrightarrow>
      cas s k r v = (Some ErrLifecycleCursorConflict, s)"
    and cas_refused: "\<not> accepts k v \<Longrightarrow> \<exists>e. cas s k r v = (Some e, s)"
    and accepts_key: "accepts k v \<Longrightarrow> accepts k []"
begin

text \<open>Saving the owner's cursor moves at most the owner's key.\<close>

lemma save_cursor_healthy:
  assumes "healthy s" "snd (current s k) \<noteq> - 1"
  shows "\<exists>r' s'. save_cursor cas k (snd (current s k)) (r, s) = (r', s') \<and> healthy s' \<and>
    or_owner r' = or_owner r \<and>
    current s' = (if accepts k (or_cursor r) \<and> (or_err r = None \<or> or_advance_on_error r)
      then (current s)(k := (or_cursor r, snd (current s k) + 1)) else current s)"
proof (cases "or_err r = None \<or> or_advance_on_error r")
  case False
  then show ?thesis using assms by (cases "or_err r") (simp_all add: save_cursor_def)
next
  case True
  show ?thesis
  proof (cases "accepts k (or_cursor r)")
    case acc: True
    from cas_current [OF assms(1) acc assms(2)] obtain s' where
      "cas s k (snd (current s k)) (or_cursor r) = (None, s')" "healthy s'"
      "current s' = (current s)(k := (or_cursor r, snd (current s k) + 1))" by blast
    with True acc show ?thesis by (simp add: save_cursor_def)
  next
    case acc: False
    from cas_refused [OF acc] obtain e where "cas s k (snd (current s k)) (or_cursor r) = (Some e, s)"
      by blast
    with True acc assms(1) show ?thesis by (simp add: save_cursor_def joined_failure_def)
  qed
qed

lemma tick_rotates:
  assumes "healthy s" "ct_owners ctl \<noteq> []" "limits_validate (ct_limits ctl) = None"
    and "\<not> ctx_canceled c"
    and "name = nextOwner (ct_owners ctl) (fst (current s rotationCursorKey))"
    and "accepts rotationCursorKey name" "accepts (owner_key name) []"
    and "snd (current s rotationCursorKey) \<noteq> - 1" "snd (current s (owner_key name)) \<noteq> - 1"
  shows "\<exists>r s'. tick get cas (Some ctl) c sel now sweep s = (r, s') \<and> healthy s' \<and> or_owner r = name \<and>
    current s' rotationCursorKey = (name, snd (current s rotationCursorKey) + 1) \<and>
    snd (current s' (owner_key name)) \<in> {snd (current s (owner_key name)), snd (current s (owner_key name)) + 1} \<and>
    (\<forall>k. k \<noteq> rotationCursorKey \<and> k \<noteq> owner_key name \<longrightarrow> current s' k = current s k)"
proof -
  have ne: "owner_key name \<noteq> rotationCursorKey" by (simp add: owner_key_def rotationCursorKey_def)
  obtain rotation rrev where rot: "current s rotationCursorKey = (rotation, rrev)" by fastforce
  obtain cursor crev where cur: "current s (owner_key name) = (cursor, crev)" by fastforce
  have g: "get s rotationCursorKey = (Inr (rotation, rrev), s)"
    "get s (owner_key name) = (Inr (cursor, crev), s)"
    using get_current [OF assms(1) accepts_key [OF assms(6)]] get_current [OF assms(1,7)] rot cur by simp_all
  let ?l = "if sel then (ct_limits ctl)\<lparr>Deletes := SelectedCleanupDeleteLimit name\<rparr> else ct_limits ctl"
  let ?r = "check_advance cursor (check_bounded ?l cursor
      (stamp_result (ct_owners ctl) name now (sweep name now cursor ?l)))"
  have own: "or_owner ?r = name"
    by (simp add: check_advance_def check_bounded_def stamp_result_def Let_def)
  obtain r1 s1 where s1: "save_cursor cas (owner_key name) crev (?r, s) = (r1, s1)" "healthy s1"
    "or_owner r1 = name" and c1: "current s1 rotationCursorKey = (rotation, rrev)"
    "\<forall>k. k \<noteq> owner_key name \<longrightarrow> current s1 k = current s k"
    "snd (current s1 (owner_key name)) \<in> {crev, crev + 1}"
    using save_cursor_healthy [OF assms(1), of "owner_key name" ?r] assms(9) cur own ne rot
    by (auto split: if_splits)
  obtain s2 where s2: "cas s1 rotationCursorKey rrev name = (None, s2)" "healthy s2"
    "current s2 = (current s1)(rotationCursorKey := (name, rrev + 1))"
    using cas_current [OF s1(2) assms(6)] assms(8) c1 rot by auto
  have "tick get cas (Some ctl) c sel now sweep s = (r1, s2)"
    using assms(2-4) g s1(1) s2(1) assms(5) [unfolded rot fst_conv, symmetric]
    by (simp add: tick_def Let_def save_rotation_def cong: if_cong)
  then show ?thesis using s1(3) s2 c1 ne rot cur by auto
qed

lemma tick_run_rotates:
  assumes "healthy s" "sorted_wrt (<) (ct_owners ctl)" "j < length (ct_owners ctl)"
    and "nextOwner (ct_owners ctl) (fst (current s rotationCursorKey)) = ct_owners ctl ! j"
    and "limits_validate (ct_limits ctl) = None"
    and "\<forall>name \<in> set (ct_owners ctl). accepts rotationCursorKey name \<and> accepts (owner_key name) []"
    and "\<forall>k. unat (snd (current s k)) + length turns < 2 ^ 64"
  shows "map or_owner (fst (tick_run get cas ctl turns s)) =
    map (\<lambda>m. ct_owners ctl ! ((j + m) mod length (ct_owners ctl))) [0..<length turns]"
  using assms
proof (induction turns arbitrary: s j)
  case (Cons turn turns)
  let ?n = "length (ct_owners ctl)" and ?name = "ct_owners ctl ! j"
  obtain now sweep where turn: "turn = (now, sweep)" by (cases turn)
  have mem: "?name \<in> set (ct_owners ctl)" using Cons.prems(3) by simp
  have rev: "snd (current s k) \<noteq> - 1" for k
  proof
    assume "snd (current s k) = - 1"
    moreover have "unat (- 1 :: u64) = 2 ^ 64 - 1"
      by (simp add: unsigned_minus_1_eq_mask mask_eq_exp_minus_1)
    ultimately show False using Cons.prems(7) [rule_format, of k] by simp
  qed
  have "ct_owners ctl \<noteq> []" using Cons.prems(3) by auto
  from tick_rotates [OF Cons.prems(1) this Cons.prems(5), of "Ctx False None" ?name False now sweep]
  obtain r s1 where t: "tick get cas (Some ctl) (Ctx False None) False now sweep s = (r, s1)"
    "healthy s1" "or_owner r = ?name"
    "current s1 rotationCursorKey = (?name, snd (current s rotationCursorKey) + 1)"
    and o: "snd (current s1 (owner_key ?name)) \<in> {snd (current s (owner_key ?name)), snd (current s (owner_key ?name)) + 1}"
    "\<forall>k. k \<noteq> rotationCursorKey \<and> k \<noteq> owner_key ?name \<longrightarrow> current s1 k = current s k"
    using Cons.prems(4,6) mem rev by auto
  have step: "snd (current s1 k) = snd (current s k) \<or> snd (current s1 k) = snd (current s k) + 1" for k
    using t(4) o by (cases "k = rotationCursorKey"; cases "k = owner_key ?name") auto
  have inc: "unat (snd (current s1 k)) \<le> unat (snd (current s k)) + 1" for k
  proof -
    have "unat (x + 1) \<le> unat x + 1" for x :: u64
      by (simp add: unat_plus_if' le_diff_conv)
    then show ?thesis using step [of k] by (metis le_add1)
  qed
  have "unat (snd (current s1 k)) + length turns < 2 ^ 64" for k
    using inc [of k] Cons.prems(7) [rule_format, of k] by simp
  moreover have "nextOwner (ct_owners ctl) (fst (current s1 rotationCursorKey)) =
      ct_owners ctl ! ((j + 1) mod ?n)"
    using t(4) nextOwner_successor [OF Cons.prems(2,3)] by simp
  moreover have "(j + 1) mod ?n < ?n" using Cons.prems(3) by (intro mod_less_divisor) auto
  ultimately have "map or_owner (fst (tick_run get cas ctl turns s1)) =
      map (\<lambda>m. ct_owners ctl ! (((j + 1) mod ?n + m) mod ?n)) [0..<length turns]"
    using Cons.IH [OF t(2) Cons.prems(2)] Cons.prems(5,6) by blast
  moreover have "((j + 1) mod ?n + m) mod ?n = (j + Suc m) mod ?n" for m
    by (simp add: mod_simps)
  ultimately show ?case
    using t Cons.prems(3) by (simp add: turn prod.case_eq_if map_upt_Suc del: upt_Suc)
qed simp

end

section \<open>The database implements the interface\<close>

definition accepts_cursor :: "gostring \<Rightarrow> gostring \<Rightarrow> bool" where
  "accepts_cursor k v \<longleftrightarrow> validateLifecycleCursor k v = None"

definition row_ok :: "gostring \<Rightarrow> cursor_row option \<Rightarrow> bool" where
  "row_ok k r \<longleftrightarrow> (case r of None \<Rightarrow> True
     | Some row \<Rightarrow> row_key row = k \<and> row_revision row \<noteq> 0 \<and> accepts_cursor k (row_cursor row))"

text \<open>A healthy database answers its calls, names records injectively and holds well-formed
  rows.\<close>

definition db_healthy :: "(gostring \<Rightarrow> gostring) \<Rightarrow> cursor_db \<Rightarrow> bool" where
  "db_healthy rid d \<longleftrightarrow> db_io d = [] \<and> inj rid \<and>
     (\<forall>k. accepts_cursor k [] \<longrightarrow> row_ok k (db_rows d (rid k)))"

definition db_current :: "(gostring \<Rightarrow> gostring) \<Rightarrow> cursor_db \<Rightarrow> gostring \<Rightarrow> gostring \<times> u64" where
  "db_current rid d k = (case db_rows d (rid k) of None \<Rightarrow> ([], 0)
     | Some row \<Rightarrow> (row_cursor row, row_revision row))"

lemma accepts_cursor_key: "accepts_cursor k v \<Longrightarrow> accepts_cursor k []"
  by (auto simp: accepts_cursor_def validateLifecycleCursor_def ContainsAny_def split: if_splits)

lemma next_io_healthy [simp]: "db_io d = [] \<Longrightarrow> next_io d = (IoOk, d)"
  by (simp add: next_io_def)

lemma cas_matches_current:
  assumes "db_healthy rid d" "accepts_cursor k []"
  shows "cas_matches r (db_rows d (rid k)) \<longleftrightarrow> r = snd (db_current rid d k)"
proof -
  have "row_ok k (db_rows d (rid k))" using assms by (simp add: db_healthy_def)
  then show ?thesis
    by (cases "db_rows d (rid k)") (auto simp: cas_matches_def db_current_def row_ok_def)
qed

lemma db_write:
  assumes "db_healthy rid d" "accepts_cursor k v" "r \<noteq> - 1"
  defines "d' \<equiv> d\<lparr>db_rows := (db_rows d)(rid k \<mapsto>
    \<lparr>row_key = k, row_cursor = v, row_revision = r + 1\<rparr>)\<rparr>"
  shows "db_healthy rid d'" "db_current rid d' = (db_current rid d)(k := (v, r + 1))"
proof -
  have i: "inj rid" using assms(1) by (simp add: db_healthy_def)
  have "r + 1 \<noteq> 0" using assms(3) by (metis add.commute add_eq_0_iff)
  then show "db_healthy rid d'"
    using assms(1,2) i by (auto simp: db_healthy_def d'_def row_ok_def inj_eq)
  show "db_current rid d' = (db_current rid d)(k := (v, r + 1))"
    using i by (auto simp: db_current_def d'_def inj_eq)
qed

interpretation cursors: cursor_store "GetLifecycleCursor rid" "CompareAndSwapLifecycleCursor rid"
  "db_healthy rid" "db_current rid" accepts_cursor for rid
proof
  fix s k
  assume h: "db_healthy rid s" "accepts_cursor k []"
  then have "row_ok k (db_rows s (rid k))" "db_io s = []" by (simp_all add: db_healthy_def)
  then show "GetLifecycleCursor rid s k = (Inr (db_current rid s k), s)"
    using h(2) by (auto simp: GetLifecycleCursor_def accepts_cursor_def db_current_def row_ok_def
        split: option.splits)
next
  fix s k v
  assume h: "db_healthy rid s" "accepts_cursor k v" and r: "snd (db_current rid s k) \<noteq> - 1"
  have "CompareAndSwapLifecycleCursor rid s k (snd (db_current rid s k)) v =
      (None, s\<lparr>db_rows := (db_rows s)(rid k \<mapsto>
        \<lparr>row_key = k, row_cursor = v, row_revision = snd (db_current rid s k) + 1\<rparr>)\<rparr>)"
    using h cas_matches_current [OF h(1) accepts_cursor_key [OF h(2)]]
    by (simp add: CompareAndSwapLifecycleCursor_def accepts_cursor_def cas_transaction_def db_healthy_def)
  then show "\<exists>s'. CompareAndSwapLifecycleCursor rid s k (snd (db_current rid s k)) v = (None, s') \<and>
      db_healthy rid s' \<and> db_current rid s' = (db_current rid s)(k := (v, snd (db_current rid s k) + 1))"
    using db_write [OF h r] by blast
next
  fix s k v r
  assume h: "db_healthy rid s" "accepts_cursor k v" and r: "r \<noteq> snd (db_current rid s k)"
  then show "CompareAndSwapLifecycleCursor rid s k r v = (Some ErrLifecycleCursorConflict, s)"
    using cas_matches_current [OF h(1) accepts_cursor_key [OF h(2)]]
    by (simp add: CompareAndSwapLifecycleCursor_def accepts_cursor_def cas_transaction_def db_healthy_def)
next
  fix s k v r
  assume "\<not> accepts_cursor k v"
  then show "\<exists>e. CompareAndSwapLifecycleCursor rid s k r v = (Some e, s)"
    by (auto simp: CompareAndSwapLifecycleCursor_def accepts_cursor_def)
qed (rule accepts_cursor_key)

section \<open>Fair rotation\<close>

lemma NewController_owners:
  assumes "NewController b owners = Inr ctl"
  shows "sorted_wrt (<) (ct_owners ctl)" "ct_owners ctl \<noteq> []" "ct_limits ctl = DefaultLimits"
    "mset (map Some (ct_owners ctl)) = mset owners"
proof -
  let ?reg = "map (\<lambda>x. (the x, x)) owners"
  obtain normalized where n: "normalizeOwners ?reg = Inr normalized"
    "ctl = \<lparr>ct_owners = map fst normalized, ct_limits = DefaultLimits\<rparr>" "None \<notin> set owners"
    using assms by (auto simp: NewController_def list_ex_iff split: if_splits sum.splits)
  show "sorted_wrt (<) (ct_owners ctl)" "ct_owners ctl \<noteq> []" "ct_limits ctl = DefaultLimits"
    using normalizeOwners_sorted [OF n(1)] n(2) by simp_all
  have "mset (map (\<lambda>x. Some (fst x)) normalized) = mset (map (\<lambda>x. Some (fst x)) ?reg)"
    using normalizeOwners_sorted(2) [OF n(1)] by (simp only: mset_map)
  also have "map (\<lambda>x. Some (fst x)) ?reg = map id owners"
  proof -
    have "Some (the x) = x" if "x \<in> set owners" for x
      using that n(3) by (metis option.collapse)
    then show ?thesis by (simp cong: map_cong)
  qed
  finally show "mset (map Some (ct_owners ctl)) = mset owners" using n(2) by (simp add: comp_def)
qed

lemma DefaultLimits_valid [simp]: "limits_validate DefaultLimits = None"
  by (simp add: limits_validate_def DefaultLimits_def)

text \<open>C8. The rotation is fair and survives restarts: from any healthy cursor table, whatever the
  owners' sweeps return (errors and out-of-bounds results included), consecutive ticks visit the
  registered owners in cyclic order, one per tick, starting after the owner the durable rotation
  cursor names; so every owner runs once in any \<open>n\<close> consecutive turns of \<open>n\<close> owners.\<close>

theorem tick_fair:
  assumes "NewController True owners = Inr ctl"
    and "db_healthy rid d"
    and "\<forall>name \<in> set (ct_owners ctl). accepts_cursor rotationCursorKey name \<and> accepts_cursor (owner_key name) []"
    and "\<forall>k. unat (snd (db_current rid d k)) + length turns < 2 ^ 64"
  shows "\<exists>j < length (ct_owners ctl).
    nextOwner (ct_owners ctl) (fst (db_current rid d rotationCursorKey)) = ct_owners ctl ! j \<and>
    map or_owner (fst (tick_run (GetLifecycleCursor rid) (CompareAndSwapLifecycleCursor rid) ctl turns d)) =
    map (\<lambda>m. ct_owners ctl ! ((j + m) mod length (ct_owners ctl))) [0..<length turns]"
proof -
  note c = NewController_owners [OF assms(1)]
  obtain j where j: "j < length (ct_owners ctl)"
    "nextOwner (ct_owners ctl) (fst (db_current rid d rotationCursorKey)) = ct_owners ctl ! j"
    using nextOwner_index [OF c(1,2)] by blast
  have l: "limits_validate (ct_limits ctl) = None" using c(3) by simp
  from cursors.tick_run_rotates [OF assms(2) c(1) j l assms(3,4)] j show ?thesis by blast
qed

definition sample_controller :: controller where
  "sample_controller = \<lparr>ct_owners = [''a'', ''b''], ct_limits = DefaultLimits\<rparr>"

definition sample_db :: cursor_db where
  "sample_db = \<lparr>db_rows = Map.empty, db_io = []\<rparr>"

definition failing_sweep :: "gostring \<Rightarrow> int \<Rightarrow> gostring \<Rightarrow> limits \<Rightarrow> owner_result" where
  "failing_sweep name now cursor l = unavailableOwnerResult cursor (ErrNew ''offline'')"

lemma sample_NewController: "NewController True [Some ''b'', Some ''a''] = Inr sample_controller"
  by code_simp

lemma sample_accepts: "accepts_cursor rotationCursorKey ''a''" "accepts_cursor rotationCursorKey ''b''"
  "accepts_cursor (owner_key ''a'') []" "accepts_cursor (owner_key ''b'') []"
  by code_simp+

theorem tick_fair_witness:
  "map or_owner (fst (tick_run (GetLifecycleCursor id) (CompareAndSwapLifecycleCursor id)
     sample_controller (replicate 3 (0, failing_sweep)) sample_db)) \<in> {[''a'', ''b'', ''a''], [''b'', ''a'', ''b'']}"
proof -
  have "db_healthy id sample_db" "\<forall>k. unat (snd (db_current id sample_db k)) + length (replicate 3 (0::int, failing_sweep)) < 2 ^ 64"
    by (simp_all add: db_healthy_def sample_db_def db_current_def row_ok_def)
  moreover have "\<forall>name \<in> set (ct_owners sample_controller).
      accepts_cursor rotationCursorKey name \<and> accepts_cursor (owner_key name) []"
    using sample_accepts by (simp add: sample_controller_def)
  ultimately obtain j where j: "j < length (ct_owners sample_controller)"
    "map or_owner (fst (tick_run (GetLifecycleCursor id) (CompareAndSwapLifecycleCursor id)
      sample_controller (replicate 3 (0, failing_sweep)) sample_db)) =
     map (\<lambda>m. ct_owners sample_controller ! ((j + m) mod length (ct_owners sample_controller)))
       [0..<length (replicate 3 (0::int, failing_sweep))]"
    using tick_fair [OF sample_NewController] by blast
  from j(1) have "j = 0 \<or> j = 1" by (auto simp: sample_controller_def)
  then show ?thesis unfolding j(2)
    by (elim disjE) (simp_all add: sample_controller_def upt_rec numeral_3_eq_3 mod_Suc)
qed

section \<open>What a reported success means\<close>

lemma get_rows: "GetLifecycleCursor rid d k = (x, d') \<Longrightarrow> db_rows d' = db_rows d"
  by (auto simp: GetLifecycleCursor_def next_io_def split: option.splits list.splits io.splits if_splits)

lemma get_Inr: "GetLifecycleCursor rid d k = (Inr x, d') \<Longrightarrow> x = db_current rid d k"
  by (auto simp: GetLifecycleCursor_def next_io_def db_current_def
      split: option.splits list.splits io.splits if_splits)

lemma cas_None:
  assumes "CompareAndSwapLifecycleCursor rid d k r v = (None, d')"
  shows "db_rows d' = (db_rows d)(rid k \<mapsto> \<lparr>row_key = k, row_cursor = v, row_revision = r + 1\<rparr>)"
    "cas_matches r (db_rows d (rid k))"
  using assms by (auto simp: CompareAndSwapLifecycleCursor_def next_io_def cas_transaction_def
      split: option.splits list.splits io.splits if_splits)

lemma save_cursor_success:
  assumes "save_cursor cas k v (r, s) = (r', s')" "or_err r' = None"
  shows "r' = r" "or_err r = None" "cas s k v (or_cursor r) = (None, s')"
  using assms by (auto simp: save_cursor_def joined_failure_def split: if_splits option.splits prod.splits)

lemma save_rotation_success:
  assumes "save_rotation cas v name (r, s) = (r', s')" "or_err r' = None"
  shows "r' = r" "cas s rotationCursorKey v name = (None, s')"
  using assms by (auto simp: save_rotation_def joined_failure_def split: option.splits prod.splits)

lemma checked_success:
  assumes "or_err (check_advance cursor (check_bounded l cursor r)) = None"
  shows "0 \<le> or_scanned (check_advance cursor (check_bounded l cursor r))"
    "or_scanned (check_advance cursor (check_bounded l cursor r)) \<le> Candidates l"
    "0 \<le> or_deleted (check_advance cursor (check_bounded l cursor r))"
    "or_deleted (check_advance cursor (check_bounded l cursor r)) \<le> Deletes l"
  using assms by (auto simp: check_advance_def check_bounded_def Let_def split: if_splits)

text \<open>C9. A reported success is durable and bounded, under any pattern of database failures: when
  \<open>tick\<close> returns a result without error, both compare-and-swaps matched the revisions it had read,
  the table now holds the result's cursor for that owner and the owner's name as the rotation, and
  the work is within the tick's limits.\<close>

theorem tick_success_durable:
  assumes "tick (GetLifecycleCursor rid) (CompareAndSwapLifecycleCursor rid) ctl c sel now sweep d = (r, d')"
    and "or_err r = None" and "inj rid"
  shows "\<exists>ct crev rrev. ctl = Some ct \<and>
    or_owner r = nextOwner (ct_owners ct) (fst (db_current rid d rotationCursorKey)) \<and>
    db_rows d' = (db_rows d)
      (rid (owner_key (or_owner r)) \<mapsto>
         \<lparr>row_key = owner_key (or_owner r), row_cursor = or_cursor r, row_revision = crev + 1\<rparr>,
       rid rotationCursorKey \<mapsto>
         \<lparr>row_key = rotationCursorKey, row_cursor = or_owner r, row_revision = rrev + 1\<rparr>) \<and>
    cas_matches crev (db_rows d (rid (owner_key (or_owner r)))) \<and>
    cas_matches rrev (db_rows d (rid rotationCursorKey)) \<and>
    0 \<le> or_scanned r \<and> or_scanned r \<le> MaxCandidatesPerTick \<and> 0 \<le> or_deleted r \<and>
    or_deleted r \<le> (if sel then SelectedCleanupDeleteLimit (or_owner r) else MaxDeletesPerTick)"
proof -
  obtain ct where ct: "ctl = Some ct" "\<not> ctx_canceled c" "ct_owners ct \<noteq> []"
    "limits_validate (ct_limits ct) = None"
    using assms(1,2) by (auto simp: tick_def unavailable_result_def split: if_splits option.splits)
  obtain rotation rrev d1 where g1: "GetLifecycleCursor rid d rotationCursorKey = (Inr (rotation, rrev), d1)"
    using assms(1,2) ct by (auto simp: tick_def unavailable_result_def split: if_splits sum.splits prod.splits)
  let ?name = "nextOwner (ct_owners ct) rotation"
  let ?l = "if sel then (ct_limits ct)\<lparr>Deletes := SelectedCleanupDeleteLimit ?name\<rparr> else ct_limits ct"
  obtain cursor crev d2 where g2: "GetLifecycleCursor rid d1 (owner_key ?name) = (Inr (cursor, crev), d2)"
    using assms(1,2) ct g1
    by (auto simp: tick_def unavailable_result_def Let_def split: if_splits sum.splits prod.splits)
  let ?r = "check_advance cursor (check_bounded ?l cursor
      (stamp_result (ct_owners ct) ?name now (sweep ?name now cursor ?l)))"
  obtain r1 d3 where s1: "save_cursor (CompareAndSwapLifecycleCursor rid) (owner_key ?name) crev (?r, d2) = (r1, d3)"
    by fastforce
  have s2: "save_rotation (CompareAndSwapLifecycleCursor rid) rrev ?name (r1, d3) = (r, d')"
    using assms(1) ct g1 g2 s1 by (simp add: tick_def Let_def)
  note k2 = save_rotation_success [OF s2 assms(2)]
  have "or_err r1 = None" using k2(1) assms(2) by simp
  note k1 = save_cursor_success [OF s1 this]
  have own: "or_owner ?r = ?name"
    by (simp add: check_advance_def check_bounded_def stamp_result_def Let_def)
  have r: "r = ?r" using k1(1) k2(1) by simp
  have ne: "rid (owner_key ?name) \<noteq> rid rotationCursorKey"
    using assms(3) by (simp add: inj_eq owner_key_def rotationCursorKey_def)
  have rows: "db_rows d2 = db_rows d" using get_rows [OF g1] get_rows [OF g2] by simp
  have rot: "rotation = fst (db_current rid d rotationCursorKey)"
    using get_Inr [OF g1] by (metis fst_conv)
  have b: "0 \<le> or_scanned ?r" "or_scanned ?r \<le> Candidates ?l" "0 \<le> or_deleted ?r" "or_deleted ?r \<le> Deletes ?l"
    using checked_success k1(2) by blast+
  have l: "Candidates ?l \<le> MaxCandidatesPerTick"
    "Deletes ?l \<le> (if sel then SelectedCleanupDeleteLimit ?name else MaxDeletesPerTick)"
    using ct(4) by (auto simp: limits_validate_def split: if_splits)
  have w: "db_rows d' = (db_rows d)
      (rid (owner_key ?name) \<mapsto> \<lparr>row_key = owner_key ?name, row_cursor = or_cursor ?r, row_revision = crev + 1\<rparr>,
       rid rotationCursorKey \<mapsto> \<lparr>row_key = rotationCursorKey, row_cursor = ?name, row_revision = rrev + 1\<rparr>)"
    "cas_matches crev (db_rows d (rid (owner_key ?name)))" "cas_matches rrev (db_rows d (rid rotationCursorKey))"
    using cas_None [OF k1(3)] cas_None [OF k2(2)] rows ne by simp_all
  have "or_scanned ?r \<le> MaxCandidatesPerTick"
    "or_deleted ?r \<le> (if sel then SelectedCleanupDeleteLimit ?name else MaxDeletesPerTick)"
    using b l by linarith+
  with w b(1,3) show ?thesis unfolding r own using rot ct(1) by blast
qed

definition idle_sweep :: "gostring \<Rightarrow> int \<Rightarrow> gostring \<Rightarrow> limits \<Rightarrow> owner_result" where
  "idle_sweep name now cursor l = zero_result\<lparr>or_cursor := ''next'', or_scanned := 2\<rparr>"

lemma sample_tick_ok: "or_err (fst (tick (GetLifecycleCursor id) (CompareAndSwapLifecycleCursor id)
    (Some sample_controller) (Ctx False None) False 7 idle_sweep sample_db)) = None"
  by code_simp

theorem tick_success_durable_witness:
  "let t = tick (GetLifecycleCursor id) (CompareAndSwapLifecycleCursor id)
     (Some sample_controller) (Ctx False None) False 7 idle_sweep sample_db
   in db_rows (snd t) (owner_key (or_owner (fst t))) \<noteq> None \<and>
      map_option row_cursor (db_rows (snd t) rotationCursorKey) = Some (or_owner (fst t))"
  using tick_success_durable [OF prod.collapse [symmetric] sample_tick_ok inj_on_id]
  by (auto simp: Let_def)

section \<open>An unreadable owner cursor\<close>

lemma tick_unreadable:
  assumes "ct_owners ctl \<noteq> []" "limits_validate (ct_limits ctl) = None"
    and "get s rotationCursorKey = (Inr (rotation, revision), s)"
    and "name = nextOwner (ct_owners ctl) rotation" "get s (owner_key name) = (Inl e, s)"
  shows "tick get cas (Some ctl) (Ctx False None) sel now sweep s =
    (unavailable_result name (ErrWrap ''read lifecycle owner cursor: '' e), s)"
  using assms by (simp add: tick_def Let_def)

text \<open>C10. An owner whose stored cursor cannot be read stops the whole rotation: while the next
  owner's row is malformed, every tick reports that owner's error and leaves the table as it is, the
  rotation cursor included, so no other owner ever gets a turn.\<close>

theorem tick_unreadable_cursor_stalls:
  assumes "NewController True owners = Inr ctl"
    and "GetLifecycleCursor rid d rotationCursorKey = (Inr (rotation, revision), d)"
    and "GetLifecycleCursor rid d (owner_key (nextOwner (ct_owners ctl) rotation)) = (Inl e, d)"
  shows "tick_run (GetLifecycleCursor rid) (CompareAndSwapLifecycleCursor rid) ctl turns d =
    (replicate (length turns) (unavailable_result (nextOwner (ct_owners ctl) rotation)
       (ErrWrap ''read lifecycle owner cursor: '' e)), d)"
proof (induction turns)
  case (Cons turn turns)
  have "ct_owners ctl \<noteq> []" "limits_validate (ct_limits ctl) = None"
    using NewController_owners [OF assms(1)] by simp_all
  note t = tick_unreadable [where get = "GetLifecycleCursor rid" and s = d, OF this assms(2) refl assms(3)]
  show ?case by (cases turn) (simp add: t Cons.IH)
qed simp

definition malformed_db :: cursor_db where
  "malformed_db = sample_db\<lparr>db_rows := [owner_key ''a'' \<mapsto>
     \<lparr>row_key = owner_key ''a'', row_cursor = [], row_revision = 0\<rparr>]\<rparr>"

theorem tick_unreadable_cursor_stalls_witness:
  "tick_run (GetLifecycleCursor id) (CompareAndSwapLifecycleCursor id) sample_controller
     (replicate 5 (0, idle_sweep)) malformed_db =
   (replicate 5 (unavailable_result ''a'' (ErrWrap ''read lifecycle owner cursor: ''
      (ErrNew ''get lifecycle cursor: stored row is malformed''))), malformed_db)"
proof -
  have v: "validateLifecycleCursor rotationCursorKey [] = None"
    "validateLifecycleCursor (owner_key ''a'') [] = None" by code_simp+
  have ne: "owner_key ''a'' \<noteq> rotationCursorKey" by code_simp
  have n: "nextOwner (ct_owners sample_controller) [] = ''a''" by code_simp
  have "GetLifecycleCursor id malformed_db rotationCursorKey = (Inr ([], 0), malformed_db)"
    using ne v(1) by (simp add: GetLifecycleCursor_def malformed_db_def sample_db_def)
  moreover have "GetLifecycleCursor id malformed_db (owner_key ''a'') =
      (Inl (ErrNew ''get lifecycle cursor: stored row is malformed''), malformed_db)"
    using v by (simp add: GetLifecycleCursor_def malformed_db_def sample_db_def)
  ultimately show ?thesis
    using tick_unreadable_cursor_stalls [OF sample_NewController, of id malformed_db "[]" 0] n
    by simp
qed

end
