(* ===== verification/Lifecycle_Runner.thy ===== *)
theory Lifecycle_Runner
  imports Lifecycle_Controller
begin

text \<open>
  The pacing state machine of \<open>internal/lifecycle/runner.go\<close>: \<open>runnerState.turn\<close> decides after
  each owner turn and capacity check whether the runner comes back after the backlog delay, after
  the shorter pressure-recovery delay, or only after the idle interval. The report callbacks have no
  effect on the state. Durations are nanoseconds.
\<close>

section \<open>State and turn\<close>

record runner_state =
  idleInterval :: int
  backlogDelay :: int
  delay :: int
  cycleStarted :: bool
  cycleNeedsRetry :: bool
  pressureRecoveryCycle :: bool
  pressureRecoveryNormalCycle :: bool
  capacityRetryCycle :: bool
  priorCapacityExactNormal :: bool

definition initial_runner :: "int \<Rightarrow> int \<Rightarrow> runner_state" where
  "initial_runner idle backlog = \<lparr>idleInterval = idle, backlogDelay = backlog, delay = 0,
     cycleStarted = False, cycleNeedsRetry = False, pressureRecoveryCycle = False,
     pressureRecoveryNormalCycle = False, capacityRetryCycle = False,
     priorCapacityExactNormal = False\<rparr>"

abbreviation "DefaultPressureRecoveryDelay \<equiv> 250000000 :: int"

definition runnerBacklogDelay :: "int \<Rightarrow> bool \<Rightarrow> int" where
  "runnerBacklogDelay backlog pressureRecovery =
     (if pressureRecovery \<and> backlog > DefaultPressureRecoveryDelay
      then DefaultPressureRecoveryDelay else backlog)"

definition observe_cycle :: "owner_result \<Rightarrow> runner_state \<Rightarrow> runner_state" where
  "observe_cycle r st =
     (let st1 = (if or_cycle_start r then st\<lparr>cycleStarted := True, cycleNeedsRetry := False\<rparr> else st)
      in if cycleStarted st1 \<and> (or_err r \<noteq> None \<or> or_more r)
         then st1\<lparr>cycleNeedsRetry := True\<rparr> else st1)"

definition pressure_accelerated :: "capacity \<Rightarrow> bool" where
  "pressure_accelerated cap \<longleftrightarrow> Pressure cap = PressureCollect \<or> Pressure cap = PressureRefuse"

definition capacity_exact :: "capacity \<times> lerr option \<Rightarrow> bool" where
  "capacity_exact obs \<longleftrightarrow> Pressure (fst obs) \<noteq> PressureUnavailable \<and>
     (snd obs = None \<or> is_error (snd obs) ErrPressureRefusal)"

definition capacity_exact_normal :: "capacity \<times> lerr option \<Rightarrow> bool" where
  "capacity_exact_normal obs \<longleftrightarrow> capacity_exact obs \<and> Pressure (fst obs) = PressureNormal"

definition observe_pressure :: "owner_result \<Rightarrow> capacity \<times> lerr option \<Rightarrow> runner_state \<Rightarrow> runner_state" where
  "observe_pressure r obs st =
     (let st1 = (if or_cycle_start r then st\<lparr>capacityRetryCycle := False\<rparr> else st);
          st2 = (if \<not> capacity_exact obs then st1\<lparr>capacityRetryCycle := True\<rparr> else st1);
          st3 = (if pressure_accelerated (fst obs)
                 then st2\<lparr>pressureRecoveryCycle := True, pressureRecoveryNormalCycle := False\<rparr> else st2);
          st4 = (if pressureRecoveryCycle st3 then
                   let st5 = (if or_cycle_start r
                         then st3\<lparr>pressureRecoveryNormalCycle :=
                                priorCapacityExactNormal st3 \<and> capacity_exact_normal obs\<rparr>
                         else if \<not> capacity_exact_normal obs
                         then st3\<lparr>pressureRecoveryNormalCycle := False\<rparr> else st3)
                   in if or_cycle_complete r \<and> pressureRecoveryNormalCycle st5 \<and> \<not> cycleNeedsRetry st5
                      then st5\<lparr>pressureRecoveryCycle := False, pressureRecoveryNormalCycle := False\<rparr>
                      else st5
                 else st3)
      in st4\<lparr>priorCapacityExactNormal := capacity_exact_normal obs\<rparr>)"

text \<open>Whether the runner stays on the backlog delay; \<open>accelerated\<close> is the turn's own pressure.\<close>

definition stays_busy :: "owner_result \<Rightarrow> bool \<Rightarrow> runner_state \<Rightarrow> bool" where
  "stays_busy r accelerated st \<longleftrightarrow> cycleNeedsRetry st \<or> \<not> or_cycle_complete r \<or> \<not> cycleStarted st \<or>
     accelerated \<or> pressureRecoveryCycle st \<or> capacityRetryCycle st"

definition choose_delay :: "owner_result \<Rightarrow> bool \<Rightarrow> runner_state \<Rightarrow> runner_state" where
  "choose_delay r accelerated st =
     (if stays_busy r accelerated st
      then st\<lparr>delay := runnerBacklogDelay (backlogDelay st) (accelerated \<or> pressureRecoveryCycle st)\<rparr>
      else st\<lparr>delay := idleInterval st, cycleStarted := False, cycleNeedsRetry := False\<rparr>)"

text \<open>\<open>turn\<close> on the result of \<open>tick\<close>: \<open>canceled\<close> is \<open>ctx.Err() != nil\<close> after the tick, and the
  capacity observation is absent when the gate is nil. A canceled turn ends the runner.\<close>

definition turn :: "bool \<Rightarrow> owner_result \<Rightarrow> (capacity \<times> lerr option) option \<Rightarrow> runner_state \<Rightarrow> bool \<times> runner_state" where
  "turn canceled r obs st =
     (if canceled then (False, st)
      else let st1 = observe_cycle r st
        in case obs of
             None \<Rightarrow> (True, choose_delay r False st1)
           | Some ob \<Rightarrow> (True, choose_delay r (pressure_accelerated (fst ob)) (observe_pressure r ob st1)))"

section \<open>Histories of turns\<close>

type_synonym runner_turn = "owner_result \<times> capacity \<times> lerr option"

definition run_turn :: "runner_state \<Rightarrow> runner_turn \<Rightarrow> runner_state" where
  "run_turn st t = snd (turn False (fst t) (Some (snd t)) st)"

abbreviation starts :: "runner_turn \<Rightarrow> bool" where
  "starts t \<equiv> or_cycle_start (fst t)"

definition clean :: "runner_turn \<Rightarrow> bool" where
  "clean t \<longleftrightarrow> or_err (fst t) = None \<and> \<not> or_more (fst t)"

abbreviation pressured :: "runner_turn \<Rightarrow> bool" where
  "pressured t \<equiv> pressure_accelerated (fst (snd t))"

abbreviation normal :: "runner_turn \<Rightarrow> bool" where
  "normal t \<equiv> capacity_exact_normal (snd t)"

definition full_cycle :: "runner_turn list \<Rightarrow> bool" where
  "full_cycle ts \<longleftrightarrow> ts \<noteq> [] \<and> starts (hd ts) \<and> or_cycle_complete (fst (last ts))"

text \<open>Pressure has been recovered from: there was none, or after the last pressured turn the runner
  saw a whole clean cycle at normal capacity, and a normal observation just before it.\<close>

definition recovered :: "runner_turn list \<Rightarrow> bool" where
  "recovered h \<longleftrightarrow> (\<forall>t \<in> set h. \<not> pressured t) \<or>
     (\<exists>as a bs cs. h = as @ a # bs @ cs \<and> normal a \<and> full_cycle bs \<and>
        (\<forall>t \<in> set bs. clean t \<and> normal t) \<and> (\<forall>t \<in> set cs. \<not> pressured t))"

text \<open>The turns since the last start of a cycle.\<close>

definition window_step :: "runner_turn list \<Rightarrow> runner_turn \<Rightarrow> runner_turn list" where
  "window_step w t = (if starts t then [t] else if w = [] then [] else w @ [t])"

definition cycle_window :: "runner_turn list \<Rightarrow> runner_turn list" where
  "cycle_window h = foldl window_step [] h"

lemma cycle_window_snoc [simp]: "cycle_window (h @ [t]) = window_step (cycle_window h) t"
  by (simp add: cycle_window_def)

lemma cycle_window_Nil [simp]: "cycle_window [] = []"
  by (simp add: cycle_window_def)

lemma cycle_window_suffix: "\<exists>xs. h = xs @ cycle_window h"
proof (induction h rule: rev_induct)
  case (snoc t h)
  then obtain xs where "h = xs @ cycle_window h" by blast
  then have "h @ [t] = xs @ (cycle_window h @ [t])" by (metis append.assoc)
  then show ?case by (auto simp: window_step_def)
qed simp

lemma cycle_window_starts: "cycle_window h \<noteq> [] \<Longrightarrow> starts (hd (cycle_window h))"
  by (induction h rule: rev_induct) (auto simp: window_step_def)

text \<open>The turns since the last start, or all of them.\<close>

definition capacity_window :: "runner_turn list \<Rightarrow> runner_turn list" where
  "capacity_window h = foldl (\<lambda>w t. if starts t then [t] else w @ [t]) [] h"

lemma capacity_window_snoc [simp]:
  "capacity_window (h @ [t]) = (if starts t then [t] else capacity_window h @ [t])"
  by (simp add: capacity_window_def)

lemma capacity_window_Nil [simp]: "capacity_window [] = []"
  by (simp add: capacity_window_def)

lemma capacity_window_cycle: "cycle_window h \<noteq> [] \<Longrightarrow> capacity_window h = cycle_window h"
  by (induction h rule: rev_induct) (auto simp: window_step_def split: if_splits)

definition runner_inv :: "runner_turn list \<Rightarrow> runner_state \<Rightarrow> bool" where
  "runner_inv h st \<longleftrightarrow>
     (cycleStarted st \<longrightarrow> cycle_window h \<noteq> []) \<and>
     (cycleStarted st \<and> \<not> cycleNeedsRetry st \<longrightarrow> (\<forall>t \<in> set (cycle_window h). clean t)) \<and>
     (\<not> capacityRetryCycle st \<longrightarrow> (\<forall>t \<in> set (capacity_window h). capacity_exact (snd t))) \<and>
     (priorCapacityExactNormal st \<longrightarrow> h \<noteq> [] \<and> normal (last h)) \<and>
     (pressureRecoveryNormalCycle st \<longrightarrow> pressureRecoveryCycle st \<and> cycleStarted st \<and>
        (\<exists>as a. h = as @ a # cycle_window h \<and> normal a) \<and> (\<forall>t \<in> set (cycle_window h). normal t)) \<and>
     (\<not> pressureRecoveryCycle st \<longrightarrow> recovered h)"

section \<open>The invariant of the pacing state\<close>

lemma pressured_not_normal: "pressured t \<Longrightarrow> \<not> normal t"
  by (auto simp: pressure_accelerated_def capacity_exact_normal_def)

lemma normal_exact: "normal t \<Longrightarrow> capacity_exact (snd t)"
  by (simp add: capacity_exact_normal_def)

definition retry_after :: "runner_state \<Rightarrow> runner_turn \<Rightarrow> bool" where
  "retry_after st t \<longleftrightarrow> (if starts t then \<not> clean t else cycleNeedsRetry st \<or> cycleStarted st \<and> \<not> clean t)"

definition normal_cycle_after :: "runner_state \<Rightarrow> runner_turn \<Rightarrow> bool" where
  "normal_cycle_after st t \<longleftrightarrow> normal t \<and>
     (if starts t then priorCapacityExactNormal st else pressureRecoveryNormalCycle st)"

definition recovers :: "runner_state \<Rightarrow> runner_turn \<Rightarrow> bool" where
  "recovers st t \<longleftrightarrow> pressureRecoveryCycle st \<and> or_cycle_complete (fst t) \<and>
     normal_cycle_after st t \<and> \<not> retry_after st t"

definition busy_after :: "runner_state \<Rightarrow> runner_turn \<Rightarrow> bool" where
  "busy_after st t \<longleftrightarrow> retry_after st t \<or> \<not> or_cycle_complete (fst t) \<or>
     \<not> (starts t \<or> cycleStarted st) \<or> pressured t \<or>
     (pressureRecoveryCycle st \<or> pressured t) \<and> \<not> recovers st t \<or>
     (\<not> starts t \<and> capacityRetryCycle st \<or> \<not> capacity_exact (snd t))"

lemmas run_turn_defs = run_turn_def turn_def observe_cycle_def observe_pressure_def choose_delay_def
  stays_busy_def retry_after_def normal_cycle_after_def recovers_def busy_after_def clean_def Let_def

lemma observe_cycle_fields:
  "cycleStarted (observe_cycle (fst t) st) = (starts t \<or> cycleStarted st)"
  "cycleNeedsRetry (observe_cycle (fst t) st) = retry_after st t"
  "pressureRecoveryCycle (observe_cycle (fst t) st) = pressureRecoveryCycle st"
  "pressureRecoveryNormalCycle (observe_cycle (fst t) st) = pressureRecoveryNormalCycle st"
  "capacityRetryCycle (observe_cycle (fst t) st) = capacityRetryCycle st"
  "priorCapacityExactNormal (observe_cycle (fst t) st) = priorCapacityExactNormal st"
  "idleInterval (observe_cycle (fst t) st) = idleInterval st"
  "backlogDelay (observe_cycle (fst t) st) = backlogDelay st"
  by (auto simp: observe_cycle_def retry_after_def clean_def Let_def)

lemma observe_pressure_fields:
  fixes st :: runner_state and t :: runner_turn
  assumes "pressureRecoveryNormalCycle st \<longrightarrow> pressureRecoveryCycle st"
  defines "st1 \<equiv> observe_pressure (fst t) (snd t) (observe_cycle (fst t) st)"
  shows "cycleStarted st1 = (starts t \<or> cycleStarted st)"
    "cycleNeedsRetry st1 = retry_after st t"
    "pressureRecoveryCycle st1 = ((pressureRecoveryCycle st \<or> pressured t) \<and> \<not> recovers st t)"
    "pressureRecoveryNormalCycle st1 = (pressureRecoveryCycle st \<and> normal_cycle_after st t \<and> \<not> recovers st t)"
    "capacityRetryCycle st1 = (\<not> starts t \<and> capacityRetryCycle st \<or> \<not> capacity_exact (snd t))"
    "priorCapacityExactNormal st1 = normal t"
    "idleInterval st1 = idleInterval st" "backlogDelay st1 = backlogDelay st"
proof -
  show "cycleStarted st1 = (starts t \<or> cycleStarted st)" "cycleNeedsRetry st1 = retry_after st t"
    "capacityRetryCycle st1 = (\<not> starts t \<and> capacityRetryCycle st \<or> \<not> capacity_exact (snd t))"
    "priorCapacityExactNormal st1 = normal t"
    "idleInterval st1 = idleInterval st" "backlogDelay st1 = backlogDelay st"
    by (simp_all add: st1_def observe_pressure_def Let_def observe_cycle_fields)
  show "pressureRecoveryCycle st1 = ((pressureRecoveryCycle st \<or> pressured t) \<and> \<not> recovers st t)"
    using pressured_not_normal [of t]
    by (auto simp: st1_def observe_pressure_def Let_def observe_cycle_fields recovers_def normal_cycle_after_def)
  show "pressureRecoveryNormalCycle st1 = (pressureRecoveryCycle st \<and> normal_cycle_after st t \<and> \<not> recovers st t)"
    using pressured_not_normal [of t] assms(1)
    by (auto simp: st1_def observe_pressure_def Let_def observe_cycle_fields recovers_def normal_cycle_after_def)
qed

lemma run_turn_fields:
  fixes st :: runner_state and t :: runner_turn
  assumes "pressureRecoveryNormalCycle st \<longrightarrow> pressureRecoveryCycle st"
  shows "cycleStarted (run_turn st t) = (busy_after st t \<and> (starts t \<or> cycleStarted st))"
    "cycleNeedsRetry (run_turn st t) = (busy_after st t \<and> retry_after st t)"
    "pressureRecoveryCycle (run_turn st t) = ((pressureRecoveryCycle st \<or> pressured t) \<and> \<not> recovers st t)"
    "pressureRecoveryNormalCycle (run_turn st t) = (pressureRecoveryCycle st \<and> normal_cycle_after st t \<and> \<not> recovers st t)"
    "capacityRetryCycle (run_turn st t) = (\<not> starts t \<and> capacityRetryCycle st \<or> \<not> capacity_exact (snd t))"
    "priorCapacityExactNormal (run_turn st t) = normal t"
    "idleInterval (run_turn st t) = idleInterval st" "backlogDelay (run_turn st t) = backlogDelay st"
    "delay (run_turn st t) = (if busy_after st t
       then runnerBacklogDelay (backlogDelay st)
         (pressured t \<or> (pressureRecoveryCycle st \<or> pressured t) \<and> \<not> recovers st t)
       else idleInterval st)"
proof -
  let ?st1 = "observe_pressure (fst t) (snd t) (observe_cycle (fst t) st)"
  note f = observe_pressure_fields [OF assms]
  have r: "run_turn st t = choose_delay (fst t) (pressured t) ?st1"
    by (simp add: run_turn_def turn_def Let_def)
  have b: "stays_busy (fst t) (pressured t) ?st1 = busy_after st t"
    unfolding stays_busy_def busy_after_def f by blast
  show "cycleStarted (run_turn st t) = (busy_after st t \<and> (starts t \<or> cycleStarted st))"
    "cycleNeedsRetry (run_turn st t) = (busy_after st t \<and> retry_after st t)"
    "pressureRecoveryCycle (run_turn st t) = ((pressureRecoveryCycle st \<or> pressured t) \<and> \<not> recovers st t)"
    "pressureRecoveryNormalCycle (run_turn st t) = (pressureRecoveryCycle st \<and> normal_cycle_after st t \<and> \<not> recovers st t)"
    "capacityRetryCycle (run_turn st t) = (\<not> starts t \<and> capacityRetryCycle st \<or> \<not> capacity_exact (snd t))"
    "priorCapacityExactNormal (run_turn st t) = normal t"
    "idleInterval (run_turn st t) = idleInterval st" "backlogDelay (run_turn st t) = backlogDelay st"
    "delay (run_turn st t) = (if busy_after st t
       then runnerBacklogDelay (backlogDelay st)
         (pressured t \<or> (pressureRecoveryCycle st \<or> pressured t) \<and> \<not> recovers st t)
       else idleInterval st)"
    by (simp_all only: r choose_delay_def b f if_distrib [of cycleStarted] if_distrib [of cycleNeedsRetry]
        if_distrib [of pressureRecoveryCycle] if_distrib [of pressureRecoveryNormalCycle]
        if_distrib [of capacityRetryCycle] if_distrib [of priorCapacityExactNormal]
        if_distrib [of idleInterval] if_distrib [of backlogDelay] if_distrib [of delay])
      (simp_all add: f)
qed

lemma runner_inv_window:
  assumes "runner_inv h st"
  shows "starts t \<or> cycleStarted st \<Longrightarrow> cycle_window (h @ [t]) \<noteq> []"
    "starts t \<or> cycleStarted st \<Longrightarrow> \<not> retry_after st t \<Longrightarrow> \<forall>u \<in> set (cycle_window (h @ [t])). clean u"
    "\<not> (\<not> starts t \<and> capacityRetryCycle st \<or> \<not> capacity_exact (snd t)) \<Longrightarrow>
       \<forall>u \<in> set (capacity_window (h @ [t])). capacity_exact (snd u)"
  using assms by (auto simp: runner_inv_def window_step_def retry_after_def split: if_splits)

lemma normal_cycle_window:
  assumes "runner_inv h st" "pressureRecoveryCycle st" "normal_cycle_after st t"
  shows "starts t \<or> cycleStarted st" "\<exists>as a. h @ [t] = as @ a # cycle_window (h @ [t]) \<and> normal a"
    "\<forall>u \<in> set (cycle_window (h @ [t])). normal u"
proof -
  show "starts t \<or> cycleStarted st"
    using assms by (auto simp: runner_inv_def normal_cycle_after_def split: if_splits)
  show "\<forall>u \<in> set (cycle_window (h @ [t])). normal u"
    using assms by (auto simp: runner_inv_def normal_cycle_after_def window_step_def split: if_splits)
  show "\<exists>as a. h @ [t] = as @ a # cycle_window (h @ [t]) \<and> normal a"
  proof (cases "starts t")
    case True
    with assms have "h \<noteq> []" "normal (last h)" by (simp_all add: runner_inv_def normal_cycle_after_def)
    then have "h @ [t] = butlast h @ last h # cycle_window (h @ [t]) \<and> normal (last h)"
      using True by (simp add: window_step_def)
    then show ?thesis by blast
  next
    case False
    with assms obtain as a where "h = as @ a # cycle_window h" "normal a" "cycle_window h \<noteq> []"
      by (auto simp: runner_inv_def normal_cycle_after_def)
    then have "h @ [t] = as @ a # (cycle_window h @ [t])" by (metis append.assoc append_Cons)
    moreover have "cycle_window (h @ [t]) = cycle_window h @ [t]"
      using False \<open>cycle_window h \<noteq> []\<close> by (simp add: window_step_def)
    ultimately show ?thesis using \<open>normal a\<close> by metis
  qed
qed

lemma recovered_snoc: "recovered h \<Longrightarrow> \<not> pressured t \<Longrightarrow> recovered (h @ [t])"
proof -
  assume h: "recovered h" and t: "\<not> pressured t"
  show ?thesis
  proof (cases "\<forall>t \<in> set h. \<not> pressured t")
    case True
    with t show ?thesis by (simp add: recovered_def)
  next
    case False
    with h obtain as a bs cs where r: "h = as @ a # bs @ cs" "normal a" "full_cycle bs"
      "\<forall>t \<in> set bs. clean t \<and> normal t" "\<forall>t \<in> set cs. \<not> pressured t"
      by (auto simp: recovered_def)
    then have "h @ [t] = as @ a # bs @ (cs @ [t])" "\<forall>u \<in> set (cs @ [t]). \<not> pressured u"
      using t by auto
    with r(2-4) show ?thesis unfolding recovered_def by blast
  qed
qed

lemma recovers_recovered:
  assumes "runner_inv h st" "recovers st t"
  shows "recovered (h @ [t])"
proof -
  have p: "pressureRecoveryCycle st" "normal_cycle_after st t" "\<not> retry_after st t" "or_cycle_complete (fst t)"
    using assms(2) by (auto simp: recovers_def)
  note n = normal_cycle_window [OF assms(1) p(1,2)]
  note w = runner_inv_window [OF assms(1), of t]
  have "last (cycle_window (h @ [t])) = t" using w(1) [OF n(1)] by (auto simp: window_step_def split: if_splits)
  then have "full_cycle (cycle_window (h @ [t]))"
    using w(1) [OF n(1)] cycle_window_starts p(4) unfolding full_cycle_def by metis
  moreover obtain as a where "h @ [t] = as @ a # cycle_window (h @ [t]) @ []" "normal a" using n(2) by auto
  ultimately show ?thesis
    using n(3) w(2) [OF n(1) p(3)] unfolding recovered_def by (metis empty_iff list.set(1))
qed

lemma runner_inv_turn:
  assumes "runner_inv h st"
  shows "runner_inv (h @ [t]) (run_turn st t)"
proof -
  have imp: "pressureRecoveryNormalCycle st \<longrightarrow> pressureRecoveryCycle st"
    using assms by (simp add: runner_inv_def)
  note f = run_turn_fields [OF imp]
  note w = runner_inv_window [OF assms, of t]
  have busy: "busy_after st t" if "pressureRecoveryCycle st" "\<not> recovers st t"
    using that by (simp add: busy_after_def)
  have rec: "recovered (h @ [t])" if "\<not> ((pressureRecoveryCycle st \<or> pressured t) \<and> \<not> recovers st t)"
  proof (cases "recovers st t")
    case True
    with assms show ?thesis by (rule recovers_recovered)
  next
    case False
    with that assms show ?thesis by (auto simp: runner_inv_def intro: recovered_snoc)
  qed
  show ?thesis
    unfolding runner_inv_def f
    using w normal_cycle_window [OF assms, of t] busy rec by (simp del: cycle_window_snoc capacity_window_snoc)
qed

lemma runner_inv_initial: "runner_inv [] (initial_runner idle backlog)"
  by (simp add: runner_inv_def initial_runner_def recovered_def)

definition runner_after :: "int \<Rightarrow> int \<Rightarrow> runner_turn list \<Rightarrow> runner_state" where
  "runner_after idle backlog h = foldl run_turn (initial_runner idle backlog) h"

lemma runner_inv_after: "runner_inv h (runner_after idle backlog h)"
  by (induction h rule: rev_induct)
    (simp_all add: runner_after_def runner_inv_initial runner_inv_turn)

lemma runner_after_intervals:
  "idleInterval (runner_after idle backlog h) = idle \<and> backlogDelay (runner_after idle backlog h) = backlog"
proof (induction h rule: rev_induct)
  case (snoc t h)
  have "pressureRecoveryNormalCycle (runner_after idle backlog h) \<longrightarrow> pressureRecoveryCycle (runner_after idle backlog h)"
    using runner_inv_after [of h idle backlog] by (simp add: runner_inv_def)
  from run_turn_fields(7,8) [OF this] snoc show ?case by (simp add: runner_after_def)
qed (simp add: runner_after_def initial_runner_def)

text \<open>C11. The runner idles only after proof that nothing is pending: when a turn leaves the idle
  interval as the delay, the turns since the last cycle start form a whole cycle, none of them
  reported an error or more work, every capacity check of the cycle was exact, the last one was not
  under pressure, and any earlier pressure was followed by a whole clean cycle at normal capacity.\<close>

theorem runner_idle_sound:
  assumes "delay (runner_after idle backlog (h @ [t])) = idle"
    and "idle \<noteq> backlog" "idle \<noteq> runnerBacklogDelay backlog True"
  shows "(\<exists>xs ys. h @ [t] = xs @ ys \<and> full_cycle ys \<and>
      (\<forall>u \<in> set ys. clean u \<and> capacity_exact (snd u))) \<and> \<not> pressured t \<and> recovered (h @ [t])"
proof -
  let ?st = "runner_after idle backlog h"
  have inv: "runner_inv h ?st" by (rule runner_inv_after)
  then have imp: "pressureRecoveryNormalCycle ?st \<longrightarrow> pressureRecoveryCycle ?st"
    by (simp add: runner_inv_def)
  have a: "runner_after idle backlog (h @ [t]) = run_turn ?st t" by (simp add: runner_after_def)
  have nb: "\<not> busy_after ?st t"
    using assms run_turn_fields(9) [OF imp, of t] runner_after_intervals [of idle backlog h]
    by (auto simp: a runnerBacklogDelay_def split: if_splits)
  then have n: "\<not> retry_after ?st t" "or_cycle_complete (fst t)" "starts t \<or> cycleStarted ?st" "\<not> pressured t"
    "\<not> (\<not> starts t \<and> capacityRetryCycle ?st \<or> \<not> capacity_exact (snd t))"
    "\<not> ((pressureRecoveryCycle ?st \<or> pressured t) \<and> \<not> recovers ?st t)"
    by (auto simp: busy_after_def)
  note w = runner_inv_window [OF inv, of t]
  let ?w = "cycle_window (h @ [t])"
  have "last ?w = t" using w(1) [OF n(3)] by (auto simp: window_step_def split: if_splits)
  then have "full_cycle ?w"
    using w(1) [OF n(3)] cycle_window_starts n(2) unfolding full_cycle_def by metis
  moreover have "\<forall>u \<in> set ?w. clean u \<and> capacity_exact (snd u)"
    using w(2) [OF n(3,1)] w(3) [OF n(5)] capacity_window_cycle [OF w(1) [OF n(3)]] by simp
  moreover have "\<not> pressureRecoveryCycle (run_turn ?st t)" using n(6) run_turn_fields(3) [OF imp] by blast
  then have "recovered (h @ [t])"
    using runner_inv_after [of "h @ [t]" idle backlog] by (simp add: runner_inv_def a)
  ultimately show ?thesis using cycle_window_suffix [of "h @ [t]"] n(4) by blast
qed

definition sample_turn :: "bool \<Rightarrow> bool \<Rightarrow> gostring \<Rightarrow> runner_turn" where
  "sample_turn first final p = (zero_result\<lparr>or_cycle_start := first, or_cycle_complete := final\<rparr>,
     zero_capacity\<lparr>Pressure := p\<rparr>, if p = PressureRefuse then Some ErrPressureRefusal else None)"

definition sample_history :: "runner_turn list" where
  "sample_history = [sample_turn True False PressureRefuse, sample_turn False True PressureNormal,
     sample_turn True False PressureNormal]"

theorem runner_idle_sound_witness:
  "delay (runner_after 3600 5 (sample_history @ [sample_turn False True PressureNormal])) = 3600 \<and>
   recovered (sample_history @ [sample_turn False True PressureNormal])"
proof -
  have d: "delay (runner_after 3600 5 (sample_history @ [sample_turn False True PressureNormal])) = 3600"
    by code_simp
  have "(3600::int) \<noteq> 5" "(3600::int) \<noteq> runnerBacklogDelay 5 True" by (simp_all add: runnerBacklogDelay_def)
  from runner_idle_sound [OF d this] d show ?thesis by blast
qed

end
