(* ===== verification/Job_Kinds.thy ===== *)
theory Job_Kinds
  imports Go_Strings
begin

text \<open>
  The names the durable queue is built on: the job kinds, which are table names, the six statuses of a
  row, and the identifiers a job cursor may carry (\<open>internal/store/store.go\<close>,
  \<open>internal/store/surreal.go\<close> and \<open>internal/lifecycle/jobs.go\<close>).
\<close>

definition lifecycleJobKinds :: "gostring list" where
  "lifecycleJobKinds = [''connection_sync_job'', ''indexing_job'', ''repo_fetch_job'',
     ''candidate_manifest_job'', ''extraction_job'', ''resolver_catalog_job'', ''caller_leaf_job'']"

definition durableJobKinds :: "gostring list" where
  "durableJobKinds = lifecycleJobKinds @ [''typed_index_job'']"

definition validJobKind :: "gostring \<Rightarrow> bool" where
  "validJobKind kind \<longleftrightarrow> list_ex (\<lambda>candidate. kind = candidate) durableJobKinds"

definition validJobCursorID :: "gostring \<Rightarrow> bool" where
  "validJobCursorID i \<longleftrightarrow> i \<noteq> [] \<and> \<not> length i > 128 \<and>
     list_all (\<lambda>c. (97 \<le> c \<and> c \<le> 122) \<or> (65 \<le> c \<and> c \<le> 90) \<or> (48 \<le> c \<and> c \<le> 57) \<or> c = 45 \<or> c = 95)
       (runes i)"

definition terminalJobStatus :: "gostring \<Rightarrow> bool" where
  "terminalJobStatus s \<longleftrightarrow> s = ''done'' \<or> s = ''failed'' \<or> s = ''canceled''"

definition validJobStatus :: "gostring \<Rightarrow> bool" where
  "validJobStatus s \<longleftrightarrow> s = ''pending'' \<or> s = ''claimed'' \<or> s = ''running'' \<or> s = ''done'' \<or>
     s = ''failed'' \<or> s = ''canceled''"

end
