(* ===== verification/Lifecycle_Jobs.thy ===== *)
theory Lifecycle_Jobs
  imports Lifecycle_Controller Job_Kinds "HOL-Library.Product_Lexorder"
begin

text \<open>
  The durable-job collector of \<open>internal/lifecycle/jobs.go\<close> over the job tables of
  \<open>internal/store/job_lifecycle.go\<close>: age expiry, a paged census, and a trim to the retained count,
  one bounded step per turn, resumed from an encoded cursor. A table is the list of its rows in
  identifier order; the two SurrealQL statements are read as what they select and delete. The JSON
  codec of the cursor and the mutation lock are parameters; an argument carries the error of a
  failing database call.
\<close>

section \<open>Job tables\<close>

record job_row =
  jr_id :: gostring
  jr_status :: gostring
  jr_finished :: "int option"

type_synonym job_db = "gostring \<Rightarrow> job_row list"

definition row_malformed :: "job_row \<Rightarrow> bool" where
  "row_malformed r \<longleftrightarrow> \<not> validJobCursorID (jr_id r) \<or> \<not> validJobStatus (jr_status r) \<or>
     terminalJobStatus (jr_status r) \<and> jr_finished r = None"

definition ScanJobLifecycle ::
  "lerr option \<Rightarrow> job_db \<Rightarrow> gostring \<Rightarrow> gostring \<Rightarrow> int \<Rightarrow> lerr + job_row list \<times> gostring" where
  "ScanJobLifecycle fault d kind after limit =
     (if \<not> validJobKind kind \<or> limit < 1 \<or> limit > 64 \<or> after \<noteq> [] \<and> \<not> validJobCursorID after
      then Inl (ErrNew ''scan job lifecycle: scope is invalid'')
      else case fault of
        Some e \<Rightarrow> Inl (ErrWrap ''scan job lifecycle: '' e)
      | None \<Rightarrow>
          let selected = take (nat (limit + 1))
                (if after = [] then d kind else filter (\<lambda>r. jr_id r > after) (d kind));
              more = int (length selected) > limit;
              rows = (if more then take (nat limit) selected else selected)
          in if list_ex row_malformed rows
             then Inl (ErrNew ''scan job lifecycle: stored row is malformed'')
             else Inr (rows, if more \<and> rows \<noteq> [] then jr_id (last rows) else []))"

definition deletable :: "int option \<Rightarrow> job_row \<Rightarrow> bool" where
  "deletable before r \<longleftrightarrow> terminalJobStatus (jr_status r) \<and> jr_finished r \<noteq> None \<and>
     (case before of None \<Rightarrow> True | Some b \<Rightarrow> the (jr_finished r) < b)"

definition job_age_key :: "job_row \<Rightarrow> int \<times> gostring" where
  "job_age_key r = (the (jr_finished r), jr_id r)"

definition oldest_jobs :: "int option \<Rightarrow> job_row list \<Rightarrow> job_row list" where
  "oldest_jobs before rows = sort_key job_age_key (filter (deletable before) rows)"

definition DeleteOldestTerminalJobs ::
  "lerr option \<Rightarrow> job_db \<Rightarrow> gostring \<Rightarrow> int option \<Rightarrow> int \<Rightarrow> (lerr + int) \<times> job_db" where
  "DeleteOldestTerminalJobs fault d kind before limit =
     (if \<not> validJobKind kind \<or> limit < 1 \<or> limit > 16
      then (Inl (ErrNew ''delete terminal jobs: scope is invalid''), d)
      else case fault of
        Some e \<Rightarrow> (Inl (ErrWrap ''delete terminal jobs: '' e), d)
      | None \<Rightarrow>
          let ids = map jr_id (take (nat limit) (oldest_jobs before (d kind)))
          in if ids = [] then (Inr 0, d)
             else (Inr (int (length ids)),
                   d(kind := filter (\<lambda>r. \<not> (jr_id r \<in> set ids \<and> deletable before r)) (d kind))))"

section \<open>The collector\<close>

abbreviation "TerminalJobAge \<equiv> 2592000000000000 :: int"
abbreviation "TerminalJobCount \<equiv> 100000 :: int"

record job_cursor =
  jc_kind :: int
  jc_phase :: gostring
  jc_after :: gostring
  jc_count :: int
  jc_remaining :: int

definition first_cursor :: "int \<Rightarrow> job_cursor" where
  "first_cursor k = \<lparr>jc_kind = k, jc_phase = ''age'', jc_after = [], jc_count = 0, jc_remaining = 0\<rparr>"

definition job_cursor_invalid :: "job_cursor \<Rightarrow> bool" where
  "job_cursor_invalid st \<longleftrightarrow>
     jc_kind st < 0 \<or> jc_kind st \<ge> int (length lifecycleJobKinds) \<or>
     jc_phase st \<noteq> ''age'' \<and> jc_phase st \<noteq> ''count'' \<and> jc_phase st \<noteq> ''trim'' \<or>
     jc_count st < 0 \<or> jc_remaining st < 0 \<or>
     jc_phase st = ''age'' \<and> (jc_after st \<noteq> [] \<or> jc_count st \<noteq> 0 \<or> jc_remaining st \<noteq> 0) \<or>
     jc_phase st = ''count'' \<and> jc_remaining st \<noteq> 0 \<or>
     jc_phase st = ''trim'' \<and> (jc_after st \<noteq> [] \<or> jc_remaining st = 0)"

text \<open>Strict JSON decoding of exactly one value, as a parameter.\<close>

definition decodeJobCursor :: "(gostring \<Rightarrow> lerr + job_cursor) \<Rightarrow> gostring \<Rightarrow> lerr + job_cursor" where
  "decodeJobCursor json raw =
     (if raw = [] then Inr (first_cursor 0)
      else case json raw of
        Inl e \<Rightarrow> Inl (ErrWrap ''decode job lifecycle cursor: '' e)
      | Inr st \<Rightarrow> if job_cursor_invalid st then Inl (ErrNew ''job lifecycle cursor is invalid'') else Inr st)"

definition encodeJobCursor :: "(job_cursor \<Rightarrow> gostring) \<Rightarrow> job_cursor \<Rightarrow> lerr + gostring" where
  "encodeJobCursor marshal st =
     (if length (marshal st) > 512 then Inl (ErrNew ''job lifecycle cursor exceeds store bound'')
      else Inr (marshal st))"

text \<open>The three phases of \<open>Sweep\<close>: a failure, a cursor to continue at, or the end of this kind.\<close>

datatype phase_result = PhaseFail lerr | PhaseContinue job_cursor owner_result | PhaseAdvance job_cursor owner_result

definition phase_base :: owner_result where
  "phase_base = zero_result\<lparr>or_completeness := LowerBound, or_more := True\<rparr>"

fun count_terminal :: "int \<Rightarrow> job_row list \<Rightarrow> int option" where
  "count_terminal c [] = Some c"
| "count_terminal c (r # rs) =
     (if terminalJobStatus (jr_status r)
      then (if c = max_int64 then None else count_terminal (c + 1) rs)
      else count_terminal c rs)"

definition job_kind_name :: "job_cursor \<Rightarrow> gostring" where
  "job_kind_name st = lifecycleJobKinds ! nat (jc_kind st)"

definition sweep_phase ::
  "lerr option \<Rightarrow> int \<Rightarrow> limits \<Rightarrow> job_cursor \<Rightarrow> job_db \<Rightarrow> phase_result \<times> job_db" where
  "sweep_phase fault now l st d =
     (let kind = job_kind_name st in
      if jc_phase st = ''age'' then
        (case DeleteOldestTerminalJobs fault d kind (Some (now - TerminalJobAge)) (Deletes l) of
           (Inl e, d') \<Rightarrow> (PhaseFail e, d')
         | (Inr deleted, d') \<Rightarrow>
             (PhaseContinue (if deleted = 0 then st\<lparr>jc_phase := ''count''\<rparr> else st)
                (phase_base\<lparr>or_deleted := deleted\<rparr>), d'))
      else if jc_phase st = ''count'' then
        (case ScanJobLifecycle fault d kind (jc_after st) (Candidates l) of
           Inl e \<Rightarrow> (PhaseFail e, d)
         | Inr (rows, page_next) \<Rightarrow>
             (case count_terminal (jc_count st) rows of
                None \<Rightarrow> (PhaseFail (ErrNew ''terminal job count overflows int64''), d)
              | Some c \<Rightarrow>
                  let result = phase_base\<lparr>or_scanned := int (length rows)\<rparr>
                  in (if page_next \<noteq> []
                      then PhaseContinue (st\<lparr>jc_count := c, jc_after := page_next\<rparr>) result
                      else if c > TerminalJobCount
                      then PhaseContinue (st\<lparr>jc_count := c, jc_phase := ''trim'', jc_after := [],
                             jc_remaining := c - TerminalJobCount\<rparr>) result
                      else PhaseAdvance (st\<lparr>jc_count := c\<rparr>) result, d)))
      else if jc_phase st = ''trim'' then
        (let limit = (if Deletes l > jc_remaining st then jc_remaining st else Deletes l)
         in case DeleteOldestTerminalJobs fault d kind None limit of
           (Inl e, d') \<Rightarrow> (PhaseFail e, d')
         | (Inr deleted, d') \<Rightarrow>
             let result = phase_base\<lparr>or_deleted := deleted\<rparr>;
                 st' = st\<lparr>jc_remaining := jc_remaining st - deleted\<rparr>
             in (if jc_remaining st' \<le> 0 then PhaseAdvance st' result
                 else PhaseContinue (if deleted = 0 then first_cursor (jc_kind st) else st') result, d'))
      else (PhaseFail (ErrNew ''job lifecycle phase is invalid''), d))"

text \<open>\<open>advanceJobKind\<close>: the first cursor of the next kind, or the end of the census.\<close>

definition next_kind :: "job_cursor \<Rightarrow> job_cursor option" where
  "next_kind st =
     (if jc_kind st + 1 = int (length lifecycleJobKinds) then None
      else Some (st\<lparr>jc_kind := jc_kind st + 1, jc_phase := ''age'', jc_after := [], jc_count := 0,
                   jc_remaining := 0\<rparr>))"

definition advanceJobKind :: "(job_cursor \<Rightarrow> gostring) \<Rightarrow> job_cursor \<Rightarrow> owner_result \<Rightarrow> owner_result" where
  "advanceJobKind marshal st result =
     (case next_kind st of
        None \<Rightarrow> result\<lparr>or_cursor := [], or_more := False, or_completeness := LowerBound\<rparr>
      | Some st' \<Rightarrow>
          (case encodeJobCursor marshal st' of
             Inl e \<Rightarrow> unavailableOwnerResult [] e
           | Inr raw \<Rightarrow> result\<lparr>or_cursor := raw\<rparr>))"

definition job_Sweep ::
  "(gostring \<Rightarrow> lerr + job_cursor) \<Rightarrow> (job_cursor \<Rightarrow> gostring) \<Rightarrow> bool \<Rightarrow> lerr option \<Rightarrow>
   lerr option \<Rightarrow> int \<Rightarrow> gostring \<Rightarrow> limits \<Rightarrow> job_db \<Rightarrow> owner_result \<times> job_db" where
  "job_Sweep json marshal complete acquire fault now cursor l d =
     (if \<not> complete
      then (unavailableOwnerResult cursor (ErrNew ''job lifecycle owner is incomplete''), d)
      else case decodeJobCursor json cursor of
        Inl e \<Rightarrow> (unavailableOwnerResult cursor e, d)
      | Inr st \<Rightarrow>
          (case acquire of
             Some e \<Rightarrow> (unavailableOwnerResult cursor e, d)
           | None \<Rightarrow>
               (case sweep_phase fault now l st d of
                  (PhaseFail e, d') \<Rightarrow> (unavailableOwnerResult cursor e, d')
                | (PhaseAdvance st' result, d') \<Rightarrow> (advanceJobKind marshal st' result, d')
                | (PhaseContinue st' result, d') \<Rightarrow>
                    (case encodeJobCursor marshal st' of
                       Inl e \<Rightarrow> (unavailableOwnerResult cursor e, d')
                     | Inr raw \<Rightarrow> (result\<lparr>or_cursor := raw\<rparr>, d')))))"

text \<open>One turn on the decoded cursor, and turns until the census of every kind is complete.\<close>

definition sweep_next :: "int \<Rightarrow> limits \<Rightarrow> job_cursor \<times> job_db \<Rightarrow> lerr + job_cursor option \<times> job_db" where
  "sweep_next now l s =
     (case sweep_phase None now l (fst s) (snd s) of
        (PhaseFail e, d') \<Rightarrow> Inl e
      | (PhaseContinue st' _, d') \<Rightarrow> Inr (Some st', d')
      | (PhaseAdvance st' _, d') \<Rightarrow> Inr (next_kind st', d'))"

fun sweep_all :: "nat \<Rightarrow> int \<Rightarrow> limits \<Rightarrow> job_cursor \<times> job_db \<Rightarrow> job_db option" where
  "sweep_all 0 now l s = None"
| "sweep_all (Suc n) now l s =
     (case sweep_next now l s of
        Inl e \<Rightarrow> None
      | Inr (None, d) \<Rightarrow> Some d
      | Inr (Some st, d) \<Rightarrow> sweep_all n now l (st, d))"

section \<open>Deleting the oldest rows\<close>

definition table_ok :: "job_row list \<Rightarrow> bool" where
  "table_ok rows \<longleftrightarrow> sorted_wrt (<) (map jr_id rows) \<and> (\<forall>r \<in> set rows. \<not> row_malformed r) \<and>
     int (length rows) < max_int64"

lemma table_ok_distinct: "table_ok rows \<Longrightarrow> distinct (map jr_id rows) \<and> distinct rows"
  by (simp add: table_ok_def strict_sorted_iff distinct_map)

lemma table_ok_filter: "table_ok rows \<Longrightarrow> table_ok (filter P rows)"
proof -
  assume "table_ok rows"
  moreover have "int (length (filter P rows)) \<le> int (length rows)" by simp
  then have "int (length rows) < max_int64 \<Longrightarrow> int (length (filter P rows)) < max_int64" by linarith
  ultimately show ?thesis
    by (simp add: table_ok_def sorted_wrt_map sorted_wrt_filter)
qed

lemma inj_on_age_key: "distinct (map jr_id rows) \<Longrightarrow> inj_on job_age_key (set rows)"
  by (auto simp: inj_on_def job_age_key_def distinct_map dest: inj_onD)

lemma set_oldest: "set (oldest_jobs b rows) = {r \<in> set rows. deletable b r}"
  by (auto simp: oldest_jobs_def)

lemma distinct_oldest: "distinct rows \<Longrightarrow> distinct (oldest_jobs b rows)"
  by (simp add: oldest_jobs_def)

lemma length_oldest: "length (oldest_jobs b rows) = length (filter (deletable b) rows)"
  by (simp add: oldest_jobs_def)

text \<open>Rows are identified by their identifiers.\<close>

lemma id_in_selected:
  assumes "distinct (map jr_id rows)" "set xs \<subseteq> set rows" "r \<in> set rows"
  shows "jr_id r \<in> jr_id ` set xs \<longleftrightarrow> r \<in> set xs"
  using assms by (auto simp: distinct_map dest: inj_onD)

definition drop_oldest :: "int option \<Rightarrow> nat \<Rightarrow> job_row list \<Rightarrow> job_row list" where
  "drop_oldest b n rows = filter (\<lambda>r. r \<notin> set (take n (oldest_jobs b rows))) rows"

lemma drop_oldest_0 [simp]: "drop_oldest b 0 rows = rows"
  by (simp add: drop_oldest_def)

lemma delete_filter:
  assumes "distinct (map jr_id rows)"
  shows "filter (\<lambda>r. \<not> (jr_id r \<in> set (map jr_id (take n (oldest_jobs b rows))) \<and> deletable b r)) rows =
    drop_oldest b n rows"
  unfolding drop_oldest_def
proof (rule filter_cong [OF refl])
  fix r assume r: "r \<in> set rows"
  have sub: "set (take n (oldest_jobs b rows)) \<subseteq> set rows"
    using set_take_subset [of n "oldest_jobs b rows"] by (auto simp: set_oldest)
  have "r \<in> set (take n (oldest_jobs b rows)) \<Longrightarrow> deletable b r"
    using set_take_subset [of n "oldest_jobs b rows"] by (auto simp: set_oldest)
  then show "(\<not> (jr_id r \<in> set (map jr_id (take n (oldest_jobs b rows))) \<and> deletable b r)) =
      (r \<notin> set (take n (oldest_jobs b rows)))"
    using id_in_selected [OF assms sub r] by auto
qed

lemma oldest_drop_oldest:
  assumes "distinct (map jr_id rows)"
  shows "oldest_jobs b (drop_oldest b n rows) = drop n (oldest_jobs b rows)"
proof -
  let ?o = "oldest_jobs b rows"
  have d: "distinct rows" "distinct ?o" using assms by (simp_all add: distinct_oldest distinct_map)
  have s: "set (filter (deletable b) (drop_oldest b n rows)) = set (drop n ?o)"
  proof -
    have "set ?o = set (take n ?o) \<union> set (drop n ?o)" by (metis append_take_drop_id set_append)
    moreover have "set (take n ?o) \<inter> set (drop n ?o) = {}"
      using d(2) by (metis append_take_drop_id distinct_append)
    ultimately show ?thesis by (auto simp: drop_oldest_def set_oldest)
  qed
  have "mset (filter (deletable b) (drop_oldest b n rows)) = mset (drop n ?o)"
    using s d by (intro set_eq_iff_mset_eq_distinct [THEN iffD1]) (simp_all add: drop_oldest_def)
  moreover have "inj_on job_age_key (set (filter (deletable b) (drop_oldest b n rows)))"
    using inj_on_age_key [OF assms] by (rule inj_on_subset) (auto simp: drop_oldest_def)
  moreover have "sorted (map job_age_key (drop n ?o))"
    by (simp add: drop_map [symmetric] sorted_wrt_drop oldest_jobs_def)
  ultimately show ?thesis unfolding oldest_jobs_def [of b "drop_oldest b n rows"]
    by (rule sort_key_inj_key_eq)
qed

lemma drop_oldest_add:
  assumes "distinct (map jr_id rows)"
  shows "drop_oldest b m (drop_oldest b n rows) = drop_oldest b (n + m) rows"
proof -
  have "set (take (n + m) (oldest_jobs b rows)) =
      set (take n (oldest_jobs b rows)) \<union> set (take m (drop n (oldest_jobs b rows)))"
    by (simp add: take_add)
  then show ?thesis
    by (simp add: drop_oldest_def [of b m] oldest_drop_oldest [OF assms])
      (auto simp: drop_oldest_def intro: filter_cong)
qed

lemma drop_oldest_all:
  assumes "length (filter (deletable b) rows) \<le> n"
  shows "drop_oldest b n rows = filter (\<lambda>r. \<not> deletable b r) rows"
  using assms by (auto simp: drop_oldest_def set_oldest length_oldest intro: filter_cong)

lemma table_ok_drop_oldest: "table_ok rows \<Longrightarrow> table_ok (drop_oldest b n rows)"
  by (simp add: drop_oldest_def table_ok_filter)

lemma Delete_table:
  assumes "table_ok (d kind)" "validJobKind kind" "1 \<le> limit" "limit \<le> 16"
  shows "DeleteOldestTerminalJobs None d kind b limit =
    (Inr (int (min (length (filter (deletable b) (d kind))) (nat limit))),
     d(kind := drop_oldest b (nat limit) (d kind)))"
proof -
  have k: "distinct (map jr_id (d kind))" using table_ok_distinct [OF assms(1)] by simp
  show ?thesis
  proof (cases "take (nat limit) (oldest_jobs b (d kind)) = []")
    case True
    then have "oldest_jobs b (d kind) = []" using assms(3) by simp
    then have "length (filter (deletable b) (d kind)) = 0" by (metis length_oldest list.size(3))
    moreover have "drop_oldest b (nat limit) (d kind) = d kind"
      unfolding drop_oldest_def True by simp
    ultimately show ?thesis
      using assms True by (simp add: DeleteOldestTerminalJobs_def Let_def fun_upd_idem)
  next
    case False
    then show ?thesis
      using assms delete_filter [OF k, of "nat limit" b]
      by (simp add: DeleteOldestTerminalJobs_def Let_def length_oldest del: take_eq_Nil)
  qed
qed

section \<open>The three phases run to completion\<close>

text \<open>The turns from one cursor and database to another.\<close>

inductive sweeps :: "int \<Rightarrow> limits \<Rightarrow> job_cursor option \<times> job_db \<Rightarrow> job_cursor option \<times> job_db \<Rightarrow> bool"
  for now l where
  sweeps_refl: "sweeps now l s s"
| sweeps_step: "sweep_next now l (st, d) = Inr s1 \<Longrightarrow> sweeps now l s1 s2 \<Longrightarrow> sweeps now l (Some st, d) s2"

lemma sweeps_trans: "sweeps now l s1 s2 \<Longrightarrow> sweeps now l s2 s3 \<Longrightarrow> sweeps now l s1 s3"
  by (induction rule: sweeps.induct) (auto intro: sweeps.intros)

lemma sweeps_one: "sweep_next now l (st, d) = Inr s1 \<Longrightarrow> sweeps now l (Some st, d) s1"
  by (rule sweeps_step [OF _ sweeps_refl])

lemma sweeps_all:
  assumes "sweeps now l (Some st, d) (None, d')"
  shows "\<exists>n. sweep_all n now l (st, d) = Some d'"
proof -
  have "\<exists>n. sweep_all n now l (st, d) = Some d'"
    if "sweeps now l s s'" "s = (Some st, d)" "s' = (None, d')" for s s' st d
    using that
  proof (induction arbitrary: st d rule: sweeps.induct)
    case (sweeps_step st0 d0 s1 s2)
    obtain x d1 where s1: "s1 = (x, d1)" by (cases s1)
    show ?case
    proof (cases x)
      case None
      have "d1 = d'"
        using sweeps_step.hyps(2) sweeps_step.prems(2) unfolding s1 None by (cases rule: sweeps.cases) auto
      then have "sweep_all 1 now l (st, d) = Some d'"
        using sweeps_step.hyps(1) sweeps_step.prems(1) s1 None by simp
      then show ?thesis by blast
    next
      case (Some st1)
      with sweeps_step.IH [of st1 d1] sweeps_step.prems(2) s1
      obtain n where "sweep_all n now l (st1, d1) = Some d'" by auto
      then have "sweep_all (Suc n) now l (st, d) = Some d'"
        using sweeps_step.hyps(1) sweeps_step.prems(1) s1 Some by simp
      then show ?thesis by blast
    qed
  qed simp
  with assms show ?thesis by blast
qed

definition sweep_limits :: "limits \<Rightarrow> bool" where
  "sweep_limits l \<longleftrightarrow> 1 \<le> Deletes l \<and> Deletes l \<le> 16 \<and> 1 \<le> Candidates l \<and> Candidates l \<le> 64"

definition kind_name :: "nat \<Rightarrow> gostring" where
  "kind_name k = lifecycleJobKinds ! k"

lemma length_kinds [simp]: "length lifecycleJobKinds = 7"
  by (simp add: lifecycleJobKinds_def)

lemma valid_kind_name [simp]: "k < 7 \<Longrightarrow> validJobKind (kind_name k)"
  using nth_mem [of k lifecycleJobKinds]
  by (auto simp: validJobKind_def kind_name_def durableJobKinds_def list_ex_iff)

definition cutoff :: "int \<Rightarrow> int option" where
  "cutoff now = Some (now - TerminalJobAge)"

definition expired :: "int \<Rightarrow> job_row list \<Rightarrow> job_row list" where
  "expired now rows = filter (\<lambda>r. \<not> deletable (cutoff now) r) rows"

definition phase_cursor :: "nat \<Rightarrow> gostring \<Rightarrow> gostring \<Rightarrow> int \<Rightarrow> int \<Rightarrow> job_cursor" where
  "phase_cursor k p a c n = \<lparr>jc_kind = int k, jc_phase = p, jc_after = a, jc_count = c, jc_remaining = n\<rparr>"

lemma age_turn:
  assumes "k < 7" "sweep_limits l" "table_ok (d (kind_name k))"
  shows "sweep_next now l (phase_cursor k ''age'' [] 0 0, d) =
    Inr (Some (if filter (deletable (cutoff now)) (d (kind_name k)) = []
               then phase_cursor k ''count'' [] 0 0 else phase_cursor k ''age'' [] 0 0),
      d(kind_name k := drop_oldest (cutoff now) (nat (Deletes l)) (d (kind_name k))))"
proof -
  have l: "1 \<le> Deletes l" "Deletes l \<le> 16" using assms(2) by (auto simp: sweep_limits_def)
  show ?thesis
    using Delete_table [where d = d and kind = "kind_name k", OF assms(3) valid_kind_name [OF assms(1)] l, of "cutoff now"] l
    by (auto simp: sweep_next_def sweep_phase_def phase_cursor_def job_kind_name_def kind_name_def
        cutoff_def Let_def split: prod.split)
qed

lemma age_phase:
  assumes "k < 7" "sweep_limits l" "table_ok (d (kind_name k))"
  shows "sweeps now l (Some (phase_cursor k ''age'' [] 0 0), d)
    (Some (phase_cursor k ''count'' [] 0 0), d(kind_name k := expired now (d (kind_name k))))"
  using assms(3)
proof (induction "length (filter (deletable (cutoff now)) (d (kind_name k)))" arbitrary: d rule: less_induct)
  case less
  let ?T = "d (kind_name k)" and ?n = "nat (Deletes l)"
  let ?T' = "drop_oldest (cutoff now) ?n ?T"
  note turn = age_turn [where d = d, OF assms(1,2) less.prems, of now]
  have n: "1 \<le> ?n" using assms(2) unfolding sweep_limits_def by linarith
  show ?case
  proof (cases "filter (deletable (cutoff now)) ?T = []")
    case True
    then have "?T' = expired now ?T" using drop_oldest_all [of "cutoff now" ?T ?n] by (simp add: expired_def)
    with turn True show ?thesis by (auto intro: sweeps_one)
  next
    case False
    have k: "distinct (map jr_id ?T)" using table_ok_distinct [OF less.prems] by simp
    have "length (filter (deletable (cutoff now)) ?T') = length (filter (deletable (cutoff now)) ?T) - ?n"
      using oldest_drop_oldest [OF k, of "cutoff now" ?n] by (metis length_drop length_oldest)
    then have dec: "length (filter (deletable (cutoff now)) ?T') < length (filter (deletable (cutoff now)) ?T)"
      using False n by (cases "filter (deletable (cutoff now)) ?T") auto
    have e: "expired now ?T' = expired now ?T"
      by (auto simp: expired_def drop_oldest_def intro!: filter_cong
          dest: in_set_takeD simp: set_oldest)
    let ?d = "d(kind_name k := ?T')"
    have "sweeps now l (Some (phase_cursor k ''age'' [] 0 0), ?d)
      (Some (phase_cursor k ''count'' [] 0 0), ?d(kind_name k := expired now (?d (kind_name k))))"
      using less.hyps [of ?d] dec table_ok_drop_oldest [OF less.prems] by simp
    then show ?thesis
      using turn False e by (auto intro: sweeps_step)
  qed
qed

text \<open>The census: after \<open>i\<close> rows the cursor names the last of them.\<close>

abbreviation terminals :: "job_row list \<Rightarrow> nat" where
  "terminals rows \<equiv> length (filter (\<lambda>r. terminalJobStatus (jr_status r)) rows)"

definition after_rows :: "job_row list \<Rightarrow> nat \<Rightarrow> gostring" where
  "after_rows T i = (if i = 0 then [] else jr_id (T ! (i - 1)))"

lemma row_id: "table_ok T \<Longrightarrow> r \<in> set T \<Longrightarrow> validJobCursorID (jr_id r) \<and> jr_id r \<noteq> []"
  by (auto simp: table_ok_def row_malformed_def validJobCursorID_def)

lemma rest_after_rows:
  assumes "table_ok T" "i \<le> length T"
  shows "(if after_rows T i = [] then T else filter (\<lambda>r. jr_id r > after_rows T i) T) = drop i T"
    "after_rows T i = [] \<or> validJobCursorID (after_rows T i)"
proof -
  have s: "jr_id (T ! a) < jr_id (T ! b)" if "a < b" "b < length T" for a b
    using assms(1) that by (simp add: table_ok_def sorted_wrt_iff_nth_less)
  show "after_rows T i = [] \<or> validJobCursorID (after_rows T i)"
    using assms row_id [OF assms(1), of "T ! (i - 1)"] by (auto simp: after_rows_def)
  show "(if after_rows T i = [] then T else filter (\<lambda>r. jr_id r > after_rows T i) T) = drop i T"
  proof (cases "i = 0")
    case False
    then have i: "i - 1 < length T" using assms(2) by simp
    have a: "after_rows T i = jr_id (T ! (i - 1))" "after_rows T i \<noteq> []"
      using False row_id [OF assms(1) nth_mem [OF i]] by (simp_all add: after_rows_def)
    have "\<not> jr_id r > after_rows T i" if r: "r \<in> set (take i T)" for r
    proof -
      obtain j where "j < i" "r = T ! j" using r assms(2) by (auto simp: in_set_conv_nth)
      then have "j = i - 1 \<or> jr_id (T ! j) < jr_id (T ! (i - 1))" using s [of j "i - 1"] i by force
      then show ?thesis using a(1) \<open>r = T ! j\<close> by (auto intro: order_less_asym)
    qed
    moreover have "jr_id r > after_rows T i" if r: "r \<in> set (drop i T)" for r
    proof -
      obtain m where "m < length T - i" "r = drop i T ! m" using r by (auto simp: in_set_conv_nth)
      then show ?thesis using s [of "i - 1" "i + m"] False a(1) by simp
    qed
    ultimately have "filter (\<lambda>r. jr_id r > after_rows T i) (take i T @ drop i T) = drop i T"
      by (simp add: filter_False filter_True del: append_take_drop_id)
    with a(2) show ?thesis by simp
  qed (simp add: after_rows_def)
qed

lemma count_terminal_Some:
  "c + int (length rows) < max_int64 \<Longrightarrow> count_terminal c rows = Some (c + int (terminals rows))"
  by (induction rows arbitrary: c) auto

lemma scan_page:
  assumes "table_ok (d kind)" "validJobKind kind" "1 \<le> limit" "limit \<le> 64" "i \<le> length (d kind)"
  shows "ScanJobLifecycle None d kind (after_rows (d kind) i) limit =
    Inr (take (nat limit) (drop i (d kind)),
         if length (d kind) - i > nat limit then after_rows (d kind) (i + nat limit) else [])"
proof -
  let ?T = "d kind" and ?n = "nat limit"
  let ?R = "drop i ?T"
  note r = rest_after_rows [OF assms(1,5)]
  have sel: "take (nat (limit + 1)) (if after_rows ?T i = [] then ?T else filter (\<lambda>r. jr_id r > after_rows ?T i) ?T) =
      take (?n + 1) ?R"
    unfolding r(1) using assms(3) by (simp add: nat_add_distrib)
  have more: "(int (length (take (?n + 1) ?R)) > limit) = (length ?R > ?n)"
    using assms(3) by auto
  have rows: "(if length ?R > ?n then take ?n (take (?n + 1) ?R) else take (?n + 1) ?R) = take ?n ?R"
    by (simp add: min_def)
  have ok: "\<not> list_ex row_malformed (take ?n ?R)"
    using assms(1) by (auto simp: table_ok_def list_ex_iff dest!: in_set_takeD in_set_dropD)
  have last: "take ?n ?R \<noteq> [] \<and> jr_id (last (take ?n ?R)) = after_rows ?T (i + ?n)" if "length ?R > ?n"
  proof -
    have "0 < ?n" using assms(3) by simp
    moreover from this have "last (take ?n ?R) = ?R ! (?n - 1)" using that by (simp add: last_conv_nth min_def)
    moreover have "?R ! (?n - 1) = ?T ! (i + ?n - 1)" using that \<open>0 < ?n\<close> by simp
    ultimately show ?thesis using that by (auto simp: after_rows_def)
  qed
  show ?thesis
    unfolding ScanJobLifecycle_def Let_def sel more rows
    using assms r(2) ok last by auto
qed

lemma count_phase:
  assumes "k < 7" "sweep_limits l" "table_ok (d (kind_name k))" "i \<le> length (d (kind_name k))"
  defines "T \<equiv> d (kind_name k)"
  shows "sweeps now l (Some (phase_cursor k ''count'' (after_rows T i) (int (terminals (take i T))) 0), d)
    (if int (terminals T) > TerminalJobCount
     then Some (phase_cursor k ''trim'' [] (int (terminals T)) (int (terminals T) - TerminalJobCount))
     else next_kind (phase_cursor k ''count'' [] 0 0), d)"
  using assms(4) unfolding T_def [symmetric]
proof (induction "length T - i" arbitrary: i rule: less_induct)
  case less
  let ?n = "nat (Candidates l)"
  have ok: "table_ok T" using assms(3) by (simp add: T_def)
  have lim: "1 \<le> Candidates l" "Candidates l \<le> 64" using assms(2) by (auto simp: sweep_limits_def)
  have scan: "ScanJobLifecycle None d (kind_name k) (after_rows T i) (Candidates l) =
      Inr (take ?n (drop i T), if length T - i > ?n then after_rows T (i + ?n) else [])"
    using scan_page [where d = d and kind = "kind_name k" and i = i, OF assms(3) valid_kind_name [OF assms(1)] lim]
      less.prems by (simp add: T_def)
  have "terminals (take i T) \<le> length (take i T)" by (rule length_filter_le)
  then have le: "terminals (take i T) \<le> i" by simp
  have "int (terminals (take i T)) + int (length (take ?n (drop i T))) < max_int64"
  proof -
    have "i + length (take ?n (drop i T)) \<le> length T" using less.prems by simp
    then show ?thesis using le ok by (simp add: table_ok_def)
  qed
  then have cnt: "count_terminal (int (terminals (take i T))) (take ?n (drop i T)) =
      Some (int (terminals (take (i + ?n) T)))"
    by (simp add: count_terminal_Some take_add)
  show ?case
  proof (cases "length T - i > ?n")
    case True
    then have j: "i + ?n \<le> length T" "length T - (i + ?n) < length T - i" using lim by auto
    have "0 < i + ?n" "i + ?n - 1 < length T" using lim j by auto
    then have "after_rows T (i + ?n) \<noteq> []"
      using row_id [OF ok nth_mem [of "i + ?n - 1" T]] by (auto simp: after_rows_def)
    then have "sweep_next now l (phase_cursor k ''count'' (after_rows T i) (int (terminals (take i T))) 0, d) =
        Inr (Some (phase_cursor k ''count'' (after_rows T (i + ?n)) (int (terminals (take (i + ?n) T))) 0), d)"
      using scan cnt True
      by (simp add: sweep_next_def sweep_phase_def phase_cursor_def job_kind_name_def kind_name_def Let_def)
    then show ?thesis using less.hyps [OF j(2,1)] by (rule sweeps_step)
  next
    case False
    then have "take (i + ?n) T = T" by simp
    then have "sweep_next now l (phase_cursor k ''count'' (after_rows T i) (int (terminals (take i T))) 0, d) =
        Inr (if int (terminals T) > TerminalJobCount
          then Some (phase_cursor k ''trim'' [] (int (terminals T)) (int (terminals T) - TerminalJobCount))
          else next_kind (phase_cursor k ''count'' [] 0 0), d)"
      using scan cnt False
      by (simp add: sweep_next_def sweep_phase_def phase_cursor_def job_kind_name_def kind_name_def Let_def next_kind_def)
    then show ?thesis by (rule sweeps_one)
  qed
qed

lemma deletable_None_table: "table_ok T \<Longrightarrow> filter (deletable None) T = filter (\<lambda>r. terminalJobStatus (jr_status r)) T"
  by (rule filter_cong) (auto simp: deletable_def table_ok_def row_malformed_def)

lemma terminals_drop_oldest:
  assumes "table_ok T"
  shows "terminals (drop_oldest None n T) = terminals T - n"
proof -
  have k: "distinct (map jr_id T)" using table_ok_distinct [OF assms] by simp
  have "length (filter (deletable None) (drop_oldest None n T)) = length (filter (deletable None) T) - n"
    using oldest_drop_oldest [OF k, of None n] by (metis length_drop length_oldest)
  then show ?thesis
    using deletable_None_table [OF assms] deletable_None_table [OF table_ok_drop_oldest [OF assms]] by simp
qed

lemma next_kind_cursor:
  "next_kind (phase_cursor k p a c n) = (if k + 1 = 7 then None else Some (phase_cursor (k + 1) ''age'' [] 0 0))"
  by (auto simp: next_kind_def phase_cursor_def)

lemma trim_phase:
  assumes "k < 7" "sweep_limits l" "table_ok (d (kind_name k))" "0 < n" "n \<le> terminals (d (kind_name k))"
  shows "sweeps now l (Some (phase_cursor k ''trim'' [] c (int n)), d)
    (next_kind (phase_cursor k ''trim'' [] 0 0), d(kind_name k := drop_oldest None n (d (kind_name k))))"
  using assms(3-5)
proof (induction n arbitrary: d rule: less_induct)
  case (less n)
  let ?T = "d (kind_name k)" and ?m = "min n (nat (Deletes l))"
  let ?d = "d(kind_name k := drop_oldest None ?m ?T)"
  let ?lim = "if Deletes l > int n then int n else Deletes l"
  have dl: "1 \<le> Deletes l" "Deletes l \<le> 16" using assms(2) by (auto simp: sweep_limits_def)
  have lim: "1 \<le> ?lim" "?lim \<le> 16" "nat ?lim = ?m" using dl less.prems(2) by auto
  have m: "0 < ?m" "?m \<le> n" using dl less.prems(2) by auto
  have del: "DeleteOldestTerminalJobs None d (kind_name k) None ?lim = (Inr (int ?m), ?d)"
    using Delete_table [where d = d and kind = "kind_name k", OF less.prems(1) valid_kind_name [OF assms(1)] lim(1,2), of None]
      less.prems(3) m(2) by (simp add: lim(3) deletable_None_table [OF less.prems(1)] min_absorb2)
  have next_eq: "sweep_next now l (phase_cursor k ''trim'' [] c (int n), d) =
      Inr (if ?m = n then next_kind (phase_cursor k ''trim'' [] 0 0)
           else Some (phase_cursor k ''trim'' [] c (int (n - ?m))), ?d)"
  proof -
    have "(int n - int ?m \<le> 0) = (?m = n)" using m(2) by linarith
    moreover have "sweep_phase None now l (phase_cursor k ''trim'' [] c (int n)) d =
      (let result = phase_base\<lparr>or_deleted := int ?m\<rparr>; st' = phase_cursor k ''trim'' [] c (int n - int ?m)
       in (if int n - int ?m \<le> 0 then PhaseAdvance st' result
           else PhaseContinue (if int ?m = 0 then first_cursor (int k) else st') result, ?d))"
      using del dl(1) by (simp add: sweep_phase_def phase_cursor_def job_kind_name_def kind_name_def Let_def cong: if_cong split del: if_split)
    ultimately show ?thesis
      using m by (simp add: sweep_next_def Let_def next_kind_cursor of_nat_diff split del: if_split)
        (auto simp: next_kind_cursor)
  qed
  show ?case
  proof (cases "?m = n")
    case True
    from next_eq [unfolded True] show ?thesis by (simp only: simp_thms if_True sweeps_one)
  next
    case False
    have k: "distinct (map jr_id ?T)" using table_ok_distinct [OF less.prems(1)] by simp
    have "n - ?m < n" "0 < n - ?m" using m False by linarith+
    moreover have "table_ok (?d (kind_name k))" using table_ok_drop_oldest [OF less.prems(1)] by simp
    moreover have "n - ?m \<le> terminals (?d (kind_name k))"
      using terminals_drop_oldest [OF less.prems(1), of ?m] less.prems(3) by (simp add: diff_le_mono)
    ultimately have "sweeps now l (Some (phase_cursor k ''trim'' [] c (int (n - ?m))), ?d)
      (next_kind (phase_cursor k ''trim'' [] 0 0),
       ?d(kind_name k := drop_oldest None (n - ?m) (?d (kind_name k))))"
      using less.IH [of "n - ?m" ?d] by blast
    moreover have "drop_oldest None (n - ?m) (drop_oldest None ?m ?T) = drop_oldest None n ?T"
      using drop_oldest_add [OF k, of None "n - ?m" ?m] m(2) by simp
    ultimately have "sweeps now l (Some (phase_cursor k ''trim'' [] c (int (n - ?m))), ?d)
      (next_kind (phase_cursor k ''trim'' [] 0 0), d(kind_name k := drop_oldest None n ?T))"
      by (simp only: fun_upd_same fun_upd_upd)
    with next_eq show ?thesis by (simp only: False if_False sweeps_step)
  qed
qed

text \<open>What the collector leaves of a table.\<close>

definition retained_jobs :: "int \<Rightarrow> job_row list \<Rightarrow> job_row list" where
  "retained_jobs now T = drop_oldest None (terminals (expired now T) - nat TerminalJobCount) (expired now T)"

lemma kind_sweeps:
  assumes "k < 7" "sweep_limits l" "table_ok (d (kind_name k))"
  shows "sweeps now l (Some (phase_cursor k ''age'' [] 0 0), d)
    (if k + 1 = 7 then None else Some (phase_cursor (k + 1) ''age'' [] 0 0),
     d(kind_name k := retained_jobs now (d (kind_name k))))"
proof -
  let ?T = "d (kind_name k)" and ?E = "expired now (d (kind_name k))"
  let ?d = "d(kind_name k := ?E)"
  have E: "table_ok (?d (kind_name k))" using assms(3) by (simp add: expired_def table_ok_filter)
  have a: "sweeps now l (Some (phase_cursor k ''age'' [] 0 0), d) (Some (phase_cursor k ''count'' [] 0 0), ?d)"
    using age_phase [where d = d, OF assms] .
  have c: "sweeps now l (Some (phase_cursor k ''count'' [] 0 0), ?d)
    (if int (terminals ?E) > TerminalJobCount
     then Some (phase_cursor k ''trim'' [] (int (terminals ?E)) (int (terminals ?E) - TerminalJobCount))
     else next_kind (phase_cursor k ''count'' [] 0 0), ?d)"
    using count_phase [where d = ?d and i = 0 and now = now, OF assms(1,2) E]
    by (simp add: after_rows_def cong: if_cong)
  show ?thesis
  proof (cases "int (terminals ?E) > TerminalJobCount")
    case False
    then have "retained_jobs now ?T = ?E" by (simp add: retained_jobs_def)
    with sweeps_trans [OF a c] False show ?thesis by (simp add: next_kind_cursor)
  next
    case True
    let ?n = "terminals ?E - nat TerminalJobCount"
    have n: "0 < ?n" "?n \<le> terminals (?d (kind_name k))"
      "int (terminals ?E) - TerminalJobCount = int ?n" using True by auto
    have t: "sweeps now l (Some (phase_cursor k ''trim'' [] (int (terminals ?E)) (int ?n)), ?d)
      (next_kind (phase_cursor k ''trim'' [] 0 0), d(kind_name k := retained_jobs now ?T))"
      using trim_phase [where d = ?d, OF assms(1,2) E n(1,2)] by (simp add: retained_jobs_def)
    have "sweeps now l (Some (phase_cursor k ''age'' [] 0 0), d)
      (Some (phase_cursor k ''trim'' [] (int (terminals ?E)) (int ?n)), ?d)"
      using sweeps_trans [OF a c] unfolding n(3) by (simp only: True if_True)
    from sweeps_trans [OF this t] show ?thesis by (simp add: next_kind_cursor)
  qed
qed

lemma kind_name_inj: "j < 7 \<Longrightarrow> k < 7 \<Longrightarrow> kind_name j = kind_name k \<Longrightarrow> j = k"
proof -
  have "distinct lifecycleJobKinds" by (simp add: lifecycleJobKinds_def)
  then show "j < 7 \<Longrightarrow> k < 7 \<Longrightarrow> kind_name j = kind_name k \<Longrightarrow> j = k"
    by (simp add: kind_name_def nth_eq_iff_index_eq)
qed

lemma all_kinds_sweep:
  assumes "sweep_limits l" "\<forall>j < 7. table_ok (d (kind_name j))" "k < 7"
  shows "\<exists>d'. sweeps now l (Some (phase_cursor k ''age'' [] 0 0), d) (None, d') \<and>
    (\<forall>j. k \<le> j \<longrightarrow> j < 7 \<longrightarrow> d' (kind_name j) = retained_jobs now (d (kind_name j))) \<and>
    (\<forall>x. (\<forall>j. k \<le> j \<longrightarrow> j < 7 \<longrightarrow> x \<noteq> kind_name j) \<longrightarrow> d' x = d x)"
  using assms(2,3)
proof (induction "7 - k" arbitrary: k d rule: less_induct)
  case less
  let ?d = "d(kind_name k := retained_jobs now (d (kind_name k)))"
  note s = kind_sweeps [where d = d and k = k and now = now, OF less.prems(2) assms(1)]
  have ok: "table_ok (d (kind_name k))" using less.prems by blast
  show ?case
  proof (cases "k + 1 = 7")
    case True
    then have "sweeps now l (Some (phase_cursor k ''age'' [] 0 0), d) (None, ?d)" using s [OF ok] by simp
    moreover have "j = k" if "k \<le> j" "j < 7" for j using that True by simp
    ultimately show ?thesis using less.prems(2) by (intro exI [of _ ?d]) auto
  next
    case False
    have "\<forall>j < 7. table_ok (?d (kind_name j))"
      using less.prems ok by (auto simp: retained_jobs_def expired_def table_ok_filter table_ok_drop_oldest)
    moreover have "7 - (k + 1) < 7 - k" "k + 1 < 7" using less.prems(2) False by auto
    ultimately obtain d' where d': "sweeps now l (Some (phase_cursor (k + 1) ''age'' [] 0 0), ?d) (None, d')"
      "\<forall>j. k + 1 \<le> j \<longrightarrow> j < 7 \<longrightarrow> d' (kind_name j) = retained_jobs now (?d (kind_name j))"
      "\<forall>x. (\<forall>j. k + 1 \<le> j \<longrightarrow> j < 7 \<longrightarrow> x \<noteq> kind_name j) \<longrightarrow> d' x = ?d x"
      using less.hyps [of "k + 1" ?d] by blast
    have "sweeps now l (Some (phase_cursor k ''age'' [] 0 0), d) (Some (phase_cursor (k + 1) ''age'' [] 0 0), ?d)"
      using s [OF ok] False by simp
    from sweeps_trans [OF this d'(1)]
    have sw: "sweeps now l (Some (phase_cursor k ''age'' [] 0 0), d) (None, d')" .
    have ne: "kind_name j \<noteq> kind_name k" if "k + 1 \<le> j" "j < 7" for j
      using kind_name_inj [of j k] that by auto
    have "d' (kind_name j) = retained_jobs now (d (kind_name j))" if j: "k \<le> j" "j < 7" for j
    proof (cases "j = k")
      case True
      have "\<forall>i. k + 1 \<le> i \<longrightarrow> i < 7 \<longrightarrow> kind_name k \<noteq> kind_name i" using ne by metis
      then have "d' (kind_name k) = ?d (kind_name k)" using d'(3) by blast
      with True show ?thesis by simp
    next
      case False
      with j d'(2) ne [of j] show ?thesis by simp
    qed
    moreover have "d' x = d x" if x: "\<forall>j. k \<le> j \<longrightarrow> j < 7 \<longrightarrow> x \<noteq> kind_name j" for x
      using d'(3) x less.prems(2) by auto
    ultimately show ?thesis using sw by blast
  qed
qed

section \<open>What the collector achieves\<close>

lemma retained_terminals: "table_ok T \<Longrightarrow> terminals (retained_jobs now T) \<le> nat TerminalJobCount"
  by (simp add: retained_jobs_def terminals_drop_oldest expired_def table_ok_filter)

lemma retained_unexpired: "r \<in> set (retained_jobs now T) \<Longrightarrow> r \<in> set T \<and> \<not> deletable (cutoff now) r"
  by (auto simp: retained_jobs_def drop_oldest_def expired_def)

lemma retained_live:
  assumes "r \<in> set T" "\<not> terminalJobStatus (jr_status r)"
  shows "r \<in> set (retained_jobs now T)"
proof -
  have n: "\<not> deletable b r" for b using assms(2) by (simp add: deletable_def)
  have "r \<notin> set (take n (oldest_jobs b rows))" for n b rows
    using n [of b] by (auto simp: set_oldest dest: in_set_takeD)
  with n assms(1) show ?thesis by (simp add: retained_jobs_def drop_oldest_def expired_def)
qed

text \<open>C12. The job collector reaches its end and its policy: over tables nobody else changes, the
  bounded turns from the empty cursor complete the census of all seven kinds after finitely many
  turns; then each table is what retention prescribes (the unexpired rows without the oldest
  terminal ones beyond the retained count), so no job older than the age limit and at most the
  retained number of terminal jobs is left, and no job that is not terminal was deleted.\<close>

theorem job_sweep_converges:
  assumes "sweep_limits l" "\<forall>j < 7. table_ok (d (lifecycleJobKinds ! j))"
  shows "\<exists>n d'. sweep_all n now l (first_cursor 0, d) = Some d' \<and>
    (\<forall>j < 7. let T = d (lifecycleJobKinds ! j); T' = d' (lifecycleJobKinds ! j) in
       T' = retained_jobs now T \<and> terminals T' \<le> 100000 \<and>
       (\<forall>r \<in> set T'. r \<in> set T \<and> \<not> deletable (Some (now - TerminalJobAge)) r) \<and>
       (\<forall>r \<in> set T. \<not> terminalJobStatus (jr_status r) \<longrightarrow> r \<in> set T'))"
proof -
  have ok: "\<forall>j < 7. table_ok (d (kind_name j))" using assms(2) by (simp add: kind_name_def)
  obtain d' where s: "sweeps now l (Some (phase_cursor 0 ''age'' [] 0 0), d) (None, d')"
    "\<forall>j. 0 \<le> j \<longrightarrow> j < 7 \<longrightarrow> d' (kind_name j) = retained_jobs now (d (kind_name j))"
    using all_kinds_sweep [OF assms(1) ok, of 0 now] by auto
  have "first_cursor 0 = phase_cursor 0 ''age'' [] 0 0" by (simp add: first_cursor_def phase_cursor_def)
  with sweeps_all [OF s(1)] obtain n where n: "sweep_all n now l (first_cursor 0, d) = Some d'" by auto
  have "let T = d (lifecycleJobKinds ! j); T' = d' (lifecycleJobKinds ! j) in
       T' = retained_jobs now T \<and> terminals T' \<le> 100000 \<and>
       (\<forall>r \<in> set T'. r \<in> set T \<and> \<not> deletable (Some (now - TerminalJobAge)) r) \<and>
       (\<forall>r \<in> set T. \<not> terminalJobStatus (jr_status r) \<longrightarrow> r \<in> set T')" if j: "j < 7" for j
  proof -
    have t: "d' (lifecycleJobKinds ! j) = retained_jobs now (d (lifecycleJobKinds ! j))"
      using s(2) j by (simp add: kind_name_def)
    have "terminals (retained_jobs now (d (lifecycleJobKinds ! j))) \<le> 100000"
      using retained_terminals assms(2) j by force
    then show ?thesis
      unfolding Let_def t using retained_unexpired [where now = now, unfolded cutoff_def] retained_live by blast
  qed
  with n show ?thesis by blast
qed

definition sample_jobs :: job_db where
  "sample_jobs = (\<lambda>k. if k = ''indexing_job''
     then [\<lparr>jr_id = ''a'', jr_status = ''done'', jr_finished = Some 0\<rparr>,
           \<lparr>jr_id = ''b'', jr_status = ''running'', jr_finished = None\<rparr>] else [])"

lemma sample_jobs_ok: "j < 7 \<Longrightarrow> table_ok (sample_jobs (lifecycleJobKinds ! j))"
proof -
  have "table_ok (sample_jobs ''indexing_job'')" by code_simp
  moreover have "table_ok []" by code_simp
  ultimately show ?thesis by (simp add: sample_jobs_def)
qed

theorem job_sweep_converges_witness:
  "\<exists>n d'. sweep_all n (TerminalJobAge + 1) DefaultLimits (first_cursor 0, sample_jobs) = Some d' \<and>
     d' ''indexing_job'' = [\<lparr>jr_id = ''b'', jr_status = ''running'', jr_finished = None\<rparr>]"
proof -
  have "sweep_limits DefaultLimits" by (simp add: sweep_limits_def DefaultLimits_def)
  from job_sweep_converges [OF this, of sample_jobs "TerminalJobAge + 1"] sample_jobs_ok
  obtain n d' where d': "sweep_all n (TerminalJobAge + 1) DefaultLimits (first_cursor 0, sample_jobs) = Some d'"
    "d' (lifecycleJobKinds ! 1) = retained_jobs (TerminalJobAge + 1) (sample_jobs (lifecycleJobKinds ! 1))"
    by (auto simp: Let_def)
  moreover have "lifecycleJobKinds ! 1 = ''indexing_job''" by (simp add: lifecycleJobKinds_def)
  moreover have "retained_jobs (TerminalJobAge + 1) (sample_jobs ''indexing_job'') =
      [\<lparr>jr_id = ''b'', jr_status = ''running'', jr_finished = None\<rparr>]"
  proof -
    have "expired (TerminalJobAge + 1) (sample_jobs ''indexing_job'') =
        [\<lparr>jr_id = ''b'', jr_status = ''running'', jr_finished = None\<rparr>]" by code_simp
    then show ?thesis by (simp add: retained_jobs_def terminalJobStatus_def)
  qed
  ultimately show ?thesis by auto
qed

section \<open>Cursors the collector saves\<close>

lemma Delete_bounds:
  "DeleteOldestTerminalJobs fault d kind b limit = (Inr n, d') \<Longrightarrow> 0 \<le> n \<and> n \<le> limit"
  by (auto simp: DeleteOldestTerminalJobs_def Let_def split: if_splits option.splits)

lemma Scan_bounds:
  "ScanJobLifecycle fault d kind a limit = Inr (rows, nxt) \<Longrightarrow> int (length rows) \<le> limit"
  by (auto simp: ScanJobLifecycle_def Let_def split: if_splits option.splits)

lemma count_terminal_mono: "count_terminal c rows = Some c' \<Longrightarrow> c \<le> c'"
  by (induction rows arbitrary: c) (fastforce split: if_splits)+

definition phase_ok :: "limits \<Rightarrow> owner_result \<Rightarrow> bool" where
  "phase_ok l r \<longleftrightarrow> or_err r = None \<and> or_more r \<and> 0 \<le> or_scanned r \<and> or_scanned r \<le> Candidates l \<and>
     0 \<le> or_deleted r \<and> or_deleted r \<le> Deletes l"

lemma phase_ok_base:
  "0 \<le> n \<Longrightarrow> n \<le> Deletes l \<Longrightarrow> 0 \<le> Candidates l \<Longrightarrow> phase_ok l (phase_base\<lparr>or_deleted := n\<rparr>)"
  "0 \<le> n \<Longrightarrow> n \<le> Candidates l \<Longrightarrow> 0 \<le> Deletes l \<Longrightarrow> phase_ok l (phase_base\<lparr>or_scanned := n\<rparr>)"
  by (simp_all add: phase_ok_def phase_base_def zero_result_def)

lemma age_cursor_valid:
  assumes "\<not> job_cursor_invalid st" "jc_phase st = ''age''" "0 \<le> Candidates l"
    and "sweep_phase fault now l st d = (p, d')"
  shows "case p of PhaseContinue st' r \<Rightarrow> \<not> job_cursor_invalid st' \<and> phase_ok l r
    | PhaseAdvance st' r \<Rightarrow> False | PhaseFail e \<Rightarrow> True"
proof (cases "DeleteOldestTerminalJobs fault d (job_kind_name st) (Some (now - TerminalJobAge)) (Deletes l)")
  case (Pair x e)
  show ?thesis
  proof (cases x)
    case (Inr n)
    then have "0 \<le> n" "n \<le> Deletes l" using Pair Delete_bounds by blast+
    moreover have "\<not> job_cursor_invalid (st\<lparr>jc_phase := ''count''\<rparr>)"
      using assms(1,2) by (auto simp: job_cursor_invalid_def)
    ultimately show ?thesis
      using assms Pair Inr by (auto simp: sweep_phase_def phase_ok_base Let_def)
  qed (use assms Pair in \<open>auto simp: sweep_phase_def Let_def\<close>)
qed

lemma count_cursor_valid:
  assumes "\<not> job_cursor_invalid st" "jc_phase st = ''count''" "0 \<le> Deletes l"
    and "sweep_phase fault now l st d = (p, d')"
  shows "case p of PhaseContinue st' r \<Rightarrow> \<not> job_cursor_invalid st' \<and> phase_ok l r
    | PhaseAdvance st' r \<Rightarrow> jc_kind st' = jc_kind st \<and> phase_ok l r | PhaseFail e \<Rightarrow> True"
proof (cases "ScanJobLifecycle fault d (job_kind_name st) (jc_after st) (Candidates l)")
  case (Inr page)
  obtain rows nxt where page: "page = (rows, nxt)" by (cases page)
  note b = Scan_bounds [OF Inr [unfolded page]]
  show ?thesis
  proof (cases "count_terminal (jc_count st) rows")
    case (Some c)
    have c: "0 \<le> c" using count_terminal_mono [OF Some] assms(1) by (simp add: job_cursor_invalid_def)
    have r: "phase_ok l (phase_base\<lparr>or_scanned := int (length rows)\<rparr>)" using b assms(3) by (simp add: phase_ok_base)
    have "\<not> job_cursor_invalid (st\<lparr>jc_count := c, jc_after := nxt\<rparr>)"
      "c > TerminalJobCount \<Longrightarrow> \<not> job_cursor_invalid (st\<lparr>jc_count := c, jc_phase := ''trim'', jc_after := [],
         jc_remaining := c - TerminalJobCount\<rparr>)"
      using assms(1,2) c by (auto simp: job_cursor_invalid_def)
    with r show ?thesis using assms Inr page Some by (auto simp: sweep_phase_def Let_def)
  qed (use assms Inr page in \<open>auto simp: sweep_phase_def Let_def\<close>)
qed (use assms in \<open>auto simp: sweep_phase_def Let_def\<close>)

lemma first_cursor_valid: "0 \<le> k \<Longrightarrow> k < 7 \<Longrightarrow> \<not> job_cursor_invalid (first_cursor k)"
  by (simp add: job_cursor_invalid_def first_cursor_def)

lemma trim_cursor_valid:
  assumes "\<not> job_cursor_invalid st" "jc_phase st = ''trim''" "0 \<le> Candidates l"
    and "sweep_phase fault now l st d = (p, d')"
  shows "case p of PhaseContinue st' r \<Rightarrow> \<not> job_cursor_invalid st' \<and> phase_ok l r
    | PhaseAdvance st' r \<Rightarrow> jc_kind st' = jc_kind st \<and> phase_ok l r | PhaseFail e \<Rightarrow> True"
proof -
  define lim where "lim = (if Deletes l > jc_remaining st then jc_remaining st else Deletes l)"
  have le: "lim \<le> Deletes l" by (simp add: lim_def)
  obtain x e where x: "DeleteOldestTerminalJobs fault d (job_kind_name st) None lim = (x, e)" by fastforce
  have k: "0 \<le> jc_kind st" "jc_kind st < 7" "0 \<le> jc_count st" "jc_after st = []"
    using assms(1,2) by (auto simp: job_cursor_invalid_def)
  show ?thesis
  proof (cases x)
    case (Inl y)
    then have "sweep_phase fault now l st d = (PhaseFail y, e)"
      using assms(2) x by (simp add: sweep_phase_def Let_def lim_def)
    with assms(4) show ?thesis by auto
  next
    case (Inr n)
    then have n: "0 \<le> n" "n \<le> lim" using x Delete_bounds by blast+
    then have r: "phase_ok l (phase_base\<lparr>or_deleted := n\<rparr>)" using le assms(3) by (simp add: phase_ok_base)
    have v: "jc_remaining st - n > 0 \<Longrightarrow> \<not> job_cursor_invalid (st\<lparr>jc_remaining := jc_remaining st - n\<rparr>)"
      using k assms(2) by (auto simp: job_cursor_invalid_def)
    have "sweep_phase fault now l st d = (if jc_remaining st - n \<le> 0
        then PhaseAdvance (st\<lparr>jc_remaining := jc_remaining st - n\<rparr>) (phase_base\<lparr>or_deleted := n\<rparr>)
        else PhaseContinue (if n = 0 then first_cursor (jc_kind st) else st\<lparr>jc_remaining := jc_remaining st - n\<rparr>)
          (phase_base\<lparr>or_deleted := n\<rparr>), e)"
      using assms(2) x Inr by (simp add: sweep_phase_def Let_def lim_def)
    then show ?thesis
      using assms(4) r v k first_cursor_valid [OF k(1,2)] by (auto split: if_splits)
  qed
qed

lemma sweep_phase_valid:
  assumes "\<not> job_cursor_invalid st" "0 \<le> Candidates l" "0 \<le> Deletes l"
    and "sweep_phase fault now l st d = (p, d')"
  shows "case p of PhaseContinue st' r \<Rightarrow> \<not> job_cursor_invalid st' \<and> phase_ok l r
    | PhaseAdvance st' r \<Rightarrow> jc_kind st' = jc_kind st \<and> phase_ok l r | PhaseFail e \<Rightarrow> True"
proof -
  consider "jc_phase st = ''age''" | "jc_phase st = ''count''" | "jc_phase st = ''trim''"
    using assms(1) by (auto simp: job_cursor_invalid_def)
  then show ?thesis
  proof cases
    case 1
    from age_cursor_valid [OF assms(1) 1 assms(2,4)] show ?thesis by (cases p) auto
  qed (use count_cursor_valid trim_cursor_valid assms in blast)+
qed

lemma next_kind_valid:
  "0 \<le> jc_kind st \<Longrightarrow> jc_kind st < 7 \<Longrightarrow> next_kind st = Some st' \<Longrightarrow> \<not> job_cursor_invalid st'"
  by (auto simp: next_kind_def job_cursor_invalid_def split: if_splits)

text \<open>Every successful turn of the collector saves a cursor it can resume from and stays within
  the tick's limits, whatever the database answers: more work pending means the saved cursor is the
  encoding of a valid phase state, and no more work means the empty cursor.\<close>

theorem job_sweep_resumable:
  assumes "job_Sweep json marshal complete acquire fault now cursor l d = (r, d')" "or_err r = None"
    and "0 \<le> Candidates l" "0 \<le> Deletes l"
  shows "(if or_more r then \<exists>st. or_cursor r = marshal st \<and> \<not> job_cursor_invalid st else or_cursor r = []) \<and>
    0 \<le> or_scanned r \<and> or_scanned r \<le> Candidates l \<and> 0 \<le> or_deleted r \<and> or_deleted r \<le> Deletes l"
proof -
  obtain st where st: "decodeJobCursor json cursor = Inr st" "acquire = None" "complete"
    using assms(1,2) by (auto simp: job_Sweep_def unavailableOwnerResult_def split: if_splits sum.splits option.splits)
  have v: "\<not> job_cursor_invalid st"
    using st(1) first_cursor_valid [of 0] by (auto simp: decodeJobCursor_def split: if_splits sum.splits)
  then have k: "0 \<le> jc_kind st" "jc_kind st < 7" by (auto simp: job_cursor_invalid_def)
  obtain p e where p: "sweep_phase fault now l st d = (p, e)" by fastforce
  note pv = sweep_phase_valid [OF v assms(3,4) p]
  show ?thesis
  proof (cases p)
    case (PhaseFail x)
    with assms(1) st p have "r = unavailableOwnerResult cursor x" by (simp add: job_Sweep_def)
    with assms(2) show ?thesis by (simp add: unavailableOwnerResult_def)
  next
    case (PhaseContinue st' q)
    then have "r = q\<lparr>or_cursor := marshal st'\<rparr>"
      using assms(1,2) st p by (auto simp: job_Sweep_def encodeJobCursor_def unavailableOwnerResult_def split: if_splits)
    with pv PhaseContinue show ?thesis by (auto simp: phase_ok_def)
  next
    case (PhaseAdvance st' q)
    then have r: "r = advanceJobKind marshal st' q" using assms(1) st p by (simp add: job_Sweep_def)
    show ?thesis
    proof (cases "next_kind st'")
      case None
      with r pv PhaseAdvance show ?thesis by (auto simp: advanceJobKind_def phase_ok_def)
    next
      case (Some st2)
      then have "\<not> job_cursor_invalid st2" using next_kind_valid [OF _ _ Some] k pv PhaseAdvance by simp
      moreover have "r = q\<lparr>or_cursor := marshal st2\<rparr>"
        using r Some assms(2) by (auto simp: advanceJobKind_def encodeJobCursor_def unavailableOwnerResult_def split: if_splits)
      ultimately show ?thesis using pv PhaseAdvance by (auto simp: phase_ok_def)
    qed
  qed
qed

theorem job_sweep_resumable_witness:
  "\<exists>st. or_cursor (fst (job_Sweep (\<lambda>_. Inl (ErrNew [])) jc_phase True None None 0 [] DefaultLimits sample_jobs)) =
     jc_phase st \<and> \<not> job_cursor_invalid st"
proof -
  let ?s = "job_Sweep (\<lambda>_. Inl (ErrNew [])) jc_phase True None None 0 [] DefaultLimits sample_jobs"
  have e: "or_err (fst ?s) = None" "or_more (fst ?s)" by code_simp+
  have "0 \<le> Candidates DefaultLimits" "0 \<le> Deletes DefaultLimits" by (simp_all add: DefaultLimits_def)
  from job_sweep_resumable [OF prod.collapse [symmetric] e(1) this] e(2) show ?thesis by simp
qed

end
