(* ===== verification/Lifecycle_Status.thy ===== *)
theory Lifecycle_Status
  imports Lifecycle_Controller
begin

text \<open>
  The remaining owner adapters of \<open>internal/lifecycle\<close> (\<open>static.go\<close>, \<open>generation.go\<close>,
  \<open>search.go\<close>, \<open>partial_stage.go\<close>, \<open>observation.go\<close>, \<open>catalog.go\<close>) and the status monitor of
  \<open>status.go\<close>. The sweeps the adapters call belong to other packages and are parameters.
\<close>

section \<open>Owner adapters\<close>

text \<open>\<open>StaticOwner.Sweep\<close>.\<close>

definition static_Sweep :: "gostring \<Rightarrow> gostring \<Rightarrow> ctx \<Rightarrow> gostring \<Rightarrow> owner_result" where
  "static_Sweep completeness reason c cursor =
     (if ctx_canceled c then unavailableOwnerResult cursor ErrCtxDone
      else let result = zero_result\<lparr>or_completeness := completeness\<rparr>
        in if completeness = Unavailable
           then result\<lparr>or_err := Some (ErrNew
             (if reason = [] then ''owner has no bounded collector'' else reason))\<rparr>
           else result)"

definition ClosedOwners :: "(gostring \<times> gostring) list" where
  "ClosedOwners = map (\<lambda>n. (n, Exact)) [SourceOwner, ResolverOwner, ProofOwner, ReaderOwner, TombstoneOwner]"

text \<open>What the packages' sweeps return; \<open>Active\<close> is reported by the stage sweep only.\<close>

record sweep_result =
  sw_cursor :: gostring
  sw_scanned :: int
  sw_deleted :: int
  sw_more :: bool
  sw_active :: bool

definition sweep_success :: "bool \<Rightarrow> sweep_result \<Rightarrow> owner_result" where
  "sweep_success lower sw =
     zero_result\<lparr>or_cursor := sw_cursor sw, or_scanned := sw_scanned sw, or_deleted := sw_deleted sw,
       or_more := sw_more sw, or_completeness := (if lower then LowerBound else Exact)\<rparr>"

text \<open>The failures that may advance past a malformed namespace, and those that keep the cursor.\<close>

definition sweep_isolated :: "gostring \<Rightarrow> sweep_result \<Rightarrow> lerr \<Rightarrow> owner_result" where
  "sweep_isolated cursor sw e =
     zero_result\<lparr>or_cursor := sw_cursor sw, or_scanned := sw_scanned sw, or_deleted := sw_deleted sw,
       or_more := sw_more sw,
       or_advance_on_error := (sw_cursor sw \<noteq> [] \<and> sw_cursor sw \<noteq> cursor),
       or_completeness := Unavailable, or_err := Some e\<rparr>"

definition sweep_kept :: "gostring \<Rightarrow> sweep_result \<Rightarrow> lerr \<Rightarrow> owner_result" where
  "sweep_kept cursor sw e =
     zero_result\<lparr>or_cursor := cursor, or_scanned := sw_scanned sw, or_deleted := sw_deleted sw,
       or_more := sw_more sw, or_completeness := Unavailable, or_err := Some e\<rparr>"

definition generation_Sweep ::
  "bool \<Rightarrow> bool \<Rightarrow> lerr option \<Rightarrow> (gostring \<Rightarrow> int \<Rightarrow> int \<Rightarrow> int \<Rightarrow> sweep_result \<times> lerr option) \<Rightarrow>
   gostring \<Rightarrow> limits \<Rightarrow> owner_result" where
  "generation_Sweep has_store has_acquire acquire sweep cursor l =
     (if \<not> has_store then unavailableOwnerResult [] (ErrNew ''generation lifecycle store is nil'')
      else if \<not> has_acquire then unavailableOwnerResult [] (ErrNew ''generation lifecycle mutation lock is nil'')
      else case acquire of
        Some e \<Rightarrow> unavailableOwnerResult cursor e
      | None \<Rightarrow>
          let scanLimit = (if Candidates l > (MaxOwnerQueriesPerTick - 1) div 2
                then (MaxOwnerQueriesPerTick - 1) div 2 else Candidates l)
          in case sweep cursor scanLimit (Deletes l) 2 of
               (sw, Some e) \<Rightarrow> sweep_kept cursor sw e
             | (sw, None) \<Rightarrow> sweep_success (sw_more sw) sw)"

definition catalog_Sweep ::
  "bool \<Rightarrow> lerr option \<Rightarrow> (gostring \<Rightarrow> int \<Rightarrow> int \<Rightarrow> int \<Rightarrow> sweep_result \<times> lerr option) \<Rightarrow>
   gostring \<Rightarrow> limits \<Rightarrow> owner_result" where
  "catalog_Sweep complete acquire sweep cursor l =
     (if \<not> complete then unavailableOwnerResult cursor (ErrNew ''catalog lifecycle owner is incomplete'')
      else case acquire of
        Some e \<Rightarrow> unavailableOwnerResult cursor e
      | None \<Rightarrow>
          let scanLimit = (if Candidates l > MaxOwnerQueriesPerTick - 1
                then MaxOwnerQueriesPerTick - 1 else Candidates l)
          in case sweep cursor scanLimit (Deletes l) 3 of
               (sw, Some e) \<Rightarrow> unavailableOwnerResult cursor e
             | (sw, None) \<Rightarrow> sweep_success (sw_more sw) sw)"

definition search_Sweep ::
  "bool \<Rightarrow> lerr option \<Rightarrow> (bool \<Rightarrow> int \<Rightarrow> gostring \<Rightarrow> int \<Rightarrow> sweep_result \<times> lerr option) \<Rightarrow>
   int \<Rightarrow> gostring \<Rightarrow> limits \<Rightarrow> owner_result" where
  "search_Sweep complete acquire sweep now cursor l =
     (if \<not> complete then unavailableOwnerResult cursor (ErrNew ''search lifecycle owner is incomplete'')
      else case acquire of
        Some e \<Rightarrow> unavailableOwnerResult cursor e
      | None \<Rightarrow>
          (case sweep (Deletes l > MaxDeletesPerTick) now cursor (Deletes l) of
             (sw, Some e) \<Rightarrow> sweep_isolated cursor sw e
           | (sw, None) \<Rightarrow> sweep_success (sw_more sw) sw))"

definition observation_v2_Sweep ::
  "bool \<Rightarrow> lerr option \<Rightarrow> (bool \<Rightarrow> int \<Rightarrow> gostring \<Rightarrow> int \<Rightarrow> int \<Rightarrow> sweep_result \<times> lerr option) \<Rightarrow>
   int \<Rightarrow> gostring \<Rightarrow> limits \<Rightarrow> owner_result" where
  "observation_v2_Sweep complete acquire sweep now cursor l =
     (if \<not> complete then unavailableOwnerResult cursor (ErrNew ''observation v2 lifecycle owner is incomplete'')
      else case acquire of
        Some e \<Rightarrow> unavailableOwnerResult cursor e
      | None \<Rightarrow>
          (case sweep (Deletes l > MaxDeletesPerTick) now cursor (Candidates l) (Deletes l) of
             (sw, Some e) \<Rightarrow> sweep_isolated cursor sw e
           | (sw, None) \<Rightarrow> sweep_success (sw_more sw) sw))"

definition observation_Sweep ::
  "bool \<Rightarrow> lerr option \<Rightarrow> (int \<Rightarrow> gostring \<Rightarrow> int \<Rightarrow> sweep_result \<times> lerr option) \<Rightarrow>
   int \<Rightarrow> gostring \<Rightarrow> limits \<Rightarrow> owner_result" where
  "observation_Sweep complete acquire sweep now cursor l =
     (if \<not> complete then unavailableOwnerResult cursor (ErrNew ''observation lifecycle owner is incomplete'')
      else case acquire of
        Some e \<Rightarrow> unavailableOwnerResult cursor e
      | None \<Rightarrow>
          (case sweep now cursor (Deletes l) of
             (sw, Some e) \<Rightarrow> sweep_kept cursor sw e
           | (sw, None) \<Rightarrow> sweep_success (sw_more sw) sw))"

definition stage_Sweep ::
  "bool \<Rightarrow> lerr option \<Rightarrow> (int \<Rightarrow> gostring \<Rightarrow> limits \<Rightarrow> sweep_result \<times> lerr option) \<Rightarrow>
   int \<Rightarrow> gostring \<Rightarrow> limits \<Rightarrow> owner_result" where
  "stage_Sweep complete acquire sweep now cursor l =
     (if \<not> complete then unavailableOwnerResult cursor (ErrNew ''partial-stage lifecycle owner is incomplete'')
      else case acquire of
        Some e \<Rightarrow> unavailableOwnerResult cursor e
      | None \<Rightarrow>
          (case sweep now cursor l of
             (sw, Some e) \<Rightarrow> sweep_isolated cursor sw e
           | (sw, None) \<Rightarrow> sweep_success (sw_more sw \<or> sw_active sw) sw))"

section \<open>The status monitor\<close>

record status_policy =
  sp_enabled :: bool
  sp_owners :: int
  sp_soft :: int
  sp_hard :: int
  sp_resume :: int
  sp_candidates :: int
  sp_deletes :: int
  sp_queries :: int

record capacity_status =
  cs_completeness :: gostring
  cs_pressure :: gostring
  cs_total :: "int option"
  cs_used :: "int option"
  cs_percent :: "int option"
  cs_observed_at :: "int option"

record owner_status =
  os_name :: gostring
  os_state :: gostring
  os_completeness :: gostring
  os_scanned :: int
  os_deleted :: int
  os_logical :: int
  os_root :: int
  os_member :: int
  os_backlog :: bool
  os_attempted_at :: "int option"

record status =
  st_schema :: gostring
  st_policy :: status_policy
  st_capacity :: capacity_status
  st_owners :: "owner_status list"

abbreviation "StatusSchema \<equiv> ''phebs-lifecycle-status-v1''"

definition unavailable_capacity :: capacity_status where
  "unavailable_capacity = \<lparr>cs_completeness = Unavailable, cs_pressure = PressureUnavailable,
     cs_total = None, cs_used = None, cs_percent = None, cs_observed_at = None\<rparr>"

definition not_run :: "gostring \<Rightarrow> owner_status" where
  "not_run name = \<lparr>os_name = name, os_state = ''not_run'', os_completeness = Unavailable,
     os_scanned = 0, os_deleted = 0, os_logical = 0, os_root = 0, os_member = 0,
     os_backlog = False, os_attempted_at = None\<rparr>"

definition NewStatusMonitor :: "bool \<Rightarrow> gostring option list \<Rightarrow> lerr + status" where
  "NewStatusMonitor enabled owners =
     (if list_ex (\<lambda>x. x = None) owners then Inl (ErrNew ''lifecycle status owner is nil'')
      else case normalizeOwners (map (\<lambda>x. (the x, x)) owners) of
        Inl e \<Rightarrow> Inl e
      | Inr normalized \<Rightarrow> Inr \<lparr>st_schema = StatusSchema,
          st_policy = \<lparr>sp_enabled = enabled, sp_owners = int (length normalized),
            sp_soft = SoftWatermarkPercent, sp_hard = HardWatermarkPercent,
            sp_resume = ResumeWatermarkPercent, sp_candidates = MaxCandidatesPerTick,
            sp_deletes = MaxDeletesPerTick, sp_queries = MaxQueriesPerTick\<rparr>,
          st_capacity = unavailable_capacity,
          st_owners = map (\<lambda>r. not_run (fst r)) normalized\<rparr>)"

definition NewSelectedCleanupStatusMonitor :: "bool \<Rightarrow> gostring option list \<Rightarrow> lerr + status" where
  "NewSelectedCleanupStatusMonitor enabled owners =
     (case NewStatusMonitor enabled owners of
        Inl e \<Rightarrow> Inl e
      | Inr m \<Rightarrow> Inr (m\<lparr>st_policy := (st_policy m)\<lparr>sp_deletes := 1024\<rparr>\<rparr>))"

definition ObserveOwner :: "int \<Rightarrow> owner_result \<Rightarrow> status \<Rightarrow> status" where
  "ObserveOwner now r m =
     (let index = sort_search (\<lambda>h. \<not> os_name (st_owners m ! h) < or_owner r) 0 (length (st_owners m))
      in if \<not> (index < length (st_owners m) \<and> os_name (st_owners m ! index) = or_owner r) then m
         else m\<lparr>st_owners := (st_owners m)[index :=
           \<lparr>os_name = or_owner r, os_state = (if or_err r \<noteq> None then ''error'' else ''ok''),
            os_completeness = or_completeness r, os_scanned = or_scanned r, os_deleted = or_deleted r,
            os_logical = or_logical_bytes r, os_root = or_root_bytes r, os_member = or_member_bytes r,
            os_backlog = or_more r,
            os_attempted_at = Some (case or_attempted_at r of None \<Rightarrow> now | Some t \<Rightarrow> t)\<rparr>]\<rparr>)"

definition ObserveCapacity :: "int \<Rightarrow> capacity \<times> lerr option \<Rightarrow> status \<Rightarrow> status" where
  "ObserveCapacity now obs m =
     (if Pressure (fst obs) = PressureUnavailable \<or> is_error (snd obs) ErrCapacityUnavailable
      then m\<lparr>st_capacity := unavailable_capacity\<rparr>
      else m\<lparr>st_capacity := \<lparr>cs_completeness = Exact, cs_pressure = Pressure (fst obs),
             cs_total = Some (TotalBytes (fst obs)), cs_used = Some (UsedBytes (fst obs)),
             cs_percent = Some (UsedPercent (fst obs)), cs_observed_at = Some now\<rparr>\<rparr>)"

definition owner_status_invalid :: "bool \<Rightarrow> gostring \<Rightarrow> owner_status \<Rightarrow> bool" where
  "owner_status_invalid selectedCleanup previous o' \<longleftrightarrow>
     os_name o' = [] \<or> os_name o' \<le> previous \<or>
     os_state o' \<noteq> ''not_run'' \<and> os_state o' \<noteq> ''ok'' \<and> os_state o' \<noteq> ''error'' \<or>
     os_completeness o' \<noteq> Exact \<and> os_completeness o' \<noteq> LowerBound \<and> os_completeness o' \<noteq> Unavailable \<or>
     os_scanned o' < 0 \<or> os_scanned o' > MaxCandidatesPerTick \<or>
     os_deleted o' < 0 \<or>
     os_deleted o' > (if selectedCleanup then SelectedCleanupDeleteLimit (os_name o') else MaxDeletesPerTick) \<or>
     os_logical o' < 0 \<or> os_logical o' > 16777216 \<or> os_root o' < 0 \<or> os_root o' > 262144 \<or>
     os_member o' < 0 \<or> os_member o' > 2097152"

fun owner_statuses_invalid :: "bool \<Rightarrow> gostring \<Rightarrow> owner_status list \<Rightarrow> bool" where
  "owner_statuses_invalid sel previous [] \<longleftrightarrow> False"
| "owner_statuses_invalid sel previous (o' # os) \<longleftrightarrow>
     owner_status_invalid sel previous o' \<or> owner_statuses_invalid sel (os_name o') os"

definition policy_invalid :: "bool \<Rightarrow> status \<Rightarrow> bool" where
  "policy_invalid sel s \<longleftrightarrow> st_schema s \<noteq> StatusSchema \<or> sp_owners (st_policy s) < 1 \<or>
     sp_owners (st_policy s) \<noteq> int (length (st_owners s)) \<or>
     sp_soft (st_policy s) \<noteq> SoftWatermarkPercent \<or> sp_hard (st_policy s) \<noteq> HardWatermarkPercent \<or>
     sp_resume (st_policy s) \<noteq> ResumeWatermarkPercent \<or>
     sp_candidates (st_policy s) \<noteq> MaxCandidatesPerTick \<or>
     sp_deletes (st_policy s) \<noteq> (if sel then 1024 else MaxDeletesPerTick) \<or>
     sp_queries (st_policy s) \<noteq> MaxQueriesPerTick"

definition capacity_status_error :: "capacity_status \<Rightarrow> lerr option" where
  "capacity_status_error c =
     (if cs_completeness c = Unavailable then
        (if cs_pressure c \<noteq> PressureUnavailable \<or> cs_total c \<noteq> None \<or> cs_used c \<noteq> None \<or> cs_percent c \<noteq> None
         then Some (ErrNew ''unavailable lifecycle capacity has values'') else None)
      else
        (case (cs_total c, cs_used c, cs_percent c) of
           (Some t, Some u, Some p) \<Rightarrow>
             if cs_completeness c \<noteq> Exact \<or> cs_pressure c = PressureUnavailable \<or> t \<le> 0 \<or> u < 0 \<or> u > t \<or>
                p < 0 \<or> p > 100
             then Some (ErrNew ''exact lifecycle capacity is invalid'') else None
         | _ \<Rightarrow> Some (ErrNew ''exact lifecycle capacity is invalid'')))"

definition validateStatus :: "bool \<Rightarrow> status \<Rightarrow> lerr option" where
  "validateStatus selectedCleanup s =
     (if policy_invalid selectedCleanup s then Some (ErrNew ''lifecycle status policy is invalid'')
      else if owner_statuses_invalid selectedCleanup [] (st_owners s)
      then Some (ErrNew ''lifecycle owner status is invalid'')
      else capacity_status_error (st_capacity s))"

section \<open>Adapters and the controller\<close>

lemma check_advance_isolated [simp]: "check_advance cursor (sweep_isolated cursor sw e) = sweep_isolated cursor sw e"
  by (auto simp: check_advance_def sweep_isolated_def zero_result_def)

lemma check_advance_plain [simp]:
  "check_advance cursor (sweep_kept c sw e) = sweep_kept c sw e"
  "check_advance cursor (sweep_success b sw) = sweep_success b sw"
  "check_advance cursor (unavailableOwnerResult c e) = unavailableOwnerResult c e"
  by (simp_all add: check_advance_def sweep_kept_def sweep_success_def unavailableOwnerResult_def zero_result_def)

text \<open>The adapters respect the controller's advance protocol: whatever the underlying sweep
  returns, an adapter asks to advance past a failure only with a non-empty cursor that differs from
  the one it was given, so \<open>tick\<close> never rejects the request, and every other failure of a sweep that
  touched nothing keeps the given cursor.\<close>

theorem adapters_advance_protocol:
  "check_advance cursor (generation_Sweep b b' a sw1 cursor l) = generation_Sweep b b' a sw1 cursor l \<and>
   check_advance cursor (catalog_Sweep b a sw1 cursor l) = catalog_Sweep b a sw1 cursor l \<and>
   check_advance cursor (search_Sweep b a sw2 now cursor l) = search_Sweep b a sw2 now cursor l \<and>
   check_advance cursor (observation_v2_Sweep b a sw3 now cursor l) = observation_v2_Sweep b a sw3 now cursor l \<and>
   check_advance cursor (observation_Sweep b a sw4 now cursor l) = observation_Sweep b a sw4 now cursor l \<and>
   check_advance cursor (stage_Sweep b a sw5 now cursor l) = stage_Sweep b a sw5 now cursor l \<and>
   check_advance cursor (static_Sweep completeness reason c cursor) = static_Sweep completeness reason c cursor"
proof -
  have "check_advance cursor (static_Sweep completeness reason c cursor) = static_Sweep completeness reason c cursor"
    by (simp add: static_Sweep_def Let_def check_advance_def unavailableOwnerResult_def zero_result_def)
  moreover have "check_advance cursor (generation_Sweep b b' a sw1 cursor l) = generation_Sweep b b' a sw1 cursor l"
    by (simp add: generation_Sweep_def Let_def split: option.split prod.split)
  moreover have "check_advance cursor (catalog_Sweep b a sw1 cursor l) = catalog_Sweep b a sw1 cursor l"
    by (simp add: catalog_Sweep_def Let_def split: option.split prod.split)
  moreover have "check_advance cursor (search_Sweep b a sw2 now cursor l) = search_Sweep b a sw2 now cursor l"
    by (simp add: search_Sweep_def split: option.split prod.split)
  moreover have "check_advance cursor (observation_v2_Sweep b a sw3 now cursor l) = observation_v2_Sweep b a sw3 now cursor l"
    by (simp add: observation_v2_Sweep_def split: option.split prod.split)
  moreover have "check_advance cursor (observation_Sweep b a sw4 now cursor l) = observation_Sweep b a sw4 now cursor l"
    by (simp add: observation_Sweep_def split: option.split prod.split)
  moreover have "check_advance cursor (stage_Sweep b a sw5 now cursor l) = stage_Sweep b a sw5 now cursor l"
    by (simp add: stage_Sweep_def split: option.split prod.split)
  ultimately show ?thesis by blast
qed

section \<open>Published statuses\<close>

text \<open>An observation the monitor is fed with: an owner result or a capacity check, at a time.\<close>

datatype observation = ObsOwner owner_result | ObsCapacity "capacity \<times> lerr option"

fun observe :: "int \<times> observation \<Rightarrow> status \<Rightarrow> status" where
  "observe (now, ObsOwner r) m = ObserveOwner now r m"
| "observe (now, ObsCapacity c) m = ObserveCapacity now c m"

definition result_publishable :: "owner_result \<Rightarrow> bool" where
  "result_publishable r \<longleftrightarrow> or_completeness r \<in> {Exact, LowerBound, Unavailable} \<and>
     0 \<le> or_scanned r \<and> or_scanned r \<le> MaxCandidatesPerTick \<and>
     0 \<le> or_deleted r \<and> or_deleted r \<le> MaxDeletesPerTick \<and>
     0 \<le> or_logical_bytes r \<and> or_logical_bytes r \<le> 16777216 \<and>
     0 \<le> or_root_bytes r \<and> or_root_bytes r \<le> 262144 \<and>
     0 \<le> or_member_bytes r \<and> or_member_bytes r \<le> 2097152"

definition capacity_publishable :: "capacity \<times> lerr option \<Rightarrow> bool" where
  "capacity_publishable obs \<longleftrightarrow> Pressure (fst obs) = PressureUnavailable \<or>
     is_error (snd obs) ErrCapacityUnavailable \<or>
     0 < TotalBytes (fst obs) \<and> 0 \<le> UsedBytes (fst obs) \<and> UsedBytes (fst obs) \<le> TotalBytes (fst obs) \<and>
     0 \<le> UsedPercent (fst obs) \<and> UsedPercent (fst obs) \<le> 100"

fun publishable :: "observation \<Rightarrow> bool" where
  "publishable (ObsOwner r) = result_publishable r"
| "publishable (ObsCapacity c) = capacity_publishable c"

lemma owner_statuses_valid_iff:
  "\<not> owner_statuses_invalid sel p os \<longleftrightarrow>
     sorted_wrt (<) (p # map os_name os) \<and> (\<forall>x \<in> set os. \<not> owner_status_invalid sel [] x)"
proof (induction os arbitrary: p)
  case (Cons x os)
  have "\<not> owner_status_invalid sel p x \<longleftrightarrow> p < os_name x \<and> \<not> owner_status_invalid sel [] x"
    by (cases "os_name x") (auto simp: owner_status_invalid_def not_le)
  then show ?case using Cons by (auto dest: less_trans)
qed simp

lemma owner_status_name_pos: "\<not> owner_status_invalid sel [] x \<Longrightarrow> [] < os_name x"
  by (auto simp: owner_status_invalid_def Nil_less_iff)

lemma ObserveOwner_cases:
  obtains (same) "ObserveOwner now r m = m"
  | (set) i x where "i < length (st_owners m)" "os_name (st_owners m ! i) = os_name x"
      "ObserveOwner now r m = m\<lparr>st_owners := (st_owners m)[i := x]\<rparr>"
      "os_state x = ''ok'' \<or> os_state x = ''error''" "os_completeness x = or_completeness r"
      "os_scanned x = or_scanned r" "os_deleted x = or_deleted r" "os_logical x = or_logical_bytes r"
      "os_root x = or_root_bytes r" "os_member x = or_member_bytes r"
proof -
  let ?i = "sort_search (\<lambda>h. \<not> os_name (st_owners m ! h) < or_owner r) 0 (length (st_owners m))"
  show ?thesis
  proof (cases "?i < length (st_owners m) \<and> os_name (st_owners m ! ?i) = or_owner r")
    case False
    then show ?thesis by (intro same) (auto simp: ObserveOwner_def Let_def)
  next
    case True
    then show ?thesis
      by (intro set [of ?i "\<lparr>os_name = or_owner r, os_state = (if or_err r \<noteq> None then ''error'' else ''ok''),
            os_completeness = or_completeness r, os_scanned = or_scanned r, os_deleted = or_deleted r,
            os_logical = or_logical_bytes r, os_root = or_root_bytes r, os_member = or_member_bytes r,
            os_backlog = or_more r,
            os_attempted_at = Some (case or_attempted_at r of None \<Rightarrow> now | Some t \<Rightarrow> t)\<rparr>"])
        (auto simp: ObserveOwner_def Let_def)
  qed
qed

lemma set_list_updateD: "y \<in> set (xs[i := x]) \<Longrightarrow> y = x \<or> y \<in> set xs"
  using set_update_subset_insert by fastforce

lemma validate_ObserveOwner:
  assumes "validateStatus False m = None" "result_publishable r"
  shows "validateStatus False (ObserveOwner now r m) = None"
proof (cases now r m rule: ObserveOwner_cases)
  case same
  with assms show ?thesis by simp
next
  case (set i x)
  have v: "\<not> policy_invalid False m" "\<not> owner_statuses_invalid False [] (st_owners m)"
    "capacity_status_error (st_capacity m) = None"
    using assms(1) by (auto simp: validateStatus_def split: if_splits)
  have "\<not> owner_status_invalid False [] (st_owners m ! i)"
    using v(2) set(1) by (simp add: owner_statuses_valid_iff)
  then have "os_name x \<noteq> []" using set(2) by (auto simp: owner_status_invalid_def)
  then have x: "\<not> owner_status_invalid False [] x"
    using set(4-10) assms(2) unfolding owner_status_invalid_def result_publishable_def by auto
  have "map os_name ((st_owners m)[i := x]) = map os_name (st_owners m)"
    using set(1,2) by (metis list_update_id map_update nth_map)
  then have "\<not> owner_statuses_invalid False [] ((st_owners m)[i := x])"
    using v(2) x unfolding owner_statuses_valid_iff by (auto dest: set_list_updateD)
  moreover have "\<not> policy_invalid False (m\<lparr>st_owners := (st_owners m)[i := x]\<rparr>)"
    using v(1) by (simp add: policy_invalid_def)
  ultimately show ?thesis using v(3) unfolding set(3) by (simp add: validateStatus_def)
qed

lemma validate_ObserveCapacity:
  assumes "validateStatus False m = None" "capacity_publishable obs"
  shows "validateStatus False (ObserveCapacity now obs m) = None"
proof -
  have "\<not> policy_invalid False m" "\<not> owner_statuses_invalid False [] (st_owners m)"
    using assms(1) by (auto simp: validateStatus_def split: if_splits)
  then show ?thesis
    using assms(2) by (auto simp: ObserveCapacity_def validateStatus_def policy_invalid_def
        capacity_status_error_def unavailable_capacity_def capacity_publishable_def)
qed

lemma validate_NewStatusMonitor:
  assumes "NewStatusMonitor enabled owners = Inr m"
  shows "validateStatus False m = None"
proof -
  obtain normalized where n: "normalizeOwners (map (\<lambda>x. (the x, x)) owners) = Inr normalized"
    and m: "st_schema m = StatusSchema" "st_owners m = map (\<lambda>r. not_run (fst r)) normalized"
      "st_capacity m = unavailable_capacity" "sp_owners (st_policy m) = int (length normalized)"
      "sp_soft (st_policy m) = SoftWatermarkPercent" "sp_hard (st_policy m) = HardWatermarkPercent"
      "sp_resume (st_policy m) = ResumeWatermarkPercent" "sp_candidates (st_policy m) = MaxCandidatesPerTick"
      "sp_deletes (st_policy m) = MaxDeletesPerTick" "sp_queries (st_policy m) = MaxQueriesPerTick"
    using assms by (auto simp: NewStatusMonitor_def split: if_splits sum.splits)
  note s = normalizeOwners_sorted [OF n]
  have ne: "fst r \<noteq> []" "[] < fst r" if "r \<in> set normalized" for r
    using s(4) that by (auto simp: owner_invalid_def Nil_less_iff)
  have "\<not> owner_statuses_invalid False [] (st_owners m)"
    using s(1) ne by (auto simp: owner_statuses_valid_iff m(2) not_run_def owner_status_invalid_def comp_def)
  moreover have "\<not> policy_invalid False m"
    using m s(3) by (simp add: policy_invalid_def Suc_le_eq)
  ultimately show ?thesis
    by (simp add: validateStatus_def m(3) capacity_status_error_def unavailable_capacity_def)
qed

text \<open>C15. What the monitor publishes stays valid: from a new monitor, after any sequence of
  observations that are themselves within bounds, including results of unregistered owners, the
  snapshot passes \<open>ValidateStatus\<close>.\<close>

theorem status_monitor_valid:
  assumes "NewStatusMonitor enabled owners = Inr m" "\<forall>x \<in> set obs. publishable (snd x)"
  shows "validateStatus False (fold observe obs m) = None"
proof -
  have "validateStatus False (fold observe obs s) = None"
    if "validateStatus False s = None" "\<forall>x \<in> set obs. publishable (snd x)" for s
    using that
  proof (induction obs arbitrary: s)
    case (Cons x obs)
    obtain now y where x: "x = (now, y)" by (cases x)
    have "validateStatus False (observe x s) = None"
      using Cons.prems x by (cases y) (auto simp: validate_ObserveOwner validate_ObserveCapacity)
    then show ?case using Cons by simp
  qed simp
  with assms validate_NewStatusMonitor show ?thesis by blast
qed

theorem status_monitor_valid_witness:
  "\<exists>m. NewStatusMonitor True [Some ''b'', Some ''a''] = Inr m \<and>
     validateStatus False (fold observe [(5, ObsOwner (zero_result\<lparr>or_owner := ''b'', or_completeness := Exact\<rparr>)),
       (6, ObsCapacity (sample_capacity 10, None))] m) = None"
proof -
  have "\<exists>m. NewStatusMonitor True [Some ''b'', Some ''a''] = Inr m"
  proof -
    have "\<not> (case NewStatusMonitor True [Some ''b'', Some ''a''] of Inl _ \<Rightarrow> True | Inr _ \<Rightarrow> False)" by code_simp
    then show ?thesis by (cases "NewStatusMonitor True [Some ''b'', Some ''a'']") auto
  qed
  then obtain m where m: "NewStatusMonitor True [Some ''b'', Some ''a''] = Inr m" by blast
  have "\<forall>x \<in> set [(5::int, ObsOwner (zero_result\<lparr>or_owner := ''b'', or_completeness := Exact\<rparr>)),
       (6, ObsCapacity (sample_capacity 10, None))]. publishable (snd x)"
    by (simp add: result_publishable_def capacity_publishable_def zero_result_def sample_capacity_def zero_capacity_def)
  from status_monitor_valid [OF m this] m show ?thesis by blast
qed

text \<open>C16. A capacity check under a canceled context is published as an exact observation with a
  zero total, which \<open>ValidateStatus\<close> refuses: the gate answers with the zero capacity and the
  context's error, and the monitor treats neither as unavailable.\<close>

theorem status_canceled_check_invalid:
  "let obs = fst (CheckObserved (Some g) (Ctx True deadline) cap est);
       m' = ObserveCapacity now obs m
   in cs_completeness (st_capacity m') = Exact \<and> cs_total (st_capacity m') = Some 0 \<and>
      validateStatus sel m' \<noteq> None"
  by (simp add: CheckObserved_def ObserveCapacity_def zero_capacity_def is_error_def Let_def
      validateStatus_def capacity_status_error_def)

end
