(* ===== verification/Read_Accounting.thy ===== *)
theory Read_Accounting
  imports Go_Errors
begin

text \<open>
  The explicitly scoped read ledgers and observers of \<open>internal/readaccounting\<close>. A ledger is a
  record of four 64-bit counters with their limits and a sticky error; every method body is atomic
  under its mutex. An observer is a function bound in a context: what a call of it does is to panic
  or to return, and \<open>later\<close> tells whether the context is done once it has returned.
\<close>

section \<open>Errors\<close>

type_synonym raerr = "unit goerr"

abbreviation "ErrScope \<equiv> (ErrNew ''read accounting scope is invalid'' :: raerr)"
abbreviation "ErrEvent \<equiv> (ErrNew ''read accounting event is invalid'' :: raerr)"
abbreviation "ErrReadLimit \<equiv> (ErrNew ''read accounting limit exceeded'' :: raerr)"
abbreviation "ErrClosed \<equiv> (ErrNew ''read accounting scope is closed'' :: raerr)"

definition IsError :: "raerr option \<Rightarrow> bool" where
  "IsError e \<longleftrightarrow> is_error e ErrScope \<or> is_error e ErrEvent \<or> is_error e ErrReadLimit \<or> is_error e ErrClosed"

section \<open>The ledger\<close>

record counts =
  ControlFileReads :: u64
  StoreReadAttempts :: u64
  MemberVisits :: u64
  StoreWriteAttempts :: u64

record ledger =
  ld_counts :: counts
  ld_limits :: counts
  ld_closed :: bool
  ld_err :: "raerr option"
  ld_search_required :: bool
  ld_search :: "u64 option"

definition zero_counts :: counts where
  "zero_counts = \<lparr>ControlFileReads = 0, StoreReadAttempts = 0, MemberVisits = 0, StoreWriteAttempts = 0\<rparr>"

definition latch :: "raerr \<Rightarrow> ledger \<Rightarrow> ledger" where
  "latch e l = (if ld_err l = None then l\<lparr>ld_err := Some e\<rparr> else l)"

text \<open>\<open>Start\<close> on a context that may be nil and may already carry a ledger: the outcome and what
  becomes of the parent.\<close>

definition Start :: "bool \<Rightarrow> ledger option \<Rightarrow> counts \<Rightarrow> (raerr + ledger) \<times> ledger option" where
  "Start nil_ctx parent limits =
     (if nil_ctx then (Inl ErrScope, parent)
      else case parent of
        Some p \<Rightarrow> (Inl ErrScope, Some (latch ErrScope p))
      | None \<Rightarrow>
          if ControlFileReads limits = - 1 \<or> StoreReadAttempts limits = - 1 \<or>
             MemberVisits limits = - 1 \<or> StoreWriteAttempts limits = - 1
          then (Inl ErrScope, None)
          else (Inr \<lparr>ld_counts = zero_counts, ld_limits = limits, ld_closed = False, ld_err = None,
                     ld_search_required = False, ld_search = None\<rparr>, None))"

text \<open>The counter a kind selects, as the \<open>switch\<close> selects its pointers; other kinds select none.\<close>

definition counter :: "nat \<Rightarrow> counts \<Rightarrow> u64 option" where
  "counter kind c = (if kind = 0 then Some (ControlFileReads c) else if kind = 1 then Some (StoreReadAttempts c)
     else if kind = 2 then Some (MemberVisits c) else if kind = 3 then Some (StoreWriteAttempts c) else None)"

definition set_counter :: "nat \<Rightarrow> u64 \<Rightarrow> counts \<Rightarrow> counts" where
  "set_counter kind v c = (if kind = 0 then c\<lparr>ControlFileReads := v\<rparr> else if kind = 1 then c\<lparr>StoreReadAttempts := v\<rparr>
     else if kind = 2 then c\<lparr>MemberVisits := v\<rparr> else if kind = 3 then c\<lparr>StoreWriteAttempts := v\<rparr> else c)"

definition charge_ledger :: "nat \<Rightarrow> u64 \<Rightarrow> ledger \<Rightarrow> ledger" where
  "charge_ledger kind n l =
     (if ld_err l \<noteq> None then l
      else if ld_closed l then l\<lparr>ld_err := Some ErrClosed\<rparr>
      else case (counter kind (ld_counts l), counter kind (ld_limits l)) of
        (Some v, Some limit) \<Rightarrow>
          if n = 0 then l\<lparr>ld_err := Some ErrEvent\<rparr>
          else if n > limit - v
          then l\<lparr>ld_counts := set_counter kind (limit + 1) (ld_counts l), ld_err := Some ErrReadLimit\<rparr>
          else l\<lparr>ld_counts := set_counter kind (v + n) (ld_counts l)\<rparr>
      | _ \<Rightarrow> l\<lparr>ld_err := Some ErrEvent\<rparr>)"

text \<open>\<open>Charge\<close> is a no-op without a ledger and otherwise returns the ledger's error.\<close>

definition Charge :: "nat \<Rightarrow> u64 \<Rightarrow> ledger option \<Rightarrow> raerr option \<times> ledger option" where
  "Charge kind n l = (case l of None \<Rightarrow> (None, None)
     | Some x \<Rightarrow> (let x' = charge_ledger kind n x in (ld_err x', Some x')))"

definition finish_ledger :: "ledger \<Rightarrow> ledger" where
  "finish_ledger l =
     (let l' = l\<lparr>ld_closed := True\<rparr>
      in if ld_search_required l' \<and> ld_search l' = None \<and> ld_err l' = None
         then l'\<lparr>ld_err := Some ErrEvent\<rparr> else l')"

definition Finish :: "ledger option \<Rightarrow> (counts \<times> raerr option) \<times> ledger option" where
  "Finish l = (case l of None \<Rightarrow> ((zero_counts, Some ErrScope), None)
     | Some x \<Rightarrow> (let x' = finish_ledger x in ((ld_counts x', ld_err x'), Some x')))"

definition require_search :: "ledger \<Rightarrow> ledger" where
  "require_search l =
     (if ld_closed l \<or> ld_err l \<noteq> None \<or> ld_search_required l then latch ErrScope l
      else l\<lparr>ld_search_required := True\<rparr>)"

definition WithSearchRepositories :: "ctx \<Rightarrow> ledger option \<Rightarrow> raerr option \<times> ledger option" where
  "WithSearchRepositories c l =
     (if c = NilCtx \<or> ctx_canceled c then (Some ErrScope, l)
      else case l of
        None \<Rightarrow> (Some ErrScope, None)
      | Some x \<Rightarrow> (let x' = require_search x in (ld_err x', Some x')))"

definition observe_search :: "bool \<Rightarrow> u64 \<Rightarrow> ledger \<Rightarrow> ledger" where
  "observe_search canceled n l =
     (if ld_err l \<noteq> None then l
      else if ld_closed l \<or> ld_search l \<noteq> None \<or> canceled then l\<lparr>ld_err := Some ErrEvent\<rparr>
      else l\<lparr>ld_search := Some n\<rparr>)"

definition ObserveSearchRepositories :: "ctx \<Rightarrow> u64 \<Rightarrow> ledger option \<Rightarrow> raerr option \<times> ledger option" where
  "ObserveSearchRepositories c n l =
     (if c = NilCtx then (None, l)
      else case l of None \<Rightarrow> (None, None)
      | Some x \<Rightarrow> (let x' = observe_search (ctx_canceled c) n x in (ld_err x', Some x')))"

section \<open>Observers\<close>

datatype 'a callback = CbPanic | CbReturn 'a

definition bind_observer :: "bool \<Rightarrow> 'f option \<Rightarrow> 'f option \<Rightarrow> raerr + 'f" where
  "bind_observer nil_ctx bound observe =
     (case observe of None \<Rightarrow> Inl ErrScope
      | Some f \<Rightarrow> if nil_ctx \<or> bound \<noteq> None then Inl ErrScope else Inr f)"

definition unbound :: "bool \<Rightarrow> raerr option" where
  "unbound required = (if required then Some ErrScope else None)"

definition ctx_result :: "bool \<Rightarrow> raerr option" where
  "ctx_result later = (if later then Some ErrCtxDone else None)"

text \<open>The deferred \<open>recover\<close> and the checks after a call that answers a phase, and one that
  answers only an error.\<close>

definition phase_answer :: "(nat \<Rightarrow> bool) \<Rightarrow> bool \<Rightarrow> (nat \<times> raerr option) callback \<Rightarrow> nat \<times> raerr option" where
  "phase_answer same later cb =
     (case cb of CbPanic \<Rightarrow> (0, Some ErrEvent)
      | CbReturn (p, Some e) \<Rightarrow> (p, Some e)
      | CbReturn (p, None) \<Rightarrow>
          if p < 1 \<or> p > 15 \<or> \<not> same p then (p, Some ErrEvent) else (p, ctx_result later))"

definition plain_answer :: "bool \<Rightarrow> raerr option callback \<Rightarrow> raerr option" where
  "plain_answer later cb =
     (case cb of CbPanic \<Rightarrow> Some ErrEvent
      | CbReturn (Some e) \<Rightarrow> Some e
      | CbReturn None \<Rightarrow> ctx_result later)"

definition cache_validation :: "char \<Rightarrow> bool" where
  "cache_validation event \<longleftrightarrow> event = CHR ''r'' \<or> event = CHR ''m''"

definition ObserveCache ::
  "(char \<Rightarrow> nat \<Rightarrow> (nat \<times> raerr option) callback) option \<Rightarrow> ctx \<Rightarrow> bool \<Rightarrow> bool \<Rightarrow> char \<Rightarrow> nat \<Rightarrow>
   nat \<times> raerr option" where
  "ObserveCache observe c later required event phase =
     (case observe of None \<Rightarrow> (0, unbound required)
      | Some f \<Rightarrow>
          if \<not> cache_validation event \<and> event \<noteq> CHR ''H'' \<and> event \<noteq> CHR ''R'' \<and> event \<noteq> CHR ''M'' \<or>
             cache_validation event \<noteq> (phase \<noteq> 0)
          then (0, Some ErrEvent)
          else if \<not> cache_validation event \<and> ctx_canceled c then (0, Some ErrCtxDone)
          else phase_answer (\<lambda>p. cache_validation event \<longrightarrow> p = phase) later (f event phase))"

definition ObserveCatalogCensus ::
  "(char \<Rightarrow> nat \<Rightarrow> u64 \<Rightarrow> (nat \<times> raerr option) callback) option \<Rightarrow> ctx \<Rightarrow> bool \<Rightarrow> bool \<Rightarrow> char \<Rightarrow> nat \<Rightarrow>
   u64 \<Rightarrow> nat \<times> raerr option" where
  "ObserveCatalogCensus observe c later required event phase records =
     (case observe of None \<Rightarrow> (0, unbound required)
      | Some f \<Rightarrow>
          if event \<notin> set ''BSDEN'' \<or> (event = CHR ''B'') \<noteq> (phase = 0) \<or> (event = CHR ''D'') \<noteq> (records > 0)
          then (0, Some ErrEvent)
          else if event = CHR ''B'' \<and> ctx_canceled c then (0, Some ErrCtxDone)
          else phase_answer (\<lambda>p. event \<noteq> CHR ''B'' \<longrightarrow> phase = p) later (f event phase records))"

definition ObserveSourceCensus ::
  "(char \<Rightarrow> nat \<Rightarrow> u64 \<Rightarrow> u64 \<Rightarrow> (nat \<times> raerr option) callback) option \<Rightarrow> ctx \<Rightarrow> bool \<Rightarrow> bool \<Rightarrow> char \<Rightarrow>
   nat \<Rightarrow> u64 \<Rightarrow> u64 \<Rightarrow> nat \<times> raerr option" where
  "ObserveSourceCensus observe c later required event phase logical unique =
     (case observe of None \<Rightarrow> (0, unbound required)
      | Some f \<Rightarrow>
          if event \<notin> set ''BDEC'' \<or> (event = CHR ''B'') \<noteq> (phase = 0) \<or>
             event = CHR ''D'' \<and> unique > logical \<or> event = CHR ''C'' \<and> unique \<noteq> 0 \<or>
             event \<noteq> CHR ''D'' \<and> event \<noteq> CHR ''C'' \<and> (logical \<noteq> 0 \<or> unique \<noteq> 0)
          then (0, Some ErrEvent)
          else if (event = CHR ''B'' \<or> event = CHR ''C'') \<and> ctx_canceled c then (0, Some ErrCtxDone)
          else phase_answer (\<lambda>p. event \<noteq> CHR ''B'' \<longrightarrow> phase = p) later (f event phase logical unique))"

definition ObserveUnsupportedSource ::
  "(u64 \<Rightarrow> (nat \<times> raerr option) callback) option \<Rightarrow> ctx \<Rightarrow> bool \<Rightarrow> bool \<Rightarrow> u64 \<Rightarrow> nat \<times> raerr option" where
  "ObserveUnsupportedSource observe c later required event =
     (case observe of None \<Rightarrow> (0, unbound required)
      | Some f \<Rightarrow> if ctx_canceled c then (0, Some ErrCtxDone)
          else phase_answer (\<lambda>_. True) later (f event))"

text \<open>Observers of attempts refuse a context that is already done; observers of completed work
  retain it first.\<close>

definition ObserveSource :: "raerr option callback option \<Rightarrow> ctx \<Rightarrow> bool \<Rightarrow> bool \<Rightarrow> raerr option" where
  "ObserveSource observe c later required =
     (case observe of None \<Rightarrow> unbound required
      | Some f \<Rightarrow> if ctx_canceled c then Some ErrCtxDone else plain_answer later f)"

definition ObserveParsedBlob :: "raerr option callback option \<Rightarrow> ctx \<Rightarrow> bool \<Rightarrow> bool \<Rightarrow> raerr option" where
  "ObserveParsedBlob observe c later required =
     (case observe of None \<Rightarrow> unbound required
      | Some f \<Rightarrow> if ctx_canceled c then Some ErrCtxDone else plain_answer later f)"

definition ObservePublication :: "raerr option callback option \<Rightarrow> bool \<Rightarrow> bool \<Rightarrow> raerr option" where
  "ObservePublication observe later required =
     (case observe of None \<Rightarrow> unbound required | Some f \<Rightarrow> plain_answer later f)"

definition ObserveRelationship ::
  "(char \<Rightarrow> u64 \<Rightarrow> raerr option callback) option \<Rightarrow> bool \<Rightarrow> bool \<Rightarrow> char \<Rightarrow> u64 \<Rightarrow> raerr option" where
  "ObserveRelationship observe later required event quantity =
     (case observe of None \<Rightarrow> unbound required
      | Some f \<Rightarrow>
          if event \<noteq> CHR ''R'' \<and> (event \<noteq> CHR ''B'' \<and> event \<noteq> CHR ''P'' \<or> quantity \<noteq> 1) then Some ErrEvent
          else plain_answer later (f event quantity))"

definition ObserveResolverBlob :: "(u64 \<Rightarrow> raerr option callback) option \<Rightarrow> bool \<Rightarrow> bool \<Rightarrow> u64 \<Rightarrow> raerr option" where
  "ObserveResolverBlob observe later required n =
     (case observe of None \<Rightarrow> unbound required | Some f \<Rightarrow> plain_answer later (f n))"

record resolver_catalog_counts =
  GenerationSHA256 :: gostring
  ManifestSHA256 :: gostring
  DeclarationRecords :: u64
  GeneratedDescriptors :: u64

definition ObserveResolverCatalog ::
  "(resolver_catalog_counts \<Rightarrow> raerr option callback) option \<Rightarrow> bool \<Rightarrow> bool \<Rightarrow> resolver_catalog_counts \<Rightarrow> raerr option" where
  "ObserveResolverCatalog observe later required n =
     (case observe of None \<Rightarrow> unbound required | Some f \<Rightarrow> plain_answer later (f n))"

section \<open>Diagnostics\<close>

definition stage_label :: "gostring list \<Rightarrow> nat \<Rightarrow> gostring" where
  "stage_label names stage = (if stage \<ge> length names then names ! 0 else names ! stage)"

definition publication_stage_names :: "gostring list" where
  "publication_stage_names = [''unknown'', ''assembly'', ''fence'', ''publication_observer'',
     ''publisher_authority'', ''publisher_encoding'', ''store_input'', ''store_query'',
     ''store_result_count'', ''store_result_identity'', ''publisher_return'', ''pointer_write'',
     ''settlement'', ''handler_return'']"

definition PublicationFailureStage_String :: "nat \<Rightarrow> gostring" where
  "PublicationFailureStage_String = stage_label publication_stage_names"

definition transition_stage_names :: "gostring list" where
  "transition_stage_names = [''unknown'', ''input'', ''schedule_query'', ''schedule_fence'',
     ''chunk_charge'', ''chunk_query'', ''chunk_fence'', ''record_id'', ''tuple'', ''shape'']"

definition TransitionReadStage_String :: "nat \<Rightarrow> gostring" where
  "TransitionReadStage_String = stage_label transition_stage_names"

definition transition_id_names :: "gostring list" where
  "transition_id_names = [''unknown'', ''missing'', ''wrong_table'', ''wrong_type'', ''valid'']"

definition TransitionReadIDKind_String :: "nat \<Rightarrow> gostring" where
  "TransitionReadIDKind_String = stage_label transition_id_names"

definition TransitionReadCount :: "int \<Rightarrow> nat" where
  "TransitionReadCount n = (if n = 0 then 1 else if n = 1 then 2 else 3)"

definition TransitionReadCardinality_String :: "nat \<Rightarrow> gostring" where
  "TransitionReadCardinality_String n =
     (if n = 1 then ''zero'' else if n = 2 then ''one'' else if n = 3 then ''many'' else ''unknown'')"

definition TransitionReadSide_String :: "nat \<Rightarrow> gostring" where
  "TransitionReadSide_String n = (if n = 1 then ''before'' else if n = 2 then ''after'' else ''unknown'')"

record recovery_schedule =
  rs_digest :: gostring
  rs_chunks :: int
  rs_successes :: int
  rs_observed :: bool

definition ObserveRecoverySchedule :: "gostring \<Rightarrow> int \<Rightarrow> int \<Rightarrow> recovery_schedule option \<Rightarrow> recovery_schedule option" where
  "ObserveRecoverySchedule digest chunks successes scope =
     map_option (\<lambda>s.
       let observed = (chunks > 0 \<and> successes \<ge> 0 \<and> successes \<le> chunks \<and> digest \<noteq> [])
       in if observed
          then \<lparr>rs_digest = digest, rs_chunks = chunks, rs_successes = successes, rs_observed = True\<rparr>
          else s\<lparr>rs_observed := False\<rparr>) scope"

section \<open>The sticky ledger error\<close>

datatype ledger_op = LCharge nat u64 | LFinish | LRequire | LObserve bool u64 | LNested

fun ledger_run :: "ledger \<Rightarrow> ledger_op \<Rightarrow> ledger" where
  "ledger_run l (LCharge k n) = charge_ledger k n l"
| "ledger_run l LFinish = finish_ledger l"
| "ledger_run l LRequire = require_search l"
| "ledger_run l (LObserve c n) = observe_search c n l"
| "ledger_run l LNested = latch ErrScope l"

lemmas ledger_defs = charge_ledger_def finish_ledger_def require_search_def observe_search_def latch_def Let_def

interpretation ledger_latch: sticky_latch ld_err ledger_run
proof
  fix l :: ledger and e op
  assume "ld_err l = Some e"
  then show "ld_err (ledger_run l op) = Some e" by (cases op) (auto simp: ledger_defs)
qed

section \<open>Exact counting\<close>

definition fresh_ledger :: "counts \<Rightarrow> ledger" where
  "fresh_ledger limits = \<lparr>ld_counts = zero_counts, ld_limits = limits, ld_closed = False, ld_err = None,
     ld_search_required = False, ld_search = None\<rparr>"

lemma Start_fresh:
  "Start n p limits = (Inr l, p') \<Longrightarrow> l = fresh_ledger limits \<and> (\<forall>k v. counter k limits = Some v \<longrightarrow> v \<noteq> - 1)"
  by (auto simp: Start_def fresh_ledger_def counter_def split: if_splits option.splits)

fun charged :: "nat \<Rightarrow> ledger_op list \<Rightarrow> nat" where
  "charged k [] = 0"
| "charged k (LCharge k' n # ops) = (if k' = k then unat n else 0) + charged k ops"
| "charged k (_ # ops) = charged k ops"

lemma charged_snoc: "charged k (ops @ [op]) = charged k ops + charged k [op]"
  by (induction k ops rule: charged.induct) auto

lemma counter_set [simp]:
  "counter j (set_counter k v c) = (if j = k \<and> k < 4 then Some v else counter j c)"
  by (auto simp: counter_def set_counter_def)

lemma counter_None_iff: "counter k c = None \<longleftrightarrow> \<not> k < 4"
  by (auto simp: counter_def)

lemma counter_zero: "counter k zero_counts = Some v \<Longrightarrow> v = 0"
  by (auto simp: counter_def zero_counts_def split: if_splits)

lemma u64_charge_fits:
  fixes v n limit :: u64
  assumes "n \<le> limit - v" "v \<le> limit"
  shows "unat (v + n) = unat v + unat n" "unat v + unat n \<le> unat limit"
proof -
  have "unat n \<le> unat limit - unat v" "unat v \<le> unat limit"
    using assms by (simp_all add: word_le_nat_alt unat_sub)
  then show s: "unat v + unat n \<le> unat limit" by simp
  have "unat limit < 2 ^ 64" using unsigned_less [of limit] by simp
  with s show "unat (v + n) = unat v + unat n" by (simp add: unat_plus_if')
qed

lemma ledger_run_limits: "ld_limits (ledger_run l op) = ld_limits l"
  by (cases op) (auto simp: ledger_defs split: option.splits)

lemma foldl_limits: "ld_limits (foldl ledger_run l ops) = ld_limits l"
  by (induction ops arbitrary: l) (simp_all add: ledger_run_limits)

text \<open>One step of an error-free ledger adds exactly what the operation charges, within the
  limit.\<close>

lemma ledger_run_clean:
  assumes "ld_err (ledger_run l op) = None" "counter k (ld_counts l) = Some v"
    and "counter k (ld_limits l) = Some limit" "v \<le> limit"
  shows "\<exists>v'. counter k (ld_counts (ledger_run l op)) = Some v' \<and>
    unat v' = unat v + charged k [op] \<and> v' \<le> limit"
proof (cases op)
  case (LCharge j n)
  have c: "ld_err l = None" "\<not> ld_closed l" "n \<noteq> 0"
    using assms(1) LCharge by (auto simp: charge_ledger_def split: if_splits option.splits)
  obtain w lim where w: "counter j (ld_counts l) = Some w" "counter j (ld_limits l) = Some lim"
    using assms(1) LCharge c by (auto simp: charge_ledger_def split: if_splits option.splits)
  then have j: "j < 4" by (metis counter_None_iff option.distinct(1))
  have fits: "n \<le> lim - w"
    using assms(1) LCharge c w by (auto simp: charge_ledger_def not_less split: if_splits)
  have run: "charge_ledger j n l = l\<lparr>ld_counts := set_counter j (w + n) (ld_counts l)\<rparr>"
    using c w fits by (simp add: charge_ledger_def not_less)
  show ?thesis
  proof (cases "j = k")
    case True
    with w assms have "w = v" "lim = limit" by simp_all
    with u64_charge_fits [of n limit v] fits assms(4) True j show ?thesis
      by (auto simp: run [unfolded True] LCharge word_le_nat_alt)
  next
    case False
    with assms show ?thesis by (auto simp: run LCharge)
  qed
qed (use assms in \<open>auto simp: ledger_defs split: if_splits\<close>)

lemma ledger_exact:
  assumes "ld_err (foldl ledger_run (fresh_ledger limits) ops) = None" "counter k limits = Some limit"
  shows "\<exists>v. counter k (ld_counts (foldl ledger_run (fresh_ledger limits) ops)) = Some v \<and>
    unat v = charged k ops \<and> v \<le> limit"
  using assms(1)
proof (induction ops rule: rev_induct)
  case Nil
  have "k < 4" using assms(2) by (metis counter_None_iff option.distinct(1))
  then obtain v where "counter k zero_counts = Some v" by (metis counter_None_iff not_None_eq)
  with counter_zero [OF this] show ?case by (simp add: fresh_ledger_def)
next
  case (snoc op ops)
  let ?l = "foldl ledger_run (fresh_ledger limits) ops"
  have "ld_err ?l = None" using snoc.prems by (rule ledger_latch.clean_prefix)
  then obtain v where v: "counter k (ld_counts ?l) = Some v" "unat v = charged k ops" "v \<le> limit"
    using snoc.IH by blast
  have "counter k (ld_limits ?l) = Some limit" using assms(2) by (simp add: foldl_limits fresh_ledger_def)
  from ledger_run_clean [of ?l op, OF _ v(1) this v(3)] snoc.prems v(2)
  show ?case by (simp add: charged_snoc)
qed

text \<open>C17. A ledger certifies exact totals: whatever sequence of charges, search observations,
  nested starts and finishes runs under a started scope, if \<open>Finish\<close> reports no error then every
  counter is the sum of all charges of its kind, as natural numbers without wrap-around, and is
  within its limit; and once any of them failed, every later \<open>Finish\<close> reports that first error.\<close>

theorem ledger_finish_exact:
  assumes "Start False None limits = (Inr l0, None)"
  shows "case Finish (Some (foldl ledger_run l0 ops)) of ((c, err), _) \<Rightarrow>
    if err = None
    then \<forall>k < 4. \<exists>v limit. counter k c = Some v \<and> counter k limits = Some limit \<and>
           unat v = charged k ops \<and> unat v \<le> unat limit
    else \<forall>more. snd (fst (Finish (Some (foldl ledger_run (finish_ledger (foldl ledger_run l0 ops)) more)))) = err"
proof -
  let ?l = "foldl ledger_run l0 ops"
  have l0: "l0 = fresh_ledger limits" using Start_fresh [OF assms] by simp
  have fin: "finish_ledger ?l = foldl ledger_run l0 (ops @ [LFinish])" by simp
  have F: "Finish (Some ?l) = ((ld_counts (finish_ledger ?l), ld_err (finish_ledger ?l)), Some (finish_ledger ?l))"
    by (simp add: Finish_def Let_def)
  show ?thesis
  proof (cases "ld_err (finish_ledger ?l)")
    case None
    have "\<exists>v limit. counter k (ld_counts (finish_ledger ?l)) = Some v \<and> counter k limits = Some limit \<and>
           unat v = charged k ops \<and> unat v \<le> unat limit" if k: "k < 4" for k
    proof -
      obtain limit where lim: "counter k limits = Some limit" using k by (metis counter_None_iff not_None_eq)
      have "ld_err (foldl ledger_run (fresh_ledger limits) (ops @ [LFinish])) = None"
        using None fin l0 by simp
      from ledger_exact [OF this lim] lim show ?thesis
        unfolding fin l0 by (auto simp: charged_snoc word_le_nat_alt)
    qed
    with None F show ?thesis by simp
  next
    case (Some e)
    have "ld_err (finish_ledger (foldl ledger_run (finish_ledger ?l) more)) = Some e" for more
      using ledger_latch.latched_forever [OF Some, of "more @ [LFinish]"] by simp
    with Some F show ?thesis by (simp add: Finish_def Let_def)
  qed
qed

theorem ledger_finish_exact_witness:
  "\<exists>v. counter 2 (fst (fst (Finish (Some (foldl ledger_run
      (fresh_ledger \<lparr>ControlFileReads = 1, StoreReadAttempts = 1, MemberVisits = 9, StoreWriteAttempts = 0\<rparr>)
      [LCharge 2 4, LCharge 0 1, LCharge 2 5]))))) = Some v \<and> unat v = 9"
proof -
  let ?lim = "\<lparr>ControlFileReads = 1, StoreReadAttempts = 1, MemberVisits = 9, StoreWriteAttempts = 0\<rparr> :: counts"
  let ?ops = "[LCharge 2 4, LCharge 0 1, LCharge 2 5]"
  have s: "Start False None ?lim = (Inr (fresh_ledger ?lim), None)"
    by (simp add: Start_def fresh_ledger_def)
  have e: "snd (fst (Finish (Some (foldl ledger_run (fresh_ledger ?lim) ?ops)))) = None" by code_simp
  have "charged 2 ?ops = 9" by simp
  with ledger_finish_exact [OF s, of ?ops] e show ?thesis
    by (auto simp: split_def dest!: spec [of _ 2])
qed

section \<open>Observers fail closed\<close>

lemma phase_answer_ok:
  "phase_answer same later cb = (p, None) \<longleftrightarrow>
     cb = CbReturn (p, None) \<and> 1 \<le> p \<and> p \<le> 15 \<and> same p \<and> \<not> later"
  by (auto simp: phase_answer_def ctx_result_def split: callback.splits option.splits if_splits)

lemma plain_answer_ok: "plain_answer later cb = None \<longleftrightarrow> cb = CbReturn None \<and> \<not> later"
  by (auto simp: plain_answer_def ctx_result_def split: callback.splits option.splits)

text \<open>The phase observers fail closed: a call reports success only if the scope is unbound and
  not required, or the bound observer really returned a phase from 1 through 15 without error or
  panic, the same phase the event was tied to unless the event opens it, and the context was still
  live afterwards.\<close>

theorem phase_observers_fail_closed:
  assumes "ObserveCache oc c later required event phase = (p, None) \<or>
           ObserveCatalogCensus occ c later required event phase records = (p, None) \<and> oc = map_option (\<lambda>f e q. f e q records) occ \<or>
           ObserveSourceCensus osc c later required event phase logical unique = (p, None) \<and> oc = map_option (\<lambda>f e q. f e q logical unique) osc"
  shows "oc = None \<and> \<not> required \<and> p = 0 \<or>
    (\<exists>f. oc = Some f \<and> f event phase = CbReturn (p, None) \<and> 1 \<le> p \<and> p \<le> 15 \<and> \<not> later \<and> (phase \<noteq> 0 \<longrightarrow> p = phase))"
  using assms
proof (elim disjE conjE)
  assume "ObserveCache oc c later required event phase = (p, None)"
  then show ?thesis
    by (cases oc) (auto simp: ObserveCache_def unbound_def phase_answer_ok split: if_splits)
next
  assume "ObserveCatalogCensus occ c later required event phase records = (p, None)"
    "oc = map_option (\<lambda>f e q. f e q records) occ"
  then show ?thesis
    by (cases occ) (auto simp: ObserveCatalogCensus_def unbound_def phase_answer_ok split: if_splits)
next
  assume "ObserveSourceCensus osc c later required event phase logical unique = (p, None)"
    "oc = map_option (\<lambda>f e q. f e q logical unique) osc"
  then show ?thesis
    by (cases osc) (auto simp: ObserveSourceCensus_def unbound_def phase_answer_ok split: if_splits)
qed

theorem phase_observers_fail_closed_witness:
  "(\<exists>f. Some (\<lambda>_ _. CbReturn (3, None)) = Some f \<and> f CHR ''m'' 3 = CbReturn (3::nat, None :: raerr option))"
proof -
  have "ObserveCache (Some (\<lambda>_ _. CbReturn (3, None))) (Ctx True None) False True CHR ''m'' 3 = (3, None)"
    by (simp add: ObserveCache_def cache_validation_def phase_answer_def ctx_result_def)
  from phase_observers_fail_closed [OF disjI1, OF this] show ?thesis by auto
qed

end
