(* ===== verification/Go_Json.thy ===== *)
theory Go_Json
  imports Go_Strings
begin

text \<open>
  What the components use of \<open>encoding/json\<close>: the tokens of its decoder, on byte strings. White space,
  string literals with their escapes (surrogate pairs joined, broken encodings replaced by U+FFFD), integer
  literals as they are stored into an \<open>int64\<close>, and the folding by which a key is matched with a field.
  With them the part of the encoder the components rely on: plain ASCII texts and decimal numbers are
  read back as they were written.
\<close>

section \<open>Tokens\<close>

definition json_space :: "char \<Rightarrow> bool" where
  "json_space c \<longleftrightarrow> c \<in> {CHR 0x20, CHR 0x09, CHR 0x0A, CHR 0x0D}"

definition skip_space :: "gostring \<Rightarrow> gostring" where
  "skip_space = dropWhile json_space"

definition expect :: "char \<Rightarrow> gostring \<Rightarrow> gostring option" where
  "expect c s = (case skip_space s of [] \<Rightarrow> None | x # t \<Rightarrow> if x = c then Some t else None)"

text \<open>\<open>utf8.AppendRune\<close>.\<close>

abbreviation rune_error :: gostring where
  "rune_error \<equiv> [CHR 0xEF, CHR 0xBF, CHR 0xBD]"

definition encode_rune :: "nat \<Rightarrow> gostring" where
  "encode_rune r =
     (if r < 0x80 then [char_of r]
      else if r < 0x800 then [char_of (0xC0 + r div 64), char_of (0x80 + r mod 64)]
      else if 0xD800 \<le> r \<and> r \<le> 0xDFFF \<or> 0x10FFFF < r then rune_error
      else if r < 0x10000 then [char_of (0xE0 + r div 4096), char_of (0x80 + r div 64 mod 64), char_of (0x80 + r mod 64)]
      else [char_of (0xF0 + r div 262144), char_of (0x80 + r div 4096 mod 64), char_of (0x80 + r div 64 mod 64),
            char_of (0x80 + r mod 64)])"

definition hex_digit :: "char \<Rightarrow> nat option" where
  "hex_digit c =
     (if 48 \<le> byte c \<and> byte c \<le> 57 then Some (byte c - 48)
      else if 97 \<le> byte c \<and> byte c \<le> 102 then Some (byte c - 87)
      else if 65 \<le> byte c \<and> byte c \<le> 70 then Some (byte c - 55) else None)"

text \<open>The four digits after \<open>\u\<close>.\<close>

definition hex4 :: "gostring \<Rightarrow> nat option" where
  "hex4 s =
     (case map hex_digit (take 4 s) of
        [Some a, Some b, Some c, Some d] \<Rightarrow> Some (((a * 16 + b) * 16 + c) * 16 + d)
      | _ \<Rightarrow> None)"

text \<open>The rune of a surrogate pair, when a low surrogate follows the high one.\<close>

definition surrogate_pair :: "nat \<Rightarrow> gostring \<Rightarrow> nat option" where
  "surrogate_pair r s =
     (if take 2 s = [CHR 0x5C, CHR ''u''] \<and> r < 0xDC00
      then (case hex4 (drop 2 s) of
              None \<Rightarrow> None
            | Some x \<Rightarrow> if 0xDC00 \<le> x \<and> x < 0xE000 then Some ((r - 0xD800) * 1024 + (x - 0xDC00) + 0x10000) else None)
      else None)"

definition simple_escape :: "char \<Rightarrow> char option" where
  "simple_escape c =
     (if c \<in> {CHR 0x22, CHR 0x5C, CHR ''/''} then Some c
      else if c = CHR ''b'' then Some (CHR 0x08) else if c = CHR ''f'' then Some (CHR 0x0C)
      else if c = CHR ''n'' then Some (CHR 0x0A) else if c = CHR ''r'' then Some (CHR 0x0D)
      else if c = CHR ''t'' then Some (CHR 0x09) else None)"

abbreviation literal_cons :: "gostring \<Rightarrow> (gostring \<times> gostring) option \<Rightarrow> (gostring \<times> gostring) option" where
  "literal_cons p \<equiv> map_option (\<lambda>(v, rest). (p @ v, rest))"

text \<open>The value of a string literal after its opening quote, and what follows its closing one.\<close>

function string_literal :: "gostring \<Rightarrow> (gostring \<times> gostring) option" where
  "string_literal s =
     (case s of
        [] \<Rightarrow> None
      | c # cs \<Rightarrow>
          if c = CHR 0x22 then Some ([], cs)
          else if c = CHR 0x5C then
            (case cs of
               [] \<Rightarrow> None
             | x # rest \<Rightarrow>
                 (case simple_escape x of
                    Some b \<Rightarrow> literal_cons [b] (string_literal rest)
                  | None \<Rightarrow>
                      if x \<noteq> CHR ''u'' then None
                      else (case hex4 rest of
                         None \<Rightarrow> None
                       | Some r \<Rightarrow>
                           if 0xD800 \<le> r \<and> r < 0xE000
                           then (case surrogate_pair r (drop 4 rest) of
                                   Some p \<Rightarrow> literal_cons (encode_rune p) (string_literal (drop 10 rest))
                                 | None \<Rightarrow> literal_cons rune_error (string_literal (drop 4 rest)))
                           else literal_cons (encode_rune r) (string_literal (drop 4 rest)))))
          else if byte c < 0x20 then None
          else (case decode_rune s of
                  None \<Rightarrow> literal_cons rune_error (string_literal cs)
                | Some (r, n) \<Rightarrow> literal_cons (take n s) (string_literal (drop n s))))"
  by pat_completeness auto
termination
proof (relation "measure length")
  fix s c cs x r n
  assume "s = c # cs" "decode_rune s = Some x" "(r, n) = x"
  then show "(drop n s, s) \<in> measure length" using decode_rune_width [of s r n] by auto
qed auto

declare string_literal.simps [simp del]

lemma string_literal_shorter: "string_literal s = Some (v, rest) \<Longrightarrow> length rest < length s"
proof (induction s arbitrary: v rest rule: length_induct)
  case (1 s)
  show ?case
  proof (cases s)
    case (Cons c cs)
    define m where "m = length cs"
    have tail: "length rest \<le> m" if "string_literal t = Some (a, rest)" "length t \<le> m" for a t
    proof -
      have "length t < length s" using that(2) Cons by (simp add: m_def)
      then have "length rest < length t" using 1(1) that(1) by blast
      then show ?thesis using that(2) by simp
    qed
    have "length rest \<le> m"
      using 1(2) [unfolded string_literal.simps [of s]] unfolding Cons
      by (auto simp del: decode_rune.simps split: list.splits if_splits option.splits elim!: tail)
        (auto simp del: decode_rune.simps simp: m_def dest!: decode_rune_width)
    then show ?thesis by (simp add: Cons m_def)
  qed (use 1 in \<open>simp add: string_literal.simps\<close>)
qed

definition is_digit :: "char \<Rightarrow> bool" where
  "is_digit c \<longleftrightarrow> 48 \<le> byte c \<and> byte c \<le> 57"

definition digits_value :: "gostring \<Rightarrow> nat" where
  "digits_value = foldl (\<lambda>n c. 10 * n + (byte c - 48)) 0"

text \<open>An integer literal that \<open>strconv.ParseInt\<close> stores into an \<open>int64\<close>. A fraction or an exponent is left
  in the rest, where no caller accepts it: the decoder reports a type error for it.\<close>

definition int64_literal :: "gostring \<Rightarrow> (int \<times> gostring) option" where
  "int64_literal s =
     (let neg = (s \<noteq> [] \<and> hd s = CHR ''-'');
          body = (if neg then tl s else s);
          ds = takeWhile is_digit body;
          v = (if neg then - int (digits_value ds) else int (digits_value ds))
      in if ds = [] \<or> hd ds = CHR ''0'' \<and> length ds > 1 \<or> v < - (2 ^ 63) \<or> 2 ^ 63 \<le> v then None
         else Some (v, dropWhile is_digit body))"

text \<open>Keys match a field exactly or under simple folding; two other runes fold to ASCII letters.\<close>

definition fold_rune :: "nat \<Rightarrow> nat" where
  "fold_rune r = (if r = 0x17F then 0x53 else if r = 0x212A then 0x4B else if 97 \<le> r \<and> r \<le> 122 then r - 32 else r)"

definition match_field :: "gostring list \<Rightarrow> gostring \<Rightarrow> gostring option" where
  "match_field names key =
     (if key \<in> set names then Some key
      else find (\<lambda>f. map fold_rune (runes f) = map fold_rune (runes key)) names)"

section \<open>Reading back what was written\<close>

definition plain_char :: "char \<Rightarrow> bool" where
  "plain_char c \<longleftrightarrow> 0x20 \<le> byte c \<and> byte c < 0x80 \<and> c \<noteq> CHR 0x22 \<and> c \<noteq> CHR 0x5C"

lemma plain_literal: "list_all plain_char v \<Longrightarrow> string_literal (v @ CHR 0x22 # rest) = Some (v, rest)"
proof (induction v)
  case Nil
  then show ?case by (simp add: string_literal.simps)
next
  case (Cons c v)
  then have c: "c \<noteq> CHR 0x22" "c \<noteq> CHR 0x5C" "\<not> byte c < 0x20" "byte c < 128" by (simp_all add: plain_char_def)
  show ?case using Cons c by (subst string_literal.simps) simp
qed

lemma expect_plain: "\<not> json_space x \<Longrightarrow> expect c (x # s) = (if x = c then Some s else None)"
  by (simp add: expect_def skip_space_def)

lemma skip_plain: "\<not> json_space x \<Longrightarrow> skip_space (x # s) = x # s"
  by (simp add: skip_space_def)

lemma expect_shorter: "expect c s = Some t \<Longrightarrow> length t < length s"
  using length_dropWhile_le [of json_space s] by (auto simp: expect_def skip_space_def split: list.splits if_splits)

lemma skip_space_le: "length (skip_space s) \<le> length s"
  by (simp add: skip_space_def length_dropWhile_le)

lemma digit_char: "n < 10 \<Longrightarrow> is_digit (char_of (48 + n)) \<and> byte (char_of (48 + n)) - 48 = n"
  by (simp add: is_digit_def)

lemma decimal_digits: "list_all is_digit (decimal_nat n) \<and> decimal_nat n \<noteq> [] \<and> digits_value (decimal_nat n) = n"
proof (induction n rule: less_induct)
  case (less n)
  show ?case
  proof (cases "n < 10")
    case True
    then show ?thesis using digit_char [of n] by (simp add: decimal_nat.simps [of n] digits_value_def)
  next
    case False
    then have "n div 10 < n" by simp
    from less.IH [OF this] show ?thesis
      using False digit_char [of "n mod 10"] by (simp add: decimal_nat.simps [of n] digits_value_def)
  qed
qed

lemma decimal_lead: "0 < n \<Longrightarrow> hd (decimal_nat n) \<noteq> CHR ''0''"
proof (induction n rule: less_induct)
  case (less n)
  show ?case
  proof (cases "n < 10")
    case True
    then have "byte (char_of (48 + n)) \<noteq> byte (CHR ''0'')" using less.prems by simp
    then have "char_of (48 + n) \<noteq> CHR ''0''" by metis
    then show ?thesis using True by (simp add: decimal_nat.simps [of n])
  next
    case False
    then show ?thesis using less.IH [of "n div 10"] decimal_digits [of "n div 10"] by (simp add: decimal_nat.simps [of n] hd_append)
  qed
qed

lemma decimal_short: "hd (decimal_nat n) = CHR ''0'' \<Longrightarrow> length (decimal_nat n) = 1"
  using decimal_lead [of n] by (cases "n = 0") (simp_all add: decimal_nat.simps)

lemma span_digits: "list_all is_digit ds \<Longrightarrow> \<not> is_digit c \<Longrightarrow> takeWhile is_digit (ds @ c # rest) = ds \<and> dropWhile is_digit (ds @ c # rest) = c # rest"
  by (induction ds) simp_all

lemma decimal_literal:
  assumes "- (2 ^ 63) \<le> i" "i < 2 ^ 63" and "\<not> is_digit c"
  shows "int64_literal (decimal i @ c # rest) = Some (i, c # rest)"
proof (cases "i < 0")
  case True
  let ?n = "nat (- i)"
  note d = decimal_digits [of ?n] decimal_short [of ?n] span_digits [of "decimal_nat ?n" c rest]
  show ?thesis using True assms d by (auto simp: int64_literal_def decimal_def Let_def)
next
  case False
  let ?n = "nat i"
  note d = decimal_digits [of ?n] decimal_short [of ?n] span_digits [of "decimal_nat ?n" c rest]
  have "hd (decimal_nat ?n @ c # rest) \<noteq> CHR ''-''"
    using decimal_digits [of ?n] by (cases "decimal_nat ?n") (auto simp: is_digit_def)
  then show ?thesis using False assms d by (auto simp: int64_literal_def decimal_def Let_def)
qed

lemma int64_literal_bounds: "int64_literal s = Some (v, rest) \<Longrightarrow> - (2 ^ 63) \<le> v \<and> v < 2 ^ 63 \<and> length rest \<le> length s"
proof -
  assume a: "int64_literal s = Some (v, rest)"
  have "length (dropWhile is_digit (tl s)) \<le> length s" "length (dropWhile is_digit s) \<le> length s"
    using length_dropWhile_le [of is_digit "tl s"] length_dropWhile_le [of is_digit s] by simp_all
  then show ?thesis using a by (auto simp: int64_literal_def Let_def split: if_splits)
qed

end
