(* ===== verification/Pipeline_Refusal.thy ===== *)
theory Pipeline_Refusal
  imports Go_Errors Go_Json
begin

text \<open>
  The closed refusal envelope of \<open>internal/pipelinerefusal/refusal.go\<close>: its vocabulary of stages,
  generation kinds, classifications and dimensions, the validator with its two tables, the sealing
  constructors, and the canonical durable text with the strict decoder that reads it back. \<open>Error\<close>,
  \<open>Measurement\<close> and \<open>invalidMeasurement\<close> are the payloads of typed error nodes.
\<close>

section \<open>Vocabulary\<close>

abbreviation "StageUnknown \<equiv> ''unknown''"
abbreviation "StageSourcePartitionPlanning \<equiv> ''source_partition_planning''"
abbreviation "StageObservationPublication \<equiv> ''observation_publication''"
abbreviation "StageCandidateStrictOpen \<equiv> ''candidate_strict_open''"
abbreviation "StageDomainInventory \<equiv> ''domain_inventory''"
abbreviation "StageExtractorExecution \<equiv> ''extractor_execution''"
abbreviation "StageEvidenceStaging \<equiv> ''evidence_staging''"
abbreviation "StageFinalPublication \<equiv> ''final_publication''"
abbreviation "StageCallerPairExecution \<equiv> ''caller_pair_execution''"
abbreviation "StageCallerArtifactSeal \<equiv> ''caller_artifact_seal''"
abbreviation "StageCallerArtifactInstall \<equiv> ''caller_artifact_install''"
abbreviation "StageCallerGenerationAdmission \<equiv> ''caller_generation_admission''"
abbreviation "StageRelationshipKafkaProjection \<equiv> ''relationship_kafka_projection''"
abbreviation "StageRelationshipResolverNamespaces \<equiv> ''relationship_resolver_namespaces''"
abbreviation "StageRelationshipRPCPostings \<equiv> ''relationship_rpc_postings''"
abbreviation "GenerationUnknown \<equiv> ''unknown''"
abbreviation "GenerationSourcePartition \<equiv> ''source_partition''"
abbreviation "GenerationObservation \<equiv> ''observation''"
abbreviation "GenerationCandidate \<equiv> ''candidate''"
abbreviation "GenerationExtractionDomain \<equiv> ''extraction_domain''"
abbreviation "GenerationCaller \<equiv> ''caller''"
abbreviation "GenerationRelationship \<equiv> ''relationship''"
abbreviation "ClassificationLimit \<equiv> ''limit''"
abbreviation "ClassificationInvalid \<equiv> ''invalid''"
abbreviation "ClassificationUnknown \<equiv> ''unknown''"
abbreviation "DimensionUnknown \<equiv> ''unknown''"
abbreviation "DimensionBlobBytes \<equiv> ''blob_bytes''"
abbreviation "DimensionBlobPlacements \<equiv> ''blob_placements''"
abbreviation "DimensionPartitionCount \<equiv> ''partition_count''"
abbreviation "DimensionAggregateSegments \<equiv> ''aggregate_segments''"
abbreviation "DimensionObservationMemberBytes \<equiv> ''observation_member_bytes''"
abbreviation "DimensionGenerationBlobBytes \<equiv> ''generation_blob_bytes''"
abbreviation "DimensionGenerationEncodedBytes \<equiv> ''generation_encoded_bytes''"
abbreviation "DimensionGenerationArtifactBytes \<equiv> ''generation_artifact_bytes''"
abbreviation "DimensionGenerationControlBytes \<equiv> ''generation_control_bytes''"
abbreviation "DimensionRepositoryGenerations \<equiv> ''repository_generations''"
abbreviation "DimensionRepositoryEntries \<equiv> ''repository_entries''"
abbreviation "DimensionGenerationEntries \<equiv> ''generation_entries''"
abbreviation "DimensionPlanningSpoolBytes \<equiv> ''planning_spool_bytes''"
abbreviation "DimensionBatchHeaderBytes \<equiv> ''batch_header_bytes''"
abbreviation "DimensionBatchOutputBytes \<equiv> ''batch_output_bytes''"
abbreviation "DimensionGenerationRecords \<equiv> ''generation_records''"
abbreviation "DimensionInventoryFiles \<equiv> ''inventory_files''"
abbreviation "DimensionInventoryPathBytes \<equiv> ''inventory_path_bytes''"
abbreviation "DimensionSymlinkDepth \<equiv> ''symlink_depth''"
abbreviation "DimensionLookupRecords \<equiv> ''lookup_records''"
abbreviation "DimensionLookupPathBytes \<equiv> ''lookup_path_bytes''"
abbreviation "DimensionTreeRecordBytes \<equiv> ''tree_record_bytes''"
abbreviation "DimensionSourceBlobBytes \<equiv> ''source_blob_bytes''"
abbreviation "DimensionSourceReadAttempts \<equiv> ''source_read_attempts''"
abbreviation "DimensionSourceReadBytes \<equiv> ''source_read_bytes''"
abbreviation "DimensionSourceReadFiles \<equiv> ''source_read_files''"
abbreviation "DimensionFacts \<equiv> ''facts''"
abbreviation "DimensionStagedRows \<equiv> ''staged_rows''"
abbreviation "DimensionDomainResultFacts \<equiv> ''domain_result_facts''"
abbreviation "DimensionDomainResultRows \<equiv> ''domain_result_rows''"
abbreviation "DimensionDomainResultReferences \<equiv> ''domain_result_references''"
abbreviation "DimensionDomainCanonicalBytes \<equiv> ''domain_result_canonical_bytes''"
abbreviation "DimensionDomainEncodedBytes \<equiv> ''domain_result_encoded_bytes''"
abbreviation "DimensionCandidateMemberBytes \<equiv> ''candidate_member_bytes''"
abbreviation "DimensionCandidateMembers \<equiv> ''candidate_members''"
abbreviation "DimensionCallerPairResults \<equiv> ''caller_pair_results''"
abbreviation "DimensionCallerPairAbstentions \<equiv> ''caller_pair_abstentions''"
abbreviation "DimensionCallerRecordBytes \<equiv> ''caller_record_bytes''"
abbreviation "DimensionCallerPairCanonicalBytes \<equiv> ''caller_pair_canonical_bytes''"
abbreviation "DimensionCallerPairStagingBytes \<equiv> ''caller_pair_staging_bytes''"
abbreviation "DimensionCallerPairSourceBytes \<equiv> ''caller_pair_source_bytes''"
abbreviation "DimensionCallerGenerationPairs \<equiv> ''caller_generation_pairs''"
abbreviation "DimensionCallerGenerationArtifacts \<equiv> ''caller_generation_artifacts''"
abbreviation "DimensionCallerGenerationResults \<equiv> ''caller_generation_results''"
abbreviation "DimensionCallerGenerationAbstentions \<equiv> ''caller_generation_abstentions''"
abbreviation "DimensionCallerGenerationCanonicalBytes \<equiv> ''caller_generation_canonical_bytes''"
abbreviation "DimensionCallerGenerationStagingBytes \<equiv> ''caller_generation_staging_bytes''"
abbreviation "DimensionResidentBytes \<equiv> ''resident_bytes''"

abbreviation "RefusalSchema \<equiv> ''phebs-pipeline-refusal-v1''"

definition validStage :: "gostring \<Rightarrow> bool" where
  "validStage stage \<longleftrightarrow> list_ex (\<lambda>x. stage = x)
    [StageUnknown, StageSourcePartitionPlanning, StageObservationPublication,
     StageCandidateStrictOpen, StageDomainInventory, StageExtractorExecution,
     StageEvidenceStaging, StageFinalPublication, StageCallerPairExecution,
     StageCallerArtifactSeal, StageCallerArtifactInstall, StageCallerGenerationAdmission,
     StageRelationshipKafkaProjection, StageRelationshipResolverNamespaces,
     StageRelationshipRPCPostings]"

definition validGeneration :: "gostring \<Rightarrow> bool" where
  "validGeneration generation \<longleftrightarrow> list_ex (\<lambda>x. generation = x)
    [GenerationUnknown, GenerationSourcePartition, GenerationObservation, GenerationCandidate,
     GenerationExtractionDomain, GenerationCaller, GenerationRelationship]"

definition validClassification :: "gostring \<Rightarrow> bool" where
  "validClassification classification \<longleftrightarrow> list_ex (\<lambda>x. classification = x)
    [ClassificationLimit, ClassificationInvalid, ClassificationUnknown]"

definition validDimension :: "gostring \<Rightarrow> bool" where
  "validDimension dimension \<longleftrightarrow> list_ex (\<lambda>x. dimension = x)
    [DimensionUnknown, DimensionBlobBytes, DimensionBlobPlacements, DimensionPartitionCount,
     DimensionAggregateSegments, DimensionObservationMemberBytes, DimensionGenerationBlobBytes,
     DimensionGenerationEncodedBytes, DimensionGenerationArtifactBytes,
     DimensionGenerationControlBytes, DimensionRepositoryGenerations, DimensionRepositoryEntries,
     DimensionGenerationEntries, DimensionPlanningSpoolBytes, DimensionBatchHeaderBytes,
     DimensionBatchOutputBytes, DimensionGenerationRecords, DimensionInventoryFiles,
     DimensionInventoryPathBytes, DimensionSymlinkDepth, DimensionLookupRecords,
     DimensionLookupPathBytes, DimensionTreeRecordBytes, DimensionSourceBlobBytes,
     DimensionSourceReadAttempts, DimensionSourceReadBytes, DimensionSourceReadFiles,
     DimensionFacts, DimensionStagedRows, DimensionDomainResultFacts, DimensionDomainResultRows,
     DimensionDomainResultReferences, DimensionDomainCanonicalBytes, DimensionDomainEncodedBytes,
     DimensionCandidateMemberBytes, DimensionCandidateMembers, DimensionCallerPairResults,
     DimensionCallerPairAbstentions, DimensionCallerRecordBytes,
     DimensionCallerPairCanonicalBytes, DimensionCallerPairStagingBytes,
     DimensionCallerPairSourceBytes, DimensionCallerGenerationPairs,
     DimensionCallerGenerationArtifacts, DimensionCallerGenerationResults,
     DimensionCallerGenerationAbstentions, DimensionCallerGenerationCanonicalBytes,
     DimensionCallerGenerationStagingBytes, DimensionResidentBytes]"

definition validStageGeneration :: "gostring \<Rightarrow> gostring \<Rightarrow> bool" where
  "validStageGeneration stage generation \<longleftrightarrow>
    (if stage = StageUnknown then generation = GenerationUnknown
     else if stage = StageSourcePartitionPlanning then generation = GenerationSourcePartition
     else if stage = StageObservationPublication then generation = GenerationObservation
     else if stage = StageCandidateStrictOpen then generation = GenerationCandidate
     else if stage \<in> set
       [StageDomainInventory, StageExtractorExecution, StageEvidenceStaging, StageFinalPublication] then generation = GenerationExtractionDomain
     else if stage \<in> set
       [StageCallerPairExecution, StageCallerArtifactSeal, StageCallerArtifactInstall,
        StageCallerGenerationAdmission] then generation = GenerationCaller
     else if stage \<in> set
       [StageRelationshipKafkaProjection, StageRelationshipResolverNamespaces,
        StageRelationshipRPCPostings] then generation = GenerationRelationship
     else False)"

definition validStageDimension :: "gostring \<Rightarrow> gostring \<Rightarrow> bool" where
  "validStageDimension stage dimension \<longleftrightarrow>
    (if stage = StageSourcePartitionPlanning then dimension \<in> set
       [DimensionBlobBytes, DimensionBlobPlacements, DimensionPartitionCount,
        DimensionAggregateSegments, DimensionGenerationBlobBytes,
        DimensionGenerationEncodedBytes, DimensionGenerationControlBytes,
        DimensionPlanningSpoolBytes]
     else if stage = StageObservationPublication then dimension \<in> set
       [DimensionObservationMemberBytes, DimensionGenerationEncodedBytes,
        DimensionGenerationArtifactBytes, DimensionGenerationControlBytes,
        DimensionRepositoryGenerations, DimensionRepositoryEntries, DimensionGenerationEntries,
        DimensionBatchHeaderBytes, DimensionBatchOutputBytes, DimensionGenerationRecords]
     else if stage = StageDomainInventory then dimension \<in> set
       [DimensionInventoryFiles, DimensionInventoryPathBytes, DimensionSymlinkDepth,
        DimensionLookupRecords, DimensionLookupPathBytes, DimensionTreeRecordBytes,
        DimensionSourceBlobBytes, DimensionDomainResultFacts, DimensionDomainResultRows,
        DimensionDomainResultReferences, DimensionDomainCanonicalBytes,
        DimensionDomainEncodedBytes, DimensionCandidateMemberBytes, DimensionCandidateMembers]
     else if stage = StageExtractorExecution then dimension \<in> set
       [DimensionLookupRecords, DimensionLookupPathBytes, DimensionTreeRecordBytes,
        DimensionSourceBlobBytes, DimensionSourceReadAttempts, DimensionSourceReadBytes,
        DimensionSourceReadFiles]
     else if stage = StageEvidenceStaging then dimension \<in> set
       [DimensionFacts, DimensionStagedRows, DimensionGenerationEncodedBytes]
     else if stage = StageCallerPairExecution then dimension \<in> set
       [DimensionCallerPairResults, DimensionCallerPairAbstentions, DimensionCallerRecordBytes,
        DimensionCallerPairCanonicalBytes, DimensionCallerPairSourceBytes]
     else if stage = StageCallerArtifactSeal then dimension \<in> set
       [DimensionCallerPairStagingBytes]
     else if stage = StageCallerArtifactInstall then dimension \<in> set
       [DimensionCallerPairCanonicalBytes, DimensionCallerPairStagingBytes]
     else if stage = StageCallerGenerationAdmission then dimension \<in> set
       [DimensionCallerGenerationPairs, DimensionCallerGenerationArtifacts,
        DimensionCallerGenerationResults, DimensionCallerGenerationAbstentions,
        DimensionCallerGenerationCanonicalBytes, DimensionCallerGenerationStagingBytes]
     else if stage \<in> set
       [StageRelationshipKafkaProjection, StageRelationshipResolverNamespaces,
        StageRelationshipRPCPostings] then dimension \<in> set
       [DimensionResidentBytes]
     else False)"

section \<open>Receipts and errors\<close>

record receipt =
  rc_schema :: gostring
  rc_stage :: gostring
  rc_generation :: gostring
  rc_classification :: gostring
  rc_dimension :: gostring
  rc_observed :: int
  rc_limit :: int

datatype refusal = Refusal receipt | Measurement gostring int int | InvalidMeasurement

type_synonym perr = "refusal goerr"

abbreviation "ErrInvalid \<equiv> (ErrNew ''invalid pipeline refusal'' :: perr)"

definition Validate :: "receipt \<Rightarrow> perr option" where
  "Validate r =
     (if rc_schema r \<noteq> RefusalSchema \<or> \<not> validStage (rc_stage r) \<or> \<not> validGeneration (rc_generation r) \<or>
         \<not> validStageGeneration (rc_stage r) (rc_generation r) \<or>
         \<not> validClassification (rc_classification r) \<or> \<not> validDimension (rc_dimension r)
      then Some ErrInvalid
      else if (rc_stage r = StageUnknown \<or> rc_generation r = GenerationUnknown) \<and>
              rc_classification r \<noteq> ClassificationUnknown
      then Some (ErrSuffix ErrInvalid '': unknown boundary'')
      else if rc_classification r = ClassificationLimit then
        (if rc_dimension r = DimensionUnknown \<or> rc_observed r < 0 \<or> rc_limit r < 0 \<or>
            rc_observed r \<le> rc_limit r \<or> \<not> validStageDimension (rc_stage r) (rc_dimension r)
         then Some (ErrSuffix ErrInvalid '': limit shape'') else None)
      else if rc_observed r \<noteq> 0 \<or> rc_limit r \<noteq> 0
      then Some (ErrSuffix ErrInvalid '': non-limit scalar'')
      else if rc_dimension r \<noteq> DimensionUnknown
      then Some (ErrSuffix ErrInvalid '': non-limit dimension'')
      else None)"

text \<open>\<open>json.Marshal\<close> of a receipt. Its strings are plain ASCII identifiers, which the encoder
  copies between quotes.\<close>

definition json_string :: "gostring \<Rightarrow> gostring \<Rightarrow> gostring" where
  "json_string key v = CHR 0x22 # key @ [CHR 0x22, CHR '':'', CHR 0x22] @ v @ [CHR 0x22]"

definition json_int :: "gostring \<Rightarrow> int \<Rightarrow> gostring" where
  "json_int key v = CHR 0x22 # key @ [CHR 0x22, CHR '':''] @ decimal v"

definition marshal_receipt :: "receipt \<Rightarrow> gostring" where
  "marshal_receipt r = ''{'' @ Join CHR '','' [json_string ''schema'' (rc_schema r),
     json_string ''stage'' (rc_stage r), json_string ''generation_kind'' (rc_generation r),
     json_string ''classification'' (rc_classification r), json_string ''dimension'' (rc_dimension r),
     json_int ''observed'' (rc_observed r), json_int ''limit'' (rc_limit r)] @ ''}''"

definition DurableErrorText :: "receipt \<Rightarrow> gostring" where
  "DurableErrorText r = ''pipeline refusal: '' @ marshal_receipt r"

definition seal :: "receipt \<Rightarrow> perr \<Rightarrow> perr" where
  "seal r cause = ErrTyped (Refusal r) (DurableErrorText r) (Some cause)"

text \<open>The strict decoder: \<open>json.NewDecoder\<close> with \<open>DisallowUnknownFields\<close>, decoding into a zero \<open>Receipt\<close>. It
  reads one value and leaves what follows. A \<open>null\<close> leaves the field (or the whole receipt) as it is, the
  last of several members with one key wins, and a value of another type or an unknown key is an error.\<close>

definition receipt_fields :: "gostring list" where
  "receipt_fields = [''schema'', ''stage'', ''generation_kind'', ''classification'', ''dimension'', ''observed'', ''limit'']"

definition set_string :: "gostring \<Rightarrow> gostring \<Rightarrow> receipt \<Rightarrow> receipt" where
  "set_string f v r =
     (if f = ''schema'' then r\<lparr>rc_schema := v\<rparr> else if f = ''stage'' then r\<lparr>rc_stage := v\<rparr>
      else if f = ''generation_kind'' then r\<lparr>rc_generation := v\<rparr>
      else if f = ''classification'' then r\<lparr>rc_classification := v\<rparr> else r\<lparr>rc_dimension := v\<rparr>)"

definition set_int :: "gostring \<Rightarrow> int \<Rightarrow> receipt \<Rightarrow> receipt" where
  "set_int f v r = (if f = ''observed'' then r\<lparr>rc_observed := v\<rparr> else r\<lparr>rc_limit := v\<rparr>)"

definition decode_field :: "gostring \<Rightarrow> gostring \<Rightarrow> receipt \<Rightarrow> (receipt \<times> gostring) option" where
  "decode_field key s r =
     (case match_field receipt_fields key of
        None \<Rightarrow> None
      | Some f \<Rightarrow>
          if HasPrefix s ''null'' then Some (r, drop 4 s)
          else if f = ''observed'' \<or> f = ''limit''
          then map_option (\<lambda>(v, rest). (set_int f v r, rest)) (int64_literal s)
          else (case expect (CHR 0x22) s of
                  None \<Rightarrow> None
                | Some t \<Rightarrow> map_option (\<lambda>(v, rest). (set_string f v r, rest)) (string_literal t)))"

lemma decode_field_shorter: "decode_field key s r = Some (r', rest) \<Longrightarrow> length rest \<le> length s"
  by (auto simp: decode_field_def split: option.splits if_splits
      dest!: expect_shorter string_literal_shorter int64_literal_bounds)

function decode_members :: "gostring \<Rightarrow> receipt \<Rightarrow> (receipt \<times> gostring) option" where
  "decode_members s r =
     (case expect (CHR 0x22) s of
        None \<Rightarrow> None
      | Some s1 \<Rightarrow>
          (case string_literal s1 of
             None \<Rightarrow> None
           | Some (key, s2) \<Rightarrow>
               (case expect (CHR '':'') s2 of
                  None \<Rightarrow> None
                | Some s3 \<Rightarrow>
                    (case decode_field key (skip_space s3) r of
                       None \<Rightarrow> None
                     | Some (r', s4) \<Rightarrow>
                         (case expect (CHR '','') s4 of
                            Some s5 \<Rightarrow> decode_members s5 r'
                          | None \<Rightarrow> map_option (\<lambda>rest. (r', rest)) (expect (CHR ''}'') s4))))))"
  by pat_completeness auto
termination
proof (relation "measure (\<lambda>(s, r). length s)")
  fix s r s1 a key s2 s3 b r' s4 s5
  assume "expect (CHR 0x22) s = Some s1" "string_literal s1 = Some a" "(key, s2) = a" "expect (CHR '':'') s2 = Some s3"
    "decode_field key (skip_space s3) r = Some b" "(r', s4) = b" "expect (CHR '','') s4 = Some s5"
  then have "length s1 < length s" "length s2 < length s1" "length s3 < length s2" "length s4 \<le> length (skip_space s3)"
    "length s5 < length s4" using expect_shorter string_literal_shorter decode_field_shorter by blast+
  then show "((s5, r'), s, r) \<in> measure (\<lambda>(s, r). length s)" using skip_space_le [of s3] by simp
qed simp

declare decode_members.simps [simp del]

definition zero_receipt :: receipt where
  "zero_receipt = \<lparr>rc_schema = [], rc_stage = [], rc_generation = [], rc_classification = [], rc_dimension = [], rc_observed = 0, rc_limit = 0\<rparr>"

definition decode_receipt :: "gostring \<Rightarrow> (receipt \<times> gostring) option" where
  "decode_receipt s =
     (if HasPrefix (skip_space s) ''null'' then Some (zero_receipt, drop 4 (skip_space s))
      else case expect (CHR ''{'') s of
        None \<Rightarrow> None
      | Some t \<Rightarrow> (case expect (CHR ''}'') t of
            Some rest \<Rightarrow> Some (zero_receipt, rest) | None \<Rightarrow> decode_members t zero_receipt))"

text \<open>The second \<open>Decode\<close> meets \<open>io.EOF\<close> exactly when only white space is left.\<close>

definition ParseDurableErrorText :: "gostring \<Rightarrow> receipt option" where
  "ParseDurableErrorText v =
     (if \<not> HasPrefix v ''pipeline refusal: '' then None
      else let payload = drop (length ''pipeline refusal: '') v
        in case decode_receipt payload of
             None \<Rightarrow> None
           | Some (r, trailing) \<Rightarrow>
               if skip_space trailing \<noteq> [] \<or> Validate r \<noteq> None then None
               else if payload \<noteq> marshal_receipt r then None else Some r)"

definition validOrDefaultStage :: "gostring \<Rightarrow> gostring" where
  "validOrDefaultStage stage = (if validStage stage then stage else StageUnknown)"

definition validOrDefaultGeneration :: "gostring \<Rightarrow> gostring" where
  "validOrDefaultGeneration generation = (if validGeneration generation then generation else GenerationUnknown)"

definition unknown_receipt :: "gostring \<Rightarrow> gostring \<Rightarrow> receipt" where
  "unknown_receipt stage generation = \<lparr>rc_schema = RefusalSchema, rc_stage = stage, rc_generation = generation,
     rc_classification = ClassificationUnknown, rc_dimension = DimensionUnknown, rc_observed = 0, rc_limit = 0\<rparr>"

definition Wrap :: "perr option \<Rightarrow> receipt \<Rightarrow> perr option" where
  "Wrap cause receipt =
     (case cause of None \<Rightarrow> None
      | Some e \<Rightarrow>
          let r = receipt\<lparr>rc_schema := RefusalSchema\<rparr>
          in if Validate r \<noteq> None then
               let stage = validOrDefaultStage (rc_stage r);
                   generation = validOrDefaultGeneration (rc_generation r);
                   (stage', generation') = (if \<not> validStageGeneration stage generation
                     then (StageUnknown, GenerationUnknown) else (stage, generation))
               in Some (seal (unknown_receipt stage' generation') (the (errors_Join [Some ErrInvalid, Some e])))
             else Some (seal r e))"

definition Limit :: "perr option \<Rightarrow> gostring \<Rightarrow> gostring \<Rightarrow> gostring \<Rightarrow> int \<Rightarrow> int \<Rightarrow> perr option" where
  "Limit cause stage generation dimension observed limit =
     Wrap cause \<lparr>rc_schema = [], rc_stage = stage, rc_generation = generation,
       rc_classification = ClassificationLimit, rc_dimension = dimension, rc_observed = observed, rc_limit = limit\<rparr>"

definition Unknown :: "perr option \<Rightarrow> gostring \<Rightarrow> gostring \<Rightarrow> perr option" where
  "Unknown cause stage generation =
     Wrap cause \<lparr>rc_schema = [], rc_stage = stage, rc_generation = generation,
       rc_classification = ClassificationUnknown, rc_dimension = DimensionUnknown, rc_observed = 0, rc_limit = 0\<rparr>"

definition Classified :: "perr option \<Rightarrow> gostring \<Rightarrow> gostring \<Rightarrow> gostring \<Rightarrow> gostring \<Rightarrow> perr option" where
  "Classified cause stage generation classification dimension =
     Wrap cause \<lparr>rc_schema = [], rc_stage = stage, rc_generation = generation,
       rc_classification = classification, rc_dimension = dimension, rc_observed = 0, rc_limit = 0\<rparr>"

definition measurement_text :: "gostring \<Rightarrow> int \<Rightarrow> int \<Rightarrow> gostring" where
  "measurement_text dimension observed limit = ''pipeline limit: dimension='' @ dimension @ '' observed='' @
     decimal observed @ '' limit='' @ decimal limit"

definition Measure :: "perr option \<Rightarrow> gostring \<Rightarrow> int \<Rightarrow> int \<Rightarrow> perr option" where
  "Measure cause dimension observed limit =
     (case cause of None \<Rightarrow> None
      | Some e \<Rightarrow>
          if \<not> validDimension dimension \<or> dimension = DimensionUnknown \<or> observed < 0 \<or> limit < 0 \<or> observed \<le> limit
          then Some (ErrTyped InvalidMeasurement ''invalid pipeline refusal'' (Some (ErrJoin [ErrInvalid, e])))
          else Some (ErrTyped (Measurement dimension observed limit) (measurement_text dimension observed limit) (Some e)))"

text \<open>\<open>errors.As\<close> for the two exported error types: the first such payload in pre-order.\<close>

fun first_refusal :: "refusal list \<Rightarrow> receipt option" where
  "first_refusal [] = None"
| "first_refusal (Refusal r # ps) = Some r"
| "first_refusal (_ # ps) = first_refusal ps"

fun first_measurement :: "refusal list \<Rightarrow> (gostring \<times> int \<times> int) option" where
  "first_measurement [] = None"
| "first_measurement (Measurement d observed limit # ps) = Some (d, observed, limit)"
| "first_measurement (_ # ps) = first_measurement ps"

definition From :: "perr option \<Rightarrow> receipt option" where
  "From e = (case e of None \<Rightarrow> None | Some x \<Rightarrow> first_refusal (errors_As x))"

definition At :: "perr option \<Rightarrow> gostring \<Rightarrow> gostring \<Rightarrow> perr option" where
  "At cause stage generation =
     (case cause of None \<Rightarrow> None
      | Some e \<Rightarrow>
          (case From cause of
             Some r \<Rightarrow> Wrap cause r
           | None \<Rightarrow>
               (case first_measurement (errors_As e) of
                  Some (d, observed, limit) \<Rightarrow> Limit cause stage generation d observed limit
                | None \<Rightarrow> Unknown cause stage generation)))"

section \<open>Table facts\<close>

lemma unknown_boundary [simp]:
  "validStageGeneration StageUnknown generation \<longleftrightarrow> generation = GenerationUnknown"
  "\<not> validStageDimension StageUnknown dimension"
  by (simp_all add: validStageGeneration_def validStageDimension_def)

lemma unknown_valid [simp]:
  "validDimension DimensionUnknown" "validClassification ClassificationUnknown"
  "validClassification ClassificationLimit"
  by (simp_all add: validDimension_def validClassification_def)

lemma stage_generation_valid:
  assumes "validStageGeneration stage generation"
  shows "validStage stage \<and> validGeneration generation"
  using assms unfolding validStageGeneration_def validStage_def validGeneration_def
  by (auto split: if_splits)

lemma known_generation:
  assumes "validStageGeneration stage generation" and "stage \<noteq> StageUnknown"
  shows "generation \<noteq> GenerationUnknown"
  using assms unfolding validStageGeneration_def by (auto split: if_splits)

section \<open>What the constructors seal\<close>

abbreviation limit_receipt :: "gostring \<Rightarrow> gostring \<Rightarrow> gostring \<Rightarrow> int \<Rightarrow> int \<Rightarrow> receipt" where
  "limit_receipt stage generation dimension observed limit \<equiv>
     \<lparr>rc_schema = RefusalSchema, rc_stage = stage, rc_generation = generation,
      rc_classification = ClassificationLimit, rc_dimension = dimension,
      rc_observed = observed, rc_limit = limit\<rparr>"

lemma unknown_receipt_valid:
  "Validate (unknown_receipt stage generation) = None \<longleftrightarrow> validStageGeneration stage generation"
  using stage_generation_valid [of stage generation]
  by (auto simp: Validate_def unknown_receipt_def)

lemma limit_receipt_valid:
  "Validate (limit_receipt stage generation dimension observed limit) = None \<longleftrightarrow>
     validStageGeneration stage generation \<and> validStageDimension stage dimension \<and>
     validDimension dimension \<and> dimension \<noteq> DimensionUnknown \<and> 0 \<le> limit \<and> limit < observed"
  using stage_generation_valid [of stage generation] known_generation [of stage generation]
  by (cases "stage = StageUnknown") (auto simp: Validate_def)

definition sealed_as :: "perr option \<Rightarrow> receipt \<Rightarrow> perr \<Rightarrow> bool" where
  "sealed_as out r e \<longleftrightarrow> out = Some (seal r e) \<or> out = Some (seal r (ErrJoin [ErrInvalid, e]))"

definition degraded :: "gostring \<Rightarrow> gostring \<Rightarrow> receipt" where
  "degraded stage generation =
     (if validStageGeneration (validOrDefaultStage stage) (validOrDefaultGeneration generation)
      then unknown_receipt (validOrDefaultStage stage) (validOrDefaultGeneration generation)
      else unknown_receipt StageUnknown GenerationUnknown)"

lemma degraded_valid: "Validate (degraded stage generation) = None"
  by (simp add: degraded_def unknown_receipt_valid)

lemma degraded_eq:
  "degraded stage generation =
     (if validStageGeneration stage generation then unknown_receipt stage generation
      else unknown_receipt StageUnknown GenerationUnknown)"
  using stage_generation_valid [of stage generation] known_generation [of stage GenerationUnknown]
  by (auto simp: degraded_def validOrDefaultStage_def validOrDefaultGeneration_def)

lemma Wrap_cases:
  "Wrap (Some e) r =
     (if Validate (r\<lparr>rc_schema := RefusalSchema\<rparr>) = None
      then Some (seal (r\<lparr>rc_schema := RefusalSchema\<rparr>) e)
      else Some (seal (degraded (rc_stage r) (rc_generation r)) (ErrJoin [ErrInvalid, e])))"
  by (auto simp: Wrap_def Let_def degraded_def)

lemma Wrap_sealed: "\<exists>r'. sealed_as (Wrap (Some e) r) r' e \<and> Validate r' = None"
  by (cases "Validate (r\<lparr>rc_schema := RefusalSchema\<rparr>) = None")
    (auto simp: Wrap_cases sealed_as_def intro: degraded_valid)

lemma At_sealed: "\<exists>r. sealed_as (At (Some e) stage generation) r e \<and> Validate r = None"
  by (auto simp: At_def Limit_def Unknown_def Wrap_sealed split: option.split)

lemma sealed_facts:
  assumes "sealed_as out r e"
  obtains x where "out = Some x" and "From out = Some r"
    and "error_text ctx x = DurableErrorText r" and "\<And>target. errors_Is e target \<Longrightarrow> errors_Is x target"
  using assms unfolding sealed_as_def From_def by (elim disjE) (auto simp: seal_def)

lemma sealed_valid_schema: "Validate r = None \<Longrightarrow> rc_schema r = RefusalSchema"
  by (auto simp: Validate_def split: if_splits)

lemma At_keeps_sealed:
  assumes "sealed_as out r e" and "Validate r = None"
  shows "\<exists>x. out = Some x \<and> At out stage generation = Some (seal r x)"
proof -
  obtain x where out: "out = Some x" and "From out = Some r" using sealed_facts [OF assms(1)] by metis
  moreover have "r\<lparr>rc_schema := RefusalSchema\<rparr> = r" using sealed_valid_schema [OF assms(2)] by (cases r) simp
  ultimately show ?thesis using assms(2) by (auto simp: At_def Wrap_cases)
qed

section \<open>Properties\<close>

text \<open>
  C19. \<open>At\<close> closes every error at a job boundary. A nil cause stays nil. For any other cause the
  result is an \<open>Error\<close> whose receipt passes \<open>Validate\<close> -- whatever stage, generation, nested receipt
  or measurement was supplied -- whose whole text is the canonical text of that receipt, so nothing
  of the cause is rendered, and through which \<open>errors.Is\<close> still finds everything it found in the
  cause. Closing it again at any other boundary keeps the receipt: the inner stage stays
  authoritative.
\<close>

theorem refusal_closed:
  "At None stage generation = None \<and>
   (\<exists>r x. At (Some e) stage generation = Some x \<and> Validate r = None \<and> From (Some x) = Some r \<and>
      error_text ctx x = DurableErrorText r \<and>
      (\<forall>target. errors_Is e target \<longrightarrow> errors_Is x target) \<and>
      At (Some x) stage' generation' = Some (seal r x))"
proof -
  obtain r where s: "sealed_as (At (Some e) stage generation) r e" and v: "Validate r = None"
    using At_sealed by blast
  obtain x where x: "At (Some e) stage generation = Some x" "From (At (Some e) stage generation) = Some r"
    "error_text ctx x = DurableErrorText r" "\<And>target. errors_Is e target \<Longrightarrow> errors_Is x target"
    using sealed_facts [OF s, of ctx] by metis
  from At_keeps_sealed [OF s v, of stage' generation'] x(1)
  have "At (Some x) stage' generation' = Some (seal r x)" by auto
  with x v show ?thesis by (auto simp: At_def [of None])
qed

theorem refusal_closed_witness:
  "At None StageDomainInventory GenerationCaller = None \<and>
   (\<exists>r x. At (Some (ErrNew ''/srv/repo: EIO'')) StageDomainInventory GenerationCaller = Some x \<and>
      Validate r = None \<and> From (Some x) = Some r \<and>
      error_text [] x = DurableErrorText r \<and>
      (\<forall>target. errors_Is (ErrNew ''/srv/repo: EIO'') target \<longrightarrow> errors_Is x target) \<and>
      At (Some x) StageUnknown GenerationUnknown = Some (seal r x))"
  by (rule refusal_closed)

text \<open>
  C20. A measured limit is promoted exactly. When the cause below the measurement carries no refusal
  or measurement of its own, the receipt \<open>At\<close> seals around \<open>Measure\<close> has the measured dimension and
  the two scalars precisely when the scalar is a real excess and the stage/generation and
  stage/dimension tables allow it there; an inadmissible measurement becomes an unknown refusal with
  zero scalars at the same stage, and a stage that does not belong to the generation is reported as
  the unknown boundary.
\<close>

theorem measured_limit_exact:
  assumes "errors_As e = []"
  shows "From (At (Measure (Some e) dimension observed limit) stage generation) = Some
    (if validStageGeneration stage generation then
       if validDimension dimension \<and> dimension \<noteq> DimensionUnknown \<and> 0 \<le> limit \<and> limit < observed \<and>
          validStageDimension stage dimension
       then limit_receipt stage generation dimension observed limit
       else unknown_receipt stage generation
     else unknown_receipt StageUnknown GenerationUnknown)"
proof (cases "validDimension dimension \<and> dimension \<noteq> DimensionUnknown \<and> 0 \<le> observed \<and> 0 \<le> limit \<and> limit < observed")
  case True
  then have "Measure (Some e) dimension observed limit = Some (ErrTyped (Measurement dimension observed limit)
      (measurement_text dimension observed limit) (Some e))"
    by (auto simp: Measure_def)
  with True assms show ?thesis
    by (auto simp: At_def From_def Limit_def Wrap_cases limit_receipt_valid seal_def degraded_eq)
next
  case False
  then have "Measure (Some e) dimension observed limit = Some (ErrTyped InvalidMeasurement ''invalid pipeline refusal''
      (Some (ErrJoin [ErrInvalid, e])))"
    by (auto simp: Measure_def)
  with False assms show ?thesis
    by (auto simp: At_def From_def Unknown_def Wrap_cases unknown_receipt_def [symmetric] unknown_receipt_valid
        seal_def degraded_eq)
qed

theorem measured_limit_exact_witness:
  "From (At (Measure (Some (ErrNew ''read'')) DimensionSymlinkDepth 41 40) StageDomainInventory
     GenerationExtractionDomain) =
   Some (limit_receipt StageDomainInventory GenerationExtractionDomain DimensionSymlinkDepth 41 40)"
  using measured_limit_exact [of "ErrNew ''read''" DimensionSymlinkDepth 41 40 StageDomainInventory GenerationExtractionDomain]
  by (simp add: validStageGeneration_def validDimension_def validStageDimension_def)

text \<open>The vocabulary is plain ASCII, so the decoder reads every valid receipt back from its encoding.\<close>

lemma vocabulary_plain:
  "validStage s \<Longrightarrow> list_all plain_char s" "validGeneration s \<Longrightarrow> list_all plain_char s"
  "validClassification s \<Longrightarrow> list_all plain_char s" "validDimension s \<Longrightarrow> list_all plain_char s"
proof -
  have all: "list_ex (\<lambda>x. s = x) xs \<Longrightarrow> list_all (list_all plain_char) xs \<Longrightarrow> list_all plain_char s" for xs
    by (auto simp: list_ex_iff list_all_iff)
  show "validStage s \<Longrightarrow> list_all plain_char s" unfolding validStage_def by (erule all) code_simp
  show "validGeneration s \<Longrightarrow> list_all plain_char s" unfolding validGeneration_def by (erule all) code_simp
  show "validClassification s \<Longrightarrow> list_all plain_char s" unfolding validClassification_def by (erule all) code_simp
  show "validDimension s \<Longrightarrow> list_all plain_char s" unfolding validDimension_def by (erule all) code_simp
qed

lemma fields_plain: "f \<in> set receipt_fields \<Longrightarrow> list_all plain_char f"
proof -
  have "list_all (list_all plain_char) receipt_fields" by code_simp
  then show "f \<in> set receipt_fields \<Longrightarrow> list_all plain_char f" by (simp add: list_all_iff)
qed

definition member_rest :: "receipt \<Rightarrow> char \<Rightarrow> gostring \<Rightarrow> (receipt \<times> gostring) option" where
  "member_rest r c rest = (if c = CHR '','' then decode_members rest r else if c = CHR ''}'' then Some (r, rest) else None)"

lemma member_end:
  assumes "c = CHR '','' \<or> c = CHR ''}''"
  shows "(case expect (CHR '','') (c # rest) of
      Some t \<Rightarrow> decode_members t r | None \<Rightarrow> map_option (\<lambda>rest. (r, rest)) (expect (CHR ''}'') (c # rest))) = member_rest r c rest"
  using assms by (auto simp: expect_plain json_space_def member_rest_def)

lemma member_string:
  assumes "f \<in> set receipt_fields" "f \<noteq> ''observed''" "f \<noteq> ''limit''" and "list_all plain_char v" and "c = CHR '','' \<or> c = CHR ''}''"
  shows "decode_members (json_string f v @ c # rest) r = member_rest (set_string f v r) c rest"
proof -
  let ?q = "CHR 0x22"
  have enc: "json_string f v @ c # rest = ?q # f @ ?q # CHR '':'' # ?q # v @ ?q # c # rest" by (simp add: json_string_def)
  have field: "decode_field f (?q # v @ ?q # c # rest) r = Some (set_string f v r, c # rest)"
    using assms(1-3) plain_literal [OF assms(4), of "c # rest"]
    by (simp add: decode_field_def match_field_def HasPrefix_def expect_plain json_space_def)
  show ?thesis
    unfolding enc by (subst decode_members.simps)
      (simp add: expect_plain skip_plain json_space_def plain_literal [OF fields_plain [OF assms(1)]] field member_end [OF assms(5)])
qed

lemma decimal_head: "decimal i @ s = c # t \<Longrightarrow> c = CHR ''-'' \<or> is_digit c"
  using decimal_digits [of "nat i"] by (cases "decimal_nat (nat i)") (auto simp: decimal_def split: if_splits)

lemma member_int:
  assumes "f = ''observed'' \<or> f = ''limit''" and "- (2 ^ 63) \<le> v" "v < 2 ^ 63" and "c = CHR '','' \<or> c = CHR ''}''"
  shows "decode_members (json_int f v @ c # rest) r = member_rest (set_int f v r) c rest"
proof -
  let ?q = "CHR 0x22"
  have enc: "json_int f v @ c # rest = ?q # f @ ?q # CHR '':'' # decimal v @ c # rest" by (simp add: json_int_def)
  have f: "f \<in> set receipt_fields" using assms(1) by (auto simp: receipt_fields_def)
  obtain x t where x: "decimal v @ c # rest = x # t" by (cases "decimal v @ c # rest") auto
  then have "x = CHR ''-'' \<or> is_digit x" by (rule decimal_head)
  then have start: "\<not> json_space x" "x \<noteq> CHR ''n''" by (auto simp: json_space_def is_digit_def)
  have "\<not> is_digit c" using assms(4) by (auto simp: is_digit_def)
  from decimal_literal [OF assms(2,3) this, of rest]
  have field: "decode_field f (decimal v @ c # rest) r = Some (set_int f v r, c # rest)"
    using assms(1) f start by (auto simp: decode_field_def match_field_def HasPrefix_def x)
  have skip: "skip_space (decimal v @ c # rest) = decimal v @ c # rest" unfolding x by (rule skip_plain [OF start(1)])
  show ?thesis
    unfolding enc by (subst decode_members.simps)
      (simp add: expect_plain json_space_def plain_literal [OF fields_plain [OF f]] skip field member_end [OF assms(4)])
qed

definition int64_receipt :: "receipt \<Rightarrow> bool" where
  "int64_receipt r \<longleftrightarrow> - (2 ^ 63) \<le> rc_observed r \<and> rc_observed r < 2 ^ 63 \<and> - (2 ^ 63) \<le> rc_limit r \<and> rc_limit r < 2 ^ 63"

lemma decode_marshal:
  assumes "Validate r = None" "int64_receipt r"
  shows "decode_receipt (marshal_receipt r) = Some (r, [])"
proof -
  let ?fs = "[''schema'', ''stage'', ''generation_kind'', ''classification'', ''dimension'']"
  have "rc_schema r = RefusalSchema" "validStage (rc_stage r)" "validGeneration (rc_generation r)"
    "validClassification (rc_classification r)" "validDimension (rc_dimension r)"
    using assms(1) by (auto simp: Validate_def split: if_splits)
  moreover have "list_all plain_char RefusalSchema" by code_simp
  ultimately have plain: "list_all plain_char (rc_schema r)" "list_all plain_char (rc_stage r)" "list_all plain_char (rc_generation r)"
    "list_all plain_char (rc_classification r)" "list_all plain_char (rc_dimension r)" by (simp_all add: vocabulary_plain)
  have fs: "f \<in> set receipt_fields" "f \<noteq> ''observed''" "f \<noteq> ''limit''" if "f \<in> set ?fs" for f
    using that by (auto simp: receipt_fields_def)
  have i: "- (2 ^ 63) \<le> rc_observed r" "rc_observed r < 2 ^ 63" "- (2 ^ 63) \<le> rc_limit r" "rc_limit r < 2 ^ 63"
    using assms(2) by (simp_all add: int64_receipt_def)
  have more: "decode_members (json_string f v @ CHR '','' # rest) x = decode_members rest (set_string f v x)"
    if "f \<in> set ?fs" "list_all plain_char v" for f v x rest
    using member_string [OF fs [OF that(1)] that(2), of "CHR '',''" rest x] by (simp add: member_rest_def)
  have ints: "decode_members (json_int ''observed'' (rc_observed r) @ CHR '','' # rest) x = decode_members rest (set_int ''observed'' (rc_observed r) x)"
    "decode_members (json_int ''limit'' (rc_limit r) @ CHR ''}'' # rest) x = Some (set_int ''limit'' (rc_limit r) x, rest)" for rest x
    using member_int [of "''observed''" "rc_observed r" "CHR '',''" rest x] member_int [of "''limit''" "rc_limit r" "CHR ''}''" rest x] i
    by (simp_all add: member_rest_def)
  define body where "body = json_string ''schema'' (rc_schema r) @ CHR '','' # json_string ''stage'' (rc_stage r) @ CHR '','' #
     json_string ''generation_kind'' (rc_generation r) @ CHR '','' # json_string ''classification'' (rc_classification r) @ CHR '','' #
     json_string ''dimension'' (rc_dimension r) @ CHR '','' # json_int ''observed'' (rc_observed r) @ CHR '','' #
     json_int ''limit'' (rc_limit r) @ CHR ''}'' # []"
  have enc: "marshal_receipt r = CHR ''{'' # body"
    unfolding marshal_receipt_def body_def by (simp only: Join.simps append_assoc append_Cons append_Nil)
  have members: "decode_members body zero_receipt = Some (set_int ''limit'' (rc_limit r) (set_int ''observed'' (rc_observed r)
      (set_string ''dimension'' (rc_dimension r) (set_string ''classification'' (rc_classification r)
      (set_string ''generation_kind'' (rc_generation r) (set_string ''stage'' (rc_stage r) (set_string ''schema'' (rc_schema r) zero_receipt)))))), [])"
    unfolding body_def by (simp only: more plain ints list.set insert_iff simp_thms)
  obtain t where "body = CHR 0x22 # t" by (simp add: body_def json_string_def)
  then have "decode_receipt (CHR ''{'' # body) = decode_members body zero_receipt"
    by (simp add: decode_receipt_def skip_plain expect_plain json_space_def HasPrefix_def)
  then show ?thesis
    unfolding enc members by (simp add: set_int_def set_string_def zero_receipt_def)
qed

text \<open>Whatever it reads, the decoder stores \<open>int64\<close> values.\<close>

lemma int64_fields:
  "int64_receipt (set_string f v r) = int64_receipt r"
  "int64_receipt r \<Longrightarrow> - (2 ^ 63) \<le> i \<Longrightarrow> i < 2 ^ 63 \<Longrightarrow> int64_receipt (set_int f i r)"
  by (simp_all add: int64_receipt_def set_string_def set_int_def)

lemma decode_field_int64:
  assumes "decode_field key s r = Some (r', rest)" "int64_receipt r"
  shows "int64_receipt r'"
proof -
  obtain f where "r' = r \<or> (\<exists>v. r' = set_string f v r) \<or> (\<exists>v t. r' = set_int f v r \<and> int64_literal s = Some (v, t))"
    using assms(1) unfolding decode_field_def by (simp split: option.splits if_splits) blast+
  then show ?thesis using assms(2) int64_fields int64_literal_bounds by metis
qed

lemma decode_members_int64: "decode_members s r = Some (r', rest) \<Longrightarrow> int64_receipt r \<Longrightarrow> int64_receipt r'"
proof (induction s r rule: decode_members.induct)
  case (1 s r)
  obtain s1 key s2 s3 x s4 where steps: "expect (CHR 0x22) s = Some s1" "string_literal s1 = Some (key, s2)" "expect (CHR '':'') s2 = Some s3"
    "decode_field key (skip_space s3) r = Some (x, s4)"
    using 1(2) by (subst (asm) decode_members.simps) (auto split: option.splits)
  have x: "int64_receipt x" by (rule decode_field_int64 [OF steps(4) 1(3)])
  show ?case
  proof (cases "expect (CHR '','') s4")
    case None
    then show ?thesis using 1(2) x by (subst (asm) decode_members.simps) (auto simp: steps)
  next
    case (Some s5)
    then have "decode_members s5 x = Some (r', rest)" using 1(2) by (subst (asm) decode_members.simps) (simp add: steps)
    then show ?thesis using 1(1) [OF steps(1,2) refl steps(3,4) refl Some] x by blast
  qed
qed

lemma decode_int64: "decode_receipt s = Some (r, rest) \<Longrightarrow> int64_receipt r"
proof -
  have "int64_receipt zero_receipt" by (simp add: int64_receipt_def zero_receipt_def)
  then show "decode_receipt s = Some (r, rest) \<Longrightarrow> int64_receipt r"
    by (auto simp: decode_receipt_def split: if_splits option.splits dest: decode_members_int64)
qed

text \<open>
  C21. \<open>ParseDurableErrorText\<close> accepts a text exactly when it is the durable text of a receipt that passes
  \<open>Validate\<close>, and then it returns that receipt. So every text that a boundary persisted is recovered, by the
  strict JSON decoder and the comparison with the re-encoding together, whatever stage, dimension and
  64-bit scalars it has; a wrapped, trailing or differently spelled text is never taken for a refusal.
\<close>

theorem durable_text_canonical:
  "ParseDurableErrorText v = Some r \<longleftrightarrow> v = DurableErrorText r \<and> Validate r = None \<and> int64_receipt r"
proof
  assume p: "ParseDurableErrorText v = Some r"
  let ?payload = "drop (length ''pipeline refusal: '') v"
  have prefix: "HasPrefix v ''pipeline refusal: ''" using p by (auto simp only: ParseDurableErrorText_def split: if_splits)
  then obtain trailing where "decode_receipt ?payload = Some (r, trailing)" "Validate r = None" "?payload = marshal_receipt r"
    using p unfolding ParseDurableErrorText_def Let_def by (simp split: option.splits if_splits prod.splits)
  then show "v = DurableErrorText r \<and> Validate r = None \<and> int64_receipt r"
    using prefix decode_int64 HasPrefix_split unfolding DurableErrorText_def by blast
next
  assume a: "v = DurableErrorText r \<and> Validate r = None \<and> int64_receipt r"
  then have v: "HasPrefix v ''pipeline refusal: ''" "drop (length ''pipeline refusal: '') v = marshal_receipt r"
    using HasPrefix_split unfolding DurableErrorText_def by blast+
  then show "ParseDurableErrorText v = Some r"
    unfolding ParseDurableErrorText_def Let_def v(2) decode_marshal [OF conjunct1 [OF conjunct2 [OF a]] conjunct2 [OF conjunct2 [OF a]]]
    using a by (simp add: skip_space_def)
qed

end
