(* ===== verification/Job_Errors.thy ===== *)
theory Job_Errors
  imports Pipeline_Refusal
begin

text \<open>
  The failure taxonomy of \<open>internal/store/class.go\<close>: the marker types that a handler's error may
  carry anywhere in its chain, their constructors and tests, the class-dependent backoff with its
  64-bit shift, the persistence-safe error text of \<open>runner.go\<close>, and the substring test that decides
  which database errors are retried. Each marker type is a payload of a typed error node; a sealed
  pipeline refusal is the payload that has a \<open>DurableErrorText\<close> method.
\<close>

datatype tag = TagClass gostring | TagTerminal | TagYield | TagDeferral | TagSuccessor | TagRefusal receipt

type_synonym serr = "tag goerr"

abbreviation "ClassAuth \<equiv> ''auth''"
abbreviation "ClassOOM \<equiv> ''oom''"
abbreviation "ClassCorrupt \<equiv> ''corrupt-shard''"
abbreviation "ClassExtract \<equiv> ''extract''"
abbreviation "ClassGeneric \<equiv> ''generic''"

text \<open>The text of a done context is that of \<open>context.Canceled\<close>.\<close>

definition err_text :: "serr \<Rightarrow> gostring" where
  "err_text = error_text ''context canceled''"

definition WithClass :: "gostring \<Rightarrow> serr \<Rightarrow> serr" where
  "WithClass class err = ErrTyped (TagClass class) (class @ '': '' @ err_text err) (Some err)"

definition WithTerminal :: "serr option \<Rightarrow> serr option" where
  "WithTerminal err = (case err of None \<Rightarrow> None
     | Some e \<Rightarrow> Some (ErrTyped TagTerminal (''terminal: '' @ err_text e) (Some e)))"

definition IsTerminal :: "serr \<Rightarrow> bool" where
  "IsTerminal e \<longleftrightarrow> list_ex (\<lambda>t. t = TagTerminal) (errors_As e)"

definition WithYield :: "serr option \<Rightarrow> serr option" where
  "WithYield err = (case err of None \<Rightarrow> None
     | Some e \<Rightarrow> Some (ErrTyped TagYield (''yield: '' @ err_text e) (Some e)))"

definition IsYield :: "serr \<Rightarrow> bool" where
  "IsYield e \<longleftrightarrow> list_ex (\<lambda>t. t = TagYield) (errors_As e)"

definition WithDeferral :: "serr option \<Rightarrow> serr option" where
  "WithDeferral err = (case err of None \<Rightarrow> None
     | Some e \<Rightarrow> Some (ErrTyped TagDeferral (''deferred: '' @ err_text e) (Some e)))"

definition IsDeferral :: "serr \<Rightarrow> bool" where
  "IsDeferral e \<longleftrightarrow> list_ex (\<lambda>t. t = TagDeferral) (errors_As e)"

definition IsSuccessorRetry :: "serr \<Rightarrow> bool" where
  "IsSuccessorRetry e \<longleftrightarrow> list_ex (\<lambda>t. t = TagSuccessor) (errors_As e)"

definition WithSuccessorRetry :: "serr option \<Rightarrow> serr option" where
  "WithSuccessorRetry err = (case err of None \<Rightarrow> None
     | Some e \<Rightarrow> if IsSuccessorRetry e then Some e else Some (ErrTyped TagSuccessor (err_text e) (Some e)))"

fun first_class :: "tag list \<Rightarrow> gostring option" where
  "first_class [] = None"
| "first_class (TagClass c # ts) = Some c"
| "first_class (_ # ts) = first_class ts"

definition Classify :: "serr \<Rightarrow> gostring" where
  "Classify e = (case first_class (errors_As e) of Some c \<Rightarrow> c | None \<Rightarrow> ClassGeneric)"

abbreviation second :: int where
  "second \<equiv> 1000000000"

definition backoff_base :: "gostring \<Rightarrow> int" where
  "backoff_base class =
     (if class = ClassAuth then 10 * 60 * second else if class = ClassOOM then 5 * 60 * second
      else if class = ClassCorrupt then second else if class = ClassExtract then 2 * 60 * second
      else 30 * second)"

text \<open>\<open>base << attempts\<close> on an \<open>int64\<close>; a negative count would panic.\<close>

definition DefaultBackoff :: "serr \<Rightarrow> nat \<Rightarrow> int" where
  "DefaultBackoff e attempts =
     (let d = wrap64 (backoff_base (Classify e) * 2 ^ attempts);
          maximum = 60 * 60 * second
      in if d > maximum then maximum else d)"

fun first_durable :: "tag list \<Rightarrow> receipt option" where
  "first_durable [] = None"
| "first_durable (TagRefusal r # ts) = Some r"
| "first_durable (_ # ts) = first_durable ts"

definition job_error_text :: "serr option \<Rightarrow> gostring" where
  "job_error_text err = (case err of None \<Rightarrow> []
     | Some e \<Rightarrow> (case first_durable (errors_As e) of Some r \<Rightarrow> DurableErrorText r | None \<Rightarrow> err_text e))"

section \<open>Retryable database errors\<close>

text \<open>\<open>strings.ToLower\<close> and \<open>strings.Contains\<close> on the ASCII texts of the database driver.\<close>

definition lower_byte :: "char \<Rightarrow> char" where
  "lower_byte c = (if CHR ''A'' \<le> c \<and> c \<le> CHR ''Z'' then char_of (of_char c + 32 :: nat) else c)"

definition Contains :: "gostring \<Rightarrow> gostring \<Rightarrow> bool" where
  "Contains s p \<longleftrightarrow> list_ex (\<lambda>i. take (length p) (drop i s) = p) [0..<Suc (length s)]"

definition isRetryable :: "serr \<Rightarrow> bool" where
  "isRetryable e \<longleftrightarrow>
     (let msg = map lower_byte (err_text e)
      in if Contains msg ''phebs-permanent:'' then False
         else Contains msg ''conflict'' \<or> Contains msg ''retry'')"

definition isRetryableEnqueue :: "serr \<Rightarrow> bool" where
  "isRetryableEnqueue e \<longleftrightarrow>
     (let msg = map lower_byte (err_text e)
      in if Contains msg ''phebs-permanent:'' then False
         else isRetryable e \<or> Contains msg ''unique'' \<or> Contains msg ''already contains'')"

section \<open>Marker composition\<close>

text \<open>The tags a chain carries after one of the constructors.\<close>

lemma tags_With [simp]:
  "errors_As (WithClass c e) = TagClass c # errors_As e"
  "WithTerminal (Some e) = Some x \<Longrightarrow> errors_As x = TagTerminal # errors_As e"
  "WithYield (Some e) = Some x \<Longrightarrow> errors_As x = TagYield # errors_As e"
  "WithDeferral (Some e) = Some x \<Longrightarrow> errors_As x = TagDeferral # errors_As e"
  by (auto simp: WithClass_def WithTerminal_def WithYield_def WithDeferral_def)

lemma WithSuccessorRetry_Some: "\<exists>x. WithSuccessorRetry (Some e) = Some x \<and> IsSuccessorRetry x \<and>
    Classify x = Classify e \<and> (IsTerminal x = IsTerminal e) \<and> err_text x = err_text e"
  by (auto simp: WithSuccessorRetry_def IsSuccessorRetry_def Classify_def IsTerminal_def err_text_def)

lemma backoff_base_range: "second \<le> backoff_base c \<and> backoff_base c \<le> 600 * second"
  by (simp add: backoff_base_def)

lemma DefaultBackoff_exact:
  assumes "attempts \<le> 23"
  shows "DefaultBackoff e attempts = min (backoff_base (Classify e) * 2 ^ attempts) (3600 * second)"
proof -
  have p: "(2::int) ^ attempts \<le> 2 ^ 23" "(1::int) \<le> 2 ^ attempts"
    using power_increasing [OF assms, of "2::int"] by simp_all
  have r: "second \<le> backoff_base (Classify e)" "backoff_base (Classify e) \<le> 600 * second"
    using backoff_base_range by blast+
  have "backoff_base (Classify e) * 2 ^ attempts \<le> 600 * second * 2 ^ 23"
    using mult_mono [OF r(2) p(1)] p(2) r(1) by auto
  moreover have "0 \<le> backoff_base (Classify e) * 2 ^ attempts" using r p by auto
  ultimately have "is_int64 (backoff_base (Classify e) * 2 ^ attempts)"
    by (simp add: is_int64_def min_int64_def max_int64_def)
  then show ?thesis by (simp add: DefaultBackoff_def min_def)
qed

end
