(* ===== verification/Job_Table.thy ===== *)
theory Job_Table
  imports Job_Errors Job_Kinds
begin

text \<open>
  One durable job table of \<open>internal/store/surreal.go\<close> and the transactions that change it. A table
  is the list of its rows with the \<open>latest_*_job\<close> projection of each repository; a transaction is the
  SurrealQL text of the store read as a function of the table, the database clock and its variables:
  it throws, and then changes nothing, or returns the rows its \<open>RETURN\<close> yields. The unique index on
  \<open>pending_key\<close> is a check of every statement that sets the field.
\<close>

section \<open>Rows\<close>

record qrow =
  qr_id :: gostring
  qr_target :: gostring
  qr_status :: gostring
  qr_attempts :: int
  qr_error :: gostring
  qr_created :: int
  qr_not_before :: "int option"
  qr_pending_key :: "gostring option"
  qr_force :: bool
  qr_claimed_by :: "gostring option"
  qr_claimed_at :: "int option"
  qr_heartbeat :: "int option"
  qr_lease :: "gostring option"
  qr_recovery :: "gostring option"
  qr_finished :: "int option"

text \<open>The columns of the repository row that one job kind projects its latest job into.\<close>

record latest =
  lt_job :: "gostring option"
  lt_created :: "int option"
  lt_version :: "gostring option"

record qdata =
  qd_rows :: "qrow list"
  qd_latest :: "gostring \<Rightarrow> latest option"

text \<open>\<open>Job\<close> as workers hold it: absent columns read as empty strings.\<close>

record job =
  j_id :: gostring
  j_target :: gostring
  j_status :: gostring
  j_attempts :: int
  j_force :: bool
  j_lease :: gostring
  j_who :: gostring
  j_heartbeat :: "int option"
  j_not_before :: "int option"

definition option_string :: "gostring option \<Rightarrow> gostring" where
  "option_string s = (case s of None \<Rightarrow> [] | Some x \<Rightarrow> x)"

definition toJob :: "qrow \<Rightarrow> job" where
  "toJob r = \<lparr>j_id = qr_id r, j_target = qr_target r, j_status = qr_status r, j_attempts = qr_attempts r,
     j_force = qr_force r, j_lease = option_string (qr_lease r), j_who = option_string (qr_claimed_by r),
     j_heartbeat = qr_heartbeat r, j_not_before = qr_not_before r\<rparr>"

abbreviation "StatusPending \<equiv> ''pending''"
abbreviation "StatusClaimed \<equiv> ''claimed''"
abbreviation "StatusRunning \<equiv> ''running''"
abbreviation "StatusDone \<equiv> ''done''"
abbreviation "StatusFailed \<equiv> ''failed''"
abbreviation "StatusCanceled \<equiv> ''canceled''"

section \<open>Statements\<close>

text \<open>\<open>UPDATE ... SET ... WHERE p RETURN AFTER\<close>: the rows left and the rows returned.\<close>

definition update_rows :: "(qrow \<Rightarrow> bool) \<Rightarrow> (qrow \<Rightarrow> qrow) \<Rightarrow> qrow list \<Rightarrow> qrow list" where
  "update_rows p f rows = map (\<lambda>r. if p r then f r else r) rows"

definition updated_rows :: "(qrow \<Rightarrow> bool) \<Rightarrow> (qrow \<Rightarrow> qrow) \<Rightarrow> qrow list \<Rightarrow> qrow list" where
  "updated_rows p f rows = map f (filter p rows)"

text \<open>\<open>ORDER BY created_at LIMIT 1\<close>.\<close>

definition first_created :: "qrow list \<Rightarrow> qrow option" where
  "first_created rows = (case sort_key qr_created rows of [] \<Rightarrow> None | r # _ \<Rightarrow> Some r)"

definition queuePendingSelection :: "gostring \<Rightarrow> qrow list \<Rightarrow> gostring option" where
  "queuePendingSelection target rows = map_option qr_id
     (first_created (filter (\<lambda>r. qr_pending_key r = Some target \<and> qr_status r = StatusPending) rows))"

definition queueRecoverySelection :: "gostring \<Rightarrow> gostring \<Rightarrow> qrow list \<Rightarrow> gostring option" where
  "queueRecoverySelection target lease rows = map_option qr_id
     (first_created (filter (\<lambda>r. qr_pending_key r = Some target \<and> qr_status r = StatusPending \<and>
        qr_recovery r = Some lease) rows))"

definition lease_row :: "gostring list \<Rightarrow> job \<Rightarrow> qrow \<Rightarrow> bool" where
  "lease_row statuses j r \<longleftrightarrow> qr_id r = j_id j \<and> qr_status r \<in> set statuses \<and>
     qr_lease r = Some (j_lease j) \<and> qr_claimed_by r = Some (j_who j)"

abbreviation census_changed :: serr where
  "census_changed \<equiv> ErrNew ''phebs-conflict: pending job census changed''"

abbreviation unique_violation :: serr where
  "unique_violation \<equiv> ErrNew ''database index already contains pending_key''"

definition key_taken :: "gostring \<Rightarrow> gostring \<Rightarrow> qrow list \<Rightarrow> bool" where
  "key_taken key i rows \<longleftrightarrow> list_ex (\<lambda>r. qr_pending_key r = Some key \<and> qr_id r \<noteq> i) rows"

definition projection_version :: "gostring \<Rightarrow> bool \<Rightarrow> gostring option" where
  "projection_version kind pending =
     (if kind = ''indexing_job'' then (if pending then None else Some ''t30.6n-indexing-job-latest-v1'')
      else if kind = ''extraction_job'' then Some ''t40r1-extraction-job-latest-v1''
      else if kind = ''caller_leaf_job'' then Some ''t40r1-caller-job-latest-v1''
      else if kind = ''resolver_catalog_job'' then Some ''t40r1-resolver-job-latest-v1''
      else None)"

definition newer_than :: "latest \<Rightarrow> qrow \<Rightarrow> bool" where
  "newer_than l r \<longleftrightarrow>
     (case lt_created l of None \<Rightarrow> True
      | Some c \<Rightarrow> c < qr_created r \<or> c = qr_created r \<and>
          (case lt_job l of None \<Rightarrow> True | Some i \<Rightarrow> i < qr_id r))"

definition queueProjectionSQL ::
  "gostring \<Rightarrow> bool \<Rightarrow> gostring \<Rightarrow> qrow list \<Rightarrow> (gostring \<Rightarrow> latest option) \<Rightarrow> gostring \<Rightarrow> latest option" where
  "queueProjectionSQL kind pending target job latest =
     (case (projection_version kind pending, job) of
        (Some version, [r]) \<Rightarrow>
          (case latest target of
             None \<Rightarrow> latest
           | Some l \<Rightarrow> if newer_than l r
               then latest(target \<mapsto> \<lparr>lt_job = Some (qr_id r), lt_created = Some (qr_created r), lt_version = Some version\<rparr>)
               else latest)
      | _ \<Rightarrow> latest)"

definition new_row :: "gostring \<Rightarrow> gostring \<Rightarrow> bool \<Rightarrow> gostring option \<Rightarrow> int \<Rightarrow> qrow" where
  "new_row i target force recovery now = \<lparr>qr_id = i, qr_target = target, qr_status = StatusPending,
     qr_attempts = 0, qr_error = [], qr_created = now, qr_not_before = None, qr_pending_key = Some target,
     qr_force = force, qr_claimed_by = None, qr_claimed_at = None, qr_heartbeat = None, qr_lease = None,
     qr_recovery = recovery, qr_finished = None\<rparr>"

type_synonym txn_result = "(serr + qrow list) \<times> qdata"

definition create_row :: "gostring \<Rightarrow> qrow \<Rightarrow> qdata \<Rightarrow> txn_result" where
  "create_row kind r d =
     (if key_taken (qr_target r) (qr_id r) (qd_rows d) then (Inl unique_violation, d)
      else (Inr [r], \<lparr>qd_rows = qd_rows d @ [r],
              qd_latest = queueProjectionSQL kind False (qr_target r) [r] (qd_latest d)\<rparr>))"

section \<open>Transactions\<close>

definition create_txn :: "gostring \<Rightarrow> int \<Rightarrow> gostring \<Rightarrow> gostring \<Rightarrow> qdata \<Rightarrow> txn_result" where
  "create_txn kind now i target d = create_row kind (new_row i target False None now) d"

definition enqueuePendingSQL ::
  "gostring \<Rightarrow> int \<Rightarrow> gostring \<Rightarrow> gostring \<Rightarrow> bool \<Rightarrow> gostring option \<Rightarrow> qdata \<Rightarrow> txn_result" where
  "enqueuePendingSQL kind now i target force census d =
     (if queuePendingSelection target (qd_rows d) \<noteq> census then (Inl census_changed, d)
      else case census of
        None \<Rightarrow> create_row kind (new_row i target force None now) d
      | Some p \<Rightarrow>
          let sel = (\<lambda>r. qr_id r = p);
              upd = (\<lambda>r. r\<lparr>qr_force := (if force then True else qr_force r), qr_recovery := None, qr_not_before := None\<rparr>);
              job = updated_rows sel upd (qd_rows d)
          in (Inr job, \<lparr>qd_rows = update_rows sel upd (qd_rows d),
                qd_latest = queueProjectionSQL kind True target job (qd_latest d)\<rparr>))"

definition ensureJobSuccessorSQL ::
  "gostring \<Rightarrow> int \<Rightarrow> gostring \<Rightarrow> job \<Rightarrow> bool \<Rightarrow> gostring option \<Rightarrow> qdata \<Rightarrow> txn_result" where
  "ensureJobSuccessorSQL kind now i j force census d =
     (let owned = list_ex (lease_row [StatusRunning] j) (qd_rows d)
      in if owned \<and> queuePendingSelection (j_target j) (qd_rows d) \<noteq> census then (Inl census_changed, d)
         else if \<not> owned then (Inr [], d)
         else case census of
           None \<Rightarrow> create_row kind (new_row i (j_target j) force (Some (j_lease j)) now) d
         | Some p \<Rightarrow>
             let sel = (\<lambda>r. qr_id r = p);
                 upd = (\<lambda>r. r\<lparr>qr_force := (if force then True else qr_force r)\<rparr>);
                 job = updated_rows sel upd (qd_rows d)
             in (Inr job, \<lparr>qd_rows = update_rows sel upd (qd_rows d),
                   qd_latest = queueProjectionSQL kind True (j_target j) job (qd_latest d)\<rparr>))"

definition claim_row :: "gostring \<Rightarrow> gostring \<Rightarrow> int \<Rightarrow> qrow \<Rightarrow> qrow" where
  "claim_row who lease now r = r\<lparr>qr_status := StatusClaimed, qr_claimed_by := Some who, qr_lease := Some lease,
     qr_pending_key := None, qr_claimed_at := Some now, qr_heartbeat := Some now, qr_recovery := None\<rparr>"

definition claimSelectedJobSQL :: "int \<Rightarrow> gostring \<Rightarrow> gostring \<Rightarrow> gostring \<Rightarrow> qdata \<Rightarrow> txn_result" where
  "claimSelectedJobSQL now i who lease d =
     (let sel = (\<lambda>r. qr_id r = i \<and> qr_status r = StatusPending); upd = claim_row who lease now
      in (Inr (updated_rows sel upd (qd_rows d)), d\<lparr>qd_rows := update_rows sel upd (qd_rows d)\<rparr>))"

text \<open>The single-statement updates that \<open>updateLease\<close> runs.\<close>

definition lease_txn :: "(qrow \<Rightarrow> bool) \<Rightarrow> (qrow \<Rightarrow> qrow) \<Rightarrow> qdata \<Rightarrow> txn_result" where
  "lease_txn sel upd d = (Inr (updated_rows sel upd (qd_rows d)), d\<lparr>qd_rows := update_rows sel upd (qd_rows d)\<rparr>)"

definition heartbeat_txn :: "int \<Rightarrow> job \<Rightarrow> qdata \<Rightarrow> txn_result" where
  "heartbeat_txn now j = lease_txn (lease_row [StatusRunning] j) (\<lambda>r. r\<lparr>qr_heartbeat := Some now\<rparr>)"

definition finish_row :: "gostring \<Rightarrow> gostring \<Rightarrow> int \<Rightarrow> qrow \<Rightarrow> qrow" where
  "finish_row st err now r = r\<lparr>qr_status := st, qr_error := err, qr_finished := Some now, qr_lease := None,
     qr_pending_key := None\<rparr>"

definition start_txn :: "gostring \<Rightarrow> job \<Rightarrow> qdata \<Rightarrow> txn_result" where
  "start_txn err j = lease_txn (lease_row [StatusClaimed] j) (\<lambda>r. r\<lparr>qr_status := StatusRunning, qr_error := err\<rparr>)"

definition finish_txn :: "int \<Rightarrow> gostring \<Rightarrow> gostring \<Rightarrow> job \<Rightarrow> qdata \<Rightarrow> txn_result" where
  "finish_txn now st err j = lease_txn (lease_row [StatusRunning] j) (finish_row st err now)"

text \<open>The reaper's fence: the observed heartbeat is unchanged and still before the bound.\<close>

definition fenced :: "(int \<times> int) option \<Rightarrow> qrow \<Rightarrow> bool" where
  "fenced fence r \<longleftrightarrow> (case fence of None \<Rightarrow> True
     | Some (observed, bound) \<Rightarrow> (case qr_heartbeat r of None \<Rightarrow> False | Some h \<Rightarrow> h = observed \<and> h < bound))"

definition reap_fail_txn :: "int \<Rightarrow> int \<times> int \<Rightarrow> job \<Rightarrow> qdata \<Rightarrow> txn_result" where
  "reap_fail_txn now fence j =
     lease_txn (\<lambda>r. lease_row [StatusClaimed, StatusRunning] j r \<and> fenced (Some fence) r)
       (finish_row StatusFailed ''reaped: stale claim, attempts exhausted'' now)"

definition reset_row :: "gostring \<Rightarrow> qrow \<Rightarrow> qrow" where
  "reset_row target r = r\<lparr>qr_status := StatusPending, qr_claimed_by := None, qr_claimed_at := None,
     qr_heartbeat := None, qr_lease := None, qr_recovery := None, qr_finished := None,
     qr_pending_key := Some target\<rparr>"

text \<open>The shape \<open>returnToPendingSQL\<close> and \<open>deferJobSQL\<close> share: the active row goes back to pending,
  unless a pending successor takes over and the active row is canceled.\<close>

definition hand_back ::
  "(qrow \<Rightarrow> bool) \<Rightarrow> (qrow \<Rightarrow> qrow) \<Rightarrow> (qrow \<Rightarrow> qrow) \<Rightarrow> gostring \<Rightarrow> job \<Rightarrow> int \<Rightarrow> gostring option \<Rightarrow> qdata \<Rightarrow> txn_result" where
  "hand_back sel back merge superseded j now census d =
     (let rows = qd_rows d; owned = list_ex sel rows
      in if owned \<and> queuePendingSelection (j_target j) rows \<noteq> census then (Inl census_changed, d)
         else if \<not> owned then (Inr [], d)
         else case census of
           None \<Rightarrow> if key_taken (j_target j) (j_id j) rows then (Inl unique_violation, d)
             else (Inr (updated_rows sel back rows), d\<lparr>qd_rows := update_rows sel back rows\<rparr>)
         | Some p \<Rightarrow>
             let merged = update_rows (\<lambda>r. qr_id r = p) merge rows;
                 cancel = finish_row StatusCanceled superseded now
             in (Inr (updated_rows sel cancel merged), d\<lparr>qd_rows := update_rows sel cancel merged\<rparr>))"

definition back_to_pending :: "job \<Rightarrow> gostring \<Rightarrow> int \<Rightarrow> bool \<Rightarrow> qrow \<Rightarrow> qrow" where
  "back_to_pending j err nb increment r =
     (reset_row (j_target j) r)\<lparr>qr_attempts := j_attempts j + (if increment then 1 else 0), qr_error := err,
       qr_not_before := (if increment then Some nb else None)\<rparr>"

definition merge_pending :: "job \<Rightarrow> gostring \<Rightarrow> int \<Rightarrow> bool \<Rightarrow> qrow \<Rightarrow> qrow" where
  "merge_pending j err nb increment r =
     r\<lparr>qr_force := (if j_force j then True else qr_force r),
       qr_attempts := (if increment then j_attempts j + 1 else qr_attempts r), qr_error := err,
       qr_not_before := (if increment then Some nb else None), qr_recovery := None\<rparr>"

definition returnToPendingSQL ::
  "int \<Rightarrow> job \<Rightarrow> gostring \<Rightarrow> int \<Rightarrow> bool \<Rightarrow> (int \<times> int) option \<Rightarrow> gostring option \<Rightarrow> qdata \<Rightarrow> txn_result" where
  "returnToPendingSQL now j err nb increment fence census =
     hand_back (\<lambda>r. lease_row [StatusClaimed, StatusRunning] j r \<and> fenced fence r)
       (back_to_pending j err nb increment) (merge_pending j err nb increment)
       (''superseded by pending successor: '' @ err) j now census"

definition deferJobSQL :: "int \<Rightarrow> job \<Rightarrow> gostring \<Rightarrow> int \<Rightarrow> gostring option \<Rightarrow> qdata \<Rightarrow> txn_result" where
  "deferJobSQL now j err nb census =
     hand_back (lease_row [StatusClaimed, StatusRunning] j)
       (\<lambda>r. (reset_row (j_target j) r)\<lparr>qr_error := err, qr_not_before := Some nb, qr_created := now\<rparr>)
       (\<lambda>r. r\<lparr>qr_force := (if j_force j then True else qr_force r)\<rparr>)
       (''superseded by pending freshness event: '' @ err) j now census"

definition failJobWithSuccessorSQL :: "int \<Rightarrow> job \<Rightarrow> gostring \<Rightarrow> gostring option \<Rightarrow> qdata \<Rightarrow> txn_result" where
  "failJobWithSuccessorSQL now j err census d =
     (let rows = qd_rows d; sel = lease_row [StatusRunning] j; owned = list_ex sel rows;
          exhausted = (\<lambda>r. r\<lparr>qr_status := StatusFailed, qr_attempts := j_attempts j + 1, qr_error := err,
             qr_not_before := None, qr_finished := Some now, qr_pending_key := None\<rparr>)
      in if owned \<and> queueRecoverySelection (j_target j) (j_lease j) rows \<noteq> census then (Inl census_changed, d)
         else if \<not> owned then (Inr [], d)
         else case census of
           None \<Rightarrow>
             let upd = (\<lambda>r. (exhausted r)\<lparr>qr_lease := None\<rparr>)
             in (Inr (updated_rows sel upd rows), d\<lparr>qd_rows := update_rows sel upd rows\<rparr>)
         | Some p \<Rightarrow>
             let failed = update_rows (\<lambda>r. qr_id r = p) exhausted rows;
                 cancel = finish_row StatusCanceled (''attempts exhausted by pending successor: '' @ err) now
             in (Inr (updated_rows sel cancel failed), d\<lparr>qd_rows := update_rows sel cancel failed\<rparr>))"

text \<open>\<open>CancelPendingJobs\<close>: up to 512 selected rows are fenced by their census; beyond that the update
  is by target alone.\<close>

definition cancelPendingJobSelection :: "gostring \<Rightarrow> qrow list \<Rightarrow> gostring list" where
  "cancelPendingJobSelection target rows = take 513
     (sort (map qr_id (filter (\<lambda>r. qr_target r = target \<and> qr_status r = StatusPending) rows)))"

definition cancel_row :: "int \<Rightarrow> qrow \<Rightarrow> qrow" where
  "cancel_row now r = r\<lparr>qr_status := StatusCanceled, qr_error := ''repository deleting'',
     qr_finished := Some now, qr_not_before := None, qr_pending_key := None\<rparr>"

definition cancelPendingJobsSQL :: "int \<Rightarrow> gostring \<Rightarrow> gostring list \<Rightarrow> qdata \<Rightarrow> txn_result" where
  "cancelPendingJobsSQL now target ids d =
     (let sel = (\<lambda>r. qr_target r = target \<and> qr_status r = StatusPending)
      in if length ids > 512 then lease_txn sel (cancel_row now) d
         else if cancelPendingJobSelection target (qd_rows d) \<noteq> ids \<or> \<not> distinct ids
         then (Inl (ErrNew ''phebs-conflict: pending cancellation census changed''), d)
         else lease_txn (\<lambda>r. qr_id r \<in> set ids \<and> sel r) (cancel_row now) d)"

text \<open>Deletion of terminal history (\<open>DeleteOldestTerminalJobs\<close>), as it acts on this table.\<close>

definition delete_txn :: "gostring list \<Rightarrow> qdata \<Rightarrow> txn_result" where
  "delete_txn ids d =
     (let gone = (\<lambda>r. qr_id r \<in> set ids \<and> terminalJobStatus (qr_status r))
      in (Inr (filter gone (qd_rows d)), d\<lparr>qd_rows := filter (\<lambda>r. \<not> gone r) (qd_rows d)\<rparr>))"

section \<open>All transactions\<close>

datatype txn =
    TCreate gostring gostring
  | TEnqueue gostring gostring bool "gostring option"
  | TEnsure gostring job bool "gostring option"
  | TClaim gostring gostring gostring
  | THeartbeat job
  | TStart gostring job
  | TFinish gostring gostring job
  | TReapFail "int \<times> int" job
  | TReturn job gostring int bool "(int \<times> int) option" "gostring option"
  | TDefer job gostring int "gostring option"
  | TFailSuccessor job gostring "gostring option"
  | TCancel gostring "gostring list"
  | TDelete "gostring list"

fun run_txn :: "gostring \<Rightarrow> int \<Rightarrow> txn \<Rightarrow> qdata \<Rightarrow> txn_result" where
  "run_txn kind now (TCreate i target) = create_txn kind now i target"
| "run_txn kind now (TEnqueue i target force census) = enqueuePendingSQL kind now i target force census"
| "run_txn kind now (TEnsure i j force census) = ensureJobSuccessorSQL kind now i j force census"
| "run_txn kind now (TClaim i who lease) = claimSelectedJobSQL now i who lease"
| "run_txn kind now (THeartbeat j) = heartbeat_txn now j"
| "run_txn kind now (TStart err j) = start_txn err j"
| "run_txn kind now (TFinish st err j) = finish_txn now st err j"
| "run_txn kind now (TReapFail fence j) = reap_fail_txn now fence j"
| "run_txn kind now (TReturn j err nb increment fence census) = returnToPendingSQL now j err nb increment fence census"
| "run_txn kind now (TDefer j err nb census) = deferJobSQL now j err nb census"
| "run_txn kind now (TFailSuccessor j err census) = failJobWithSuccessorSQL now j err census"
| "run_txn kind now (TCancel target ids) = cancelPendingJobsSQL now target ids"
| "run_txn kind now (TDelete ids) = delete_txn ids"

text \<open>What the callers ensure of the arguments: identifiers and lease tokens are freshly drawn, a
  finish is to one of the two final statuses, and a job carries the target of the row it leases.\<close>

definition target_ok :: "qdata \<Rightarrow> job \<Rightarrow> bool" where
  "target_ok d j \<longleftrightarrow> list_all (\<lambda>r. lease_row [StatusClaimed, StatusRunning] j r \<longrightarrow> qr_target r = j_target j) (qd_rows d)"

definition id_fresh :: "qdata \<Rightarrow> gostring \<Rightarrow> bool" where
  "id_fresh d i \<longleftrightarrow> i \<notin> set (map qr_id (qd_rows d))"

fun txn_ok :: "gostring set \<Rightarrow> qdata \<Rightarrow> txn \<Rightarrow> bool" where
  "txn_ok used d (TCreate i target) \<longleftrightarrow> id_fresh d i"
| "txn_ok used d (TEnqueue i target force census) \<longleftrightarrow> id_fresh d i"
| "txn_ok used d (TEnsure i j force census) \<longleftrightarrow> id_fresh d i"
| "txn_ok used d (TClaim i who lease) \<longleftrightarrow> lease \<notin> used"
| "txn_ok used d (TFinish st err j) \<longleftrightarrow> st = StatusDone \<or> st = StatusFailed"
| "txn_ok used d (TReturn j err nb increment fence census) \<longleftrightarrow> target_ok d j"
| "txn_ok used d (TDefer j err nb census) \<longleftrightarrow> target_ok d j"
| "txn_ok used d _ \<longleftrightarrow> True"

fun drawn :: "txn \<Rightarrow> gostring set" where
  "drawn (TClaim i who lease) = {lease}"
| "drawn _ = {}"

text \<open>Interleavings of clients: any sequence of admissible transactions, with the set of the lease
  tokens drawn so far.\<close>

definition qinit :: "gostring set \<times> qdata \<Rightarrow> bool" where
  "qinit s \<longleftrightarrow> fst s = {} \<and> qd_rows (snd s) = []"

inductive qstep :: "gostring \<Rightarrow> gostring set \<times> qdata \<Rightarrow> gostring set \<times> qdata \<Rightarrow> bool" for kind where
  qstep_txn: "txn_ok used d t \<Longrightarrow> qstep kind (used, d) (used \<union> drawn t, snd (run_txn kind now t d))"

inductive_cases qstepE: "qstep kind s s'"

end
