(* ===== verification/Job_Safety.thy ===== *)
theory Job_Safety
  imports Job_Table
begin

text \<open>
  What holds of a job table in every interleaving of its clients: the shape of rows, one pending row
  per target, exclusive leases, leases that settle at most once, and work that is never dropped.
\<close>

section \<open>The invariant\<close>

definition pending :: "qrow \<Rightarrow> bool" where
  "pending r \<longleftrightarrow> qr_status r = StatusPending"

definition active :: "qrow \<Rightarrow> bool" where
  "active r \<longleftrightarrow> qr_status r = StatusClaimed \<or> qr_status r = StatusRunning"

definition row_ok :: "qrow \<Rightarrow> bool" where
  "row_ok r \<longleftrightarrow>
     (if pending r then qr_pending_key r = Some (qr_target r) \<and> qr_lease r = None
      else if active r then qr_pending_key r = None \<and> qr_lease r \<noteq> None \<and> qr_claimed_by r \<noteq> None \<and> qr_heartbeat r \<noteq> None
      else terminalJobStatus (qr_status r) \<and> qr_pending_key r = None \<and> qr_lease r = None \<and> qr_finished r \<noteq> None)"

definition one_pending :: "qrow list \<Rightarrow> bool" where
  "one_pending rows \<longleftrightarrow> (\<forall>r \<in> set rows. \<forall>s \<in> set rows.
     pending r \<longrightarrow> pending s \<longrightarrow> qr_target r = qr_target s \<longrightarrow> qr_id r = qr_id s)"

definition own_leases :: "qrow list \<Rightarrow> bool" where
  "own_leases rows \<longleftrightarrow> (\<forall>r \<in> set rows. \<forall>s \<in> set rows.
     qr_lease r \<noteq> None \<longrightarrow> qr_lease r = qr_lease s \<longrightarrow> qr_id r = qr_id s)"

definition table_inv :: "gostring set \<Rightarrow> qrow list \<Rightarrow> bool" where
  "table_inv used rows \<longleftrightarrow> distinct (map qr_id rows) \<and> (\<forall>r \<in> set rows. row_ok r) \<and> one_pending rows \<and>
     own_leases rows \<and> (\<forall>r \<in> set rows. set_option (qr_lease r) \<subseteq> used)"

lemma table_invD:
  assumes "table_inv used rows"
  shows "distinct (map qr_id rows)" "\<And>r. r \<in> set rows \<Longrightarrow> row_ok r" "one_pending rows" "own_leases rows"
    "\<And>r l. r \<in> set rows \<Longrightarrow> qr_lease r = Some l \<Longrightarrow> l \<in> used"
  using assms by (auto simp: table_inv_def)

lemma one_pendingD:
  "one_pending rows \<Longrightarrow> r \<in> set rows \<Longrightarrow> s \<in> set rows \<Longrightarrow> pending r \<Longrightarrow> pending s \<Longrightarrow>
     qr_target r = qr_target s \<Longrightarrow> qr_id r = qr_id s"
  unfolding one_pending_def by (drule (1) bspec, drule (1) bspec) (drule (1) mp)+

lemma own_leasesD:
  "own_leases rows \<Longrightarrow> r \<in> set rows \<Longrightarrow> s \<in> set rows \<Longrightarrow> qr_lease r \<noteq> None \<Longrightarrow> qr_lease r = qr_lease s \<Longrightarrow>
     qr_id r = qr_id s"
  unfolding own_leases_def by (drule (1) bspec, drule (1) bspec) simp

lemma row_eq_id: "table_inv used rows \<Longrightarrow> r \<in> set rows \<Longrightarrow> s \<in> set rows \<Longrightarrow> qr_id r = qr_id s \<Longrightarrow> r = s"
  by (auto simp: table_inv_def distinct_map inj_on_def)

lemma row_ok_key: "row_ok r \<Longrightarrow> qr_pending_key r = (if pending r then Some (qr_target r) else None)"
  by (auto simp: row_ok_def split: if_splits)

text \<open>A row change that never makes a row pending and never hands out a lease.\<close>

definition quiet :: "qrow \<Rightarrow> qrow \<Rightarrow> bool" where
  "quiet r s \<longleftrightarrow> qr_id s = qr_id r \<and> qr_target s = qr_target r \<and> row_ok s \<and> (pending s \<longrightarrow> pending r) \<and>
     (qr_lease s = qr_lease r \<or> qr_lease s = None)"

lemma quiet_refl: "row_ok r \<Longrightarrow> quiet r r"
  by (simp add: quiet_def)

lemma table_inv_quiet:
  assumes inv: "table_inv used rows" and q: "\<And>r. r \<in> set rows \<Longrightarrow> quiet r (g r)"
  shows "table_inv used (map g rows)"
proof -
  have ids: "map (qr_id \<circ> g) rows = map qr_id rows" using q by (auto simp: quiet_def)
  have one: "one_pending (map g rows)"
    unfolding one_pending_def
  proof (intro ballI impI)
    fix r s assume "r \<in> set (map g rows)" "s \<in> set (map g rows)" and p: "pending r" "pending s" "qr_target r = qr_target s"
    then obtain a b where ab: "a \<in> set rows" "b \<in> set rows" "r = g a" "s = g b" by auto
    have "qr_id a = qr_id b"
      using one_pendingD [OF table_invD(3) [OF inv] ab(1,2)] q [OF ab(1)] q [OF ab(2)] p
      unfolding ab(3,4) quiet_def by simp
    then show "qr_id r = qr_id s" using q [OF ab(1)] q [OF ab(2)] by (simp add: ab(3,4) quiet_def)
  qed
  have own: "own_leases (map g rows)"
    unfolding own_leases_def
  proof (intro ballI impI)
    fix r s assume "r \<in> set (map g rows)" "s \<in> set (map g rows)" and l: "qr_lease r \<noteq> None" "qr_lease r = qr_lease s"
    then obtain a b where ab: "a \<in> set rows" "b \<in> set rows" "r = g a" "s = g b" by auto
    have "qr_lease a = qr_lease r" "qr_lease b = qr_lease s"
      using l q [OF ab(1)] q [OF ab(2)] unfolding ab(3,4) quiet_def by metis+
    then have "qr_id a = qr_id b" using own_leasesD [OF table_invD(4) [OF inv] ab(1,2)] l by simp
    then show "qr_id r = qr_id s" using q [OF ab(1)] q [OF ab(2)] by (simp add: ab(3,4) quiet_def)
  qed
  have "set_option (qr_lease (g r)) \<subseteq> used" if "r \<in> set rows" for r
    using q [OF that] table_invD(5) [OF inv that] by (cases "qr_lease r") (auto simp: quiet_def)
  moreover have "row_ok (g r)" if "r \<in> set rows" for r using q [OF that] by (simp add: quiet_def)
  moreover have "distinct (map qr_id (map g rows))" unfolding map_map ids by (rule table_invD(1) [OF inv])
  ultimately show ?thesis using one own by (simp add: table_inv_def)
qed

lemma table_inv_update:
  assumes "table_inv used rows" and "\<And>r. r \<in> set rows \<Longrightarrow> sel r \<Longrightarrow> quiet r (f r)"
  shows "table_inv used (update_rows sel f rows)"
  unfolding update_rows_def using assms
  by (intro table_inv_quiet) (auto intro: quiet_refl dest: table_invD(2))

lemma table_inv_mono: "table_inv used rows \<Longrightarrow> used \<subseteq> used' \<Longrightarrow> table_inv used' rows"
  by (auto simp: table_inv_def)

section \<open>The three changes that are not quiet\<close>

lemma table_inv_filter:
  assumes "table_inv used rows"
  shows "table_inv used (filter P rows)"
proof -
  have "one_pending (filter P rows)" using table_invD(3) [OF assms] unfolding one_pending_def by auto
  moreover have "own_leases (filter P rows)" using table_invD(4) [OF assms] unfolding own_leases_def by auto
  ultimately show ?thesis using assms by (simp add: table_inv_def distinct_map_filter)
qed

lemma table_inv_create:
  assumes "table_inv used rows" and "qr_id r \<notin> set (map qr_id rows)" and "\<not> key_taken (qr_target r) (qr_id r) rows"
    and "row_ok r" and "pending r"
  shows "table_inv used (rows @ [r])"
proof -
  have lease: "qr_lease r = None" using assms(4,5) by (simp add: row_ok_def)
  have other: "\<not> (pending s \<and> qr_target s = qr_target r)" if "s \<in> set rows" for s
  proof -
    have "qr_id s \<noteq> qr_id r" using assms(2) that by (metis list.set_map imageI)
    then have "qr_pending_key s \<noteq> Some (qr_target r)" using assms(3) that by (auto simp: key_taken_def list_ex_iff)
    then show ?thesis using row_ok_key [OF table_invD(2) [OF assms(1) that]] by auto
  qed
  have one: "one_pending (rows @ [r])"
    unfolding one_pending_def
  proof (intro ballI impI)
    fix a b assume m: "a \<in> set (rows @ [r])" "b \<in> set (rows @ [r])" and p: "pending a" "pending b" "qr_target a = qr_target b"
    consider "a = r" "b = r" | "a \<in> set rows" "b = r" | "a = r" "b \<in> set rows" | "a \<in> set rows" "b \<in> set rows"
      using m by auto
    then show "qr_id a = qr_id b"
    proof cases
      case 2 then show ?thesis using other p by metis
    next
      case 3 then show ?thesis using other p by metis
    next
      case 4 then show ?thesis using one_pendingD [OF table_invD(3) [OF assms(1)]] p by blast
    qed simp
  qed
  have own: "own_leases (rows @ [r])"
    unfolding own_leases_def
  proof (intro ballI impI)
    fix a b assume "a \<in> set (rows @ [r])" "b \<in> set (rows @ [r])" and l: "qr_lease a \<noteq> None" "qr_lease a = qr_lease b"
    then have "a \<in> set rows" "b \<in> set rows" using lease by (metis Un_iff empty_iff list.set(1) set_append set_ConsD)+
    then show "qr_id a = qr_id b" using own_leasesD [OF table_invD(4) [OF assms(1)]] l by blast
  qed
  show ?thesis
    using assms(1,2,4) lease one own by (simp add: table_inv_def)
qed

text \<open>A change of the single row with an identifier.\<close>

lemma table_inv_one:
  assumes inv: "table_inv used rows"
    and keep: "\<And>r. sel r \<Longrightarrow> qr_id r = i \<and> qr_id (f r) = i \<and> qr_target (f r) = qr_target r"
    and ok: "\<And>r. r \<in> set rows \<Longrightarrow> sel r \<Longrightarrow> row_ok (f r)"
    and solo: "\<And>r s. r \<in> set rows \<Longrightarrow> sel r \<Longrightarrow> pending (f r) \<Longrightarrow> s \<in> set rows \<Longrightarrow> qr_id s \<noteq> i \<Longrightarrow>
      pending s \<Longrightarrow> qr_target s \<noteq> qr_target r"
    and lease: "\<And>r. r \<in> set rows \<Longrightarrow> sel r \<Longrightarrow> qr_lease (f r) \<noteq> None \<Longrightarrow> qr_lease (f r) = Some l \<and> l \<notin> used"
    and used: "used \<subseteq> used'" and drawn: "\<And>r. r \<in> set rows \<Longrightarrow> sel r \<Longrightarrow> qr_lease (f r) \<noteq> None \<Longrightarrow> l \<in> used'"
  shows "table_inv used' (update_rows sel f rows)"
proof -
  let ?g = "\<lambda>r. if sel r then f r else r"
  have ids: "map (qr_id \<circ> ?g) rows = map qr_id rows" using keep by auto
  have old: "qr_lease r \<noteq> Some l" if "r \<in> set rows" "l \<notin> used" for r using table_invD(5) [OF inv] that by blast
  have one: "one_pending (map ?g rows)"
    unfolding one_pending_def
  proof (intro ballI impI)
    fix r s assume "r \<in> set (map ?g rows)" "s \<in> set (map ?g rows)" and p: "pending r" "pending s" "qr_target r = qr_target s"
    then obtain a b where ab: "a \<in> set rows" "b \<in> set rows" "r = ?g a" "s = ?g b" by auto
    show "qr_id r = qr_id s"
    proof (rule ccontr)
      assume n: "qr_id r \<noteq> qr_id s"
      consider "sel a" "\<not> sel b" | "\<not> sel a" "sel b" | "\<not> sel a" "\<not> sel b" using n keep [of a] keep [of b] ab by force
      then show False
      proof cases
        case 1 then show ?thesis using solo [of a b] ab p n keep [of a] by simp
      next
        case 2 then show ?thesis using solo [of b a] ab p n keep [of b] by simp
      next
        case 3 then show ?thesis using one_pendingD [OF table_invD(3) [OF inv] ab(1,2)] ab p n by simp
      qed
    qed
  qed
  have own: "own_leases (map ?g rows)"
    unfolding own_leases_def
  proof (intro ballI impI)
    fix r s assume "r \<in> set (map ?g rows)" "s \<in> set (map ?g rows)" and p: "qr_lease r \<noteq> None" "qr_lease r = qr_lease s"
    then obtain a b where ab: "a \<in> set rows" "b \<in> set rows" "r = ?g a" "s = ?g b" by auto
    show "qr_id r = qr_id s"
    proof (rule ccontr)
      assume n: "qr_id r \<noteq> qr_id s"
      consider "sel a" "\<not> sel b" | "\<not> sel a" "sel b" | "\<not> sel a" "\<not> sel b" using n keep [of a] keep [of b] ab by force
      then show False
      proof cases
        case 1 then show ?thesis using lease [of a] old [of b] ab p by simp
      next
        case 2 then show ?thesis using lease [of b] old [of a] ab p by simp
      next
        case 3 then show ?thesis using own_leasesD [OF table_invD(4) [OF inv] ab(1,2)] ab p n by simp
      qed
    qed
  qed
  have "set_option (qr_lease (?g r)) \<subseteq> used'" if "r \<in> set rows" for r
    using table_invD(5) [OF inv that] lease [OF that] drawn [OF that] used
    by (cases "sel r"; cases "qr_lease (?g r)") auto
  moreover have "row_ok (?g r)" if "r \<in> set rows" for r using ok that table_invD(2) [OF inv] by simp
  moreover have "distinct (map qr_id (map ?g rows))" unfolding map_map ids by (rule table_invD(1) [OF inv])
  ultimately show ?thesis using one own unfolding table_inv_def update_rows_def by (metis (no_types, lifting) image_iff list.set_map)
qed

section \<open>Row changes\<close>

lemma status_simps [simp]:
  "pending (r\<lparr>qr_heartbeat := h\<rparr>) = pending r" "active (r\<lparr>qr_heartbeat := h\<rparr>) = active r"
  "\<not> pending (finish_row st e n r) \<longleftrightarrow> st \<noteq> StatusPending"
  "pending (reset_row t r)" "\<not> active (reset_row t r)"
  "pending (new_row i t f rec n)"
  "active (claim_row who l n r)" "\<not> pending (claim_row who l n r)"
  by (simp_all add: pending_def active_def finish_row_def reset_row_def new_row_def claim_row_def)

lemma terminal_not_live: "terminalJobStatus st \<Longrightarrow> st \<noteq> StatusPending \<and> st \<noteq> StatusClaimed \<and> st \<noteq> StatusRunning"
  by (auto simp: terminalJobStatus_def)

lemma quiet_finish: "terminalJobStatus st \<Longrightarrow> quiet r (finish_row st e n r)"
  using terminal_not_live [of st] by (simp add: quiet_def row_ok_def finish_row_def pending_def active_def)

lemma quiet_heartbeat: "row_ok r \<Longrightarrow> quiet r (r\<lparr>qr_heartbeat := Some n\<rparr>)"
  by (simp add: quiet_def row_ok_def pending_def active_def)

lemma quiet_start: "row_ok r \<Longrightarrow> qr_status r = StatusClaimed \<Longrightarrow> quiet r (r\<lparr>qr_status := StatusRunning, qr_error := e\<rparr>)"
  by (simp add: quiet_def row_ok_def pending_def active_def)

lemma quiet_cancel: "row_ok r \<Longrightarrow> pending r \<Longrightarrow> quiet r (cancel_row n r)"
  by (simp add: quiet_def row_ok_def pending_def active_def cancel_row_def terminalJobStatus_def)

lemma quiet_event: "row_ok r \<Longrightarrow> quiet r (r\<lparr>qr_force := f, qr_recovery := x, qr_not_before := nb\<rparr>)"
  "row_ok r \<Longrightarrow> quiet r (r\<lparr>qr_force := f\<rparr>)"
  by (simp_all add: quiet_def row_ok_def pending_def active_def)

lemma quiet_merge: "row_ok r \<Longrightarrow> quiet r (merge_pending j e nb inc r)"
  by (simp add: quiet_def row_ok_def pending_def active_def merge_pending_def)

lemmas quiet_rows = quiet_finish quiet_heartbeat quiet_start quiet_cancel quiet_event quiet_merge

lemma first_created_in: "first_created rows = Some r \<Longrightarrow> r \<in> set rows"
  unfolding first_created_def by (metis (no_types) list.case_eq_if list.set_sel(1) option.distinct(1) option.sel set_sort)

lemma first_created_None [simp]: "first_created rows = None \<longleftrightarrow> rows = []"
proof (cases "sort_key qr_created rows")
  case Nil
  then show ?thesis by (metis first_created_def list.simps(4) set_empty set_sort)
next
  case (Cons a as)
  then have "rows \<noteq> []" by (metis list.distinct(1) set_empty set_sort)
  with Cons show ?thesis by (simp add: first_created_def)
qed

lemma pending_selection:
  assumes "queuePendingSelection target rows = Some p"
  obtains r where "r \<in> set rows" "qr_id r = p" "pending r" "qr_pending_key r = Some target"
  using assms by (auto simp: queuePendingSelection_def pending_def dest!: first_created_in)

lemma recovery_selection:
  assumes "queueRecoverySelection target lease rows = Some p"
  obtains r where "r \<in> set rows" "qr_id r = p" "pending r" "qr_pending_key r = Some target" "qr_recovery r = Some lease"
  using assms by (auto simp: queueRecoverySelection_def pending_def dest!: first_created_in)

lemma pending_selection_none:
  assumes "queuePendingSelection target rows = None" and "r \<in> set rows" and "qr_pending_key r = Some target"
  shows "\<not> pending r"
proof
  assume "pending r"
  then have "r \<in> set (filter (\<lambda>r. qr_pending_key r = Some target \<and> qr_status r = StatusPending) rows)"
    using assms by (simp add: pending_def)
  then have "filter (\<lambda>r. qr_pending_key r = Some target \<and> qr_status r = StatusPending) rows \<noteq> []" by force
  then show False using assms(1) unfolding queuePendingSelection_def by simp
qed

lemma lease_row_active: "lease_row sts j r \<Longrightarrow> set sts \<subseteq> {StatusClaimed, StatusRunning} \<Longrightarrow> active r"
  by (auto simp: lease_row_def active_def)

section \<open>Every transaction preserves it\<close>

lemma inv_lease_txn:
  assumes "table_inv used (qd_rows d)" and "\<And>r. r \<in> set (qd_rows d) \<Longrightarrow> sel r \<Longrightarrow> quiet r (upd r)"
  shows "table_inv used (qd_rows (snd (lease_txn sel upd d)))"
  using table_inv_update [OF assms] by (simp add: lease_txn_def)

lemma inv_create_row:
  assumes "table_inv used (qd_rows d)" and "id_fresh d (qr_id r)" and "row_ok r" and "pending r"
  shows "table_inv used (qd_rows (snd (create_row kind r d)))"
  using table_inv_create [OF assms(1) _ _ assms(3,4)] assms(1,2) by (simp add: create_row_def id_fresh_def)

lemma row_ok_new: "row_ok (new_row i t f x n)"
  by (simp add: row_ok_def new_row_def pending_def)

lemma new_row_id [simp]: "qr_id (new_row i t f x n) = i"
  by (simp add: new_row_def)

lemma inv_enqueue:
  assumes "table_inv used (qd_rows d)" and "id_fresh d i"
  shows "table_inv used (qd_rows (snd (enqueuePendingSQL kind now i target force census d)))"
proof (cases census)
  case None
  then show ?thesis using assms inv_create_row [OF assms(1) _ row_ok_new] by (simp add: enqueuePendingSQL_def)
next
  case (Some p)
  have "table_inv used (update_rows (\<lambda>r. qr_id r = p)
      (\<lambda>r. r\<lparr>qr_force := (if force then True else qr_force r), qr_recovery := None, qr_not_before := None\<rparr>) (qd_rows d))"
    by (rule table_inv_update [OF assms(1)]) (simp only: quiet_event table_invD(2) [OF assms(1)])
  then show ?thesis using assms(1) by (simp add: enqueuePendingSQL_def Some Let_def del: if_True)
qed

lemma inv_ensure:
  assumes "table_inv used (qd_rows d)" and "id_fresh d i"
  shows "table_inv used (qd_rows (snd (ensureJobSuccessorSQL kind now i j force census d)))"
proof (cases census)
  case None
  then show ?thesis using assms inv_create_row [OF assms(1) _ row_ok_new] by (simp add: ensureJobSuccessorSQL_def Let_def)
next
  case (Some p)
  have "table_inv used (update_rows (\<lambda>r. qr_id r = p)
      (\<lambda>r. r\<lparr>qr_force := (if force then True else qr_force r)\<rparr>) (qd_rows d))"
    by (rule table_inv_update [OF assms(1)]) (simp only: quiet_event table_invD(2) [OF assms(1)])
  then show ?thesis using assms(1) by (simp add: ensureJobSuccessorSQL_def Some Let_def)
qed

lemma inv_claim:
  assumes "table_inv used (qd_rows d)" and "lease \<notin> used"
  shows "table_inv (insert lease used) (qd_rows (snd (claimSelectedJobSQL now i who lease d)))"
proof -
  have "table_inv (insert lease used) (update_rows (\<lambda>r. qr_id r = i \<and> qr_status r = StatusPending) (claim_row who lease now) (qd_rows d))"
    by (rule table_inv_one [OF assms(1), of _ i _ lease])
      (use assms(2) in \<open>auto simp: claim_row_def row_ok_def pending_def active_def\<close>)
  then show ?thesis by (simp add: claimSelectedJobSQL_def Let_def)
qed

lemma inv_hand_back:
  assumes inv: "table_inv used (qd_rows d)"
    and sel: "\<And>r. r \<in> set (qd_rows d) \<Longrightarrow> sel r \<Longrightarrow> qr_id r = j_id j \<and> qr_target r = j_target j"
    and sel': "\<And>r. sel r \<Longrightarrow> qr_id r = j_id j"
    and bk: "\<And>r. qr_id (back r) = qr_id r \<and> qr_target (back r) = qr_target r \<and> qr_lease (back r) = None"
    and bk': "\<And>r. qr_target r = j_target j \<Longrightarrow> row_ok (back r)"
    and merge: "\<And>r. row_ok r \<Longrightarrow> quiet r (merge r)"
  shows "table_inv used (qd_rows (snd (hand_back sel back merge superseded j now census d)))"
proof (cases census)
  case None
  have "table_inv used (update_rows sel back (qd_rows d))" if nk: "\<not> key_taken (j_target j) (j_id j) (qd_rows d)"
  proof (rule table_inv_one [OF inv, of _ "j_id j"])
    fix r s assume r: "r \<in> set (qd_rows d)" "sel r" and s: "s \<in> set (qd_rows d)" "qr_id s \<noteq> j_id j" "pending s"
    show "qr_target s \<noteq> qr_target r"
      using nk s sel [OF r] row_ok_key [OF table_invD(2) [OF inv s(1)]] by (auto simp: key_taken_def list_ex_iff)
  qed (use sel sel' bk bk' in auto)
  then show ?thesis using inv None by (simp add: hand_back_def Let_def)
next
  case (Some p)
  have m: "table_inv used (update_rows (\<lambda>r. qr_id r = p) merge (qd_rows d))"
    by (rule table_inv_update [OF inv]) (simp add: merge table_invD(2) [OF inv])
  have "table_inv used (update_rows sel (finish_row StatusCanceled superseded now)
      (update_rows (\<lambda>r. qr_id r = p) merge (qd_rows d)))"
    by (rule table_inv_update [OF m]) (simp add: quiet_finish terminalJobStatus_def)
  then show ?thesis using inv Some by (simp add: hand_back_def Let_def)
qed

lemma inv_fail_successor:
  assumes inv: "table_inv used (qd_rows d)"
  shows "table_inv used (qd_rows (snd (failJobWithSuccessorSQL now j err census d)))"
proof (cases census)
  case None
  have "table_inv used (update_rows (lease_row [StatusRunning] j)
      (\<lambda>r. (r\<lparr>qr_status := StatusFailed, qr_attempts := a, qr_error := err, qr_not_before := None,
         qr_finished := Some now, qr_pending_key := None\<rparr>)\<lparr>qr_lease := None\<rparr>) (qd_rows d))" for a
    by (rule table_inv_update [OF inv]) (simp add: quiet_def row_ok_def pending_def active_def terminalJobStatus_def)
  then show ?thesis using inv None by (simp add: failJobWithSuccessorSQL_def Let_def)
next
  case (Some p)
  let ?failed = "update_rows (\<lambda>r. qr_id r = p) (\<lambda>r. r\<lparr>qr_status := StatusFailed, qr_attempts := j_attempts j + 1,
      qr_error := err, qr_not_before := None, qr_finished := Some now, qr_pending_key := None\<rparr>) (qd_rows d)"
  have "table_inv used (update_rows (lease_row [StatusRunning] j)
      (finish_row StatusCanceled (''attempts exhausted by pending successor: '' @ err) now) ?failed)"
    if sel: "queueRecoverySelection (j_target j) (j_lease j) (qd_rows d) = Some p"
  proof -
    obtain x where x: "x \<in> set (qd_rows d)" "qr_id x = p" "pending x" using recovery_selection [OF sel] by blast
    have "qr_lease r = None" if "r \<in> set (qd_rows d)" "qr_id r = p" for r
      using row_eq_id [OF inv x(1) that(1)] x that table_invD(2) [OF inv] by (auto simp: row_ok_def)
    then have "table_inv used ?failed"
      by (intro table_inv_update [OF inv]) (simp add: quiet_def row_ok_def pending_def active_def terminalJobStatus_def)
    then show ?thesis by (rule table_inv_update) (simp add: quiet_finish terminalJobStatus_def)
  qed
  then show ?thesis using inv Some by (simp add: failJobWithSuccessorSQL_def Let_def)
qed

lemma inv_cancel:
  assumes inv: "table_inv used (qd_rows d)"
  shows "table_inv used (qd_rows (snd (cancelPendingJobsSQL now target ids d)))"
proof -
  have "table_inv used (qd_rows (snd (lease_txn (\<lambda>r. P r \<and> qr_target r = target \<and> qr_status r = StatusPending) (cancel_row now) d)))" for P
    by (rule inv_lease_txn [OF inv]) (simp add: quiet_cancel table_invD(2) [OF inv] pending_def)
  from this [of "\<lambda>_. True"] this [of "\<lambda>r. qr_id r \<in> set ids"] show ?thesis
    using inv by (simp add: cancelPendingJobsSQL_def Let_def)
qed

lemma target_okD: "target_ok d j \<Longrightarrow> r \<in> set (qd_rows d) \<Longrightarrow> lease_row [StatusClaimed, StatusRunning] j r \<Longrightarrow>
    qr_target r = j_target j"
  by (simp add: target_ok_def list_all_iff)

lemma inv_return:
  assumes "table_inv used (qd_rows d)" and "target_ok d j"
  shows "table_inv used (qd_rows (snd (returnToPendingSQL now j err nb increment fence census d)))"
  unfolding returnToPendingSQL_def
  by (rule inv_hand_back [OF assms(1)])
    (use target_okD [OF assms(2)] quiet_merge in \<open>auto simp: lease_row_def back_to_pending_def reset_row_def row_ok_def pending_def\<close>)

lemma inv_defer:
  assumes "table_inv used (qd_rows d)" and "target_ok d j"
  shows "table_inv used (qd_rows (snd (deferJobSQL now j err nb census d)))"
  unfolding deferJobSQL_def
  by (rule inv_hand_back [OF assms(1)])
    (use target_okD [OF assms(2)] quiet_event(2) in \<open>auto simp: lease_row_def reset_row_def row_ok_def pending_def\<close>)

lemma inv_lease_updates:
  assumes inv: "table_inv used (qd_rows d)"
  shows "table_inv used (qd_rows (snd (heartbeat_txn now j d)))"
    "table_inv used (qd_rows (snd (start_txn err j d)))"
    "st = StatusDone \<or> st = StatusFailed \<Longrightarrow> table_inv used (qd_rows (snd (finish_txn now st err j d)))"
    "table_inv used (qd_rows (snd (reap_fail_txn now fence j d)))"
    "table_inv used (qd_rows (snd (delete_txn ids d)))"
proof -
  note ok = table_invD(2) [OF inv]
  show "table_inv used (qd_rows (snd (heartbeat_txn now j d)))"
    unfolding heartbeat_txn_def by (rule inv_lease_txn [OF inv]) (simp add: quiet_heartbeat ok)
  show "table_inv used (qd_rows (snd (start_txn err j d)))"
    unfolding start_txn_def by (rule inv_lease_txn [OF inv]) (rule quiet_start [OF ok], auto simp: lease_row_def)
  show "table_inv used (qd_rows (snd (finish_txn now st err j d)))" if "st = StatusDone \<or> st = StatusFailed"
    unfolding finish_txn_def by (rule inv_lease_txn [OF inv], rule quiet_finish) (use that in \<open>auto simp: terminalJobStatus_def\<close>)
  show "table_inv used (qd_rows (snd (reap_fail_txn now fence j d)))"
    unfolding reap_fail_txn_def by (rule inv_lease_txn [OF inv], rule quiet_finish) (simp add: terminalJobStatus_def)
  show "table_inv used (qd_rows (snd (delete_txn ids d)))"
    using table_inv_filter [OF inv] by (simp add: delete_txn_def Let_def)
qed

lemma inv_run_txn:
  assumes inv: "table_inv used (qd_rows d)" and ok: "txn_ok used d t"
  shows "table_inv (used \<union> drawn t) (qd_rows (snd (run_txn kind now t d)))"
proof (cases t)
  case (TCreate i target)
  then show ?thesis using inv_create_row [OF inv _ row_ok_new] ok by (simp add: create_txn_def)
next
  case (TClaim i who lease)
  then show ?thesis using inv_claim [OF inv] ok by simp
qed (use ok inv_enqueue [OF inv] inv_ensure [OF inv] inv_lease_updates [OF inv] inv_return [OF inv] inv_defer [OF inv]
    inv_fail_successor [OF inv] inv_cancel [OF inv] in simp_all)

interpretation job_table: invariant_system qinit "qstep kind" "\<lambda>s. table_inv (fst s) (qd_rows (snd s))" for kind
proof
  fix s assume "qinit s"
  then show "table_inv (fst s) (qd_rows (snd s))"
    by (simp add: qinit_def table_inv_def one_pending_def own_leases_def)
next
  fix s s' assume "table_inv (fst s) (qd_rows (snd s))" "qstep kind s s'"
  then show "table_inv (fst s') (qd_rows (snd s'))" by (auto elim!: qstepE intro: inv_run_txn)
qed

section \<open>Leases\<close>

fun lease_of :: "txn \<Rightarrow> job option" where
  "lease_of (TEnsure i j force census) = Some j"
| "lease_of (THeartbeat j) = Some j"
| "lease_of (TStart err j) = Some j"
| "lease_of (TFinish st err j) = Some j"
| "lease_of (TReapFail fence j) = Some j"
| "lease_of (TReturn j err nb increment fence census) = Some j"
| "lease_of (TDefer j err nb census) = Some j"
| "lease_of (TFailSuccessor j err census) = Some j"
| "lease_of _ = None"

fun settling :: "txn \<Rightarrow> bool" where
  "settling (TFinish st err j) = True"
| "settling (TReapFail fence j) = True"
| "settling (TReturn j err nb increment fence census) = True"
| "settling (TDefer j err nb census) = True"
| "settling (TFailSuccessor j err census) = True"
| "settling _ = False"

definition holds :: "gostring \<Rightarrow> qrow list \<Rightarrow> bool" where
  "holds l rows \<longleftrightarrow> (\<exists>r \<in> set rows. qr_lease r = Some l)"

lemma update_rows_none: "(\<And>r. r \<in> set rows \<Longrightarrow> \<not> sel r) \<Longrightarrow> update_rows sel f rows = rows \<and> updated_rows sel f rows = []"
  by (auto simp: update_rows_def updated_rows_def map_idI)

lemma unleased: "\<not> holds (j_lease j) rows \<Longrightarrow> r \<in> set rows \<Longrightarrow> \<not> lease_row sts j r"
  by (auto simp: holds_def lease_row_def)

lemma fenced_out:
  assumes no: "\<not> holds (j_lease j) (qd_rows d)" and "lease_of t = Some j"
  shows "run_txn kind now t d = (Inr [], d)"
proof -
  have u: "update_rows (\<lambda>r. lease_row sts j r \<and> P r) f (qd_rows d) = qd_rows d"
    "updated_rows (\<lambda>r. lease_row sts j r \<and> P r) f (qd_rows d) = []"
    "\<not> list_ex (\<lambda>r. lease_row sts j r \<and> P r) (qd_rows d)" for sts P f
    using update_rows_none [of "qd_rows d" "\<lambda>r. lease_row sts j r \<and> P r" f] unleased [OF no] by (auto simp: list_ex_iff)
  have v: "update_rows (lease_row sts j) f (qd_rows d) = qd_rows d"
    "updated_rows (lease_row sts j) f (qd_rows d) = []" "\<not> list_ex (lease_row sts j) (qd_rows d)" for sts f
    using u [where sts = sts and P = "\<lambda>_. True"] by simp_all
  have h: "hand_back (\<lambda>r. lease_row sts j r \<and> P r) bk merge s j n c d = (Inr [], d)"
    "hand_back (lease_row sts j) bk merge s j n c d = (Inr [], d)" for sts P bk merge s n c
    by (simp_all add: hand_back_def u(3) v(3))
  show ?thesis using assms(2)
    by (cases t) (simp_all add: ensureJobSuccessorSQL_def heartbeat_txn_def start_txn_def finish_txn_def
      reap_fail_txn_def lease_txn_def returnToPendingSQL_def deferJobSQL_def failJobWithSuccessorSQL_def u v h)
qed

lemma holds_update:
  assumes "holds l (update_rows sel f rows)" and "\<And>r. qr_lease (f r) = qr_lease r \<or> qr_lease (f r) = None"
  shows "holds l rows"
proof -
  obtain r where r: "r \<in> set rows" "qr_lease (if sel r then f r else r) = Some l"
    using assms(1) by (auto simp: holds_def update_rows_def)
  then show ?thesis using assms(2) [of r] by (cases "sel r") (auto simp: holds_def)
qed

lemma holds_create: "holds l (qd_rows (snd (create_row kind (new_row i t f x n) d))) \<Longrightarrow> holds l (qd_rows d)"
  by (auto simp: holds_def create_row_def new_row_def split: if_splits)

lemma holds_hand_back:
  assumes "holds l (qd_rows (snd (hand_back sel bk merge s j n c d)))"
    and "\<And>r. qr_lease (bk r) = None" and "\<And>r. qr_lease (merge r) = qr_lease r"
  shows "holds l (qd_rows d)"
proof (cases c)
  case None
  then show ?thesis using assms(1) holds_update [of l sel bk "qd_rows d"] assms(2)
    by (auto simp: hand_back_def Let_def split: if_splits)
next
  case (Some p)
  have "holds l (update_rows sel (finish_row StatusCanceled s n) (update_rows (\<lambda>r. qr_id r = p) merge (qd_rows d))) \<Longrightarrow> holds l (qd_rows d)"
    by (drule holds_update, simp add: finish_row_def, drule holds_update) (simp_all add: assms(3))
  then show ?thesis using assms(1) Some by (auto simp: hand_back_def Let_def split: if_splits)
qed

lemma holds_lease_txn:
  "holds l (qd_rows (snd (lease_txn sel f d))) \<Longrightarrow> (\<And>r. qr_lease (f r) = qr_lease r \<or> qr_lease (f r) = None) \<Longrightarrow>
    holds l (qd_rows d)"
  by (simp add: lease_txn_def) (drule holds_update, auto)

lemma holds_fail_successor:
  assumes "holds l (qd_rows (snd (failJobWithSuccessorSQL now j err census d)))"
  shows "holds l (qd_rows d)"
proof (cases census)
  case None
  then show ?thesis using assms holds_update [of l "lease_row [StatusRunning] j" _ "qd_rows d"]
    by (auto simp: failJobWithSuccessorSQL_def Let_def split: if_splits)
next
  case (Some p)
  let ?f = "\<lambda>r. r\<lparr>qr_status := StatusFailed, qr_attempts := j_attempts j + 1,
      qr_error := err, qr_not_before := None, qr_finished := Some now, qr_pending_key := None\<rparr>"
  have "holds l (update_rows sel (finish_row StatusCanceled s n) (update_rows (\<lambda>r. qr_id r = p) ?f (qd_rows d))) \<Longrightarrow> holds l (qd_rows d)" for sel s n
    by (drule holds_update, simp add: finish_row_def, drule holds_update) simp_all
  then show ?thesis using assms Some by (auto simp: failJobWithSuccessorSQL_def Let_def split: if_splits)
qed

lemma holds_simple:
  "holds l (qd_rows (snd (heartbeat_txn now j d))) \<Longrightarrow> holds l (qd_rows d)"
  "holds l (qd_rows (snd (start_txn err j d))) \<Longrightarrow> holds l (qd_rows d)"
  "holds l (qd_rows (snd (finish_txn now st err j d))) \<Longrightarrow> holds l (qd_rows d)"
  "holds l (qd_rows (snd (reap_fail_txn now fence j d))) \<Longrightarrow> holds l (qd_rows d)"
  unfolding heartbeat_txn_def start_txn_def finish_txn_def reap_fail_txn_def
  by (erule holds_lease_txn, simp add: finish_row_def)+

lemma holds_handed:
  "holds l (qd_rows (snd (returnToPendingSQL now j err nb increment fence census d))) \<Longrightarrow> holds l (qd_rows d)"
  "holds l (qd_rows (snd (deferJobSQL now j err nb census d))) \<Longrightarrow> holds l (qd_rows d)"
  unfolding returnToPendingSQL_def deferJobSQL_def
  by (erule holds_hand_back, simp_all add: back_to_pending_def reset_row_def merge_pending_def)+

lemma holds_events:
  "holds l (qd_rows (snd (enqueuePendingSQL kind now i target force census d))) \<Longrightarrow> holds l (qd_rows d)"
  "holds l (qd_rows (snd (ensureJobSuccessorSQL kind now i j force census d))) \<Longrightarrow> holds l (qd_rows d)"
  by (auto simp: enqueuePendingSQL_def ensureJobSuccessorSQL_def Let_def split: if_splits option.splits
      dest!: holds_create elim!: holds_update)

lemma holds_cancel: "holds l (qd_rows (snd (cancelPendingJobsSQL now target ids d))) \<Longrightarrow> holds l (qd_rows d)"
  by (auto simp: cancelPendingJobsSQL_def Let_def cancel_row_def split: if_splits elim!: holds_lease_txn)

lemma holds_claim: "holds l (qd_rows (snd (claimSelectedJobSQL now i who lease d))) \<Longrightarrow> holds l (qd_rows d) \<or> l = lease"
  by (auto simp: claimSelectedJobSQL_def Let_def holds_def update_rows_def claim_row_def)

lemma holds_run_txn:
  assumes "holds l (qd_rows (snd (run_txn kind now t d)))"
  shows "holds l (qd_rows d) \<or> l \<in> drawn t"
proof (cases t)
  case (TDelete ids)
  then show ?thesis using assms by (auto simp: delete_txn_def Let_def holds_def)
qed (use assms in \<open>auto simp: create_txn_def dest: holds_create holds_simple holds_handed holds_events holds_cancel
    holds_claim holds_fail_successor\<close>)

text \<open>A token that was drawn and is held by no row stays that way.\<close>

lemma dead_forever:
  assumes "(qstep kind)\<^sup>*\<^sup>* (used, d) (used', d')" and "l \<in> used" and "\<not> holds l (qd_rows d)"
  shows "\<not> holds l (qd_rows d')"
proof -
  have "l \<in> fst s' \<and> \<not> holds l (qd_rows (snd s'))"
    if "(qstep kind)\<^sup>*\<^sup>* s s'" "l \<in> fst s" "\<not> holds l (qd_rows (snd s))" for s s'
    using that
  proof (induction rule: rtranclp_induct)
    case (step y z)
    from step.hyps(2) show ?case
    proof (rule qstepE)
      fix u x t n assume s: "y = (u, x)" "z = (u \<union> drawn t, snd (run_txn kind n t x))" "txn_ok u x t"
      then have "l \<in> u" "\<not> holds l (qd_rows x)" using step.IH step.prems by auto
      moreover have "l \<notin> drawn t" using s(3) \<open>l \<in> u\<close> by (cases t) auto
      ultimately show ?thesis using holds_run_txn [of l kind n t x] s by auto
    qed
  qed simp
  from this [OF assms(1)] assms(2,3) show ?thesis by simp
qed

lemma settled:
  assumes inv: "table_inv used rows" and "updated_rows sel f rows \<noteq> []"
    and sel: "\<And>r. sel r \<Longrightarrow> qr_lease r = Some l" and f: "\<And>r. qr_lease (f r) = None"
  shows "\<not> holds l (update_rows sel f rows)"
proof
  assume "holds l (update_rows sel f rows)"
  then obtain s where s: "s \<in> set rows" "qr_lease (if sel s then f s else s) = Some l"
    by (auto simp: holds_def update_rows_def)
  then have ns: "\<not> sel s" "qr_lease s = Some l" using f [of s] by (auto split: if_splits)
  obtain r where r: "r \<in> set rows" "sel r" using assms(2) by (auto simp: updated_rows_def filter_empty_conv)
  have "qr_id r = qr_id s" using own_leasesD [OF table_invD(4) [OF inv] r(1) s(1)] sel [OF r(2)] ns(2) by simp
  then have "r = s" using row_eq_id [OF inv r(1) s(1)] by simp
  with ns r show False by simp
qed

lemma settled_hand_back:
  assumes inv: "table_inv used (qd_rows d)" and "hand_back sel bk merge s j n c d = (Inr out, d')" and "out \<noteq> []"
    and sel: "\<And>r. sel r \<Longrightarrow> qr_lease r = Some l" and bk: "\<And>r. qr_lease (bk r) = None"
    and merge: "\<And>r. row_ok r \<Longrightarrow> quiet r (merge r)"
  shows "\<not> holds l (qd_rows d')"
proof (cases c)
  case None
  then show ?thesis using assms(2,3) settled [OF inv _ sel bk]
    by (auto simp: hand_back_def Let_def split: if_splits)
next
  case (Some p)
  have m: "table_inv used (update_rows (\<lambda>r. qr_id r = p) merge (qd_rows d))"
    by (rule table_inv_update [OF inv]) (simp add: merge table_invD(2) [OF inv])
  have "qr_lease (finish_row StatusCanceled s n r) = None" for r by (simp add: finish_row_def)
  from settled [OF m _ sel this] show ?thesis
    using assms(2,3) Some by (auto simp: hand_back_def Let_def split: if_splits)
qed

lemma settled_fail_successor:
  assumes inv: "table_inv used (qd_rows d)" and run: "failJobWithSuccessorSQL now j err c d = (Inr out, d')" and "out \<noteq> []"
  shows "\<not> holds (j_lease j) (qd_rows d')"
proof (cases c)
  case None
  have "\<not> holds (j_lease j) (update_rows (lease_row [StatusRunning] j) f (qd_rows d))"
    if "updated_rows (lease_row [StatusRunning] j) f (qd_rows d) \<noteq> []" "\<And>r. qr_lease (f r) = None" for f
    using settled [OF inv that(1) _ that(2)] by (simp add: lease_row_def)
  then show ?thesis using assms(2,3) None by (auto simp: failJobWithSuccessorSQL_def Let_def split: if_splits)
next
  case (Some p)
  let ?f = "\<lambda>r. r\<lparr>qr_status := StatusFailed, qr_attempts := j_attempts j + 1,
      qr_error := err, qr_not_before := None, qr_finished := Some now, qr_pending_key := None\<rparr>"
  have own: "list_ex (lease_row [StatusRunning] j) (qd_rows d)" and c: "queueRecoverySelection (j_target j) (j_lease j) (qd_rows d) = Some p"
    using assms(2,3) Some by (auto simp: failJobWithSuccessorSQL_def Let_def split: if_splits)
  obtain x where x: "x \<in> set (qd_rows d)" "qr_id x = p" "pending x" using recovery_selection [OF c] by blast
  have "qr_lease r = None" if "r \<in> set (qd_rows d)" "qr_id r = p" for r
    using row_eq_id [OF inv x(1) that(1)] x that table_invD(2) [OF inv] by (auto simp: row_ok_def)
  then have "table_inv used (update_rows (\<lambda>r. qr_id r = p) ?f (qd_rows d))"
    by (intro table_inv_update [OF inv]) (simp add: quiet_def row_ok_def pending_def active_def terminalJobStatus_def)
  from settled [OF this, of "lease_row [StatusRunning] j" "finish_row StatusCanceled s n" "j_lease j" for s n]
  show ?thesis using run assms(3) Some own c
    by (auto simp: failJobWithSuccessorSQL_def Let_def lease_row_def finish_row_def)
qed

lemma settled_run_txn:
  assumes inv: "table_inv used (qd_rows d)" and "lease_of t = Some j" and "settling t"
    and run: "run_txn kind now t d = (Inr out, d')" and "out \<noteq> []"
  shows "\<not> holds (j_lease j) (qd_rows d')"
proof -
  have simple: "\<not> holds (j_lease j) (qd_rows d')"
    if "lease_txn (\<lambda>r. lease_row sts j r \<and> P r) f d = (Inr out, d')" "\<And>r. qr_lease (f r) = None" for sts P f
    using settled [OF inv _ _ that(2), where sel = "\<lambda>r. lease_row sts j r \<and> P r" and l = "j_lease j"] that(1) assms(5)
    by (auto simp: lease_txn_def lease_row_def)
  have fin: "qr_lease (finish_row st e n r) = None" for st e n r by (simp add: finish_row_def)
  show ?thesis
  proof (cases t)
    case (TFinish st err k)
    then show ?thesis using simple [of "[StatusRunning]" "\<lambda>_. True" "finish_row st err now"] assms fin
      by (simp add: finish_txn_def)
  next
    case (TReapFail fence k)
    then show ?thesis using simple [of "[StatusClaimed, StatusRunning]" "fenced (Some fence)"
        "finish_row StatusFailed ''reaped: stale claim, attempts exhausted'' now"] assms fin
      by (simp add: reap_fail_txn_def)
  next
    case (TReturn k err nb increment fence census)
    with assms have "hand_back (\<lambda>r. lease_row [StatusClaimed, StatusRunning] j r \<and> fenced fence r)
       (back_to_pending j err nb increment) (merge_pending j err nb increment)
       (''superseded by pending successor: '' @ err) j now census d = (Inr out, d')"
      by (simp add: returnToPendingSQL_def)
    then show ?thesis
      by (rule settled_hand_back [OF inv]) (use assms(5) quiet_merge in \<open>auto simp: lease_row_def back_to_pending_def reset_row_def\<close>)
  next
    case (TDefer k err nb census)
    with assms have "deferJobSQL now j err nb census d = (Inr out, d')" by simp
    then show ?thesis unfolding deferJobSQL_def
      by (rule settled_hand_back [OF inv]) (use assms(5) quiet_event(2) in \<open>auto simp: lease_row_def reset_row_def\<close>)
  next
    case (TFailSuccessor k err census)
    then show ?thesis using settled_fail_successor [OF inv] assms by auto
  qed (use assms in simp_all)
qed

lemma lease_used:
  assumes "table_inv used (qd_rows d)" and "lease_of t = Some j" and "run_txn kind now t d = (Inr out, d')" and "out \<noteq> []"
  shows "j_lease j \<in> used"
proof (rule ccontr)
  assume "j_lease j \<notin> used"
  then have "\<not> holds (j_lease j) (qd_rows d)" using table_invD(5) [OF assms(1)] by (auto simp: holds_def)
  from fenced_out [OF this assms(2)] assms(3,4) show False by simp
qed

section \<open>Work is never dropped\<close>

text \<open>A row a worker holds a job for.\<close>

definition carries :: "job \<Rightarrow> qrow \<Rightarrow> bool" where
  "carries j r \<longleftrightarrow> j_id j = qr_id r \<and> j_target j = qr_target r \<and> j_force j = qr_force r \<and>
     qr_lease r = Some (j_lease j) \<and> qr_claimed_by r = Some (j_who j)"

definition queued :: "qrow \<Rightarrow> qrow list \<Rightarrow> bool" where
  "queued r rows \<longleftrightarrow> (\<exists>s \<in> set rows. pending s \<and> qr_target s = qr_target r \<and> (qr_force r \<longrightarrow> qr_force s))"

lemma hand_back_works:
  assumes inv: "table_inv used (qd_rows d)" and r: "r \<in> set (qd_rows d)" "sel r" "carries j r"
    and sel: "\<And>x. sel x \<Longrightarrow> active x \<and> qr_id x = j_id j"
    and bk: "\<And>x. pending (bk x) \<and> qr_target (bk x) = qr_target x \<and> qr_force (bk x) = qr_force x"
    and merge: "\<And>x. qr_status (merge x) = qr_status x \<and> qr_target (merge x) = qr_target x \<and>
      qr_id (merge x) = qr_id x \<and> (j_force j \<longrightarrow> qr_force (merge x))"
    and c: "c = queuePendingSelection (qr_target r) (qd_rows d)"
  shows "\<exists>out d'. hand_back sel bk merge s j n c d = (Inr out, d') \<and> out \<noteq> [] \<and> queued r (qd_rows d')"
proof -
  let ?rows = "qd_rows d"
  have jt: "j_target j = qr_target r" and ji: "j_id j = qr_id r" using r(3) by (simp_all add: carries_def)
  have own: "list_ex sel ?rows" using r by (auto simp: list_ex_iff)
  have dis: "\<not> (active x \<and> pending x)" for x by (auto simp: active_def pending_def)
  show ?thesis
  proof (cases c)
    case None
    have "\<not> key_taken (j_target j) (j_id j) ?rows"
      using pending_selection_none [of "qr_target r" ?rows] c None row_ok_key table_invD(2) [OF inv]
      unfolding key_taken_def list_ex_iff jt by (metis option.distinct(1))
    then have run: "hand_back sel bk merge s j n c d = (Inr (updated_rows sel bk ?rows), d\<lparr>qd_rows := update_rows sel bk ?rows\<rparr>)"
      using own c None by (simp add: hand_back_def jt Let_def)
    moreover have "updated_rows sel bk ?rows \<noteq> []" using r by (auto simp: updated_rows_def filter_empty_conv)
    moreover have "queued r (update_rows sel bk ?rows)"
      unfolding queued_def update_rows_def using r(1,2) bk [of r] by (intro bexI [of _ "bk r"]) force+
    ultimately show ?thesis by simp
  next
    case (Some p)
    have csel: "queuePendingSelection (qr_target r) ?rows = Some p" using c Some by simp
    obtain x where x: "x \<in> set ?rows" "qr_id x = p" "pending x" "qr_pending_key x = Some (qr_target r)"
      using pending_selection [OF csel] by blast
    have xt: "qr_target x = qr_target r" using row_ok_key [OF table_invD(2) [OF inv x(1)]] x(3,4) by simp
    let ?merged = "update_rows (\<lambda>y. qr_id y = p) merge ?rows"
    let ?cancel = "finish_row StatusCanceled s n"
    have pm: "pending (merge x)" using merge [of x] x(3) by (simp add: pending_def)
    have "r \<noteq> x" using sel [OF r(2)] x(3) dis by blast
    then have "qr_id r \<noteq> p" using row_eq_id [OF inv r(1) x(1)] x(2) by auto
    then have rm: "r \<in> set ?merged" using r(1) by (force simp: update_rows_def)
    have "merge x \<in> set ?merged" using x(1,2) by (force simp: update_rows_def)
    moreover have "\<not> sel (merge x)" using sel pm dis by blast
    ultimately have "merge x \<in> set (update_rows sel ?cancel ?merged)" unfolding update_rows_def [of sel] by force
    then have "queued r (update_rows sel ?cancel ?merged)"
      unfolding queued_def using pm xt merge [of x] r(3) by (intro bexI [of _ "merge x"]) (auto simp: carries_def)
    moreover have "updated_rows sel ?cancel ?merged \<noteq> []" using rm r(2) by (auto simp: updated_rows_def filter_empty_conv)
    moreover have "hand_back sel bk merge s j n c d = (Inr (updated_rows sel ?cancel ?merged), d\<lparr>qd_rows := update_rows sel ?cancel ?merged\<rparr>)"
      using own csel Some by (simp add: hand_back_def jt Let_def)
    ultimately show ?thesis by simp
  qed
qed

lemma lease_row_carries: "carries j r \<Longrightarrow> active r \<Longrightarrow> lease_row [StatusClaimed, StatusRunning] j r"
  by (simp add: carries_def lease_row_def active_def)

text \<open>A pending row that no recovery owns, through any transaction other than its own claim and a
  cancellation of its target.\<close>

definition keeps :: "qrow \<Rightarrow> qrow \<Rightarrow> bool" where
  "keeps r s \<longleftrightarrow> qr_id s = qr_id r \<and> qr_target s = qr_target r \<and> pending s \<and> qr_recovery s = None \<and>
     (qr_force r \<longrightarrow> qr_force s)"

definition kept :: "qrow \<Rightarrow> qrow list \<Rightarrow> bool" where
  "kept r rows \<longleftrightarrow> (\<exists>s \<in> set rows. keeps r s)"

lemma kept_update:
  assumes "kept r rows" and "\<And>s. s \<in> set rows \<Longrightarrow> keeps r s \<Longrightarrow> sel s \<Longrightarrow> keeps s (f s)"
  shows "kept r (update_rows sel f rows)"
proof -
  obtain s where s: "s \<in> set rows" "keeps r s" using assms(1) by (auto simp: kept_def)
  have "keeps r (if sel s then f s else s)" using assms(2) [OF s] s(2) by (auto simp: keeps_def)
  then show ?thesis using s(1) unfolding kept_def update_rows_def set_map by blast
qed

lemma keeps_not_leased: "keeps r s \<Longrightarrow> \<not> lease_row [StatusRunning] j s" "keeps r s \<Longrightarrow> \<not> lease_row [StatusClaimed] j s"
    "keeps r s \<Longrightarrow> \<not> lease_row [StatusClaimed, StatusRunning] j s"
  by (auto simp: keeps_def lease_row_def pending_def)

lemma kept_lease_txn:
  assumes "kept r (qd_rows d)" and "\<And>s. keeps r s \<Longrightarrow> \<not> sel s"
  shows "kept r (qd_rows (snd (lease_txn sel f d)))"
  using kept_update [OF assms(1), of sel f] assms(2) by (auto simp: lease_txn_def)

lemma kept_create: "kept r (qd_rows d) \<Longrightarrow> kept r (qd_rows (snd (create_row kind x d)))"
  by (auto simp: kept_def create_row_def)

lemma kept_hand_back:
  assumes k: "kept r (qd_rows d)" and sel: "\<And>s. keeps r s \<Longrightarrow> \<not> sel s" and merge: "\<And>s. keeps r s \<Longrightarrow> keeps s (merge s)"
  shows "kept r (qd_rows (snd (hand_back sel bk merge s j n c d)))"
proof -
  have a: "kept r (update_rows sel f rows)" if "kept r rows" for f rows by (rule kept_update [OF that]) (use sel in blast)
  have b: "kept r (update_rows (\<lambda>x. qr_id x = p) merge (qd_rows d))" for p by (rule kept_update [OF k]) (use merge in blast)
  show ?thesis using k a [OF k] a [OF b] by (auto simp: hand_back_def Let_def split: option.split)
qed

lemma kept_fail_successor:
  assumes inv: "table_inv used (qd_rows d)" and k: "kept r (qd_rows d)"
  shows "kept r (qd_rows (snd (failJobWithSuccessorSQL now j err c d)))"
proof (cases c)
  case None
  have "kept r (update_rows (lease_row [StatusRunning] j) f (qd_rows d))" for f
    by (rule kept_update [OF k]) (use keeps_not_leased in blast)
  then show ?thesis using k None by (simp add: failJobWithSuccessorSQL_def Let_def)
next
  case (Some p)
  have "kept r (update_rows (lease_row [StatusRunning] j) g (update_rows (\<lambda>x. qr_id x = p) f (qd_rows d)))"
    if c: "queueRecoverySelection (j_target j) (j_lease j) (qd_rows d) = Some p" for f g
  proof -
    obtain x where x: "x \<in> set (qd_rows d)" "qr_id x = p" "qr_recovery x = Some (j_lease j)"
      using recovery_selection [OF c] by blast
    have "qr_id s \<noteq> p" if "s \<in> set (qd_rows d)" "keeps r s" for s
    proof
      assume "qr_id s = p"
      then have "x = s" using row_eq_id [OF inv x(1) that(1)] x(2) by simp
      then show False using x(3) that(2) by (simp add: keeps_def)
    qed
    then have "kept r (update_rows (\<lambda>x. qr_id x = p) f (qd_rows d))" by (intro kept_update [OF k]) blast
    then show ?thesis by (rule kept_update) (use keeps_not_leased in blast)
  qed
  then show ?thesis using k Some by (simp add: failJobWithSuccessorSQL_def Let_def)
qed

fun takes :: "qrow \<Rightarrow> txn \<Rightarrow> bool" where
  "takes r (TClaim i who lease) \<longleftrightarrow> i = qr_id r"
| "takes r (TCancel target ids) \<longleftrightarrow> target = qr_target r"
| "takes r _ \<longleftrightarrow> False"

lemma kept_run_txn:
  assumes inv: "table_inv used (qd_rows d)" and k: "kept r (qd_rows d)" and t: "\<not> takes r t"
  shows "kept r (qd_rows (snd (run_txn kind now t d)))"
proof (cases t)
  case (TEnqueue i target force census)
  have "kept r (update_rows (\<lambda>x. qr_id x = p) (\<lambda>r. r\<lparr>qr_force := (if force then True else qr_force r),
      qr_recovery := None, qr_not_before := None\<rparr>) (qd_rows d))" for p
    by (rule kept_update [OF k]) (simp add: keeps_def pending_def)
  then show ?thesis using k kept_create [OF k] TEnqueue by (simp add: enqueuePendingSQL_def Let_def split: option.split)
next
  case (TEnsure i j force census)
  have "kept r (update_rows (\<lambda>x. qr_id x = p) (\<lambda>r. r\<lparr>qr_force := (if force then True else qr_force r)\<rparr>) (qd_rows d))" for p
    by (rule kept_update [OF k]) (simp add: keeps_def pending_def)
  then show ?thesis using k kept_create [OF k] TEnsure by (simp add: ensureJobSuccessorSQL_def Let_def split: option.split)
next
  case (TClaim i who lease)
  have "kept r (update_rows (\<lambda>r. qr_id r = i \<and> qr_status r = StatusPending) (claim_row who lease now) (qd_rows d))"
    by (rule kept_update [OF k]) (use t TClaim in \<open>simp add: keeps_def\<close>)
  then show ?thesis using TClaim by (simp add: claimSelectedJobSQL_def Let_def)
next
  case (TReturn j err nb increment fence census)
  then show ?thesis unfolding TReturn run_txn.simps returnToPendingSQL_def
    by (intro kept_hand_back [OF k]) (simp_all add: keeps_not_leased, simp add: keeps_def merge_pending_def pending_def)
next
  case (TDefer j err nb census)
  then show ?thesis unfolding TDefer run_txn.simps deferJobSQL_def
    by (intro kept_hand_back [OF k]) (rule keeps_not_leased, assumption, simp add: keeps_def pending_def)
next
  case (TCancel target ids)
  have "kept r (qd_rows (snd (lease_txn (\<lambda>x. P x \<and> qr_target x = target \<and> qr_status x = StatusPending) (cancel_row now) d)))" for P
    by (rule kept_lease_txn [OF k]) (use t TCancel in \<open>simp add: keeps_def\<close>)
  from this [of "\<lambda>_. True"] this [of "\<lambda>r. qr_id r \<in> set ids"] show ?thesis
    using k TCancel by (simp add: cancelPendingJobsSQL_def Let_def)
next
  case (TDelete ids)
  then show ?thesis using k by (auto simp: delete_txn_def Let_def kept_def keeps_def pending_def terminalJobStatus_def)
qed (use k kept_create [OF k] kept_fail_successor [OF inv k] in \<open>auto simp: create_txn_def heartbeat_txn_def start_txn_def
    finish_txn_def reap_fail_txn_def keeps_not_leased intro!: kept_lease_txn\<close>)

section \<open>Properties\<close>

text \<open>
  C22. In every interleaving of the queue's transactions a job table keeps its shape: record
  identifiers are distinct, a target has at most one pending row, a row carries a lease exactly while
  it is claimed or running, and no two rows share a lease.
\<close>

theorem job_table_invariant:
  assumes "reachable qinit (qstep kind) (used, d)"
  shows "distinct (map qr_id (qd_rows d)) \<and>
    (\<forall>r \<in> set (qd_rows d). \<forall>s \<in> set (qd_rows d).
       (pending r \<and> pending s \<and> qr_target r = qr_target s \<longrightarrow> r = s) \<and>
       (qr_lease r \<noteq> None \<and> qr_lease r = qr_lease s \<longrightarrow> r = s) \<and>
       (qr_lease r \<noteq> None \<longleftrightarrow> active r) \<and> (qr_pending_key r \<noteq> None \<longleftrightarrow> pending r))"
proof -
  have inv: "table_inv used (qd_rows d)" using job_table.reachable_invar [OF assms] by simp
  have "(pending r \<and> pending s \<and> qr_target r = qr_target s \<longrightarrow> r = s) \<and>
      (qr_lease r \<noteq> None \<and> qr_lease r = qr_lease s \<longrightarrow> r = s) \<and>
      (qr_lease r \<noteq> None \<longleftrightarrow> active r) \<and> (qr_pending_key r \<noteq> None \<longleftrightarrow> pending r)"
    if "r \<in> set (qd_rows d)" "s \<in> set (qd_rows d)" for r s
  proof -
    have "pending r \<and> pending s \<and> qr_target r = qr_target s \<longrightarrow> r = s"
      using one_pendingD [OF table_invD(3) [OF inv] that] row_eq_id [OF inv that] by blast
    moreover have "qr_lease r \<noteq> None \<and> qr_lease r = qr_lease s \<longrightarrow> r = s"
      using own_leasesD [OF table_invD(4) [OF inv] that] row_eq_id [OF inv that] by blast
    moreover have "active r \<Longrightarrow> \<not> pending r" by (auto simp: active_def pending_def)
    ultimately show ?thesis
      using table_invD(2) [OF inv that(1)] by (cases "pending r"; cases "active r") (simp_all add: row_ok_def)
  qed
  with table_invD(1) [OF inv] show ?thesis by blast
qed

definition sample_queue :: qdata where
  "sample_queue = snd (run_txn ''indexing_job'' 5 (TEnqueue ''a1'' ''repo'' True None)
     \<lparr>qd_rows = [], qd_latest = (\<lambda>_. None)\<rparr>)"

lemma sample_queue_rows: "qd_rows sample_queue = [new_row ''a1'' ''repo'' True None 5]"
  by (simp add: sample_queue_def enqueuePendingSQL_def queuePendingSelection_def create_row_def key_taken_def)

lemma sample_reachable: "reachable qinit (qstep ''indexing_job'') ({}, sample_queue)"
proof -
  let ?d = "\<lparr>qd_rows = [], qd_latest = (\<lambda>_. None)\<rparr>"
  have "reachable qinit (qstep ''indexing_job'') ({}, ?d)" by (rule reachable_init) (simp add: qinit_def)
  moreover have "qstep ''indexing_job'' ({}, ?d) ({} \<union> drawn (TEnqueue ''a1'' ''repo'' True None), sample_queue)"
    unfolding sample_queue_def by (rule qstep_txn) (simp add: id_fresh_def)
  ultimately show ?thesis by (auto intro: reachable_step)
qed

definition sample_claimed :: qdata where
  "sample_claimed = snd (run_txn ''indexing_job'' 7 (TClaim ''a1'' ''w'' ''l1'') sample_queue)"

definition sample_job :: job where
  "sample_job = toJob (claim_row ''w'' ''l1'' 7 (new_row ''a1'' ''repo'' True None 5))"

lemma sample_claimed_rows: "qd_rows sample_claimed = [claim_row ''w'' ''l1'' 7 (new_row ''a1'' ''repo'' True None 5)]"
  by (simp add: sample_claimed_def claimSelectedJobSQL_def sample_queue_rows update_rows_def new_row_def Let_def)

lemma sample_claimed_reachable: "reachable qinit (qstep ''indexing_job'') ({''l1''}, sample_claimed)"
proof -
  have "qstep ''indexing_job'' ({}, sample_queue) ({} \<union> drawn (TClaim ''a1'' ''w'' ''l1''), sample_claimed)"
    unfolding sample_claimed_def by (rule qstep_txn) simp
  with sample_reachable show ?thesis by (auto intro: reachable_step)
qed

theorem job_table_invariant_witness:
  "reachable qinit (qstep ''indexing_job'') ({''l1''}, sample_claimed) \<and> distinct (map qr_id (qd_rows sample_claimed)) \<and>
    qr_lease (hd (qd_rows sample_claimed)) = Some ''l1'' \<and> active (hd (qd_rows sample_claimed)) \<and>
    qr_pending_key (hd (qd_rows sample_claimed)) = None"
  using sample_claimed_reachable job_table_invariant [OF sample_claimed_reachable]
  by (simp add: sample_claimed_rows claim_row_def new_row_def)

text \<open>
  C23. A lease settles at most once. When a transaction that ends a claim (finish, requeue or release,
  defer, fail with successor, or the reaper's failure) has returned rows, then in every later state of
  the table, whatever other clients do, every transaction that names the same lease changes nothing
  and returns no rows -- which the store reports as \<open>ErrLeaseLost\<close>. A worker that was reaped can
  therefore neither complete nor requeue nor keep alive the work of its successor.
\<close>

theorem lease_settles_once:
  assumes "reachable qinit (qstep kind) (used, d)" and "txn_ok used d t"
    and "lease_of t = Some j" and "settling t"
    and "run_txn kind now t d = (Inr out, d1)" and "out \<noteq> []"
    and "(qstep kind)\<^sup>*\<^sup>* (used \<union> drawn t, d1) (used2, d2)"
    and "lease_of t2 = Some j2" and "j_lease j2 = j_lease j"
  shows "run_txn kind now2 t2 d2 = (Inr [], d2)"
proof -
  have inv: "table_inv used (qd_rows d)" using job_table.reachable_invar [OF assms(1)] by simp
  have "\<not> holds (j_lease j) (qd_rows d1)" by (rule settled_run_txn [OF inv assms(3,4,5,6)])
  moreover have "j_lease j \<in> used \<union> drawn t" using lease_used [OF inv assms(3,5,6)] by simp
  ultimately have "\<not> holds (j_lease j2) (qd_rows d2)" using dead_forever [OF assms(7)] assms(9) by simp
  then show ?thesis using fenced_out assms(8) by blast
qed

theorem lease_settles_once_witness:
  "run_txn ''indexing_job'' 9 (THeartbeat sample_job) (snd (run_txn ''indexing_job'' 8 (TReturn sample_job [] 0 False None None) sample_claimed)) =
   (Inr [], snd (run_txn ''indexing_job'' 8 (TReturn sample_job [] 0 False None None) sample_claimed))"
proof -
  let ?t = "TReturn sample_job [] 0 False None None"
  obtain out d1 where run: "run_txn ''indexing_job'' 8 ?t sample_claimed = (Inr out, d1)" "out \<noteq> []"
    by (simp add: returnToPendingSQL_def hand_back_def Let_def sample_claimed_rows sample_job_def toJob_def lease_row_def
      claim_row_def new_row_def fenced_def queuePendingSelection_def key_taken_def updated_rows_def option_string_def)
  have "txn_ok {''l1''} sample_claimed ?t"
    by (simp add: target_ok_def sample_claimed_rows sample_job_def toJob_def new_row_def claim_row_def)
  from lease_settles_once [OF sample_claimed_reachable this _ _ run rtranclp.rtrancl_refl, of sample_job "THeartbeat sample_job" sample_job 9]
  show ?thesis unfolding run(1) by simp
qed

text \<open>The steps of an interleaving that neither claim a given row nor cancel its target.\<close>

inductive qstep_other :: "gostring \<Rightarrow> qrow \<Rightarrow> gostring set \<times> qdata \<Rightarrow> gostring set \<times> qdata \<Rightarrow> bool" for kind r where
  qstep_other: "txn_ok used d t \<Longrightarrow> \<not> takes r t \<Longrightarrow>
     qstep_other kind r (used, d) (used \<union> drawn t, snd (run_txn kind now t d))"

inductive_cases qstep_otherE: "qstep_other kind r s s'"

lemma qstep_other_kept:
  assumes "(qstep_other kind r)\<^sup>*\<^sup>* s s'" and "table_inv (fst s) (qd_rows (snd s))" and "kept r (qd_rows (snd s))"
  shows "table_inv (fst s') (qd_rows (snd s')) \<and> kept r (qd_rows (snd s'))"
  using assms
proof (induction rule: rtranclp_induct)
  case (step y z)
  from step.hyps(2) show ?case
    by (rule qstep_otherE) (use step.IH [OF step.prems] in \<open>auto intro: inv_run_txn kept_run_txn\<close>)
qed simp

text \<open>
  C24. An event is never dropped. Once a pending row that no recovery lease owns is in the table (the
  row an ordinary \<open>EnqueuePending\<close> creates or coalesces into), then, whatever admissible transactions
  other clients run -- retries and releases of an older claim that merge into it, crash-recovery
  successors, final failures, reaping, deletion of history -- the row stays pending for its target,
  with its force flag, until it is itself claimed or its target is canceled. In particular a worker's
  final failure never consumes it.
\<close>

theorem enqueued_event_kept:
  assumes "reachable qinit (qstep kind) (used, d)" and "r \<in> set (qd_rows d)" and "pending r" and "qr_recovery r = None"
    and "(qstep_other kind r)\<^sup>*\<^sup>* (used, d) (used', d')"
  shows "\<exists>s \<in> set (qd_rows d'). qr_id s = qr_id r \<and> qr_target s = qr_target r \<and> pending s \<and>
    qr_recovery s = None \<and> (qr_force r \<longrightarrow> qr_force s)"
proof -
  have "table_inv used (qd_rows d)" using job_table.reachable_invar [OF assms(1)] by simp
  moreover have "kept r (qd_rows d)" using assms(2-4) by (auto simp: kept_def keeps_def)
  ultimately show ?thesis using qstep_other_kept [OF assms(5)] by (simp add: kept_def keeps_def)
qed

theorem enqueued_event_kept_witness:
  "\<exists>s \<in> set (qd_rows (snd (run_txn ''indexing_job'' 6 (TEnqueue ''b2'' ''repo'' False (Some ''a1'')) sample_queue))).
    qr_id s = ''a1'' \<and> qr_target s = ''repo'' \<and> pending s \<and> qr_recovery s = None \<and> (True \<longrightarrow> qr_force s)"
proof -
  let ?r = "new_row ''a1'' ''repo'' True None 5" and ?t = "TEnqueue ''b2'' ''repo'' False (Some ''a1'')"
  have "qstep_other ''indexing_job'' ?r ({}, sample_queue) ({} \<union> drawn ?t, snd (run_txn ''indexing_job'' 6 ?t sample_queue))"
    by (rule qstep_other) (simp_all add: id_fresh_def sample_queue_rows)
  then have "(qstep_other ''indexing_job'' ?r)\<^sup>*\<^sup>* ({}, sample_queue) ({} \<union> drawn ?t, snd (run_txn ''indexing_job'' 6 ?t sample_queue))"
    by (rule r_into_rtranclp)
  from enqueued_event_kept [OF sample_reachable _ _ _ this] show ?thesis
    by (simp add: sample_queue_rows new_row_def pending_def)
qed

lemma handed_back:
  assumes inv: "table_inv used (qd_rows d)" and "r \<in> set (qd_rows d)" and "active r" and "carries j r"
    and "t = TReturn j err nb increment None (queuePendingSelection (qr_target r) (qd_rows d)) \<or>
         t = TDefer j err nb (queuePendingSelection (qr_target r) (qd_rows d))"
  shows "\<exists>out d'. run_txn kind now t d = (Inr out, d') \<and> out \<noteq> [] \<and> \<not> holds (j_lease j) (qd_rows d') \<and>
    queued r (qd_rows d')"
proof -
  let ?c = "queuePendingSelection (qr_target r) (qd_rows d)"
  have l: "lease_row [StatusClaimed, StatusRunning] j r" by (rule lease_row_carries [OF assms(4,3)])
  have sel: "active x \<and> qr_id x = j_id j" if "lease_row [StatusClaimed, StatusRunning] j x" for x
    using lease_row_active [OF that] that by (simp add: lease_row_def)
  obtain out d' where run: "run_txn kind now t d = (Inr out, d')" "out \<noteq> []" "queued r (qd_rows d')"
  proof (cases "t = TDefer j err nb ?c")
    case True
    have "\<exists>out d'. deferJobSQL now j err nb ?c d = (Inr out, d') \<and> out \<noteq> [] \<and> queued r (qd_rows d')"
      unfolding deferJobSQL_def
      by (rule hand_back_works [OF inv assms(2) _ assms(4), where sel = "lease_row [StatusClaimed, StatusRunning] j"])
        (use sel l in \<open>auto simp: reset_row_def pending_def\<close>)
    with True that show thesis by auto
  next
    case False
    have "\<exists>out d'. returnToPendingSQL now j err nb increment None ?c d = (Inr out, d') \<and> out \<noteq> [] \<and> queued r (qd_rows d')"
      unfolding returnToPendingSQL_def
      by (rule hand_back_works [OF inv assms(2) _ assms(4), where sel = "\<lambda>x. lease_row [StatusClaimed, StatusRunning] j x \<and> fenced None x"])
        (use sel l in \<open>auto simp: reset_row_def pending_def fenced_def back_to_pending_def merge_pending_def\<close>)
    with False assms(5) that show thesis by auto
  qed
  have "\<not> holds (j_lease j) (qd_rows d')"
    by (rule settled_run_txn [OF inv _ _ run(1,2)]) (use assms(5) in auto)
  with run show ?thesis by auto
qed

text \<open>
  Handing work back conserves it. When a worker that still holds its lease requeues, releases or
  defers its job against the current pending census, the transaction succeeds, the lease is gone, and
  the table has a pending row for the target that carries the job's force flag: the row itself, or the
  pending successor that a fresher event had left.
\<close>

theorem handed_back_work_queued:
  assumes "reachable qinit (qstep kind) (used, d)" and "r \<in> set (qd_rows d)" and "active r" and "carries j r"
    and "t = TReturn j err nb increment None (queuePendingSelection (qr_target r) (qd_rows d)) \<or>
         t = TDefer j err nb (queuePendingSelection (qr_target r) (qd_rows d))"
  shows "\<exists>out d'. run_txn kind now t d = (Inr out, d') \<and> out \<noteq> [] \<and> \<not> holds (j_lease j) (qd_rows d') \<and>
    (\<exists>s \<in> set (qd_rows d'). pending s \<and> qr_target s = qr_target r \<and> (qr_force r \<longrightarrow> qr_force s))"
  using handed_back [OF job_table.reachable_invar [OF assms(1), simplified] assms(2-5)] unfolding queued_def by blast

theorem handed_back_work_queued_witness:
  "\<exists>out d'. run_txn ''indexing_job'' 8 (TDefer sample_job ''wait'' 20 None) sample_claimed = (Inr out, d') \<and> out \<noteq> [] \<and>
    \<not> holds ''l1'' (qd_rows d') \<and>
    (\<exists>s \<in> set (qd_rows d'). pending s \<and> qr_target s = ''repo'' \<and> (True \<longrightarrow> qr_force s))"
proof -
  let ?r = "claim_row ''w'' ''l1'' 7 (new_row ''a1'' ''repo'' True None 5)"
  have c: "queuePendingSelection (qr_target ?r) (qd_rows sample_claimed) = None"
    by (simp add: sample_claimed_rows queuePendingSelection_def claim_row_def)
  have "carries sample_job ?r"
    by (simp add: carries_def sample_job_def toJob_def claim_row_def new_row_def option_string_def)
  from handed_back_work_queued [OF sample_claimed_reachable _ _ this, of "TDefer sample_job ''wait'' 20 None" "''wait''" 20] c
  show ?thesis by (simp add: sample_claimed_rows sample_job_def toJob_def claim_row_def new_row_def option_string_def active_def)
qed

end
