(* ===== verification/Job_Queue.thy ===== *)
theory Job_Queue
  imports Job_Safety
begin

text \<open>
  The queue methods of \<open>internal/store/surreal.go\<close> as their callers run them: each is a bounded or
  unbounded loop of a census query and a fenced transaction. The database is a table with a script of
  what the coming calls meet: transactions of other clients that commit first, a fault before or after
  the call's own transaction, and the cancellation of the caller's context. Other clients' transactions
  take effect when they are admissible. Record identifiers and lease tokens are drawn by parameters.
\<close>

section \<open>Database calls\<close>

datatype qfault = QOk | QFail serr | QLost serr

record qevent =
  qe_others :: "(int \<times> txn) list"
  qe_now :: int
  qe_fault :: qfault
  qe_cancels :: bool

record queue =
  q_data :: qdata
  q_now :: int
  q_script :: "qevent list"
  q_done :: bool

definition held :: "qdata \<Rightarrow> gostring set" where
  "held d = set (concat (map (\<lambda>r. case qr_lease r of None \<Rightarrow> [] | Some l \<Rightarrow> [l]) (qd_rows d)))"

fun run_others :: "gostring \<Rightarrow> (int \<times> txn) list \<Rightarrow> qdata \<Rightarrow> qdata" where
  "run_others kind [] d = d"
| "run_others kind ((n, t) # ts) d =
     run_others kind ts (if txn_ok (held d) d t then snd (run_txn kind n t d) else d)"

definition queue_call ::
  "gostring \<Rightarrow> (int \<Rightarrow> qdata \<Rightarrow> (serr + 'a) \<times> qdata) \<Rightarrow> queue \<Rightarrow> (serr + 'a) \<times> queue" where
  "queue_call kind f q =
     (case q_script q of
        [] \<Rightarrow> (case f (q_now q) (q_data q) of (r, d) \<Rightarrow> (r, q\<lparr>q_data := d\<rparr>))
      | ev # rest \<Rightarrow>
          let d1 = run_others kind (qe_others ev) (q_data q);
              q1 = q\<lparr>q_data := d1, q_now := qe_now ev, q_script := rest, q_done := q_done q \<or> qe_cancels ev\<rparr>
          in (case qe_fault ev of
                QOk \<Rightarrow> (case f (qe_now ev) d1 of (r, d) \<Rightarrow> (r, q1\<lparr>q_data := d\<rparr>))
              | QFail e \<Rightarrow> (Inl e, q1)
              | QLost e \<Rightarrow> (Inl e, q1\<lparr>q_data := snd (f (qe_now ev) d1)\<rparr>)))"

definition queuePendingIDs ::
  "gostring \<Rightarrow> gostring \<Rightarrow> gostring \<Rightarrow> queue \<Rightarrow> (serr + gostring option) \<times> queue" where
  "queuePendingIDs kind target lease q =
     (if q_done q then (Inl ErrCtxDone, q)
      else case queue_call kind (\<lambda>now d. (Inr (if lease = [] then queuePendingSelection target (qd_rows d)
              else queueRecoverySelection target lease (qd_rows d)), d)) q of
             (Inl e, q') \<Rightarrow> (Inl e, q')
           | (Inr ids, q') \<Rightarrow> if q_done q' then (Inl ErrCtxDone, q') else (Inr ids, q'))"

text \<open>The retry loop the queue methods share: \<open>maxQueueRetries\<close> iterations in all.\<close>

fun queue_retry :: "nat \<Rightarrow> (queue \<Rightarrow> (serr + 'a) \<times> queue) \<Rightarrow> queue \<Rightarrow> (serr + 'a) \<times> queue" where
  "queue_retry n body q =
     (case body q of
        (Inr x, q') \<Rightarrow> (Inr x, q')
      | (Inl e, q') \<Rightarrow>
          (case n of 0 \<Rightarrow> (Inl e, q')
           | Suc m \<Rightarrow> if isRetryableEnqueue e \<and> \<not> q_done q' then queue_retry m body q' else (Inl e, q')))"

declare queue_retry.simps [simp del]

definition maxQueueRetries :: nat where
  "maxQueueRetries = 64"

text \<open>One census and one transaction per iteration; the transaction knows the caller's clock at the start
  of the iteration.\<close>

definition fenced_write ::
  "gostring \<Rightarrow> gostring \<Rightarrow> gostring \<Rightarrow> (int \<Rightarrow> gostring option \<Rightarrow> int \<Rightarrow> qdata \<Rightarrow> txn_result) \<Rightarrow> queue \<Rightarrow>
   (serr + qrow list) \<times> queue" where
  "fenced_write kind target lease write =
     queue_retry (maxQueueRetries - 1) (\<lambda>q.
       case queuePendingIDs kind target lease q of
         (Inl e, q') \<Rightarrow> (Inl e, q')
       | (Inr ids, q') \<Rightarrow> queue_call kind (write (q_now q) ids) q')"

section \<open>Queue methods\<close>

abbreviation ErrNotFound :: serr where "ErrNotFound \<equiv> ErrNew ''not found''"
abbreviation ErrConflict :: serr where "ErrConflict \<equiv> ErrNew ''conflict''"
abbreviation ErrLeaseLost :: serr where "ErrLeaseLost \<equiv> ErrNew ''job lease lost''"

definition lease_lost :: "job \<Rightarrow> serr" where
  "lease_lost j = ErrWrap (''job '' @ j_id j @ '': '') ErrLeaseLost"

definition CreateJob :: "gostring \<Rightarrow> (qdata \<Rightarrow> gostring) \<Rightarrow> gostring \<Rightarrow> queue \<Rightarrow> (serr + job) \<times> queue" where
  "CreateJob kind fresh target q =
     (case queue_call kind (\<lambda>now d. create_txn kind now (fresh d) target d) q of
        (Inl e, q') \<Rightarrow> (Inl e, q')
      | (Inr [], q') \<Rightarrow> (Inl (ErrNew ''create: empty result''), q')
      | (Inr (r # _), q') \<Rightarrow> (Inr (toJob r), q'))"

definition EnqueuePending ::
  "gostring \<Rightarrow> (qdata \<Rightarrow> gostring) \<Rightarrow> gostring \<Rightarrow> bool \<Rightarrow> queue \<Rightarrow> (serr + job) \<times> queue" where
  "EnqueuePending kind fresh target force q =
     (case fenced_write kind target [] (\<lambda>start ids now d. enqueuePendingSQL kind now (fresh d) target force ids d) q of
        (Inl e, q') \<Rightarrow> (Inl e, q')
      | (Inr [], q') \<Rightarrow> (Inl (ErrNew ''enqueue: empty result''), q')
      | (Inr (r # _), q') \<Rightarrow> (Inr (toJob r), q'))"

definition EnsureJobSuccessor ::
  "gostring \<Rightarrow> (qdata \<Rightarrow> gostring) \<Rightarrow> job \<Rightarrow> bool \<Rightarrow> queue \<Rightarrow> (serr + job) \<times> queue" where
  "EnsureJobSuccessor kind fresh j force q =
     (if j_id j = [] \<or> j_lease j = [] \<or> j_who j = [] \<or> kind = [] \<or> j_target j = []
      then (Inl (the (WithSuccessorRetry (Some (lease_lost j)))), q)
      else case fenced_write kind (j_target j) [] (\<lambda>start ids now d. ensureJobSuccessorSQL kind now (fresh d) j force ids d) q of
        (Inl e, q') \<Rightarrow> (Inl (the (WithSuccessorRetry (Some e))), q')
      | (Inr [], q') \<Rightarrow> (Inl (the (WithSuccessorRetry (Some (lease_lost j)))), q')
      | (Inr (r # _), q') \<Rightarrow> (Inr (toJob r), q'))"

definition claimCandidateSQL :: "int \<Rightarrow> qrow list \<Rightarrow> qrow option" where
  "claimCandidateSQL now rows = first_created
     (filter (\<lambda>r. qr_status r = StatusPending \<and> (case qr_not_before r of None \<Rightarrow> True | Some nb \<Rightarrow> nb \<le> now)) rows)"

text \<open>\<open>ClaimJob\<close>. Its loop is unbounded unless the store was opened with bounded claims; \<open>None\<close> means
  that the fuel ran out. \<open>lease n\<close> is the token drawn in iteration \<open>n\<close>, absent when the random source
  fails.\<close>

definition claim_again :: "bool \<Rightarrow> nat \<Rightarrow> bool" where
  "claim_again bounded attempt \<longleftrightarrow> \<not> bounded \<or> attempt + 1 < maxQueueRetries"

fun claim_loop ::
  "nat \<Rightarrow> gostring \<Rightarrow> bool \<Rightarrow> (nat \<Rightarrow> gostring option) \<Rightarrow> gostring \<Rightarrow> nat \<Rightarrow> queue \<Rightarrow> ((serr + job) \<times> queue) option" where
  "claim_loop 0 kind bounded lease who attempt q = None"
| "claim_loop (Suc fuel) kind bounded lease who attempt q =
     (if q_done q then Some (Inl ErrCtxDone, q)
      else case queue_call kind (\<lambda>now d. (Inr (claimCandidateSQL now (qd_rows d)), d)) q of
        (Inl e, q1) \<Rightarrow>
          if isRetryable e \<and> claim_again bounded attempt
          then claim_loop fuel kind bounded lease who (attempt + 1) q1 else Some (Inl e, q1)
      | (Inr None, q1) \<Rightarrow> Some (Inl (ErrWrap ''no pending: '' ErrNotFound), q1)
      | (Inr (Some r), q1) \<Rightarrow>
          if \<not> validJobCursorID (qr_id r)
          then Some (Inl (ErrWrap ''claim candidate: '' (ErrNew ''job row has an unsupported record id'')), q1)
          else if q_done q1 then Some (Inl ErrCtxDone, q1)
          else case lease attempt of
            None \<Rightarrow> Some (Inl (ErrNew ''generate job lease''), q1)
          | Some l \<Rightarrow>
              (case queue_call kind (\<lambda>now d. claimSelectedJobSQL now (qr_id r) who l d) q1 of
                 (Inl e, q2) \<Rightarrow>
                   if isRetryable e \<and> claim_again bounded attempt
                   then claim_loop fuel kind bounded lease who (attempt + 1) q2 else Some (Inl e, q2)
               | (Inr (c # _), q2) \<Rightarrow> Some (Inr (toJob c), q2)
               | (Inr [], q2) \<Rightarrow>
                   if bounded \<and> attempt + 1 \<ge> maxQueueRetries
                   then Some (Inl (ErrWrap ''claim selection attempts exhausted: '' ErrConflict), q2)
                   else claim_loop fuel kind bounded lease who (attempt + 1) q2))"

definition updateLease :: "gostring \<Rightarrow> job \<Rightarrow> (int \<Rightarrow> qdata \<Rightarrow> txn_result) \<Rightarrow> queue \<Rightarrow> serr option \<times> queue" where
  "updateLease kind j write q =
     (if j_id j = [] \<or> j_lease j = [] \<or> j_who j = [] then (Some (lease_lost j), q)
      else case queue_call kind write q of
        (Inl e, q') \<Rightarrow> (Some e, q')
      | (Inr [], q') \<Rightarrow> (Some (lease_lost j), q')
      | (Inr (r # rs), q') \<Rightarrow> (None, q'))"

definition HeartbeatJob :: "gostring \<Rightarrow> job \<Rightarrow> queue \<Rightarrow> serr option \<times> queue" where
  "HeartbeatJob kind j = updateLease kind j (\<lambda>now. heartbeat_txn now j)"

definition SetJobStatus :: "gostring \<Rightarrow> job \<Rightarrow> gostring \<Rightarrow> gostring \<Rightarrow> queue \<Rightarrow> serr option \<times> queue" where
  "SetJobStatus kind j st err q =
     (if st = StatusRunning then updateLease kind j (\<lambda>now. start_txn err j) q
      else if st = StatusDone \<or> st = StatusFailed then updateLease kind j (\<lambda>now. finish_txn now st err j) q
      else (Some (ErrNew (''invalid leased job transition to '' @ st)), q))"

definition contains_job :: "gostring \<Rightarrow> qrow list \<Rightarrow> bool" where
  "contains_job i rows \<longleftrightarrow> list_ex (\<lambda>r. qr_id r = i) rows"

definition returnToPending ::
  "gostring \<Rightarrow> job \<Rightarrow> gostring \<Rightarrow> int \<Rightarrow> bool \<Rightarrow> (int \<times> int) option \<Rightarrow> queue \<Rightarrow> serr option \<times> queue" where
  "returnToPending kind j err nb increment fence q =
     (if j_id j = [] \<or> j_lease j = [] \<or> j_who j = [] then (Some (lease_lost j), q)
      else case fenced_write kind (j_target j) [] (\<lambda>start ids now d. returnToPendingSQL now j err nb increment fence ids d) q of
        (Inl e, q') \<Rightarrow> (Some e, q')
      | (Inr rows, q') \<Rightarrow> if \<not> contains_job (j_id j) rows then (Some (lease_lost j), q') else (None, q'))"

definition RequeueJob :: "gostring \<Rightarrow> job \<Rightarrow> gostring \<Rightarrow> int \<Rightarrow> queue \<Rightarrow> serr option \<times> queue" where
  "RequeueJob kind j err nb = returnToPending kind j err nb True None"

definition ReleaseJob :: "gostring \<Rightarrow> job \<Rightarrow> gostring \<Rightarrow> queue \<Rightarrow> serr option \<times> queue" where
  "ReleaseJob kind j err = returnToPending kind j err 0 False None"

definition FailJobWithSuccessor :: "gostring \<Rightarrow> job \<Rightarrow> gostring \<Rightarrow> queue \<Rightarrow> serr option \<times> queue" where
  "FailJobWithSuccessor kind j err q =
     (if j_id j = [] \<or> j_lease j = [] \<or> j_who j = [] then (Some (lease_lost j), q)
      else case fenced_write kind (j_target j) (j_lease j) (\<lambda>start ids now d. failJobWithSuccessorSQL now j err ids d) q of
        (Inl e, q') \<Rightarrow> (Some e, q')
      | (Inr rows, q') \<Rightarrow> if \<not> contains_job (j_id j) rows then (Some (lease_lost j), q') else (None, q'))"

text \<open>\<open>DeferJob\<close>: the new \<open>not_before\<close> counts from the caller's clock; the persisted one is returned, or
  none when a successor won.\<close>

definition DeferJob ::
  "gostring \<Rightarrow> job \<Rightarrow> gostring \<Rightarrow> int \<Rightarrow> queue \<Rightarrow> (serr + int option) \<times> queue" where
  "DeferJob kind j err delay q =
     (if j_id j = [] \<or> j_lease j = [] \<or> j_who j = [] \<or> kind = [] \<or> j_target j = [] \<or> delay \<le> 0
      then (Inl (lease_lost j), q)
      else case fenced_write kind (j_target j) [] (\<lambda>start ids now d. deferJobSQL now j err (start + delay) ids d) q of
        (Inl e, q') \<Rightarrow> (Inl e, q')
      | (Inr rows, q') \<Rightarrow>
          (case filter (\<lambda>r. qr_id r = j_id j \<and> (qr_status r = StatusPending \<or> qr_status r = StatusCanceled)) rows of
             [] \<Rightarrow> (Inl (lease_lost j), q')
           | r # _ \<Rightarrow>
               if qr_status r = StatusCanceled then (Inr None, q')
               else if qr_status r \<noteq> StatusPending \<or> qr_not_before r = None
               then (Inl (ErrNew ''invalid deferred state''), q')
               else (Inr (qr_not_before r), q')))"

definition CancelPendingJobs :: "gostring \<Rightarrow> gostring \<Rightarrow> queue \<Rightarrow> (serr + nat) \<times> queue" where
  "CancelPendingJobs kind target q =
     (case queue_call kind (\<lambda>now d. (Inr (cancelPendingJobSelection target (qd_rows d)), d)) q of
        (Inl e, q1) \<Rightarrow> (Inl e, q1)
      | (Inr ids, q1) \<Rightarrow>
          if q_done q1 then (Inl ErrCtxDone, q1)
          else if ids = [] then (Inr 0, q1)
          else (case queue_call kind (\<lambda>now d. cancelPendingJobsSQL now target ids d) q1 of
                  (Inl e, q2) \<Rightarrow> (Inl e, q2)
                | (Inr rows, q2) \<Rightarrow> (Inr (length rows), q2)))"

definition maxJobReapRows :: nat where
  "maxJobReapRows = 256"

definition stale_rows :: "int \<Rightarrow> qrow list \<Rightarrow> qrow list" where
  "stale_rows bound rows = take maxJobReapRows
     (filter (\<lambda>r. (qr_status r = StatusClaimed \<or> qr_status r = StatusRunning) \<and>
        (case qr_heartbeat r of None \<Rightarrow> False | Some h \<Rightarrow> h < bound)) rows)"

definition reapOne :: "gostring \<Rightarrow> job \<Rightarrow> int \<Rightarrow> int \<Rightarrow> queue \<Rightarrow> serr option \<times> queue" where
  "reapOne kind j bound maxAttempts q =
     (case j_heartbeat j of
        None \<Rightarrow> (Some (ErrWrap ''job has no observed heartbeat: '' ErrLeaseLost), q)
      | Some h \<Rightarrow>
          if j_attempts j + 1 \<ge> maxAttempts
          then updateLease kind j (\<lambda>now. reap_fail_txn now (h, bound) j) q
          else returnToPending kind j ''reaped: stale claim'' (q_now q) True (Some (h, bound)) q)"

fun reap_rows :: "gostring \<Rightarrow> int \<Rightarrow> int \<Rightarrow> job list \<Rightarrow> nat \<times> serr option \<Rightarrow> queue \<Rightarrow> (nat \<times> serr option) \<times> queue" where
  "reap_rows kind bound maxAttempts [] acc q = (acc, q)"
| "reap_rows kind bound maxAttempts (j # js) (n, err) q =
     (case reapOne kind j bound maxAttempts q of
        (None, q') \<Rightarrow> reap_rows kind bound maxAttempts js (n + 1, err) q'
      | (Some e, q') \<Rightarrow>
          reap_rows kind bound maxAttempts js
            (n, if errors_Is e ErrLeaseLost then err else if err = None then Some e else err) q')"

definition ReapStale :: "gostring \<Rightarrow> int \<Rightarrow> int \<Rightarrow> queue \<Rightarrow> (nat \<times> serr option) \<times> queue" where
  "ReapStale kind staleAfter maxAttempts q =
     (if \<not> validJobKind kind then ((0, Some (ErrNew ''reap stale jobs: invalid kind'')), q)
      else let bound = q_now q - staleAfter
        in case queue_call kind (\<lambda>now d. (Inr (stale_rows bound (qd_rows d)), d)) q of
             (Inl e, q') \<Rightarrow> ((0, Some e), q')
           | (Inr rows, q') \<Rightarrow> reap_rows kind bound maxAttempts (map toJob rows) (0, None) q')"

section \<open>The invariant through client calls\<close>

definition queue_ok :: "queue \<Rightarrow> bool" where
  "queue_ok q \<longleftrightarrow> table_inv (held (q_data q)) (qd_rows (q_data q))"

lemma held_iff: "l \<in> held d \<longleftrightarrow> holds l (qd_rows d)"
  unfolding held_def holds_def by (force split: option.splits)

lemma table_inv_held: "table_inv used (qd_rows d) \<Longrightarrow> table_inv (held d) (qd_rows d)"
  unfolding table_inv_def by (auto simp: held_iff holds_def)

lemma run_others_inv: "table_inv (held d) (qd_rows d) \<Longrightarrow>
    table_inv (held (run_others kind ts d)) (qd_rows (run_others kind ts d))"
proof (induction kind ts d rule: run_others.induct)
  case (2 kind n t ts d)
  show ?case
    using 2 table_inv_held [OF inv_run_txn [OF 2(2)], of t kind n] by (cases "txn_ok (held d) d t") simp_all
qed simp

text \<open>A call runs its transaction on a table that satisfies the invariant, and keeps the invariant if
  the transaction does.\<close>

lemma queue_call_ok:
  assumes "queue_ok q" and "\<And>now d. table_inv (held d) (qd_rows d) \<Longrightarrow>
      table_inv (held (snd (f now d))) (qd_rows (snd (f now d)))"
  shows "queue_ok (snd (queue_call kind f q))"
proof (cases "q_script q")
  case Nil
  then show ?thesis using assms(1) assms(2) [of "q_data q" "q_now q"]
    by (cases "f (q_now q) (q_data q)") (simp add: queue_call_def queue_ok_def)
next
  case (Cons ev rest)
  let ?d = "run_others kind (qe_others ev) (q_data q)"
  have d: "table_inv (held ?d) (qd_rows ?d)" using run_others_inv assms(1) by (simp add: queue_ok_def)
  show ?thesis using d assms(2) [OF d, of "qe_now ev"]
    by (cases "f (qe_now ev) ?d"; cases "qe_fault ev") (simp_all add: queue_call_def queue_ok_def Cons Let_def)
qed

lemma queue_call_Inr:
  assumes "queue_ok q" and "queue_call kind f q = (Inr x, q')"
  obtains now d where "table_inv (held d) (qd_rows d)" and "f now d = (Inr x, q_data q')"
proof (cases "q_script q")
  case Nil
  then show ?thesis using assms that [of "q_data q" "q_now q"]
    by (auto simp: queue_call_def queue_ok_def split: prod.splits)
next
  case (Cons ev rest)
  let ?d = "run_others kind (qe_others ev) (q_data q)"
  have "table_inv (held ?d) (qd_rows ?d)" using run_others_inv assms(1) by (simp add: queue_ok_def)
  then show ?thesis using assms(2) that [of ?d "qe_now ev"] Cons
    by (auto simp: queue_call_def Let_def split: qfault.splits prod.splits)
qed

lemma queuePendingIDs_ok: "queue_ok q \<Longrightarrow> queue_ok (snd (queuePendingIDs kind target lease q))"
proof -
  assume q: "queue_ok q"
  have "queue_ok (snd (queue_call kind (\<lambda>now d. (Inr (s d), d)) q))" for s :: "qdata \<Rightarrow> gostring option"
    by (rule queue_call_ok [OF q]) simp
  from this [of "\<lambda>d. if lease = [] then queuePendingSelection target (qd_rows d) else queueRecoverySelection target lease (qd_rows d)"]
  show ?thesis using q unfolding queuePendingIDs_def by (simp split: prod.split sum.split) auto
qed

lemma queue_retry_first: "body q = (Inr x, q') \<Longrightarrow> queue_retry n body q = (Inr x, q')"
  by (subst queue_retry.simps) simp

lemma queue_retry_Inr:
  assumes "queue_retry n body q = (Inr x, q')" and "I q"
    and "\<forall>q e q'. I q \<longrightarrow> body q = (Inl e, q') \<longrightarrow> I q'"
  shows "\<exists>q0. I q0 \<and> body q0 = (Inr x, q')"
  using assms(1,2)
proof (induction n arbitrary: q)
  case 0
  then show ?case by (subst (asm) queue_retry.simps) (auto split: prod.splits sum.splits)
next
  case (Suc n)
  show ?case
  proof (cases "body q")
    case (Pair r q1)
    show ?thesis
    proof (cases r)
      case (Inl e)
      with Suc.prems(1) Pair have "queue_retry n body q1 = (Inr x, q')"
        by (subst (asm) queue_retry.simps) (auto split: if_splits)
      moreover have "I q1" using assms(3) Suc.prems(2) Pair Inl by blast
      ultimately show ?thesis by (rule Suc.IH)
    next
      case (Inr y)
      with Suc.prems Pair show ?thesis by (subst (asm) queue_retry.simps) auto
    qed
  qed
qed

lemma fenced_write_Inr:
  assumes "fenced_write kind target lease write q = (Inr rows, q')" and "queue_ok q"
    and inv: "\<And>start ids now d. table_inv (held d) (qd_rows d) \<Longrightarrow>
      table_inv (held (snd (write start ids now d))) (qd_rows (snd (write start ids now d)))"
  obtains start ids now d where "table_inv (held d) (qd_rows d)" and "write start ids now d = (Inr rows, q_data q')"
proof -
  let ?body = "\<lambda>q. case queuePendingIDs kind target lease q of (Inl e, q') \<Rightarrow> (Inl e, q')
       | (Inr ids, q') \<Rightarrow> queue_call kind (write (q_now q) ids) q'"
  have "queue_ok q'" if "queue_ok q" "?body q = (Inl e, q')" for q e q'
  proof (cases "queuePendingIDs kind target lease q")
    case (Pair c q1)
    have q1: "queue_ok q1" using queuePendingIDs_ok [OF that(1), of kind target lease] Pair by simp
    have "queue_ok (snd (queue_call kind (write s ids) q1))" for s ids by (rule queue_call_ok [OF q1 inv])
    then show ?thesis using that(2) q1 Pair by (cases c) (auto, metis snd_conv)
  qed
  then have "\<forall>q e q'. queue_ok q \<longrightarrow> ?body q = (Inl e, q') \<longrightarrow> queue_ok q'" by blast
  from queue_retry_Inr [OF assms(1) [unfolded fenced_write_def] assms(2) this]
  obtain q0 where q0: "queue_ok q0" "?body q0 = (Inr rows, q')" by blast
  show ?thesis
  proof (cases "queuePendingIDs kind target lease q0")
    case (Pair c q1)
    have q1: "queue_ok q1" using queuePendingIDs_ok [OF q0(1), of kind target lease] Pair by simp
    obtain ids where "c = Inr ids" and call: "queue_call kind (write (q_now q0) ids) q1 = (Inr rows, q')"
      using q0(2) Pair by (cases c) auto
    show ?thesis by (rule queue_call_Inr [OF q1 call]) (rule that)
  qed
qed

lemma fenced_write_run:
  assumes "fenced_write kind target lease write q = (Inr rows, q')"
  shows "\<exists>start ids now d. write start ids now d = (Inr rows, q_data q')"
proof -
  have call: "\<exists>now d. f now d = (Inr x, q_data q')" if "queue_call kind f q = (Inr x, q')" for f and x :: "qrow list" and q q'
    using that by (auto simp: queue_call_def Let_def split: list.splits qfault.splits prod.splits) blast+
  obtain q0 where "(case queuePendingIDs kind target lease q0 of (Inl e, q') \<Rightarrow> (Inl e, q')
       | (Inr ids, q') \<Rightarrow> queue_call kind (write (q_now q0) ids) q') = (Inr rows, q')"
    using queue_retry_Inr [OF assms [unfolded fenced_write_def], of "\<lambda>_. True"] by blast
  then obtain ids q1 where "queue_call kind (write (q_now q0) ids) q1 = (Inr rows, q')"
    by (cases "queuePendingIDs kind target lease q0"; cases "fst (queuePendingIDs kind target lease q0)") auto
  from call [OF this] show ?thesis by blast
qed

section \<open>What a reported success means\<close>

lemma enqueue_txn_row:
  assumes inv: "table_inv used (qd_rows d)" and run: "enqueuePendingSQL kind now i target force ids d = (Inr (r # rs), d')"
  shows "r \<in> set (qd_rows d') \<and> pending r \<and> qr_pending_key r = Some target \<and> qr_not_before r = None \<and>
    qr_recovery r = None \<and> (force \<longrightarrow> qr_force r)"
proof (cases ids)
  case None
  then show ?thesis using run
    by (auto simp: enqueuePendingSQL_def create_row_def new_row_def pending_def split: if_splits)
next
  case (Some p)
  let ?f = "\<lambda>r. r\<lparr>qr_force := (if force then True else qr_force r), qr_recovery := None, qr_not_before := None\<rparr>"
  have sel: "queuePendingSelection target (qd_rows d) = Some p"
    and rows: "updated_rows (\<lambda>r. qr_id r = p) ?f (qd_rows d) = r # rs"
    and d': "qd_rows d' = update_rows (\<lambda>r. qr_id r = p) ?f (qd_rows d)"
    using run Some by (auto simp: enqueuePendingSQL_def Let_def split: if_splits)
  obtain x where x: "x \<in> set (qd_rows d)" "qr_id x = p" "pending x" "qr_pending_key x = Some target"
    using pending_selection [OF sel] by blast
  have "r \<in> set (updated_rows (\<lambda>r. qr_id r = p) ?f (qd_rows d))" unfolding rows by simp
  then obtain y where y: "y \<in> set (qd_rows d)" "qr_id y = p" "r = ?f y" by (auto simp: updated_rows_def)
  have "y = x" using row_eq_id [OF inv y(1) x(1)] x(2) y(2) by simp
  moreover have "r \<in> set (qd_rows d')" using y by (force simp: d' update_rows_def)
  ultimately show ?thesis using x y(3) by (simp add: pending_def)
qed

lemma updated_in: "set (updated_rows sel f rows) \<subseteq> set (update_rows sel f rows)"
  unfolding updated_rows_def update_rows_def by force

lemma hand_back_out: "hand_back sel bk merge s j n c d = (Inr out, d') \<Longrightarrow> set out \<subseteq> set (qd_rows d')"
  using updated_in [of sel bk "qd_rows d"]
    updated_in [of sel "finish_row StatusCanceled s n" "update_rows (\<lambda>r. qr_id r = the c) merge (qd_rows d)"]
  unfolding hand_back_def Let_def by (cases c) (auto split: if_splits)

lemma hand_back_pending:
  assumes run: "hand_back sel bk merge s j n c d = (Inr out, d')" and "out \<noteq> []"
    and sel: "\<And>x. sel x \<Longrightarrow> active x" and bk: "\<And>x. pending (bk x) \<and> qr_pending_key (bk x) = Some (j_target j)"
    and merge: "\<And>x. qr_status (merge x) = qr_status x \<and> qr_pending_key (merge x) = qr_pending_key x"
  shows "\<exists>x \<in> set (qd_rows d'). pending x \<and> qr_pending_key x = Some (j_target j)"
proof (cases c)
  case None
  have "qd_rows d' = update_rows sel bk (qd_rows d)" "out = updated_rows sel bk (qd_rows d)"
    using run assms(2) None by (auto simp: hand_back_def Let_def split: if_splits)
  moreover obtain x where "x \<in> set (qd_rows d)" "sel x" using assms(2) calculation(2) by (auto simp: updated_rows_def filter_empty_conv)
  ultimately have "bk x \<in> set (qd_rows d')" by (force simp: update_rows_def)
  then show ?thesis using bk by blast
next
  case (Some p)
  let ?cancel = "finish_row StatusCanceled s n" and ?merged = "update_rows (\<lambda>r. qr_id r = p) merge (qd_rows d)"
  have c: "queuePendingSelection (j_target j) (qd_rows d) = Some p" and d': "qd_rows d' = update_rows sel ?cancel ?merged"
    using run assms(2) Some by (auto simp: hand_back_def Let_def split: if_splits)
  obtain x where x: "x \<in> set (qd_rows d)" "qr_id x = p" "pending x" "qr_pending_key x = Some (j_target j)"
    using pending_selection [OF c] by blast
  have pm: "pending (merge x)" "qr_pending_key (merge x) = Some (j_target j)" using merge [of x] x(3,4) by (simp_all add: pending_def)
  have "\<not> sel (merge x)" using sel [of "merge x"] pm(1) by (auto simp: active_def pending_def)
  moreover have "merge x \<in> set ?merged" using x(1,2) by (force simp: update_rows_def)
  ultimately have "merge x \<in> set (qd_rows d')" unfolding d' update_rows_def [of sel] by force
  with pm show ?thesis by blast
qed

lemma inv_finish:
  "table_inv (held d) (qd_rows d) \<Longrightarrow> id_fresh d i \<Longrightarrow>
    table_inv (held (snd (enqueuePendingSQL kind now i target force ids d)))
      (qd_rows (snd (enqueuePendingSQL kind now i target force ids d)))"
  by (rule table_inv_held, rule inv_enqueue)

text \<open>
  C26. A successful \<open>EnqueuePending\<close> is durable: whatever other clients did between its calls, however
  often it retried, the table it leaves has the returned row, pending for the target and claimable at
  once (no backoff, no recovery owner) with the force flag when it was asked for. Without interference
  or faults it always succeeds.
\<close>

theorem enqueue_durable:
  assumes "queue_ok q" and "\<forall>d. id_fresh d (fresh d)"
  shows "(\<forall>job q'. EnqueuePending kind fresh target force q = (Inr job, q') \<longrightarrow>
      (\<exists>r \<in> set (qd_rows (q_data q')). toJob r = job \<and> pending r \<and> qr_pending_key r = Some target \<and>
         qr_not_before r = None \<and> qr_recovery r = None \<and> (force \<longrightarrow> qr_force r))) \<and>
    (q_script q = [] \<and> \<not> q_done q \<longrightarrow> (\<exists>job q'. EnqueuePending kind fresh target force q = (Inr job, q')))"
proof (intro conjI allI impI)
  fix job q' assume run: "EnqueuePending kind fresh target force q = (Inr job, q')"
  let ?w = "\<lambda>start ids now d. enqueuePendingSQL kind now (fresh d) target force ids d"
  obtain r rs where fw: "fenced_write kind target [] ?w q = (Inr (r # rs), q')" and job: "job = toJob r"
    using run unfolding EnqueuePending_def by (auto split: prod.splits sum.splits list.splits)
  have "table_inv (held d) (qd_rows d) \<Longrightarrow> table_inv (held (snd (?w start ids now d))) (qd_rows (snd (?w start ids now d)))"
    for start ids now d by (erule inv_finish) (simp add: assms(2))
  then obtain start ids now d where "table_inv (held d) (qd_rows d)"
    and "enqueuePendingSQL kind now (fresh d) target force ids d = (Inr (r # rs), q_data q')"
    by (rule fenced_write_Inr [OF fw assms(1)])
  from enqueue_txn_row [OF this] job
  show "\<exists>r \<in> set (qd_rows (q_data q')). toJob r = job \<and> pending r \<and> qr_pending_key r = Some target \<and>
     qr_not_before r = None \<and> qr_recovery r = None \<and> (force \<longrightarrow> qr_force r)" by blast
next
  assume q: "q_script q = [] \<and> \<not> q_done q"
  let ?d = "q_data q" and ?c = "queuePendingSelection target (qd_rows (q_data q))"
  have ids: "queuePendingIDs kind target [] q = (Inr ?c, q)" using q by (simp add: queuePendingIDs_def queue_call_def)
  have "\<exists>r rs d'. enqueuePendingSQL kind (q_now q) (fresh ?d) target force ?c ?d = (Inr (r # rs), d')"
  proof (cases ?c)
    case None
    have "\<not> key_taken target (fresh ?d) (qd_rows ?d)"
      using pending_selection_none [OF None] row_ok_key table_invD(2) assms(1)
      unfolding key_taken_def list_ex_iff queue_ok_def by (metis option.distinct(1))
    then show ?thesis using None by (simp add: enqueuePendingSQL_def create_row_def new_row_def)
  next
    case (Some p)
    obtain x where "x \<in> set (qd_rows ?d)" "qr_id x = p" using pending_selection [OF Some] by blast
    then have "updated_rows (\<lambda>r. qr_id r = p) f (qd_rows ?d) \<noteq> []" for f by (auto simp: updated_rows_def filter_empty_conv)
    then show ?thesis using Some by (auto simp: enqueuePendingSQL_def Let_def neq_Nil_conv)
  qed
  then obtain r rs d' where "enqueuePendingSQL kind (q_now q) (fresh ?d) target force ?c ?d = (Inr (r # rs), d')" by blast
  then have "fenced_write kind target [] (\<lambda>start ids now d. enqueuePendingSQL kind now (fresh d) target force ids d) q =
      (Inr (r # rs), q\<lparr>q_data := d'\<rparr>)"
    unfolding fenced_write_def using ids q by (intro queue_retry_first) (simp add: queue_call_def)
  then show "\<exists>job q'. EnqueuePending kind fresh target force q = (Inr job, q')" by (simp add: EnqueuePending_def)
qed

definition next_id :: "qdata \<Rightarrow> gostring" where
  "next_id d = CHR ''n'' # concat (map qr_id (qd_rows d))"

lemma next_id_fresh: "id_fresh d (next_id d)"
proof -
  have "length i \<le> length (concat is)" if "i \<in> set is" for i :: gostring and "is"
    using that by (induction "is") auto
  then have "length i < length (next_id d)" if "i \<in> set (map qr_id (qd_rows d))" for i
    using that unfolding next_id_def by (metis length_Cons less_Suc_eq_le)
  then show ?thesis unfolding id_fresh_def by blast
qed

definition busy_queue :: queue where
  "busy_queue = \<lparr>q_data = sample_claimed, q_now = 9, q_script =
     [\<lparr>qe_others = [], qe_now = 10, qe_fault = QOk, qe_cancels = False\<rparr>,
      \<lparr>qe_others = [(11, TEnqueue ''c3'' ''repo'' False None)], qe_now = 12, qe_fault = QOk, qe_cancels = False\<rparr>],
     q_done = False\<rparr>"

lemma busy_queue_ok: "queue_ok busy_queue"
  using job_table.reachable_invar [OF sample_claimed_reachable]
  by (auto simp: queue_ok_def busy_queue_def intro: table_inv_held)

definition idle_queue :: queue where
  "idle_queue = \<lparr>q_data = sample_claimed, q_now = 9, q_script = [], q_done = False\<rparr>"

theorem enqueue_durable_witness:
  "\<exists>job q'. EnqueuePending ''indexing_job'' next_id ''repo'' True idle_queue = (Inr job, q') \<and>
     (\<exists>r \<in> set (qd_rows (q_data q')). toJob r = job \<and> pending r \<and> qr_not_before r = None \<and> qr_force r)"
proof -
  have "queue_ok idle_queue" using busy_queue_ok by (simp add: queue_ok_def busy_queue_def idle_queue_def)
  moreover have "q_script idle_queue = []" "\<not> q_done idle_queue" by (simp_all add: idle_queue_def)
  ultimately show ?thesis
    using enqueue_durable [of idle_queue next_id "''indexing_job''" "''repo''" True] next_id_fresh by meson
qed

text \<open>
  C27. A reported hand-back is durable too: when \<open>RequeueJob\<close>, \<open>ReleaseJob\<close> or \<open>DeferJob\<close> reports
  success, the table it leaves has a pending row for the job's target, whatever other clients did in
  between and however often the call retried; a deferral that reports a time has left a row that
  cannot be claimed before it.
\<close>

lemma returnToPending_None:
  assumes "returnToPending kind j err nb increment fence q = (None, q')"
  shows "\<exists>x \<in> set (qd_rows (q_data q')). pending x \<and> qr_pending_key x = Some (j_target j)"
proof -
  let ?w = "\<lambda>start ids now d. returnToPendingSQL now j err nb increment fence ids d"
  obtain rows where fw: "fenced_write kind (j_target j) [] ?w q = (Inr rows, q')" and ne: "contains_job (j_id j) rows"
    using assms unfolding returnToPending_def by (auto split: if_splits prod.splits sum.splits)
  obtain ids now d where run: "returnToPendingSQL now j err nb increment fence ids d = (Inr rows, q_data q')"
    using fenced_write_run [OF fw] by blast
  have "rows \<noteq> []" using ne by (auto simp: contains_job_def)
  then show ?thesis
    by (rule hand_back_pending [OF run [unfolded returnToPendingSQL_def]])
      (auto simp: back_to_pending_def reset_row_def merge_pending_def pending_def lease_row_def active_def)
qed

lemma DeferJob_Inr:
  assumes "DeferJob kind j err delay q = (Inr nb, q')"
  shows "(\<exists>x \<in> set (qd_rows (q_data q')). pending x \<and> qr_pending_key x = Some (j_target j)) \<and>
    (nb \<noteq> None \<longrightarrow> (\<exists>x \<in> set (qd_rows (q_data q')). pending x \<and> qr_id x = j_id j \<and> qr_not_before x = nb))"
proof -
  let ?w = "\<lambda>start ids now d. deferJobSQL now j err (start + delay) ids d"
  let ?p = "\<lambda>r. qr_id r = j_id j \<and> (qr_status r = StatusPending \<or> qr_status r = StatusCanceled)"
  obtain rows r rs where fw: "fenced_write kind (j_target j) [] ?w q = (Inr rows, q')" and f: "filter ?p rows = r # rs"
    and nb: "nb = (if qr_status r = StatusCanceled then None else qr_not_before r)" "nb \<noteq> None \<longrightarrow> qr_status r = StatusPending"
    using assms unfolding DeferJob_def by (auto split: if_splits prod.splits sum.splits list.splits)
  obtain start ids now d where run: "deferJobSQL now j err (start + delay) ids d = (Inr rows, q_data q')"
    using fenced_write_run [OF fw] by blast
  have "r \<in> set (filter ?p rows)" unfolding f by simp
  then have r: "r \<in> set rows" "qr_id r = j_id j" by simp_all
  then have ne: "rows \<noteq> []" by auto
  have "r \<in> set (qd_rows (q_data q'))"
    using hand_back_out [OF run [unfolded deferJobSQL_def]] r(1) by blast
  moreover have "\<exists>x \<in> set (qd_rows (q_data q')). pending x \<and> qr_pending_key x = Some (j_target j)"
    by (rule hand_back_pending [OF run [unfolded deferJobSQL_def] ne])
      (auto simp: reset_row_def pending_def lease_row_def active_def)
  ultimately show ?thesis using nb r(2) by (auto simp: pending_def split: if_splits)
qed

theorem hand_back_durable:
  "(RequeueJob kind j err nb q = (None, q') \<or> ReleaseJob kind j err q = (None, q') \<or>
    DeferJob kind j err delay q = (Inr until, q') \<longrightarrow>
      (\<exists>x \<in> set (qd_rows (q_data q')). pending x \<and> qr_pending_key x = Some (j_target j))) \<and>
   (DeferJob kind j err delay q = (Inr (Some t), q') \<longrightarrow>
      (\<exists>x \<in> set (qd_rows (q_data q')). pending x \<and> qr_id x = j_id j \<and> qr_not_before x = Some t))"
  unfolding RequeueJob_def ReleaseJob_def using returnToPending_None DeferJob_Inr by blast

lemma sample_deferred: "fst (DeferJob ''indexing_job'' sample_job ''wait'' 5 idle_queue) = Inr (Some 14)"
  by (simp add: DeferJob_def fenced_write_def queue_retry.simps queuePendingIDs_def queue_call_def idle_queue_def deferJobSQL_def
    hand_back_def Let_def sample_claimed_rows sample_job_def toJob_def lease_row_def claim_row_def new_row_def
    queuePendingSelection_def key_taken_def updated_rows_def option_string_def reset_row_def first_created_def)

theorem hand_back_durable_witness:
  "let q' = snd (DeferJob ''indexing_job'' sample_job ''wait'' 5 idle_queue)
   in \<exists>x \<in> set (qd_rows (q_data q')). pending x \<and> qr_id x = ''a1'' \<and> qr_not_before x = Some 14"
proof -
  have "j_id sample_job = ''a1''" by (simp add: sample_job_def toJob_def claim_row_def new_row_def)
  moreover have "DeferJob ''indexing_job'' sample_job ''wait'' 5 idle_queue =
      (Inr (Some 14), snd (DeferJob ''indexing_job'' sample_job ''wait'' 5 idle_queue))"
    using sample_deferred by (metis prod.collapse)
  ultimately show ?thesis using hand_back_durable unfolding Let_def by metis
qed

section \<open>Claims\<close>

lemma queue_call_script: "length (q_script (snd (queue_call kind f q))) = length (q_script q) - 1"
  unfolding queue_call_def Let_def by (auto split: list.splits qfault.splits prod.splits)

lemma queue_call_quiet: "q_script q = [] \<Longrightarrow> queue_call kind f q = (fst (f (q_now q) (q_data q)), q\<lparr>q_data := snd (f (q_now q) (q_data q))\<rparr>)"
  by (simp add: queue_call_def split: prod.split)

definition eligible :: "int \<Rightarrow> qrow \<Rightarrow> bool" where
  "eligible now r \<longleftrightarrow> pending r \<and> (case qr_not_before r of None \<Rightarrow> True | Some nb \<Rightarrow> nb \<le> now)"

lemma first_created_least: "first_created rows = Some r \<Longrightarrow> r \<in> set rows \<and> (\<forall>s \<in> set rows. qr_created r \<le> qr_created s)"
proof -
  assume f: "first_created rows = Some r"
  then obtain rs where s: "sort_key qr_created rows = r # rs" by (auto simp: first_created_def split: list.splits)
  have "sorted (map qr_created (sort_key qr_created rows))" by (rule sorted_sort_key)
  then have "\<forall>x \<in> set (r # rs). qr_created r \<le> qr_created x" unfolding s by auto
  moreover have "set (r # rs) = set rows" using s by (metis set_sort)
  ultimately show ?thesis using first_created_in [OF f] by blast
qed

lemma claimCandidate_eligible:
  "claimCandidateSQL now rows = Some r \<Longrightarrow> r \<in> set rows \<and> eligible now r \<and> (\<forall>s \<in> set rows. eligible now s \<longrightarrow> qr_created r \<le> qr_created s)"
  "claimCandidateSQL now rows = None \<longleftrightarrow> (\<forall>r \<in> set rows. \<not> eligible now r)"
  unfolding claimCandidateSQL_def eligible_def pending_def
  by (auto dest: first_created_least simp: filter_empty_conv)

lemma claim_nonempty: "r \<in> set (qd_rows d) \<Longrightarrow> pending r \<Longrightarrow> \<exists>c cs d'. claimSelectedJobSQL now (qr_id r) who l d = (Inr (c # cs), d')"
proof -
  assume "r \<in> set (qd_rows d)" "pending r"
  then have "updated_rows (\<lambda>x. qr_id x = qr_id r \<and> qr_status x = StatusPending) f (qd_rows d) \<noteq> []" for f
    by (auto simp: updated_rows_def filter_empty_conv pending_def)
  then show ?thesis by (simp add: claimSelectedJobSQL_def Let_def neq_Nil_conv)
qed

lemma claim_loop_quiet:
  assumes "q_script q = []" and "\<not> q_done q"
  shows "claim_loop (Suc fuel) kind bounded lease who n q = Some
    (case claimCandidateSQL (q_now q) (qd_rows (q_data q)) of
       None \<Rightarrow> (Inl (ErrWrap ''no pending: '' ErrNotFound), q)
     | Some r \<Rightarrow>
         if \<not> validJobCursorID (qr_id r)
         then (Inl (ErrWrap ''claim candidate: '' (ErrNew ''job row has an unsupported record id'')), q)
         else case lease n of
           None \<Rightarrow> (Inl (ErrNew ''generate job lease''), q)
         | Some l \<Rightarrow> (case claimSelectedJobSQL (q_now q) (qr_id r) who l (q_data q) of
             (out, d) \<Rightarrow> (Inr (toJob (hd (projr out))), q\<lparr>q_data := d\<rparr>)))"
proof (cases "claimCandidateSQL (q_now q) (qd_rows (q_data q))")
  case None
  then show ?thesis using assms by (simp add: queue_call_quiet)
next
  case (Some r)
  have r: "r \<in> set (qd_rows (q_data q))" "pending r"
    using claimCandidate_eligible(1) [OF Some] by (simp_all add: eligible_def)
  show ?thesis
  proof (cases "lease n")
    case None
    then show ?thesis using Some assms by (simp add: queue_call_quiet)
  next
    case (Some l)
    obtain c cs d' where "claimSelectedJobSQL (q_now q) (qr_id r) who l (q_data q) = (Inr (c # cs), d')"
      using claim_nonempty [OF r, of "q_now q" who l] by blast
    then show ?thesis
      using Some assms \<open>claimCandidateSQL (q_now q) (qd_rows (q_data q)) = Some r\<close> by (simp add: queue_call_quiet)
  qed
qed

lemma claim_loop_returns:
  "length (q_script q) < fuel \<Longrightarrow> claim_loop fuel kind bounded lease who n q \<noteq> None"
proof (induction fuel arbitrary: n q)
  case (Suc fuel)
  show ?case
  proof (cases "q_script q = [] \<and> \<not> q_done q")
    case True
    then show ?thesis using claim_loop_quiet [of q fuel kind bounded lease who n] by (simp del: claim_loop.simps)
  next
    case False
    have again: "claim_loop fuel kind bounded lease who m q' \<noteq> None" if "length (q_script q') < length (q_script q)" for m q'
      using Suc.IH [of q' m] that Suc.prems by simp
    show ?thesis
    proof (cases "q_done q")
      case True
      then show ?thesis by simp
    next
      case nd: False
      with False have ne: "0 < length (q_script q)" by simp
      let ?sel = "\<lambda>now d. (Inr (claimCandidateSQL now (qd_rows d)), d)"
      obtain c q1 where c: "queue_call kind ?sel q = (c, q1)" by (cases "queue_call kind ?sel q")
      have q1: "length (q_script q1) < length (q_script q)"
        using queue_call_script [of kind ?sel q] ne by (simp add: c)
      have "length (q_script (snd (queue_call kind f q1))) < length (q_script q)" for f :: "int \<Rightarrow> qdata \<Rightarrow> txn_result"
        using queue_call_script [of kind f q1] q1 by simp
      then have again2: "claim_loop fuel kind bounded lease who m q2 \<noteq> None" if "queue_call kind f q1 = (x, q2)" for m q2 x
        and f :: "int \<Rightarrow> qdata \<Rightarrow> txn_result"
        using again that by (metis snd_conv)
      show ?thesis using nd again [OF q1] again2
        by (simp add: c split: sum.split option.split list.split prod.split) (auto simp: claim_again_def)
    qed
  qed
qed simp

lemma claimed_row:
  assumes "claimSelectedJobSQL now i who l d = (Inr (c # cs), d')"
  shows "c \<in> set (qd_rows d') \<and> qr_status c = StatusClaimed \<and> qr_lease c = Some l \<and> qr_claimed_by c = Some who"
proof -
  let ?sel = "\<lambda>r. qr_id r = i \<and> qr_status r = StatusPending"
  have rows: "updated_rows ?sel (claim_row who l now) (qd_rows d) = c # cs"
    and d': "qd_rows d' = update_rows ?sel (claim_row who l now) (qd_rows d)"
    using assms by (auto simp: claimSelectedJobSQL_def Let_def)
  have "c \<in> set (qd_rows d')" using updated_in [of ?sel "claim_row who l now" "qd_rows d"] by (simp add: rows d')
  moreover have "c \<in> set (updated_rows ?sel (claim_row who l now) (qd_rows d))" by (simp add: rows)
  then have "qr_status c = StatusClaimed \<and> qr_lease c = Some l \<and> qr_claimed_by c = Some who"
    by (auto simp: updated_rows_def claim_row_def)
  ultimately show ?thesis by blast
qed

lemma claim_loop_Inr:
  "claim_loop fuel kind bounded lease who n q = Some (Inr job, q') \<Longrightarrow>
    \<exists>m l. lease m = Some l \<and> (\<exists>c \<in> set (qd_rows (q_data q')). toJob c = job \<and> qr_status c = StatusClaimed \<and>
      qr_lease c = Some l \<and> qr_claimed_by c = Some who)"
proof (induction fuel arbitrary: n q)
  case (Suc fuel)
  let ?sel = "\<lambda>now d. (Inr (claimCandidateSQL now (qd_rows d)), d)"
  obtain c q1 where c: "queue_call kind ?sel q = (c, q1)" by (cases "queue_call kind ?sel q")
  show ?case
  proof (cases "\<exists>m q2. claim_loop fuel kind bounded lease who m q2 = Some (Inr job, q')")
    case True
    then show ?thesis using Suc.IH by blast
  next
    case False
    then have nl: "claim_loop fuel kind bounded lease who m q2 \<noteq> Some (Inr job, q')" for m q2 by blast
    have nd: "\<not> q_done q" using Suc.prems by auto
    obtain r where r: "c = Inr (Some r)"
      using Suc.prems nd nl by (cases c; cases "projr c") (auto simp: c split: if_splits)
    obtain l where l: "lease n = Some l"
      using Suc.prems nd r by (cases "lease n") (auto simp: c split: if_splits)
    obtain y q2 where y: "queue_call kind (\<lambda>now d. claimSelectedJobSQL now (qr_id r) who l d) q1 = (y, q2)"
      by (cases "queue_call kind (\<lambda>now d. claimSelectedJobSQL now (qr_id r) who l d) q1")
    obtain d cs where "y = Inr (d # cs)" and job: "job = toJob d" and "q2 = q'"
      using Suc.prems nd nl r l y by (cases y; cases "projr y") (auto simp: c split: if_splits)
    then have call: "queue_call kind (\<lambda>now d. claimSelectedJobSQL now (qr_id r) who l d) q1 = (Inr (d # cs), q')" using y by simp
    obtain now x where "claimSelectedJobSQL now (qr_id r) who l x = (Inr (d # cs), q_data q')"
      using call by (auto simp: queue_call_def Let_def split: list.splits qfault.splits prod.splits)
    from claimed_row [OF this] l job show ?thesis by blast
  qed
qed simp

text \<open>
  C28. \<open>ClaimJob\<close> always comes back: even the unbounded loop ends after finitely many disturbed
  iterations (fuel beyond the number of scripted database events is never exhausted), and a job it
  returns is a row of the table it leaves, claimed by the caller with a lease token drawn for it.
\<close>

theorem claim_returns_leased_row:
  assumes "length (q_script q) < fuel"
  shows "\<exists>result q'. claim_loop fuel kind bounded lease who 0 q = Some (result, q') \<and>
    (\<forall>job. result = Inr job \<longrightarrow> (\<exists>m l. lease m = Some l \<and>
       (\<exists>c \<in> set (qd_rows (q_data q')). toJob c = job \<and> qr_status c = StatusClaimed \<and> qr_lease c = Some l \<and>
          qr_claimed_by c = Some who)))"
proof -
  obtain result q' where "claim_loop fuel kind bounded lease who 0 q = Some (result, q')"
    using claim_loop_returns [OF assms, of kind bounded lease who 0] by (metis not_Some_eq prod.exhaust_sel)
  then show ?thesis using claim_loop_Inr [of fuel kind bounded lease who 0 q _ q'] by blast
qed

theorem claim_returns_leased_row_witness:
  "\<exists>result q'. claim_loop 3 ''indexing_job'' False (\<lambda>n. Some (decimal (int n))) ''w'' 0 busy_queue = Some (result, q') \<and>
    (\<forall>job. result = Inr job \<longrightarrow> (\<exists>m l. Some (decimal (int m)) = Some l \<and>
       (\<exists>c \<in> set (qd_rows (q_data q')). toJob c = job \<and> qr_status c = StatusClaimed \<and> qr_lease c = Some l \<and>
          qr_claimed_by c = Some ''w'')))"
  by (rule claim_returns_leased_row) (simp add: busy_queue_def)

text \<open>
  An undisturbed claim takes the oldest eligible job. It reports \<open>ErrNotFound\<close> exactly when no
  pending row is past its backoff; otherwise, with well-formed identifiers and a working random source,
  it returns a row that was eligible and that no eligible row of the table precedes in creation time.
\<close>

theorem claim_takes_oldest:
  assumes "q_script q = []" and "\<not> q_done q" and "lease 0 = Some l"
    and "\<forall>r \<in> set (qd_rows (q_data q)). validJobCursorID (qr_id r)"
  shows "(\<forall>r \<in> set (qd_rows (q_data q)). \<not> eligible (q_now q) r) \<and>
      claim_loop (Suc fuel) kind bounded lease who 0 q = Some (Inl (ErrWrap ''no pending: '' ErrNotFound), q) \<or>
    (\<exists>r \<in> set (qd_rows (q_data q)). eligible (q_now q) r \<and>
      (\<forall>s \<in> set (qd_rows (q_data q)). eligible (q_now q) s \<longrightarrow> qr_created r \<le> qr_created s) \<and>
      (\<exists>job q'. claim_loop (Suc fuel) kind bounded lease who 0 q = Some (Inr job, q') \<and> j_id job = qr_id r))"
proof (cases "claimCandidateSQL (q_now q) (qd_rows (q_data q))")
  case None
  then have "claim_loop (Suc fuel) kind bounded lease who 0 q = Some (Inl (ErrWrap ''no pending: '' ErrNotFound), q)"
    using claim_loop_quiet [OF assms(1,2), of fuel kind bounded lease who 0] by (simp del: claim_loop.simps)
  moreover have "\<forall>r \<in> set (qd_rows (q_data q)). \<not> eligible (q_now q) r" using None claimCandidate_eligible(2) by blast
  ultimately show ?thesis by blast
next
  case (Some r)
  note el = claimCandidate_eligible(1) [OF Some]
  obtain c cs d' where claim: "claimSelectedJobSQL (q_now q) (qr_id r) who l (q_data q) = (Inr (c # cs), d')"
    using claim_nonempty el unfolding eligible_def by blast
  then have "qr_id c = qr_id r"
    by (auto simp: claimSelectedJobSQL_def Let_def updated_rows_def claim_row_def filter_eq_Cons_iff)
  then have "claim_loop (Suc fuel) kind bounded lease who 0 q = Some (Inr (toJob c), q\<lparr>q_data := d'\<rparr>) \<and> j_id (toJob c) = qr_id r"
    using claim_loop_quiet [OF assms(1,2), of fuel kind bounded lease who 0] Some claim assms(3,4) el
    by (simp add: toJob_def del: claim_loop.simps)
  then show ?thesis using el by blast
qed

theorem claim_takes_oldest_witness:
  "let q = \<lparr>q_data = sample_queue, q_now = 9, q_script = [], q_done = False\<rparr>
   in (\<forall>r \<in> set (qd_rows (q_data q)). \<not> eligible (q_now q) r) \<and>
        claim_loop (Suc 0) ''indexing_job'' False (\<lambda>n. Some ''l'') ''w'' 0 q = Some (Inl (ErrWrap ''no pending: '' ErrNotFound), q) \<or>
      (\<exists>r \<in> set (qd_rows (q_data q)). eligible (q_now q) r \<and>
        (\<forall>s \<in> set (qd_rows (q_data q)). eligible (q_now q) s \<longrightarrow> qr_created r \<le> qr_created s) \<and>
        (\<exists>job q'. claim_loop (Suc 0) ''indexing_job'' False (\<lambda>n. Some ''l'') ''w'' 0 q = Some (Inr job, q') \<and> j_id job = qr_id r))"
proof -
  have "validJobCursorID ''a1''" by code_simp
  then show ?thesis unfolding Let_def
    by (intro claim_takes_oldest [where l = "''l''"]) (simp_all add: sample_queue_rows)
qed

end
