(* ===== verification/Job_Runner.thy ===== *)
theory Job_Runner
  imports Job_Queue "HOL-Library.Signed_Division"
begin

text \<open>
  The polling worker of \<open>internal/store/runner.go\<close> and its queue-wait report: the defaults, the
  heartbeat goroutine over the ticks it sees, the retried state writes of \<open>persist\<close>, and one
  \<open>execute\<close> turn from claim to settlement over the durable queue. The handler's result, the heartbeat
  outcome and the moments at which the outer context is done are arguments; metrics, log lines and the
  polling loop's timers are left out.
\<close>

section \<open>Configuration\<close>

record runner =
  rn_interval :: int
  rn_heartbeat_every :: int
  rn_stale_after :: int
  rn_max_attempts :: int
  rn_backoff :: "(serr \<Rightarrow> nat \<Rightarrow> int) option"
  rn_who :: gostring

definition runner_defaults :: "gostring \<Rightarrow> runner \<Rightarrow> runner" where
  "runner_defaults host r0 =
     (let r1 = (if rn_interval r0 = 0 then r0\<lparr>rn_interval := 15 * second\<rparr> else r0);
          r2 = (if rn_heartbeat_every r1 = 0
                then r1\<lparr>rn_heartbeat_every := max (rn_interval r1 sdiv 3) (5 * second)\<rparr> else r1);
          r3 = (if rn_stale_after r2 = 0 then r2\<lparr>rn_stale_after := wrap64 (4 * rn_heartbeat_every r2)\<rparr> else r2);
          r4 = (if rn_max_attempts r3 = 0 then r3\<lparr>rn_max_attempts := 3\<rparr> else r3);
          r5 = (if rn_backoff r4 = None then r4\<lparr>rn_backoff := Some DefaultBackoff\<rparr> else r4)
      in if rn_who r5 = [] then r5\<lparr>rn_who := host\<rparr> else r5)"

definition durationMS :: "int \<Rightarrow> int" where
  "durationMS d = (if d \<le> 0 then 0 else d sdiv 1000000)"

definition jobQueueWaitMS :: "qrow \<Rightarrow> int" where
  "jobQueueWaitMS r =
     (case qr_claimed_at r of
        None \<Rightarrow> 0
      | Some claimed \<Rightarrow>
          let eligibleAt = (case qr_not_before r of None \<Rightarrow> qr_created r
                | Some nb \<Rightarrow> if nb > qr_created r then nb else qr_created r)
          in if claimed < eligibleAt then 0 else durationMS (claimed - eligibleAt))"

section \<open>Heartbeats\<close>

text \<open>What the goroutine meets at a tick: the handler has stopped or its context is done, or a beat
  that started and ended at given times, with its error and whether the context was done by then.\<close>

datatype beat = BeatStop | Beat (bt_started: int) (bt_ended: int) (bt_err: "serr option") (bt_done: bool)

definition beat_fatal :: "runner \<Rightarrow> int \<Rightarrow> int \<Rightarrow> serr \<Rightarrow> bool" where
  "beat_fatal r lastConfirmed now e \<longleftrightarrow>
     errors_Is e ErrLeaseLost \<or> now - lastConfirmed + rn_heartbeat_every r \<ge> rn_stale_after r"

text \<open>The loop either still runs after the given ticks, with the last confirmed time, or has ended with
  the value it sends; a sent error has stopped the handler.\<close>

fun heartbeat_loop :: "runner \<Rightarrow> int \<Rightarrow> beat list \<Rightarrow> serr option + int" where
  "heartbeat_loop r lastConfirmed [] = Inr lastConfirmed"
| "heartbeat_loop r lastConfirmed (BeatStop # bs) = Inl None"
| "heartbeat_loop r lastConfirmed (Beat started ended err fin # bs) =
     (case err of
        None \<Rightarrow> heartbeat_loop r started bs
      | Some e \<Rightarrow>
          if fin then Inl None
          else if beat_fatal r lastConfirmed ended e then Inl (Some e)
          else heartbeat_loop r lastConfirmed bs)"

definition first_confirmed :: "int \<Rightarrow> int option \<Rightarrow> int" where
  "first_confirmed now heartbeat = (case heartbeat of None \<Rightarrow> now | Some h \<Rightarrow> if h < now then h else now)"

section \<open>One turn\<close>

text \<open>\<open>persist\<close>: how many retries fit before its own five-second context ends is an argument. The value a
  successful write captures is returned.\<close>

fun persist_loop :: "nat \<Rightarrow> (queue \<Rightarrow> (serr + 'a) \<times> queue) \<Rightarrow> queue \<Rightarrow> 'a option \<times> queue" where
  "persist_loop n write q =
     (case write q of
        (Inr x, q') \<Rightarrow> (Some x, q')
      | (Inl e, q') \<Rightarrow>
          if errors_Is e ErrLeaseLost then (None, q')
          else (case n of 0 \<Rightarrow> (None, q') | Suc m \<Rightarrow> persist_loop m write q'))"

declare persist_loop.simps [simp del]

definition persist :: "nat \<Rightarrow> (queue \<Rightarrow> (serr + 'a) \<times> queue) \<Rightarrow> queue \<Rightarrow> 'a option \<times> queue" where
  "persist n write q = persist_loop n write (q\<lparr>q_done := False\<rparr>)"

definition plain :: "(queue \<Rightarrow> serr option \<times> queue) \<Rightarrow> queue \<Rightarrow> (serr + unit) \<times> queue" where
  "plain write q = (case write q of (None, q') \<Rightarrow> (Inr (), q') | (Some e, q') \<Rightarrow> (Inl e, q'))"

type_synonym turn_result = "int option \<times> (gostring \<times> gostring) list \<times> queue"

definition report_if :: "unit option \<times> queue \<Rightarrow> gostring \<Rightarrow> gostring \<Rightarrow> (gostring \<times> gostring) list \<Rightarrow> turn_result" where
  "report_if saved event outcome events =
     (None, if fst saved \<noteq> None then events @ [(event, outcome)] else events, snd saved)"

definition fail_write :: "gostring \<Rightarrow> job \<Rightarrow> serr \<Rightarrow> queue \<Rightarrow> serr option \<times> queue" where
  "fail_write kind j e =
     (if IsSuccessorRetry e then FailJobWithSuccessor kind j (job_error_text (Some e))
      else SetJobStatus kind j StatusFailed (job_error_text (Some e)))"

definition requeue_write :: "gostring \<Rightarrow> runner \<Rightarrow> job \<Rightarrow> serr \<Rightarrow> queue \<Rightarrow> serr option \<times> queue" where
  "requeue_write kind r j e q =
     RequeueJob kind j (job_error_text (Some e))
       (q_now q + (case rn_backoff r of None \<Rightarrow> 0 | Some f \<Rightarrow> f e (nat (j_attempts j + 1)))) q"

text \<open>The switch over the handler's error, in its order.\<close>

definition settle ::
  "gostring \<Rightarrow> runner \<Rightarrow> nat \<Rightarrow> job \<Rightarrow> bool \<Rightarrow> serr option \<Rightarrow> (gostring \<times> gostring) list \<Rightarrow> queue \<Rightarrow> turn_result" where
  "settle kind r n j canceled err events q =
     (case err of
        None \<Rightarrow> report_if (persist n (plain (SetJobStatus kind j StatusDone [])) q) ''done'' ''success'' events
      | Some e \<Rightarrow>
          if canceled
          then report_if (persist n (plain (ReleaseJob kind j ''context canceled'')) q) ''released'' ''canceled'' events
          else if IsTerminal e
          then report_if (persist n (plain (fail_write kind j e)) q) ''failed'' ''terminal'' events
          else if IsDeferral e
          then (case persist n (DeferJob kind j (job_error_text (Some e)) (rn_interval r)) q of
                  (Some until, q') \<Rightarrow> (until, events @ [(''deferred'', ''dependency'')], q')
                | (None, q') \<Rightarrow> (None, events, q'))
          else if IsYield e
          then report_if (persist n (plain (ReleaseJob kind j (job_error_text (Some e)))) q) ''yielded'' ''yield'' events
          else if j_attempts j + 1 \<ge> rn_max_attempts r
          then report_if (persist n (plain (fail_write kind j e)) q) ''failed'' ''attempts_exhausted'' events
          else report_if (persist n (plain (requeue_write kind r j e)) q) ''requeued'' ''retryable'' events)"

text \<open>The error that is settled once the heartbeat has been joined; none when the lease was lost.\<close>

definition joined_error :: "serr option \<Rightarrow> serr option \<Rightarrow> serr option option" where
  "joined_error h hb =
     (case hb of
        None \<Rightarrow> Some h
      | Some b \<Rightarrow>
          if errors_Is b ErrLeaseLost then None
          else if h = None \<or> (case h of None \<Rightarrow> False | Some e \<Rightarrow> errors_Is e ErrCtxDone)
          then Some (WithSuccessorRetry (Some (ErrWrap ''heartbeat: '' b)))
          else Some h)"

text \<open>\<open>c0\<close>, \<open>c1\<close> and \<open>c2\<close>: whether the outer context is done on entry, after the start, and when the
  handler has returned.\<close>

definition execute ::
  "gostring \<Rightarrow> runner \<Rightarrow> nat \<Rightarrow> job \<Rightarrow> bool \<Rightarrow> bool \<Rightarrow> bool \<Rightarrow> serr option \<Rightarrow> serr option \<Rightarrow> queue \<Rightarrow> turn_result" where
  "execute kind r n j c0 c1 c2 h hb q =
     (if c0
      then report_if (persist n (plain (ReleaseJob kind j ''runner shutting down'')) q) ''released'' ''canceled'' []
      else case persist n (plain (SetJobStatus kind j StatusRunning [])) q of
        (None, q') \<Rightarrow> (None, [], q')
      | (Some _, q') \<Rightarrow>
          let events = [(''started'', ''running'')]
          in if c1
             then report_if (persist n (plain (ReleaseJob kind j ''runner shutting down'')) q') ''released'' ''canceled'' events
             else (case joined_error h hb of
                     None \<Rightarrow> (None, events, q')
                   | Some err \<Rightarrow> settle kind r n j c2 err events q'))"

text \<open>The deadline that ends the drain of ready siblings: the first deferral of the poll.\<close>

definition drain_deadline :: "int option \<Rightarrow> int option \<Rightarrow> int option" where
  "drain_deadline deadline deferred = (if deferred \<noteq> None \<and> deadline = None then deferred else deadline)"

definition drain_stops :: "int option \<Rightarrow> int \<Rightarrow> bool" where
  "drain_stops deadline now \<longleftrightarrow> (case deadline of None \<Rightarrow> False | Some t \<Rightarrow> now \<ge> t)"

section \<open>Heartbeat bounds\<close>

text \<open>The timing of the goroutine's ticks: beats do not overlap, a beat ends within its timeout of one
  period, and a ready tick is taken at the latest one period after the previous beat's end.\<close>

fun beats_timed :: "int \<Rightarrow> int \<Rightarrow> beat list \<Rightarrow> bool" where
  "beats_timed period previous [] \<longleftrightarrow> True"
| "beats_timed period previous (BeatStop # bs) \<longleftrightarrow> beats_timed period previous bs"
| "beats_timed period previous (Beat started ended err fin # bs) \<longleftrightarrow>
     previous \<le> started \<and> started \<le> previous + period \<and> started \<le> ended \<and> ended \<le> started + period \<and>
     beats_timed period ended bs"




definition zero_runner :: runner where
  "zero_runner = \<lparr>rn_interval = 0, rn_heartbeat_every = 0, rn_stale_after = 0, rn_max_attempts = 0,
     rn_backoff = None, rn_who = []\<rparr>"

lemma default_runner:
  "rn_interval (runner_defaults ''h'' zero_runner) = 15 * second"
  "rn_heartbeat_every (runner_defaults ''h'' zero_runner) = 5 * second"
  "rn_stale_after (runner_defaults ''h'' zero_runner) = 20 * second"
  "rn_max_attempts (runner_defaults ''h'' zero_runner) = 3"
  by (simp_all add: runner_defaults_def zero_runner_def signed_divide_int_def wrap64_def)

abbreviation refused :: serr where
  "refused \<equiv> ErrNew ''connection refused''"


text \<open>Beats that fail at once, at \<open>n\<close> consecutive ticks of a ticker that was started at \<open>start\<close>.\<close>

fun failing_ticks :: "int \<Rightarrow> int \<Rightarrow> serr \<Rightarrow> nat \<Rightarrow> beat list" where
  "failing_ticks period start e 0 = []"
| "failing_ticks period start e (Suc n) =
     Beat (start + period) (start + period) (Some e) False # failing_ticks period (start + period) e n"

lemma failing_timed:
  "0 \<le> h \<Longrightarrow> beats_timed h start (failing_ticks h start e n @ [Beat (start + (int n + 1) * h) (start + (int n + 1) * h + h) err fin])"
proof (induction n arbitrary: start)
  case (Suc n)
  have "start + (int (Suc n) + 1) * h = start + h + (int n + 1) * h" by (simp add: algebra_simps)
  then show ?case using Suc.IH [of "start + h"] Suc.prems by (simp only: failing_ticks.simps append_Cons beats_timed.simps) simp
qed simp

lemma failing_tolerated:
  assumes "\<not> errors_Is e ErrLeaseLost" and "0 \<le> rn_heartbeat_every r"
    and "start - c + (int n + 1) * rn_heartbeat_every r < rn_stale_after r"
  shows "heartbeat_loop r c (failing_ticks (rn_heartbeat_every r) start e n @ bs) = heartbeat_loop r c bs"
  using assms(3)
proof (induction n arbitrary: start)
  case (Suc n)
  let ?h = "rn_heartbeat_every r"
  have split: "start + ?h - c + (int n + 1) * ?h = start - c + (int (Suc n) + 1) * ?h" by (simp add: algebra_simps)
  have "0 \<le> int n * ?h" using assms(2) by simp
  then have "\<not> beat_fatal r c (start + ?h) e" using assms(1) Suc.prems by (simp add: beat_fatal_def algebra_simps)
  moreover have "heartbeat_loop r c (failing_ticks ?h (start + ?h) e n @ bs) = heartbeat_loop r c bs"
    using Suc.IH [of "start + ?h"] Suc.prems unfolding split by blast
  ultimately show ?case by simp
qed simp

text \<open>The last tick at which a failed beat is still tolerated, when \<open>left\<close> is what remains of the cutoff.\<close>

lemma tolerated_ticks:
  fixes h left :: int
  assumes "0 < h" "h < left" "\<not> h dvd left"
  shows "\<exists>n. (int n + 1) * h < left \<and> left < (int n + 2) * h"
proof -
  let ?q = "left div h"
  have pos: "1 \<le> ?q" using assms(1,2) by (metis less_imp_le pos_imp_zdiv_pos_iff zdiv_mono1 div_self less_irrefl)
  have split: "?q * h + left mod h = left" by simp
  have "0 \<le> left mod h" "left mod h < h" using assms(1) by simp_all
  moreover have "left mod h \<noteq> 0" using assms(3) by (simp add: dvd_eq_mod_eq_0)
  ultimately have "?q * h < left" "left < ?q * h + h" using split by linarith+
  then show ?thesis using pos by (intro exI [of _ "nat (?q - 1)"]) (simp add: algebra_simps)
qed

text \<open>
  C31. The one-beat margin does not keep the handler inside the reaper's cutoff. Take any configuration, any
  claimed row whose durable heartbeat is at \<open>c\<close>, and a ticker started at \<open>t0\<close>, no earlier and with room for
  one beat; unless the period happens to divide what is left of \<open>StaleAfter\<close> at \<open>t0\<close>, there is a schedule of
  beats, one per tick, all failing with a transient error and all but the last at once, that the loop
  tolerates until the last one. That beat starts on its tick, blocks for its timeout of one period, and only
  then is the handler stopped; but \<open>StaleAfter\<close> has passed since \<open>c\<close> before that, and at every moment in
  between the row is among those \<open>ReapStale\<close> of another runner selects, so the job can be claimed and executed
  again while the first handler still runs.
\<close>

theorem heartbeat_margin_overlap:
  assumes "0 < rn_heartbeat_every r" and "\<not> errors_Is e ErrLeaseLost"
    and "qr_status row = StatusRunning" and "qr_heartbeat row = Some c"
    and "c \<le> t0" and "t0 - c + rn_heartbeat_every r < rn_stale_after r"
    and "\<not> rn_heartbeat_every r dvd rn_stale_after r - (t0 - c)"
  shows "\<exists>bs begins stops.
      beats_timed (rn_heartbeat_every r) t0 (bs @ [Beat begins stops (Some e) False]) \<and>
      heartbeat_loop r (first_confirmed t0 (qr_heartbeat row)) bs = Inr c \<and>
      heartbeat_loop r (first_confirmed t0 (qr_heartbeat row)) (bs @ [Beat begins stops (Some e) False]) = Inl (Some e) \<and>
      begins < c + rn_stale_after r \<and> c + rn_stale_after r < stops \<and>
      (\<forall>now. c + rn_stale_after r < now \<and> now \<le> stops \<longrightarrow> stale_rows (now - rn_stale_after r) [row] = [row])"
proof -
  let ?h = "rn_heartbeat_every r"
  obtain n where n: "(int n + 1) * ?h < rn_stale_after r - (t0 - c)" "rn_stale_after r - (t0 - c) < (int n + 2) * ?h"
    using tolerated_ticks [OF assms(1) _ assms(7)] assms(6) by auto
  define begins where "begins = t0 + (int n + 1) * ?h"
  have start: "first_confirmed t0 (qr_heartbeat row) = c" using assms(4,5) by (auto simp: first_confirmed_def)
  have late: "begins < c + rn_stale_after r" "c + rn_stale_after r < begins + ?h" using n by (simp_all add: begins_def algebra_simps)
  have loop: "heartbeat_loop r c (failing_ticks ?h t0 e n @ bs) = heartbeat_loop r c bs" for bs
    by (rule failing_tolerated [OF assms(2)]) (use assms(1) n(1) in simp_all)
  have "beat_fatal r c (begins + ?h) e" using late(2) assms(1) by (simp add: beat_fatal_def)
  then have stop: "heartbeat_loop r c (failing_ticks ?h t0 e n @ [Beat begins (begins + ?h) (Some e) False]) = Inl (Some e)"
    unfolding loop by simp
  have timed: "beats_timed ?h t0 (failing_ticks ?h t0 e n @ [Beat begins (begins + ?h) (Some e) False])"
    unfolding begins_def by (rule failing_timed) (use assms(1) in simp)
  have stale: "stale_rows (now - rn_stale_after r) [row] = [row]" if "c + rn_stale_after r < now" for now
    using that assms(3,4) by (simp add: stale_rows_def maxJobReapRows_def)
  show ?thesis unfolding start using timed loop [of "[]"] stop late stale by (intro exI conjI) auto
qed

text \<open>With the default configuration, a row confirmed at 0 and a ticker started 4.5 s later.\<close>

theorem heartbeat_margin_overlap_witness:
  "\<exists>bs begins stops. beats_timed (5 * second) 4500000000 (bs @ [Beat begins stops (Some refused) False]) \<and>
     heartbeat_loop (runner_defaults ''h'' zero_runner) 0 bs = Inr 0 \<and> begins < 20 * second \<and> 20 * second < stops"
proof -
  let ?row = "(claim_row ''w'' ''l1'' 0 (new_row ''a1'' ''repo'' True None 0))\<lparr>qr_status := StatusRunning\<rparr>"
  have row: "qr_status ?row = StatusRunning" "qr_heartbeat ?row = Some 0" by (simp_all add: claim_row_def)
  show ?thesis
    using heartbeat_margin_overlap [OF _ _ row, of "runner_defaults ''h'' zero_runner" refused 4500000000]
    by (simp add: default_runner first_confirmed_def row(2)) blast
qed

section \<open>A whole turn in a quiet database\<close>

lemma persist_first: "write (q\<lparr>q_done := False\<rparr>) = (Inr x, q') \<Longrightarrow> persist n write q = (Some x, q')"
  unfolding persist_def by (subst persist_loop.simps) simp

lemma persist_plain: "write (q\<lparr>q_done := False\<rparr>) = (None, q') \<Longrightarrow> persist n (plain write) q = (Some (), q')"
  by (rule persist_first) (simp add: plain_def)

lemma fenced_quiet:
  assumes "q_script q = []" and "\<not> q_done q"
    and "write (q_now q) (if lease = [] then queuePendingSelection target (qd_rows (q_data q))
           else queueRecoverySelection target lease (qd_rows (q_data q))) (q_now q) (q_data q) = (Inr rows, d')"
  shows "fenced_write kind target lease write q = (Inr rows, q\<lparr>q_data := d'\<rparr>)"
  unfolding fenced_write_def
  by (rule queue_retry_first) (use assms in \<open>simp add: queuePendingIDs_def queue_call_quiet split: if_splits\<close>)

definition names_ok :: "job \<Rightarrow> bool" where
  "names_ok j \<longleftrightarrow> j_id j \<noteq> [] \<and> j_lease j \<noteq> [] \<and> j_who j \<noteq> [] \<and> j_target j \<noteq> []"

definition quiet_queue :: "queue \<Rightarrow> bool" where
  "quiet_queue q \<longleftrightarrow> queue_ok q \<and> q_script q = [] \<and> \<not> q_done q"

definition let_go :: "job \<Rightarrow> queue \<Rightarrow> bool" where
  "let_go j q \<longleftrightarrow> \<not> holds (j_lease j) (qd_rows (q_data q))"

lemma hand_back_ids:
  assumes "hand_back sel bk merge s j n c d = (Inr out, d')" and "\<And>x. sel x \<Longrightarrow> qr_id x = j_id j" and "\<And>x. qr_id (bk x) = qr_id x"
  shows "\<forall>x \<in> set out. qr_id x = j_id j \<and> ((\<exists>y. x = bk y) \<or> qr_status x = StatusCanceled)"
proof -
  have x: "\<forall>x \<in> set (updated_rows sel bk rows). qr_id x = j_id j \<and> (\<exists>y. x = bk y)" for rows
    using assms(2,3) by (auto simp: updated_rows_def)
  have y: "\<forall>x \<in> set (updated_rows sel (finish_row StatusCanceled s n) rows). qr_id x = j_id j \<and> qr_status x = StatusCanceled" for rows
    using assms(2) by (auto simp: updated_rows_def finish_row_def)
  obtain rows where "out = [] \<or> out = updated_rows sel bk rows \<or> out = updated_rows sel (finish_row StatusCanceled s n) rows"
    using assms(1) unfolding hand_back_def Let_def by (cases c) (auto split: if_splits)
  then show ?thesis using x y by auto
qed

lemma return_quiet:
  assumes q: "quiet_queue q" and j: "names_ok j" and r: "r \<in> set (qd_rows (q_data q))" "active r" "carries j r"
  shows "\<exists>q'. returnToPending kind j err nb increment None q = (None, q') \<and> let_go j q' \<and> queued r (qd_rows (q_data q'))"
proof -
  let ?c = "queuePendingSelection (qr_target r) (qd_rows (q_data q))"
  have inv: "table_inv (held (q_data q)) (qd_rows (q_data q))" using q by (simp add: quiet_queue_def queue_ok_def)
  have jt: "j_target j = qr_target r" using r(3) by (simp add: carries_def)
  obtain out d' where run: "returnToPendingSQL (q_now q) j err nb increment None ?c (q_data q) = (Inr out, d')" "out \<noteq> []"
    "\<not> holds (j_lease j) (qd_rows d')" "queued r (qd_rows d')"
    using handed_back [OF inv r, of "TReturn j err nb increment None ?c" err nb increment kind "q_now q"] by auto
  have "\<forall>x \<in> set out. qr_id x = j_id j \<and> ((\<exists>y. x = back_to_pending j err nb increment y) \<or> qr_status x = StatusCanceled)"
    by (rule hand_back_ids [OF run(1) [unfolded returnToPendingSQL_def]])
      (auto simp: lease_row_def back_to_pending_def reset_row_def)
  then have "contains_job (j_id j) out" using run(2) by (auto simp: contains_job_def list_ex_iff neq_Nil_conv)
  moreover have "fenced_write kind (j_target j) [] (\<lambda>start ids now d. returnToPendingSQL now j err nb increment None ids d) q =
      (Inr out, q\<lparr>q_data := d'\<rparr>)"
    by (rule fenced_quiet) (use q run(1) in \<open>simp_all add: quiet_queue_def jt\<close>)
  ultimately have "returnToPending kind j err nb increment None q = (None, q\<lparr>q_data := d'\<rparr>)"
    using j by (simp add: returnToPending_def names_ok_def)
  then show ?thesis using run(3,4) by (simp add: let_go_def)
qed

lemma defer_quiet:
  assumes q: "quiet_queue q" and j: "names_ok j" "kind \<noteq> []" "0 < delay"
    and r: "r \<in> set (qd_rows (q_data q))" "active r" "carries j r"
  shows "\<exists>until q'. DeferJob kind j err delay q = (Inr until, q') \<and> let_go j q' \<and> queued r (qd_rows (q_data q'))"
proof -
  let ?c = "queuePendingSelection (qr_target r) (qd_rows (q_data q))" and ?nb = "q_now q + delay"
  have inv: "table_inv (held (q_data q)) (qd_rows (q_data q))" using q by (simp add: quiet_queue_def queue_ok_def)
  have jt: "j_target j = qr_target r" using r(3) by (simp add: carries_def)
  obtain out d' where run: "deferJobSQL (q_now q) j err ?nb ?c (q_data q) = (Inr out, d')" "out \<noteq> []"
    "\<not> holds (j_lease j) (qd_rows d')" "queued r (qd_rows d')"
    using handed_back [OF inv r, of "TDefer j err ?nb ?c" err ?nb False kind "q_now q"] by auto
  have ids: "\<forall>x \<in> set out. qr_id x = j_id j \<and> ((\<exists>y. x = (reset_row (j_target j) y)\<lparr>qr_error := err, qr_not_before := Some ?nb, qr_created := q_now q\<rparr>) \<or> qr_status x = StatusCanceled)"
    by (rule hand_back_ids [OF run(1) [unfolded deferJobSQL_def]]) (auto simp: lease_row_def reset_row_def)
  obtain x xs where out: "out = x # xs" using run(2) by (cases out) auto
  have st: "qr_id x = j_id j" "qr_status x = StatusCanceled \<or> qr_status x = StatusPending \<and> qr_not_before x = Some ?nb"
    using ids by (auto simp: out reset_row_def)
  have fw: "fenced_write kind (j_target j) [] (\<lambda>start ids now d. deferJobSQL now j err (start + delay) ids d) q =
      (Inr out, q\<lparr>q_data := d'\<rparr>)"
    by (rule fenced_quiet) (use q run(1) in \<open>simp_all add: quiet_queue_def jt\<close>)
  have "\<exists>until. DeferJob kind j err delay q = (Inr until, q\<lparr>q_data := d'\<rparr>)"
    using j st by (auto simp: DeferJob_def names_ok_def fw out)
  then show ?thesis using run(3,4) by (auto simp: let_go_def)
qed

lemma lease_quiet:
  assumes q: "quiet_queue q" and j: "names_ok j" and r: "r \<in> set (qd_rows (q_data q))" "sel r"
  shows "updateLease kind j (\<lambda>now. lease_txn sel (f now)) q =
    (None, q\<lparr>q_data := (q_data q)\<lparr>qd_rows := update_rows sel (f (q_now q)) (qd_rows (q_data q))\<rparr>\<rparr>)"
proof -
  have "updated_rows sel (f (q_now q)) (qd_rows (q_data q)) \<noteq> []" using r by (auto simp: updated_rows_def filter_empty_conv)
  then obtain x xs where "updated_rows sel (f (q_now q)) (qd_rows (q_data q)) = x # xs" by (auto simp: neq_Nil_conv)
  then show ?thesis using q j by (simp add: updateLease_def names_ok_def quiet_queue_def queue_call_quiet lease_txn_def)
qed

lemma finish_quiet:
  assumes q: "quiet_queue q" and j: "names_ok j" and r: "r \<in> set (qd_rows (q_data q))" "qr_status r = StatusRunning" "carries j r"
    and st: "st = StatusDone \<or> st = StatusFailed"
  shows "\<exists>q'. SetJobStatus kind j st err q = (None, q') \<and> let_go j q'"
proof -
  have l: "lease_row [StatusRunning] j r" using r by (simp add: lease_row_def carries_def)
  have inv: "table_inv (held (q_data q)) (qd_rows (q_data q))" using q by (simp add: quiet_queue_def queue_ok_def)
  let ?rows = "update_rows (lease_row [StatusRunning] j) (finish_row st err (q_now q)) (qd_rows (q_data q))"
  have "updated_rows (lease_row [StatusRunning] j) (finish_row st err (q_now q)) (qd_rows (q_data q)) \<noteq> []"
    using r(1) l by (auto simp: updated_rows_def filter_empty_conv)
  then have "\<not> holds (j_lease j) ?rows"
    by (rule settled [OF inv]) (simp_all add: lease_row_def finish_row_def)
  moreover have "SetJobStatus kind j st err q = (None, q\<lparr>q_data := (q_data q)\<lparr>qd_rows := ?rows\<rparr>\<rparr>)"
    using lease_quiet [where sel = "lease_row [StatusRunning] j", OF q j r(1) l, of kind "\<lambda>now. finish_row st err now"] st by (auto simp: SetJobStatus_def finish_txn_def)
  ultimately show ?thesis by (simp add: let_go_def)
qed

lemma start_quiet:
  assumes q: "quiet_queue q" and j: "names_ok j" and r: "r \<in> set (qd_rows (q_data q))" "qr_status r = StatusClaimed" "carries j r"
  shows "\<exists>q'. SetJobStatus kind j StatusRunning [] q = (None, q') \<and> quiet_queue q' \<and>
    (\<exists>r' \<in> set (qd_rows (q_data q')). qr_status r' = StatusRunning \<and> carries j r' \<and> qr_target r' = qr_target r \<and> qr_force r' = qr_force r)"
proof -
  have l: "lease_row [StatusClaimed] j r" using r by (simp add: lease_row_def carries_def)
  let ?f = "\<lambda>r. r\<lparr>qr_status := StatusRunning, qr_error := []\<rparr>"
  let ?d = "(q_data q)\<lparr>qd_rows := update_rows (lease_row [StatusClaimed] j) ?f (qd_rows (q_data q))\<rparr>"
  have inv: "table_inv (held (q_data q)) (qd_rows (q_data q))" using q by (simp add: quiet_queue_def queue_ok_def)
  have "table_inv (held ?d) (qd_rows ?d)"
    using table_inv_held [OF inv_lease_updates(2) [OF inv, of "[]" j]] by (simp add: start_txn_def lease_txn_def)
  then have "quiet_queue (q\<lparr>q_data := ?d\<rparr>)" using q by (simp add: quiet_queue_def queue_ok_def)
  moreover have "SetJobStatus kind j StatusRunning [] q = (None, q\<lparr>q_data := ?d\<rparr>)"
    using lease_quiet [where sel = "lease_row [StatusClaimed] j", OF q j r(1) l, of kind "\<lambda>now. ?f"] by (simp add: SetJobStatus_def start_txn_def)
  moreover have "?f r \<in> set (qd_rows ?d)" using r(1) l by (force simp: update_rows_def)
  moreover have "carries j (?f r)" using r(3) by (simp add: carries_def)
  ultimately show ?thesis by (intro exI [of _ "q\<lparr>q_data := ?d\<rparr>"] conjI bexI [of _ "?f r"]) simp_all
qed

lemma fail_successor_quiet:
  assumes q: "quiet_queue q" and j: "names_ok j" and r: "r \<in> set (qd_rows (q_data q))" "qr_status r = StatusRunning" "carries j r"
  shows "\<exists>q'. FailJobWithSuccessor kind j err q = (None, q') \<and> let_go j q'"
proof -
  let ?rows = "qd_rows (q_data q)" and ?sel = "lease_row [StatusRunning] j"
  let ?c = "queueRecoverySelection (j_target j) (j_lease j) ?rows"
  have inv: "table_inv (held (q_data q)) ?rows" using q by (simp add: quiet_queue_def queue_ok_def)
  have l: "?sel r" using r by (simp add: lease_row_def carries_def)
  have own: "list_ex ?sel ?rows" using r(1) l by (auto simp: list_ex_iff)
  have ids: "contains_job (j_id j) (updated_rows ?sel f rows)" if "r \<in> set rows" "\<And>x. qr_id (f x) = qr_id x" for f rows
    using that l by (auto simp: contains_job_def list_ex_iff updated_rows_def lease_row_def)
  obtain out d' where run: "failJobWithSuccessorSQL (q_now q) j err ?c (q_data q) = (Inr out, d')" "contains_job (j_id j) out"
  proof (cases ?c)
    case None
    then show thesis using own that ids [OF r(1)] by (simp add: failJobWithSuccessorSQL_def Let_def)
  next
    case (Some p)
    obtain x where x: "x \<in> set ?rows" "qr_id x = p" "pending x" using recovery_selection [OF Some] by blast
    have "qr_id r \<noteq> p" using row_eq_id [OF inv r(1) x(1)] x r(2) by (auto simp: pending_def)
    then have "r \<in> set (update_rows (\<lambda>r. qr_id r = p) f ?rows)" for f using r(1) by (force simp: update_rows_def)
    from ids [OF this] show thesis using own Some that by (simp add: failJobWithSuccessorSQL_def Let_def finish_row_def)
  qed
  have "out \<noteq> []" using run(2) by (auto simp: contains_job_def)
  then have "\<not> holds (j_lease j) (qd_rows d')" by (rule settled_fail_successor [OF inv run(1)])
  moreover have "fenced_write kind (j_target j) (j_lease j) (\<lambda>start ids now d. failJobWithSuccessorSQL now j err ids d) q = (Inr out, q\<lparr>q_data := d'\<rparr>)"
    by (rule fenced_quiet) (use q j run(1) in \<open>simp_all add: quiet_queue_def names_ok_def\<close>)
  ultimately show ?thesis using j run(2) by (simp add: FailJobWithSuccessor_def names_ok_def let_go_def)
qed

lemma quiet_reset: "quiet_queue q \<Longrightarrow> q\<lparr>q_done := False\<rparr> = q"
  by (cases q) (simp add: quiet_queue_def)

lemma settled_queue: "queued r' rows \<Longrightarrow> qr_target r' = qr_target r \<Longrightarrow> qr_force r' = qr_force r \<Longrightarrow> queued r rows"
  by (simp add: queued_def)

text \<open>When a settled turn must leave the work in the queue.\<close>

definition hands_back :: "runner \<Rightarrow> job \<Rightarrow> bool \<Rightarrow> serr option \<Rightarrow> bool" where
  "hands_back rn j canceled err \<longleftrightarrow> (case err of None \<Rightarrow> False
     | Some e \<Rightarrow> canceled \<or> \<not> IsTerminal e \<and> (IsDeferral e \<or> IsYield e \<or> j_attempts j + 1 < rn_max_attempts rn))"

lemma report_if_saved: "\<exists>events'. report_if (Some (), q') event outcome events = (None, events', q')"
  by (simp add: report_if_def)

lemma settle_quiet:
  assumes q: "quiet_queue q" and j: "names_ok j" "kind \<noteq> []" "0 < rn_interval rn"
    and r: "r \<in> set (qd_rows (q_data q))" "qr_status r = StatusRunning" "carries j r"
  shows "\<exists>until events' q'. settle kind rn n j canceled err events q = (until, events', q') \<and> let_go j q' \<and>
    (hands_back rn j canceled err \<longrightarrow> queued r (qd_rows (q_data q')))"
proof -
  have act: "active r" using r(2) by (simp add: active_def)
  note same = quiet_reset [OF q]
  have release: "\<exists>q'. persist n (plain (ReleaseJob kind j msg)) q = (Some (), q') \<and> let_go j q' \<and> queued r (qd_rows (q_data q'))" for msg
    using return_quiet [OF q j(1) r(1) act r(3), of kind msg 0 False] persist_plain [of "ReleaseJob kind j msg" q] same
    unfolding ReleaseJob_def by metis
  have requeue: "\<exists>q'. persist n (plain (requeue_write kind rn j e)) q = (Some (), q') \<and> let_go j q' \<and> queued r (qd_rows (q_data q'))" for e
  proof -
    let ?nb = "q_now q + (case rn_backoff rn of None \<Rightarrow> 0 | Some f \<Rightarrow> f e (nat (j_attempts j + 1)))"
    obtain q' where "requeue_write kind rn j e q = (None, q')" "let_go j q'" "queued r (qd_rows (q_data q'))"
      using return_quiet [OF q j(1) r(1) act r(3), of kind "job_error_text (Some e)" ?nb True]
      unfolding requeue_write_def RequeueJob_def by metis
    then show ?thesis using persist_plain [of "requeue_write kind rn j e" q] same by metis
  qed
  have finish: "\<exists>q'. persist n (plain (SetJobStatus kind j StatusDone [])) q = (Some (), q') \<and> let_go j q'"
    using finish_quiet [OF q j(1) r, of StatusDone kind "[]"] persist_plain [of "SetJobStatus kind j StatusDone []" q] same by metis
  have fail: "\<exists>q'. persist n (plain (fail_write kind j e)) q = (Some (), q') \<and> let_go j q'" for e
    using finish_quiet [OF q j(1) r, of StatusFailed kind "job_error_text (Some e)"] fail_successor_quiet [OF q j(1) r, of kind "job_error_text (Some e)"]
      persist_plain [of "fail_write kind j e" q] same unfolding fail_write_def by (cases "IsSuccessorRetry e") (simp_all, metis+)
  have dfr: "\<exists>until q'. persist n (DeferJob kind j msg (rn_interval rn)) q = (Some until, q') \<and> let_go j q' \<and> queued r (qd_rows (q_data q'))" for msg
    using defer_quiet [OF q j r(1) act r(3), of msg] persist_first [of "DeferJob kind j msg (rn_interval rn)" q] same by metis
  show ?thesis
  proof (cases err)
    case None
    then show ?thesis using finish by (auto simp: settle_def report_if_def hands_back_def)
  next
    case (Some e)
    consider "canceled" | "\<not> canceled" "IsTerminal e" | "\<not> canceled" "\<not> IsTerminal e" "IsDeferral e"
      | "\<not> canceled" "\<not> IsTerminal e" "\<not> IsDeferral e" "IsYield e"
      | "\<not> canceled" "\<not> IsTerminal e" "\<not> IsDeferral e" "\<not> IsYield e" "j_attempts j + 1 \<ge> rn_max_attempts rn"
      | "\<not> canceled" "\<not> IsTerminal e" "\<not> IsDeferral e" "\<not> IsYield e" "j_attempts j + 1 < rn_max_attempts rn"
      by linarith
    then show ?thesis
    proof cases
      case 1 then show ?thesis using Some release [of "''context canceled''"] by (auto simp: settle_def report_if_def)
    next
      case 2 then show ?thesis using Some fail [of e] by (auto simp: settle_def report_if_def hands_back_def)
    next
      case 3 then show ?thesis using Some dfr [of "job_error_text (Some e)"] by (auto simp: settle_def)
    next
      case 4 then show ?thesis using Some release [of "job_error_text (Some e)"] by (auto simp: settle_def report_if_def)
    next
      case 5 then show ?thesis using Some fail [of e] by (auto simp: settle_def report_if_def hands_back_def)
    next
      case 6 then show ?thesis using Some requeue [of e] by (auto simp: settle_def report_if_def)
    qed
  qed
qed

text \<open>
  C32. A turn always settles its claim and loses work only when it may. With an undisturbed database, a
  claimed row, and a heartbeat that did not report a lost lease, \<open>execute\<close> ends with no row holding the
  job's lease -- whatever the handler returned, whenever the context was canceled. Unless the handler
  succeeded, was refused terminally, or failed on its last attempt, a pending row for the target carries
  the work on, with its force flag.
\<close>

theorem execute_settles:
  assumes "queue_ok q" and "q_script q = []" and "\<not> q_done q"
    and "r \<in> set (qd_rows (q_data q))" and "qr_status r = StatusClaimed" and "carries j r"
    and "names_ok j" and "kind \<noteq> []" and "0 < rn_interval rn" and "joined_error h hb = Some err"
  shows "\<exists>until events q'. execute kind rn n j c0 c1 c2 h hb q = (until, events, q') \<and>
    \<not> holds (j_lease j) (qd_rows (q_data q')) \<and>
    (c0 \<or> c1 \<or> hands_back rn j c2 err \<longrightarrow>
       (\<exists>s \<in> set (qd_rows (q_data q')). pending s \<and> qr_target s = qr_target r \<and> (qr_force r \<longrightarrow> qr_force s)))"
proof -
  have q: "quiet_queue q" using assms(1-3) by (simp add: quiet_queue_def)
  note same = quiet_reset [OF q]
  have act: "active r" using assms(5) by (simp add: active_def)
  show ?thesis
  proof (cases c0)
    case True
    obtain q' where "ReleaseJob kind j ''runner shutting down'' q = (None, q')" "let_go j q'" "queued r (qd_rows (q_data q'))"
      using return_quiet [OF q assms(7,4) act assms(6), of kind "''runner shutting down''" 0 False] unfolding ReleaseJob_def by metis
    then show ?thesis using True persist_plain [of "ReleaseJob kind j ''runner shutting down''" q q' n] same
      by (auto simp: execute_def report_if_def let_go_def queued_def)
  next
    case False
    obtain q1 r' where st: "SetJobStatus kind j StatusRunning [] q = (None, q1)" and q1: "quiet_queue q1"
      and r': "r' \<in> set (qd_rows (q_data q1))" "qr_status r' = StatusRunning" "carries j r'" "qr_target r' = qr_target r" "qr_force r' = qr_force r"
      using start_quiet [OF q assms(7,4,5,6), of kind] by metis
    have p: "persist n (plain (SetJobStatus kind j StatusRunning [])) q = (Some (), q1)" by (rule persist_plain) (simp add: same st)
    have act': "active r'" using r'(2) by (simp add: active_def)
    show ?thesis
    proof (cases c1)
      case True
      obtain q' where "ReleaseJob kind j ''runner shutting down'' q1 = (None, q')" "let_go j q'" "queued r' (qd_rows (q_data q'))"
        using return_quiet [OF q1 assms(7) r'(1) act' r'(3), of kind "''runner shutting down''" 0 False] unfolding ReleaseJob_def by metis
      then show ?thesis using True False p persist_plain [of "ReleaseJob kind j ''runner shutting down''" q1 q' n] quiet_reset [OF q1] r'(4,5)
        by (auto simp: execute_def report_if_def let_go_def queued_def)
    next
      case nc: False
      obtain until ev q' where "settle kind rn n j c2 err [(''started'', ''running'')] q1 = (until, ev, q')" "let_go j q'"
        "hands_back rn j c2 err \<longrightarrow> queued r' (qd_rows (q_data q'))"
        using settle_quiet [OF q1 assms(7-9) r'(1-3), of n c2 err "[(''started'', ''running'')]"] by metis
      then show ?thesis using nc False p assms(10) r'(4,5)
        by (auto simp: execute_def let_go_def queued_def)
    qed
  qed
qed

lemma sample_carries: "carries sample_job (claim_row ''w'' ''l1'' 7 (new_row ''a1'' ''repo'' True None 5))" "names_ok sample_job"
  by (simp_all add: carries_def names_ok_def sample_job_def toJob_def claim_row_def new_row_def option_string_def)

theorem execute_settles_witness:
  "\<exists>until events q'. execute ''indexing_job'' (runner_defaults ''h'' zero_runner) 2 sample_job False False False
      (Some (ErrNew ''exit status 1'')) None idle_queue = (until, events, q') \<and>
    \<not> holds (j_lease sample_job) (qd_rows (q_data q')) \<and>
    (False \<or> False \<or> hands_back (runner_defaults ''h'' zero_runner) sample_job False (Some (ErrNew ''exit status 1'')) \<longrightarrow>
       (\<exists>s \<in> set (qd_rows (q_data q')). pending s \<and> qr_target s = qr_target (claim_row ''w'' ''l1'' 7 (new_row ''a1'' ''repo'' True None 5)) \<and>
          (qr_force (claim_row ''w'' ''l1'' 7 (new_row ''a1'' ''repo'' True None 5)) \<longrightarrow> qr_force s)))"
proof (rule execute_settles)
  show "queue_ok idle_queue"
    using job_table.reachable_invar [OF sample_claimed_reachable] by (auto simp: queue_ok_def idle_queue_def intro: table_inv_held)
qed (simp_all add: idle_queue_def sample_claimed_rows sample_carries default_runner joined_error_def, simp add: claim_row_def)

end
