(* ===== verification/Repo_Identity.thy ===== *)
theory Repo_Identity
  imports Go_Errors Go_Strings
begin

text \<open>
  The identities every publication boundary shares: canonical repository names
  (\<open>internal/reponame\<close>), repository-relative Git paths (\<open>internal/repopath\<close>), full object identifiers
  (\<open>internal/gitobj\<close>) and the mirror directory of a repository (\<open>RepoDir\<close> of \<open>internal/sync\<close>), with
  the lexical path operations of Go's \<open>path\<close> and \<open>path/filepath\<close> packages on a Unix host and
  \<open>encoding/hex\<close>.
\<close>

section \<open>Lexical paths\<close>

text \<open>\<open>path.Clean\<close> by components: the stack holds the components kept so far, the last one first.\<close>

definition clean_step :: "bool \<Rightarrow> gostring list \<Rightarrow> gostring \<Rightarrow> gostring list" where
  "clean_step rooted st c =
     (if c = [] \<or> c = ''.'' then st
      else if c = ''..'' then
        (case st of [] \<Rightarrow> if rooted then [] else [''..'']
         | t # rest \<Rightarrow> if t = ''..'' then ''..'' # st else rest)
      else c # st)"

definition path_IsAbs :: "gostring \<Rightarrow> bool" where
  "path_IsAbs s \<longleftrightarrow> HasPrefix s ''/''"

definition path_Clean :: "gostring \<Rightarrow> gostring" where
  "path_Clean s =
     (let rooted = path_IsAbs s;
          out = (if rooted then ''/'' else []) @
            Join CHR ''/'' (rev (foldl (clean_step rooted) [] (Split CHR ''/'' s)))
      in if out = [] then ''.'' else out)"

definition filepath_Join :: "gostring list \<Rightarrow> gostring" where
  "filepath_Join elems =
     (let parts = filter (\<lambda>e. e \<noteq> []) elems
      in if parts = [] then [] else path_Clean (Join CHR ''/'' parts))"

section \<open>Repository names\<close>

text \<open>\<open>strings.ToLower\<close> as a test for an ASCII suffix sees it: the runes whose simple lower-case
  mapping is an ASCII rune are mapped, and no other rune maps to one.\<close>

definition lower_rune :: "nat \<Rightarrow> nat" where
  "lower_rune r = (if 65 \<le> r \<and> r \<le> 90 then r + 32 else if r = 0x130 then 0x69
     else if r = 0x212A then 0x6B else r)"

definition lower_HasSuffix :: "gostring \<Rightarrow> gostring \<Rightarrow> bool" where
  "lower_HasSuffix s p \<longleftrightarrow> take (length p) (rev (map lower_rune (runes s))) = rev (map byte p)"

definition plain_component :: "gostring \<Rightarrow> bool" where
  "plain_component c \<longleftrightarrow> c \<noteq> [] \<and> c \<noteq> ''.'' \<and> c \<noteq> ''..''"

definition control_free :: "gostring \<Rightarrow> bool" where
  "control_free s \<longleftrightarrow> list_all (\<lambda>r. \<not> (r < 0x20 \<or> r = 0x7f)) (runes s)"

abbreviation ErrInvalidRepoName :: "'a goerr" where
  "ErrInvalidRepoName \<equiv> ErrNew ''invalid repository name''"

definition reponame_Validate :: "gostring \<Rightarrow> 'a goerr option" where
  "reponame_Validate name =
     (if name = [] \<or> int (length name) > 1024 \<or> \<not> ValidString name \<or> TrimSpace name \<noteq> name \<or>
         CHR 0x5C \<in> set name \<or> path_IsAbs name \<or> path_Clean name \<noteq> name \<or> name = ''.''
      then Some ErrInvalidRepoName
      else let components = Split CHR ''/'' name
        in if list_all (\<lambda>c. plain_component c \<and> control_free c) components \<and>
              list_all (\<lambda>c. \<not> lower_HasSuffix c ''.git'') (butlast components)
           then None else Some ErrInvalidRepoName)"

abbreviation ErrInvalidRepoPath :: "'a goerr" where
  "ErrInvalidRepoPath \<equiv> ErrNew ''invalid repository-relative path''"

definition repopath_Validate :: "gostring \<Rightarrow> 'a goerr option" where
  "repopath_Validate value =
     (if value = [] \<or> int (length value) > 4096 \<or> value = ''.'' \<or> HasPrefix value ''-'' \<or> path_IsAbs value \<or>
         path_Clean value \<noteq> value \<or> CHR 0x5C \<in> set value \<or> \<not> ValidString value \<or>
         \<not> list_all plain_component (Split CHR ''/'' value) \<or> \<not> control_free value
      then Some ErrInvalidRepoPath else None)"

definition RepoDir :: "gostring \<Rightarrow> gostring \<Rightarrow> gostring" where
  "RepoDir dataDir name = filepath_Join [dataDir, ''repos'', name @ ''.git'']"

section \<open>Object identifiers and digests\<close>

definition lower_hex :: "char \<Rightarrow> bool" where
  "lower_hex c \<longleftrightarrow> 48 \<le> byte c \<and> byte c \<le> 57 \<or> 97 \<le> byte c \<and> byte c \<le> 102"

definition IsObjectID :: "gostring \<Rightarrow> bool" where
  "IsObjectID value \<longleftrightarrow> (length value = 40 \<or> length value = 64) \<and>
     list_all (\<lambda>r. \<not> ((r < 48 \<or> r > 57) \<and> (r < 97 \<or> r > 102))) (runes value)"

text \<open>\<open>hex.EncodeToString\<close> and \<open>hex.DecodeString\<close>; the decoder takes both cases and fails on an odd
  length or a byte that is no digit.\<close>

definition hex_digit :: "nat \<Rightarrow> char" where
  "hex_digit n = char_of (if n < 10 then 48 + n else 87 + n)"

definition hex_value :: "char \<Rightarrow> nat option" where
  "hex_value c = (let b = byte c in
     if 48 \<le> b \<and> b \<le> 57 then Some (b - 48) else if 97 \<le> b \<and> b \<le> 102 then Some (b - 87)
     else if 65 \<le> b \<and> b \<le> 70 then Some (b - 55) else None)"

fun hex_encode :: "8 word list \<Rightarrow> gostring" where
  "hex_encode [] = []"
| "hex_encode (w # ws) = hex_digit (unat w div 16) # hex_digit (unat w mod 16) # hex_encode ws"

fun hex_decode :: "gostring \<Rightarrow> 8 word list option" where
  "hex_decode [] = Some []"
| "hex_decode [c] = None"
| "hex_decode (c # d # s) =
     (case (hex_value c, hex_value d, hex_decode s) of
        (Some x, Some y, Some ws) \<Rightarrow> Some (word_of_nat (16 * x + y) # ws)
      | _ \<Rightarrow> None)"

lemma hex_value_digit: "n < 16 \<Longrightarrow> hex_value (hex_digit n) = Some n"
  by (auto simp: hex_value_def hex_digit_def Let_def of_char_of)

lemma hex_decode_encode [simp]: "hex_decode (hex_encode ws) = Some ws"
proof (induction ws)
  case (Cons w ws)
  have "unat w < 256" using unsigned_less [of w] by simp
  then have "unat w div 16 < 16" by (simp add: less_mult_imp_div_less)
  with Cons show ?case by (simp add: hex_value_digit)
qed simp

definition validDigest :: "gostring \<Rightarrow> bool" where
  "validDigest value \<longleftrightarrow> length value = 71 \<and> HasPrefix value ''sha256:'' \<and>
     (case hex_decode (drop 7 value) of None \<Rightarrow> False | Some ws \<Rightarrow> length ws = 32)"

section \<open>Mirror directories\<close>

lemma Split_sep_append: "Split c (p @ c # s) = Split c p @ Split c s"
proof (induction p)
  case (Cons x xs)
  then show ?case by (cases "Split c xs") auto
qed simp

lemma Split_last_append:
  assumes "c \<notin> set q" shows "Split c (p @ q) = butlast (Split c p) @ [last (Split c p) @ q]"
proof (induction p)
  case Nil
  then show ?case using assms by (simp add: Split_free)
next
  case (Cons x xs)
  then show ?case by (cases "Split c xs") auto
qed

lemma Join_append:
  "xs \<noteq> [] \<Longrightarrow> ys \<noteq> [] \<Longrightarrow> Join c (xs @ ys) = Join c xs @ c # Join c ys"
proof (induction xs)
  case (Cons x xs)
  then show ?case by (cases xs) (simp_all add: Join_Cons)
qed simp

lemma clean_plain:
  "list_all plain_component cs \<Longrightarrow> foldl (clean_step rooted) st cs = rev cs @ st"
  by (induction cs arbitrary: st) (simp_all add: clean_step_def plain_component_def)

lemma clean_step_nonempty: "[] \<notin> set st \<Longrightarrow> [] \<notin> set (clean_step rooted st c)"
  by (cases st; cases "c = []") (auto simp: clean_step_def)

lemma clean_stack_nonempty:
  "[] \<notin> set st \<Longrightarrow> [] \<notin> set (foldl (clean_step rooted) st cs)"
  by (induction cs arbitrary: st) (simp_all add: clean_step_nonempty)

lemma Join_nonempty: "xs \<noteq> [] \<Longrightarrow> [] \<notin> set xs \<Longrightarrow> Join c xs \<noteq> []"
  by (cases xs; cases "tl xs") (auto simp: Join_Cons)

lemma path_Clean_below:
  assumes "foldl (clean_step (path_IsAbs p)) [] (Split CHR ''/'' p) \<noteq> []"
    and "list_all plain_component (Split CHR ''/'' s)" and "p \<noteq> []"
  shows "path_Clean (p @ CHR ''/'' # s) = path_Clean p @ CHR ''/'' # s"
proof -
  have "path_IsAbs (p @ CHR ''/'' # s) = path_IsAbs p"
    using assms(3) by (cases p) (simp_all add: path_IsAbs_def HasPrefix_def)
  moreover have "Join CHR ''/'' (rev (foldl (clean_step (path_IsAbs p)) [] (Split CHR ''/'' p))) \<noteq> []"
    using assms(1) clean_stack_nonempty [of "[]"] by (intro Join_nonempty) auto
  ultimately show ?thesis
    using assms(1) by (simp add: path_Clean_def Let_def Split_sep_append clean_plain [OF assms(2)] Join_append)
qed

lemma dot_git_component: "plain_component (c @ ''.git'')"
  by (auto simp: plain_component_def append_eq_Cons_conv)

lemma mirror_components:
  assumes "reponame_Validate name = None"
  shows "Split CHR ''/'' (name @ ''.git'') =
      butlast (Split CHR ''/'' name) @ [last (Split CHR ''/'' name) @ ''.git'']"
    and "list_all plain_component (Split CHR ''/'' (name @ ''.git''))"
    and "list_all (\<lambda>c. \<not> lower_HasSuffix c ''.git'') (butlast (Split CHR ''/'' name))"
proof -
  show s: "Split CHR ''/'' (name @ ''.git'') =
      butlast (Split CHR ''/'' name) @ [last (Split CHR ''/'' name) @ ''.git'']"
    by (rule Split_last_append) simp
  show "list_all (\<lambda>c. \<not> lower_HasSuffix c ''.git'') (butlast (Split CHR ''/'' name))"
    and "list_all plain_component (Split CHR ''/'' (name @ ''.git''))"
    using assms unfolding s
    by (auto simp: reponame_Validate_def Let_def list_all_iff dot_git_component in_set_butlastD split: if_splits)
qed

lemma RepoDir_below:
  assumes "reponame_Validate name = None"
  shows "RepoDir dataDir name = filepath_Join [dataDir, ''repos''] @ CHR ''/'' # name @ ''.git''"
proof -
  let ?p = "Join CHR ''/'' (filter (\<lambda>e. e \<noteq> []) [dataDir, ''repos''])"
  have "RepoDir dataDir name = path_Clean (?p @ CHR ''/'' # (name @ ''.git''))"
    by (simp add: RepoDir_def filepath_Join_def)
  moreover have "foldl (clean_step (path_IsAbs ?p)) [] (Split CHR ''/'' ?p) \<noteq> []"
    by (simp add: Split_sep_append clean_step_def)
  ultimately show ?thesis
    using path_Clean_below [OF _ mirror_components(2) [OF assms], of ?p]
    by (simp add: filepath_Join_def)
qed

lemma decode_rune_continuation:
  "decode_rune s = Some (r, n) \<Longrightarrow> 0 < i \<Longrightarrow> i < n \<Longrightarrow> 128 \<le> byte (s ! i)"
proof (cases s)
  case (Cons c cs)
  assume d: "decode_rune s = Some (r, n)" and i: "0 < i" "i < n"
  define lo where "lo = fst (second_range (byte c))"
  have lo: "128 \<le> lo" by (simp add: lo_def second_range_def)
  consider "n = 1"
    | c1 cs' where "n = 2" "cs = c1 # cs'" "lo \<le> byte c1"
    | c1 c2 cs' where "n = 3" "cs = c1 # c2 # cs'" "lo \<le> byte c1" "128 \<le> byte c2"
    | c1 c2 c3 cs' where "n = 4" "cs = c1 # c2 # c3 # cs'" "lo \<le> byte c1" "128 \<le> byte c2" "128 \<le> byte c3"
    using d Cons by (auto simp: Let_def cont_byte_def lo_def split: if_splits list.splits prod.splits)
  then show ?thesis
  proof cases
    case 2
    then have "i = 1" using i by simp
    with 2 lo Cons show ?thesis by simp
  next
    case 3
    then have "i = 1 \<or> i = 2" using i by auto
    with 3 lo Cons show ?thesis by auto
  next
    case 4
    then have "i = 1 \<or> i = 2 \<or> i = 3" using i by auto
    with 4 lo Cons show ?thesis by auto
  qed (use i in simp)
qed simp

lemma decode_rune_before_ascii:
  assumes "decode_rune (s @ t) = Some (r, n)" and "s \<noteq> []" and "\<forall>c \<in> set t. byte c < 128"
  shows "n \<le> length s"
proof (rule ccontr)
  assume n: "\<not> n \<le> length s"
  then have "(s @ t) ! length s \<in> set t"
    using decode_rune_width [OF assms(1)] by (cases t) auto
  moreover have "128 \<le> byte ((s @ t) ! length s)"
    using n assms(2) by (intro decode_rune_continuation [OF assms(1)]) auto
  ultimately show False using assms(3) by auto
qed

text \<open>Decoding resynchronises at ASCII text, whatever comes before it.\<close>

lemma runes_ascii_suffix:
  assumes "\<forall>c \<in> set t. byte c < 128"
  shows "\<exists>rs. runes (s @ t) = rs @ map byte t"
proof (induction s rule: length_induct)
  case (1 s)
  show ?case
  proof (cases s)
    case Nil
    then show ?thesis using runes_ascii [OF assms] by simp
  next
    case (Cons c cs)
    show ?thesis
    proof (cases "decode_rune (s @ t)")
      case None
      then have "runes (s @ t) = 0xFFFD # runes (cs @ t)"
        using Cons by (subst runes.simps) simp
      with "1.IH" Cons show ?thesis by (metis append_Cons length_Cons lessI)
    next
      case (Some x)
      obtain r n where x: "x = (r, n)" by (cases x)
      have n: "n \<le> length s" "0 < n"
        using decode_rune_before_ascii [of s t r n] decode_rune_width [of "s @ t" r n] Some x Cons assms by auto
      then have "runes (s @ t) = r # runes (drop n s @ t)"
        using Some x Cons by (subst runes.simps) (simp del: decode_rune.simps add: drop_append [of n "c # cs", simplified])
      moreover have "length (drop n s) < length s" using n Cons by simp
      ultimately show ?thesis using "1.IH" by (metis append_Cons)
    qed
  qed
qed

lemma lower_HasSuffix_git: "lower_HasSuffix (s @ ''.git'') ''.git''"
proof -
  obtain rs where "runes (s @ ''.git'') = rs @ map byte ''.git''"
    using runes_ascii_suffix [of "''.git''" s] by auto
  then show ?thesis by (simp add: lower_HasSuffix_def lower_rune_def)
qed

text \<open>The components of one mirror directory never start those of another.\<close>

lemma mirror_not_nested:
  assumes "reponame_Validate a = None" "reponame_Validate b = None"
    and "name_rest = CHR ''/'' # rest \<or> name_rest = []"
    and "b @ ''.git'' = a @ ''.git'' @ name_rest"
  shows "name_rest = []"
proof (rule ccontr)
  let ?sp = "Split CHR ''/''"
  assume "name_rest \<noteq> []"
  with assms(3,4) have "b @ ''.git'' = (a @ ''.git'') @ CHR ''/'' # rest" by simp
  then have "?sp (b @ ''.git'') = ?sp (a @ ''.git'') @ ?sp rest"
    by (simp only: Split_sep_append)
  then have "butlast (?sp b) @ [last (?sp b) @ ''.git''] =
      butlast (?sp a) @ (last (?sp a) @ ''.git'') # ?sp rest"
    by (simp add: mirror_components(1) [OF assms(1)] mirror_components(1) [OF assms(2)])
  then have "butlast (?sp b) = butlast (?sp a) @ (last (?sp a) @ ''.git'') # butlast (?sp rest)"
    by (metis (no_types, lifting) Split_nonempty butlast.simps(2) butlast_append butlast_snoc list.distinct(1))
  then have "last (?sp a) @ ''.git'' \<in> set (butlast (?sp b))" by simp
  with mirror_components(3) [OF assms(2)] show False
    by (auto simp: list_all_iff lower_HasSuffix_git)
qed

text \<open>
  C33. Mirrors of canonical repositories are contained and never alias or nest: for two different
  names that \<open>reponame.Validate\<close> accepts, both mirror directories lie below the managed root
  \<open>dataDir/repos\<close>, they are different, and neither lies inside the other, whatever the data directory
  is spelled like.
\<close>

theorem mirrors_contained_disjoint:
  assumes "reponame_Validate a = None" and "reponame_Validate b = None" and "a \<noteq> b"
  shows "HasPrefix (RepoDir dataDir a) (filepath_Join [dataDir, ''repos''] @ ''/'') \<and>
    RepoDir dataDir a \<noteq> RepoDir dataDir b \<and> \<not> HasPrefix (RepoDir dataDir b) (RepoDir dataDir a @ ''/'')"
proof -
  let ?root = "filepath_Join [dataDir, ''repos'']"
  have dirs: "RepoDir dataDir a = ?root @ CHR ''/'' # a @ ''.git''" "RepoDir dataDir b = ?root @ CHR ''/'' # b @ ''.git''"
    using assms(1,2) by (simp_all add: RepoDir_below)
  have "\<not> prefix (RepoDir dataDir a @ ''/'') (RepoDir dataDir b)"
  proof
    assume "prefix (RepoDir dataDir a @ ''/'') (RepoDir dataDir b)"
    then obtain rest where "b @ ''.git'' = a @ ''.git'' @ CHR ''/'' # rest"
      unfolding dirs by (auto simp: prefix_def)
    from mirror_not_nested [OF assms(1,2) _ this] show False by blast
  qed
  moreover have "HasPrefix (RepoDir dataDir a) (?root @ ''/'')" unfolding dirs by (simp add: HasPrefix_def)
  ultimately show ?thesis using assms(3) unfolding dirs by (simp add: HasPrefix_iff)
qed

lemma TrimSpace_plain:
  assumes "space_prefix space_encodings s = 0" "space_prefix (map rev space_encodings) (rev s) = 0"
  shows "TrimSpace s = s"
  using assms by (simp add: TrimSpace_def strip.simps)

lemma sample_names:
  "reponame_Validate ''a.b/c'' = None" "reponame_Validate ''a.b/c.git2'' = None"
proof -
  have "TrimSpace ''a.b/c'' = ''a.b/c''" "TrimSpace ''a.b/c.git2'' = ''a.b/c.git2''"
    by (rule TrimSpace_plain; simp add: space_encodings_def space_prefix_def upt_rec)+
  then show "reponame_Validate ''a.b/c'' = None" "reponame_Validate ''a.b/c.git2'' = None"
    by (simp_all add: reponame_Validate_def ValidString_ascii path_IsAbs_def HasPrefix_def path_Clean_def clean_step_def
      plain_component_def control_free_def runes_ascii lower_HasSuffix_def lower_rune_def)
qed

theorem mirrors_contained_disjoint_witness:
  "\<not> HasPrefix (RepoDir ''/var/../data'' ''a.b/c.git2'') (RepoDir ''/var/../data'' ''a.b/c'' @ ''/'')"
  using mirrors_contained_disjoint [OF sample_names, of "''/var/../data''"] by simp

end
