(* ===== verification/Source_Model.thy ===== *)
theory Source_Model
  imports Pipeline_Refusal Repo_Identity
begin

text \<open>
  The data of \<open>internal/sourcepartition\<close> and its validators (\<open>model.go\<close>): policies, blob records with
  their placements, partition members and manifests, and the hash-bit prefixes that assign an object
  to a member. The hash functions and the JSON codec are the fields of the record \<open>codec\<close>.
\<close>

section \<open>Bounds and errors\<close>

abbreviation "InitialPrefixBits \<equiv> (4 :: nat)"
abbreviation "MaxSuffixes \<equiv> (16 :: int)"
abbreviation "MaxSuffixBytes \<equiv> (32 :: int)"
abbreviation "MaxBlobsPerPartition \<equiv> (4096 :: int)"
abbreviation "MaxPlacementsPerPartition \<equiv> (4096 :: int)"
abbreviation "MaxPartitions \<equiv> (16384 :: int)"
abbreviation "MaxBlobBytes \<equiv> (4194304 :: int)"
abbreviation "MaxPartitionBlobBytes \<equiv> (67108864 :: int)"
abbreviation "MaxGenerationBlobBytes \<equiv> (4294967296 :: int)"
abbreviation "MaxGenerationContentBytes \<equiv> (4294967296 :: int)"
abbreviation "MaxMemberContentBytes \<equiv> (67108864 :: int)"
abbreviation "MaxManifestBytes \<equiv> (8388608 :: int)"
abbreviation "MaxRecordBytes \<equiv> (4194304 :: int)"
abbreviation "MaxSpoolBytes \<equiv> (8589934592 :: int)"
abbreviation "MaxBatchOutputBytes \<equiv> (68157440 :: int)"
abbreviation "MaxBatchDescriptors \<equiv> (3 :: int)"
abbreviation "MaxBatchDuration \<equiv> (300000000000 :: int)"

abbreviation "PolicySchema \<equiv> ''phebs-source-partition-policy-v1''"
abbreviation "MemberSchema \<equiv> ''phebs-source-partition-member-v1''"
abbreviation "ManifestSchema \<equiv> ''phebs-source-partition-manifest-v1''"

definition ErrSourceInvalid :: perr where
  "ErrSourceInvalid = ErrNew ''invalid source partition''"

definition ErrTooLarge :: perr where
  "ErrTooLarge = ErrNew ''source partition limit exceeded''"

definition ErrHashCollision :: perr where
  "ErrHashCollision = ErrNew ''source partition hash cannot split''"

definition invalidf :: "gostring \<Rightarrow> perr" where
  "invalidf message = ErrSuffix ErrSourceInvalid ('': '' @ message)"

section \<open>Data\<close>

record policy =
  po_schema :: gostring
  po_name :: gostring
  po_version :: gostring
  po_suffixes :: "gostring list"

record frozen_policy =
  fp_name :: gostring
  fp_blob_hash_policy :: gostring
  fp_initial_prefix_bits :: int
  fp_max_suffixes :: int
  fp_max_suffix_bytes :: int
  fp_max_partitions :: int
  fp_max_blobs :: int
  fp_max_placements :: int
  fp_max_blob_bytes :: int
  fp_max_partition_blob_bytes :: int
  fp_max_generation_blob_bytes :: int
  fp_max_generation_content_bytes :: int
  fp_max_member_content_bytes :: int
  fp_max_manifest_bytes :: int
  fp_max_record_bytes :: int
  fp_max_spool_bytes :: int
  fp_max_batch_output_bytes :: int
  fp_max_batch_descriptors :: int
  fp_max_batch_duration :: int
  fp_ordering :: gostring
  fp_split_rule :: gostring

definition frozenPolicy :: frozen_policy where
  "frozenPolicy = \<lparr>fp_name = ''immutable-blob-hash-prefix-v1'',
     fp_blob_hash_policy = ''phebs-source-partition-blob-v1'', fp_initial_prefix_bits = int InitialPrefixBits,
     fp_max_suffixes = MaxSuffixes, fp_max_suffix_bytes = MaxSuffixBytes, fp_max_partitions = MaxPartitions,
     fp_max_blobs = MaxBlobsPerPartition, fp_max_placements = MaxPlacementsPerPartition,
     fp_max_blob_bytes = MaxBlobBytes, fp_max_partition_blob_bytes = MaxPartitionBlobBytes,
     fp_max_generation_blob_bytes = MaxGenerationBlobBytes,
     fp_max_generation_content_bytes = MaxGenerationContentBytes,
     fp_max_member_content_bytes = MaxMemberContentBytes, fp_max_manifest_bytes = MaxManifestBytes,
     fp_max_record_bytes = MaxRecordBytes, fp_max_spool_bytes = MaxSpoolBytes,
     fp_max_batch_output_bytes = MaxBatchOutputBytes, fp_max_batch_descriptors = MaxBatchDescriptors,
     fp_max_batch_duration = MaxBatchDuration, fp_ordering = ''object-id-then-placement-v1'',
     fp_split_rule = ''next-domain-separated-object-id-hash-bit-v1''\<rparr>"

record placement =
  pl_path :: gostring
  pl_mode :: gostring
  pl_revisions :: "int list"

record blob_record =
  br_schema :: gostring
  br_object :: gostring
  br_bytes :: int
  br_placements :: "placement list"

record member =
  mb_ordinal :: int
  mb_count :: int
  mb_name :: gostring
  mb_prefix :: gostring
  mb_prefix_bits :: int
  mb_blobs :: int
  mb_placements :: int
  mb_declared :: int
  mb_content :: int
  mb_digest :: gostring
  mb_first :: gostring
  mb_last :: gostring

text \<open>\<open>mf_members\<close> is \<open>None\<close> where the Go slice is nil.\<close>

record manifest =
  mf_schema :: gostring
  mf_repository :: gostring
  mf_source :: gostring
  mf_revisions :: int
  mf_policy :: policy
  mf_policy_digest :: gostring
  mf_partition_policy :: frozen_policy
  mf_generation :: gostring
  mf_members :: "member list option"
  mf_blobs :: int
  mf_placements :: int
  mf_declared :: int
  mf_encoded :: int
  mf_digest :: gostring

record spool_record =
  sr_object :: gostring
  sr_bytes :: int
  sr_path :: gostring
  sr_mode :: gostring
  sr_revisions :: "int list"
  sr_hash :: gostring

text \<open>\<open>sha256.Sum256\<close>, the replaceable hash of object identifiers, and \<open>encoding/json\<close> at the types
  that are stored.\<close>

record codec =
  cd_sha :: "gostring \<Rightarrow> 8 word list"
  cd_blob_hash :: "gostring \<Rightarrow> 8 word list"
  cd_policy_json :: "policy \<Rightarrow> frozen_policy \<Rightarrow> gostring"
  cd_manifest_json :: "manifest \<Rightarrow> gostring"
  cd_blob_json :: "blob_record \<Rightarrow> gostring"
  cd_blob_parse :: "gostring \<Rightarrow> blob_record option"
  cd_spool_json :: "spool_record \<Rightarrow> gostring"
  cd_spool_parse :: "gostring \<Rightarrow> spool_record option"

section \<open>Policies and digests\<close>

definition validToken :: "gostring \<Rightarrow> int \<Rightarrow> bool" where
  "validToken value maximum \<longleftrightarrow> value \<noteq> [] \<and> int (length value) \<le> maximum \<and> ValidString value \<and>
     list_all (\<lambda>r. 97 \<le> r \<and> r \<le> 122 \<or> 48 \<le> r \<and> r \<le> 57 \<or> r = 45) (runes value)"

definition validVersion :: "gostring \<Rightarrow> bool" where
  "validVersion value \<longleftrightarrow> (let parts = Split CHR ''.'' value
     in length parts = 3 \<and> list_all (\<lambda>p. p \<noteq> [] \<and> length p \<le> 8 \<and> list_all (\<lambda>r. 48 \<le> r \<and> r \<le> 57) (runes p)) parts)"

definition validSuffix :: "gostring \<Rightarrow> bool" where
  "validSuffix value \<longleftrightarrow> list_all (\<lambda>r. 97 \<le> r \<and> r \<le> 122 \<or> 65 \<le> r \<and> r \<le> 90 \<or> 48 \<le> r \<and> r \<le> 57 \<or>
     r = 46 \<or> r = 95 \<or> r = 45) (runes value)"

fun suffixes_ok :: "gostring \<Rightarrow> gostring list \<Rightarrow> bool" where
  "suffixes_ok previous [] \<longleftrightarrow> True"
| "suffixes_ok previous (s # ss) \<longleftrightarrow> s \<noteq> previous \<and> length s \<ge> 2 \<and> int (length s) \<le> MaxSuffixBytes \<and>
     HasPrefix s ''.'' \<and> validSuffix s \<and> suffixes_ok s ss"

definition ValidatePolicy :: "policy \<Rightarrow> perr option" where
  "ValidatePolicy p =
     (if po_schema p \<noteq> PolicySchema \<or> \<not> validToken (po_name p) 128 \<or> \<not> validVersion (po_version p) \<or>
         po_suffixes p = [] \<or> int (length (po_suffixes p)) > MaxSuffixes \<or> \<not> sorted (po_suffixes p)
      then Some (invalidf ''policy identity is invalid'')
      else if \<not> suffixes_ok [] (po_suffixes p) then Some (invalidf ''policy suffix is invalid'')
      else None)"

definition digest :: "codec \<Rightarrow> gostring \<Rightarrow> gostring \<Rightarrow> gostring" where
  "digest cd domain raw = ''sha256:'' @ hex_encode (cd_sha cd (domain @ raw))"

definition PolicyDigest :: "codec \<Rightarrow> policy \<Rightarrow> perr + gostring" where
  "PolicyDigest cd p = (case ValidatePolicy p of Some e \<Rightarrow> Inl e
     | None \<Rightarrow> Inr (digest cd (''phebs-source-partition-policy-v1'' @ [CHR 0x00]) (cd_policy_json cd p frozenPolicy)))"

definition GenerationDigest :: "codec \<Rightarrow> gostring \<Rightarrow> gostring \<Rightarrow> gostring \<Rightarrow> perr + gostring" where
  "GenerationDigest cd repository sourceDigest policyDigest =
     (if reponame_Validate repository \<noteq> (None :: perr option) \<or> \<not> validDigest sourceDigest \<or> \<not> validDigest policyDigest
      then Inl (invalidf ''generation identity is invalid'')
      else Inr (digest cd (''phebs-source-partition-generation-v1'' @ [CHR 0x00])
        (repository @ [CHR 0x00] @ sourceDigest @ [CHR 0x00] @ policyDigest)))"

definition ManifestDigest :: "codec \<Rightarrow> manifest \<Rightarrow> gostring" where
  "ManifestDigest cd m = digest cd (''phebs-source-partition-manifest-v1'' @ [CHR 0x00])
     (cd_manifest_json cd (m\<lparr>mf_digest := []\<rparr>))"

definition ManifestName :: "codec \<Rightarrow> gostring \<Rightarrow> gostring" where
  "ManifestName cd repository = ''phebs-source-partitions-'' @ hex_encode (cd_sha cd repository) @ ''.manifest.json''"

definition TrimPrefix :: "gostring \<Rightarrow> gostring \<Rightarrow> gostring" where
  "TrimPrefix s p = (if HasPrefix s p then drop (length p) s else s)"

text \<open>\<open>%05d\<close> of a non-negative number.\<close>

definition pad5 :: "int \<Rightarrow> gostring" where
  "pad5 n = (let s = decimal n in replicate (5 - length s) CHR ''0'' @ s)"

definition memberName :: "codec \<Rightarrow> gostring \<Rightarrow> gostring \<Rightarrow> int \<Rightarrow> gostring" where
  "memberName cd repository generation ordinal = ''phebs-source-partitions-'' @
     take 16 (hex_encode (cd_sha cd repository)) @ ''-'' @ take 16 (TrimPrefix generation ''sha256:'') @ ''.'' @
     pad5 ordinal @ ''.jsonl''"

definition filepath_Base :: "gostring \<Rightarrow> gostring" where
  "filepath_Base s =
     (if s = [] then ''.''
      else let s' = rev (dropWhile (\<lambda>c. c = CHR ''/'') (rev s))
        in if s' = [] then ''/'' else last (Split CHR ''/'' s'))"

definition safeBaseName :: "gostring \<Rightarrow> bool" where
  "safeBaseName value \<longleftrightarrow> filepath_Base value = value \<and> value \<noteq> ''.'' \<and> value \<noteq> []"

section \<open>Placements and blob records\<close>

definition matches :: "policy \<Rightarrow> gostring \<Rightarrow> bool" where
  "matches p path \<longleftrightarrow> list_ex (\<lambda>s. HasSuffix path s) (po_suffixes p)"

text \<open>\<open>strings.Compare\<close> and \<open>slices.Compare\<close>.\<close>

definition go_compare :: "'a::linorder \<Rightarrow> 'a \<Rightarrow> int" where
  "go_compare x y = (if x < y then - 1 else if x = y then 0 else 1)"

definition comparePlacement :: "placement \<Rightarrow> placement \<Rightarrow> int" where
  "comparePlacement l r =
     (let p = go_compare (pl_path l) (pl_path r); m = go_compare (pl_mode l) (pl_mode r)
      in if p \<noteq> 0 then p else if m \<noteq> 0 then m else go_compare (pl_revisions l) (pl_revisions r))"

fun revisions_ok :: "int \<Rightarrow> int option \<Rightarrow> int list \<Rightarrow> bool" where
  "revisions_ok n previous [] \<longleftrightarrow> True"
| "revisions_ok n previous (r # rs) \<longleftrightarrow> \<not> (r < 0 \<or> r \<ge> n \<or> previous = Some r) \<and> revisions_ok n (Some r) rs"

definition regular_mode :: "gostring \<Rightarrow> bool" where
  "regular_mode mode \<longleftrightarrow> mode = ''100644'' \<or> mode = ''100755''"

fun placements_check :: "int \<Rightarrow> placement option \<Rightarrow> placement list \<Rightarrow> perr option" where
  "placements_check n previous [] = None"
| "placements_check n previous (p # ps) =
     (if repopath_Validate (pl_path p) \<noteq> (None :: perr option) \<or> \<not> regular_mode (pl_mode p) \<or>
         pl_revisions p = [] \<or> int (length (pl_revisions p)) > n \<or> \<not> sorted (pl_revisions p) \<or>
         (case previous of None \<Rightarrow> False | Some q \<Rightarrow> comparePlacement q p \<ge> 0)
      then Some (invalidf ''blob placement is invalid or unordered'')
      else if \<not> revisions_ok n None (pl_revisions p) then Some (invalidf ''blob placement revision is invalid'')
      else placements_check n (Some p) ps)"

definition validateBlobRecord :: "blob_record \<Rightarrow> int \<Rightarrow> perr option" where
  "validateBlobRecord r revisionCount =
     (if br_schema r \<noteq> MemberSchema \<or> \<not> IsObjectID (br_object r) \<or> br_bytes r < 0 \<or> br_bytes r > MaxBlobBytes \<or>
         br_placements r = [] \<or> int (length (br_placements r)) > MaxPlacementsPerPartition
      then Some (invalidf ''blob record identity or bounds are invalid'')
      else placements_check revisionCount None (br_placements r))"

section \<open>Hash prefixes\<close>

definition hashBit :: "8 word list \<Rightarrow> nat \<Rightarrow> 8 word" where
  "hashBit hash k = drop_bit (7 - k mod 8) (hash ! (k div 8)) AND 1"

definition bitPrefix :: "8 word list \<Rightarrow> nat \<Rightarrow> gostring" where
  "bitPrefix hash bits = map (\<lambda>k. char_of (48 + unat (hashBit hash k))) [0..<bits]"

definition hashHasPrefix :: "codec \<Rightarrow> gostring \<Rightarrow> gostring \<Rightarrow> bool" where
  "hashHasPrefix cd object pre \<longleftrightarrow> bitPrefix (cd_blob_hash cd object) (length pre) = pre"

definition binaryPrefix :: "gostring \<Rightarrow> bool" where
  "binaryPrefix value \<longleftrightarrow> list_all (\<lambda>r. r = 48 \<or> r = 49) (runes value)"

end
