(* ===== verification/Source_Spool.thy ===== *)
theory Source_Spool
  imports Source_Model "HOL-Library.AList"
begin

text \<open>
  The planner of \<open>internal/sourcepartition/plan.go\<close>: selected source records are appended to spool
  files by the leading bits of their object's hash, and every spool that exceeds a partition's bounds
  is split at its next bit. The spool directory is a map from paths to bytes; a script says what
  each coming file operation meets (a fault, a partial transfer, a canceled context), and an exhausted
  script is a healthy disk.
\<close>

section \<open>Files\<close>

text \<open>\<open>IoPartial n we ce\<close>: the transfer stops after \<open>n\<close> bytes (or records) with error \<open>we\<close>, and
  closing the file reports \<open>ce\<close>.\<close>

datatype io = IoOk | IoFail perr | IoPartial nat "perr option" "perr option"

record metrics =
  mt_selected :: int
  mt_blobs :: int
  mt_blob_bytes :: int
  mt_peak :: int
  mt_current :: int

record disk =
  dk_files :: "gostring \<Rightarrow> gostring option"
  dk_metrics :: metrics
  dk_io :: "io list"

definition next_io :: "disk \<Rightarrow> io \<times> disk" where
  "next_io d = (case dk_io d of [] \<Rightarrow> (IoOk, d) | e # es \<Rightarrow> (e, d\<lparr>dk_io := es\<rparr>))"

definition ctx_Err :: "disk \<Rightarrow> perr option \<times> disk" where
  "ctx_Err d = (case next_io d of (IoOk, d1) \<Rightarrow> (None, d1) | (_, d1) \<Rightarrow> (Some ErrCtxDone, d1))"

record spool =
  sp_path :: gostring
  sp_prefix :: gostring
  sp_bits :: nat
  sp_placements :: int
  sp_declared :: int
  sp_content :: int

definition checkPlanLimit :: "gostring \<Rightarrow> int \<Rightarrow> int \<Rightarrow> gostring \<Rightarrow> perr option" where
  "checkPlanLimit dimension observed limit message =
     (if observed \<le> limit then None
      else Measure (Some (ErrSuffix ErrTooLarge ('': '' @ message))) dimension observed limit)"

text \<open>A limit that the caller has already found exceeded.\<close>

definition plan_limit :: "gostring \<Rightarrow> int \<Rightarrow> int \<Rightarrow> gostring \<Rightarrow> perr" where
  "plan_limit dimension observed limit message =
     (case checkPlanLimit dimension observed limit message of Some e \<Rightarrow> e | None \<Rightarrow> ErrPanic ''limit not exceeded'')"

definition spool_line :: "codec \<Rightarrow> spool_record \<Rightarrow> gostring" where
  "spool_line cd r = cd_spool_json cd r @ [CHR 0x0A]"

definition append_bytes :: "gostring \<Rightarrow> gostring \<Rightarrow> disk \<Rightarrow> disk" where
  "append_bytes path payload d =
     (let old = (case dk_files d path of None \<Rightarrow> [] | Some s \<Rightarrow> s);
          m = dk_metrics d; current = mt_current m + int (length payload)
      in d\<lparr>dk_files := (dk_files d)(path \<mapsto> old @ payload),
           dk_metrics := m\<lparr>mt_current := current, mt_peak := max (mt_peak m) current\<rparr>\<rparr>)"

definition ErrShortWrite :: perr where
  "ErrShortWrite = ErrNew ''short write''"

definition appendSpool :: "codec \<Rightarrow> spool \<Rightarrow> spool_record \<Rightarrow> disk \<Rightarrow> (perr option \<times> spool) \<times> disk" where
  "appendSpool cd sp r d =
     (if sp_placements sp = max_int64 \<or> sr_bytes r > max_int64 - sp_declared sp
      then ((Some (ErrSuffix ErrTooLarge '': spool summary overflows''), sp), d)
      else let payload = spool_line cd r; n = int (length payload)
      in if n > MaxRecordBytes then ((Some (invalidf ''spool record violates its encoded bound''), sp), d)
      else if n > MaxSpoolBytes - mt_current (dk_metrics d)
      then ((Some (plan_limit DimensionPlanningSpoolBytes (mt_current (dk_metrics d) + n) MaxSpoolBytes
               ''planning spool bytes exceed their bound''), sp), d)
      else case next_io d of
          (IoFail e, d1) \<Rightarrow> ((Some e, sp), d1)
        | (IoPartial k we ce, d1) \<Rightarrow>
            let written = take k payload; d2 = append_bytes (sp_path sp) written d1;
                sp1 = sp\<lparr>sp_content := sp_content sp + int (length written)\<rparr>
            in if we \<noteq> None \<or> ce \<noteq> None then ((errors_Join [we, ce], sp1), d2)
               else if length written \<noteq> length payload then ((Some ErrShortWrite, sp1), d2)
               else ((None, sp1\<lparr>sp_placements := sp_placements sp + 1, sp_declared := sp_declared sp + sr_bytes r\<rparr>), d2)
        | (IoOk, d1) \<Rightarrow>
            ((None, sp\<lparr>sp_content := sp_content sp + n, sp_placements := sp_placements sp + 1,
                 sp_declared := sp_declared sp + sr_bytes r\<rparr>), append_bytes (sp_path sp) payload d1))"

text \<open>\<open>bufio.Reader.ReadLine\<close> over a whole file: the carriage return before a line feed is dropped, and
  a last line needs no line feed.\<close>

definition strip_cr :: "gostring \<Rightarrow> gostring" where
  "strip_cr s = (if s \<noteq> [] \<and> last s = CHR 0x0D then butlast s else s)"

definition file_lines :: "gostring \<Rightarrow> gostring list" where
  "file_lines s = (let ps = Split CHR 0x0A s
     in map strip_cr (butlast ps) @ (if last ps = [] then [] else [last ps]))"

definition gitObjectAndHashValid :: "codec \<Rightarrow> spool_record \<Rightarrow> bool" where
  "gitObjectAndHashValid cd r \<longleftrightarrow> IsObjectID (sr_object r) \<and> length (sr_hash r) = 64 \<and>
     repopath_Validate (sr_path r) = (None :: perr option) \<and> regular_mode (sr_mode r) \<and>
     sr_revisions r \<noteq> [] \<and> sorted (sr_revisions r) \<and> 0 \<le> sr_bytes r \<and> sr_bytes r \<le> MaxBlobBytes \<and>
     (case hex_decode (sr_hash r) of None \<Rightarrow> False | Some h \<Rightarrow> length h = 32) \<and>
     hex_encode (cd_blob_hash cd (sr_object r)) = sr_hash r"

definition decode_spool :: "codec \<Rightarrow> gostring \<Rightarrow> perr + spool_record" where
  "decode_spool cd line =
     (if int (length line) > MaxRecordBytes then Inl (invalidf ''encoded line violates its bound'')
      else case cd_spool_parse cd line of
          None \<Rightarrow> Inl (invalidf ''decode spool record'')
        | Some r \<Rightarrow> if gitObjectAndHashValid cd r then Inr r else Inl (invalidf ''spool record identity is invalid''))"

text \<open>\<open>forEachSpool\<close>: the visitor runs on the records of the file in order and may itself write to the
  disk; it stops at the first error.\<close>

definition fault_now :: "(nat \<times> perr) option \<Rightarrow> perr option" where
  "fault_now fault = (case fault of Some (0, e) \<Rightarrow> Some e | _ \<Rightarrow> None)"

fun visit_lines ::
  "codec \<Rightarrow> (spool_record \<Rightarrow> 's \<Rightarrow> disk \<Rightarrow> (perr + 's) \<times> disk) \<Rightarrow> (nat \<times> perr) option \<Rightarrow> gostring list \<Rightarrow> 's \<Rightarrow> disk \<Rightarrow>
   (perr + 's) \<times> disk" where
  "visit_lines cd visit fault [] s d = (case fault_now fault of Some e \<Rightarrow> (Inl e, d) | None \<Rightarrow> (Inr s, d))"
| "visit_lines cd visit fault (line # lines) s d =
     (case fault_now fault of
        Some e \<Rightarrow> (Inl e, d)
      | None \<Rightarrow>
          (case decode_spool cd line of
             Inl e \<Rightarrow> (Inl e, d)
           | Inr r \<Rightarrow> (case visit r s d of
                 (Inl e, d1) \<Rightarrow> (Inl e, d1)
               | (Inr s1, d1) \<Rightarrow> visit_lines cd visit (map_option (\<lambda>(k, e). (k - 1, e)) fault) lines s1 d1)))"

definition ErrNotExist :: perr where
  "ErrNotExist = ErrNew ''file does not exist''"

definition forEachSpool ::
  "codec \<Rightarrow> gostring \<Rightarrow> (spool_record \<Rightarrow> 's \<Rightarrow> disk \<Rightarrow> (perr + 's) \<times> disk) \<Rightarrow> 's \<Rightarrow> disk \<Rightarrow> (perr + 's) \<times> disk" where
  "forEachSpool cd path visit s d =
     (case next_io d of (ev, d1) \<Rightarrow>
        (case (ev, dk_files d1 path) of
           (IoFail e, _) \<Rightarrow> (Inl e, d1)
         | (_, None) \<Rightarrow> (Inl ErrNotExist, d1)
         | (IoOk, Some content) \<Rightarrow> visit_lines cd visit None (file_lines content) s d1
         | (IoPartial k re ce, Some content) \<Rightarrow>
             (case visit_lines cd visit (map_option (Pair k) re) (file_lines content) s d1 of
                (Inl e, d2) \<Rightarrow> (Inl e, d2)
              | (Inr s1, d2) \<Rightarrow> (case ce of None \<Rightarrow> (Inr s1, d2) | Some e \<Rightarrow> (Inl e, d2)))))"

definition identity_step ::
  "spool_record \<Rightarrow> (gostring \<times> gostring) \<times> bool \<times> bool \<Rightarrow> disk \<Rightarrow> (perr + (gostring \<times> gostring) \<times> bool \<times> bool) \<times> disk" where
  "identity_step r s d =
     (case s of ((firstObject, firstHash), sameObject, sameHash) \<Rightarrow>
        if firstObject = [] then (Inr ((sr_object r, sr_hash r), sameObject, sameHash), d)
        else (Inr ((firstObject, firstHash), sameObject \<and> sr_object r = firstObject, sameHash \<and> sr_hash r = firstHash), d))"

definition spoolIdentity :: "codec \<Rightarrow> spool \<Rightarrow> disk \<Rightarrow> (perr + bool \<times> bool) \<times> disk" where
  "spoolIdentity cd sp d =
     (case forEachSpool cd (sp_path sp) identity_step (([], []), True, True) d of
        (Inl e, d1) \<Rightarrow> (Inl e, d1)
      | (Inr (_, same), d1) \<Rightarrow> (Inr same, d1))"

definition removeSpool :: "spool \<Rightarrow> disk \<Rightarrow> perr option \<times> disk" where
  "removeSpool sp d =
     (case next_io d of
        (IoFail e, d1) \<Rightarrow> (Some e, d1)
      | (_, d1) \<Rightarrow>
          (case dk_files d1 (sp_path sp) of
             None \<Rightarrow> (Some ErrNotExist, d1)
           | Some _ \<Rightarrow> (None, d1\<lparr>dk_files := (dk_files d1)(sp_path sp := None),
               dk_metrics := (dk_metrics d1)\<lparr>mt_current := max 0 (mt_current (dk_metrics d1) - sp_content sp)\<rparr>\<rparr>)))"

section \<open>Splitting\<close>

definition spool_name :: "gostring \<Rightarrow> gostring \<Rightarrow> gostring \<Rightarrow> gostring" where
  "spool_name directory kind bits = filepath_Join [directory, kind @ bits @ ''.jsonl'']"

definition new_spool :: "gostring \<Rightarrow> gostring \<Rightarrow> gostring \<Rightarrow> nat \<Rightarrow> spool" where
  "new_spool directory kind pre bits = \<lparr>sp_path = spool_name directory kind pre, sp_prefix = pre, sp_bits = bits,
     sp_placements = 0, sp_declared = 0, sp_content = 0\<rparr>"

definition split_step :: "codec \<Rightarrow> nat \<Rightarrow> spool_record \<Rightarrow> spool \<times> spool \<Rightarrow> disk \<Rightarrow> (perr + spool \<times> spool) \<times> disk" where
  "split_step cd bits r lr d =
     (case hex_decode (sr_hash r) of
        None \<Rightarrow> (Inl (invalidf ''spool hash is invalid''), d)
      | Some hash \<Rightarrow>
          if length hash \<noteq> 32 then (Inl (invalidf ''spool hash is invalid''), d)
          else if hashBit hash bits = 1
          then (case appendSpool cd (snd lr) r d of
              ((Some e, _), d1) \<Rightarrow> (Inl e, d1) | ((None, sp), d1) \<Rightarrow> (Inr (fst lr, sp), d1))
          else (case appendSpool cd (fst lr) r d of
              ((Some e, _), d1) \<Rightarrow> (Inl e, d1) | ((None, sp), d1) \<Rightarrow> (Inr (sp, snd lr), d1)))"

definition add_leaf :: "spool \<Rightarrow> spool list \<Rightarrow> perr + spool list" where
  "add_leaf sp leaves =
     (if int (length leaves) \<ge> MaxPartitions
      then Inl (plan_limit DimensionPartitionCount (int (length leaves) + 1) MaxPartitions ''partition count exceeds its bound'')
      else Inr (leaves @ [sp]))"

definition split_children :: "codec \<Rightarrow> gostring \<Rightarrow> spool \<Rightarrow> disk \<Rightarrow> (perr + spool \<times> spool) \<times> disk" where
  "split_children cd directory sp d =
     (let l = sp_prefix sp @ ''0''; r = sp_prefix sp @ ''1''
      in case forEachSpool cd (sp_path sp) (split_step cd (sp_bits sp))
             (new_spool directory ''split-'' l (sp_bits sp + 1), new_spool directory ''split-'' r (sp_bits sp + 1)) d of
           (Inl e, d1) \<Rightarrow> (Inl e, d1)
         | (Inr lr, d1) \<Rightarrow> (case removeSpool sp d1 of (Some e, d2) \<Rightarrow> (Inl e, d2) | (None, d2) \<Rightarrow> (Inr lr, d2)))"

lemma appendSpool_bits: "sp_bits (snd (fst (appendSpool cd sp r d))) = sp_bits sp"
  by (simp add: appendSpool_def Let_def split: prod.split io.split)

lemma split_step_bits:
  "split_step cd bits r lr d = (Inr lr', d') \<Longrightarrow> sp_bits (fst lr') = sp_bits (fst lr) \<and> sp_bits (snd lr') = sp_bits (snd lr)"
  using appendSpool_bits [of cd "fst lr" r d] appendSpool_bits [of cd "snd lr" r d]
  by (auto simp: split_step_def split: option.splits if_splits prod.splits)

lemma visit_lines_keeps:
  assumes "\<forall>r s d s' d'. visit r s d = (Inr s', d') \<longrightarrow> P s \<longrightarrow> P s'"
  shows "visit_lines cd visit fault lines s d = (Inr s', d') \<Longrightarrow> P s \<Longrightarrow> P s'"
  by (induction lines arbitrary: fault s d) (auto split: sum.splits prod.splits option.splits dest: assms [rule_format])

lemma forEachSpool_Inr:
  assumes "forEachSpool cd path visit s d = (Inr s', d')"
  shows "\<exists>content fault. dk_files (snd (next_io d)) path = Some content \<and>
    visit_lines cd visit fault (file_lines content) s (snd (next_io d)) = (Inr s', d')"
  using assms unfolding forEachSpool_def
  by (cases "next_io d"; cases "fst (next_io d)"; cases "dk_files (snd (next_io d)) path")
    (auto split: prod.splits sum.splits option.splits)

lemma forEachSpool_keeps:
  assumes "forEachSpool cd path visit s d = (Inr s', d')"
    and "\<forall>r s d s' d'. visit r s d = (Inr s', d') \<longrightarrow> P s \<longrightarrow> P s'" and "P s"
  shows "P s'"
proof -
  obtain content fault where
    "visit_lines cd visit fault (file_lines content) s (snd (next_io d)) = (Inr s', d')"
    using forEachSpool_Inr [OF assms(1)] by blast
  from visit_lines_keeps [OF assms(2) this assms(3)] show ?thesis .
qed

lemma split_children_Inr:
  assumes "split_children cd directory sp d = (Inr lr, d')"
  shows "\<exists>d1. forEachSpool cd (sp_path sp) (split_step cd (sp_bits sp))
      (new_spool directory ''split-'' (sp_prefix sp @ ''0'') (sp_bits sp + 1),
       new_spool directory ''split-'' (sp_prefix sp @ ''1'') (sp_bits sp + 1)) d = (Inr lr, d1) \<and>
    removeSpool sp d1 = (None, d')"
  using assms unfolding split_children_def Let_def by (auto split: prod.splits sum.splits option.splits)

lemma split_children_bits:
  assumes "split_children cd directory sp d = (Inr (l, r), d')"
  shows "sp_bits l = sp_bits sp + 1 \<and> sp_bits r = sp_bits sp + 1"
proof -
  let ?P = "\<lambda>lr. sp_bits (fst lr) = sp_bits sp + 1 \<and> sp_bits (snd lr) = sp_bits sp + 1"
  obtain d1 where f: "forEachSpool cd (sp_path sp) (split_step cd (sp_bits sp))
      (new_spool directory ''split-'' (sp_prefix sp @ ''0'') (sp_bits sp + 1),
       new_spool directory ''split-'' (sp_prefix sp @ ''1'') (sp_bits sp + 1)) d = (Inr (l, r), d1)"
    using split_children_Inr [OF assms] by blast
  have "?P (l, r)"
    by (rule forEachSpool_keeps [OF f]) (auto dest: split_step_bits simp: new_spool_def)
  then show ?thesis by simp
qed

function splitSpool :: "codec \<Rightarrow> gostring \<Rightarrow> spool \<Rightarrow> spool list \<Rightarrow> disk \<Rightarrow> (perr + spool list) \<times> disk" where
  "splitSpool cd directory sp leaves d =
     (case ctx_Err d of
        (Some e, d1) \<Rightarrow> (Inl e, d1)
      | (None, d1) \<Rightarrow>
          (case spoolIdentity cd sp d1 of
             (Inl e, d2) \<Rightarrow> (Inl e, d2)
           | (Inr (allSameObject, allSameHash), d2) \<Rightarrow>
               if allSameObject then
                 (if sp_placements sp > MaxPlacementsPerPartition
                  then (Inl (plan_limit DimensionBlobPlacements (sp_placements sp) MaxPlacementsPerPartition
                          ''one blob has too many placements''), d2)
                  else (add_leaf sp leaves, d2))
               else if sp_placements sp \<le> MaxPlacementsPerPartition \<and> sp_declared sp \<le> MaxPartitionBlobBytes
               then (add_leaf sp leaves, d2)
               else if sp_bits sp \<ge> 256 \<or> allSameHash then (Inl ErrHashCollision, d2)
               else (case split_children cd directory sp d2 of
                   (Inl e, d3) \<Rightarrow> (Inl e, d3)
                 | (Inr (l, r), d3) \<Rightarrow>
                     (case (if sp_placements l = 0 then (Inr leaves, d3) else splitSpool cd directory l leaves d3) of
                        (Inl e, d4) \<Rightarrow> (Inl e, d4)
                      | (Inr leaves1, d4) \<Rightarrow>
                          if sp_placements r = 0 then (Inr leaves1, d4) else splitSpool cd directory r leaves1 d4))))"
  by pat_completeness auto
termination
  by (relation "measure (\<lambda>(cd, directory, sp, leaves, d). 256 - sp_bits sp)")
    (auto dest!: split_children_bits [OF sym])

declare splitSpool.simps [simp del]

section \<open>Planning\<close>

record source_record =
  so_path :: gostring
  so_mode :: gostring
  so_kind :: gostring
  so_object :: gostring
  so_bytes :: int
  so_revisions :: "int list"

text \<open>What \<open>validateRecord\<close> of \<open>internal/repositoryindex\<close> has checked of every delivered record (the
  schema tag is not kept).\<close>

definition validateRecord :: "source_record \<Rightarrow> int \<Rightarrow> bool" where
  "validateRecord r revisionCount \<longleftrightarrow> so_bytes r \<ge> 0 \<and> so_revisions r \<noteq> [] \<and>
     int (length (so_revisions r)) \<le> revisionCount \<and> IsObjectID (so_object r) \<and>
     repopath_Validate (so_path r) = (None :: perr option) \<and>
     (if so_kind r = ''regular'' then regular_mode (so_mode r)
      else if so_kind r = ''symlink'' then so_mode r = ''120000''
      else if so_kind r = ''gitlink'' then so_mode r = ''160000'' \<and> so_bytes r = 0 else False) \<and>
     sorted (so_revisions r) \<and> revisions_ok revisionCount None (so_revisions r)"

definition spool_of :: "codec \<Rightarrow> source_record \<Rightarrow> spool_record" where
  "spool_of cd r = \<lparr>sr_object = so_object r, sr_bytes = so_bytes r, sr_path = so_path r, sr_mode = so_mode r,
     sr_revisions = so_revisions r, sr_hash = hex_encode (cd_blob_hash cd (so_object r))\<rparr>"

definition selected :: "policy \<Rightarrow> source_record \<Rightarrow> bool" where
  "selected p r \<longleftrightarrow> so_kind r = ''regular'' \<and> matches p (so_path r)"

type_synonym roots = "(gostring \<times> spool) list"

definition plan_visit :: "codec \<Rightarrow> policy \<Rightarrow> gostring \<Rightarrow> source_record \<Rightarrow> roots \<Rightarrow> disk \<Rightarrow> (perr + roots) \<times> disk" where
  "plan_visit cd p directory r roots d =
     (case ctx_Err d of
        (Some e, d1) \<Rightarrow> (Inl e, d1)
      | (None, d1) \<Rightarrow>
          if \<not> selected p r then (Inr roots, d1)
          else if so_bytes r > MaxBlobBytes
          then (Inl (plan_limit DimensionBlobBytes (so_bytes r) MaxBlobBytes ''selected blob exceeds the per-blob bound''), d1)
          else if mt_selected (dk_metrics d1) = max_int64
          then (Inl (ErrSuffix ErrTooLarge '': selected placement count overflows''), d1)
          else let pre = bitPrefix (cd_blob_hash cd (so_object r)) InitialPrefixBits;
                   current = (case map_of roots pre of Some sp \<Rightarrow> sp
                     | None \<Rightarrow> new_spool directory ''root-'' pre InitialPrefixBits)
               in (case appendSpool cd current (spool_of cd r) d1 of
                     ((Some e, _), d2) \<Rightarrow> (Inl e, d2)
                   | ((None, sp), d2) \<Rightarrow> (Inr (AList.update pre sp roots),
                       d2\<lparr>dk_metrics := (dk_metrics d2)\<lparr>mt_selected := mt_selected (dk_metrics d2) + 1\<rparr>\<rparr>)))"

fun walk_source :: "codec \<Rightarrow> policy \<Rightarrow> gostring \<Rightarrow> (nat \<times> perr) option \<Rightarrow> source_record list \<Rightarrow> roots \<Rightarrow> disk \<Rightarrow>
   (perr + roots) \<times> disk" where
  "walk_source cd p directory fault [] roots d =
     (case fault_now fault of Some e \<Rightarrow> (Inl e, d) | None \<Rightarrow> (Inr roots, d))"
| "walk_source cd p directory fault (r # rs) roots d =
     (case fault_now fault of
        Some e \<Rightarrow> (Inl e, d)
      | None \<Rightarrow> (case plan_visit cd p directory r roots d of
            (Inl e, d1) \<Rightarrow> (Inl e, d1)
          | (Inr roots1, d1) \<Rightarrow>
              walk_source cd p directory (map_option (\<lambda>(k, e). (k - 1, e)) fault) rs roots1 d1))"

fun split_roots :: "codec \<Rightarrow> gostring \<Rightarrow> spool list \<Rightarrow> spool list \<Rightarrow> disk \<Rightarrow> (perr + spool list) \<times> disk" where
  "split_roots cd directory [] leaves d = (Inr leaves, d)"
| "split_roots cd directory (sp # sps) leaves d =
     (case splitSpool cd directory sp leaves d of
        (Inl e, d1) \<Rightarrow> (Inl e, d1)
      | (Inr leaves1, d1) \<Rightarrow> split_roots cd directory sps leaves1 d1)"

definition planLeaves :: "codec \<Rightarrow> policy \<Rightarrow> gostring \<Rightarrow> (nat \<times> perr) option \<Rightarrow> source_record list \<Rightarrow> disk \<Rightarrow>
   (perr + spool list) \<times> disk" where
  "planLeaves cd p directory fault source d =
     (case walk_source cd p directory fault source [] d of
        (Inl e, d1) \<Rightarrow> (Inl e, d1)
      | (Inr roots, d1) \<Rightarrow>
          (case split_roots cd directory (map (the \<circ> map_of roots) (sort (map fst roots))) [] d1 of
             (Inl e, d2) \<Rightarrow> (Inl e, d2)
           | (Inr leaves, d2) \<Rightarrow>
               if int (length leaves) > MaxPartitions
               then (Inl (plan_limit DimensionPartitionCount (int (length leaves)) MaxPartitions
                       ''partition count exceeds its bound''), d2)
               else (Inr leaves, d2)))"

end
