(* ===== verification/Source_Leaves.thy ===== *)
theory Source_Leaves
  imports Source_Spool
begin

text \<open>
  What the planner of \<open>Source_Spool\<close> guarantees of the leaves it returns: they partition the selected
  records by hash prefix, in prefix order, within the bounds of a partition; and it gives up on a hash
  only when two objects really collide.
\<close>

section \<open>Hash bits\<close>

lemma hashBit_cases: "hashBit hash k = 0 \<or> hashBit hash k = 1"
  by (simp add: hashBit_def and_one_eq mod2_eq_if)

lemma bitPrefix_Suc:
  "bitPrefix hash (Suc k) = bitPrefix hash k @ (if hashBit hash k = 1 then ''1'' else ''0'')"
  using hashBit_cases [of hash k] by (auto simp: bitPrefix_def char_of_def bit_simps bit_0)

definition bin :: "gostring \<Rightarrow> bool" where
  "bin q \<longleftrightarrow> set q \<subseteq> {CHR ''0'', CHR ''1''}"

lemma bin_simps [simp]: "bin []" "bin (p @ q) \<longleftrightarrow> bin p \<and> bin q" "bin ''0''" "bin ''1''"
  by (auto simp: bin_def)

lemma bin_bitPrefix: "bin (bitPrefix hash k)"
  by (induction k) (simp_all add: bitPrefix_Suc, simp add: bitPrefix_def)

lemma length_bitPrefix [simp]: "length (bitPrefix hash k) = k"
  by (simp add: bitPrefix_def)

lemma bitPrefix_take: "j \<le> k \<Longrightarrow> take j (bitPrefix hash k) = bitPrefix hash j"
  by (simp add: bitPrefix_def take_map)

section \<open>Spool paths\<close>

lemma filepath_Join_pre:
  "\<exists>pre. (pre = [] \<or> last pre = CHR ''/'') \<and>
    (\<forall>name. plain_component name \<and> CHR ''/'' \<notin> set name \<longrightarrow> filepath_Join [dir, name] = pre @ name)"
proof -
  let ?st = "foldl (clean_step (path_IsAbs dir)) [] (Split CHR ''/'' dir)"
  let ?root = "if path_IsAbs dir then ''/'' else []"
  let ?pre = "if dir = [] then [] else ?root @ (if ?st = [] then [] else Join CHR ''/'' (rev ?st) @ ''/'')"
  have "filepath_Join [dir, name] = ?pre @ name"
    if "plain_component name" "CHR ''/'' \<notin> set name" for name
  proof (cases "dir = []")
    case True
    have "name \<noteq> []" using that(1) by (simp add: plain_component_def)
    moreover have "\<not> path_IsAbs name" using that(2) by (cases name) (auto simp: path_IsAbs_def HasPrefix_def)
    ultimately show ?thesis
      using that True by (simp add: filepath_Join_def path_Clean_def Split_free clean_step_def plain_component_def)
  next
    case False
    have "path_IsAbs (dir @ CHR ''/'' # name) = path_IsAbs dir"
      using False by (cases dir) (simp_all add: path_IsAbs_def HasPrefix_def)
    moreover have "name \<noteq> []" using that(1) by (simp add: plain_component_def)
    moreover have "foldl (clean_step (path_IsAbs dir)) ?st [name] = name # ?st"
      using clean_plain [of "[name]" "path_IsAbs dir" ?st] that(1) by simp
    ultimately show ?thesis using False that(2)
      by (cases "?st = []") (simp_all add: filepath_Join_def path_Clean_def Let_def Split_sep_append Split_free Join_append)
  qed
  moreover have "?pre = [] \<or> last ?pre = CHR ''/''" by simp
  ultimately show ?thesis by blast
qed

text \<open>Plain names keep their identity below any directories.\<close>

lemma filepath_Join_inject:
  assumes "plain_component a" "CHR ''/'' \<notin> set a" "plain_component b" "CHR ''/'' \<notin> set b"
    and "filepath_Join [dir, a] = filepath_Join [dir', b]"
  shows "a = b"
proof -
  have base: "\<exists>x. filepath_Join [dir, name] = x \<and> takeWhile (\<lambda>c. c \<noteq> CHR ''/'') (rev x) = rev name"
    if n: "plain_component name" "CHR ''/'' \<notin> set name" for dir name
  proof -
    obtain pre where pre: "pre = [] \<or> last pre = CHR ''/''" "filepath_Join [dir, name] = pre @ name"
      using filepath_Join_pre [of dir] n by blast
    have "\<forall>c \<in> set (rev name). c \<noteq> CHR ''/''" using n(2) by auto
    then have "takeWhile (\<lambda>c. c \<noteq> CHR ''/'') (rev name @ rev pre) = rev name @ takeWhile (\<lambda>c. c \<noteq> CHR ''/'') (rev pre)"
      by (intro takeWhile_append2) auto
    moreover have "takeWhile (\<lambda>c. c \<noteq> CHR ''/'') (rev pre) = []"
      using pre(1) by (cases pre rule: rev_cases) auto
    ultimately show ?thesis using pre(2) by simp
  qed
  show ?thesis using base [OF assms(1,2), of dir] base [OF assms(3,4), of dir'] assms(5) by simp
qed

definition spool_kind :: "gostring \<Rightarrow> bool" where
  "spool_kind k \<longleftrightarrow> k = ''root-'' \<or> k = ''split-''"

lemma spool_name_inject:
  assumes "spool_kind k" "spool_kind k'" "bin p" "bin q"
  shows "spool_name dir k p = spool_name dir k' q \<longleftrightarrow> k = k' \<and> p = q"
proof -
  obtain pre where pre: "plain_component name \<Longrightarrow> CHR ''/'' \<notin> set name \<Longrightarrow> filepath_Join [dir, name] = pre @ name" for name
    using filepath_Join_pre by blast
  have name: "spool_name dir k p = pre @ k @ p @ ''.jsonl''" if "spool_kind k" "bin p" for k p
    unfolding spool_name_def using that
    by (intro pre) (auto simp: spool_kind_def plain_component_def bin_def)
  show ?thesis unfolding name [OF assms(1,3)] name [OF assms(2,4)]
    using assms(1,2) by (auto simp: spool_kind_def)
qed

section \<open>Spooled records\<close>

text \<open>What is assumed of JSON at a record: the encoding is one line and decodes to the record.\<close>

definition codec_ok :: "codec \<Rightarrow> spool_record \<Rightarrow> bool" where
  "codec_ok cd r \<longleftrightarrow> cd_spool_parse cd (cd_spool_json cd r) = Some r \<and> CHR 0x0A \<notin> set (cd_spool_json cd r) \<and>
     strip_cr (cd_spool_json cd r) = cd_spool_json cd r"

definition good_record :: "codec \<Rightarrow> spool_record \<Rightarrow> bool" where
  "good_record cd r \<longleftrightarrow> codec_ok cd r \<and> gitObjectAndHashValid cd r \<and> int (length (spool_line cd r)) \<le> MaxRecordBytes"

definition encode_records :: "codec \<Rightarrow> spool_record list \<Rightarrow> gostring" where
  "encode_records cd rs = concat (map (spool_line cd) rs)"

lemma file_lines_encode:
  assumes "\<forall>r \<in> set rs. codec_ok cd r"
  shows "file_lines (encode_records cd rs) = map (cd_spool_json cd) rs"
proof -
  have "Split CHR 0x0A (encode_records cd rs) = map (cd_spool_json cd) rs @ [[]]"
    using assms by (induction rs) (simp_all add: encode_records_def spool_line_def codec_ok_def Split_append)
  moreover have "map strip_cr (map (cd_spool_json cd) rs) = map (cd_spool_json cd) rs"
    using assms by (simp add: codec_ok_def)
  ultimately show ?thesis by (simp add: file_lines_def)
qed

lemma decode_good: "good_record cd r \<Longrightarrow> decode_spool cd (cd_spool_json cd r) = Inr r"
  by (simp add: decode_spool_def good_record_def codec_ok_def spool_line_def)

fun visit_all :: "(spool_record \<Rightarrow> 's \<Rightarrow> disk \<Rightarrow> (perr + 's) \<times> disk) \<Rightarrow> spool_record list \<Rightarrow> 's \<Rightarrow> disk \<Rightarrow> (perr + 's) \<times> disk" where
  "visit_all visit [] s d = (Inr s, d)"
| "visit_all visit (r # rs) s d = (case visit r s d of (Inl e, d1) \<Rightarrow> (Inl e, d1) | (Inr s1, d1) \<Rightarrow> visit_all visit rs s1 d1)"

lemma visit_lines_all:
  assumes "\<forall>r \<in> set rs. good_record cd r"
    and "visit_lines cd visit fault (map (cd_spool_json cd) rs) s d = (Inr s', d')"
  shows "visit_all visit rs s d = (Inr s', d')"
  using assms
  by (induction rs arbitrary: fault s d) (auto simp: decode_good split: option.splits prod.splits sum.splits)

lemma visit_lines_healthy:
  assumes "\<forall>r \<in> set rs. good_record cd r"
  shows "visit_lines cd visit None (map (cd_spool_json cd) rs) s d = visit_all visit rs s d"
  using assms
  by (induction rs arbitrary: s d) (auto simp: decode_good fault_now_def split: prod.splits sum.splits)

lemma next_io_state [simp]:
  "dk_files (snd (next_io d)) = dk_files d" "dk_metrics (snd (next_io d)) = dk_metrics d"
  by (simp_all add: next_io_def split: list.split)

text \<open>The records a file holds; a file that was never written holds none.\<close>

definition file_has :: "codec \<Rightarrow> disk \<Rightarrow> gostring \<Rightarrow> spool_record list \<Rightarrow> bool" where
  "file_has cd d path rs \<longleftrightarrow>
     (case dk_files d path of None \<Rightarrow> rs = [] | Some s \<Rightarrow> s = encode_records cd rs)"

lemma forEachSpool_all:
  assumes "file_has cd d path rs" and "\<forall>r \<in> set rs. good_record cd r"
    and "forEachSpool cd path visit s d = (Inr s', d')"
  shows "visit_all visit rs s (snd (next_io d)) = (Inr s', d')"
proof -
  obtain content fault where c: "dk_files d path = Some content"
    and v: "visit_lines cd visit fault (file_lines content) s (snd (next_io d)) = (Inr s', d')"
    using forEachSpool_Inr [OF assms(3)] by auto
  have "content = encode_records cd rs" using assms(1) c by (simp add: file_has_def)
  then have "file_lines content = map (cd_spool_json cd) rs"
    using assms(2) by (simp add: file_lines_encode good_record_def)
  with v visit_lines_all [OF assms(2)] show ?thesis by simp
qed

definition spool_ok :: "codec \<Rightarrow> disk \<Rightarrow> spool \<Rightarrow> spool_record list \<Rightarrow> bool" where
  "spool_ok cd d sp rs \<longleftrightarrow> file_has cd d (sp_path sp) rs \<and> sp_placements sp = int (length rs) \<and>
     sp_declared sp = sum_list (map sr_bytes rs)"

definition same_place :: "spool \<Rightarrow> spool \<Rightarrow> bool" where
  "same_place a b \<longleftrightarrow> sp_path a = sp_path b \<and> sp_prefix a = sp_prefix b \<and> sp_bits a = sp_bits b"

lemma appendSpool_None:
  assumes "appendSpool cd sp r d = ((None, sp'), d')"
  shows "same_place sp' sp \<and> sp_placements sp' = sp_placements sp + 1 \<and> sp_declared sp' = sp_declared sp + sr_bytes r \<and>
    int (length (spool_line cd r)) \<le> MaxRecordBytes \<and>
    dk_files d' = (dk_files d)(sp_path sp \<mapsto> (case dk_files d (sp_path sp) of None \<Rightarrow> [] | Some s \<Rightarrow> s) @ spool_line cd r)"
proof (cases "next_io d")
  case (Pair ev d1)
  have "dk_files d1 = dk_files d" using Pair next_io_state(1) [of d] by simp
  with assms Pair show ?thesis
    by (cases ev) (auto simp: appendSpool_def append_bytes_def same_place_def Let_def split: if_splits)
qed

lemma appendSpool_ok:
  assumes "appendSpool cd sp r d = ((None, sp'), d')" and "spool_ok cd d sp rs"
  shows "spool_ok cd d' sp' (rs @ [r])"
  using appendSpool_None [OF assms(1)] assms(2)
  by (auto simp: spool_ok_def file_has_def same_place_def encode_records_def split: option.splits)

section \<open>One split\<close>

lemma new_spool_simps [simp]:
  "sp_path (new_spool dir k p b) = spool_name dir k p" "sp_prefix (new_spool dir k p b) = p"
  "sp_bits (new_spool dir k p b) = b" "sp_placements (new_spool dir k p b) = 0" "sp_declared (new_spool dir k p b) = 0"
  by (simp_all add: new_spool_def)

abbreviation rec_hash :: "codec \<Rightarrow> spool_record \<Rightarrow> 8 word list" where
  "rec_hash cd r \<equiv> cd_blob_hash cd (sr_object r)"

lemma good_hash: "good_record cd r \<Longrightarrow> hex_decode (sr_hash r) = Some (rec_hash cd r) \<and> length (rec_hash cd r) = 32"
proof -
  assume "good_record cd r"
  then have e: "hex_encode (rec_hash cd r) = sr_hash r"
    and v: "case hex_decode (sr_hash r) of None \<Rightarrow> False | Some h \<Rightarrow> length h = 32"
    by (simp_all add: good_record_def gitObjectAndHashValid_def)
  have "hex_decode (sr_hash r) = Some (rec_hash cd r)" by (simp flip: e)
  with v show ?thesis by simp
qed

lemma good_same_hash: "good_record cd r \<Longrightarrow> good_record cd s \<Longrightarrow> sr_hash r = sr_hash s \<longleftrightarrow> rec_hash cd r = rec_hash cd s"
  using good_hash [of cd r] good_hash [of cd s]
  by (metis good_record_def gitObjectAndHashValid_def option.inject)

lemma split_step_good:
  assumes "good_record cd x" and "split_step cd bits x (l, r) d = (Inr lr', d')"
  shows "if hashBit (rec_hash cd x) bits = 1
    then \<exists>r'. lr' = (l, r') \<and> appendSpool cd r x d = ((None, r'), d')
    else \<exists>l'. lr' = (l', r) \<and> appendSpool cd l x d = ((None, l'), d')"
  using assms(2) good_hash [OF assms(1)] by (auto simp: split_step_def split: prod.splits option.splits if_splits)

text \<open>The loop appends each record to the child its next bit names and touches nothing else.\<close>

lemma split_loop:
  assumes "visit_all (split_step cd bits) rs (l, r) d = (Inr (l', r'), d')"
    and "\<forall>x \<in> set rs. good_record cd x" and "sp_path l \<noteq> sp_path r"
    and "spool_ok cd d l ls" and "spool_ok cd d r rs'"
  shows "same_place l' l \<and> same_place r' r \<and>
    spool_ok cd d' l' (ls @ filter (\<lambda>x. hashBit (rec_hash cd x) bits \<noteq> 1) rs) \<and>
    spool_ok cd d' r' (rs' @ filter (\<lambda>x. hashBit (rec_hash cd x) bits = 1) rs) \<and>
    (\<forall>path. path \<noteq> sp_path l \<longrightarrow> path \<noteq> sp_path r \<longrightarrow> dk_files d' path = dk_files d path)"
  using assms
proof (induction rs arbitrary: l r d ls rs')
  case Nil
  then show ?case by (simp add: same_place_def)
next
  case (Cons x xs)
  obtain lr1 d1 where step: "split_step cd bits x (l, r) d = (Inr lr1, d1)"
    and v: "visit_all (split_step cd bits) xs lr1 d1 = (Inr (l', r'), d')"
    using Cons.prems(1) by (auto split: prod.splits sum.splits)
  have "good_record cd x" using Cons.prems(2) by simp
  note step' = split_step_good [OF this step]
  have other: "spool_ok cd d1 s qs" if "spool_ok cd d s qs" "dk_files d1 (sp_path s) = dk_files d (sp_path s)" for d1 s qs
    using that by (simp add: spool_ok_def file_has_def)
  show ?case
  proof (cases "hashBit (rec_hash cd x) bits = 1")
    case True
    obtain r1 where lr1: "lr1 = (l, r1)" and a: "appendSpool cd r x d = ((None, r1), d1)"
      using step' unfolding if_P [OF True] by blast
    note a' = appendSpool_None [OF a]
    have p: "sp_path r1 = sp_path r" using a' by (simp add: same_place_def)
    have "spool_ok cd d1 l ls" using Cons.prems(3) a' by (intro other [OF Cons.prems(4)]) simp
    note ih = Cons.IH [OF v [unfolded lr1] _ _ this appendSpool_ok [OF a Cons.prems(5)]]
    have "\<forall>x \<in> set xs. good_record cd x" "sp_path l \<noteq> sp_path r1" using Cons.prems(2,3) p by simp_all
    from ih [OF this] show ?thesis using p True a' by (simp add: same_place_def)
  next
    case False
    obtain l1 where lr1: "lr1 = (l1, r)" and a: "appendSpool cd l x d = ((None, l1), d1)"
      using step' unfolding if_not_P [OF False] by blast
    note a' = appendSpool_None [OF a]
    have p: "sp_path l1 = sp_path l" using a' by (simp add: same_place_def)
    have "spool_ok cd d1 r rs'" using Cons.prems(3) a' by (intro other [OF Cons.prems(5)]) simp
    note ih = Cons.IH [OF v [unfolded lr1] _ _ appendSpool_ok [OF a Cons.prems(4)] this]
    have "\<forall>x \<in> set xs. good_record cd x" "sp_path l1 \<noteq> sp_path r" using Cons.prems(2,3) p by simp_all
    from ih [OF this] show ?thesis using p False a' by (simp add: same_place_def)
  qed
qed

lemma removeSpool_None:
  assumes "removeSpool sp d = (None, d')"
  shows "dk_files d' = (dk_files d)(sp_path sp := None)"
proof (cases "next_io d")
  case (Pair ev d1)
  have "dk_files d1 = dk_files d" using Pair next_io_state(1) [of d] by simp
  with assms Pair show ?thesis by (cases ev) (auto simp: removeSpool_def split: option.splits)
qed

text \<open>The records of a spool, with the prefix they share; the files below its prefix are its own.\<close>

definition spool_at :: "codec \<Rightarrow> gostring \<Rightarrow> disk \<Rightarrow> spool \<Rightarrow> spool_record list \<Rightarrow> bool" where
  "spool_at cd dir d sp rs \<longleftrightarrow> spool_ok cd d sp rs \<and> length (sp_prefix sp) = sp_bits sp \<and> bin (sp_prefix sp) \<and>
     (\<forall>r \<in> set rs. good_record cd r \<and> bitPrefix (rec_hash cd r) (sp_bits sp) = sp_prefix sp) \<and>
     (\<exists>k. spool_kind k \<and> sp_path sp = spool_name dir k (sp_prefix sp))"

definition fresh_below :: "gostring \<Rightarrow> disk \<Rightarrow> gostring \<Rightarrow> bool" where
  "fresh_below dir d p \<longleftrightarrow> (\<forall>q. bin q \<and> strict_prefix p q \<longrightarrow> dk_files d (spool_name dir ''split-'' q) = None)"

definition outside :: "gostring \<Rightarrow> spool \<Rightarrow> gostring \<Rightarrow> bool" where
  "outside dir sp path \<longleftrightarrow> path \<noteq> sp_path sp \<and>
     (\<forall>q. bin q \<and> strict_prefix (sp_prefix sp) q \<longrightarrow> path \<noteq> spool_name dir ''split-'' q)"

lemma spool_kinds [simp]: "spool_kind ''split-''" "spool_kind ''root-''"
  by (simp_all add: spool_kind_def)

lemma spool_ok_cong:
  "dk_files d' (sp_path sp) = dk_files d (sp_path sp) \<Longrightarrow> spool_ok cd d' sp rs = spool_ok cd d sp rs"
  by (simp add: spool_ok_def file_has_def)

lemma split_children_ok:
  assumes "split_children cd dir sp d = (Inr (l, r), d')"
    and "spool_at cd dir d sp rs" and "fresh_below dir d (sp_prefix sp)"
  shows "spool_at cd dir d' l (filter (\<lambda>x. hashBit (rec_hash cd x) (sp_bits sp) \<noteq> 1) rs) \<and>
    spool_at cd dir d' r (filter (\<lambda>x. hashBit (rec_hash cd x) (sp_bits sp) = 1) rs) \<and>
    sp_prefix l = sp_prefix sp @ ''0'' \<and> sp_prefix r = sp_prefix sp @ ''1'' \<and>
    sp_path l = spool_name dir ''split-'' (sp_prefix l) \<and> sp_path r = spool_name dir ''split-'' (sp_prefix r) \<and>
    fresh_below dir d' (sp_prefix l) \<and> fresh_below dir d' (sp_prefix r) \<and>
    (\<forall>path. outside dir sp path \<longrightarrow> dk_files d' path = dk_files d path)"
proof -
  let ?p = "sp_prefix sp" and ?b = "sp_bits sp"
  let ?l = "new_spool dir ''split-'' (?p @ ''0'') (Suc ?b)" and ?r = "new_spool dir ''split-'' (?p @ ''1'') (Suc ?b)"
  have at: "spool_ok cd d sp rs" "length ?p = ?b" "bin ?p"
    "\<forall>r \<in> set rs. good_record cd r" "\<forall>r \<in> set rs. bitPrefix (rec_hash cd r) ?b = ?p"
    using assms(2) by (auto simp: spool_at_def)
  obtain k where k: "spool_kind k" "sp_path sp = spool_name dir k ?p" using assms(2) by (auto simp: spool_at_def)
  obtain d1 where f: "forEachSpool cd (sp_path sp) (split_step cd ?b) (?l, ?r) d = (Inr (l, r), d1)"
    and rm: "removeSpool sp d1 = (None, d')"
    using split_children_Inr [OF assms(1)] by auto
  let ?d0 = "snd (next_io d)"
  have v: "visit_all (split_step cd ?b) rs (?l, ?r) ?d0 = (Inr (l, r), d1)"
    using at(1) by (intro forEachSpool_all [OF _ at(4) f]) (simp add: spool_ok_def)
  have paths: "sp_path ?l = spool_name dir ''split-'' (?p @ ''0'')" "sp_path ?r = spool_name dir ''split-'' (?p @ ''1'')"
    by simp_all
  have ne: "sp_path ?l \<noteq> sp_path ?r" "sp_path sp \<noteq> sp_path ?l" "sp_path sp \<noteq> sp_path ?r"
    using at(3) k by (simp_all add: paths spool_name_inject)
  have none: "dk_files d (sp_path ?l) = None" "dk_files d (sp_path ?r) = None"
    using assms(3) at(3) unfolding fresh_below_def paths
    by (metis (no_types, lifting) bin_simps(2-4) append_Nil2 list.distinct(1) prefixI same_append_eq strict_prefix_def)+
  have "spool_ok cd ?d0 ?l []" "spool_ok cd ?d0 ?r []"
    using none by (simp_all add: spool_ok_def file_has_def)
  note loop = split_loop [OF v at(4) ne(1) this]
  have frame: "dk_files d' path = dk_files d path"
    if "path \<noteq> sp_path ?l" "path \<noteq> sp_path ?r" "path \<noteq> sp_path sp" for path
    using loop that removeSpool_None [OF rm] by simp
  have lr: "sp_path l = sp_path ?l" "sp_prefix l = ?p @ ''0''" "sp_bits l = Suc ?b"
    "sp_path r = sp_path ?r" "sp_prefix r = ?p @ ''1''" "sp_bits r = Suc ?b"
    using loop by (simp_all add: same_place_def)
  have ok: "spool_ok cd d' l (filter (\<lambda>x. hashBit (rec_hash cd x) ?b \<noteq> 1) rs)"
    "spool_ok cd d' r (filter (\<lambda>x. hashBit (rec_hash cd x) ?b = 1) rs)"
    using loop ne removeSpool_None [OF rm] by (simp_all add: spool_ok_cong [of d' _ d1] lr)
  have bits: "\<forall>x \<in> set rs. bitPrefix (rec_hash cd x) (Suc ?b) = ?p @ (if hashBit (rec_hash cd x) ?b = 1 then ''1'' else ''0'')"
    using at(5) by (simp add: bitPrefix_Suc)
  have at_l: "spool_at cd dir d' l (filter (\<lambda>x. hashBit (rec_hash cd x) ?b \<noteq> 1) rs)"
    using ok(1) at bits by (auto simp: spool_at_def lr paths intro: exI [of _ "''split-''"])
  have at_r: "spool_at cd dir d' r (filter (\<lambda>x. hashBit (rec_hash cd x) ?b = 1) rs)"
    using ok(2) at bits by (auto simp: spool_at_def lr paths intro: exI [of _ "''split-''"])
  have fresh: "fresh_below dir d' (?p @ c)" if "c = ''0'' \<or> c = ''1''" for c
    unfolding fresh_below_def
  proof (intro allI impI)
    fix q assume q: "bin q \<and> strict_prefix (?p @ c) q"
    then obtain t where t: "q = ?p @ c @ t" "t \<noteq> []" by (auto simp: strict_prefix_def prefix_def)
    then have "strict_prefix ?p q" using that by (auto simp: strict_prefix_def)
    then have "dk_files d (spool_name dir ''split-'' q) = None" using assms(3) q by (simp add: fresh_below_def)
    moreover have "q \<noteq> ?p @ ''0''" "q \<noteq> ?p @ ''1''" "q \<noteq> ?p" using t that by auto
    ultimately show "dk_files d' (spool_name dir ''split-'' q) = None"
      using frame [of "spool_name dir ''split-'' q"] q at(3) k by (simp add: paths spool_name_inject)
  qed
  have out: "dk_files d' path = dk_files d path" if "outside dir sp path" for path
  proof (rule frame)
    show "path \<noteq> sp_path sp" using that by (simp add: outside_def)
    have "strict_prefix ?p (?p @ c)" if "c \<noteq> []" for c using that by (simp add: strict_prefix_def)
    then show "path \<noteq> sp_path ?l" "path \<noteq> sp_path ?r"
      using that at(3) by (simp_all add: outside_def paths)
  qed
  show ?thesis using at_l at_r fresh out by (simp add: lr paths)
qed

section \<open>All splits\<close>

definition disjoint_before :: "gostring \<Rightarrow> gostring \<Rightarrow> bool" where
  "disjoint_before p q \<longleftrightarrow> p < q \<and> \<not> prefix p q"

lemma append_less_cancel: "p @ s < p @ t \<longleftrightarrow> (s :: 'a::linorder list) < t"
  by (induction p) auto

lemma children_before:
  assumes "prefix (p @ ''0'') x" "prefix (p @ ''1'') y" shows "disjoint_before x y"
proof -
  obtain s t where "x = p @ CHR ''0'' # s" "y = p @ CHR ''1'' # t" using assms by (auto simp: prefix_def)
  moreover have "CHR ''0'' < CHR ''1''" by (simp add: less_char_def)
  ultimately show ?thesis by (auto simp: disjoint_before_def append_less_cancel prefix_def)
qed

lemma ctx_Err_files: "dk_files (snd (ctx_Err d)) = dk_files d"
proof (cases "next_io d")
  case (Pair ev d1)
  with next_io_state(1) [of d] show ?thesis by (cases ev) (simp_all add: ctx_Err_def)
qed

lemma identity_all:
  "fo \<noteq> [] \<Longrightarrow> visit_all identity_step rs ((fo, fh), so, sh) d =
    (Inr ((fo, fh), so \<and> (\<forall>r \<in> set rs. sr_object r = fo), sh \<and> (\<forall>r \<in> set rs. sr_hash r = fh)), d)"
  by (induction rs arbitrary: so sh) (simp_all add: identity_step_def conj_assoc)

lemma spoolIdentity_ok:
  assumes "spoolIdentity cd sp d = (Inr (so, sh), d')" and "file_has cd d (sp_path sp) (r # rs)"
    and "\<forall>x \<in> set (r # rs). good_record cd x"
  shows "(so \<longleftrightarrow> (\<forall>x \<in> set rs. sr_object x = sr_object r)) \<and> (sh \<longleftrightarrow> (\<forall>x \<in> set rs. sr_hash x = sr_hash r)) \<and>
    dk_files d' = dk_files d"
proof -
  obtain st where f: "forEachSpool cd (sp_path sp) identity_step (([], []), True, True) d = (Inr (st, so, sh), d')"
    using assms(1) by (auto simp: spoolIdentity_def split: prod.splits sum.splits)
  have "sr_object r \<noteq> []" using assms(3) by (auto simp: good_record_def gitObjectAndHashValid_def IsObjectID_def)
  moreover have "visit_all identity_step rs ((sr_object r, sr_hash r), True, True) (snd (next_io d)) = (Inr (st, so, sh), d')"
    using forEachSpool_all [OF assms(2,3) f] by (simp add: identity_step_def)
  ultimately show ?thesis using next_io_state(1) [of d] by (auto simp: identity_all)
qed

definition leaf_fits :: "spool \<Rightarrow> spool_record list \<Rightarrow> bool" where
  "leaf_fits sp rs \<longleftrightarrow> rs \<noteq> [] \<and> sp_placements sp \<le> MaxPlacementsPerPartition \<and>
     ((\<forall>r \<in> set rs. sr_object r = sr_object (hd rs)) \<or> sp_declared sp \<le> MaxPartitionBlobBytes)"

text \<open>A successful call either keeps the spool as a leaf or splits it and continues with its children.\<close>

lemma splitSpool_Inr:
  assumes "splitSpool cd dir sp leaves d = (Inr leaves', d')"
    and "file_has cd d (sp_path sp) rs" and "rs \<noteq> []" and "\<forall>x \<in> set rs. good_record cd x"
  shows "dk_files d' = dk_files d \<and> leaf_fits sp rs \<and> leaves' = leaves @ [sp] \<and> int (length leaves) < MaxPartitions \<or>
    (\<exists>d2 l r d3 leaves1 d4. dk_files d2 = dk_files d \<and> sp_bits sp < 256 \<and> split_children cd dir sp d2 = (Inr (l, r), d3) \<and>
       (if sp_placements l = 0 then (Inr leaves, d3) else splitSpool cd dir l leaves d3) = (Inr leaves1, d4) \<and>
       (if sp_placements r = 0 then (Inr leaves1, d4) else splitSpool cd dir r leaves1 d4) = (Inr leaves', d'))"
proof -
  obtain d1 where c: "ctx_Err d = (None, d1)"
    using assms(1) by (subst (asm) splitSpool.simps) (auto split: prod.splits option.splits)
  obtain so sh d2 where i: "spoolIdentity cd sp d1 = (Inr (so, sh), d2)"
    using assms(1) c by (subst (asm) splitSpool.simps) (auto split: prod.splits sum.splits)
  have d1: "dk_files d1 = dk_files d" using ctx_Err_files [of d] c by simp
  obtain r rs' where rs: "rs = r # rs'" using assms(3) by (cases rs) auto
  have id: "so \<longleftrightarrow> (\<forall>x \<in> set rs. sr_object x = sr_object (hd rs))" and d2: "dk_files d2 = dk_files d"
    using spoolIdentity_ok [OF i, of r rs'] assms(2,4) d1 by (auto simp: rs file_has_def)
  consider (leaf) "leaf_fits sp rs" "add_leaf sp leaves = Inr leaves'" "d' = d2"
    | (split) l r d3 leaves1 d4 where "sp_bits sp < 256" "split_children cd dir sp d2 = (Inr (l, r), d3)"
      "(if sp_placements l = 0 then (Inr leaves, d3) else splitSpool cd dir l leaves d3) = (Inr leaves1, d4)"
      "(if sp_placements r = 0 then (Inr leaves1, d4) else splitSpool cd dir r leaves1 d4) = (Inr leaves', d')"
  proof -
    have eq: "splitSpool cd dir sp leaves d =
      (if so then
         (if sp_placements sp > MaxPlacementsPerPartition
          then (Inl (plan_limit DimensionBlobPlacements (sp_placements sp) MaxPlacementsPerPartition
                  ''one blob has too many placements''), d2)
          else (add_leaf sp leaves, d2))
       else if sp_placements sp \<le> MaxPlacementsPerPartition \<and> sp_declared sp \<le> MaxPartitionBlobBytes
       then (add_leaf sp leaves, d2)
       else if sp_bits sp \<ge> 256 \<or> sh then (Inl ErrHashCollision, d2)
       else (case split_children cd dir sp d2 of
           (Inl e, d3) \<Rightarrow> (Inl e, d3)
         | (Inr (l, r), d3) \<Rightarrow>
             (case (if sp_placements l = 0 then (Inr leaves, d3) else splitSpool cd dir l leaves d3) of
                (Inl e, d4) \<Rightarrow> (Inl e, d4)
              | (Inr leaves1, d4) \<Rightarrow>
                  if sp_placements r = 0 then (Inr leaves1, d4) else splitSpool cd dir r leaves1 d4)))"
      using c i by (subst splitSpool.simps) simp
    show thesis
    proof (cases "so \<or> sp_placements sp \<le> MaxPlacementsPerPartition \<and> sp_declared sp \<le> MaxPartitionBlobBytes")
      case True
      then have small: "sp_placements sp \<le> MaxPlacementsPerPartition"
        using assms(1) unfolding eq by (simp split: if_splits)
      then have "(add_leaf sp leaves, d2) = (Inr leaves', d')" using assms(1) True unfolding eq by (simp split: if_splits)
      moreover have "leaf_fits sp rs" using True small assms(3) unfolding leaf_fits_def id by blast
      ultimately show thesis by (intro leaf) simp_all
    next
      case False
      then have ns: "\<not> (sp_bits sp \<ge> 256 \<or> sh)" using assms(1) unfolding eq by (auto split: if_splits)
      let ?first = "\<lambda>l d3. if sp_placements l = 0 then (Inr leaves, d3) else splitSpool cd dir l leaves d3"
      from False have no: "\<not> so" "\<not> (sp_placements sp \<le> MaxPlacementsPerPartition \<and> sp_declared sp \<le> MaxPartitionBlobBytes)"
        by blast+
      note run = assms(1) [unfolded eq if_not_P [OF no(1)] if_not_P [OF no(2)] if_not_P [OF ns]]
      obtain l r d3 where s: "split_children cd dir sp d2 = (Inr (l, r), d3)"
        using run by (cases "split_children cd dir sp d2") (auto split: sum.splits)
      note run1 = run [unfolded s prod.case sum.case]
      obtain leaves1 d4 where s1: "?first l d3 = (Inr leaves1, d4)"
        using run1 by (cases "?first l d3"; cases "fst (?first l d3)") (simp_all del: if_split)
      have "(if sp_placements r = 0 then (Inr leaves1, d4) else splitSpool cd dir r leaves1 d4) = (Inr leaves', d')"
        using run1 unfolding s1 prod.case sum.case .
      with ns s s1 show thesis by (intro split) simp_all
    qed
  qed
  then show ?thesis
  proof cases
    case leaf
    then show ?thesis using d2 by (simp add: add_leaf_def split: if_splits)
  next
    case split
    then show ?thesis using d2 by blast
  qed
qed

definition leaf_at :: "codec \<Rightarrow> gostring \<Rightarrow> disk \<Rightarrow> spool \<Rightarrow> spool_record list \<Rightarrow> bool" where
  "leaf_at cd dir d sp rs \<longleftrightarrow> spool_at cd dir d sp rs \<and> leaf_fits sp rs"

text \<open>What one call adds: leaves below the spool's prefix, in order, that share out its records and
  touch no file outside its prefix.\<close>

definition added_leaves ::
  "codec \<Rightarrow> gostring \<Rightarrow> spool \<Rightarrow> spool_record list \<Rightarrow> disk \<Rightarrow> disk \<Rightarrow> spool list \<Rightarrow> spool_record list list \<Rightarrow> bool" where
  "added_leaves cd dir sp rs d d' new rss \<longleftrightarrow>
     list_all2 (leaf_at cd dir d') new rss \<and> mset (concat rss) = mset rs \<and>
     (\<forall>l \<in> set new. prefix (sp_prefix sp) (sp_prefix l) \<and> \<not> outside dir sp (sp_path l)) \<and>
     (\<forall>l \<in> set new. sp_bits sp \<le> 256 \<longrightarrow> sp_bits l \<le> 256) \<and> sorted_wrt disjoint_before (map sp_prefix new) \<and>
     (\<forall>path. outside dir sp path \<longrightarrow> dk_files d' path = dk_files d path)"

lemma spool_at_cong:
  "dk_files d' (sp_path sp) = dk_files d (sp_path sp) \<Longrightarrow> spool_at cd dir d' sp rs = spool_at cd dir d sp rs"
  using spool_ok_cong [of d' sp d] by (simp add: spool_at_def)

lemma added_leaf:
  assumes "leaf_at cd dir d sp rs" and "dk_files d' = dk_files d"
  shows "added_leaves cd dir sp rs d d' [sp] [rs]"
proof -
  have "spool_at cd dir d' sp rs = spool_at cd dir d sp rs" by (rule spool_at_cong) (simp add: assms(2))
  with assms show ?thesis by (simp add: added_leaves_def leaf_at_def outside_def)
qed

lemma outside_child:
  assumes "spool_at cd dir d sp rs" "c = ''0'' \<or> c = ''1''" "sp_prefix l = sp_prefix sp @ c"
    "sp_path l = spool_name dir ''split-'' (sp_prefix l)" "outside dir sp path"
  shows "outside dir l path"
proof -
  have p: "bin (sp_prefix l)" "strict_prefix (sp_prefix sp) (sp_prefix l)"
    using assms by (auto simp: spool_at_def strict_prefix_def)
  then show ?thesis using assms(4,5) unfolding outside_def by (metis prefix_order.less_trans)
qed

text \<open>A path inside one child is outside the other.\<close>

lemma outside_sibling:
  assumes "spool_at cd dir d sp rs" "spool_at cd dir d1 l ls" "spool_at cd dir d2 r rs'"
    and "sp_prefix l = sp_prefix sp @ c" "sp_prefix r = sp_prefix sp @ c'" "{c, c'} = {''0'', ''1''}"
    and "sp_path l = spool_name dir ''split-'' (sp_prefix l)" "sp_path r = spool_name dir ''split-'' (sp_prefix r)"
    and "\<not> outside dir l path"
  shows "outside dir r path"
proof -
  obtain q where q: "path = spool_name dir ''split-'' q" "bin q" "prefix (sp_prefix l) q"
    using assms(2,7,9) unfolding outside_def spool_at_def by (auto simp: strict_prefix_def)
  have "q \<noteq> q'" if "prefix (sp_prefix r) q'" for q'
    using q(3) that assms(4-6) by (auto simp: prefix_def doubleton_eq_iff)
  then show ?thesis
    using q assms(3,8) by (auto simp: outside_def spool_name_inject spool_at_def strict_prefix_def)
qed

lemma list_all2_leaf_cong:
  assumes "list_all2 (leaf_at cd dir d) new rss" and "\<forall>l \<in> set new. dk_files d' (sp_path l) = dk_files d (sp_path l)"
  shows "list_all2 (leaf_at cd dir d') new rss"
  using assms(1)
proof (rule list.rel_mono_strong)
  fix l qs assume "l \<in> set new" "leaf_at cd dir d l qs"
  moreover have "spool_at cd dir d' l qs = spool_at cd dir d l qs"
    using \<open>l \<in> set new\<close> by (intro spool_at_cong) (simp add: assms(2))
  ultimately show "leaf_at cd dir d' l qs" by (simp add: leaf_at_def)
qed

text \<open>A child without records is skipped; the other is split.\<close>

lemma child_leaves:
  assumes "(if sp_placements l = 0 then (Inr leaves, d) else splitSpool cd dir l leaves d) = (Inr leaves', d')"
    and "spool_at cd dir d l ls"
    and "ls \<noteq> [] \<Longrightarrow> splitSpool cd dir l leaves d = (Inr leaves', d') \<Longrightarrow>
      \<exists>new rss. leaves' = leaves @ new \<and> added_leaves cd dir l ls d d' new rss"
  shows "\<exists>new rss. leaves' = leaves @ new \<and> added_leaves cd dir l ls d d' new rss"
proof (cases "ls = []")
  case True
  then have "leaves' = leaves @ [] \<and> added_leaves cd dir l ls d d' [] []"
    using assms(1,2) by (simp add: spool_at_def spool_ok_def added_leaves_def)
  then show ?thesis by blast
next
  case False
  then have "splitSpool cd dir l leaves d = (Inr leaves', d')"
    using assms(1,2) by (simp add: spool_at_def spool_ok_def)
  with False show ?thesis by (rule assms(3))
qed

lemma splitSpool_ok:
  assumes "splitSpool cd dir sp leaves d = (Inr leaves', d')" and "spool_at cd dir d sp rs" and "rs \<noteq> []"
    and "fresh_below dir d (sp_prefix sp)"
  shows "\<exists>new rss. leaves' = leaves @ new \<and> added_leaves cd dir sp rs d d' new rss"
  using assms
proof (induction "256 - sp_bits sp" arbitrary: sp leaves d leaves' d' rs rule: less_induct)
  case less
  have good: "file_has cd d (sp_path sp) rs" "\<forall>x \<in> set rs. good_record cd x"
    using less.prems(2) by (auto simp: spool_at_def spool_ok_def)
  from splitSpool_Inr [OF less.prems(1) good(1) less.prems(3) good(2)] show ?case
  proof (elim disjE exE conjE)
    assume "dk_files d' = dk_files d" "leaf_fits sp rs" "leaves' = leaves @ [sp]"
    then show ?thesis using added_leaf [of cd dir d sp rs d'] less.prems(2) by (auto simp: leaf_at_def)
  next
    fix d2 l r d3 leaves1 d4
    assume d2: "dk_files d2 = dk_files d" and b: "sp_bits sp < 256"
      and s: "split_children cd dir sp d2 = (Inr (l, r), d3)"
      and s1: "(if sp_placements l = 0 then (Inr leaves, d3) else splitSpool cd dir l leaves d3) = (Inr leaves1, d4)"
      and s2: "(if sp_placements r = 0 then (Inr leaves1, d4) else splitSpool cd dir r leaves1 d4) = (Inr leaves', d')"
    let ?ls = "filter (\<lambda>x. hashBit (rec_hash cd x) (sp_bits sp) \<noteq> 1) rs"
    let ?rs = "filter (\<lambda>x. hashBit (rec_hash cd x) (sp_bits sp) = 1) rs"
    have at: "spool_at cd dir d2 sp rs" using less.prems(2) d2 spool_at_cong [of d2 sp d] by simp
    have fr: "fresh_below dir d2 (sp_prefix sp)" using less.prems(4) d2 by (simp add: fresh_below_def)
    note ch = split_children_ok [OF s at fr]
    have l: "spool_at cd dir d3 l ?ls" "sp_prefix l = sp_prefix sp @ ''0''" "sp_path l = spool_name dir ''split-'' (sp_prefix l)"
      "fresh_below dir d3 (sp_prefix l)" using ch by blast+
    have r: "spool_at cd dir d3 r ?rs" "sp_prefix r = sp_prefix sp @ ''1''" "sp_path r = spool_name dir ''split-'' (sp_prefix r)"
      "fresh_below dir d3 (sp_prefix r)" using ch by blast+
    have bits: "256 - sp_bits l < 256 - sp_bits sp" "256 - sp_bits r < 256 - sp_bits sp"
      using split_children_bits [OF s] b by auto
    obtain new1 rss1 where n1: "leaves1 = leaves @ new1" and a1: "added_leaves cd dir l ?ls d3 d4 new1 rss1"
      using child_leaves [OF s1 l(1)] less.hyps [OF bits(1) _ l(1) _ l(4)] by blast
    have out: "outside dir l path" if "\<not> outside dir r path" for path
      by (rule outside_sibling [OF at r(1) l(1) r(2) l(2) _ r(3) l(3) that]) blast
    have frame1: "dk_files d4 path = dk_files d3 path" if "\<not> outside dir r path" for path
      using a1 out [OF that] by (simp add: added_leaves_def)
    have r4: "spool_at cd dir d4 r ?rs" using r(1) spool_at_cong [of d4 r d3] frame1 [of "sp_path r"] by (simp add: outside_def)
    have fr4: "fresh_below dir d4 (sp_prefix r)"
      using r(4) frame1 unfolding fresh_below_def outside_def by metis
    obtain new2 rss2 where n2: "leaves' = leaves1 @ new2" and a2: "added_leaves cd dir r ?rs d4 d' new2 rss2"
      using child_leaves [OF s2 r4] less.hyps [OF bits(2) _ r4 _ fr4] by blast
    have "\<forall>x \<in> set new1. dk_files d' (sp_path x) = dk_files d4 (sp_path x)"
      using a1 a2 out unfolding added_leaves_def by blast
    then have leaf1: "list_all2 (leaf_at cd dir d') new1 rss1"
      using a1 list_all2_leaf_cong unfolding added_leaves_def by blast
    have "mset (concat (rss1 @ rss2)) = mset ?ls + mset ?rs" using a1 a2 by (simp add: added_leaves_def)
    then have ms: "mset (concat (rss1 @ rss2)) = mset rs" 
      using multiset_partition [of "mset rs" "\<lambda>x. hashBit (rec_hash cd x) (sp_bits sp) = 1"]
      by (simp add: union_commute)
    have inside: "\<not> outside dir sp path" if "\<not> outside dir l path \<or> \<not> outside dir r path" for path
      using that outside_child [OF at _ l(2,3)] outside_child [OF at _ r(2,3)] by blast
    have "prefix (sp_prefix sp) (sp_prefix l)" "prefix (sp_prefix sp) (sp_prefix r)" using l(2) r(2) by simp_all
    then have below: "\<forall>x \<in> set (new1 @ new2). prefix (sp_prefix sp) (sp_prefix x) \<and> \<not> outside dir sp (sp_path x)"
      using a1 a2 inside prefix_order.trans unfolding added_leaves_def by (metis Un_iff set_append)
    have "sp_bits l \<le> 256" "sp_bits r \<le> 256" using split_children_bits [OF s] b by auto
    then have depth: "\<forall>x \<in> set (new1 @ new2). sp_bits x \<le> 256" using a1 a2 unfolding added_leaves_def by auto
    have ordered: "sorted_wrt disjoint_before (map sp_prefix (new1 @ new2))"
      using a1 a2 children_before [of "sp_prefix sp"] unfolding added_leaves_def l(2) r(2) by (auto simp: sorted_wrt_append)
    have "dk_files d' path = dk_files d path" if "outside dir sp path" for path
      using a1 a2 ch inside that d2 unfolding added_leaves_def by metis
    then have "added_leaves cd dir sp rs d d' (new1 @ new2) (rss1 @ rss2)"
      using leaf1 a2 ms below depth ordered unfolding added_leaves_def by (simp add: list_all2_appendI)
    then show ?thesis using n1 n2 by auto
  qed
qed

section \<open>The source walk\<close>

abbreviation rec_root :: "codec \<Rightarrow> spool_record \<Rightarrow> gostring" where
  "rec_root cd r \<equiv> bitPrefix (rec_hash cd r) InitialPrefixBits"

definition root_spool :: "gostring \<Rightarrow> gostring \<Rightarrow> spool \<Rightarrow> bool" where
  "root_spool dir p sp \<longleftrightarrow> sp_prefix sp = p \<and> sp_bits sp = InitialPrefixBits \<and> sp_path sp = spool_name dir ''root-'' p"

text \<open>The roots after a walk: one per occurring prefix, holding the records of that prefix in order;
  no other spool file exists yet.\<close>

definition roots_ok :: "codec \<Rightarrow> gostring \<Rightarrow> disk \<Rightarrow> roots \<Rightarrow> spool_record list \<Rightarrow> bool" where
  "roots_ok cd dir d roots rs \<longleftrightarrow> distinct (map fst roots) \<and> set (map fst roots) = rec_root cd ` set rs \<and>
     (\<forall>p sp. map_of roots p = Some sp \<longrightarrow> root_spool dir p sp \<and> spool_ok cd d sp (filter (\<lambda>r. rec_root cd r = p) rs)) \<and>
     (\<forall>q. bin q \<longrightarrow> dk_files d (spool_name dir ''split-'' q) = None) \<and>
     (\<forall>q. bin q \<longrightarrow> map_of roots q = None \<longrightarrow> dk_files d (spool_name dir ''root-'' q) = None)"

lemma roots_ok_files: "dk_files d' = dk_files d \<Longrightarrow> roots_ok cd dir d' roots rs = roots_ok cd dir d roots rs"
  using spool_ok_cong [of d' _ d] by (simp add: roots_ok_def)

lemma plan_visit_Inr:
  assumes "plan_visit cd p dir r roots d = (Inr roots', d')"
  shows "\<not> selected p r \<and> roots' = roots \<and> dk_files d' = dk_files d \<or>
    selected p r \<and> so_bytes r \<le> MaxBlobBytes \<and>
    (\<exists>d1 d2 sp. dk_files d1 = dk_files d \<and> dk_files d' = dk_files d2 \<and>
       appendSpool cd (case map_of roots (rec_root cd (spool_of cd r)) of Some sp \<Rightarrow> sp
           | None \<Rightarrow> new_spool dir ''root-'' (rec_root cd (spool_of cd r)) InitialPrefixBits) (spool_of cd r) d1 =
         ((None, sp), d2) \<and> roots' = AList.update (rec_root cd (spool_of cd r)) sp roots)"
proof -
  obtain d1 where c: "ctx_Err d = (None, d1)"
    using assms by (auto simp: plan_visit_def split: prod.splits option.splits)
  have d1: "dk_files d1 = dk_files d" using ctx_Err_files [of d] c by simp
  have o: "sr_object (spool_of cd r) = so_object r" by (simp add: spool_of_def)
  show ?thesis
  proof (cases "selected p r")
    case False
    with assms c d1 show ?thesis by (simp add: plan_visit_def)
  next
    case True
    let ?pre = "rec_root cd (spool_of cd r)"
    let ?cur = "case map_of roots ?pre of Some sp \<Rightarrow> sp | None \<Rightarrow> new_spool dir ''root-'' ?pre InitialPrefixBits"
    have b: "so_bytes r \<le> MaxBlobBytes" and m: "mt_selected (dk_metrics d1) \<noteq> max_int64"
      using assms c True by (auto simp: plan_visit_def split: if_splits)
    obtain res d2 where a: "appendSpool cd ?cur (spool_of cd r) d1 = (res, d2)" by fastforce
    obtain sp where "res = (None, sp)" "roots' = AList.update ?pre sp roots" "dk_files d' = dk_files d2"
      using assms c True b m a unfolding plan_visit_def o
      by (cases res; cases "fst res") (auto simp: Let_def)
    with True b d1 a show ?thesis by blast
  qed
qed

lemma plan_visit_ok:
  assumes "plan_visit cd p dir r roots d = (Inr roots', d')" and "roots_ok cd dir d roots rs"
  shows "roots_ok cd dir d' roots' (rs @ (if selected p r then [spool_of cd r] else [])) \<and>
    (selected p r \<longrightarrow> so_bytes r \<le> MaxBlobBytes \<and> int (length (spool_line cd (spool_of cd r))) \<le> MaxRecordBytes)"
  using plan_visit_Inr [OF assms(1)]
proof (elim disjE conjE exE)
  assume "\<not> selected p r" "roots' = roots" "dk_files d' = dk_files d"
  then show ?thesis using assms(2) roots_ok_files [of d' d] by simp
next
  let ?x = "spool_of cd r" let ?pre = "rec_root cd ?x"
  let ?cur = "case map_of roots ?pre of Some sp \<Rightarrow> sp | None \<Rightarrow> new_spool dir ''root-'' ?pre InitialPrefixBits"
  fix d1 d2 sp
  assume sel: "selected p r" "so_bytes r \<le> MaxBlobBytes" and f: "dk_files d1 = dk_files d" "dk_files d' = dk_files d2"
    and a: "appendSpool cd ?cur ?x d1 = ((None, sp), d2)" and r': "roots' = AList.update ?pre sp roots"
  note ok = assms(2) [unfolded roots_ok_def]
  let ?at = "filter (\<lambda>r. rec_root cd r = ?pre) rs"
  have cur: "root_spool dir ?pre ?cur \<and> spool_ok cd d1 ?cur ?at"
  proof (cases "map_of roots ?pre")
    case None
    then have "?pre \<notin> set (map fst roots)" by (simp add: map_of_eq_None_iff)
    moreover have "set (map fst roots) = rec_root cd ` set rs" using ok by blast
    ultimately have "?pre \<notin> rec_root cd ` set rs" by blast
    then have "?at = []" unfolding filter_empty_conv by (metis imageI)
    moreover have "dk_files d1 (spool_name dir ''root-'' ?pre) = None" using ok None f(1) bin_bitPrefix by metis
    ultimately show ?thesis by (simp add: None root_spool_def spool_ok_def file_has_def)
  next
    case (Some s)
    then have "root_spool dir ?pre s \<and> spool_ok cd d s ?at" using ok by blast
    then show ?thesis using Some spool_ok_cong [of d1 s d] f(1) by simp
  qed
  note ap = appendSpool_None [OF a]
  have root: "root_spool dir ?pre sp" using cur ap by (simp add: root_spool_def same_place_def)
  have new: "spool_ok cd d' sp (?at @ [?x])"
    using appendSpool_ok [OF a] cur f(2) spool_ok_cong [of d' sp d2] by simp
  have files: "dk_files d' path = dk_files d path" if "path \<noteq> spool_name dir ''root-'' ?pre" for path
    using that ap f cur by (simp add: root_spool_def)
  have other: "root_spool dir q s \<and> spool_ok cd d' s (filter (\<lambda>r. rec_root cd r = q) rs)"
    if "map_of roots q = Some s" "q \<noteq> ?pre" for q s
  proof -
    have s: "root_spool dir q s" "spool_ok cd d s (filter (\<lambda>r. rec_root cd r = q) rs)" using ok that(1) by blast+
    have "q \<in> rec_root cd ` set rs" using ok that(1) by (metis domI dom_map_of_conv_image_fst set_map)
    then have "bin q" by (auto simp: bin_bitPrefix)
    then have "sp_path s \<noteq> spool_name dir ''root-'' ?pre"
      using s(1) that(2) by (simp add: root_spool_def spool_name_inject bin_bitPrefix)
    then show ?thesis using s files spool_ok_cong [of d' s d] by simp
  qed
  have "roots_ok cd dir d' roots' (rs @ [?x])"
    unfolding roots_ok_def
  proof (intro conjI allI impI)
    show "distinct (map fst roots')" using ok by (simp add: r' distinct_update)
    show "set (map fst roots') = rec_root cd ` set (rs @ [?x])" using ok by (auto simp: r' dom_update)
    fix q
    show "dk_files d' (spool_name dir ''split-'' q) = None" if "bin q"
      using ok that files [of "spool_name dir ''split-'' q"] by (simp add: spool_name_inject bin_bitPrefix)
    show "dk_files d' (spool_name dir ''root-'' q) = None" if "bin q" "map_of roots' q = None"
      using ok that files [of "spool_name dir ''root-'' q"]
      by (auto simp: r' update_conv' spool_name_inject bin_bitPrefix split: if_splits)
    fix s assume "map_of roots' q = Some s"
    then have "q = ?pre \<and> s = sp \<or> q \<noteq> ?pre \<and> map_of roots q = Some s"
      by (auto simp: r' update_conv' split: if_splits)
    then have "root_spool dir q s \<and> spool_ok cd d' s (filter (\<lambda>r. rec_root cd r = q) (rs @ [?x]))"
      using root new other by auto
    then show "root_spool dir q s" "spool_ok cd d' s (filter (\<lambda>r. rec_root cd r = q) (rs @ [?x]))" by blast+
  qed
  with sel ap show ?thesis by simp
qed

lemma walk_source_ok:
  assumes "walk_source cd p dir fault source roots d = (Inr roots', d')" and "roots_ok cd dir d roots rs"
  shows "roots_ok cd dir d' roots' (rs @ map (spool_of cd) (filter (selected p) source)) \<and>
    (\<forall>r \<in> set source. selected p r \<longrightarrow>
       so_bytes r \<le> MaxBlobBytes \<and> int (length (spool_line cd (spool_of cd r))) \<le> MaxRecordBytes)"
  using assms
proof (induction source arbitrary: fault roots d rs)
  case Nil
  then show ?case by (auto split: option.splits)
next
  case (Cons r source)
  obtain roots1 d1 fault1 where v: "plan_visit cd p dir r roots d = (Inr roots1, d1)"
    and w: "walk_source cd p dir fault1 source roots1 d1 = (Inr roots', d')"
    using Cons.prems(1) by (auto split: option.splits prod.splits sum.splits)
  note pv = plan_visit_ok [OF v Cons.prems(2)]
  with Cons.IH [OF w conjunct1 [OF pv]] show ?case by auto
qed

section \<open>All roots\<close>

lemma roots_before:
  assumes "length p = length q" "p < q" "prefix p x" "prefix q y" shows "disjoint_before x y"
proof -
  obtain s t where x: "x = p @ s" and y: "y = q @ t" using assms(3,4) by (auto simp: prefix_def)
  have "p @ s < q @ t"
    using assms(1,2) by (induction p q arbitrary: s t rule: list_induct2) auto
  moreover have "\<not> prefix (p @ s) (q @ t)"
  proof
    assume "prefix (p @ s) (q @ t)"
    then have "prefix p (q @ t)" by (meson append_prefixD)
    with assms(1,2) show False by (auto simp: prefix_def)
  qed
  ultimately show ?thesis by (simp add: disjoint_before_def x y)
qed

lemma outside_roots:
  assumes "root_spool dir p sp" "root_spool dir q sp'" "bin p" "bin q" "length p = length q" "p \<noteq> q"
    and "\<not> outside dir sp path"
  shows "outside dir sp' path"
proof -
  consider "path = spool_name dir ''root-'' p"
    | u where "path = spool_name dir ''split-'' u" "bin u" "strict_prefix p u"
    using assms(1,7) by (auto simp: outside_def root_spool_def)
  then show ?thesis
  proof cases
    case 1
    then show ?thesis using assms(2-4,6) by (simp add: outside_def root_spool_def spool_name_inject)
  next
    case 2
    then have "\<not> strict_prefix q u"
      using assms(5,6) by (auto simp: strict_prefix_def prefix_def append_eq_append_conv)
    then show ?thesis using 2 assms(2-4) by (auto simp: outside_def root_spool_def spool_name_inject)
  qed
qed

definition roots_listed :: "codec \<Rightarrow> gostring \<Rightarrow> disk \<Rightarrow> gostring list \<Rightarrow> spool list \<Rightarrow> spool_record list list \<Rightarrow> bool" where
  "roots_listed cd dir d ps sps rss \<longleftrightarrow> length ps = length sps \<and> length sps = length rss \<and> sorted_wrt (<) ps \<and>
     (\<forall>i < length sps. root_spool dir (ps ! i) (sps ! i) \<and> spool_at cd dir d (sps ! i) (rss ! i) \<and> rss ! i \<noteq> [] \<and>
        fresh_below dir d (ps ! i))"

lemma roots_listed_Cons:
  "roots_listed cd dir d (p # ps) (sp # sps) (rs # rss) \<longleftrightarrow>
     root_spool dir p sp \<and> spool_at cd dir d sp rs \<and> rs \<noteq> [] \<and> fresh_below dir d p \<and>
     (\<forall>q \<in> set ps. p < q) \<and> roots_listed cd dir d ps sps rss"
  unfolding roots_listed_def by (auto simp: All_less_Suc2)

text \<open>Splitting one root leaves the others as they are.\<close>

lemma roots_apart:
  assumes "roots_listed cd dir d (p # ps) (sp # sps) (rs # rss)" and "i < length sps" and "\<not> outside dir (sps ! i) path"
  shows "outside dir sp path"
proof -
  have l: "root_spool dir p sp" "spool_at cd dir d sp rs" "\<forall>q \<in> set ps. p < q" "roots_listed cd dir d ps sps rss"
    using assms(1) unfolding roots_listed_Cons by blast+
  have "root_spool dir (ps ! i) (sps ! i)" "bin (ps ! i)" "length (ps ! i) = length p" "p < ps ! i"
    using l assms(2) by (auto simp: roots_listed_def root_spool_def spool_at_def)
  moreover have "bin p" using l by (simp add: spool_at_def root_spool_def)
  ultimately show ?thesis using outside_roots [OF _ l(1) _ _ _ _ assms(3)] by blast
qed

lemma roots_listed_step:
  assumes "roots_listed cd dir d (p # ps) (sp # sps) (rs # rss)" and "added_leaves cd dir sp rs d d1 new nss"
  shows "roots_listed cd dir d1 ps sps rss"
proof -
  have tl: "roots_listed cd dir d ps sps rss" using assms(1) unfolding roots_listed_Cons by blast
  have frame: "dk_files d1 path = dk_files d path" if "i < length sps" "\<not> outside dir (sps ! i) path" for i path
    using assms(2) roots_apart [OF assms(1) that] by (simp add: added_leaves_def)
  show ?thesis unfolding roots_listed_def
  proof (intro conjI allI impI)
    fix i assume i: "i < length sps"
    show r: "root_spool dir (ps ! i) (sps ! i)" "rss ! i \<noteq> []" using tl i by (auto simp: roots_listed_def)
    show "spool_at cd dir d1 (sps ! i) (rss ! i)"
      using tl i frame [OF i, of "sp_path (sps ! i)"] spool_at_cong [of d1 "sps ! i" d]
      by (simp add: roots_listed_def outside_def)
    have "sp_prefix (sps ! i) = ps ! i" using r(1) by (simp add: root_spool_def)
    then show "fresh_below dir d1 (ps ! i)"
      using tl i frame [OF i] unfolding roots_listed_def fresh_below_def outside_def by metis
  qed (use tl in \<open>auto simp: roots_listed_def\<close>)
qed

lemma split_roots_ok:
  assumes "split_roots cd dir sps leaves d = (Inr leaves', d')" and "roots_listed cd dir d ps sps rss"
  shows "\<exists>new nss. leaves' = leaves @ new \<and> list_all2 (leaf_at cd dir d') new nss \<and>
    mset (concat nss) = mset (concat rss) \<and> sorted_wrt disjoint_before (map sp_prefix new) \<and>
    (\<forall>l \<in> set new. sp_bits l \<le> 256 \<and> (\<exists>i < length sps. prefix (ps ! i) (sp_prefix l))) \<and>
    (\<forall>path. (\<forall>sp \<in> set sps. outside dir sp path) \<longrightarrow> dk_files d' path = dk_files d path)"
  using assms
proof (induction sps arbitrary: leaves d ps rss)
  case Nil
  then show ?case by (auto simp: roots_listed_def intro: exI [of _ "[]"])
next
  case (Cons sp sps)
  obtain p ps' where ps: "ps = p # ps'" using Cons.prems(2) by (cases ps) (auto simp: roots_listed_def)
  obtain rs rss' where rss: "rss = rs # rss'" using Cons.prems(2) by (cases rss) (auto simp: roots_listed_def)
  have hd: "root_spool dir p sp" "spool_at cd dir d sp rs" "rs \<noteq> []" "fresh_below dir d p" "\<forall>q \<in> set ps'. p < q"
    and tl: "roots_listed cd dir d ps' sps rss'"
    using Cons.prems(2) unfolding ps rss roots_listed_Cons by blast+
  have pre: "sp_prefix sp = p" using hd(1) by (simp add: root_spool_def)
  obtain leaves1 d1 where s: "splitSpool cd dir sp leaves d = (Inr leaves1, d1)"
    and t: "split_roots cd dir sps leaves1 d1 = (Inr leaves', d')"
    using Cons.prems(1) by (auto split: prod.splits sum.splits)
  obtain new1 nss1 where n1: "leaves1 = leaves @ new1" and a1: "added_leaves cd dir sp rs d d1 new1 nss1"
    using splitSpool_ok [OF s hd(2,3)] hd(4) pre by auto
  note listed = Cons.prems(2) [unfolded ps rss]
  have bits: "length p = length (ps' ! i)" "p < ps' ! i" if "i < length sps" for i
    using tl hd that by (auto simp: roots_listed_def root_spool_def spool_at_def)
  from Cons.IH [OF t roots_listed_step [OF listed a1]] obtain new2 nss2 where n2: "leaves' = leaves1 @ new2"
    and l2: "list_all2 (leaf_at cd dir d') new2 nss2" and m2: "mset (concat nss2) = mset (concat rss')"
    and o2: "sorted_wrt disjoint_before (map sp_prefix new2)"
    and p2: "\<forall>l \<in> set new2. sp_bits l \<le> 256 \<and> (\<exists>i < length sps. prefix (ps' ! i) (sp_prefix l))"
    and f2: "\<forall>path. (\<forall>sp \<in> set sps. outside dir sp path) \<longrightarrow> dk_files d' path = dk_files d1 path" by blast
  have "dk_files d' (sp_path x) = dk_files d1 (sp_path x)" if "x \<in> set new1" for x
  proof -
    have "\<not> outside dir sp (sp_path x)" using a1 that by (simp add: added_leaves_def)
    then have "outside dir (sps ! i) (sp_path x)" if "i < length sps" for i
      using roots_apart [OF listed that] by blast
    then show ?thesis using f2 by (metis in_set_conv_nth)
  qed
  then have l1: "list_all2 (leaf_at cd dir d') new1 nss1"
    using a1 list_all2_leaf_cong unfolding added_leaves_def by blast
  have "disjoint_before (sp_prefix x) (sp_prefix y)" if xy: "x \<in> set new1" "y \<in> set new2" for x y
  proof -
    obtain i where "i < length sps" "prefix (ps' ! i) (sp_prefix y)" using p2 xy(2) by blast
    moreover have "prefix p (sp_prefix x)" using a1 xy(1) pre by (simp add: added_leaves_def)
    ultimately show ?thesis using roots_before [of p "ps' ! i"] bits by metis
  qed
  then have ord: "sorted_wrt disjoint_before (map sp_prefix (new1 @ new2))"
    using a1 o2 by (auto simp: added_leaves_def sorted_wrt_append)
  have "sp_bits sp \<le> 256" using hd(1) by (simp add: root_spool_def)
  then have depth: "sp_bits l \<le> 256" if "l \<in> set (new1 @ new2)" for l
    using that a1 p2 by (auto simp: added_leaves_def)
  have "\<exists>i < length (sp # sps). prefix (ps ! i) (sp_prefix l)" if l: "l \<in> set (new1 @ new2)" for l
  proof (cases "l \<in> set new1")
    case True
    then have "prefix (ps ! 0) (sp_prefix l)" using a1 pre by (simp add: ps added_leaves_def)
    then show ?thesis by (intro exI [of _ 0]) simp
  next
    case False
    then obtain i where "i < length sps" "prefix (ps' ! i) (sp_prefix l)" using p2 l by auto
    then show ?thesis by (intro exI [of _ "Suc i"]) (simp add: ps)
  qed
  moreover have "dk_files d' path = dk_files d path" if "\<forall>x \<in> set (sp # sps). outside dir x path" for path
    using f2 a1 that by (simp add: added_leaves_def)
  moreover have "mset (concat (nss1 @ nss2)) = mset (concat rss)"
    using a1 m2 by (simp add: rss added_leaves_def)
  ultimately show ?case using n1 n2 list_all2_appendI [OF l1 l2] ord depth
    by (intro exI [of _ "new1 @ new2"] exI [of _ "nss1 @ nss2"]) auto
qed

section \<open>The plan\<close>

lemma mset_classes:
  assumes "distinct ps"
  shows "mset (concat (map (\<lambda>p. filter (\<lambda>r. f r = p) rs) ps)) = mset (filter (\<lambda>r. f r \<in> set ps) rs)"
  using assms
proof (induction ps)
  case (Cons p ps)
  have "mset (filter (\<lambda>r. f r \<in> set (p # ps)) rs) =
      mset (filter (\<lambda>r. f r = p) rs) + mset (filter (\<lambda>r. f r \<in> set ps) rs)"
    using Cons.prems by (induction rs) auto
  with Cons show ?case by simp
qed simp

lemma sum_list_nonneg: "\<forall>x \<in> set xs. 0 \<le> f x \<Longrightarrow> 0 \<le> (\<Sum>x\<leftarrow>xs. f x :: int)"
  by (induction xs) auto

text \<open>What the planner needs of a delivered record beside \<open>validateRecord\<close>: JSON and hashing work on it.\<close>

definition source_ok :: "codec \<Rightarrow> int \<Rightarrow> source_record \<Rightarrow> bool" where
  "source_ok cd n r \<longleftrightarrow> validateRecord r n \<and> codec_ok cd (spool_of cd r) \<and> length (cd_blob_hash cd (so_object r)) = 32"

lemma length_hex_encode: "length (hex_encode ws) = 2 * length ws"
  by (induction ws) auto

lemma source_good:
  assumes "source_ok cd n r" "selected p r" "so_bytes r \<le> MaxBlobBytes"
    "int (length (spool_line cd (spool_of cd r))) \<le> MaxRecordBytes"
  shows "good_record cd (spool_of cd r)"
  using assms
  by (simp add: source_ok_def good_record_def gitObjectAndHashValid_def validateRecord_def selected_def spool_of_def
      length_hex_encode)

definition fresh_spools :: "gostring \<Rightarrow> disk \<Rightarrow> bool" where
  "fresh_spools dir d \<longleftrightarrow> (\<forall>k q. spool_kind k \<and> bin q \<longrightarrow> dk_files d (spool_name dir k q) = None)"

lemma roots_ok_initial: "fresh_spools dir d \<Longrightarrow> roots_ok cd dir d [] []"
  by (simp add: fresh_spools_def roots_ok_def)

lemma roots_ok_listed:
  assumes "roots_ok cd dir d roots rs" and "\<forall>r \<in> set rs. good_record cd r"
  shows "roots_listed cd dir d (sort (map fst roots)) (map (the \<circ> map_of roots) (sort (map fst roots)))
    (map (\<lambda>p. filter (\<lambda>r. rec_root cd r = p) rs) (sort (map fst roots)))"
proof -
  note ok = assms(1) [unfolded roots_ok_def]
  have one: "root_spool dir p (the (map_of roots p)) \<and> spool_at cd dir d (the (map_of roots p)) (filter (\<lambda>r. rec_root cd r = p) rs) \<and>
      filter (\<lambda>r. rec_root cd r = p) rs \<noteq> [] \<and> fresh_below dir d p"
    if key: "p \<in> set (map fst roots)" for p
  proof -
    obtain sp where sp: "map_of roots p = Some sp"
      using key by (cases "map_of roots p") (auto simp: map_of_eq_None_iff)
    have r: "root_spool dir p sp" "spool_ok cd d sp (filter (\<lambda>r. rec_root cd r = p) rs)" using ok sp by blast+
    have "p \<in> rec_root cd ` set rs" using ok key by blast
    then obtain x where x: "x \<in> set rs" "rec_root cd x = p" by blast
    have p: "bin p" "length p = InitialPrefixBits" unfolding x(2) [symmetric] by (simp_all add: bin_bitPrefix)
    have "spool_at cd dir d sp (filter (\<lambda>r. rec_root cd r = p) rs)"
      unfolding spool_at_def
    proof (intro conjI)
      show "\<exists>k. spool_kind k \<and> sp_path sp = spool_name dir k (sp_prefix sp)"
        using r(1) by (intro exI [of _ "''root-''"]) (simp add: root_spool_def)
    qed (use r p assms(2) in \<open>simp_all add: root_spool_def\<close>)
    moreover have "filter (\<lambda>r. rec_root cd r = p) rs \<noteq> []" using x by (auto simp: filter_empty_conv)
    moreover have "fresh_below dir d p" using ok by (simp add: fresh_below_def)
    ultimately show ?thesis using r sp by simp
  qed
  have "sorted_wrt (<) (sort (map fst roots))"
    using ok by (simp add: strict_sorted_iff)
  with one show ?thesis unfolding roots_listed_def by (metis (no_types, lifting) comp_apply length_map nth_map nth_mem set_sort)
qed

lemma planLeaves_leaves:
  assumes "planLeaves cd p dir fault source d = (Inr leaves, d')" and "\<forall>r \<in> set source. source_ok cd n r"
    and "fresh_spools dir d"
  shows "\<exists>rss. list_all2 (leaf_at cd dir d') leaves rss \<and>
    mset (concat rss) = mset (map (spool_of cd) (filter (selected p) source)) \<and>
    sorted_wrt disjoint_before (map sp_prefix leaves) \<and> int (length leaves) \<le> MaxPartitions \<and>
    (\<forall>l \<in> set leaves. InitialPrefixBits \<le> sp_bits l \<and> sp_bits l \<le> 256)"
proof -
  obtain roots d1 where w: "walk_source cd p dir fault source [] d = (Inr roots, d1)"
    and s: "split_roots cd dir (map (the \<circ> map_of roots) (sort (map fst roots))) [] d1 = (Inr leaves, d')"
    and len: "int (length leaves) \<le> MaxPartitions"
    using assms(1) unfolding planLeaves_def by (auto split: prod.splits sum.splits if_splits)
  let ?rs = "map (spool_of cd) (filter (selected p) source)"
  note walk = walk_source_ok [OF w roots_ok_initial [OF assms(3)]]
  have ok: "roots_ok cd dir d1 roots ?rs" using walk by simp
  have good: "\<forall>r \<in> set ?rs. good_record cd r"
    using walk assms(2) source_good [of cd n _ p] by auto
  obtain nss where l: "list_all2 (leaf_at cd dir d') leaves nss"
    and m: "mset (concat nss) = mset (concat (map (\<lambda>q. filter (\<lambda>r. rec_root cd r = q) ?rs) (sort (map fst roots))))"
    and o: "sorted_wrt disjoint_before (map sp_prefix leaves)"
    and pre: "\<forall>l \<in> set leaves. sp_bits l \<le> 256 \<and>
      (\<exists>i < length (sort (map fst roots)). prefix (sort (map fst roots) ! i) (sp_prefix l))"
    using split_roots_ok [OF s roots_ok_listed [OF ok good]] by auto
  have keys: "set (map fst roots) = rec_root cd ` set ?rs" "distinct (map fst roots)"
    using ok unfolding roots_ok_def by blast+
  then have "\<forall>r \<in> set ?rs. rec_root cd r \<in> set (sort (map fst roots))" "distinct (sort (map fst roots))"
    by (simp_all only: set_sort distinct_sort) blast
  then have "mset (concat nss) = mset ?rs"
    unfolding m by (subst mset_classes) (simp_all add: filter_True)
  moreover have "InitialPrefixBits \<le> sp_bits x \<and> sp_bits x \<le> 256" if x: "x \<in> set leaves" for x
  proof -
    obtain i where i: "i < length (sort (map fst roots))" "prefix (sort (map fst roots) ! i) (sp_prefix x)" using pre x by blast
    have "sort (map fst roots) ! i \<in> rec_root cd ` set ?rs" using keys(1) i(1) by (metis nth_mem set_sort)
    then have "length (sort (map fst roots) ! i) = InitialPrefixBits" by auto
    moreover have "length (sp_prefix x) = sp_bits x"
      using l x by (auto simp: list_all2_conv_all_nth in_set_conv_nth leaf_at_def spool_at_def)
    ultimately show ?thesis using pre x prefix_length_le [OF i(2)] by simp
  qed
  ultimately show ?thesis using l o len by blast
qed

text \<open>
  C34. A successful plan is a partition. Over a fresh spool directory, when \<open>planLeaves\<close> returns leaves
  (whatever file faults and cancellations it met on the way), the files of the leaves hold exactly the
  selected source records, each once; every record of a leaf has the leaf's bit string as the prefix of
  its object's hash; the leaves' prefixes are strictly increasing and none is a prefix of another, so an
  object belongs to one leaf only; every leaf holds between 1 and 4,096 placements and at most 64 MiB of
  declared bytes unless it holds a single object; and there are at most 16,384 leaves.
\<close>

theorem planLeaves_partition:
  assumes "planLeaves cd p dir fault source d = (Inr leaves, d')" and "\<forall>r \<in> set source. source_ok cd n r"
    and "fresh_spools dir d"
  shows "\<exists>rss. list_all2 (leaf_at cd dir d') leaves rss \<and>
    mset (concat rss) = mset (map (spool_of cd) (filter (selected p) source)) \<and>
    sorted_wrt disjoint_before (map sp_prefix leaves) \<and> int (length leaves) \<le> MaxPartitions"
  using planLeaves_leaves [OF assms] by blast

end
