(* ===== verification/Source_Progress.thy ===== *)
theory Source_Progress
  imports Source_Leaves
begin

text \<open>
  That planning succeeds: on a healthy disk, within the bounds the code documents and without a hash
  collision, \<open>planLeaves\<close> returns a plan. The only obligations that are not visible in the source are
  the two that splitting adds: twice the spooled bytes fit into the spool bound, since a spool and its
  children coexist while it is split.
\<close>

section \<open>A healthy disk\<close>

definition healthy :: "disk \<Rightarrow> bool" where
  "healthy d \<longleftrightarrow> dk_io d = []"

lemma healthy_next [simp]: "healthy d \<Longrightarrow> next_io d = (IoOk, d)"
  by (simp add: healthy_def next_io_def)

lemma healthy_ctx [simp]: "healthy d \<Longrightarrow> ctx_Err d = (None, d)"
  by (simp add: ctx_Err_def)

abbreviation used :: "disk \<Rightarrow> int" where
  "used d \<equiv> mt_current (dk_metrics d)"

definition bytes_of :: "codec \<Rightarrow> spool_record list \<Rightarrow> int" where
  "bytes_of cd rs = (\<Sum>r\<leftarrow>rs. int (length (spool_line cd r)))"

lemma bytes_of_simps [simp]:
  "bytes_of cd [] = 0" "bytes_of cd (r # rs) = int (length (spool_line cd r)) + bytes_of cd rs"
  "bytes_of cd (rs @ ss) = bytes_of cd rs + bytes_of cd ss"
  by (simp_all add: bytes_of_def)

lemma bytes_of_nonneg [simp]: "0 \<le> bytes_of cd rs"
  by (induction rs) simp_all

lemma bytes_of_filter: "bytes_of cd (filter P rs) + bytes_of cd (filter (\<lambda>x. \<not> P x) rs) = bytes_of cd rs"
  by (induction rs) auto

text \<open>A spool whose totals are far from the integer bounds.\<close>

definition roomy :: "codec \<Rightarrow> spool \<Rightarrow> spool_record list \<Rightarrow> nat \<Rightarrow> bool" where
  "roomy cd sp rs k \<longleftrightarrow> sp_content sp = bytes_of cd rs \<and> 0 \<le> sp_placements sp \<and>
     sp_placements sp + int k \<le> MaxPartitions \<and> sp_declared sp + int k * MaxBlobBytes \<le> max_int64"

lemma appendSpool_healthy:
  assumes "healthy d" and "good_record cd r" and "roomy cd sp rs (Suc k)"
    and "used d + int (length (spool_line cd r)) \<le> MaxSpoolBytes"
  shows "\<exists>sp' d'. appendSpool cd sp r d = ((None, sp'), d') \<and> healthy d' \<and>
    used d' = used d + int (length (spool_line cd r)) \<and> mt_selected (dk_metrics d') = mt_selected (dk_metrics d) \<and>
    roomy cd sp' (rs @ [r]) k"
proof -
  have b: "0 \<le> sr_bytes r" "sr_bytes r \<le> MaxBlobBytes" "int (length (spool_line cd r)) \<le> MaxRecordBytes"
    using assms(2) by (simp_all add: good_record_def gitObjectAndHashValid_def)
  have m: "int (Suc k) * MaxBlobBytes = MaxBlobBytes + int k * MaxBlobBytes" by (simp add: algebra_simps)
  have "sp_placements sp \<noteq> max_int64" "\<not> sr_bytes r > max_int64 - sp_declared sp"
    using assms(3) b m by (auto simp: roomy_def max_int64_def)
  then show ?thesis
    using assms b m by (auto simp: appendSpool_def append_bytes_def healthy_def next_io_def roomy_def Let_def)
qed

lemma split_loop_healthy:
  assumes "healthy d" and "\<forall>x \<in> set rs. good_record cd x" and "roomy cd l ls (length rs)" and "roomy cd r rs' (length rs)"
    and "used d + bytes_of cd rs \<le> MaxSpoolBytes"
  shows "\<exists>l' r' d'. visit_all (split_step cd bits) rs (l, r) d = (Inr (l', r'), d') \<and> healthy d' \<and>
    used d' = used d + bytes_of cd rs \<and>
    sp_content l' = bytes_of cd (ls @ filter (\<lambda>x. hashBit (rec_hash cd x) bits \<noteq> 1) rs) \<and>
    sp_content r' = bytes_of cd (rs' @ filter (\<lambda>x. hashBit (rec_hash cd x) bits = 1) rs)"
  using assms
proof (induction rs arbitrary: l r d ls rs')
  case Nil
  then show ?case by (simp add: roomy_def)
next
  case (Cons x xs)
  have h: "hex_decode (sr_hash x) = Some (rec_hash cd x)" "length (rec_hash cd x) = 32"
    using good_hash [of cd x] Cons.prems(2) by auto
  have x: "good_record cd x" and xs: "\<forall>x \<in> set xs. good_record cd x" using Cons.prems(2) by auto
  have weaken: "roomy cd sp qs (length xs)" if "roomy cd sp qs (Suc (length xs))" for sp qs
    using that by (simp add: roomy_def algebra_simps)
  have fit: "used d + int (length (spool_line cd x)) \<le> MaxSpoolBytes"
    using Cons.prems(5) bytes_of_nonneg [of cd xs] unfolding bytes_of_simps by linarith
  show ?case
  proof (cases "hashBit (rec_hash cd x) bits = 1")
    case True
    obtain r1 d1 where a: "appendSpool cd r x d = ((None, r1), d1)" "healthy d1"
      "used d1 = used d + int (length (spool_line cd x))" "roomy cd r1 (rs' @ [x]) (length xs)"
      using appendSpool_healthy [OF Cons.prems(1) x _ fit] Cons.prems(4) by (metis length_Cons)
    then have "split_step cd bits x (l, r) d = (Inr (l, r1), d1)" using h True by (simp add: split_step_def)
    moreover have "used d1 + bytes_of cd xs \<le> MaxSpoolBytes" using a(3) Cons.prems(5) by simp
    ultimately show ?thesis
      using Cons.IH [OF a(2) xs weaken a(4)] Cons.prems(3) a(3) True by (auto simp: add.assoc)
  next
    case False
    obtain l1 d1 where a: "appendSpool cd l x d = ((None, l1), d1)" "healthy d1"
      "used d1 = used d + int (length (spool_line cd x))" "roomy cd l1 (ls @ [x]) (length xs)"
      using appendSpool_healthy [OF Cons.prems(1) x _ fit] Cons.prems(3) by (metis length_Cons)
    then have "split_step cd bits x (l, r) d = (Inr (l1, r), d1)" using h False by (simp add: split_step_def)
    moreover have "used d1 + bytes_of cd xs \<le> MaxSpoolBytes" using a(3) Cons.prems(5) by simp
    ultimately show ?thesis
      using Cons.IH [OF a(2) xs a(4) weaken] Cons.prems(4) a(3) False by (auto simp: add.assoc)
  qed
qed

lemma forEachSpool_healthy:
  assumes "healthy d" and "file_has cd d path rs" and "rs \<noteq> []" and "\<forall>r \<in> set rs. good_record cd r"
  shows "forEachSpool cd path visit s d = visit_all visit rs s d"
proof -
  obtain content where c: "dk_files d path = Some content" "content = encode_records cd rs"
    using assms(2,3) by (auto simp: file_has_def split: option.splits)
  have "file_lines content = map (cd_spool_json cd) rs"
    using assms(4) c(2) by (simp add: file_lines_encode good_record_def)
  then show ?thesis
    using assms(1,4) c(1) by (simp add: forEachSpool_def visit_lines_healthy)
qed

lemma spoolIdentity_healthy:
  assumes "healthy d" and "file_has cd d (sp_path sp) (r # rs)" and "\<forall>x \<in> set (r # rs). good_record cd x"
  shows "spoolIdentity cd sp d = (Inr (\<forall>x \<in> set rs. sr_object x = sr_object r, \<forall>x \<in> set rs. sr_hash x = sr_hash r), d)"
proof -
  have "sr_object r \<noteq> []" using assms(3) by (auto simp: good_record_def gitObjectAndHashValid_def IsObjectID_def)
  then show ?thesis
    by (simp add: spoolIdentity_def forEachSpool_healthy [OF assms(1,2) _ assms(3)] identity_step_def identity_all)
qed

lemma split_children_healthy:
  assumes "healthy d" and "spool_at cd dir d sp rs" and "rs \<noteq> []" and "int (length rs) \<le> MaxPartitions"
    and "sp_content sp = bytes_of cd rs" and "used d + bytes_of cd rs \<le> MaxSpoolBytes" and "0 \<le> used d"
    and "fresh_below dir d (sp_prefix sp)"
  shows "\<exists>l r d'. split_children cd dir sp d = (Inr (l, r), d') \<and> healthy d' \<and> used d' = used d \<and>
    sp_content l = bytes_of cd (filter (\<lambda>x. hashBit (rec_hash cd x) (sp_bits sp) \<noteq> 1) rs) \<and>
    sp_content r = bytes_of cd (filter (\<lambda>x. hashBit (rec_hash cd x) (sp_bits sp) = 1) rs)"
proof -
  let ?p = "sp_prefix sp" and ?b = "sp_bits sp"
  let ?l = "new_spool dir ''split-'' (?p @ ''0'') (Suc ?b)" and ?r = "new_spool dir ''split-'' (?p @ ''1'') (Suc ?b)"
  have f: "file_has cd d (sp_path sp) rs" and good: "\<forall>x \<in> set rs. good_record cd x"
    using assms(2) by (auto simp: spool_at_def spool_ok_def)
  have room: "roomy cd ?l [] (length rs)" "roomy cd ?r [] (length rs)"
    using assms(4) by (simp_all add: roomy_def max_int64_def new_spool_def)
  obtain l r d1 where v: "visit_all (split_step cd ?b) rs (?l, ?r) d = (Inr (l, r), d1)" "healthy d1"
    "used d1 = used d + bytes_of cd rs" "sp_content l = bytes_of cd (filter (\<lambda>x. hashBit (rec_hash cd x) ?b \<noteq> 1) rs)"
    "sp_content r = bytes_of cd (filter (\<lambda>x. hashBit (rec_hash cd x) ?b = 1) rs)"
    using split_loop_healthy [OF assms(1) good room assms(6), of ?b] by auto
  have at: "bin ?p" "\<exists>k. spool_kind k \<and> sp_path sp = spool_name dir k ?p" using assms(2) by (auto simp: spool_at_def)
  have ne: "sp_path ?l \<noteq> sp_path ?r" "sp_path sp \<noteq> sp_path ?l" "sp_path sp \<noteq> sp_path ?r"
    using at by (auto simp: spool_name_inject)
  have "dk_files d (spool_name dir ''split-'' (?p @ ''0'')) = None" "dk_files d (spool_name dir ''split-'' (?p @ ''1'')) = None"
    using assms(8) at(1) unfolding fresh_below_def by (auto simp: strict_prefix_def)
  then have "spool_ok cd d ?l []" "spool_ok cd d ?r []" by (simp_all add: spool_ok_def file_has_def)
  from split_loop [OF v(1) good ne(1) this] ne have "dk_files d1 (sp_path sp) = dk_files d (sp_path sp)" by simp
  moreover obtain s where "dk_files d (sp_path sp) = Some s"
    using f assms(3) by (auto simp: file_has_def split: option.splits)
  ultimately have "removeSpool sp d1 = (None, d1\<lparr>dk_files := (dk_files d1)(sp_path sp := None),
      dk_metrics := (dk_metrics d1)\<lparr>mt_current := used d\<rparr>\<rparr>)"
    using v(2,3) assms(5,7) by (simp add: removeSpool_def)
  then show ?thesis
    using v by (simp add: split_children_def Let_def healthy_def forEachSpool_healthy [OF assms(1) f assms(3) good])
qed

section \<open>Splitting ends\<close>

lemma hashBit_bit:
  assumes "j < 8" shows "hashBit h (8 * i + (7 - j)) = 1 \<longleftrightarrow> bit (h ! i) j"
proof -
  have "(8 * i + k) mod 8 = k" "(8 * i + k) div 8 = i" if "k < 8" for k using that by auto
  from this [of "7 - j"] have "(8 * i + (7 - j)) mod 8 = 7 - j" "(8 * i + (7 - j)) div 8 = i" by simp_all
  then have "hashBit h (8 * i + (7 - j)) = drop_bit j (h ! i) mod 2"
    using assms by (simp add: hashBit_def and_one_eq)
  then show ?thesis by (simp add: bit_iff_odd_drop_bit odd_iff_mod_2_eq_one)
qed

lemma hash_from_bits:
  assumes "length h = 32" "length h' = 32" "bitPrefix h 256 = bitPrefix h' 256"
  shows "h = h'"
proof (rule nth_equalityI)
  show "length h = length h'" using assms by simp
  fix i assume i: "i < length h"
  have same: "hashBit h k = 1 \<longleftrightarrow> hashBit h' k = 1" if "k < 256" for k
  proof -
    have "bitPrefix h (Suc k) = bitPrefix h' (Suc k)"
      using assms(3) that bitPrefix_take [of "Suc k" 256 h] bitPrefix_take [of "Suc k" 256 h'] by simp
    then show ?thesis by (simp add: bitPrefix_Suc split: if_splits)
  qed
  show "h ! i = h' ! i"
  proof (rule bit_word_eqI)
    fix j assume "j < LENGTH(8)"
    then have j: "j < 8" by simp
    then have "8 * i + (7 - j) < 256" using i assms(1) by simp
    from same [OF this] show "bit (h ! i) j = bit (h' ! i) j" using hashBit_bit [OF j] by simp
  qed
qed

definition collision_free :: "codec \<Rightarrow> spool_record list \<Rightarrow> bool" where
  "collision_free cd rs \<longleftrightarrow> (\<forall>r \<in> set rs. \<forall>s \<in> set rs. rec_hash cd r = rec_hash cd s \<longrightarrow> sr_object r = sr_object s)"

definition few_placements :: "spool_record list \<Rightarrow> bool" where
  "few_placements rs \<longleftrightarrow>
     (\<forall>r \<in> set rs. int (length (filter (\<lambda>s. sr_object s = sr_object r) rs)) \<le> MaxPlacementsPerPartition)"

lemma few_placements_filter:
  assumes "few_placements rs" shows "few_placements (filter P rs)"
  unfolding few_placements_def
proof
  fix r assume r: "r \<in> set (filter P rs)"
  have "length (filter Q (filter P rs)) \<le> length (filter Q rs)" for Q by (induction rs) auto
  moreover have "int (length (filter (\<lambda>s. sr_object s = sr_object r) rs)) \<le> MaxPlacementsPerPartition"
    using assms r by (simp add: few_placements_def)
  ultimately show "int (length (filter (\<lambda>s. sr_object s = sr_object r) (filter P rs))) \<le> MaxPlacementsPerPartition"
    by (meson of_nat_le_iff order_trans)
qed

lemma concat_length_bound: "list_all2 (leaf_at cd dir d) new rss \<Longrightarrow> length new \<le> length (concat rss)"
proof (induction new rss rule: list_all2_induct)
  case (Cons l ls rs rss)
  then have "rs \<noteq> []" by (simp add: leaf_at_def leaf_fits_def)
  with Cons.IH show ?case by (cases rs) simp_all
qed simp

lemma added_leaves_length: "added_leaves cd dir sp rs d d' new rss \<Longrightarrow> length new \<le> length rs"
  using concat_length_bound [of cd dir d' new rss] unfolding added_leaves_def by (metis mset_eq_length)

lemma splitSpool_healthy:
  assumes "healthy d" and "spool_at cd dir d sp rs" and "rs \<noteq> []" and "fresh_below dir d (sp_prefix sp)"
    and "sp_content sp = bytes_of cd rs" and "used d + bytes_of cd rs \<le> MaxSpoolBytes" and "0 \<le> used d"
    and "int (length leaves) + int (length rs) \<le> MaxPartitions"
    and "collision_free cd rs" and "few_placements rs" and "sp_bits sp \<le> 256"
  shows "\<exists>leaves' d'. splitSpool cd dir sp leaves d = (Inr leaves', d') \<and> healthy d' \<and> used d' = used d"
  using assms
proof (induction "256 - sp_bits sp" arbitrary: sp leaves d rs rule: less_induct)
  case less
  obtain r0 rs0 where rs: "rs = r0 # rs0" using less.prems(3) by (cases rs) auto
  have ok: "file_has cd d (sp_path sp) (r0 # rs0)" "\<forall>x \<in> set (r0 # rs0). good_record cd x"
    "sp_placements sp = int (length rs)" "\<forall>x \<in> set rs. bitPrefix (rec_hash cd x) (sp_bits sp) = sp_prefix sp"
    using less.prems(2) by (auto simp: spool_at_def spool_ok_def rs)
  let ?so = "\<forall>x \<in> set rs0. sr_object x = sr_object r0" and ?sh = "\<forall>x \<in> set rs0. sr_hash x = sr_hash r0"
  note id = spoolIdentity_healthy [OF less.prems(1) ok(1,2)]
  have room: "add_leaf sp leaves = Inr (leaves @ [sp])" using less.prems(8) by (simp add: add_leaf_def rs)
  show ?case
  proof (cases "?so \<or> sp_placements sp \<le> MaxPlacementsPerPartition \<and> sp_declared sp \<le> MaxPartitionBlobBytes")
    case True
    have "sp_placements sp \<le> MaxPlacementsPerPartition" if ?so
    proof -
      have "filter (\<lambda>s. sr_object s = sr_object r0) rs = rs" using that by (simp add: rs)
      then show ?thesis using less.prems(10) ok(3) unfolding few_placements_def by (metis list.set_intros(1) rs)
    qed
    then have "splitSpool cd dir sp leaves d = (Inr (leaves @ [sp]), d)"
      using True less.prems(1) room by (subst splitSpool.simps) (auto simp: id)
    then show ?thesis using less.prems(1) by blast
  next
    case False
    then obtain x where x: "x \<in> set rs0" "sr_object x \<noteq> sr_object r0" by blast
    have nh: "rec_hash cd x \<noteq> rec_hash cd r0" using x less.prems(9) by (auto simp: collision_free_def rs)
    have gx: "good_record cd x" "good_record cd r0" using ok(2) x by auto
    have "\<not> ?sh" using nh x good_same_hash [OF gx] by blast
    moreover have "sp_bits sp \<noteq> 256"
      using nh hash_from_bits [of "rec_hash cd x" "rec_hash cd r0"] good_hash [OF gx(1)] good_hash [OF gx(2)] ok(4) x
      by (auto simp: rs)
    ultimately have b: "sp_bits sp < 256" "\<not> (256 \<le> sp_bits sp \<or> ?sh)" using less.prems(11) by auto
    let ?ls = "filter (\<lambda>x. hashBit (rec_hash cd x) (sp_bits sp) \<noteq> 1) rs"
    let ?rs = "filter (\<lambda>x. hashBit (rec_hash cd x) (sp_bits sp) = 1) rs"
    have "int (length rs) \<le> MaxPartitions" using less.prems(8) by simp
    then obtain l r d3 where s: "split_children cd dir sp d = (Inr (l, r), d3)" "healthy d3" "used d3 = used d"
      "sp_content l = bytes_of cd ?ls" "sp_content r = bytes_of cd ?rs"
      using split_children_healthy [OF less.prems(1-3) _ less.prems(5-7,4)] by blast
    note ch = split_children_ok [OF s(1) less.prems(2,4)]
    have bits: "256 - sp_bits l < 256 - sp_bits sp" "256 - sp_bits r < 256 - sp_bits sp" "sp_bits l \<le> 256" "sp_bits r \<le> 256"
      using split_children_bits [OF s(1)] b(1) by auto
    have parts: "bytes_of cd ?rs + bytes_of cd ?ls = bytes_of cd rs" "length ?rs + length ?ls = length rs"
      using bytes_of_filter [of cd "\<lambda>x. hashBit (rec_hash cd x) (sp_bits sp) = 1" rs]
        sum_length_filter_compl [of "\<lambda>x. hashBit (rec_hash cd x) (sp_bits sp) = 1" rs] by simp_all
    have fits: "used d + bytes_of cd ?ls \<le> MaxSpoolBytes" "used d + bytes_of cd ?rs \<le> MaxSpoolBytes"
      using parts less.prems(6) bytes_of_nonneg [of cd ?ls] bytes_of_nonneg [of cd ?rs] by linarith+
    have cf: "collision_free cd ?ls" "collision_free cd ?rs" using less.prems(9) by (auto simp: collision_free_def)
    have atl: "spool_at cd dir d3 l ?ls" "fresh_below dir d3 (sp_prefix l)"
      and atr: "spool_at cd dir d3 r ?rs" "fresh_below dir d3 (sp_prefix r)" using ch by blast+
    have place: "sp_prefix l = sp_prefix sp @ ''0''" "sp_prefix r = sp_prefix sp @ ''1''"
      "sp_path l = spool_name dir ''split-'' (sp_prefix l)" "sp_path r = spool_name dir ''split-'' (sp_prefix r)"
      using ch by blast+
    have pl: "sp_placements l = int (length ?ls)" "sp_placements r = int (length ?rs)"
      using atl atr by (simp_all add: spool_at_def spool_ok_def)
    have "\<exists>leaves1 d4. (if sp_placements l = 0 then (Inr leaves, d3) else splitSpool cd dir l leaves d3) = (Inr leaves1, d4) \<and>
        healthy d4 \<and> used d4 = used d \<and> length leaves1 \<le> length leaves + length ?ls \<and>
        spool_at cd dir d4 r ?rs \<and> fresh_below dir d4 (sp_prefix r)"
    proof (cases "?ls = []")
      case True
      then show ?thesis using s pl atr by auto
    next
      case ne: False
      have "int (length leaves) + int (length ?ls) \<le> MaxPartitions" using less.prems(8) parts(2) by linarith
      then obtain leaves1 d4 where run: "splitSpool cd dir l leaves d3 = (Inr leaves1, d4)" "healthy d4" "used d4 = used d3"
        using less.hyps [OF bits(1) s(2) atl(1) ne atl(2) s(4)] fits(1) less.prems(7,10) cf(1) bits(3) s(3) few_placements_filter
        by (metis (no_types, lifting))
      obtain new1 rss1 where new: "leaves1 = leaves @ new1" "added_leaves cd dir l ?ls d3 d4 new1 rss1"
        using splitSpool_ok [OF run(1) atl(1) ne atl(2)] by blast
      have out: "outside dir l path" if "\<not> outside dir r path" for path
        by (rule outside_sibling [OF less.prems(2) atr(1) atl(1) place(2,1) _ place(4,3) that]) blast
      have frame: "dk_files d4 path = dk_files d3 path" if "\<not> outside dir r path" for path
        using new(2) out [OF that] by (simp add: added_leaves_def)
      have "spool_at cd dir d4 r ?rs" using atr(1) spool_at_cong [of d4 r d3] frame [of "sp_path r"] by (simp add: outside_def)
      moreover have "fresh_below dir d4 (sp_prefix r)"
        using atr(2) frame unfolding fresh_below_def outside_def by metis
      ultimately show ?thesis using run s(3) new added_leaves_length [OF new(2)] ne pl by auto
    qed
    then obtain leaves1 d4 where first: "(if sp_placements l = 0 then (Inr leaves, d3) else splitSpool cd dir l leaves d3) = (Inr leaves1, d4)"
      and d4: "healthy d4" "used d4 = used d" "length leaves1 \<le> length leaves + length ?ls"
      "spool_at cd dir d4 r ?rs" "fresh_below dir d4 (sp_prefix r)" by blast
    have "\<exists>leaves' d'. (if sp_placements r = 0 then (Inr leaves1, d4) else splitSpool cd dir r leaves1 d4) = (Inr leaves', d') \<and>
        healthy d' \<and> used d' = used d"
    proof (cases "?rs = []")
      case True
      then show ?thesis using d4 pl by auto
    next
      case ne: False
      have "int (length leaves1) + int (length ?rs) \<le> MaxPartitions" using less.prems(8) parts(2) d4(3) by linarith
      then show ?thesis
        using less.hyps [OF bits(2) d4(1,4) ne d4(5) s(5)] fits(2) less.prems(7,10) cf(2) bits(4) d4(2) few_placements_filter ne pl
        by (metis (no_types, lifting) length_0_conv of_nat_eq_0_iff)
    qed
    moreover have "splitSpool cd dir sp leaves d =
        (if sp_placements r = 0 then (Inr leaves1, d4) else splitSpool cd dir r leaves1 d4)"
    proof -
      from False have no: "\<not> ?so" "\<not> (sp_placements sp \<le> MaxPlacementsPerPartition \<and> sp_declared sp \<le> MaxPartitionBlobBytes)" by blast+
      show ?thesis
        by (subst splitSpool.simps)
          (simp only: healthy_ctx [OF less.prems(1)] prod.case option.case sum.case id if_not_P [OF no(1)] if_not_P [OF no(2)]
            if_not_P [OF b(2)] s(1) first)
    qed
    ultimately show ?thesis by simp
  qed
qed

section \<open>The walk ends\<close>

definition roots_small :: "codec \<Rightarrow> disk \<Rightarrow> roots \<Rightarrow> spool_record list \<Rightarrow> bool" where
  "roots_small cd d roots rs \<longleftrightarrow> healthy d \<and> used d = bytes_of cd rs \<and> mt_selected (dk_metrics d) = int (length rs) \<and>
     (\<forall>p sp. map_of roots p = Some sp \<longrightarrow> sp_content sp = bytes_of cd (filter (\<lambda>r. rec_root cd r = p) rs))"

lemma declared_bound:
  assumes "\<forall>r \<in> set rs. sr_bytes r \<le> MaxBlobBytes" shows "sum_list (map sr_bytes rs) \<le> int (length rs) * MaxBlobBytes"
  using assms by (induction rs) (auto simp: algebra_simps)

lemma plan_visit_healthy:
  assumes "roots_ok cd dir d roots rs" and "roots_small cd d roots rs"
    and "\<forall>x \<in> set (rs @ [spool_of cd r]). good_record cd x" and "so_bytes r \<le> MaxBlobBytes"
    and "int (length rs) < MaxPartitions" and "bytes_of cd rs + int (length (spool_line cd (spool_of cd r))) \<le> MaxSpoolBytes"
    and "selected p r"
  shows "\<exists>roots' d'. plan_visit cd p dir r roots d = (Inr roots', d') \<and> roots_small cd d' roots' (rs @ [spool_of cd r])"
proof -
  let ?x = "spool_of cd r" let ?pre = "rec_root cd ?x"
  let ?cur = "case map_of roots ?pre of Some sp \<Rightarrow> sp | None \<Rightarrow> new_spool dir ''root-'' ?pre InitialPrefixBits"
  let ?at = "filter (\<lambda>r. rec_root cd r = ?pre) rs"
  note small = assms(2) [unfolded roots_small_def] and ok = assms(1) [unfolded roots_ok_def]
  have o: "so_object r = sr_object ?x" by (simp add: spool_of_def)
  have len: "int (length ?at) < MaxPartitions"
    using assms(5) length_filter_le [of "\<lambda>r. rec_root cd r = ?pre" rs] by linarith
  have none: "?at = []" if "map_of roots ?pre = None"
  proof -
    have "?pre \<notin> rec_root cd ` set rs" using that ok by (metis map_of_eq_None_iff set_map)
    then show ?thesis unfolding filter_empty_conv by (metis imageI)
  qed
  have tot: "sp_placements ?cur = int (length ?at) \<and> sp_declared ?cur = sum_list (map sr_bytes ?at) \<and> sp_content ?cur = bytes_of cd ?at"
  proof (cases "map_of roots ?pre")
    case None
    then show ?thesis by (simp add: none new_spool_def)
  next
    case (Some sp)
    then have "spool_ok cd d sp ?at" "sp_content sp = bytes_of cd ?at" using ok small by blast+
    then show ?thesis using Some by (simp add: spool_ok_def)
  qed
  have "\<forall>x \<in> set ?at. sr_bytes x \<le> MaxBlobBytes" using assms(3) by (simp add: good_record_def gitObjectAndHashValid_def)
  then have "sum_list (map sr_bytes ?at) \<le> int (length ?at) * MaxBlobBytes" by (rule declared_bound)
  moreover have "int (length ?at) * MaxBlobBytes \<le> MaxPartitions * MaxBlobBytes" using len by simp
  ultimately have "roomy cd ?cur ?at (Suc 0)" using tot len unfolding roomy_def max_int64_def by simp
  then obtain sp d2 where a: "appendSpool cd ?cur ?x d = ((None, sp), d2)" "healthy d2"
    "used d2 = used d + int (length (spool_line cd ?x))" "mt_selected (dk_metrics d2) = mt_selected (dk_metrics d)"
    "sp_content sp = bytes_of cd (?at @ [?x])"
    using appendSpool_healthy [of d cd ?x ?cur ?at 0] small assms(3,6) unfolding roomy_def by auto
  let ?d' = "d2\<lparr>dk_metrics := (dk_metrics d2)\<lparr>mt_selected := mt_selected (dk_metrics d2) + 1\<rparr>\<rparr>"
  have "mt_selected (dk_metrics d) \<noteq> max_int64" using small assms(5) by (simp add: max_int64_def)
  then have run: "plan_visit cd p dir r roots d = (Inr (AList.update ?pre sp roots), ?d')"
    using small assms(4,7) a(1) unfolding plan_visit_def o by simp
  have "roots_small cd ?d' (AList.update ?pre sp roots) (rs @ [?x])"
    unfolding roots_small_def
  proof (intro conjI allI impI)
    show "healthy ?d'" using a(2) by (simp add: healthy_def)
    show "used ?d' = bytes_of cd (rs @ [?x])" using a(3) small by simp
    show "mt_selected (dk_metrics ?d') = int (length (rs @ [?x]))" using a(4) small by simp
    fix q s assume "map_of (AList.update ?pre sp roots) q = Some s"
    then have "q = ?pre \<and> s = sp \<or> q \<noteq> ?pre \<and> map_of roots q = Some s" by (auto simp: update_conv' split: if_splits)
    then show "sp_content s = bytes_of cd (filter (\<lambda>r. rec_root cd r = q) (rs @ [?x]))" using small a(5) by auto
  qed
  with run show ?thesis by blast
qed

lemma walk_source_healthy:
  assumes "roots_ok cd dir d roots rs" and "roots_small cd d roots rs"
    and "\<forall>x \<in> set (rs @ map (spool_of cd) (filter (selected p) source)). good_record cd x"
    and "int (length (rs @ map (spool_of cd) (filter (selected p) source))) \<le> MaxPartitions"
    and "bytes_of cd (rs @ map (spool_of cd) (filter (selected p) source)) \<le> MaxSpoolBytes"
  shows "\<exists>roots' d'. walk_source cd p dir None source roots d = (Inr roots', d') \<and>
    roots_small cd d' roots' (rs @ map (spool_of cd) (filter (selected p) source))"
  using assms
proof (induction source arbitrary: roots d rs)
  case Nil
  then show ?case by (simp add: fault_now_def)
next
  case (Cons r source)
  show ?case
  proof (cases "selected p r")
    case False
    then have "plan_visit cd p dir r roots d = (Inr roots, d)"
      using Cons.prems(2) by (simp add: plan_visit_def roots_small_def)
    with False Cons show ?thesis by (simp add: fault_now_def)
  next
    case True
    let ?rest = "map (spool_of cd) (filter (selected p) source)"
    have eq: "rs @ map (spool_of cd) (filter (selected p) (r # source)) = (rs @ [spool_of cd r]) @ ?rest" using True by simp
    note prems = Cons.prems(3-5) [unfolded eq]
    have b: "so_bytes r \<le> MaxBlobBytes" using prems(1) by (simp add: good_record_def gitObjectAndHashValid_def spool_of_def)
    have "int (length rs) < MaxPartitions" using prems(2) by simp
    moreover have "bytes_of cd rs + int (length (spool_line cd (spool_of cd r))) \<le> MaxSpoolBytes"
      using prems(3) bytes_of_nonneg [of cd ?rest] unfolding bytes_of_simps by linarith
    ultimately obtain roots1 d1 where v: "plan_visit cd p dir r roots d = (Inr roots1, d1)"
      "roots_small cd d1 roots1 (rs @ [spool_of cd r])"
      using plan_visit_healthy [OF Cons.prems(1,2) _ b _ _ True] prems(1) by auto
    have "roots_ok cd dir d1 roots1 (rs @ [spool_of cd r])"
      using plan_visit_ok [OF v(1) Cons.prems(1)] True by simp
    from Cons.IH [OF this v(2) prems] show ?thesis unfolding eq using v(1) by (simp add: fault_now_def)
  qed
qed

section \<open>Planning succeeds\<close>

lemma split_roots_healthy:
  assumes "roots_listed cd dir d ps sps rss" and "healthy d" and "0 \<le> used d"
    and "\<forall>i < length sps. sp_content (sps ! i) = bytes_of cd (rss ! i) \<and> used d + bytes_of cd (rss ! i) \<le> MaxSpoolBytes \<and>
      collision_free cd (rss ! i) \<and> few_placements (rss ! i)"
    and "int (length leaves) + int (length (concat rss)) \<le> MaxPartitions"
  shows "\<exists>leaves' d'. split_roots cd dir sps leaves d = (Inr leaves', d') \<and>
    length leaves' \<le> length leaves + length (concat rss)"
  using assms
proof (induction sps arbitrary: leaves d ps rss)
  case Nil
  then show ?case by simp
next
  case (Cons sp sps)
  obtain p ps' where ps: "ps = p # ps'" using Cons.prems(1) by (cases ps) (auto simp: roots_listed_def)
  obtain rs rss' where rss: "rss = rs # rss'" using Cons.prems(1) by (cases rss) (auto simp: roots_listed_def)
  note listed = Cons.prems(1) [unfolded ps rss]
  have hd: "root_spool dir p sp" "spool_at cd dir d sp rs" "rs \<noteq> []" "fresh_below dir d p"
    using listed unfolding roots_listed_Cons by blast+
  have pre: "sp_prefix sp = p" "sp_bits sp \<le> 256" using hd(1) by (simp_all add: root_spool_def)
  have zero: "sp_content sp = bytes_of cd rs" "used d + bytes_of cd rs \<le> MaxSpoolBytes" "collision_free cd rs" "few_placements rs"
    using Cons.prems(4) [rule_format, of 0] by (simp_all add: rss)
  have rest: "\<forall>i < length sps. sp_content (sps ! i) = bytes_of cd (rss' ! i) \<and> used d + bytes_of cd (rss' ! i) \<le> MaxSpoolBytes \<and>
      collision_free cd (rss' ! i) \<and> few_placements (rss' ! i)"
    using Cons.prems(4) by (auto simp: rss All_less_Suc2)
  have "int (length leaves) + int (length rs) \<le> MaxPartitions" using Cons.prems(5) by (simp add: rss)
  then obtain leaves1 d1 where s: "splitSpool cd dir sp leaves d = (Inr leaves1, d1)" "healthy d1" "used d1 = used d"
    using splitSpool_healthy [OF Cons.prems(2) hd(2,3) _ zero(1,2) Cons.prems(3) _ zero(3,4) pre(2)] hd(4) pre(1) by blast
  obtain new nss where new: "leaves1 = leaves @ new" "added_leaves cd dir sp rs d d1 new nss"
    using splitSpool_ok [OF s(1) hd(2,3)] hd(4) pre(1) by auto
  have len: "length leaves1 \<le> length leaves + length rs" using new added_leaves_length [OF new(2)] by simp
  then have "int (length leaves1) + int (length (concat rss')) \<le> MaxPartitions" using Cons.prems(5) by (simp add: rss)
  from Cons.IH [OF roots_listed_step [OF listed new(2)] s(2) _ _ this] s rest Cons.prems(3) len
  show ?case by (auto simp: rss)
qed

lemma roots_small_listed:
  assumes "roots_ok cd dir d roots rs" "roots_small cd d roots rs" "q \<in> set (map fst roots)"
  shows "sp_content (the (map_of roots q)) = bytes_of cd (filter (\<lambda>r. rec_root cd r = q) rs)"
  using assms(2,3) unfolding roots_small_def
  by (cases "map_of roots q") (auto simp: map_of_eq_None_iff)

lemma planLeaves_healthy:
  assumes "\<forall>r \<in> set source. source_ok cd n r" and "fresh_spools dir d" and "healthy d"
    and "dk_metrics d = \<lparr>mt_selected = 0, mt_blobs = 0, mt_blob_bytes = 0, mt_peak = 0, mt_current = 0\<rparr>"
    and "rs = map (spool_of cd) (filter (selected p) source)"
    and "\<forall>r \<in> set rs. sr_bytes r \<le> MaxBlobBytes \<and> int (length (spool_line cd r)) \<le> MaxRecordBytes"
    and "collision_free cd rs" and "few_placements rs"
    and "int (length rs) \<le> MaxPartitions" and "2 * bytes_of cd rs \<le> MaxSpoolBytes"
  shows "\<exists>leaves d'. planLeaves cd p dir None source d = (Inr leaves, d') \<and> length leaves \<le> length rs"
proof -
  have b: "bytes_of cd (filter P rs) \<le> bytes_of cd rs" for P
    using bytes_of_filter [of cd P rs] bytes_of_nonneg [of cd "filter (\<lambda>x. \<not> P x) rs"] by linarith
  have good: "\<forall>r \<in> set rs. good_record cd r"
  proof
    fix x assume x: "x \<in> set rs"
    then obtain r where r: "x = spool_of cd r" "r \<in> set source" "selected p r" using assms(5) by auto
    have "so_bytes r = sr_bytes x" by (simp add: r(1) spool_of_def)
    then show "good_record cd x" using source_good [of cd n r p] assms(1,6) x r by simp
  qed
  have small: "roots_small cd d [] []" using assms(3,4) by (simp add: roots_small_def)
  have "bytes_of cd rs \<le> MaxSpoolBytes" using assms(10) bytes_of_nonneg [of cd rs] by linarith
  then obtain roots d1 where w: "walk_source cd p dir None source [] d = (Inr roots, d1)" "roots_small cd d1 roots rs"
    using walk_source_healthy [OF roots_ok_initial [OF assms(2)] small, of p source] good assms(5,9) by auto
  have ok: "roots_ok cd dir d1 roots rs" using walk_source_ok [OF w(1) roots_ok_initial [OF assms(2)]] assms(5) by simp
  let ?ps = "sort (map fst roots)" and ?cls = "\<lambda>q. filter (\<lambda>r. rec_root cd r = q) rs"
  note listed = roots_ok_listed [OF ok good]
  have u: "healthy d1" "used d1 = bytes_of cd rs" using w(2) by (simp_all add: roots_small_def)
  have "sp_content (map (the \<circ> map_of roots) ?ps ! i) = bytes_of cd (map ?cls ?ps ! i) \<and>
      used d1 + bytes_of cd (map ?cls ?ps ! i) \<le> MaxSpoolBytes \<and> collision_free cd (map ?cls ?ps ! i) \<and>
      few_placements (map ?cls ?ps ! i)" if i: "i < length (map (the \<circ> map_of roots) ?ps)" for i
  proof -
    have q: "?ps ! i \<in> set (map fst roots)" using i by (metis length_map nth_mem set_sort)
    have "used d1 + bytes_of cd (?cls (?ps ! i)) \<le> MaxSpoolBytes" using u(2) b [of "\<lambda>r. rec_root cd r = ?ps ! i"] assms(10) by linarith
    moreover have "collision_free cd (?cls (?ps ! i))" using assms(7) by (auto simp: collision_free_def)
    ultimately show ?thesis
      using i roots_small_listed [OF ok w(2) q] few_placements_filter [OF assms(8)] by simp
  qed
  moreover have "length (concat (map ?cls ?ps)) \<le> length rs"
  proof -
    have "distinct ?ps" using ok by (simp add: roots_ok_def)
    from mset_classes [OF this, of "rec_root cd" rs] show ?thesis
      by (metis length_filter_le mset_eq_length)
  qed
  ultimately obtain leaves d' where s: "split_roots cd dir (map (the \<circ> map_of roots) ?ps) [] d1 = (Inr leaves, d')"
    "length leaves \<le> length rs"
    using split_roots_healthy [OF listed u(1), of "[]"] u(2) assms(9) by fastforce
  then have "int (length leaves) \<le> MaxPartitions" using assms(9) by linarith
  then show ?thesis using w(1) s by (simp add: planLeaves_def)
qed

text \<open>
  C35. Planning succeeds. On a healthy disk, when every delivered record is valid, every selected blob is
  within the per-blob bound and its record within the encoded bound, no object has more than 4,096
  placements, no two selected objects share a hash, at most 16,384 placements are selected and twice
  their encoded bytes fit the spool bound, \<open>planLeaves\<close> returns a plan: splitting always ends, and it
  never gives up on a hash unless two objects collide.
\<close>

theorem planLeaves_succeeds:
  assumes "\<forall>r \<in> set source. source_ok cd n r" and "fresh_spools dir d" and "healthy d"
    and "dk_metrics d = \<lparr>mt_selected = 0, mt_blobs = 0, mt_blob_bytes = 0, mt_peak = 0, mt_current = 0\<rparr>"
    and "rs = map (spool_of cd) (filter (selected p) source)"
    and "\<forall>r \<in> set rs. sr_bytes r \<le> MaxBlobBytes \<and> int (length (spool_line cd r)) \<le> MaxRecordBytes"
    and "collision_free cd rs" and "few_placements rs"
    and "int (length rs) \<le> MaxPartitions" and "2 * bytes_of cd rs \<le> MaxSpoolBytes"
  shows "\<exists>leaves d'. planLeaves cd p dir None source d = (Inr leaves, d') \<and> length leaves \<le> length rs"
  using planLeaves_healthy [OF assms] .

section \<open>A sample plan\<close>

definition sample_object :: "char \<Rightarrow> gostring" where
  "sample_object c = replicate 40 c"

definition sample_hash :: "gostring \<Rightarrow> 8 word list" where
  "sample_hash object = replicate 32 (if object = sample_object CHR ''a'' then 5 else 200)"

definition sample_source :: "char \<Rightarrow> gostring \<Rightarrow> source_record" where
  "sample_source c path = \<lparr>so_path = path, so_mode = ''100644'', so_kind = ''regular'', so_object = sample_object c,
     so_bytes = 7, so_revisions = [0]\<rparr>"

definition sample_spool :: "char \<Rightarrow> gostring \<Rightarrow> spool_record" where
  "sample_spool c path = \<lparr>sr_object = sample_object c, sr_bytes = 7, sr_path = path, sr_mode = ''100644'',
     sr_revisions = [0], sr_hash = hex_encode (sample_hash (sample_object c))\<rparr>"

definition sample_blob :: "char \<Rightarrow> gostring \<Rightarrow> blob_record" where
  "sample_blob c path = \<lparr>br_schema = MemberSchema, br_object = sample_object c, br_bytes = 7,
     br_placements = [\<lparr>pl_path = path, pl_mode = ''100644'', pl_revisions = [0]\<rparr>]\<rparr>"

definition sample_codec :: codec where
  "sample_codec = \<lparr>cd_sha = (\<lambda>_. replicate 32 1), cd_blob_hash = sample_hash, cd_policy_json = (\<lambda>_ _. []),
     cd_manifest_json = (\<lambda>_. []), cd_blob_json = br_object, cd_blob_parse = map_of [(sample_object CHR ''a'', sample_blob CHR ''a'' ''a.go''),
       (sample_object CHR ''b'', sample_blob CHR ''b'' ''b.go'')], cd_spool_json = sr_path,
     cd_spool_parse = map_of [(''a.go'', sample_spool CHR ''a'' ''a.go''), (''b.go'', sample_spool CHR ''b'' ''b.go'')]\<rparr>"

definition sample_policy :: policy where
  "sample_policy = \<lparr>po_schema = PolicySchema, po_name = ''go'', po_version = ''1.0.0'', po_suffixes = [''.go'']\<rparr>"

definition sample_disk :: disk where
  "sample_disk = \<lparr>dk_files = (\<lambda>_. None), dk_metrics = \<lparr>mt_selected = 0, mt_blobs = 0, mt_blob_bytes = 0, mt_peak = 0, mt_current = 0\<rparr>, dk_io = []\<rparr>"

abbreviation "sample_sources \<equiv> [sample_source CHR ''b'' ''b.go'', sample_source CHR ''a'' ''a.go'']"

lemma sample_spool_of: "spool_of sample_codec (sample_source c path) = sample_spool c path"
  by (simp add: spool_of_def sample_codec_def sample_source_def sample_spool_def)

lemma sample_paths: "repopath_Validate ''a.go'' = None" "repopath_Validate ''b.go'' = None"
  by (simp_all add: repopath_Validate_def ValidString_ascii path_IsAbs_def HasPrefix_def path_Clean_def clean_step_def
      plain_component_def control_free_def runes_ascii)

lemma sample_source_ok: "\<forall>r \<in> set sample_sources. source_ok sample_codec 1 r"
proof -
  have "IsObjectID (sample_object CHR ''a'')" "IsObjectID (sample_object CHR ''b'')"
    by (simp_all add: IsObjectID_def sample_object_def runes_ascii list_all_iff)
  then show ?thesis
    by (simp add: source_ok_def validateRecord_def codec_ok_def sample_spool_of strip_cr_def regular_mode_def sample_paths)
      (simp add: sample_source_def sample_codec_def sample_spool_def sample_hash_def sample_paths)
qed

lemma sample_selected: "filter (selected sample_policy) sample_sources = sample_sources"
  by (simp add: selected_def matches_def sample_policy_def sample_source_def HasSuffix_def)

lemma sample_premises:
  defines "rs \<equiv> map (spool_of sample_codec) (filter (selected sample_policy) sample_sources)"
  shows "fresh_spools ''/spool'' sample_disk" "healthy sample_disk"
    "dk_metrics sample_disk = \<lparr>mt_selected = 0, mt_blobs = 0, mt_blob_bytes = 0, mt_peak = 0, mt_current = 0\<rparr>"
    "\<forall>r \<in> set rs. sr_bytes r \<le> MaxBlobBytes \<and> int (length (spool_line sample_codec r)) \<le> MaxRecordBytes"
    "collision_free sample_codec rs" "few_placements rs"
    "int (length rs) \<le> MaxPartitions" "2 * bytes_of sample_codec rs \<le> MaxSpoolBytes"
proof -
  show "fresh_spools ''/spool'' sample_disk" "healthy sample_disk"
    "dk_metrics sample_disk = \<lparr>mt_selected = 0, mt_blobs = 0, mt_blob_bytes = 0, mt_peak = 0, mt_current = 0\<rparr>"
    by (simp_all add: fresh_spools_def healthy_def sample_disk_def)
  have rs: "rs = [sample_spool CHR ''b'' ''b.go'', sample_spool CHR ''a'' ''a.go'']"
    unfolding rs_def sample_selected by (simp add: sample_spool_of)
  have "sample_object CHR ''b'' \<noteq> sample_object CHR ''a''" by (simp add: sample_object_def replicate_eq_replicate)
  then show "collision_free sample_codec rs"
    unfolding rs by (simp add: collision_free_def sample_codec_def sample_spool_def sample_hash_def replicate_eq_replicate)
  show "few_placements rs" unfolding rs by (simp add: few_placements_def)
  show "\<forall>r \<in> set rs. sr_bytes r \<le> MaxBlobBytes \<and> int (length (spool_line sample_codec r)) \<le> MaxRecordBytes"
    "int (length rs) \<le> MaxPartitions" "2 * bytes_of sample_codec rs \<le> MaxSpoolBytes"
    unfolding rs by (simp_all add: spool_line_def sample_codec_def sample_spool_def)
qed

theorem planLeaves_succeeds_witness:
  "\<exists>leaves d'. planLeaves sample_codec sample_policy ''/spool'' None sample_sources sample_disk = (Inr leaves, d') \<and>
     length leaves \<le> 2"
  using planLeaves_succeeds [OF sample_source_ok sample_premises(1-3) refl sample_premises(4-8)]
  unfolding sample_selected by (simp add: numeral_2_eq_2)

theorem planLeaves_partition_witness:
  "\<exists>leaves d' rss. planLeaves sample_codec sample_policy ''/spool'' None sample_sources sample_disk = (Inr leaves, d') \<and>
     list_all2 (leaf_at sample_codec ''/spool'' d') leaves rss \<and>
     mset (concat rss) = {#sample_spool CHR ''a'' ''a.go'', sample_spool CHR ''b'' ''b.go''#}"
proof -
  obtain leaves d' where run: "planLeaves sample_codec sample_policy ''/spool'' None sample_sources sample_disk = (Inr leaves, d')"
    using planLeaves_healthy [OF sample_source_ok sample_premises(1-3) refl sample_premises(4-8)] by blast
  from planLeaves_partition [OF run sample_source_ok sample_premises(1)] run show ?thesis
    unfolding sample_selected by (auto simp: sample_spool_of add_mset_commute)
qed

end
