(* ===== verification/Source_Member.thy ===== *)
theory Source_Member
  imports Source_Progress "HOL-Library.Product_Lexorder"
begin

text \<open>
  Partition members: \<open>encodeMember\<close> of \<open>internal/sourcepartition/plan.go\<close>, which sorts the records of a
  leaf, joins the placements of each object and writes one JSON line per blob, and \<open>readMember\<close> of
  \<open>validate.go\<close>, which reads the lines back and checks them against the manifest entry.
\<close>

section \<open>Encoding\<close>

definition placement_of :: "spool_record \<Rightarrow> placement" where
  "placement_of r = \<lparr>pl_path = sr_path r, pl_mode = sr_mode r, pl_revisions = sr_revisions r\<rparr>"

definition compareSpoolRecord :: "spool_record \<Rightarrow> spool_record \<Rightarrow> int" where
  "compareSpoolRecord l r =
     (let v = go_compare (sr_object l) (sr_object r)
      in if v \<noteq> 0 then v else comparePlacement (placement_of l) (placement_of r))"

text \<open>\<open>sort.Slice\<close> with that comparison orders by the following key; records with equal keys may come in
  any order, and either order is refused below.\<close>

definition spool_key :: "spool_record \<Rightarrow> gostring \<times> gostring \<times> gostring \<times> int list" where
  "spool_key r = (sr_object r, sr_path r, sr_mode r, sr_revisions r)"

definition add_record :: "blob_record list \<Rightarrow> spool_record \<Rightarrow> perr + blob_record list" where
  "add_record blobs r =
     (if blobs = [] \<or> br_object (last blobs) \<noteq> sr_object r
      then Inr (blobs @ [\<lparr>br_schema = MemberSchema, br_object = sr_object r, br_bytes = sr_bytes r,
                  br_placements = [placement_of r]\<rparr>])
      else if br_bytes (last blobs) \<noteq> sr_bytes r then Inl (invalidf ''one object has inconsistent declared sizes'')
      else let b = last blobs; ps = br_placements b
        in if ps \<noteq> [] \<and> comparePlacement (last ps) (placement_of r) \<ge> 0
           then Inl (invalidf ''duplicate or unordered placement'')
           else Inr (butlast blobs @ [b\<lparr>br_placements := ps @ [placement_of r]\<rparr>]))"

fun coalesce :: "blob_record list \<Rightarrow> spool_record list \<Rightarrow> perr + blob_record list" where
  "coalesce blobs [] = Inr blobs"
| "coalesce blobs (r # rs) = (case add_record blobs r of Inl e \<Rightarrow> Inl e | Inr blobs1 \<Rightarrow> coalesce blobs1 rs)"

definition blob_line :: "codec \<Rightarrow> blob_record \<Rightarrow> gostring" where
  "blob_line cd b = cd_blob_json cd b @ [CHR 0x0A]"

text \<open>The second component is what has been written to the output, also when the call fails.
  \<open>io.MultiWriter\<close> reports a short write as an error of its own.\<close>

fun encode_blobs :: "codec \<Rightarrow> bool \<Rightarrow> blob_record list \<Rightarrow> member \<Rightarrow> gostring \<Rightarrow> disk \<Rightarrow> ((perr + member) \<times> gostring) \<times> disk" where
  "encode_blobs cd initial [] m out d = ((Inr m, out), d)"
| "encode_blobs cd initial (b # bs) m out d =
     (case ctx_Err d of
        (Some e, d1) \<Rightarrow> ((Inl e, out), d1)
      | (None, d1) \<Rightarrow>
          if br_bytes b > MaxPartitionBlobBytes - mb_declared m
          then ((Inl (invalidf ''planned member bytes violate their partition''), out), d1)
          else let payload = blob_line cd b; n = int (length payload)
          in if n > MaxMemberContentBytes - mb_content m
          then ((Inl (invalidf ''planned member metadata violates its partition''), out), d1)
          else let m1 = m\<lparr>mb_declared := mb_declared m + br_bytes b, mb_content := mb_content m + n,
                    mb_first := (if initial then br_object b else mb_first m), mb_last := br_object b\<rparr>
          in (case next_io d1 of
                (IoOk, d2) \<Rightarrow> encode_blobs cd False bs m1 (out @ payload) d2
              | (IoFail e, d2) \<Rightarrow> ((Inl (ErrJoin [e, ErrShortWrite]), out), d2)
              | (IoPartial k we ce, d2) \<Rightarrow>
                  if we \<noteq> None \<or> k < length payload
                  then ((Inl (ErrJoin [case we of Some e \<Rightarrow> e | None \<Rightarrow> ErrShortWrite, ErrShortWrite]), out @ take k payload), d2)
                  else encode_blobs cd False bs m1 (out @ payload) d2))"

definition zero_member :: member where
  "zero_member = \<lparr>mb_ordinal = 0, mb_count = 0, mb_name = [], mb_prefix = [], mb_prefix_bits = 0, mb_blobs = 0,
     mb_placements = 0, mb_declared = 0, mb_content = 0, mb_digest = [], mb_first = [], mb_last = []\<rparr>"

definition collect_step :: "spool_record \<Rightarrow> spool_record list \<Rightarrow> disk \<Rightarrow> (perr + spool_record list) \<times> disk" where
  "collect_step r rs d = (Inr (rs @ [r]), d)"

definition member_digest :: "codec \<Rightarrow> gostring \<Rightarrow> gostring" where
  "member_digest cd content = digest cd (''phebs-source-partition-member-v1'' @ [CHR 0x00]) content"

definition encodeMember :: "codec \<Rightarrow> spool \<Rightarrow> disk \<Rightarrow> ((perr + member) \<times> gostring) \<times> disk" where
  "encodeMember cd leaf d =
     (case forEachSpool cd (sp_path leaf) collect_step [] d of
        (Inl e, d1) \<Rightarrow> ((Inl e, []), d1)
      | (Inr collected, d1) \<Rightarrow>
          let records = sort_key spool_key collected
          in (case coalesce [] records of
                Inl e \<Rightarrow> ((Inl e, []), d1)
              | Inr blobs \<Rightarrow>
                  if int (length blobs) > MaxBlobsPerPartition
                  then ((Inl (invalidf ''planned member blob count violates its partition''), []), d1)
                  else if int (length records) > MaxPlacementsPerPartition
                  then ((Inl (invalidf ''planned member placements violate their partition''), []), d1)
                  else (case encode_blobs cd True blobs
                          (zero_member\<lparr>mb_prefix := sp_prefix leaf, mb_prefix_bits := int (sp_bits leaf),
                             mb_placements := int (length records), mb_blobs := int (length blobs)\<rparr>) [] d1 of
                      ((Inl e, out), d2) \<Rightarrow> ((Inl e, out), d2)
                    | ((Inr m, out), d2) \<Rightarrow> ((Inr (m\<lparr>mb_digest := member_digest cd out\<rparr>), out), d2))))"

text \<open>\<open>writeMemberAt\<close>: create the file exclusively, encode into it, sync and close it. What was written
  before a failure stays in the file.\<close>

definition writeMemberAt :: "codec \<Rightarrow> gostring \<Rightarrow> spool \<Rightarrow> disk \<Rightarrow> (perr + member) \<times> disk" where
  "writeMemberAt cd path leaf d =
     (case next_io d of
        (IoFail e, d1) \<Rightarrow> (Inl e, d1)
      | (_, d1) \<Rightarrow>
          if dk_files d1 path \<noteq> None then (Inl (ErrNew ''file exists''), d1)
          else (case encodeMember cd leaf (d1\<lparr>dk_files := (dk_files d1)(path \<mapsto> [])\<rparr>) of
              ((result, out), d2) \<Rightarrow>
                let d3 = d2\<lparr>dk_files := (dk_files d2)(path \<mapsto> out)\<rparr>
                in (case result of
                      Inl e \<Rightarrow> (Inl e, d3)
                    | Inr m \<Rightarrow>
                        (case next_io d3 of
                           (IoFail e, d4) \<Rightarrow> (Inl e, d4)
                         | (_, d4) \<Rightarrow> (case next_io d4 of (IoFail e, d5) \<Rightarrow> (Inl e, d5) | (_, d5) \<Rightarrow> (Inr m, d5))))))"

definition writeMember :: "codec \<Rightarrow> gostring \<Rightarrow> gostring \<Rightarrow> gostring \<Rightarrow> int \<Rightarrow> int \<Rightarrow> spool \<Rightarrow> disk \<Rightarrow> (perr + member) \<times> disk" where
  "writeMember cd directory repository generation n ordinal leaf d =
     (let name = memberName cd repository generation ordinal
      in case writeMemberAt cd (filepath_Join [directory, name]) leaf d of
           (Inl e, d1) \<Rightarrow> (Inl e, d1)
         | (Inr m, d1) \<Rightarrow> (Inr (m\<lparr>mb_ordinal := ordinal, mb_count := n, mb_name := name\<rparr>), d1))"

section \<open>Reading\<close>

fun read_records :: "codec \<Rightarrow> int \<Rightarrow> gostring \<Rightarrow> gostring \<Rightarrow> gostring list \<Rightarrow> disk \<Rightarrow> (perr + blob_record list) \<times> disk" where
  "read_records cd n pre previous lines d =
     (case ctx_Err d of
        (Some e, d1) \<Rightarrow> (Inl e, d1)
      | (None, d1) \<Rightarrow>
          (case lines of
             [] \<Rightarrow> (Inr [], d1)
           | line # rest \<Rightarrow>
               if int (length line) > MaxRecordBytes then (Inl (invalidf ''encoded line violates its bound''), d1)
               else (case cd_blob_parse cd line of
                   None \<Rightarrow> (Inl (invalidf ''partition member record cannot be decoded''), d1)
                 | Some b \<Rightarrow>
                     if cd_blob_json cd b \<noteq> line then (Inl (invalidf ''partition member record is not canonical''), d1)
                     else if validateBlobRecord b n \<noteq> None \<or> br_object b \<le> previous \<or> \<not> hashHasPrefix cd (br_object b) pre
                     then (Inl (invalidf ''partition member record is invalid or unordered''), d1)
                     else (case read_records cd n pre (br_object b) rest d1 of
                         (Inl e, d2) \<Rightarrow> (Inl e, d2) | (Inr bs, d2) \<Rightarrow> (Inr (b # bs), d2)))))"

text \<open>A file that is missing, special or changes while it is read is the first kind of fault; the
  evidence observer's answer is an argument.\<close>

definition readMember :: "codec \<Rightarrow> perr option \<Rightarrow> gostring \<Rightarrow> int \<Rightarrow> int \<Rightarrow> member \<Rightarrow> disk \<Rightarrow> (perr + blob_record list) \<times> disk" where
  "readMember cd observed directory memberCount revisionCount expected d =
     (case next_io d of
        (IoFail e, d1) \<Rightarrow> (Inl e, d1)
      | (_, d1) \<Rightarrow>
          (case dk_files d1 (filepath_Join [directory, mb_name expected]) of
             None \<Rightarrow> (Inl (invalidf ''partition member is missing, special, or changed''), d1)
           | Some content \<Rightarrow>
               if int (length content) \<noteq> mb_content expected
               then (Inl (invalidf ''partition member is missing, special, or changed''), d1)
               else (case read_records cd revisionCount (mb_prefix expected) [] (file_lines content) d1 of
                   (Inl e, d2) \<Rightarrow> (Inl e, d2)
                 | (Inr records, d2) \<Rightarrow>
                     if mb_ordinal expected < 0 \<or> mb_ordinal expected \<ge> memberCount \<or>
                        int (length records) \<noteq> mb_blobs expected \<or> records = [] \<or>
                        (\<Sum>b\<leftarrow>records. int (length (br_placements b))) \<noteq> mb_placements expected \<or>
                        (\<Sum>b\<leftarrow>records. br_bytes b) \<noteq> mb_declared expected \<or>
                        br_object (hd records) \<noteq> mb_first expected \<or> br_object (last records) \<noteq> mb_last expected \<or>
                        member_digest cd content \<noteq> mb_digest expected
                     then (Inl (invalidf ''partition member disagrees with its manifest''), d2)
                     else (case observed of Some e \<Rightarrow> (Inl e, d2) | None \<Rightarrow> (Inr records, d2)))))"

declare read_records.simps [simp del]

section \<open>Order\<close>

definition placement_key :: "placement \<Rightarrow> gostring \<times> gostring \<times> int list" where
  "placement_key p = (pl_path p, pl_mode p, pl_revisions p)"

lemma comparePlacement_less: "comparePlacement p q < 0 \<longleftrightarrow> placement_key p < placement_key q"
  by (auto simp: comparePlacement_def go_compare_def placement_key_def Let_def less_prod_def' split: if_splits)

lemma compareSpoolRecord_less: "compareSpoolRecord l r < 0 \<longleftrightarrow> spool_key l < spool_key r"
  using comparePlacement_less [of "placement_of l" "placement_of r"]
  by (auto simp: compareSpoolRecord_def go_compare_def Let_def spool_key_def placement_key_def placement_of_def less_prod_def'
      split: if_splits)

abbreviation placement_before :: "placement \<Rightarrow> placement \<Rightarrow> bool" where
  "placement_before p q \<equiv> placement_key p < placement_key q"

section \<open>Joined blobs\<close>

definition blob_parts :: "blob_record \<Rightarrow> (gostring \<times> int \<times> placement) list" where
  "blob_parts b = map (\<lambda>p. (br_object b, br_bytes b, p)) (br_placements b)"

definition rec_parts :: "spool_record \<Rightarrow> gostring \<times> int \<times> placement" where
  "rec_parts r = (sr_object r, sr_bytes r, placement_of r)"

definition blobs_ok :: "blob_record list \<Rightarrow> bool" where
  "blobs_ok blobs \<longleftrightarrow> sorted_wrt (<) (map br_object blobs) \<and>
     (\<forall>b \<in> set blobs. br_schema b = MemberSchema \<and> br_placements b \<noteq> [] \<and> sorted_wrt placement_before (br_placements b))"

lemma sorted_snoc:
  assumes "sorted_wrt (<) (map f xs)" "xs \<noteq> [] \<Longrightarrow> f (last xs) < f y"
  shows "sorted_wrt (<) (map f (xs @ [y]) :: 'b::linorder list)"
proof (cases xs rule: rev_cases)
  case (snoc ys z)
  then have "f z < f y" "\<forall>x \<in> set ys. f x < f z" using assms by (auto simp: sorted_wrt_append)
  then have "\<forall>x \<in> set xs. f x < f y" using snoc by auto
  with assms(1) show ?thesis by (simp add: sorted_wrt_append)
qed simp

lemma sorted_placements: "sorted_wrt placement_before ps \<longleftrightarrow> sorted_wrt (<) (map placement_key ps)"
  by (simp add: sorted_wrt_map)

lemma add_record_ok:
  assumes "add_record blobs r = Inr blobs1" and "blobs_ok blobs" and "blobs \<noteq> [] \<Longrightarrow> br_object (last blobs) \<le> sr_object r"
  shows "blobs_ok blobs1 \<and> blobs1 \<noteq> [] \<and> br_object (last blobs1) = sr_object r \<and>
    concat (map blob_parts blobs1) = concat (map blob_parts blobs) @ [rec_parts r]"
proof (cases "blobs = [] \<or> br_object (last blobs) \<noteq> sr_object r")
  case True
  let ?b = "\<lparr>br_schema = MemberSchema, br_object = sr_object r, br_bytes = sr_bytes r, br_placements = [placement_of r]\<rparr>"
  have eq: "blobs1 = blobs @ [?b]" using assms(1) True unfolding add_record_def if_P [OF True] by simp
  have "sorted_wrt (<) (map br_object (blobs @ [?b]))"
    using assms(2,3) True by (intro sorted_snoc) (auto simp: blobs_ok_def order_less_le)
  with assms(2) show ?thesis by (auto simp: eq blobs_ok_def blob_parts_def rec_parts_def)
next
  case False
  let ?b = "last blobs" and ?p = "placement_of r"
  have b: "br_bytes ?b = sr_bytes r" "br_placements ?b = [] \<or> comparePlacement (last (br_placements ?b)) ?p < 0"
    "blobs1 = butlast blobs @ [?b\<lparr>br_placements := br_placements ?b @ [?p]\<rparr>]"
    using assms(1) unfolding add_record_def if_not_P [OF False] by (auto simp: Let_def split: if_splits)
  have split: "blobs = butlast blobs @ [?b]" using False by simp
  have ok: "br_schema ?b = MemberSchema" "sorted_wrt placement_before (br_placements ?b)" "br_placements ?b \<noteq> []"
    using assms(2) False by (simp_all add: blobs_ok_def)
  have "sorted_wrt (<) (map placement_key (br_placements ?b @ [?p]))"
    using ok b(2) by (intro sorted_snoc) (auto simp: sorted_placements comparePlacement_less)
  then have ps: "sorted_wrt placement_before (br_placements ?b @ [?p])" by (simp add: sorted_placements)
  have "map br_object blobs1 = map br_object blobs" unfolding b(3) by (subst (3) split) simp
  then have "sorted_wrt (<) (map br_object blobs1)" using assms(2) by (simp add: blobs_ok_def)
  moreover have "\<forall>x \<in> set (butlast blobs). x \<in> set blobs" by (simp add: in_set_butlastD)
  ultimately have "blobs_ok blobs1" using assms(2) ok ps unfolding blobs_ok_def b(3) by auto
  moreover have "concat (map blob_parts blobs) = concat (map blob_parts (butlast blobs)) @ blob_parts ?b"
    by (subst split) simp
  ultimately show ?thesis using False b by (simp add: blob_parts_def rec_parts_def)
qed

lemma coalesce_ok:
  assumes "coalesce blobs rs = Inr blobs'" and "blobs_ok blobs" and "sorted (map sr_object rs)"
    and "blobs \<noteq> [] \<Longrightarrow> rs \<noteq> [] \<Longrightarrow> br_object (last blobs) \<le> sr_object (hd rs)"
  shows "blobs_ok blobs' \<and> concat (map blob_parts blobs') = concat (map blob_parts blobs) @ map rec_parts rs"
  using assms
proof (induction rs arbitrary: blobs)
  case (Cons r rs)
  obtain blobs1 where a: "add_record blobs r = Inr blobs1" and c: "coalesce blobs1 rs = Inr blobs'"
    using Cons.prems(1) by (auto split: sum.splits)
  note ok = add_record_ok [OF a Cons.prems(2)]
  have one: "blobs_ok blobs1" "br_object (last blobs1) = sr_object r"
    "concat (map blob_parts blobs1) = concat (map blob_parts blobs) @ [rec_parts r]"
    using ok Cons.prems(4) by simp_all
  have "rs \<noteq> [] \<Longrightarrow> br_object (last blobs1) \<le> sr_object (hd rs)" using Cons.prems(3) one(2) by (cases rs) auto
  with Cons.IH [OF c one(1)] Cons.prems(3) one(3) show ?case by simp
qed simp

lemma coalesce_sorted:
  assumes "coalesce [] (sort_key spool_key rs) = Inr blobs"
  shows "blobs_ok blobs" and "concat (map blob_parts blobs) = map rec_parts (sort_key spool_key rs)"
proof -
  have "sorted (map (fst \<circ> spool_key) (sort_key spool_key rs))"
  proof -
    have "sorted_wrt (\<lambda>x y. spool_key x \<le> spool_key y) (sort_key spool_key rs)"
      using sorted_sort_key [of spool_key rs] by (simp add: sorted_wrt_map)
    then show ?thesis unfolding sorted_wrt_map by (rule sorted_wrt_mono_rel [rotated]) (auto simp: less_eq_prod_def)
  qed
  then have "sorted (map sr_object (sort_key spool_key rs))" by (simp add: spool_key_def comp_def)
  from coalesce_ok [OF assms _ this] show "blobs_ok blobs" "concat (map blob_parts blobs) = map rec_parts (sort_key spool_key rs)"
    by (simp_all add: blobs_ok_def)
qed

section \<open>Valid blobs\<close>

definition placement_ok :: "int \<Rightarrow> placement \<Rightarrow> bool" where
  "placement_ok n p \<longleftrightarrow> repopath_Validate (pl_path p) = (None :: perr option) \<and> regular_mode (pl_mode p) \<and>
     pl_revisions p \<noteq> [] \<and> int (length (pl_revisions p)) \<le> n \<and> sorted (pl_revisions p) \<and> revisions_ok n None (pl_revisions p)"

lemma placements_check_ok:
  assumes "\<forall>p \<in> set ps. placement_ok n p" and "sorted_wrt placement_before ps"
    and "\<forall>q. previous = Some q \<longrightarrow> ps \<noteq> [] \<longrightarrow> placement_before q (hd ps)"
  shows "placements_check n previous ps = None"
  using assms
proof (induction ps arbitrary: previous)
  case (Cons p ps)
  have "placements_check n (Some p) ps = None"
    using Cons.prems by (intro Cons.IH) (auto simp: neq_Nil_conv)
  moreover have "\<not> (case previous of None \<Rightarrow> False | Some q \<Rightarrow> comparePlacement q p \<ge> 0)"
    using Cons.prems(3) by (auto simp: not_le comparePlacement_less split: option.split)
  ultimately show ?case using Cons.prems(1) by (simp add: placement_ok_def)
qed simp

lemma placement_count: "length (concat (map blob_parts blobs)) = (\<Sum>b\<leftarrow>blobs. length (br_placements b))"
  by (induction blobs) (simp_all add: blob_parts_def)

lemma int_sum_list: "(\<Sum>x\<leftarrow>xs. int (f x)) = int (\<Sum>x\<leftarrow>xs. f x)"
  by (induction xs) simp_all

lemma blob_placements_bound: "b \<in> set blobs \<Longrightarrow> length (br_placements b) \<le> length (concat (map blob_parts blobs))"
  unfolding placement_count by (induction blobs) auto

text \<open>Every blob that the encoder joins from valid records is a valid blob record.\<close>

lemma joined_blobs_valid:
  assumes "coalesce [] (sort_key spool_key rs) = Inr blobs" and "b \<in> set blobs"
    and "\<forall>r \<in> set rs. gitObjectAndHashValid cd r \<and> placement_ok n (placement_of r)"
    and "int (length rs) \<le> MaxPlacementsPerPartition"
  shows "validateBlobRecord b n = None \<and> (\<exists>r \<in> set rs. br_object b = sr_object r)"
proof -
  note ok = coalesce_sorted [OF assms(1)]
  have parts: "(br_object b, br_bytes b, p) \<in> rec_parts ` set rs" if "p \<in> set (br_placements b)" for p
  proof -
    have "(br_object b, br_bytes b, p) \<in> set (concat (map blob_parts blobs))"
      using that assms(2) by (auto simp: blob_parts_def)
    then show ?thesis unfolding ok(2) by simp
  qed
  have b: "br_schema b = MemberSchema" "br_placements b \<noteq> []" "sorted_wrt placement_before (br_placements b)"
    using ok(1) assms(2) by (auto simp: blobs_ok_def)
  obtain r where r: "r \<in> set rs" "br_object b = sr_object r" "br_bytes b = sr_bytes r"
    using parts [of "hd (br_placements b)"] b(2) by (auto simp: rec_parts_def)
  have "length (br_placements b) \<le> length (sort_key spool_key rs)"
    using blob_placements_bound [OF assms(2)] unfolding ok(2) by simp
  then have "int (length (br_placements b)) \<le> MaxPlacementsPerPartition" using assms(4) by simp
  moreover have "\<forall>p \<in> set (br_placements b). placement_ok n p"
    using parts assms(3) by (fastforce simp: rec_parts_def)
  then have "placements_check n None (br_placements b) = None" using b(3) by (intro placements_check_ok) auto
  ultimately have "validateBlobRecord b n = None"
    using b r assms(3) by (simp add: validateBlobRecord_def gitObjectAndHashValid_def not_less)
  with r show ?thesis by blast
qed

section \<open>Written and read members\<close>

lemma encode_blobs_ok:
  assumes "encode_blobs cd initial bs m out d = ((Inr m', out'), d')"
  shows "out' = out @ concat (map (blob_line cd) bs) \<and>
    m' = m\<lparr>mb_declared := mb_declared m + (\<Sum>b\<leftarrow>bs. br_bytes b),
      mb_content := mb_content m + int (length (concat (map (blob_line cd) bs))),
      mb_first := (if initial \<and> bs \<noteq> [] then br_object (hd bs) else mb_first m),
      mb_last := (if bs = [] then mb_last m else br_object (last bs))\<rparr> \<and>
    (bs \<noteq> [] \<longrightarrow> mb_declared m' \<le> MaxPartitionBlobBytes \<and> mb_content m' \<le> MaxMemberContentBytes) \<and> dk_files d' = dk_files d"
  using assms
proof (induction bs arbitrary: initial m out d)
  case (Cons b bs)
  let ?m1 = "m\<lparr>mb_declared := mb_declared m + br_bytes b, mb_content := mb_content m + int (length (blob_line cd b)),
     mb_first := (if initial then br_object b else mb_first m), mb_last := br_object b\<rparr>"
  obtain d1 where c: "ctx_Err d = (None, d1)" using Cons.prems by (auto split: prod.splits option.splits)
  have b: "br_bytes b \<le> MaxPartitionBlobBytes - mb_declared m"
    "int (length (blob_line cd b)) \<le> MaxMemberContentBytes - mb_content m"
    using Cons.prems c by (auto simp: Let_def split: if_splits)
  obtain d2 where r: "encode_blobs cd False bs ?m1 (out @ blob_line cd b) d2 = ((Inr m', out'), d')" and d2: "d2 = snd (next_io d1)"
    using Cons.prems c by (auto simp: Let_def split: if_splits prod.splits io.splits)
  have "dk_files d2 = dk_files d" using ctx_Err_files [of d] c d2 by simp
  with Cons.IH [OF r] b show ?case by (cases "bs = []") auto
qed simp

definition blob_codec_ok :: "codec \<Rightarrow> blob_record \<Rightarrow> bool" where
  "blob_codec_ok cd b \<longleftrightarrow> cd_blob_parse cd (cd_blob_json cd b) = Some b \<and> CHR 0x0A \<notin> set (cd_blob_json cd b) \<and>
     strip_cr (cd_blob_json cd b) = cd_blob_json cd b"

lemma file_lines_blobs:
  assumes "\<forall>b \<in> set bs. blob_codec_ok cd b"
  shows "file_lines (concat (map (blob_line cd) bs)) = map (cd_blob_json cd) bs"
proof -
  have "Split CHR 0x0A (concat (map (blob_line cd) bs)) = map (cd_blob_json cd) bs @ [[]]"
    using assms by (induction bs) (simp_all add: blob_line_def blob_codec_ok_def Split_append)
  moreover have "map strip_cr (map (cd_blob_json cd) bs) = map (cd_blob_json cd) bs"
    using assms by (simp add: blob_codec_ok_def)
  ultimately show ?thesis by (simp add: file_lines_def)
qed

lemma read_records_ok:
  assumes "healthy d" and "sorted_wrt (<) (map br_object bs)" and "bs \<noteq> [] \<Longrightarrow> previous < br_object (hd bs)"
    and "\<forall>b \<in> set bs. blob_codec_ok cd b \<and> int (length (cd_blob_json cd b)) \<le> MaxRecordBytes \<and>
      validateBlobRecord b n = None \<and> hashHasPrefix cd (br_object b) pre"
  shows "read_records cd n pre previous (map (cd_blob_json cd) bs) d = (Inr bs, d)"
  using assms
proof (induction bs arbitrary: previous)
  case Nil
  then show ?case by (simp add: read_records.simps)
next
  case (Cons b bs)
  have "read_records cd n pre (br_object b) (map (cd_blob_json cd) bs) d = (Inr bs, d)"
    using Cons.prems by (intro Cons.IH) (auto simp: neq_Nil_conv)
  then show ?case using Cons.prems by (subst read_records.simps) (simp add: blob_codec_ok_def not_le)
qed

lemma collect_all: "visit_all collect_step rs acc d = (Inr (acc @ rs), d)"
  by (induction rs arbitrary: acc) (simp_all add: collect_step_def)

lemma encodeMember_Inr:
  assumes "encodeMember cd leaf d = ((Inr m, out), d')" and "leaf_at cd dir d leaf rs"
  shows "\<exists>blobs. coalesce [] (sort_key spool_key rs) = Inr blobs \<and> int (length rs) \<le> MaxPlacementsPerPartition \<and>
    int (length blobs) \<le> MaxBlobsPerPartition \<and> out = concat (map (blob_line cd) blobs) \<and>
    m = zero_member\<lparr>mb_prefix := sp_prefix leaf, mb_prefix_bits := int (sp_bits leaf), mb_placements := int (length rs),
      mb_blobs := int (length blobs), mb_declared := (\<Sum>b\<leftarrow>blobs. br_bytes b), mb_content := int (length out),
      mb_first := (if blobs = [] then [] else br_object (hd blobs)),
      mb_last := (if blobs = [] then [] else br_object (last blobs)), mb_digest := member_digest cd out\<rparr> \<and>
    (blobs \<noteq> [] \<longrightarrow> mb_declared m \<le> MaxPartitionBlobBytes \<and> mb_content m \<le> MaxMemberContentBytes) \<and> dk_files d' = dk_files d"
proof -
  obtain collected d1 where f: "forEachSpool cd (sp_path leaf) collect_step [] d = (Inr collected, d1)"
    using assms(1) by (auto simp: encodeMember_def split: prod.splits sum.splits)
  have at: "file_has cd d (sp_path leaf) rs" "\<forall>r \<in> set rs. good_record cd r"
    using assms(2) by (auto simp: leaf_at_def spool_at_def spool_ok_def)
  have collected: "collected = rs" "dk_files d1 = dk_files d" using forEachSpool_all [OF at f] by (auto simp: collect_all)
  obtain blobs where c: "coalesce [] (sort_key spool_key rs) = Inr blobs"
    using assms(1) f by (auto simp: encodeMember_def collected Let_def split: sum.splits)
  let ?m = "zero_member\<lparr>mb_prefix := sp_prefix leaf, mb_prefix_bits := int (sp_bits leaf),
     mb_placements := int (length rs), mb_blobs := int (length blobs)\<rparr>"
  have len: "int (length blobs) \<le> MaxBlobsPerPartition" "int (length rs) \<le> MaxPlacementsPerPartition"
    using assms(1) f c by (auto simp: encodeMember_def collected Let_def split: if_splits)
  obtain m1 where e: "encode_blobs cd True blobs ?m [] d1 = ((Inr m1, out), d')" "m = m1\<lparr>mb_digest := member_digest cd out\<rparr>"
    using assms(1) f c len by (auto simp: encodeMember_def collected Let_def split: prod.splits sum.splits)
  show ?thesis using encode_blobs_ok [OF e(1)] e(2) c len collected(2) by (auto simp: zero_member_def)
qed

text \<open>
  C36. Members round trip. Whatever \<open>encodeMember\<close> produces for a planned leaf of valid source records,
  \<open>readMember\<close> accepts against the manifest entry built from it, and returns blobs that hold exactly the
  leaf's records in canonical order: object identifiers strictly increasing, each object once, its
  placements strictly increasing. JSON is assumed to round trip on the blobs, and each blob's line has
  to fit the reader's line bound, which the encoder does not check.
\<close>

theorem member_roundtrip:
  assumes "encodeMember cd leaf d = ((Inr m, out), d1)" and "leaf_at cd dir d leaf rs"
    and "\<forall>r \<in> set rs. placement_ok n (placement_of r)"
    and "\<forall>blobs. coalesce [] (sort_key spool_key rs) = Inr blobs \<longrightarrow>
      (\<forall>b \<in> set blobs. blob_codec_ok cd b \<and> int (length (cd_blob_json cd b)) \<le> MaxRecordBytes)"
    and "healthy d2" and "dk_files d2 (filepath_Join [directory, name]) = Some out"
    and "0 \<le> ordinal" and "ordinal < memberCount"
  shows "\<exists>blobs. readMember cd None directory memberCount n
      (m\<lparr>mb_ordinal := ordinal, mb_count := memberCount, mb_name := name\<rparr>) d2 = (Inr blobs, d2) \<and>
    concat (map blob_parts blobs) = map rec_parts (sort_key spool_key rs) \<and> sorted_wrt (<) (map br_object blobs) \<and>
    (\<forall>b \<in> set blobs. sorted_wrt placement_before (br_placements b))"
proof -
  obtain blobs where c: "coalesce [] (sort_key spool_key rs) = Inr blobs" and len: "int (length rs) \<le> MaxPlacementsPerPartition"
    and out: "out = concat (map (blob_line cd) blobs)"
    and m: "m = zero_member\<lparr>mb_prefix := sp_prefix leaf, mb_prefix_bits := int (sp_bits leaf), mb_placements := int (length rs),
      mb_blobs := int (length blobs), mb_declared := (\<Sum>b\<leftarrow>blobs. br_bytes b), mb_content := int (length out),
      mb_first := (if blobs = [] then [] else br_object (hd blobs)),
      mb_last := (if blobs = [] then [] else br_object (last blobs)), mb_digest := member_digest cd out\<rparr>"
    using encodeMember_Inr [OF assms(1,2)] by blast
  note ok = coalesce_sorted [OF c]
  have at: "rs \<noteq> []" "\<forall>r \<in> set rs. good_record cd r" "length (sp_prefix leaf) = sp_bits leaf"
    "\<forall>r \<in> set rs. bitPrefix (rec_hash cd r) (sp_bits leaf) = sp_prefix leaf"
    using assms(2) by (auto simp: leaf_at_def spool_at_def leaf_fits_def)
  have codec: "\<forall>b \<in> set blobs. blob_codec_ok cd b \<and> int (length (cd_blob_json cd b)) \<le> MaxRecordBytes"
    using assms(4) c by blast
  have valid: "\<forall>r \<in> set rs. gitObjectAndHashValid cd r \<and> placement_ok n (placement_of r)"
    using at(2) assms(3) by (simp add: good_record_def)
  have each: "blob_codec_ok cd b \<and> int (length (cd_blob_json cd b)) \<le> MaxRecordBytes \<and>
      validateBlobRecord b n = None \<and> hashHasPrefix cd (br_object b) (sp_prefix leaf)" if b: "b \<in> set blobs" for b
  proof -
    obtain r where "r \<in> set rs" "br_object b = sr_object r" using joined_blobs_valid [OF c b valid len] by blast
    then have "hashHasPrefix cd (br_object b) (sp_prefix leaf)" using at(3,4) by (simp add: hashHasPrefix_def)
    then show ?thesis using codec b joined_blobs_valid [OF c b valid len] by blast
  qed
  have ne: "blobs \<noteq> []" using arg_cong [OF ok(2), of length] at(1) by auto
  have "IsObjectID (br_object (hd blobs))"
    using each [of "hd blobs"] ne by (auto simp: validateBlobRecord_def split: if_splits)
  then have "[] < br_object (hd blobs)" by (auto simp: Nil_less_iff IsObjectID_def)
  then have read: "read_records cd n (sp_prefix leaf) [] (map (cd_blob_json cd) blobs) d2 = (Inr blobs, d2)"
    using ok(1) each by (intro read_records_ok [OF assms(5)]) (simp_all add: blobs_ok_def)
  have "(\<Sum>b\<leftarrow>blobs. length (br_placements b)) = length rs"
    using arg_cong [OF ok(2), of length] unfolding placement_count by simp
  then have count: "(\<Sum>b\<leftarrow>blobs. int (length (br_placements b))) = int (length rs)"
    by (simp add: int_sum_list)
  have lines: "file_lines out = map (cd_blob_json cd) blobs" unfolding out using each by (intro file_lines_blobs) blast
  have "readMember cd None directory memberCount n (m\<lparr>mb_ordinal := ordinal, mb_count := memberCount, mb_name := name\<rparr>) d2 = (Inr blobs, d2)"
    using assms(5-8) read ne count unfolding readMember_def m by (simp add: lines)
  then show ?thesis using ok by (auto simp: blobs_ok_def)
qed

definition sample_leaf :: spool where
  "sample_leaf = \<lparr>sp_path = spool_name ''/spool'' ''root-'' (bitPrefix (sample_hash (sample_object CHR ''a'')) 4),
     sp_prefix = bitPrefix (sample_hash (sample_object CHR ''a'')) 4, sp_bits = 4, sp_placements = 1, sp_declared = 7, sp_content = 5\<rparr>"

definition sample_stage :: disk where
  "sample_stage = sample_disk\<lparr>dk_files := [sp_path sample_leaf \<mapsto> ''a.go'' @ [CHR 0x0A],
     ''/out/m'' \<mapsto> sample_object CHR ''a'' @ [CHR 0x0A]]\<rparr>"

lemma sample_leaf_at: "leaf_at sample_codec ''/spool'' sample_stage sample_leaf [sample_spool CHR ''a'' ''a.go'']"
proof -
  have "source_ok sample_codec 1 (sample_source CHR ''a'' ''a.go'')" "selected sample_policy (sample_source CHR ''a'' ''a.go'')"
    using sample_source_ok sample_selected by (auto simp: filter_eq_ConsD split: if_splits)
  then have good: "good_record sample_codec (sample_spool CHR ''a'' ''a.go'')"
    using source_good [of sample_codec 1 "sample_source CHR ''a'' ''a.go''" sample_policy]
    by (simp add: sample_spool_of) (simp add: sample_source_def spool_line_def sample_codec_def sample_spool_def)
  have path: "sp_path sample_leaf \<noteq> ''/out/m''"
  proof -
    obtain pre where pre: "\<forall>name. plain_component name \<and> CHR ''/'' \<notin> set name \<longrightarrow> filepath_Join [''/spool'', name] = pre @ name"
      using filepath_Join_pre by blast
    have "bin (sp_prefix sample_leaf)" by (simp add: sample_leaf_def bin_bitPrefix)
    then have name: "plain_component (''root-'' @ sp_prefix sample_leaf @ ''.jsonl'')"
      "CHR ''/'' \<notin> set (''root-'' @ sp_prefix sample_leaf @ ''.jsonl'')"
      by (auto simp: plain_component_def bin_def)
    have "sp_path sample_leaf = pre @ ''root-'' @ sp_prefix sample_leaf @ ''.jsonl''"
      using pre name by (simp only: sample_leaf_def spool_name_def spool.simps) blast
    then have "last (sp_path sample_leaf) = CHR ''l''" by simp
    then show ?thesis by auto
  qed
  show ?thesis
    using good path by (simp add: leaf_at_def spool_at_def spool_ok_def file_has_def leaf_fits_def sample_stage_def
      encode_records_def spool_line_def)
      (auto simp: sample_leaf_def sample_codec_def sample_spool_def bin_bitPrefix intro: exI [of _ "''root-''"])
qed

lemma sample_coalesced:
  "coalesce [] (sort_key spool_key [sample_spool CHR ''a'' ''a.go'']) = Inr [sample_blob CHR ''a'' ''a.go'']"
  by (simp add: add_record_def sample_blob_def sample_spool_def placement_of_def)

lemma sample_encoded:
  "\<exists>m d1. encodeMember sample_codec sample_leaf sample_stage = ((Inr m, sample_object CHR ''a'' @ [CHR 0x0A]), d1)"
proof -
  have h: "healthy sample_stage" by (simp add: healthy_def sample_stage_def sample_disk_def)
  have at: "file_has sample_codec sample_stage (sp_path sample_leaf) [sample_spool CHR ''a'' ''a.go'']"
    "\<forall>r \<in> set [sample_spool CHR ''a'' ''a.go'']. good_record sample_codec r"
    using sample_leaf_at by (auto simp: leaf_at_def spool_at_def spool_ok_def)
  have line: "blob_line sample_codec (sample_blob CHR ''a'' ''a.go'') = sample_object CHR ''a'' @ [CHR 0x0A]"
    "length (sample_object CHR ''a'') = 40" "br_bytes (sample_blob CHR ''a'' ''a.go'') = 7"
    by (simp_all add: blob_line_def sample_codec_def sample_blob_def sample_object_def)
  have f: "forEachSpool sample_codec (sp_path sample_leaf) collect_step [] sample_stage =
      (Inr [sample_spool CHR ''a'' ''a.go''], sample_stage)"
    using forEachSpool_healthy [OF h at(1) _ at(2), of collect_step "[]"] by (simp add: collect_step_def)
  show ?thesis
    unfolding encodeMember_def f prod.case sum.case Let_def sample_coalesced
    by (simp add: h line zero_member_def)
qed

theorem member_roundtrip_witness:
  "\<exists>m blobs d2. readMember sample_codec None ''/out'' 1 1 m sample_stage = (Inr blobs, d2) \<and>
     concat (map blob_parts blobs) = [rec_parts (sample_spool CHR ''a'' ''a.go'')]"
proof -
  obtain m d1 where e: "encodeMember sample_codec sample_leaf sample_stage = ((Inr m, sample_object CHR ''a'' @ [CHR 0x0A]), d1)"
    using sample_encoded by blast
  have p: "\<forall>r \<in> set [sample_spool CHR ''a'' ''a.go'']. placement_ok 1 (placement_of r)"
    by (simp add: placement_ok_def placement_of_def sample_spool_def regular_mode_def sample_paths)
  have c: "\<forall>blobs. coalesce [] (sort_key spool_key [sample_spool CHR ''a'' ''a.go'']) = Inr blobs \<longrightarrow>
      (\<forall>b \<in> set blobs. blob_codec_ok sample_codec b \<and> int (length (cd_blob_json sample_codec b)) \<le> MaxRecordBytes)"
    unfolding sample_coalesced
    by (simp add: blob_codec_ok_def sample_codec_def sample_blob_def strip_cr_def) (simp add: sample_object_def)
  have "healthy sample_stage" "dk_files sample_stage (filepath_Join [''/out'', ''m'']) = Some (sample_object CHR ''a'' @ [CHR 0x0A])"
    by (simp_all add: healthy_def sample_stage_def sample_disk_def filepath_Join_def path_Clean_def path_IsAbs_def HasPrefix_def
        clean_step_def)
  from member_roundtrip [OF e sample_leaf_at p c this, of 0 1] show ?thesis by auto
qed

end
