(* ===== verification/Source_Manifest.thy ===== *)
theory Source_Manifest
  imports Source_Member
begin

text \<open>
  Manifests of source generations: \<open>ValidateManifest\<close> of \<open>internal/sourcepartition/validate.go\<close>.
\<close>

section \<open>Validation\<close>

definition gitObjectRange :: "member \<Rightarrow> bool" where
  "gitObjectRange m \<longleftrightarrow> IsObjectID (mb_first m) \<and> IsObjectID (mb_last m) \<and> mb_last m \<ge> mb_first m"

definition member_invalid :: "codec \<Rightarrow> manifest \<Rightarrow> int \<Rightarrow> int \<Rightarrow> gostring \<Rightarrow> member \<Rightarrow> bool" where
  "member_invalid cd mf memberCount ordinal previous m \<longleftrightarrow>
     mb_ordinal m \<noteq> ordinal \<or> mb_count m \<noteq> memberCount \<or>
     mb_name m \<noteq> memberName cd (mf_repository mf) (mf_generation mf) ordinal \<or>
     \<not> safeBaseName (mb_name m) \<or> mb_prefix_bits m \<noteq> int (length (mb_prefix m)) \<or>
     mb_prefix_bits m < int InitialPrefixBits \<or> mb_prefix_bits m > 256 \<or>
     \<not> binaryPrefix (mb_prefix m) \<or> mb_blobs m < 1 \<or> mb_blobs m > MaxBlobsPerPartition \<or>
     mb_placements m < mb_blobs m \<or> mb_placements m > MaxPlacementsPerPartition \<or>
     mb_declared m < 0 \<or> mb_declared m > MaxPartitionBlobBytes \<or>
     mb_content m < 1 \<or> mb_content m > MaxMemberContentBytes \<or>
     \<not> validDigest (mb_digest m) \<or> \<not> gitObjectRange m \<or>
     ordinal > 0 \<and> (mb_prefix m \<le> previous \<or> HasPrefix (mb_prefix m) previous)"

fun members_check :: "codec \<Rightarrow> manifest \<Rightarrow> int \<Rightarrow> int \<Rightarrow> gostring \<Rightarrow> member list \<Rightarrow> bool" where
  "members_check cd mf memberCount ordinal previous [] \<longleftrightarrow> True"
| "members_check cd mf memberCount ordinal previous (m # ms) \<longleftrightarrow>
     \<not> member_invalid cd mf memberCount ordinal previous m \<and> members_check cd mf memberCount (ordinal + 1) (mb_prefix m) ms"

definition manifest_head_invalid :: "manifest \<Rightarrow> bool" where
  "manifest_head_invalid mf \<longleftrightarrow>
     mf_schema mf \<noteq> ManifestSchema \<or> reponame_Validate (mf_repository mf) \<noteq> (None :: perr option) \<or>
     \<not> validDigest (mf_source mf) \<or> mf_revisions mf < 1 \<or> mf_revisions mf > 8 \<or> \<not> validDigest (mf_policy_digest mf) \<or>
     \<not> validDigest (mf_generation mf) \<or> \<not> validDigest (mf_digest mf) \<or>
     (case mf_members mf of None \<Rightarrow> True | Some ms \<Rightarrow> int (length ms) > MaxPartitions) \<or>
     mf_blobs mf < 0 \<or> mf_placements mf < mf_blobs mf \<or>
     mf_declared mf < 0 \<or> mf_declared mf > MaxGenerationBlobBytes \<or>
     mf_encoded mf < 0 \<or> mf_encoded mf > MaxGenerationContentBytes"

definition ValidateManifest :: "codec \<Rightarrow> manifest \<Rightarrow> perr option" where
  "ValidateManifest cd mf =
     (if manifest_head_invalid mf then Some (invalidf ''manifest identity or totals are invalid'')
      else case ValidatePolicy (mf_policy mf) of
        Some e \<Rightarrow> Some e
      | None \<Rightarrow>
          let ms = (case mf_members mf of None \<Rightarrow> [] | Some ms \<Rightarrow> ms)
          in if PolicyDigest cd (mf_policy mf) \<noteq> Inr (mf_policy_digest mf) \<or> mf_partition_policy mf \<noteq> frozenPolicy
          then Some (invalidf ''manifest policy binding is invalid'')
          else if GenerationDigest cd (mf_repository mf) (mf_source mf) (mf_policy_digest mf) \<noteq> Inr (mf_generation mf)
          then Some (invalidf ''manifest generation binding is invalid'')
          else if (mf_blobs mf = 0) \<noteq> (ms = []) \<or> (mf_blobs mf = 0) \<noteq> (mf_placements mf = 0) \<or>
                  (mf_blobs mf = 0) \<noteq> (mf_declared mf = 0) \<or> (mf_blobs mf = 0) \<noteq> (mf_encoded mf = 0)
          then Some (invalidf ''empty manifest shape is inconsistent'')
          else if \<not> members_check cd mf (int (length ms)) 0 [] ms
          then Some (invalidf ''manifest member is invalid or overlaps another prefix'')
          else if (\<Sum>m\<leftarrow>ms. mb_blobs m) \<noteq> mf_blobs mf \<or> (\<Sum>m\<leftarrow>ms. mb_placements m) \<noteq> mf_placements mf \<or>
                  (\<Sum>m\<leftarrow>ms. mb_declared m) \<noteq> mf_declared mf \<or> (\<Sum>m\<leftarrow>ms. mb_content m) \<noteq> mf_encoded mf
          then Some (invalidf ''manifest member totals are inconsistent'')
          else if ManifestDigest cd mf \<noteq> mf_digest mf then Some (invalidf ''manifest digest mismatch'')
          else None)"

section \<open>What a valid manifest says\<close>

lemma between_prefix:
  assumes "prefix p r" "p \<le> q" "q \<le> r" shows "prefix p (q :: 'a::linorder list)"
  using assms
proof (induction p arbitrary: q r)
  case (Cons x p)
  obtain r' where r: "r = x # r'" "prefix p r'" using Cons.prems(1) by (cases r) auto
  obtain y q' where q: "q = y # q'" using Cons.prems(2) by (cases q) auto
  have "x = y" "p \<le> q'" "q' \<le> r'" using Cons.prems(2,3) r q by (auto simp: less_le_not_le)
  with Cons.IH [OF r(2)] r q show ?case by simp
qed simp

lemma disjoint_before_trans:
  assumes "disjoint_before p q" "disjoint_before q r" shows "disjoint_before p r"
proof -
  have "p < r" "p \<le> q" "q \<le> r" using assms by (auto simp: disjoint_before_def)
  then show ?thesis using assms between_prefix [of p r q] by (auto simp: disjoint_before_def)
qed

lemma members_check_ordered:
  assumes "members_check cd mf memberCount ordinal previous ms" and "0 < ordinal"
  shows "sorted_wrt disjoint_before (previous # map mb_prefix ms)"
  using assms
proof (induction ms arbitrary: ordinal previous)
  case (Cons m ms)
  have b: "disjoint_before previous (mb_prefix m)"
    using Cons.prems by (auto simp: member_invalid_def disjoint_before_def HasPrefix_iff not_le)
  have s: "sorted_wrt disjoint_before (mb_prefix m # map mb_prefix ms)"
    using Cons.prems by (intro Cons.IH [of "ordinal + 1"]) auto
  then have "\<forall>q \<in> set (map mb_prefix ms). disjoint_before previous q"
    using b disjoint_before_trans by auto
  with b s show ?case by simp
qed simp

lemma members_check_sorted:
  assumes "members_check cd mf memberCount 0 previous ms"
  shows "sorted_wrt disjoint_before (map mb_prefix ms)"
proof (cases ms)
  case (Cons m ms')
  then show ?thesis using assms members_check_ordered [of cd mf memberCount 1 "mb_prefix m" ms'] by simp
qed simp

lemma members_check_all: "members_check cd mf memberCount ordinal previous ms \<Longrightarrow> i < length ms \<Longrightarrow>
    \<exists>previous. \<not> member_invalid cd mf memberCount (ordinal + int i) previous (ms ! i)"
proof (induction ms arbitrary: ordinal previous i)
  case (Cons m ms)
  show ?case
  proof (cases i)
    case 0
    then show ?thesis using Cons.prems by auto
  next
    case (Suc j)
    then show ?thesis using Cons.IH [of "ordinal + 1" "mb_prefix m" j] Cons.prems by (simp add: algebra_simps)
  qed
qed simp

lemma prefix_le: "prefix q p \<Longrightarrow> q \<le> (p :: 'a::linorder list)"
proof (induction q arbitrary: p)
  case (Cons x q)
  then show ?case by (cases p) auto
qed simp

text \<open>Prefixes of one hash are comparable, so two of them never lie in disjoint order.\<close>

lemma prefix_of_hash:
  assumes "hashHasPrefix cd object p" "hashHasPrefix cd object q" shows "\<not> disjoint_before p q"
proof -
  let ?h = "bitPrefix (cd_blob_hash cd object) (max (length p) (length q))"
  have "take (length p) ?h = p" "take (length q) ?h = q"
    using assms by (simp_all add: hashHasPrefix_def bitPrefix_take)
  then have "prefix p ?h" "prefix q ?h" using take_is_prefix [of _ ?h] by metis+
  then have "prefix p q \<or> prefix q p" by (rule prefix_same_cases)
  then show ?thesis using prefix_le [of q p] by (auto simp: disjoint_before_def)
qed

lemma prefix_unique:
  assumes sorted: "sorted_wrt disjoint_before (map mb_prefix ms)" and "i < length ms" "j < length ms"
    and "hashHasPrefix cd object (mb_prefix (ms ! i))" "hashHasPrefix cd object (mb_prefix (ms ! j))"
  shows "i = j"
proof (rule ccontr)
  assume "i \<noteq> j"
  then consider "i < j" | "j < i" by linarith
  then show False
    by cases (use sorted_wrt_nth_less [OF sorted] prefix_of_hash assms(2-5) in fastforce)+
qed

lemma ValidateManifest_None:
  assumes "ValidateManifest cd mf = None"
  shows "\<exists>ms. mf_members mf = Some ms \<and> members_check cd mf (int (length ms)) 0 [] ms \<and> int (length ms) \<le> MaxPartitions \<and>
    (\<Sum>m\<leftarrow>ms. mb_blobs m) = mf_blobs mf \<and> (\<Sum>m\<leftarrow>ms. mb_placements m) = mf_placements mf \<and>
    (\<Sum>m\<leftarrow>ms. mb_declared m) = mf_declared mf \<and> (\<Sum>m\<leftarrow>ms. mb_content m) = mf_encoded mf \<and>
    \<not> manifest_head_invalid mf \<and> (mf_blobs mf = 0 \<longleftrightarrow> mf_declared mf = 0)"
proof -
  have h: "\<not> manifest_head_invalid mf" using assms by (auto simp: ValidateManifest_def)
  then obtain ms where ms: "mf_members mf = Some ms" by (auto simp: manifest_head_invalid_def split: option.splits)
  then show ?thesis
    using assms h by (auto simp: ValidateManifest_def Let_def manifest_head_invalid_def split: if_splits option.splits)
qed

text \<open>
  C37. A valid manifest is a partition. When \<open>ValidateManifest\<close> accepts, the members' prefixes are
  strictly increasing and pairwise disjoint (the code compares neighbours only), every member is within
  the partition bounds, the manifest's totals (blobs, placements, declared and encoded bytes) are exactly the sums over its members
  and the bytes stay within the generation bounds, and an object's hash has the prefix of at most one member: a reader that looks an
  object up by its hash prefix finds it in one member or nowhere.
\<close>

theorem manifest_partition:
  assumes "ValidateManifest cd mf = None" and "mf_members mf = Some ms"
  shows "sorted_wrt disjoint_before (map mb_prefix ms) \<and>
    (\<forall>i < length ms. \<forall>j < length ms. hashHasPrefix cd object (mb_prefix (ms ! i)) \<longrightarrow>
       hashHasPrefix cd object (mb_prefix (ms ! j)) \<longrightarrow> i = j) \<and>
    (\<forall>m \<in> set ms. 1 \<le> mb_blobs m \<and> mb_blobs m \<le> mb_placements m \<and> mb_placements m \<le> MaxPlacementsPerPartition \<and>
       0 \<le> mb_declared m \<and> mb_declared m \<le> MaxPartitionBlobBytes \<and> mb_content m \<le> MaxMemberContentBytes) \<and>
    mf_blobs mf = (\<Sum>m\<leftarrow>ms. mb_blobs m) \<and> mf_placements mf = (\<Sum>m\<leftarrow>ms. mb_placements m) \<and>
    mf_declared mf = (\<Sum>m\<leftarrow>ms. mb_declared m) \<and> mf_declared mf \<le> MaxGenerationBlobBytes \<and> mf_encoded mf = (\<Sum>m\<leftarrow>ms. mb_content m) \<and>
    mf_encoded mf \<le> MaxGenerationContentBytes"
proof -
  have c: "members_check cd mf (int (length ms)) 0 [] ms" and head: "\<not> manifest_head_invalid mf"
    and sums: "mf_blobs mf = (\<Sum>m\<leftarrow>ms. mb_blobs m)" "mf_placements mf = (\<Sum>m\<leftarrow>ms. mb_placements m)" "mf_declared mf = (\<Sum>m\<leftarrow>ms. mb_declared m)"
      "mf_encoded mf = (\<Sum>m\<leftarrow>ms. mb_content m)"
    using ValidateManifest_None [OF assms(1)] assms(2) by auto
  note sorted = members_check_sorted [OF c]
  have "1 \<le> mb_blobs m \<and> mb_blobs m \<le> mb_placements m \<and> mb_placements m \<le> MaxPlacementsPerPartition \<and>
       0 \<le> mb_declared m \<and> mb_declared m \<le> MaxPartitionBlobBytes \<and> mb_content m \<le> MaxMemberContentBytes" if mem: "m \<in> set ms" for m
  proof -
    obtain i where "i < length ms" "m = ms ! i" using mem by (auto simp: in_set_conv_nth)
    then obtain previous where "\<not> member_invalid cd mf (int (length ms)) (0 + int i) previous m"
      using members_check_all [OF c] by blast
    then show ?thesis by (auto simp: member_invalid_def)
  qed
  moreover have "mf_declared mf \<le> MaxGenerationBlobBytes" "mf_encoded mf \<le> MaxGenerationContentBytes"
    using head by (auto simp: manifest_head_invalid_def)
  ultimately show ?thesis using sorted prefix_unique [OF sorted] sums by blast
qed

end
