(* ===== verification/Source_Build.thy ===== *)
theory Source_Build
  imports Source_Manifest
begin

text \<open>
  The part of \<open>Build\<close> in \<open>internal/sourcepartition/plan.go\<close> that turns the planned leaves into members and a
  manifest, and what \<open>ValidateManifest\<close> says of the result.
\<close>

section \<open>Building\<close>

record build_request =
  rq_output :: gostring
  rq_repository :: gostring
  rq_source :: gostring
  rq_revisions :: int
  rq_policy :: policy

text \<open>The loop of \<open>Build\<close> over the planned leaves: each becomes a member file, its totals go into the
  manifest, and its spool is removed.\<close>

definition account_member :: "manifest \<Rightarrow> member \<Rightarrow> perr + manifest" where
  "account_member mf m =
     (let mf1 = mf\<lparr>mf_blobs := mf_blobs mf + mb_blobs m, mf_placements := mf_placements mf + mb_placements m\<rparr>
      in if mb_declared m > MaxGenerationBlobBytes - mf_declared mf
         then Inl (plan_limit DimensionGenerationBlobBytes (mf_declared mf + mb_declared m) MaxGenerationBlobBytes
                ''generation declared bytes exceed their bound'')
         else if mb_content m > MaxGenerationContentBytes - mf_encoded mf
         then Inl (plan_limit DimensionGenerationEncodedBytes (mf_encoded mf + mb_content m) MaxGenerationContentBytes
                ''generation encoded bytes exceed their bound'')
         else Inr (mf1\<lparr>mf_declared := mf_declared mf + mb_declared m, mf_encoded := mf_encoded mf + mb_content m\<rparr>))"

fun build_members ::
  "codec \<Rightarrow> build_request \<Rightarrow> gostring \<Rightarrow> int \<Rightarrow> int \<Rightarrow> spool list \<Rightarrow> member list \<Rightarrow> manifest \<Rightarrow> disk \<Rightarrow>
   (perr + member list \<times> manifest) \<times> disk" where
  "build_members cd rq generation memberCount ordinal [] ms mf d = (Inr (ms, mf), d)"
| "build_members cd rq generation memberCount ordinal (leaf # leaves) ms mf d =
     (case writeMember cd (rq_output rq) (rq_repository rq) generation memberCount ordinal leaf d of
        (Inl e, d1) \<Rightarrow> (Inl e, d1)
      | (Inr m, d1) \<Rightarrow>
          (case account_member mf m of
             Inl e \<Rightarrow> (Inl e, d1)
           | Inr mf1 \<Rightarrow>
               let mt = dk_metrics d1;
                   d2 = d1\<lparr>dk_metrics := mt\<lparr>mt_blobs := mt_blobs mt + mb_blobs m, mt_blob_bytes := mt_blob_bytes mt + mb_declared m\<rparr>\<rparr>
               in (case removeSpool leaf d2 of
                     (Some e, d3) \<Rightarrow> (Inl e, d3)
                   | (None, d3) \<Rightarrow> build_members cd rq generation memberCount (ordinal + 1) leaves (ms @ [m]) mf1 d3)))"

definition empty_manifest :: "build_request \<Rightarrow> gostring \<Rightarrow> gostring \<Rightarrow> manifest" where
  "empty_manifest rq policyDigest generation = \<lparr>mf_schema = ManifestSchema, mf_repository = rq_repository rq,
     mf_source = rq_source rq, mf_revisions = rq_revisions rq, mf_policy = rq_policy rq, mf_policy_digest = policyDigest,
     mf_partition_policy = frozenPolicy, mf_generation = generation, mf_members = Some [], mf_blobs = 0,
     mf_placements = 0, mf_declared = 0, mf_encoded = 0, mf_digest = []\<rparr>"

text \<open>\<open>Build\<close> from the policy check to the sealed manifest, after the request's directories and source
  generation have been checked; the spool directory is the one \<open>MkdirTemp\<close> made.\<close>

definition build_manifest ::
  "codec \<Rightarrow> build_request \<Rightarrow> gostring \<Rightarrow> (nat \<times> perr) option \<Rightarrow> source_record list \<Rightarrow> disk \<Rightarrow> (perr + manifest) \<times> disk" where
  "build_manifest cd rq spoolDirectory fault source d =
     (case PolicyDigest cd (rq_policy rq) of
        Inl e \<Rightarrow> (Inl e, d)
      | Inr policyDigest \<Rightarrow>
          (case GenerationDigest cd (rq_repository rq) (rq_source rq) policyDigest of
             Inl e \<Rightarrow> (Inl e, d)
           | Inr generation \<Rightarrow>
               (case planLeaves cd (rq_policy rq) spoolDirectory fault source d of
                  (Inl e, d1) \<Rightarrow> (Inl e, d1)
                | (Inr leaves, d1) \<Rightarrow>
                    (case build_members cd rq generation (int (length leaves)) 0 leaves [] (empty_manifest rq policyDigest generation) d1 of
                       (Inl e, d2) \<Rightarrow> (Inl e, d2)
                     | (Inr (ms, mf), d2) \<Rightarrow>
                         let mf1 = mf\<lparr>mf_members := Some ms\<rparr>
                         in (Inr (mf1\<lparr>mf_digest := ManifestDigest cd mf1\<rparr>), d2)))))"

section \<open>Names\<close>

lemma char_of_plain: "n < 256 \<Longrightarrow> n \<noteq> 47 \<Longrightarrow> char_of (n :: nat) \<noteq> CHR ''/''"
proof
  assume n: "n < 256" "n \<noteq> 47" and "char_of n = CHR ''/''"
  then have "of_char (char_of n :: char) = (of_char CHR ''/'' :: nat)" by simp
  then show False using n by simp
qed

lemma hex_digit_plain: "n < 16 \<Longrightarrow> hex_digit n \<noteq> CHR ''/''"
  unfolding hex_digit_def by (rule char_of_plain) auto

lemma hex_encode_plain: "CHR ''/'' \<notin> set (hex_encode ws)"
proof (induction ws)
  case (Cons w ws)
  have "unat w < 256" using unsigned_less [of w, where ?'a = nat] by simp
  then have "unat w div 16 < 16" "unat w mod 16 < 16" by auto
  then have "hex_digit (unat w div 16) \<noteq> CHR ''/''" "hex_digit (unat w mod 16) \<noteq> CHR ''/''"
    by (simp_all add: hex_digit_plain)
  with Cons show ?case by auto
qed simp

lemma digit_plain: "(n :: nat) < 10 \<Longrightarrow> char_of (48 + n) \<noteq> CHR ''/''"
  by (rule char_of_plain) auto

lemma decimal_nat_plain: "CHR ''/'' \<notin> set (decimal_nat n)"
proof (induction n rule: decimal_nat.induct)
  case (1 n)
  have "char_of (48 + n mod 10) \<noteq> CHR ''/''" by (rule digit_plain) simp
  with 1 digit_plain [of n] show ?case by (subst decimal_nat.simps) auto
qed

lemma memberName_plain:
  assumes "CHR ''/'' \<notin> set generation"
  shows "CHR ''/'' \<notin> set (memberName cd repository generation ordinal) \<and> plain_component (memberName cd repository generation ordinal)"
proof -
  have "CHR ''/'' \<notin> set (take 16 (hex_encode (cd_sha cd repository)))" "CHR ''/'' \<notin> set (take 16 (TrimPrefix generation ''sha256:''))"
    using assms hex_encode_plain [of "cd_sha cd repository"] by (auto simp: TrimPrefix_def dest: in_set_takeD in_set_dropD)
  moreover have "CHR ''/'' \<notin> set (pad5 ordinal)"
    using decimal_nat_plain by (auto simp: pad5_def decimal_def Let_def)
  ultimately show ?thesis by (simp add: memberName_def plain_component_def)
qed

lemma safeBaseName_plain:
  assumes "CHR ''/'' \<notin> set name" "plain_component name" shows "safeBaseName name"
proof -
  have "dropWhile (\<lambda>c. c = CHR ''/'') (rev name) = rev name"
    using assms(1) by (cases name rule: rev_cases) auto
  then show ?thesis using assms by (simp add: safeBaseName_def filepath_Base_def plain_component_def Split_free)
qed

lemma digest_plain: "CHR ''/'' \<notin> set (digest cd domain raw)"
  using hex_encode_plain by (simp add: digest_def)

lemma validDigest_digest: "length (cd_sha cd (domain @ raw)) = 32 \<Longrightarrow> validDigest (digest cd domain raw)"
  by (simp add: validDigest_def digest_def length_hex_encode HasPrefix_iff)

lemma member_path_apart:
  assumes "CHR ''/'' \<notin> set generation" and "spool_kind k" "bin q"
  shows "filepath_Join [directory, memberName cd repository generation ordinal] \<noteq> spool_name dir k q"
proof
  assume eq: "filepath_Join [directory, memberName cd repository generation ordinal] = spool_name dir k q"
  have "plain_component (k @ q @ ''.jsonl'')" "CHR ''/'' \<notin> set (k @ q @ ''.jsonl'')"
    using assms(2,3) by (auto simp: spool_kind_def bin_def plain_component_def)
  from filepath_Join_inject [OF _ _ this eq [unfolded spool_name_def]] memberName_plain [OF assms(1)]
  have "memberName cd repository generation ordinal = k @ q @ ''.jsonl''" by blast
  then show False using assms(2) by (auto simp: memberName_def spool_kind_def)
qed

section \<open>One member\<close>

text \<open>What the manifest validation needs of a written member, and how its declared bytes relate to the
  records of its leaf.\<close>

definition member_fits :: "spool \<Rightarrow> spool_record list \<Rightarrow> member \<Rightarrow> bool" where
  "member_fits leaf rs m \<longleftrightarrow> mb_prefix m = sp_prefix leaf \<and> mb_prefix_bits m = int (sp_bits leaf) \<and>
     1 \<le> mb_blobs m \<and> mb_blobs m \<le> MaxBlobsPerPartition \<and> mb_blobs m \<le> mb_placements m \<and>
     mb_placements m \<le> MaxPlacementsPerPartition \<and> 0 \<le> mb_declared m \<and> mb_declared m \<le> MaxPartitionBlobBytes \<and>
     1 \<le> mb_content m \<and> mb_content m \<le> MaxMemberContentBytes \<and> validDigest (mb_digest m) \<and> gitObjectRange m \<and>
     (mb_declared m = 0 \<longleftrightarrow> (\<forall>r \<in> set rs. sr_bytes r = 0))"

lemma joined_sources:
  assumes "coalesce [] (sort_key spool_key rs) = Inr blobs"
  shows "(\<lambda>b. (br_object b, br_bytes b)) ` set blobs = (\<lambda>r. (sr_object r, sr_bytes r)) ` set rs"
proof -
  note ok = coalesce_sorted [OF assms]
  let ?f = "\<lambda>(x, y, p :: placement). (x, y)"
  have "?f ` set (concat (map blob_parts blobs)) = (\<lambda>b. (br_object b, br_bytes b)) ` set blobs"
  proof -
    have "?f ` set (blob_parts b) = {(br_object b, br_bytes b)}" if "b \<in> set blobs" for b
      using ok(1) that by (simp add: blobs_ok_def blob_parts_def image_image image_constant_conv)
    then show ?thesis by (auto simp: image_UN)
  qed
  moreover have "?f ` set (concat (map blob_parts blobs)) = (\<lambda>r. (sr_object r, sr_bytes r)) ` set rs"
    unfolding ok(2) by (simp add: image_image rec_parts_def)
  ultimately show ?thesis by simp
qed

lemma length_blobs_placements: "blobs_ok blobs \<Longrightarrow> length blobs \<le> (\<Sum>b\<leftarrow>blobs. length (br_placements b))"
proof (induction blobs)
  case (Cons b blobs)
  then have "1 \<le> length (br_placements b)" "blobs_ok blobs" by (auto simp: blobs_ok_def Suc_le_eq)
  with Cons.IH show ?case by simp
qed simp

lemma encodeMember_fits:
  assumes "encodeMember cd leaf d = ((Inr m, out), d')" and "leaf_at cd dir d leaf rs"
    and sha: "\<forall>x. length (cd_sha cd x) = 32"
  shows "member_fits leaf rs m \<and> dk_files d' = dk_files d"
proof -
  obtain blobs where c: "coalesce [] (sort_key spool_key rs) = Inr blobs" and len: "int (length rs) \<le> MaxPlacementsPerPartition"
      "int (length blobs) \<le> MaxBlobsPerPartition" and out: "out = concat (map (blob_line cd) blobs)"
    and m: "m = zero_member\<lparr>mb_prefix := sp_prefix leaf, mb_prefix_bits := int (sp_bits leaf), mb_placements := int (length rs),
      mb_blobs := int (length blobs), mb_declared := (\<Sum>b\<leftarrow>blobs. br_bytes b), mb_content := int (length out),
      mb_first := (if blobs = [] then [] else br_object (hd blobs)),
      mb_last := (if blobs = [] then [] else br_object (last blobs)), mb_digest := member_digest cd out\<rparr>"
    and bounds: "blobs \<noteq> [] \<longrightarrow> mb_declared m \<le> MaxPartitionBlobBytes \<and> mb_content m \<le> MaxMemberContentBytes"
    and files: "dk_files d' = dk_files d"
    using encodeMember_Inr [OF assms(1,2)] by blast
  note ok = coalesce_sorted [OF c] and src = joined_sources [OF c]
  have rs: "rs \<noteq> []" "\<forall>r \<in> set rs. IsObjectID (sr_object r) \<and> 0 \<le> sr_bytes r"
    using assms(2) by (auto simp: leaf_at_def spool_at_def leaf_fits_def good_record_def gitObjectAndHashValid_def)
  have ne: "blobs \<noteq> []" using src rs(1) by auto
  have blob: "IsObjectID (br_object b) \<and> 0 \<le> br_bytes b" if mem: "b \<in> set blobs" for b
  proof -
    have "(br_object b, br_bytes b) \<in> (\<lambda>r. (sr_object r, sr_bytes r)) ` set rs" using mem unfolding src [symmetric] by blast
    then show ?thesis using rs(2) by auto
  qed
  have "0 \<le> (\<Sum>b\<leftarrow>blobs. br_bytes b)" using blob by (intro sum_list_nonneg) auto
  have "(\<Sum>b\<leftarrow>blobs. br_bytes b) = 0 \<longleftrightarrow> (\<forall>b \<in> set blobs. br_bytes b = 0)"
    using blob by (intro trans [OF sum_list_nonneg_eq_0_iff]) auto
  also have "\<dots> \<longleftrightarrow> (\<forall>r \<in> set rs. sr_bytes r = 0)"
  proof -
    have "br_bytes ` set blobs = sr_bytes ` set rs" using arg_cong [OF src, of "image snd"] by (simp add: image_image)
    then show ?thesis by (metis (no_types, lifting) image_iff)
  qed
  finally have zero: "(\<Sum>b\<leftarrow>blobs. br_bytes b) = 0 \<longleftrightarrow> (\<forall>r \<in> set rs. sr_bytes r = 0)" .
  have content: "1 \<le> int (length out)" using ne unfolding out by (cases blobs) (auto simp: blob_line_def)
  have "length blobs \<le> length rs"
    using length_blobs_placements [OF ok(1)] arg_cong [OF ok(2), of length] unfolding placement_count by simp
  moreover have "br_object (hd blobs) \<le> br_object (last blobs)"
    using ok(1) ne by (cases blobs) (auto simp: blobs_ok_def order_less_imp_le)
  moreover have "validDigest (member_digest cd out)" unfolding member_digest_def by (intro validDigest_digest) (simp add: sha)
  moreover have "1 \<le> int (length blobs)" using ne by (cases blobs) auto
  ultimately show ?thesis
    using bounds ne blob zero content len \<open>0 \<le> (\<Sum>b\<leftarrow>blobs. br_bytes b)\<close> files
    unfolding m member_fits_def gitObjectRange_def by simp
qed

section \<open>All members\<close>

lemma writeMember_fits:
  assumes "writeMember cd directory repository generation n ordinal leaf d = (Inr m, d')"
    and "leaf_at cd dir d leaf rs" and "CHR ''/'' \<notin> set generation" and sha: "\<forall>x. length (cd_sha cd x) = 32"
  shows "member_fits leaf rs m \<and> mb_ordinal m = ordinal \<and> mb_count m = n \<and> mb_name m = memberName cd repository generation ordinal \<and>
    (\<forall>k q. spool_kind k \<and> bin q \<longrightarrow> dk_files d' (spool_name dir k q) = dk_files d (spool_name dir k q))"
proof -
  let ?path = "filepath_Join [directory, memberName cd repository generation ordinal]"
  let ?d1 = "(snd (next_io d))\<lparr>dk_files := (dk_files d)(?path \<mapsto> [])\<rparr>"
  obtain m0 where w: "writeMemberAt cd ?path leaf d = (Inr m0, d')"
    and m: "m = m0\<lparr>mb_ordinal := ordinal, mb_count := n, mb_name := memberName cd repository generation ordinal\<rparr>"
    using assms(1) by (auto simp: writeMember_def Let_def split: prod.splits sum.splits)
  have "\<exists>out d2. encodeMember cd leaf ?d1 = ((Inr m0, out), d2) \<and> dk_files d' = (dk_files d2)(?path \<mapsto> out)"
  proof (cases "encodeMember cd leaf ?d1")
    case (Pair ro d2)
    let ?d3 = "d2\<lparr>dk_files := (dk_files d2)(?path \<mapsto> snd ro)\<rparr>"
    have files: "dk_files (snd (next_io (snd (next_io ?d3)))) = dk_files ?d3" by simp
    show ?thesis
      using w Pair files
      by (cases "next_io d"; cases "fst (next_io d)"; cases ro; cases "fst ro"; cases "next_io ?d3"; cases "fst (next_io ?d3)";
          cases "next_io (snd (next_io ?d3))"; cases "fst (next_io (snd (next_io ?d3)))")
        (use next_io_state(1) [of d] in \<open>simp_all add: writeMemberAt_def Let_def split: if_splits\<close>)
  qed
  then obtain out d2 where e: "encodeMember cd leaf ?d1 = ((Inr m0, out), d2)" and d': "dk_files d' = (dk_files d2)(?path \<mapsto> out)"
    by blast
  note apart = member_path_apart [OF assms(3), of _ _ directory cd repository ordinal dir]
  have "dk_files ?d1 (sp_path leaf) = dk_files d (sp_path leaf)"
    using assms(2) apart by (auto simp: leaf_at_def spool_at_def)
  then have "leaf_at cd dir ?d1 leaf rs" using assms(2) spool_at_cong [of ?d1 leaf d cd dir rs] by (simp add: leaf_at_def)
  from encodeMember_fits [OF e this sha] have "member_fits leaf rs m0" "dk_files d2 = dk_files ?d1" by auto
  moreover have "dk_files d' (spool_name dir k q) = dk_files d (spool_name dir k q)" if "spool_kind k" "bin q" for k q
    using apart [OF that] d' calculation(2) by simp
  ultimately show ?thesis by (simp add: m member_fits_def gitObjectRange_def)
qed

fun members_from :: "codec \<Rightarrow> build_request \<Rightarrow> gostring \<Rightarrow> int \<Rightarrow> int \<Rightarrow> spool list \<Rightarrow> spool_record list list \<Rightarrow> member list \<Rightarrow> bool" where
  "members_from cd rq generation n ordinal [] [] [] \<longleftrightarrow> True"
| "members_from cd rq generation n ordinal (l # ls) (rs # rss) (m # ms) \<longleftrightarrow>
     member_fits l rs m \<and> mb_ordinal m = ordinal \<and> mb_count m = n \<and>
     mb_name m = memberName cd (rq_repository rq) generation ordinal \<and> members_from cd rq generation n (ordinal + 1) ls rss ms"
| "members_from cd rq generation n ordinal _ _ _ \<longleftrightarrow> False"

definition with_totals :: "manifest \<Rightarrow> member list \<Rightarrow> manifest" where
  "with_totals mf ms = mf\<lparr>mf_blobs := mf_blobs mf + (\<Sum>m\<leftarrow>ms. mb_blobs m), mf_placements := mf_placements mf + (\<Sum>m\<leftarrow>ms. mb_placements m),
     mf_declared := mf_declared mf + (\<Sum>m\<leftarrow>ms. mb_declared m), mf_encoded := mf_encoded mf + (\<Sum>m\<leftarrow>ms. mb_content m)\<rparr>"

lemma account_member_Inr:
  "account_member mf m = Inr mf' \<Longrightarrow> mf' = with_totals mf [m] \<and> mf_declared mf' \<le> MaxGenerationBlobBytes \<and> mf_encoded mf' \<le> MaxGenerationContentBytes"
  by (auto simp: account_member_def Let_def with_totals_def split: if_splits)

lemma with_totals_Cons: "with_totals (with_totals mf [m]) ms = with_totals mf (m # ms)"
  by (simp add: with_totals_def)

lemma build_members_ok:
  assumes "build_members cd rq generation n ordinal leaves ms mf d = (Inr (ms', mf'), d')"
    and "list_all2 (leaf_at cd dir d) leaves rss" and "sorted_wrt disjoint_before (map sp_prefix leaves)"
    and "CHR ''/'' \<notin> set generation" and sha: "\<forall>x. length (cd_sha cd x) = 32"
    and "mf_declared mf \<le> MaxGenerationBlobBytes" and "mf_encoded mf \<le> MaxGenerationContentBytes"
  shows "\<exists>new. ms' = ms @ new \<and> members_from cd rq generation n ordinal leaves rss new \<and> mf' = with_totals mf new \<and>
    mf_declared mf' \<le> MaxGenerationBlobBytes \<and> mf_encoded mf' \<le> MaxGenerationContentBytes"
  using assms(1-3,6,7)
proof (induction leaves arbitrary: ordinal ms mf d rss)
  case Nil
  then show ?case by (intro exI [of _ "[]"]) (simp add: with_totals_def)
next
  case (Cons leaf leaves)
  obtain rs rss1 where rss: "rss = rs # rss1" and at: "leaf_at cd dir d leaf rs" and ats: "list_all2 (leaf_at cd dir d) leaves rss1"
    using Cons.prems(2) by (cases rss) auto
  obtain m d1 where w: "writeMember cd (rq_output rq) (rq_repository rq) generation n ordinal leaf d = (Inr m, d1)"
    using Cons.prems(1) by (auto split: prod.splits sum.splits)
  obtain mf1 where acc: "account_member mf m = Inr mf1" using Cons.prems(1) w by (auto split: sum.splits)
  let ?d2 = "d1\<lparr>dk_metrics := (dk_metrics d1)\<lparr>mt_blobs := mt_blobs (dk_metrics d1) + mb_blobs m,
     mt_blob_bytes := mt_blob_bytes (dk_metrics d1) + mb_declared m\<rparr>\<rparr>"
  obtain d3 where rm: "removeSpool leaf ?d2 = (None, d3)"
    and rest: "build_members cd rq generation n (ordinal + 1) leaves (ms @ [m]) mf1 d3 = (Inr (ms', mf'), d')"
    using Cons.prems(1) w acc by (auto simp: Let_def split: prod.splits option.splits)
  note fits = writeMember_fits [OF w at assms(4) sha]
  have same: "dk_files d3 (sp_path l) = dk_files d (sp_path l)" if l: "l \<in> set leaves" for l
  proof -
    obtain qs where "leaf_at cd dir d l qs" using ats l by (auto simp: list_all2_conv_all_nth in_set_conv_nth)
    then obtain k where k: "spool_kind k" "sp_path l = spool_name dir k (sp_prefix l)" "bin (sp_prefix l)"
      by (auto simp: leaf_at_def spool_at_def)
    obtain k' where k': "spool_kind k'" "sp_path leaf = spool_name dir k' (sp_prefix leaf)" "bin (sp_prefix leaf)"
      using at by (auto simp: leaf_at_def spool_at_def)
    have "sp_prefix leaf \<noteq> sp_prefix l" using Cons.prems(3) l by (auto simp: disjoint_before_def)
    then have "sp_path l \<noteq> sp_path leaf" using spool_name_inject [OF k(1) k'(1) k(3) k'(3), of dir] k(2) k'(2) by simp
    then show ?thesis using removeSpool_None [OF rm] fits k by simp
  qed
  have "list_all2 (leaf_at cd dir d3) leaves rss1" using list_all2_leaf_cong [OF ats] same by blast
  then obtain new where new: "ms' = (ms @ [m]) @ new" "members_from cd rq generation n (ordinal + 1) leaves rss1 new"
      "mf' = with_totals mf1 new" "mf_declared mf' \<le> MaxGenerationBlobBytes" "mf_encoded mf' \<le> MaxGenerationContentBytes"
    using Cons.IH [OF rest] Cons.prems(3) account_member_Inr [OF acc] by auto
  then show ?case using fits account_member_Inr [OF acc]
    by (intro exI [of _ "m # new"]) (simp add: rss with_totals_Cons)
qed

section \<open>The built manifest\<close>

lemma binaryPrefix_bin: "bin q \<Longrightarrow> binaryPrefix q"
proof -
  assume "bin q"
  then have "\<forall>c \<in> set q. byte c < 128 \<and> (byte c = 48 \<or> byte c = 49)" by (auto simp: bin_def)
  then show ?thesis unfolding binaryPrefix_def by (subst runes_ascii) (auto simp: list_all_iff)
qed

lemma members_from_Cons:
  assumes "members_from cd rq generation n ordinal (l # ls) rss ms"
  shows "\<exists>rs rss1 m ms1. rss = rs # rss1 \<and> ms = m # ms1 \<and> member_fits l rs m \<and> mb_ordinal m = ordinal \<and> mb_count m = n \<and>
    mb_name m = memberName cd (rq_repository rq) generation ordinal \<and> members_from cd rq generation n (ordinal + 1) ls rss1 ms1"
  using assms by (cases rss; cases ms) auto

lemma members_from_Nil: "members_from cd rq generation n ordinal [] rss ms \<longleftrightarrow> rss = [] \<and> ms = []"
  by (cases rss; cases ms) auto

definition leaf_shape :: "spool \<Rightarrow> bool" where
  "leaf_shape l \<longleftrightarrow> bin (sp_prefix l) \<and> length (sp_prefix l) = sp_bits l \<and> InitialPrefixBits \<le> sp_bits l \<and> sp_bits l \<le> 256"

lemma members_from_check:
  assumes "members_from cd rq generation n ordinal leaves rss ms" and "CHR ''/'' \<notin> set generation"
    and "mf_repository mf = rq_repository rq" "mf_generation mf = generation" and "\<forall>l \<in> set leaves. leaf_shape l"
    and "sorted_wrt disjoint_before (map sp_prefix leaves)" and "0 < ordinal \<longrightarrow> (\<forall>l \<in> set leaves. disjoint_before previous (sp_prefix l))"
  shows "members_check cd mf n ordinal previous ms"
  using assms(1,5-7)
proof (induction leaves arbitrary: ordinal rss ms previous)
  case Nil
  then show ?case by (simp add: members_from_Nil)
next
  case (Cons l ls)
  obtain rs rss1 m ms1 where ms: "ms = m # ms1" and m: "member_fits l rs m" "mb_ordinal m = ordinal" "mb_count m = n"
      "mb_name m = memberName cd (rq_repository rq) generation ordinal"
    and rest: "members_from cd rq generation n (ordinal + 1) ls rss1 ms1"
    using members_from_Cons [OF Cons.prems(1)] by blast
  have p: "mb_prefix m = sp_prefix l" "mb_prefix_bits m = int (sp_bits l)" using m(1) by (simp_all add: member_fits_def)
  have "safeBaseName (mb_name m)" unfolding m(4) using memberName_plain [OF assms(2)] by (intro safeBaseName_plain) auto
  moreover have "binaryPrefix (mb_prefix m)" "mb_prefix_bits m = int (length (mb_prefix m))"
      "int InitialPrefixBits \<le> mb_prefix_bits m" "mb_prefix_bits m \<le> 256"
    using Cons.prems(2) p by (auto simp: leaf_shape_def binaryPrefix_bin)
  moreover have "\<not> (ordinal > 0 \<and> (mb_prefix m \<le> previous \<or> HasPrefix (mb_prefix m) previous))"
    using Cons.prems(4) p(1) by (auto simp: disjoint_before_def HasPrefix_iff not_le)
  ultimately have "\<not> member_invalid cd mf n ordinal previous m"
    using m assms(3,4) unfolding member_invalid_def member_fits_def by auto
  moreover have "members_check cd mf n (ordinal + 1) (mb_prefix m) ms1"
    using Cons.prems(2,3) p(1) by (intro Cons.IH [OF rest]) auto
  ultimately show ?case by (simp add: ms)
qed

lemma members_from_sums:
  assumes "members_from cd rq generation n ordinal leaves rss ms"
  shows "length ms = length leaves \<and> length rss = length leaves \<and> int (length ms) \<le> (\<Sum>m\<leftarrow>ms. mb_blobs m) \<and>
    (\<Sum>m\<leftarrow>ms. mb_blobs m) \<le> (\<Sum>m\<leftarrow>ms. mb_placements m) \<and> int (length ms) \<le> (\<Sum>m\<leftarrow>ms. mb_content m) \<and>
    0 \<le> (\<Sum>m\<leftarrow>ms. mb_declared m) \<and> ((\<Sum>m\<leftarrow>ms. mb_declared m) = 0 \<longleftrightarrow> (\<forall>r \<in> set (concat rss). sr_bytes r = 0))"
  using assms
proof (induction leaves arbitrary: ordinal rss ms)
  case Nil
  then show ?case by (simp add: members_from_Nil)
next
  case (Cons l ls)
  obtain rs rss1 m ms1 where ms: "rss = rs # rss1" "ms = m # ms1" and m: "member_fits l rs m"
    and rest: "members_from cd rq generation n (ordinal + 1) ls rss1 ms1"
    using members_from_Cons [OF Cons.prems(1)] by blast
  have "0 \<le> mb_declared m" "mb_declared m = 0 \<longleftrightarrow> (\<forall>r \<in> set rs. sr_bytes r = 0)" "1 \<le> mb_blobs m" "1 \<le> mb_content m"
    "mb_blobs m \<le> mb_placements m"
    using m unfolding member_fits_def by blast+
  with Cons.IH [OF rest] show ?case by (simp add: ms add_nonneg_eq_0_iff ball_Un)
qed

lemma build_manifest_Inr:
  assumes "build_manifest cd rq dir fault source d = (Inr mf, d')"
  shows "\<exists>policyDigest generation leaves d1 ms mf0. PolicyDigest cd (rq_policy rq) = Inr policyDigest \<and>
    GenerationDigest cd (rq_repository rq) (rq_source rq) policyDigest = Inr generation \<and>
    planLeaves cd (rq_policy rq) dir fault source d = (Inr leaves, d1) \<and>
    build_members cd rq generation (int (length leaves)) 0 leaves [] (empty_manifest rq policyDigest generation) d1 = (Inr (ms, mf0), d') \<and>
    mf = mf0\<lparr>mf_members := Some ms, mf_digest := ManifestDigest cd (mf0\<lparr>mf_members := Some ms\<rparr>)\<rparr>"
  using assms by (auto simp: build_manifest_def Let_def split: prod.splits sum.splits)

lemma sealed_manifest_validates:
  assumes "PolicyDigest cd (rq_policy rq) = Inr policyDigest"
    and gd: "GenerationDigest cd (rq_repository rq) (rq_source rq) policyDigest = Inr generation"
    and ms: "members_from cd rq generation (int (length leaves)) 0 leaves rss ms" and "\<forall>l \<in> set leaves. leaf_shape l"
    and "sorted_wrt disjoint_before (map sp_prefix leaves)" and "int (length leaves) \<le> MaxPartitions"
    and "mf0 = with_totals (empty_manifest rq policyDigest generation) ms"
    and "mf_declared mf0 \<le> MaxGenerationBlobBytes" "mf_encoded mf0 \<le> MaxGenerationContentBytes"
    and mf: "mf = mf0\<lparr>mf_members := Some ms, mf_digest := ManifestDigest cd (mf0\<lparr>mf_members := Some ms\<rparr>)\<rparr>"
    and sha: "\<forall>x. length (cd_sha cd x) = 32" and "1 \<le> rq_revisions rq" and "rq_revisions rq \<le> 8"
  shows "ValidateManifest cd mf =
    (if ms \<noteq> [] \<and> (\<forall>r \<in> set (concat rss). sr_bytes r = 0) then Some (invalidf ''empty manifest shape is inconsistent'') else None)"
proof -
  have gen: "CHR ''/'' \<notin> set generation" "validDigest generation" "validDigest policyDigest"
    "reponame_Validate (rq_repository rq) = (None :: perr option)" "validDigest (rq_source rq)"
    using gd sha by (auto simp: GenerationDigest_def digest_plain validDigest_digest split: if_splits)
  have pol: "ValidatePolicy (rq_policy rq) = None" using assms(1) by (auto simp: PolicyDigest_def split: option.splits)
  note sums = members_from_sums [OF ms]
  have fields: "mf_schema mf = ManifestSchema" "mf_repository mf = rq_repository rq" "mf_source mf = rq_source rq"
    "mf_revisions mf = rq_revisions rq" "mf_policy mf = rq_policy rq" "mf_policy_digest mf = policyDigest"
    "mf_partition_policy mf = frozenPolicy" "mf_generation mf = generation" "mf_members mf = Some ms"
    "mf_blobs mf = (\<Sum>m\<leftarrow>ms. mb_blobs m)" "mf_placements mf = (\<Sum>m\<leftarrow>ms. mb_placements m)"
    "mf_declared mf = (\<Sum>m\<leftarrow>ms. mb_declared m)" "mf_encoded mf = (\<Sum>m\<leftarrow>ms. mb_content m)"
    by (simp_all add: mf assms(7) with_totals_def empty_manifest_def)
  have seal: "ManifestDigest cd mf = mf_digest mf" by (simp add: mf ManifestDigest_def)
  then have "validDigest (mf_digest mf)" using sha by (metis ManifestDigest_def validDigest_digest)
  moreover have "mf_declared mf \<le> MaxGenerationBlobBytes" "mf_encoded mf \<le> MaxGenerationContentBytes"
    using assms(8,9) by (simp_all add: mf)
  ultimately have head: "\<not> manifest_head_invalid mf"
    using gen sums assms(6,12,13) unfolding manifest_head_invalid_def fields by simp
  have "members_check cd mf (int (length ms)) 0 [] ms"
    using members_from_check [OF ms gen(1) fields(2,8) assms(4,5)] sums by simp
  moreover have "(\<Sum>m\<leftarrow>ms. mb_blobs m) = 0 \<longleftrightarrow> ms = []" "(\<Sum>m\<leftarrow>ms. mb_placements m) = 0 \<longleftrightarrow> ms = []"
    "(\<Sum>m\<leftarrow>ms. mb_content m) = 0 \<longleftrightarrow> ms = []"
    using sums by (cases ms; simp; fail)+
  moreover have "ms = [] \<longrightarrow> (\<Sum>m\<leftarrow>ms. mb_declared m) = 0" by simp
  ultimately show ?thesis
    using sums unfolding ValidateManifest_def if_not_P [OF head] fields pol option.case Let_def assms(1) gd seal by auto
qed

lemma planned_records:
  assumes "list_all2 (leaf_at cd dir d) leaves rss"
    and "mset (concat rss) = mset (map (spool_of cd) (filter (selected p) source))"
  shows "(\<forall>r \<in> set (concat rss). sr_bytes r = 0) \<longleftrightarrow> (\<forall>r \<in> set source. selected p r \<longrightarrow> so_bytes r = 0)"
    and "leaves = [] \<longleftrightarrow> \<not> (\<exists>r \<in> set source. selected p r)"
proof -
  have "set (concat rss) = set (map (spool_of cd) (filter (selected p) source))" by (metis assms(2) set_mset_mset)
  then show "(\<forall>r \<in> set (concat rss). sr_bytes r = 0) \<longleftrightarrow> (\<forall>r \<in> set source. selected p r \<longrightarrow> so_bytes r = 0)"
    by (auto simp: spool_of_def)
  have "rs \<noteq> []" if "rs \<in> set rss" for rs
    using assms(1) that by (auto simp: list_all2_conv_all_nth in_set_conv_nth leaf_at_def leaf_fits_def)
  then have "leaves = [] \<longleftrightarrow> concat rss = []" using assms(1) by (cases rss) auto
  also have "\<dots> \<longleftrightarrow> filter (selected p) source = []" using mset_eq_length [OF assms(2)] by (simp flip: length_0_conv)
  finally show "leaves = [] \<longleftrightarrow> \<not> (\<exists>r \<in> set source. selected p r)" by (auto simp: filter_empty_conv)
qed

lemma planned_shapes:
  assumes "list_all2 (leaf_at cd dir d) leaves rss" and "\<forall>l \<in> set leaves. InitialPrefixBits \<le> sp_bits l \<and> sp_bits l \<le> 256"
  shows "\<forall>l \<in> set leaves. leaf_shape l"
  using assms by (fastforce simp: leaf_shape_def list_all2_conv_all_nth in_set_conv_nth leaf_at_def spool_at_def)

lemma build_manifest_outcome:
  assumes "build_manifest cd rq dir fault source d = (Inr mf, d')"
    and "\<forall>r \<in> set source. source_ok cd (rq_revisions rq) r" and "fresh_spools dir d"
    and "\<forall>x. length (cd_sha cd x) = 32" and "1 \<le> rq_revisions rq" and "rq_revisions rq \<le> 8"
  shows "ValidateManifest cd mf =
    (if (\<exists>r \<in> set source. selected (rq_policy rq) r) \<and> (\<forall>r \<in> set source. selected (rq_policy rq) r \<longrightarrow> so_bytes r = 0)
     then Some (invalidf ''empty manifest shape is inconsistent'') else None)"
proof -
  obtain policyDigest generation leaves d1 ms mf0 where pd: "PolicyDigest cd (rq_policy rq) = Inr policyDigest"
    and gd: "GenerationDigest cd (rq_repository rq) (rq_source rq) policyDigest = Inr generation"
    and plan: "planLeaves cd (rq_policy rq) dir fault source d = (Inr leaves, d1)"
    and bm: "build_members cd rq generation (int (length leaves)) 0 leaves [] (empty_manifest rq policyDigest generation) d1 = (Inr (ms, mf0), d')"
    and mf: "mf = mf0\<lparr>mf_members := Some ms, mf_digest := ManifestDigest cd (mf0\<lparr>mf_members := Some ms\<rparr>)\<rparr>"
    using build_manifest_Inr [OF assms(1)] by blast
  obtain rss where at: "list_all2 (leaf_at cd dir d1) leaves rss"
    and recs: "mset (concat rss) = mset (map (spool_of cd) (filter (selected (rq_policy rq)) source))"
    and sorted: "sorted_wrt disjoint_before (map sp_prefix leaves)" and len: "int (length leaves) \<le> MaxPartitions"
    and bits: "\<forall>l \<in> set leaves. InitialPrefixBits \<le> sp_bits l \<and> sp_bits l \<le> 256"
    using planLeaves_leaves [OF plan assms(2,3)] by blast
  have gen: "CHR ''/'' \<notin> set generation" using gd by (auto simp: GenerationDigest_def digest_plain split: if_splits)
  have ms: "members_from cd rq generation (int (length leaves)) 0 leaves rss ms"
    and mf0: "mf0 = with_totals (empty_manifest rq policyDigest generation) ms"
    and bounds: "mf_declared mf0 \<le> MaxGenerationBlobBytes" "mf_encoded mf0 \<le> MaxGenerationContentBytes"
    using build_members_ok [OF bm at sorted gen assms(4)] by (auto simp: empty_manifest_def)
  have "ms = [] \<longleftrightarrow> leaves = []" using members_from_sums [OF ms] by auto
  then show ?thesis
    using sealed_manifest_validates [OF pd gd ms planned_shapes [OF at bits] sorted len mf0 bounds mf assms(4-6)]
      planned_records [OF at recs] by simp
qed

text \<open>
  C38. What \<open>Build\<close> makes of its plan. When the members of a generation have been written (over a fresh
  spool directory, whatever faults were met), the sealed manifest passes \<open>ValidateManifest\<close>, except for one
  kind of input: when files are selected and every one of them is empty. Then the manifest has blobs and no
  declared bytes, and validation refuses it as an inconsistent empty manifest, so such a generation can
  never be staged.
\<close>

theorem build_manifest_validates:
  assumes "build_manifest cd rq dir fault source d = (Inr mf, d')"
    and "\<forall>r \<in> set source. source_ok cd (rq_revisions rq) r" and "fresh_spools dir d"
    and "\<forall>x. length (cd_sha cd x) = 32" and "1 \<le> rq_revisions rq" and "rq_revisions rq \<le> 8"
  shows "ValidateManifest cd mf =
    (if (\<exists>r \<in> set source. selected (rq_policy rq) r) \<and> (\<forall>r \<in> set source. selected (rq_policy rq) r \<longrightarrow> so_bytes r = 0)
     then Some (invalidf ''empty manifest shape is inconsistent'') else None)"
  using build_manifest_outcome [OF assms] .

definition sample_request :: build_request where
  "sample_request = \<lparr>rq_output = ''/out'', rq_repository = ''a.b/c'', rq_source = ''sha256:'' @ hex_encode (replicate 32 7),
     rq_revisions = 1, rq_policy = sample_policy\<rparr>"

text \<open>One selected file of the given size.\<close>

definition sized_source :: "int \<Rightarrow> source_record" where
  "sized_source n = (sample_source CHR ''a'' ''a.go'')\<lparr>so_bytes := n\<rparr>"

definition sized_codec :: "int \<Rightarrow> codec" where
  "sized_codec n = sample_codec\<lparr>cd_spool_parse := (\<lambda>line. if line = ''a.go'' then Some ((sample_spool CHR ''a'' ''a.go'')\<lparr>sr_bytes := n\<rparr>) else None)\<rparr>"

definition sized_spool :: "int \<Rightarrow> spool_record" where
  "sized_spool n = (sample_spool CHR ''a'' ''a.go'')\<lparr>sr_bytes := n\<rparr>"

definition sized_leaf :: "int \<Rightarrow> spool" where
  "sized_leaf n = sample_leaf\<lparr>sp_declared := n\<rparr>"

definition planned_disk :: disk where
  "planned_disk = sample_disk\<lparr>dk_files := [sp_path sample_leaf \<mapsto> ''a.go'' @ [CHR 0x0A]],
     dk_metrics := \<lparr>mt_selected = 1, mt_blobs = 0, mt_blob_bytes = 0, mt_peak = 5, mt_current = 5\<rparr>\<rparr>"

lemma sized_spool_of: "spool_of (sized_codec n) (sized_source n) = sized_spool n"
  by (simp add: spool_of_def sized_codec_def sample_codec_def sized_source_def sample_source_def sized_spool_def sample_spool_def)

lemma sized_line: "spool_line (sized_codec n) (sized_spool n) = ''a.go'' @ [CHR 0x0A]"
  by (simp add: spool_line_def sized_codec_def sample_codec_def sized_spool_def sample_spool_def)

lemma sized_visit:
  assumes "0 \<le> n" "n \<le> MaxBlobBytes"
  shows "plan_visit (sized_codec n) sample_policy ''/spool'' (sized_source n) [] sample_disk =
    (Inr [(sp_prefix sample_leaf, sized_leaf n)], planned_disk)"
proof -
  have sel: "selected sample_policy (sized_source n)"
    using sample_selected by (simp add: sized_source_def selected_def sample_source_def matches_def sample_policy_def HasSuffix_def)
  have o: "so_bytes (sized_source n) = n" "so_object (sized_source n) = sample_object CHR ''a''" "cd_blob_hash (sized_codec n) = sample_hash"
    "sr_bytes (sized_spool n) = n"
    by (simp_all add: sized_source_def sample_source_def sized_codec_def sample_codec_def sized_spool_def)
  show ?thesis
    using assms by (simp add: plan_visit_def ctx_Err_def next_io_def sel o sized_spool_of appendSpool_def sized_line new_spool_def
      append_bytes_def Let_def sample_disk_def max_int64_def planned_disk_def sized_leaf_def sample_leaf_def)
qed

lemma sized_good: "0 \<le> n \<Longrightarrow> n \<le> MaxBlobBytes \<Longrightarrow> good_record (sized_codec n) (sized_spool n)"
proof -
  assume n: "0 \<le> n" "n \<le> MaxBlobBytes"
  have "length (hex_encode (sample_hash (sample_object CHR ''a''))) = 64" "length (sample_hash (sample_object CHR ''a'')) = 32"
    "IsObjectID (sample_object CHR ''a'')"
    by (simp_all add: length_hex_encode sample_hash_def IsObjectID_def sample_object_def runes_ascii list_all_iff)
  then have "gitObjectAndHashValid (sized_codec n) (sized_spool n)"
    using n by (simp add: gitObjectAndHashValid_def sized_codec_def sample_codec_def sized_spool_def sample_spool_def regular_mode_def sample_paths)
  then show ?thesis
    by (simp add: good_record_def sized_line codec_ok_def)
      (simp add: sized_codec_def sample_codec_def sized_spool_def sample_spool_def strip_cr_def)
qed

lemma sized_records:
  assumes "0 \<le> n" "n \<le> MaxBlobBytes" "healthy d" "dk_files d (sp_path sample_leaf) = Some (''a.go'' @ [CHR 0x0A])"
  shows "forEachSpool (sized_codec n) (sp_path sample_leaf) visit s d = visit_all visit [sized_spool n] s d"
proof -
  have "file_has (sized_codec n) d (sp_path sample_leaf) [sized_spool n]"
    using assms(4) by (simp add: file_has_def encode_records_def sized_line)
  then show ?thesis using sized_good [OF assms(1,2)] assms(3,4) by (intro forEachSpool_healthy) auto
qed

lemma sized_plan:
  assumes "0 \<le> n" "n \<le> MaxBlobBytes"
  shows "planLeaves (sized_codec n) sample_policy ''/spool'' None [sized_source n] sample_disk = (Inr [sized_leaf n], planned_disk)"
proof -
  have h: "healthy planned_disk" "dk_files planned_disk (sp_path sample_leaf) = Some (''a.go'' @ [CHR 0x0A])"
    by (simp_all add: healthy_def planned_disk_def sample_disk_def)
  have l: "sp_path (sized_leaf n) = sp_path sample_leaf" "sp_placements (sized_leaf n) = 1"
    by (simp_all add: sized_leaf_def sample_leaf_def)
  have "splitSpool (sized_codec n) ''/spool'' (sized_leaf n) [] planned_disk = (Inr [sized_leaf n], planned_disk)"
    by (subst splitSpool.simps)
      (simp add: h spoolIdentity_def l sized_records [OF assms h] identity_step_def add_leaf_def)
  then show ?thesis by (simp add: planLeaves_def fault_now_def sized_visit [OF assms])
qed

lemma sized_encode:
  assumes "0 \<le> n" "n \<le> MaxBlobBytes" "healthy d" "dk_files d (sp_path sample_leaf) = Some (''a.go'' @ [CHR 0x0A])"
  shows "\<exists>m out. encodeMember (sized_codec n) (sized_leaf n) d = ((Inr m, out), d) \<and> 0 \<le> mb_declared m \<and>
    mb_declared m \<le> MaxBlobBytes \<and> mb_content m \<le> 100"
proof -
  let ?b = "\<lparr>br_schema = MemberSchema, br_object = sample_object CHR ''a'', br_bytes = n,
     br_placements = [placement_of (sized_spool n)]\<rparr>"
  have f: "forEachSpool (sized_codec n) (sp_path (sized_leaf n)) collect_step [] d = (Inr [sized_spool n], d)"
    by (simp add: sized_records [OF assms] sized_leaf_def collect_step_def)
  have c: "coalesce [] (sort_key spool_key [sized_spool n]) = Inr [?b]"
    by (simp add: add_record_def) (simp add: sized_spool_def sample_spool_def)
  have line: "length (blob_line (sized_codec n) ?b) = 41"
    by (simp add: blob_line_def sized_codec_def sample_codec_def sample_object_def)
  show ?thesis
    unfolding encodeMember_def f prod.case sum.case Let_def c
    using assms(1,2) by (simp add: assms(3) line zero_member_def)
qed

lemma sized_build:
  assumes "0 \<le> n" "n \<le> MaxBlobBytes"
  shows "\<exists>mf d' m. build_manifest (sized_codec n) sample_request ''/spool'' None [sized_source n] sample_disk = (Inr mf, d') \<and>
    mf_members mf = Some [m]"
proof -
  let ?cd = "sized_codec n"
  have sha: "\<forall>x. length (cd_sha ?cd x) = 32" by (simp add: sized_codec_def sample_codec_def)
  have rq: "rq_policy sample_request = sample_policy" "rq_repository sample_request = ''a.b/c''" "rq_output sample_request = ''/out''"
    by (simp_all add: sample_request_def)
  have "ValidatePolicy sample_policy = None" by code_simp
  then obtain pd where pd: "PolicyDigest ?cd sample_policy = Inr pd" "validDigest pd"
    using sha by (auto simp: PolicyDigest_def validDigest_digest)
  have "validDigest (rq_source sample_request)"
    unfolding sample_request_def by (simp add: validDigest_def length_hex_encode HasPrefix_iff)
  then obtain g where g: "GenerationDigest ?cd ''a.b/c'' (rq_source sample_request) pd = Inr g" "CHR ''/'' \<notin> set g"
    using pd by (auto simp: GenerationDigest_def digest_plain sample_names(1))
  let ?path = "filepath_Join [''/out'', memberName ?cd ''a.b/c'' g 0]"
  have apart: "?path \<noteq> sp_path sample_leaf"
    using member_path_apart [OF g(2), of "''root-''"] by (simp add: sample_leaf_def bin_bitPrefix)
  let ?d1 = "planned_disk\<lparr>dk_files := (dk_files planned_disk)(?path \<mapsto> [])\<rparr>"
  have h: "healthy planned_disk" "healthy ?d1" "dk_files planned_disk ?path = None"
    "dk_files ?d1 (sp_path sample_leaf) = Some (''a.go'' @ [CHR 0x0A])"
    using apart by (simp_all add: healthy_def planned_disk_def sample_disk_def)
  obtain m out where e: "encodeMember ?cd (sized_leaf n) ?d1 = ((Inr m, out), ?d1)" "0 \<le> mb_declared m" "mb_declared m \<le> MaxBlobBytes"
      "mb_content m \<le> 100"
    using sized_encode [OF assms h(2,4)] by blast
  let ?m = "m\<lparr>mb_ordinal := 0, mb_count := 1, mb_name := memberName ?cd ''a.b/c'' g 0\<rparr>"
  let ?d2 = "?d1\<lparr>dk_files := (dk_files ?d1)(?path \<mapsto> out)\<rparr>"
  have h2: "healthy ?d2" "sp_path (sized_leaf n) = sp_path sample_leaf" using h(2) by (simp_all add: healthy_def sized_leaf_def)
  have w: "writeMember ?cd ''/out'' ''a.b/c'' g 1 0 (sized_leaf n) planned_disk = (Inr ?m, ?d2)"
    using h h2 e by (simp add: writeMember_def writeMemberAt_def Let_def)
  obtain mf1 where acc: "account_member (empty_manifest sample_request pd g) ?m = Inr mf1"
    using e by (simp add: account_member_def empty_manifest_def Let_def)
  let ?mt = "(dk_metrics ?d2)\<lparr>mt_blobs := mt_blobs (dk_metrics ?d2) + mb_blobs ?m, mt_blob_bytes := mt_blob_bytes (dk_metrics ?d2) + mb_declared ?m\<rparr>"
  obtain d3 where rm: "removeSpool (sized_leaf n) (?d2\<lparr>dk_metrics := ?mt\<rparr>) = (None, d3)"
    using h2 h(4) apart by (simp add: removeSpool_def healthy_def next_io_def)
  have "build_members ?cd sample_request g 1 0 [sized_leaf n] [] (empty_manifest sample_request pd g) planned_disk = (Inr ([?m], mf1), d3)"
    unfolding build_members.simps rq w prod.case sum.case acc Let_def rm option.case by simp
  then show ?thesis by (simp add: build_manifest_def rq pd g sized_plan [OF assms] Let_def del: build_members.simps)
qed

lemma sized_facts:
  shows "\<forall>x. length (cd_sha (sized_codec n) x) = 32" and "rq_revisions sample_request = 1" and "rq_policy sample_request = sample_policy"
    and "selected sample_policy (sized_source n)" and "so_bytes (sized_source n) = n"
  by (simp_all add: sized_codec_def sample_codec_def sample_request_def sized_source_def selected_def sample_source_def
      matches_def sample_policy_def HasSuffix_def)

lemma sized_source_ok:
  assumes "0 \<le> n" "n \<le> MaxBlobBytes"
  shows "\<forall>r \<in> set [sized_source n]. source_ok (sized_codec n) (rq_revisions sample_request) r"
proof -
  have "source_ok sample_codec 1 (sample_source CHR ''a'' ''a.go'')" using sample_source_ok by simp
  then have "validateRecord (sized_source n) 1" "length (cd_blob_hash (sized_codec n) (so_object (sized_source n))) = 32"
    using assms by (simp_all add: source_ok_def validateRecord_def sized_source_def sample_source_def sized_codec_def sample_codec_def)
  then show ?thesis using sized_good [OF assms] by (simp add: source_ok_def good_record_def sized_spool_of sized_facts)
qed

lemma sample_revisions: "1 \<le> rq_revisions sample_request" "rq_revisions sample_request \<le> 8"
  by (simp_all add: sized_facts)

theorem build_manifest_validates_witness:
  "\<exists>mf d' mf1 d1. build_manifest (sized_codec 7) sample_request ''/spool'' None [sized_source 7] sample_disk = (Inr mf, d') \<and>
     ValidateManifest (sized_codec 7) mf = None \<and>
     build_manifest (sized_codec 0) sample_request ''/spool'' None [sized_source 0] sample_disk = (Inr mf1, d1) \<and>
     ValidateManifest (sized_codec 0) mf1 = Some (invalidf ''empty manifest shape is inconsistent'')"
proof -
  obtain mf d' mf1 d1 where b: "build_manifest (sized_codec 7) sample_request ''/spool'' None [sized_source 7] sample_disk = (Inr mf, d')"
    "build_manifest (sized_codec 0) sample_request ''/spool'' None [sized_source 0] sample_disk = (Inr mf1, d1)"
    using sized_build [of 7] sized_build [of 0] by fastforce
  have "ValidateManifest (sized_codec 7) mf = None"
    using build_manifest_validates [OF b(1) sized_source_ok sample_premises(1) sized_facts(1) sample_revisions] by (simp add: sized_facts)
  moreover have "ValidateManifest (sized_codec 0) mf1 = Some (invalidf ''empty manifest shape is inconsistent'')"
    using build_manifest_validates [OF b(2) sized_source_ok sample_premises(1) sized_facts(1) sample_revisions] by (simp add: sized_facts)
  ultimately show ?thesis using b by blast
qed

theorem manifest_partition_witness:
  "\<exists>mf m. ValidateManifest (sized_codec 7) mf = None \<and> mf_members mf = Some [m] \<and>
     1 \<le> mb_blobs m \<and> mf_blobs mf = mb_blobs m \<and> mf_declared mf = mb_declared m"
proof -
  obtain mf d' m where b: "build_manifest (sized_codec 7) sample_request ''/spool'' None [sized_source 7] sample_disk = (Inr mf, d')"
    and m: "mf_members mf = Some [m]"
    using sized_build [of 7] by auto
  have v: "ValidateManifest (sized_codec 7) mf = None"
    using build_manifest_outcome [OF b sized_source_ok sample_premises(1) sized_facts(1) sample_revisions] by (simp add: sized_facts)
  from manifest_partition [OF v m] v m show ?thesis by auto
qed

end
