(* ===== verification/Source_Segments.thy ===== *)
theory Source_Segments
  imports Source_Build
begin

text \<open>
  \<open>packSegments\<close> of \<open>internal/sourcepartition/superroot_build.go\<close>: a generation larger than the bounds of one
  manifest is cut into at most sixteen ordered segments.
\<close>

section \<open>Packing\<close>

abbreviation "MaxSegments \<equiv> (16 :: int)"
abbreviation "MaxAggregateMembers \<equiv> MaxPartitions"
abbreviation "MaxAggregateBlobs \<equiv> MaxPartitions * MaxBlobsPerPartition"
abbreviation "MaxAggregatePlacements \<equiv> MaxPartitions * MaxPlacementsPerPartition"
abbreviation "MaxAggregateDeclaredBytes \<equiv> MaxSegments * MaxGenerationBlobBytes"
abbreviation "MaxAggregateEncodedBytes \<equiv> MaxSegments * MaxGenerationContentBytes"

definition pack_fits :: "member \<Rightarrow> int \<Rightarrow> int \<Rightarrow> int \<Rightarrow> bool" where
  "pack_fits m segmentMembers segmentDeclared segmentEncoded \<longleftrightarrow> segmentMembers + 1 \<le> MaxPartitions \<and>
     mb_declared m \<le> MaxGenerationBlobBytes - segmentDeclared \<and> mb_content m \<le> MaxGenerationContentBytes - segmentEncoded"

definition too_many_segments :: "int \<Rightarrow> perr" where
  "too_many_segments n = plan_limit DimensionAggregateSegments n MaxSegments ''aggregate segment count exceeds its bound''"

fun pack_loop :: "member list \<Rightarrow> int list \<Rightarrow> int \<Rightarrow> int \<Rightarrow> int \<Rightarrow> perr + int list" where
  "pack_loop [] segments segmentMembers segmentDeclared segmentEncoded = Inr segments"
| "pack_loop (m # ms) segments segmentMembers segmentDeclared segmentEncoded =
     (if pack_fits m segmentMembers segmentDeclared segmentEncoded
      then pack_loop ms (butlast segments @ [last segments + 1]) (segmentMembers + 1)
             (segmentDeclared + mb_declared m) (segmentEncoded + mb_content m)
      else if int (length segments) \<ge> MaxSegments then Inl (too_many_segments (int (length segments) + 1))
      else pack_loop ms (segments @ [1]) 1 (mb_declared m) (mb_content m))"

definition packSegments :: "member list \<Rightarrow> perr + int list" where
  "packSegments ms =
     (if ms = [] then Inr []
      else if int (length ms) > MaxAggregateMembers
      then Inl (plan_limit DimensionPartitionCount (int (length ms)) MaxAggregateMembers ''aggregate member count exceeds its bound'')
      else pack_loop ms [0] 0 0 0)"

text \<open>What a segment may hold, and the greedy packing as a recursion over lists.\<close>

definition segment_fits :: "member list \<Rightarrow> bool" where
  "segment_fits xs \<longleftrightarrow> int (length xs) \<le> MaxPartitions \<and> (\<Sum>m\<leftarrow>xs. mb_declared m) \<le> MaxGenerationBlobBytes \<and>
     (\<Sum>m\<leftarrow>xs. mb_content m) \<le> MaxGenerationContentBytes"

fun greedy :: "member list \<Rightarrow> member list \<Rightarrow> member list list" where
  "greedy current [] = [current]"
| "greedy current (m # ms) = (if segment_fits (current @ [m]) then greedy (current @ [m]) ms else current # greedy [m] ms)"

definition sized :: "member \<Rightarrow> bool" where
  "sized m \<longleftrightarrow> 0 \<le> mb_declared m \<and> mb_declared m \<le> MaxPartitionBlobBytes \<and> 0 \<le> mb_content m \<and> mb_content m \<le> MaxMemberContentBytes"

lemma segment_fits_suffix:
  assumes "segment_fits (z @ w)" "suffix c z" "\<forall>m \<in> set z. sized m" "\<forall>m \<in> set w. sized m"
  shows "segment_fits (c @ take k w)"
proof -
  obtain a where z: "z = a @ c" using assms(2) by (auto simp: suffix_def)
  have nonneg: "0 \<le> (\<Sum>m\<leftarrow>xs. mb_declared m)" "0 \<le> (\<Sum>m\<leftarrow>xs. mb_content m)" if "\<forall>m \<in> set xs. sized m" for xs
    using that by (auto intro!: sum_list_nonneg simp: sized_def)
  have "\<forall>m \<in> set a. sized m" "\<forall>m \<in> set (drop k w). sized m" using assms(3,4) z by (auto dest: in_set_dropD)
  note n = nonneg [OF this(1)] nonneg [OF this(2)]
  have "(\<Sum>m\<leftarrow>w. f m) = (\<Sum>m\<leftarrow>take k w. f m) + (\<Sum>m\<leftarrow>drop k w. f m)" for f :: "member \<Rightarrow> int"
    unfolding sum_list_append [symmetric] map_append [symmetric] append_take_drop_id ..
  note split = this [of mb_declared] this [of mb_content]
  have "int (length (take k w)) \<le> int (length w)" by simp
  then have "int (length (c @ take k w)) \<le> MaxPartitions"
    using assms(1) unfolding segment_fits_def z length_append of_nat_add by linarith
  then show ?thesis using assms(1) n split by (simp add: segment_fits_def z)
qed

lemma greedy_optimal:
  assumes "\<forall>m \<in> set cur \<union> set z \<union> set ms. sized m" and "w @ concat zss = ms" and "segment_fits (z @ w)"
    and "\<forall>zs \<in> set zss. zs \<noteq> [] \<and> segment_fits zs"
  shows "length (greedy cur ms) \<le> (if suffix cur z then 1 else 2) + length zss"
  using assms
proof (induction ms arbitrary: cur z w zss)
  case Nil
  then show ?case by simp
next
  case (Cons m ms)
  have one: "suffix [m] (x @ [m])" for x by (simp add: suffix_def)
  show ?case
  proof (cases w)
    case (Cons m' w')
    then have w: "w = m # w'" "w' @ concat zss = ms" using Cons.prems(2) by auto
    have fz: "segment_fits ((z @ [m]) @ w')" using Cons.prems(3) w by simp
    have sz: "\<forall>x \<in> set w. sized x" using Cons.prems(1) w by auto
    have keep: "segment_fits (cur @ [m])" if "suffix cur z"
      using segment_fits_suffix [OF Cons.prems(3) that, of 1] Cons.prems(1) sz w by simp
    have s: "\<forall>x \<in> set (cur @ [m]) \<union> set (z @ [m]) \<union> set ms. sized x" "\<forall>x \<in> set [m] \<union> set (z @ [m]) \<union> set ms. sized x"
      using Cons.prems(1) by auto
    have "suffix (cur @ [m]) (z @ [m]) \<longleftrightarrow> suffix cur z" by (simp add: suffix_def)
    then have a: "length (greedy (cur @ [m]) ms) \<le> (if suffix cur z then 1 else 2) + length zss"
      and b: "length (greedy [m] ms) \<le> 1 + length zss"
      using Cons.IH [OF s(1) w(2) fz Cons.prems(4)] Cons.IH [OF s(2) w(2) fz Cons.prems(4)] one [of z] by simp_all
    show ?thesis
    proof (cases "segment_fits (cur @ [m])")
      case True
      then show ?thesis using a by simp
    next
      case False
      then have "\<not> suffix cur z" using keep by blast
      then show ?thesis using b False by simp
    qed
  next
    case Nil
    then obtain w' zss' where zss: "zss = (m # w') # zss'" "w' @ concat zss' = ms"
      using Cons.prems(2,4) by (cases zss; cases "hd zss") auto
    have fz: "segment_fits ([m] @ w')" "\<forall>zs \<in> set zss'. zs \<noteq> [] \<and> segment_fits zs" using Cons.prems(4) zss by auto
    have s: "\<forall>x \<in> set (cur @ [m]) \<union> set [m] \<union> set ms. sized x" "\<forall>x \<in> set [m] \<union> set [m] \<union> set ms. sized x"
      using Cons.prems(1) by auto
    have "length (greedy (cur @ [m]) ms) \<le> 2 + length zss'"
      using Cons.IH [OF s(1) zss(2) fz] by (rule order_trans) simp
    moreover have "length (greedy [m] ms) \<le> 1 + length zss'"
      using Cons.IH [OF s(2) zss(2) fz] by simp
    ultimately show ?thesis by (simp add: zss)
  qed
qed

lemma greedy_nonempty [simp]: "greedy cur ms \<noteq> []"
  by (induction cur ms rule: greedy.induct) auto

lemma greedy_packs:
  assumes "\<forall>m \<in> set ms. sized m" "segment_fits cur"
  shows "concat (greedy cur ms) = cur @ ms \<and> (\<forall>ys \<in> set (greedy cur ms). segment_fits ys) \<and>
    (cur \<noteq> [] \<longrightarrow> [] \<notin> set (greedy cur ms))"
  using assms
proof (induction cur ms rule: greedy.induct)
  case (2 cur m ms)
  have "segment_fits [m]" using "2.prems"(1) by (simp add: sized_def segment_fits_def)
  then show ?case using "2.IH" "2.prems" by (cases "segment_fits (cur @ [m])") simp_all
qed simp

lemma pack_fits_segment: "pack_fits m (int (length cur)) (\<Sum>x\<leftarrow>cur. mb_declared x) (\<Sum>x\<leftarrow>cur. mb_content x) \<longleftrightarrow> segment_fits (cur @ [m])"
  by (auto simp: pack_fits_def segment_fits_def)

lemma pack_loop_greedy:
  assumes "int (length closed) < MaxSegments"
  shows "pack_loop ms (map (int \<circ> length) closed @ [int (length cur)]) (int (length cur)) (\<Sum>x\<leftarrow>cur. mb_declared x) (\<Sum>x\<leftarrow>cur. mb_content x) =
    (if int (length closed + length (greedy cur ms)) \<le> MaxSegments then Inr (map (int \<circ> length) (closed @ greedy cur ms))
     else Inl (too_many_segments 17))"
  using assms
proof (induction cur ms arbitrary: closed rule: greedy.induct)
  case (1 cur)
  then show ?case by simp
next
  case (2 cur m ms)
  show ?case
  proof (cases "segment_fits (cur @ [m])")
    case True
    with "2.IH"(1) [OF True "2.prems"] show ?thesis by (simp add: pack_fits_segment add.commute)
  next
    case False
    show ?thesis
    proof (cases "int (length closed) + 1 < MaxSegments")
      case small: True
      with "2.IH"(2) [OF False, of "closed @ [cur]"] False show ?thesis by (simp add: pack_fits_segment)
    next
      case full: False
      have "1 \<le> length (greedy [m] ms)" using greedy_nonempty [of "[m]" ms] by (cases "greedy [m] ms") auto
      moreover have "length closed = 15" using full "2.prems" by simp
      ultimately show ?thesis using False by (simp add: pack_fits_segment)
    qed
  qed
qed

text \<open>
  C39. Segments are packed optimally. For members within the partition bounds, \<open>packSegments\<close> either cuts the
  ordered members into consecutive non-empty segments that each fit the generation bounds, using at most
  sixteen of them and no more than any other ordered cut that fits, or refuses with the segment bound,
  and then no ordered cut into sixteen fitting segments exists: the refusal is never premature.
\<close>

theorem packSegments_optimal:
  assumes "\<forall>m \<in> set ms. sized m" and "int (length ms) \<le> MaxAggregateMembers"
  shows "case packSegments ms of
      Inr counts \<Rightarrow> (\<exists>yss. concat yss = ms \<and> counts = map (int \<circ> length) yss \<and> [] \<notin> set yss \<and> (\<forall>ys \<in> set yss. segment_fits ys) \<and>
        int (length yss) \<le> MaxSegments \<and>
        (\<forall>zss. concat zss = ms \<and> (\<forall>zs \<in> set zss. segment_fits zs) \<longrightarrow> length yss \<le> length zss))
    | Inl e \<Rightarrow> e = too_many_segments 17 \<and>
        (\<forall>zss. concat zss = ms \<and> (\<forall>zs \<in> set zss. segment_fits zs) \<longrightarrow> MaxSegments < int (length zss))"
proof (cases ms)
  case Nil
  then show ?thesis by (simp add: packSegments_def)
next
  case (Cons m ms')
  have fits: "segment_fits [m]" using assms(1) Cons by (simp add: sized_def segment_fits_def)
  let ?yss = "greedy [m] ms'"
  have packs: "concat ?yss = ms" "\<forall>ys \<in> set ?yss. segment_fits ys" "[] \<notin> set ?yss"
    using greedy_packs [of ms' "[m]"] fits assms(1) Cons by auto
  have least: "length ?yss \<le> length zss" if cut: "concat zss = ms" "\<forall>zs \<in> set zss. segment_fits zs" for zss
  proof -
    let ?zss = "filter (\<lambda>zs. zs \<noteq> []) zss"
    have "concat ?zss = concat zss" by (induction zss) auto
    then have eq: "concat ?zss = m # ms'" using cut(1) Cons by simp
    then obtain zs rest where z: "?zss = zs # rest" by (cases ?zss) auto
    then have "zs \<in> set ?zss" by simp
    then have zs: "zs \<noteq> []" "segment_fits zs" using cut(2) by auto
    then obtain w where w: "zs = m # w" "w @ concat rest = ms'" using eq z by (cases zs) auto
    have "\<forall>zs \<in> set rest. zs \<in> set ?zss" using z by simp
    then have "\<forall>zs \<in> set rest. zs \<noteq> [] \<and> segment_fits zs" using cut(2) by auto
    then have "length ?yss \<le> 1 + length rest"
      using greedy_optimal [of "[m]" "[m]" ms' w rest] zs(2) w assms(1) Cons by simp
    also have "\<dots> = length ?zss" by (simp add: z)
    also have "\<dots> \<le> length zss" by simp
    finally show ?thesis .
  qed
  have "packSegments ms = (if int (length ?yss) \<le> MaxSegments then Inr (map (int \<circ> length) ?yss) else Inl (too_many_segments 17))"
    using pack_loop_greedy [of "[]" ms "[]"] fits assms(2) Cons by (simp add: packSegments_def)
  note run = this
  show ?thesis
  proof (cases "int (length ?yss) \<le> MaxSegments")
    case True
    then show ?thesis unfolding run using packs least by (simp only: if_True sum.case) blast
  next
    case False
    then have "MaxSegments < int (length zss)" if "concat zss = ms" "\<forall>zs \<in> set zss. segment_fits zs" for zss
      using least [OF that] by linarith
    then show ?thesis unfolding run using False by simp
  qed
qed

definition big_member :: member where
  "big_member = zero_member\<lparr>mb_declared := MaxPartitionBlobBytes, mb_content := 100\<rparr>"

lemma pack_big: "packSegments (replicate 65 big_member) = Inr [64, 1]"
  by code_simp

theorem packSegments_optimal_witness:
  "packSegments (replicate 65 big_member) = Inr [64, 1] \<and>
   \<not> (\<exists>zss. concat zss = replicate 65 big_member \<and> (\<forall>zs \<in> set zss. segment_fits zs) \<and> length zss < 2)"
proof -
  have "\<forall>m \<in> set (replicate 65 big_member). sized m" by (simp add: big_member_def sized_def zero_member_def)
  then have "\<forall>zss. concat zss = replicate 65 big_member \<and> (\<forall>zs \<in> set zss. segment_fits zs) \<longrightarrow> 2 \<le> length zss"
    using packSegments_optimal [of "replicate 65 big_member"] unfolding pack_big sum.case by (auto simp: numeral_2_eq_2)
  then show ?thesis unfolding pack_big by (metis linorder_not_less)
qed

end
