(* ===== verification/Source_Superroot.thy ===== *)
theory Source_Superroot
  imports Source_Segments
begin

text \<open>
  Super roots (\<open>internal/sourcepartition/superroot.go\<close>): the root record over the segments of a generation, its
  validation, and the binding of each segment's manifest to its root entry.
\<close>

section \<open>Data\<close>

abbreviation "SuperRootSchema \<equiv> ''phebs-source-partition-superroot-v2''"

record aggregate_policy =
  ap_name :: gostring
  ap_max_segments :: int
  ap_max_members :: int
  ap_max_blobs :: int
  ap_max_placements :: int
  ap_max_declared :: int
  ap_max_encoded :: int
  ap_segment_rule :: gostring

definition frozenAggregatePolicy :: aggregate_policy where
  "frozenAggregatePolicy = \<lparr>ap_name = ''segmented-v1-generation-bounds-v2'', ap_max_segments = MaxSegments,
     ap_max_members = MaxAggregateMembers, ap_max_blobs = MaxAggregateBlobs, ap_max_placements = MaxAggregatePlacements,
     ap_max_declared = MaxAggregateDeclaredBytes, ap_max_encoded = MaxAggregateEncodedBytes,
     ap_segment_rule = ''greedy-ordered-v1-generation-bounds-v2''\<rparr>"

record segment_entry =
  se_ordinal :: int
  se_count :: int
  se_directory :: gostring
  se_digest :: gostring
  se_members :: int
  se_first :: gostring
  se_last :: gostring
  se_blobs :: int
  se_placements :: int
  se_declared :: int
  se_encoded :: int

text \<open>\<open>rt_segments\<close> is \<open>None\<close> where the Go slice is nil.\<close>

record super_root =
  rt_schema :: gostring
  rt_repository :: gostring
  rt_source :: gostring
  rt_revisions :: int
  rt_policy :: policy
  rt_policy_digest :: gostring
  rt_partition_policy :: frozen_policy
  rt_aggregate_policy :: aggregate_policy
  rt_generation :: gostring
  rt_segments :: "segment_entry list option"
  rt_members :: int
  rt_blobs :: int
  rt_placements :: int
  rt_declared :: int
  rt_encoded :: int
  rt_digest :: gostring

section \<open>Validation\<close>

text \<open>The JSON encoding of a root is the argument \<open>root_json\<close>.\<close>

definition SuperRootDigest :: "codec \<Rightarrow> (super_root \<Rightarrow> gostring) \<Rightarrow> super_root \<Rightarrow> gostring" where
  "SuperRootDigest cd root_json root = digest cd (''phebs-source-partition-superroot-v2'' @ [CHR 0x00]) (root_json (root\<lparr>rt_digest := []\<rparr>))"

definition SuperRootName :: "codec \<Rightarrow> gostring \<Rightarrow> gostring" where
  "SuperRootName cd repository = ''phebs-source-partitions-'' @ hex_encode (cd_sha cd repository) @ ''.root.json''"

definition segmentDirectoryName :: "int \<Rightarrow> gostring" where
  "segmentDirectoryName ordinal = ''segment-'' @ pad5 ordinal"

definition validSegmentPrefix :: "gostring \<Rightarrow> bool" where
  "validSegmentPrefix value \<longleftrightarrow> InitialPrefixBits \<le> length value \<and> length value \<le> 256 \<and> binaryPrefix value"

definition entry_invalid :: "int \<Rightarrow> int \<Rightarrow> gostring \<Rightarrow> segment_entry \<Rightarrow> bool" where
  "entry_invalid segmentCount ordinal previousLast e \<longleftrightarrow>
     se_ordinal e \<noteq> ordinal \<or> se_count e \<noteq> segmentCount \<or> se_directory e \<noteq> segmentDirectoryName ordinal \<or>
     \<not> validDigest (se_digest e) \<or> se_members e < 1 \<or> se_members e > MaxPartitions \<or>
     se_blobs e < 1 \<or> se_blobs e > se_members e * MaxBlobsPerPartition \<or> se_placements e < se_blobs e \<or>
     se_declared e < 0 \<or> se_declared e > MaxGenerationBlobBytes \<or>
     se_encoded e < 1 \<or> se_encoded e > MaxGenerationContentBytes \<or>
     \<not> validSegmentPrefix (se_first e) \<or> \<not> validSegmentPrefix (se_last e) \<or> se_last e < se_first e \<or>
     (se_members e = 1) \<noteq> (se_first e = se_last e) \<or>
     se_first e \<noteq> se_last e \<and> HasPrefix (se_last e) (se_first e) \<or>
     ordinal > 0 \<and> (se_first e \<le> previousLast \<or> HasPrefix (se_first e) previousLast)"

fun entries_check :: "int \<Rightarrow> int \<Rightarrow> gostring \<Rightarrow> segment_entry list \<Rightarrow> bool" where
  "entries_check segmentCount ordinal previousLast [] \<longleftrightarrow> True"
| "entries_check segmentCount ordinal previousLast (e # es) \<longleftrightarrow>
     \<not> entry_invalid segmentCount ordinal previousLast e \<and> entries_check segmentCount (ordinal + 1) (se_last e) es"

definition root_head_invalid :: "super_root \<Rightarrow> bool" where
  "root_head_invalid root \<longleftrightarrow>
     rt_schema root \<noteq> SuperRootSchema \<or> reponame_Validate (rt_repository root) \<noteq> (None :: perr option) \<or>
     \<not> validDigest (rt_source root) \<or> rt_revisions root < 1 \<or> rt_revisions root > 8 \<or> \<not> validDigest (rt_policy_digest root) \<or>
     \<not> validDigest (rt_generation root) \<or> \<not> validDigest (rt_digest root) \<or>
     (case rt_segments root of None \<Rightarrow> True | Some es \<Rightarrow> int (length es) > MaxSegments) \<or>
     rt_members root < 0 \<or> rt_members root > MaxAggregateMembers \<or> rt_blobs root < 0 \<or> rt_blobs root > MaxAggregateBlobs \<or>
     rt_placements root < rt_blobs root \<or> rt_placements root > MaxAggregatePlacements \<or>
     rt_declared root < 0 \<or> rt_declared root > MaxAggregateDeclaredBytes \<or>
     rt_encoded root < 0 \<or> rt_encoded root > MaxAggregateEncodedBytes"

definition ValidateSuperRoot :: "codec \<Rightarrow> (super_root \<Rightarrow> gostring) \<Rightarrow> super_root \<Rightarrow> perr option" where
  "ValidateSuperRoot cd root_json root =
     (if root_head_invalid root then Some (invalidf ''super-root identity or totals are invalid'')
      else case ValidatePolicy (rt_policy root) of
        Some e \<Rightarrow> Some e
      | None \<Rightarrow>
          let es = (case rt_segments root of None \<Rightarrow> [] | Some es \<Rightarrow> es)
          in if PolicyDigest cd (rt_policy root) \<noteq> Inr (rt_policy_digest root) \<or> rt_partition_policy root \<noteq> frozenPolicy \<or>
                rt_aggregate_policy root \<noteq> frozenAggregatePolicy
          then Some (invalidf ''super-root policy binding is invalid'')
          else if GenerationDigest cd (rt_repository root) (rt_source root) (rt_policy_digest root) \<noteq> Inr (rt_generation root)
          then Some (invalidf ''super-root generation binding is invalid'')
          else if (rt_blobs root = 0) \<noteq> (es = []) \<or> (rt_blobs root = 0) \<noteq> (rt_members root = 0) \<or>
                  (rt_blobs root = 0) \<noteq> (rt_placements root = 0) \<or> (rt_blobs root = 0) \<noteq> (rt_declared root = 0) \<or>
                  (rt_blobs root = 0) \<noteq> (rt_encoded root = 0)
          then Some (invalidf ''empty super-root shape is inconsistent'')
          else if \<not> entries_check (int (length es)) 0 [] es
          then Some (invalidf ''super-root segment is invalid or overlaps another range'')
          else if (\<Sum>e\<leftarrow>es. se_members e) \<noteq> rt_members root \<or> (\<Sum>e\<leftarrow>es. se_blobs e) \<noteq> rt_blobs root \<or>
                  (\<Sum>e\<leftarrow>es. se_placements e) \<noteq> rt_placements root \<or> (\<Sum>e\<leftarrow>es. se_declared e) \<noteq> rt_declared root \<or>
                  (\<Sum>e\<leftarrow>es. se_encoded e) \<noteq> rt_encoded root
          then Some (invalidf ''super-root segment totals are inconsistent'')
          else if SuperRootDigest cd root_json root \<noteq> rt_digest root then Some (invalidf ''super-root digest mismatch'')
          else None)"

section \<open>Segments\<close>

text \<open>The first and last member are only read once the member counts agree; with a count of zero the index
  panics.\<close>

definition checkSegmentBinding :: "super_root \<Rightarrow> segment_entry \<Rightarrow> manifest \<Rightarrow> perr option" where
  "checkSegmentBinding root e mf =
     (let ms = (case mf_members mf of None \<Rightarrow> [] | Some ms \<Rightarrow> ms); refused = Some (invalidf ''segment manifest disagrees with its super-root entry'')
      in if mf_digest mf \<noteq> se_digest e \<or> mf_repository mf \<noteq> rt_repository root \<or> mf_source mf \<noteq> rt_source root \<or>
            mf_revisions mf \<noteq> rt_revisions root \<or> mf_policy_digest mf \<noteq> rt_policy_digest root \<or> mf_generation mf \<noteq> rt_generation root \<or>
            int (length ms) \<noteq> se_members e \<or> mf_blobs mf \<noteq> se_blobs e \<or> mf_placements mf \<noteq> se_placements e \<or>
            mf_declared mf \<noteq> se_declared e \<or> mf_encoded mf \<noteq> se_encoded e
         then refused
         else if ms = [] then Some (ErrPanic ''index out of range'')
         else if mb_prefix (hd ms) \<noteq> se_first e \<or> mb_prefix (last ms) \<noteq> se_last e then refused
         else None)"

text \<open>Control files are read whole; a file that changes while it is opened or read is the first kind of fault.
  The decoder tells whether input follows the value, the evidence observer's answer is an argument, and a
  background context has no observer.\<close>

definition readCanonicalJSON :: "(gostring \<Rightarrow> ('a \<times> bool) option) \<Rightarrow> ('a \<Rightarrow> gostring) \<Rightarrow> perr option \<Rightarrow> gostring \<Rightarrow> int \<Rightarrow> disk \<Rightarrow> (perr + 'a) \<times> disk" where
  "readCanonicalJSON decode marshal observed path maximum d =
     (case dk_files d path of
        None \<Rightarrow> (Inl (invalidf ''control file is missing, special, or oversized''), d)
      | Some raw \<Rightarrow>
          if raw = [] \<or> int (length raw) > maximum then (Inl (invalidf ''control file is missing, special, or oversized''), d)
          else (case next_io d of
              (IoFail e, d1) \<Rightarrow> (Inl e, d1)
            | (_, d1) \<Rightarrow>
                (case decode raw of
                   None \<Rightarrow> (Inl (invalidf ''control file cannot be decoded''), d1)
                 | Some (v, trailing) \<Rightarrow>
                     if trailing then (Inl (invalidf ''control file has trailing JSON''), d1)
                     else if raw \<noteq> marshal v @ [CHR 0x0A] then (Inl (invalidf ''control file is not canonical''), d1)
                     else (case observed of Some e \<Rightarrow> (Inl e, d1) | None \<Rightarrow> (Inr v, d1)))))"

definition readManifestContext ::
  "codec \<Rightarrow> (gostring \<Rightarrow> (manifest \<times> bool) option) \<Rightarrow> perr option \<Rightarrow> gostring \<Rightarrow> gostring \<Rightarrow> disk \<Rightarrow> (perr + manifest) \<times> disk" where
  "readManifestContext cd decode observed directory repository d =
     (case readCanonicalJSON decode (cd_manifest_json cd) observed (filepath_Join [directory, ManifestName cd repository]) MaxManifestBytes d of
        (Inl e, d1) \<Rightarrow> (Inl e, d1)
      | (Inr mf, d1) \<Rightarrow> (case ValidateManifest cd mf of
            Some e \<Rightarrow> (Inl e, d1)
          | None \<Rightarrow> if mf_repository mf \<noteq> repository then (Inl (invalidf ''manifest repository mismatch''), d1) else (Inr mf, d1)))"

definition ReadManifest :: "codec \<Rightarrow> (gostring \<Rightarrow> (manifest \<times> bool) option) \<Rightarrow> gostring \<Rightarrow> gostring \<Rightarrow> disk \<Rightarrow> (perr + manifest) \<times> disk" where
  "ReadManifest cd decode directory repository d = readManifestContext cd decode None directory repository d"

definition openSegment ::
  "codec \<Rightarrow> (gostring \<Rightarrow> (manifest \<times> bool) option) \<Rightarrow> gostring \<Rightarrow> super_root \<Rightarrow> int \<Rightarrow> disk \<Rightarrow> (perr + gostring \<times> manifest) \<times> disk" where
  "openSegment cd decode directory root segment d =
     (let es = (case rt_segments root of None \<Rightarrow> [] | Some es \<Rightarrow> es)
      in if segment < 0 \<or> segment \<ge> int (length es) then (Inl (invalidf ''super plan segment is out of range''), d)
         else let e = es ! nat segment; segmentDirectory = filepath_Join [directory, se_directory e]
           in (case ReadManifest cd decode segmentDirectory (rt_repository root) d of
                 (Inl err, d1) \<Rightarrow> (Inl err, d1)
               | (Inr mf, d1) \<Rightarrow> (case checkSegmentBinding root e mf of
                     Some err \<Rightarrow> (Inl err, d1) | None \<Rightarrow> (Inr (segmentDirectory, mf), d1))))"

text \<open>The super root itself is read the same way.\<close>

definition ReadSuperRoot ::
  "codec \<Rightarrow> (super_root \<Rightarrow> gostring) \<Rightarrow> (gostring \<Rightarrow> (super_root \<times> bool) option) \<Rightarrow> gostring \<Rightarrow> gostring \<Rightarrow> disk \<Rightarrow> (perr + super_root) \<times> disk" where
  "ReadSuperRoot cd root_json decode directory repository d =
     (case readCanonicalJSON decode root_json None (filepath_Join [directory, SuperRootName cd repository]) MaxManifestBytes d of
        (Inl e, d1) \<Rightarrow> (Inl e, d1)
      | (Inr root, d1) \<Rightarrow> (case ValidateSuperRoot cd root_json root of
            Some e \<Rightarrow> (Inl e, d1)
          | None \<Rightarrow> if rt_repository root \<noteq> repository then (Inl (invalidf ''super-root repository mismatch''), d1) else (Inr root, d1)))"

definition ObjectPrefix :: "codec \<Rightarrow> gostring \<Rightarrow> int \<Rightarrow> perr + gostring" where
  "ObjectPrefix cd object bits =
     (if \<not> IsObjectID object \<or> bits < int InitialPrefixBits \<or> bits > 256 then Inl (invalidf ''object prefix input is invalid'')
      else Inr (bitPrefix (cd_blob_hash cd object) (nat bits)))"

section \<open>Building\<close>

text \<open>The end of \<open>BuildSuperRoot\<close>: the entry of a segment from its sealed manifest, and the sealed root over the
  segments' manifests.\<close>

definition members_of :: "manifest \<Rightarrow> member list" where
  "members_of mf = (case mf_members mf of None \<Rightarrow> [] | Some ms \<Rightarrow> ms)"

definition segment_entry_of :: "int \<Rightarrow> int \<Rightarrow> manifest \<Rightarrow> segment_entry" where
  "segment_entry_of segmentCount ordinal mf = \<lparr>se_ordinal = ordinal, se_count = segmentCount, se_directory = segmentDirectoryName ordinal,
     se_digest = mf_digest mf, se_members = int (length (members_of mf)), se_first = mb_prefix (hd (members_of mf)),
     se_last = mb_prefix (last (members_of mf)), se_blobs = mf_blobs mf, se_placements = mf_placements mf,
     se_declared = mf_declared mf, se_encoded = mf_encoded mf\<rparr>"

fun root_entries :: "int \<Rightarrow> int \<Rightarrow> manifest list \<Rightarrow> segment_entry list" where
  "root_entries segmentCount ordinal [] = []"
| "root_entries segmentCount ordinal (mf # mfs) = segment_entry_of segmentCount ordinal mf # root_entries segmentCount (ordinal + 1) mfs"

definition super_root_of :: "codec \<Rightarrow> (super_root \<Rightarrow> gostring) \<Rightarrow> build_request \<Rightarrow> gostring \<Rightarrow> gostring \<Rightarrow> manifest list \<Rightarrow> super_root" where
  "super_root_of cd root_json rq policyDigest generation mfs =
     (let root = \<lparr>rt_schema = SuperRootSchema, rt_repository = rq_repository rq, rt_source = rq_source rq, rt_revisions = rq_revisions rq,
        rt_policy = rq_policy rq, rt_policy_digest = policyDigest, rt_partition_policy = frozenPolicy,
        rt_aggregate_policy = frozenAggregatePolicy, rt_generation = generation,
        rt_segments = Some (root_entries (int (length mfs)) 0 mfs),
        rt_members = (\<Sum>mf\<leftarrow>mfs. int (length (members_of mf))), rt_blobs = (\<Sum>mf\<leftarrow>mfs. mf_blobs mf),
        rt_placements = (\<Sum>mf\<leftarrow>mfs. mf_placements mf), rt_declared = (\<Sum>mf\<leftarrow>mfs. mf_declared mf),
        rt_encoded = (\<Sum>mf\<leftarrow>mfs. mf_encoded mf), rt_digest = []\<rparr>
      in root\<lparr>rt_digest := SuperRootDigest cd root_json root\<rparr>)"

section \<open>What a valid super root says\<close>

definition segment_bound :: "codec \<Rightarrow> super_root \<Rightarrow> segment_entry \<Rightarrow> manifest \<Rightarrow> bool" where
  "segment_bound cd root e mf \<longleftrightarrow> ValidateManifest cd mf = None \<and> checkSegmentBinding root e mf = None"

lemma openSegment_bound:
  assumes "openSegment cd decode directory root (int i) d = (Inr (sd, mf), d')" and "rt_segments root = Some es"
  shows "i < length es \<and> segment_bound cd root (es ! i) mf"
  using assms unfolding openSegment_def ReadManifest_def readManifestContext_def segment_bound_def
  by (auto simp: Let_def split: if_splits sum.splits option.splits prod.splits)

lemma segment_bound_facts:
  assumes "segment_bound cd root e mf"
  shows "members_of mf \<noteq> [] \<and> sorted_wrt disjoint_before (map mb_prefix (members_of mf)) \<and>
    mb_prefix (hd (members_of mf)) = se_first e \<and> mb_prefix (last (members_of mf)) = se_last e \<and>
    int (length (members_of mf)) = se_members e \<and> (\<Sum>m\<leftarrow>members_of mf. mb_blobs m) = se_blobs e \<and>
    (\<Sum>m\<leftarrow>members_of mf. mb_placements m) = se_placements e \<and>
    (\<Sum>m\<leftarrow>members_of mf. mb_declared m) = se_declared e \<and> (\<Sum>m\<leftarrow>members_of mf. mb_content m) = se_encoded e"
proof -
  have v: "ValidateManifest cd mf = None" and c: "checkSegmentBinding root e mf = None" using assms by (auto simp: segment_bound_def)
  obtain ms where ms: "mf_members mf = Some ms" "members_check cd mf (int (length ms)) 0 [] ms"
    "(\<Sum>m\<leftarrow>ms. mb_blobs m) = mf_blobs mf" "(\<Sum>m\<leftarrow>ms. mb_placements m) = mf_placements mf"
    "(\<Sum>m\<leftarrow>ms. mb_declared m) = mf_declared mf" "(\<Sum>m\<leftarrow>ms. mb_content m) = mf_encoded mf"
    using ValidateManifest_None [OF v] by blast
  have "ms \<noteq> []" "mb_prefix (hd ms) = se_first e" "mb_prefix (last ms) = se_last e" "int (length ms) = se_members e"
    "mf_blobs mf = se_blobs e" "mf_placements mf = se_placements e" "mf_declared mf = se_declared e" "mf_encoded mf = se_encoded e"
    using c ms(1) unfolding checkSegmentBinding_def Let_def by (simp_all split: if_splits)
  then show ?thesis using ms members_check_sorted [OF ms(2)] by (simp add: members_of_def)
qed

lemma sorted_disjoint_append:
  assumes "sorted_wrt disjoint_before xs" "sorted_wrt disjoint_before ys"
    and "xs \<noteq> [] \<Longrightarrow> ys \<noteq> [] \<Longrightarrow> disjoint_before (last xs) (hd ys)"
  shows "sorted_wrt disjoint_before (xs @ ys)"
proof (cases "xs = [] \<or> ys = []")
  case False
  then obtain as x y bs where xs: "xs = as @ [x]" and ys: "ys = y # bs"
    by (metis append_butlast_last_id neq_Nil_conv)
  have x: "disjoint_before x y" using assms(3) by (simp add: xs ys)
  have "disjoint_before a x" if "a \<in> set as" for a using that assms(1) by (simp add: xs sorted_wrt_append)
  then have "disjoint_before a y" if "a \<in> set xs" for a using that x disjoint_before_trans by (auto simp: xs)
  moreover have "disjoint_before y b" if "b \<in> set bs" for b using that assms(2) by (simp add: ys)
  ultimately have "\<forall>a \<in> set xs. \<forall>b \<in> set ys. disjoint_before a b" using disjoint_before_trans by (fastforce simp: ys)
  then show ?thesis using assms(1,2) by (simp add: sorted_wrt_append)
qed (use assms in auto)

text \<open>The root compares neighbouring ranges, and each range is ordered by its own manifest.\<close>

lemma bound_segments_sorted:
  assumes "entries_check n ordinal previous es" and "list_all2 (segment_bound cd root) es mfs" and "0 \<le> ordinal"
  shows "sorted_wrt disjoint_before (map mb_prefix (concat (map members_of mfs))) \<and>
    (0 < ordinal \<and> es \<noteq> [] \<longrightarrow> concat (map members_of mfs) \<noteq> [] \<and> disjoint_before previous (mb_prefix (hd (concat (map members_of mfs)))))"
  using assms
proof (induction es arbitrary: ordinal previous mfs)
  case (Cons e es)
  obtain mf mfs' where mfs: "mfs = mf # mfs'" and b: "segment_bound cd root e mf" "list_all2 (segment_bound cd root) es mfs'"
    using Cons.prems(2) by (cases mfs) auto
  note f = segment_bound_facts [OF b(1)]
  let ?rest = "concat (map members_of mfs')"
  have e: "\<not> entry_invalid n ordinal previous e" "entries_check n (ordinal + 1) (se_last e) es" using Cons.prems(1) by auto
  have ih: "sorted_wrt disjoint_before (map mb_prefix ?rest)" "es \<noteq> [] \<longrightarrow> ?rest \<noteq> [] \<and> disjoint_before (se_last e) (mb_prefix (hd ?rest))"
    using Cons.IH [OF e(2) b(2)] Cons.prems(3) by auto
  have "es = [] \<longleftrightarrow> mfs' = []" using b(2) by auto
  then have "sorted_wrt disjoint_before (map mb_prefix (members_of mf) @ map mb_prefix ?rest)"
    using f ih by (intro sorted_disjoint_append) (auto simp: last_map hd_map)
  moreover have "0 < ordinal \<longrightarrow> disjoint_before previous (mb_prefix (hd (members_of mf)))"
    using e(1) f by (auto simp: entry_invalid_def disjoint_before_def HasPrefix_iff not_le)
  ultimately show ?case using f by (simp add: mfs)
qed simp

lemma bound_segments_sums:
  assumes "list_all2 (segment_bound cd root) es mfs"
  shows "int (length (concat (map members_of mfs))) = (\<Sum>e\<leftarrow>es. se_members e) \<and>
    (\<Sum>m\<leftarrow>concat (map members_of mfs). mb_blobs m) = (\<Sum>e\<leftarrow>es. se_blobs e) \<and>
    (\<Sum>m\<leftarrow>concat (map members_of mfs). mb_placements m) = (\<Sum>e\<leftarrow>es. se_placements e) \<and>
    (\<Sum>m\<leftarrow>concat (map members_of mfs). mb_declared m) = (\<Sum>e\<leftarrow>es. se_declared e) \<and>
    (\<Sum>m\<leftarrow>concat (map members_of mfs). mb_content m) = (\<Sum>e\<leftarrow>es. se_encoded e)"
  using assms
proof (induction rule: list_all2_induct)
  case (Cons e es mf mfs)
  then show ?case using segment_bound_facts [OF Cons.hyps(1)] by simp
qed simp

lemma ValidateSuperRoot_None:
  assumes "ValidateSuperRoot cd root_json root = None"
  shows "\<exists>es. rt_segments root = Some es \<and> entries_check (int (length es)) 0 [] es \<and> int (length es) \<le> MaxSegments \<and>
    (\<Sum>e\<leftarrow>es. se_members e) = rt_members root \<and> (\<Sum>e\<leftarrow>es. se_blobs e) = rt_blobs root \<and>
    (\<Sum>e\<leftarrow>es. se_placements e) = rt_placements root \<and> (\<Sum>e\<leftarrow>es. se_declared e) = rt_declared root \<and>
    (\<Sum>e\<leftarrow>es. se_encoded e) = rt_encoded root \<and> \<not> root_head_invalid root"
proof -
  have h: "\<not> root_head_invalid root" using assms by (auto simp: ValidateSuperRoot_def)
  then obtain es where es: "rt_segments root = Some es" by (auto simp: root_head_invalid_def split: option.splits)
  then show ?thesis
    using assms h by (auto simp: ValidateSuperRoot_def Let_def root_head_invalid_def split: if_splits option.splits)
qed

text \<open>
  C40. A super root whose segments open is one partition. When a root has been read and every segment opens
  against it (each at its own time, through whatever the control files hold then), the members of all segments taken together are strictly ordered by pairwise disjoint
  prefixes, so that an object is found in at most one member of one segment; there are as many members as
  the root says, within the bound of a single generation; and the root's totals are the sums over all
  members and within the aggregate bounds.
\<close>

theorem superroot_partition:
  assumes "ReadSuperRoot cd root_json decode_root directory repository d = (Inr root, d')"
    and "rt_segments root = Some es" and "length mfs = length es"
    and "\<forall>i < length es. \<exists>sd d1 d2. openSegment cd decode directory root (int i) d1 = (Inr (sd, mfs ! i), d2)"
    and "ms = concat (map members_of mfs)"
  shows "sorted_wrt disjoint_before (map mb_prefix ms) \<and>
    (\<forall>i < length ms. \<forall>j < length ms. hashHasPrefix cd object (mb_prefix (ms ! i)) \<longrightarrow>
       hashHasPrefix cd object (mb_prefix (ms ! j)) \<longrightarrow> i = j) \<and>
    int (length es) \<le> MaxSegments \<and> int (length ms) = rt_members root \<and> rt_members root \<le> MaxAggregateMembers \<and>
    rt_blobs root = (\<Sum>m\<leftarrow>ms. mb_blobs m) \<and> rt_blobs root \<le> MaxAggregateBlobs \<and>
    rt_placements root = (\<Sum>m\<leftarrow>ms. mb_placements m) \<and> rt_placements root \<le> MaxAggregatePlacements \<and>
    rt_declared root = (\<Sum>m\<leftarrow>ms. mb_declared m) \<and> rt_declared root \<le> MaxAggregateDeclaredBytes \<and>
    rt_encoded root = (\<Sum>m\<leftarrow>ms. mb_content m) \<and> rt_encoded root \<le> MaxAggregateEncodedBytes"
proof -
  have valid: "ValidateSuperRoot cd root_json root = None"
    using assms(1) unfolding ReadSuperRoot_def by (auto split: prod.splits sum.splits option.splits if_splits)
  have check: "entries_check (int (length es)) 0 [] es" and len: "int (length es) \<le> MaxSegments" and head: "\<not> root_head_invalid root"
    and sums: "(\<Sum>e\<leftarrow>es. se_members e) = rt_members root" "(\<Sum>e\<leftarrow>es. se_blobs e) = rt_blobs root"
      "(\<Sum>e\<leftarrow>es. se_placements e) = rt_placements root" "(\<Sum>e\<leftarrow>es. se_declared e) = rt_declared root"
      "(\<Sum>e\<leftarrow>es. se_encoded e) = rt_encoded root"
    using ValidateSuperRoot_None [OF valid] assms(2) by auto
  have bound: "list_all2 (segment_bound cd root) es mfs"
    unfolding list_all2_conv_all_nth using openSegment_bound [OF _ assms(2)] assms(3,4) by metis
  have sorted: "sorted_wrt disjoint_before (map mb_prefix ms)"
    using bound_segments_sorted [OF check bound] assms(5) by simp
  have "rt_members root \<le> MaxAggregateMembers" "rt_blobs root \<le> MaxAggregateBlobs" "rt_placements root \<le> MaxAggregatePlacements"
    "rt_declared root \<le> MaxAggregateDeclaredBytes" "rt_encoded root \<le> MaxAggregateEncodedBytes"
    using head unfolding root_head_invalid_def by auto
  then show ?thesis using sorted prefix_unique [OF sorted] len sums bound_segments_sums [OF bound] unfolding assms(5) by auto
qed

section \<open>Built entries\<close>

lemma sum_upper: "\<forall>m \<in> set ms. f m \<le> c \<Longrightarrow> (\<Sum>m\<leftarrow>ms. f m) \<le> int (length ms) * c"
  by (induction ms) (auto simp: distrib_right)

lemma sum_lower: "\<forall>m \<in> set ms. 1 \<le> f m \<Longrightarrow> int (length ms) \<le> (\<Sum>m\<leftarrow>ms. f m)"
  by (induction ms) auto

lemma first_last_disjoint:
  assumes "sorted_wrt disjoint_before xs" "xs \<noteq> []"
  shows "hd xs = last xs \<and> length xs = 1 \<or> disjoint_before (hd xs) (last xs) \<and> length xs \<noteq> 1"
  using assms by (cases xs) auto

text \<open>The entry that is built for a valid segment manifest with members is valid, and binds to it.\<close>

lemma segment_entry_valid:
  assumes v: "ValidateManifest cd mf = None" and "members_of mf \<noteq> []"
    and "ordinal = 0 \<or> disjoint_before previous (mb_prefix (hd (members_of mf)))"
  shows "\<not> entry_invalid n ordinal previous (segment_entry_of n ordinal mf)"
proof -
  let ?ms = "members_of mf" and ?ps = "map mb_prefix (members_of mf)"
  obtain ms where ms: "mf_members mf = Some ms" "members_check cd mf (int (length ms)) 0 [] ms" "int (length ms) \<le> MaxPartitions"
    "(\<Sum>m\<leftarrow>ms. mb_blobs m) = mf_blobs mf" and head: "\<not> manifest_head_invalid mf" and enc: "(\<Sum>m\<leftarrow>ms. mb_content m) = mf_encoded mf"
    using ValidateManifest_None [OF v] by blast
  have eq: "?ms = ms" by (simp add: members_of_def ms(1))
  have m: "mb_blobs m \<le> MaxBlobsPerPartition \<and> 1 \<le> mb_blobs m \<and> 1 \<le> mb_content m \<and> validSegmentPrefix (mb_prefix m)" if mem: "m \<in> set ms" for m
  proof -
    obtain i where i: "i < length ms" "m = ms ! i" using mem by (auto simp: in_set_conv_nth)
    then obtain prev where "\<not> member_invalid cd mf (int (length ms)) (0 + int i) prev m" using members_check_all [OF ms(2)] by blast
    then show ?thesis by (auto simp: member_invalid_def validSegmentPrefix_def)
  qed
  have "mf_blobs mf \<le> int (length ms) * MaxBlobsPerPartition" using sum_upper [of ms mb_blobs MaxBlobsPerPartition] m ms(4) by simp
  moreover have "int (length ms) \<le> mf_blobs mf" "int (length ms) \<le> mf_encoded mf"
    using sum_lower [of ms mb_blobs] sum_lower [of ms mb_content] m ms(4) enc by auto
  moreover have "1 \<le> int (length ms)" using assms(2) eq by (cases ms) auto
  moreover have "validSegmentPrefix (mb_prefix (hd ms))" "validSegmentPrefix (mb_prefix (last ms))" using m assms(2) eq by auto
  moreover have "mb_prefix (hd ms) = mb_prefix (last ms) \<and> length ms = 1 \<or>
      disjoint_before (mb_prefix (hd ms)) (mb_prefix (last ms)) \<and> length ms \<noteq> 1"
    using first_last_disjoint [OF members_check_sorted [OF ms(2)]] assms(2) eq by (simp add: hd_map last_map)
  ultimately show ?thesis
    using head ms(3) assms(3) unfolding entry_invalid_def segment_entry_of_def segment_entry.simps eq
    by (auto simp: manifest_head_invalid_def disjoint_before_def HasPrefix_iff)
qed

lemma segment_entry_binds:
  assumes "ValidateManifest cd mf = None" "members_of mf \<noteq> []" "mf_repository mf = rt_repository root" "mf_source mf = rt_source root"
    "mf_revisions mf = rt_revisions root" "mf_policy_digest mf = rt_policy_digest root" "mf_generation mf = rt_generation root"
  shows "checkSegmentBinding root (segment_entry_of n ordinal mf) mf = None"
  using assms by (simp add: checkSegmentBinding_def segment_entry_of_def Let_def members_of_def)

text \<open>A valid manifest with members is the only segment of a valid root.\<close>

definition request_of :: "manifest \<Rightarrow> build_request" where
  "request_of mf = \<lparr>rq_output = [], rq_repository = mf_repository mf, rq_source = mf_source mf, rq_revisions = mf_revisions mf, rq_policy = mf_policy mf\<rparr>"

definition single_root :: "codec \<Rightarrow> (super_root \<Rightarrow> gostring) \<Rightarrow> manifest \<Rightarrow> super_root" where
  "single_root cd root_json mf = super_root_of cd root_json (request_of mf) (mf_policy_digest mf) (mf_generation mf) [mf]"

lemma single_root_fields [simp]:
  "rt_segments (single_root cd root_json mf) = Some [segment_entry_of 1 0 mf]"
  "rt_repository (single_root cd root_json mf) = mf_repository mf" "rt_source (single_root cd root_json mf) = mf_source mf"
  "rt_revisions (single_root cd root_json mf) = mf_revisions mf" "rt_policy (single_root cd root_json mf) = mf_policy mf"
  "rt_policy_digest (single_root cd root_json mf) = mf_policy_digest mf" "rt_generation (single_root cd root_json mf) = mf_generation mf"
  "rt_schema (single_root cd root_json mf) = SuperRootSchema" "rt_partition_policy (single_root cd root_json mf) = frozenPolicy"
  "rt_aggregate_policy (single_root cd root_json mf) = frozenAggregatePolicy"
  "rt_members (single_root cd root_json mf) = int (length (members_of mf))" "rt_blobs (single_root cd root_json mf) = mf_blobs mf"
  "rt_placements (single_root cd root_json mf) = mf_placements mf" "rt_declared (single_root cd root_json mf) = mf_declared mf"
  "rt_encoded (single_root cd root_json mf) = mf_encoded mf"
  "SuperRootDigest cd root_json (single_root cd root_json mf) = rt_digest (single_root cd root_json mf)"
  by (simp_all add: single_root_def super_root_of_def request_of_def Let_def SuperRootDigest_def)

lemma single_root_valid:
  assumes v: "ValidateManifest cd mf = None" and ms: "mf_members mf = Some ms" "ms \<noteq> []" and sha: "\<forall>x. length (cd_sha cd x) = 32"
  shows "ValidateSuperRoot cd root_json (single_root cd root_json mf) = None"
proof -
  let ?root = "single_root cd root_json mf"
  have h: "\<not> manifest_head_invalid mf" using v by (auto simp: ValidateManifest_def)
  have mo: "members_of mf = ms" by (simp add: members_of_def ms)
  have pol: "ValidatePolicy (mf_policy mf) = None" "PolicyDigest cd (mf_policy mf) = Inr (mf_policy_digest mf)"
    "GenerationDigest cd (mf_repository mf) (mf_source mf) (mf_policy_digest mf) = Inr (mf_generation mf)"
    "(mf_blobs mf = 0) = (ms = [])" "(mf_blobs mf = 0) = (mf_placements mf = 0)" "(mf_blobs mf = 0) = (mf_declared mf = 0)"
    "(mf_blobs mf = 0) = (mf_encoded mf = 0)"
    using v h ms by (auto simp: ValidateManifest_def Let_def split: option.splits if_splits)
  have e: "\<not> entry_invalid 1 0 [] (segment_entry_of 1 0 mf)" using segment_entry_valid [OF v, of 0 "[]" 1] ms mo by simp
  then have blobs: "mf_blobs mf \<le> int (length ms) * MaxBlobsPerPartition" "int (length ms) \<le> MaxPartitions" "0 \<le> mf_placements mf"
    using mo by (auto simp: entry_invalid_def segment_entry_of_def)
  have "mf_placements mf \<le> int (length ms) * MaxPlacementsPerPartition"
  proof -
    have sum: "(\<Sum>m\<leftarrow>ms. mb_placements m) = mf_placements mf" and c: "members_check cd mf (int (length ms)) 0 [] ms"
      using ValidateManifest_None [OF v] ms by auto
    have "mb_placements m \<le> MaxPlacementsPerPartition" if mem: "m \<in> set ms" for m
    proof -
      obtain i where "i < length ms" "m = ms ! i" using mem by (auto simp: in_set_conv_nth)
      then obtain prev where "\<not> member_invalid cd mf (int (length ms)) (0 + int i) prev m" using members_check_all [OF c] by blast
      then show ?thesis by (auto simp: member_invalid_def)
    qed
    then show ?thesis unfolding sum [symmetric] by (intro sum_upper) blast
  qed
  then have totals: "mf_blobs mf \<le> MaxAggregateBlobs" "mf_placements mf \<le> MaxAggregatePlacements" using blobs by linarith+
  have "validDigest (rt_digest ?root)"
    unfolding single_root_fields(16) [symmetric] SuperRootDigest_def using sha by (intro validDigest_digest) simp
  then have "\<not> root_head_invalid ?root"
    using h totals blobs(2) mo unfolding root_head_invalid_def manifest_head_invalid_def by simp
  then show ?thesis using pol e ms(2) mo by (simp add: ValidateSuperRoot_def segment_entry_of_def)
qed

definition control_disk :: disk where
  "control_disk = sample_disk\<lparr>dk_files := (\<lambda>_. Some [CHR 0x0A])\<rparr>"

theorem superroot_partition_witness:
  "\<exists>mf m root. root = single_root (sized_codec 7) (\<lambda>_. []) mf \<and> mf_members mf = Some [m] \<and>
     ReadSuperRoot (sized_codec 7) (\<lambda>_. []) (\<lambda>_. Some (root, False)) ''/stage'' (mf_repository mf) control_disk = (Inr root, control_disk) \<and>
     rt_members root = 1 \<and> rt_declared root = mb_declared m"
proof -
  obtain mf d' m where b: "build_manifest (sized_codec 7) sample_request ''/spool'' None [sized_source 7] sample_disk = (Inr mf, d')"
    and m: "mf_members mf = Some [m]"
    using sized_build [of 7] by auto
  have v: "ValidateManifest (sized_codec 7) mf = None"
    using build_manifest_outcome [OF b sized_source_ok sample_premises(1) sized_facts(1) sample_revisions] by (simp add: sized_facts)
  let ?root = "single_root (sized_codec 7) (\<lambda>_. []) mf"
  have "ValidateSuperRoot (sized_codec 7) (\<lambda>_. []) ?root = None"
    using single_root_valid [OF v m _ sized_facts(1)] by simp
  then have root: "ReadSuperRoot (sized_codec 7) (\<lambda>_. []) (\<lambda>_. Some (?root, False)) ''/stage'' (mf_repository mf) control_disk = (Inr ?root, control_disk)"
    by (simp add: ReadSuperRoot_def readCanonicalJSON_def control_disk_def sample_disk_def next_io_def)
  have "checkSegmentBinding ?root (segment_entry_of 1 0 mf) mf = None"
    by (rule segment_entry_binds [OF v]) (simp_all add: members_of_def m)
  moreover have "cd_manifest_json (sized_codec 7) mf = []" by (simp add: sized_codec_def sample_codec_def)
  ultimately have "openSegment (sized_codec 7) (\<lambda>_. Some (mf, False)) ''/stage'' ?root 0 control_disk =
      (Inr (filepath_Join [''/stage'', se_directory (segment_entry_of 1 0 mf)], mf), control_disk)"
    using v by (simp add: openSegment_def ReadManifest_def readManifestContext_def readCanonicalJSON_def Let_def
        control_disk_def sample_disk_def next_io_def)
  then have "\<forall>i < length [segment_entry_of 1 0 mf]. \<exists>sd d1 d2.
      openSegment (sized_codec 7) (\<lambda>_. Some (mf, False)) ''/stage'' ?root (int i) d1 = (Inr (sd, [mf] ! i), d2)"
    by auto
  from superroot_partition [OF root single_root_fields(1) _ this refl]
  have "rt_members ?root = 1 \<and> rt_declared ?root = mb_declared m" by (simp add: members_of_def m)
  then show ?thesis using m root by blast
qed

end
