(* ===== verification/Generation_Table.thy ===== *)
theory Generation_Table
  imports Job_Errors Repo_Identity "HOL-Library.Product_Lexorder"
begin

text \<open>
  The generation scheduler's tables of \<open>internal/store/generation_schedule.go\<close>: schedules that cut the items
  of a generation into chunks, the current schedule of each repository and stage, and the running count of
  each repository. As for the job table, a transaction is the SurrealQL text of the store read as a
  function of the tables, the database clock and its variables: it throws, and then changes nothing, or
  returns what its \<open>RETURN\<close> yields. The expressions of one \<open>UPDATE\<close> read the row as it was before the statement.
\<close>

section \<open>Bounds and errors\<close>

abbreviation "GenerationScheduleSchema \<equiv> ''phebs-generation-schedule-v1''"
abbreviation "MaxGenerationStageBytes \<equiv> (64 :: int)"
abbreviation "MaxGenerationItems \<equiv> (80000000 :: int)"
abbreviation "MaxGenerationChunkItems \<equiv> (4096 :: int)"
abbreviation "MaxGenerationChunks \<equiv> (1000000 :: int)"
abbreviation "MaxGenerationFanoutPage \<equiv> (64 :: int)"
abbreviation "MaxGenerationActiveStagesPerRepository \<equiv> (8 :: int)"
abbreviation "MaxGenerationAttempts \<equiv> (8 :: int)"
abbreviation "MaxGenerationRepositoryTokens \<equiv> (8 :: int)"
abbreviation "MaxGenerationErrorBytes \<equiv> (2048 :: nat)"
abbreviation "MaxJobHistoryTargetCharacters \<equiv> (1024 :: int)"

abbreviation "GenerationResourceTypedIndex \<equiv> ''typed-index''"
abbreviation "TypedIndexScheduleStage \<equiv> ''typed-index''"

abbreviation "GenerationScheduleActive \<equiv> ''active''"
abbreviation "GenerationScheduleSuperseded \<equiv> ''superseded''"
abbreviation "GenerationScheduleSettled \<equiv> ''settled''"
abbreviation "GenerationChunkPending \<equiv> ''pending''"
abbreviation "GenerationChunkRunning \<equiv> ''running''"
abbreviation "GenerationChunkDone \<equiv> ''done''"
abbreviation "GenerationChunkFailed \<equiv> ''failed''"
abbreviation "GenerationChunkCanceled \<equiv> ''canceled''"

abbreviation ErrGenerationStale :: serr where "ErrGenerationStale \<equiv> ErrNew ''generation schedule is stale''"
abbreviation ErrGenerationLeaseLost :: serr where "ErrGenerationLeaseLost \<equiv> ErrNew ''generation chunk lease lost''"
abbreviation ErrGenerationExhausted :: serr where "ErrGenerationExhausted \<equiv> ErrNew ''generation chunk attempts exhausted''"
abbreviation typed_stale :: serr where "typed_stale \<equiv> ErrNew ''typed-stale''"

section \<open>Data\<close>

record gspec =
  gp_repository :: gostring
  gp_stage :: gostring
  gp_generation :: gostring
  gp_class :: gostring
  gp_items :: int
  gp_chunk_items :: int
  gp_attempts :: int
  gp_tokens :: int

record gsched =
  gs_schema :: gostring
  gs_digest :: gostring
  gs_repository :: gostring
  gs_stage :: gostring
  gs_generation :: gostring
  gs_class :: gostring
  gs_items :: int
  gs_chunk_items :: int
  gs_total_chunks :: int
  gs_max_attempts :: int
  gs_tokens :: int
  gs_next :: int
  gs_materialized :: int
  gs_pending :: int
  gs_running :: int
  gs_succeeded :: int
  gs_failed :: int
  gs_status :: gostring
  gs_created :: int
  gs_updated :: int
  gs_claimed :: "int option"

record gchunk =
  gc_id :: gostring
  gc_identity :: gostring
  gc_digest :: gostring
  gc_repository :: gostring
  gc_stage :: gostring
  gc_generation :: gostring
  gc_class :: gostring
  gc_offset :: int
  gc_length :: int
  gc_attempt :: int
  gc_priority :: int
  gc_status :: gostring
  gc_not_before :: "int option"
  gc_claimed_by :: gostring
  gc_claimed_at :: "int option"
  gc_heartbeat :: "int option"
  gc_finished :: "int option"
  gc_error :: gostring
  gc_lease :: gostring

record gcurrent =
  cu_repository :: gostring
  cu_stage :: gostring
  cu_digest :: gostring
  cu_generation :: gostring
  cu_updated :: int

record grepo =
  rs_repository :: gostring
  rs_running :: int
  rs_claimed :: "int option"
  rs_updated :: int

text \<open>Current pointers and repository rows are keyed by their record identifiers.\<close>

record gdata =
  gd_schedules :: "gsched list"
  gd_chunks :: "gchunk list"
  gd_current :: "gostring \<Rightarrow> gcurrent option"
  gd_repos :: "gostring \<Rightarrow> grepo option"

section \<open>Specifications and identities\<close>

definition validSHA256 :: "gostring \<Rightarrow> bool" where
  "validSHA256 value \<longleftrightarrow> length value = 71 \<and> HasPrefix value ''sha256:'' \<and> hex_decode (drop 7 value) \<noteq> None"

definition validGenerationResourceClass :: "gostring \<Rightarrow> bool" where
  "validGenerationResourceClass class \<longleftrightarrow> class \<in> {''cpu'', ''io'', ''memory'', ''extraction'', GenerationResourceTypedIndex}"

definition validGenerationToken :: "gostring \<Rightarrow> bool" where
  "validGenerationToken value \<longleftrightarrow> list_all (\<lambda>r. 97 \<le> r \<and> r \<le> 122 \<or> 48 \<le> r \<and> r \<le> 57 \<or> r = 45) (runes value)"

definition chunk_count :: "int \<Rightarrow> int \<Rightarrow> int" where
  "chunk_count items per = (items + per - 1) div per"

definition normalizeGenerationScheduleSpec :: "gspec \<Rightarrow> serr + gspec" where
  "normalizeGenerationScheduleSpec p =
     (if TrimSpace (gp_repository p) \<noteq> gp_repository p \<or> gp_repository p = [] \<or>
         int (length (gp_repository p)) > MaxJobHistoryTargetCharacters \<or> \<not> ValidString (gp_repository p)
      then Inl (ErrNew ''generation schedule repository is invalid'')
      else if TrimSpace (gp_stage p) \<noteq> gp_stage p \<or> gp_stage p = [] \<or> int (length (gp_stage p)) > MaxGenerationStageBytes \<or>
         \<not> validGenerationToken (gp_stage p)
      then Inl (ErrNew ''generation schedule stage is invalid'')
      else if \<not> validSHA256 (gp_generation p) then Inl (ErrNew ''generation schedule identity is invalid'')
      else if \<not> validGenerationResourceClass (gp_class p) then Inl (ErrNew ''generation schedule resource class is invalid'')
      else if gp_items p < 1 \<or> gp_items p > MaxGenerationItems
      then Inl (ErrNew (''generation schedule items must be from 1 through '' @ decimal MaxGenerationItems))
      else if gp_chunk_items p < 1 \<or> gp_chunk_items p > MaxGenerationChunkItems
      then Inl (ErrNew (''generation chunk items must be from 1 through '' @ decimal MaxGenerationChunkItems))
      else if gp_attempts p < 1 \<or> gp_attempts p > MaxGenerationAttempts
      then Inl (ErrNew (''generation attempts must be from 1 through '' @ decimal MaxGenerationAttempts))
      else if gp_tokens p < 1 \<or> gp_tokens p > MaxGenerationRepositoryTokens
      then Inl (ErrNew (''generation repository tokens must be from 1 through '' @ decimal MaxGenerationRepositoryTokens))
      else if gp_class p = GenerationResourceTypedIndex \<and>
           (gp_stage p \<noteq> TypedIndexScheduleStage \<or> gp_items p \<noteq> 1 \<or> gp_chunk_items p \<noteq> 1 \<or> gp_tokens p \<noteq> 1) \<or>
         gp_stage p = TypedIndexScheduleStage \<and> gp_class p \<noteq> GenerationResourceTypedIndex
      then Inl (ErrNew ''typed-index schedule requires its isolated one-item class and one repository token'')
      else if chunk_count (gp_items p) (gp_chunk_items p) > MaxGenerationChunks
      then Inl (ErrNew (''generation schedule has '' @ decimal (chunk_count (gp_items p) (gp_chunk_items p)) @ '' chunks, limit '' @
             decimal MaxGenerationChunks))
      else Inr p)"

text \<open>SHA-256 is the argument \<open>sha\<close>.\<close>

type_synonym hasher = "gostring \<Rightarrow> 8 word list"

definition generationSchedulerDigest :: "hasher \<Rightarrow> gostring \<Rightarrow> gostring \<Rightarrow> gostring" where
  "generationSchedulerDigest sha domain value = ''sha256:'' @ hex_encode (sha (domain @ [CHR 0x00] @ value))"

definition generationScheduleDigest :: "hasher \<Rightarrow> gspec \<Rightarrow> gostring" where
  "generationScheduleDigest sha p = generationSchedulerDigest sha ''phebs-generation-schedule-v1'' (Join CHR 0x00
     [gp_repository p, gp_stage p, gp_generation p, gp_class p, decimal (gp_items p), decimal (gp_chunk_items p),
      decimal (gp_attempts p), decimal (gp_tokens p)])"

definition generationCurrentID :: "hasher \<Rightarrow> gostring \<Rightarrow> gostring \<Rightarrow> gostring" where
  "generationCurrentID sha repository stage =
     generationSchedulerDigest sha ''phebs-generation-schedule-current-v1'' (repository @ [CHR 0x00] @ stage)"

definition generationRepositoryID :: "hasher \<Rightarrow> gostring \<Rightarrow> gostring" where
  "generationRepositoryID sha repository = generationSchedulerDigest sha ''phebs-generation-repository-token-v1'' repository"

definition generationChunkID :: "hasher \<Rightarrow> gostring \<Rightarrow> int \<Rightarrow> int \<Rightarrow> gostring" where
  "generationChunkID sha schedule offset attempt = generationSchedulerDigest sha ''phebs-generation-chunk-v1''
     (schedule @ [CHR 0x00] @ decimal offset @ [CHR 0x00] @ decimal attempt)"

definition spec_of :: "gsched \<Rightarrow> gspec" where
  "spec_of s = \<lparr>gp_repository = gs_repository s, gp_stage = gs_stage s, gp_generation = gs_generation s, gp_class = gs_class s,
     gp_items = gs_items s, gp_chunk_items = gs_chunk_items s, gp_attempts = gs_max_attempts s, gp_tokens = gs_tokens s\<rparr>"

text \<open>Times are counted from Go's zero time.\<close>

definition ValidateGenerationSchedule :: "hasher \<Rightarrow> gsched \<Rightarrow> serr option" where
  "ValidateGenerationSchedule sha s =
     (if normalizeGenerationScheduleSpec (spec_of s) \<noteq> Inr (spec_of s) \<or> gs_schema s \<noteq> GenerationScheduleSchema \<or>
         gs_digest s \<noteq> generationScheduleDigest sha (spec_of s) \<or>
         gs_total_chunks s \<noteq> chunk_count (gs_items s) (gs_chunk_items s) \<or>
         gs_next s < 0 \<or> gs_next s > gs_items s \<or>
         gs_materialized s < 0 \<or> gs_materialized s > gs_total_chunks s * gs_max_attempts s \<or>
         gs_pending s < 0 \<or> gs_running s < 0 \<or> gs_succeeded s < 0 \<or> gs_failed s < 0 \<or>
         gs_pending s > gs_materialized s \<or> gs_running s > gs_materialized s - gs_pending s \<or>
         gs_succeeded s > gs_total_chunks s \<or> gs_failed s > gs_total_chunks s - gs_succeeded s \<or>
         gs_created s = 0 \<or> gs_updated s = 0 \<or> gs_updated s < gs_created s
      then Some (ErrNew ''generation schedule row is invalid'')
      else if gs_status s = GenerationScheduleActive \<or> gs_status s = GenerationScheduleSuperseded then None
      else if gs_status s = GenerationScheduleSettled
      then (if gs_next s \<noteq> gs_items s \<or> gs_pending s \<noteq> 0 \<or> gs_running s \<noteq> 0 \<or> gs_succeeded s \<noteq> gs_total_chunks s - gs_failed s
            then Some (ErrNew ''settled generation schedule row is invalid'') else None)
      else Some (ErrNew ''generation schedule status is invalid''))"

text \<open>The cut is searched from the bound downwards.\<close>

definition boundedGenerationError :: "gostring \<Rightarrow> gostring" where
  "boundedGenerationError message =
     (if \<not> ValidString message then ''invalid UTF-8 worker error''
      else if length message \<le> MaxGenerationErrorBytes then message
      else case find (\<lambda>n. ValidString (take n message)) (rev [1..<MaxGenerationErrorBytes + 1]) of
        Some n \<Rightarrow> take n message | None \<Rightarrow> [])"

section \<open>Statements\<close>

definition upd_chunk :: "gostring \<Rightarrow> (gchunk \<Rightarrow> gchunk) \<Rightarrow> gdata \<Rightarrow> gdata" where
  "upd_chunk i f d = d\<lparr>gd_chunks := map (\<lambda>c. if gc_id c = i then f c else c) (gd_chunks d)\<rparr>"

definition upd_sched :: "gostring \<Rightarrow> (gsched \<Rightarrow> gsched) \<Rightarrow> gdata \<Rightarrow> gdata" where
  "upd_sched digest f d = d\<lparr>gd_schedules := map (\<lambda>s. if gs_digest s = digest then f s else s) (gd_schedules d)\<rparr>"

definition upd_repo :: "gostring \<Rightarrow> (grepo \<Rightarrow> grepo) \<Rightarrow> gdata \<Rightarrow> gdata" where
  "upd_repo key f d = d\<lparr>gd_repos := (gd_repos d)(key := map_option f (gd_repos d key))\<rparr>"

definition current_digest :: "hasher \<Rightarrow> gostring \<Rightarrow> gostring \<Rightarrow> gdata \<Rightarrow> gostring option" where
  "current_digest sha repository stage d = map_option cu_digest (gd_current d (generationCurrentID sha repository stage))"

text \<open>\<open>CREATE\<close> under the unique index on \<open>identity\<close>.\<close>

definition create_chunk :: "gchunk \<Rightarrow> gdata \<Rightarrow> serr + gdata" where
  "create_chunk c d =
     (if list_ex (\<lambda>x. gc_identity x = gc_identity c) (gd_chunks d)
      then Inl (ErrNew ''database index already contains identity'')
      else Inr (d\<lparr>gd_chunks := gd_chunks d @ [c]\<rparr>))"

fun create_chunks :: "gchunk list \<Rightarrow> gdata \<Rightarrow> serr + gdata" where
  "create_chunks [] d = Inr d"
| "create_chunks (c # cs) d = (case create_chunk c d of Inl e \<Rightarrow> Inl e | Inr d1 \<Rightarrow> create_chunks cs d1)"

section \<open>Scheduling\<close>

definition new_schedule :: "hasher \<Rightarrow> gspec \<Rightarrow> int \<Rightarrow> gsched" where
  "new_schedule sha p now = \<lparr>gs_schema = GenerationScheduleSchema, gs_digest = generationScheduleDigest sha p,
     gs_repository = gp_repository p, gs_stage = gp_stage p, gs_generation = gp_generation p, gs_class = gp_class p,
     gs_items = gp_items p, gs_chunk_items = gp_chunk_items p, gs_total_chunks = chunk_count (gp_items p) (gp_chunk_items p),
     gs_max_attempts = gp_attempts p, gs_tokens = gp_tokens p, gs_next = 0, gs_materialized = 0, gs_pending = 0,
     gs_running = 0, gs_succeeded = 0, gs_failed = 0, gs_status = GenerationScheduleActive, gs_created = now, gs_updated = now,
     gs_claimed = None\<rparr>"

definition enqueueGenerationSchedulePriorSQL :: "hasher \<Rightarrow> gspec \<Rightarrow> gdata \<Rightarrow> gostring option \<times> gostring list" where
  "enqueueGenerationSchedulePriorSQL sha p d =
     (let old = current_digest sha (gp_repository p) (gp_stage p) d
      in (old, if old = None \<or> old = Some (generationScheduleDigest sha p) then []
           else take 2 (sort (map gs_digest (filter (\<lambda>s. Some (gs_digest s) = old \<and> gs_status s = GenerationScheduleActive)
             (gd_schedules d))))))"

definition superseded_by :: "int \<Rightarrow> gsched \<Rightarrow> gsched" where
  "superseded_by now s = s\<lparr>gs_status := GenerationScheduleSuperseded, gs_updated := now\<rparr>"

text \<open>\<open>observed\<close> is the census the caller read before; \<open>fence\<close> says whether the typed-index fences hold.\<close>

definition enqueueGenerationScheduleSQL ::
  "hasher \<Rightarrow> int \<Rightarrow> bool \<Rightarrow> gspec \<Rightarrow> gostring option \<times> gostring list \<Rightarrow> gdata \<Rightarrow> (serr + gsched list) \<times> gdata" where
  "enqueueGenerationScheduleSQL sha now fence p observed d =
     (let digest = generationScheduleDigest sha p;
          prior = enqueueGenerationSchedulePriorSQL sha p d;
          existing = list_ex (\<lambda>s. gs_digest s = digest) (gd_schedules d);
          others = length (filter (\<lambda>s. gs_repository s = gp_repository p \<and> gs_status s = GenerationScheduleActive \<and>
            gs_stage s \<noteq> gp_stage p) (gd_schedules d))
      in if gp_class p = GenerationResourceTypedIndex \<and> \<not> fence then (Inl typed_stale, d)
         else if prior \<noteq> observed then (Inl (ErrNew ''generation enqueue prior conflict''), d)
         else if \<not> existing \<and> int others \<ge> MaxGenerationActiveStagesPerRepository
         then (Inl (ErrNew ''phebs-permanent: generation repository active-stage limit exceeded''), d)
         else
           let d1 = (case snd observed of
                 [old] \<Rightarrow> upd_sched old (\<lambda>s. if Some (gs_digest s) = fst prior \<and> gs_status s = GenerationScheduleActive
                   then superseded_by now s else s) d
               | _ \<Rightarrow> d);
               d2 = (if existing then d1 else d1\<lparr>gd_schedules := gd_schedules d1 @ [new_schedule sha p now]\<rparr>);
               d3 = d2\<lparr>gd_current := (gd_current d2)(generationCurrentID sha (gp_repository p) (gp_stage p) \<mapsto>
                   \<lparr>cu_repository = gp_repository p, cu_stage = gp_stage p, cu_digest = digest, cu_generation = gp_generation p,
                    cu_updated = now\<rparr>),
                 gd_repos := (gd_repos d2)(generationRepositoryID sha (gp_repository p) \<mapsto>
                   (case gd_repos d2 (generationRepositoryID sha (gp_repository p)) of
                      None \<Rightarrow> \<lparr>rs_repository = gp_repository p, rs_running = 0, rs_claimed = None, rs_updated = now\<rparr>
                    | Some r \<Rightarrow> r\<lparr>rs_repository := gp_repository p, rs_updated := now\<rparr>))\<rparr>;
               d4 = (if \<not> existing \<or> fst prior = Some digest then d3 else d)
           in (Inr (filter (\<lambda>s. gs_digest s = digest) (gd_schedules d4)), d4))"

definition retireCurrentSQL :: "hasher \<Rightarrow> int \<Rightarrow> gsched \<Rightarrow> gdata \<Rightarrow> (serr + bool) \<times> gdata" where
  "retireCurrentSQL sha now e d =
     (let key = generationCurrentID sha (gs_repository e) (gs_stage e);
          same = (\<lambda>r st g. r = gs_repository e \<and> st = gs_stage e \<and> g = gs_generation e);
          current = (case gd_current d key of None \<Rightarrow> False
            | Some cu \<Rightarrow> same (cu_repository cu) (cu_stage cu) (cu_generation cu) \<and> cu_digest cu = gs_digest e);
          present = list_ex (\<lambda>s. gs_digest s = gs_digest e \<and> same (gs_repository s) (gs_stage s) (gs_generation s)) (gd_schedules d)
      in if current \<and> present
         then (Inr True, (upd_sched (gs_digest e) (\<lambda>s. if gs_status s = GenerationScheduleActive then superseded_by now s else s) d)
                 \<lparr>gd_current := (gd_current d)(key := None)\<rparr>)
         else (Inr False, d))"

text \<open>The schedule statements of a repository's deletion in \<open>surreal.go\<close>.\<close>

definition forgetRepositorySQL :: "int \<Rightarrow> gostring \<Rightarrow> gostring list \<Rightarrow> gdata \<Rightarrow> (serr + unit) \<times> gdata" where
  "forgetRepositorySQL now name stages d =
     (Inr (), d\<lparr>gd_schedules := map (\<lambda>s. if gs_repository s = name \<and> gs_status s = GenerationScheduleActive \<and> gs_stage s \<in> set stages
                   then superseded_by now s else s) (gd_schedules d),
        gd_current := (\<lambda>k. case gd_current d k of None \<Rightarrow> None
           | Some cu \<Rightarrow> if cu_repository cu = name \<and> cu_stage cu \<in> set stages then None else Some cu)\<rparr>)"

section \<open>Fan-out\<close>

definition new_chunk :: "hasher \<Rightarrow> gsched \<Rightarrow> gostring \<Rightarrow> int \<Rightarrow> int \<Rightarrow> gchunk" where
  "new_chunk sha s i offset len = \<lparr>gc_id = i, gc_identity = generationChunkID sha (gs_digest s) offset 0, gc_digest = gs_digest s,
     gc_repository = gs_repository s, gc_stage = gs_stage s, gc_generation = gs_generation s, gc_class = gs_class s,
     gc_offset = offset, gc_length = len, gc_attempt = 0, gc_priority = 0, gc_status = GenerationChunkPending,
     gc_not_before = None, gc_claimed_by = [], gc_claimed_at = None, gc_heartbeat = None, gc_finished = None,
     gc_error = [], gc_lease = []\<rparr>"

text \<open>Offsets and lengths of the next page; the record identifiers are drawn by the database.\<close>

definition generationChunkSpecs :: "gsched \<Rightarrow> (int \<times> int) list" where
  "generationChunkSpecs s =
     (let remaining = gs_items s - gs_next s;
          n = min MaxGenerationFanoutPage (chunk_count remaining (gs_chunk_items s))
      in map (\<lambda>k. let offset = gs_next s + int k * gs_chunk_items s in (offset, min (gs_chunk_items s) (gs_items s - offset)))
           [0..<nat n])"

definition expandGenerationScheduleSQL ::
  "hasher \<Rightarrow> int \<Rightarrow> bool \<Rightarrow> (nat \<Rightarrow> gostring) \<Rightarrow> gsched \<Rightarrow> gdata \<Rightarrow> (serr + gsched list) \<times> gdata" where
  "expandGenerationScheduleSQL sha now fence ids e d =
     (let specs = generationChunkSpecs e;
          newOffset = gs_next e + sum_list (map snd specs);
          owned = list_ex (\<lambda>s. gs_digest s = gs_digest e \<and> gs_status s = GenerationScheduleActive \<and> gs_next s = gs_next e) (gd_schedules d)
      in if gs_class e = GenerationResourceTypedIndex \<and> \<not> fence then (Inl typed_stale, d)
         else if current_digest sha (gs_repository e) (gs_stage e) d = Some (gs_digest e) \<and> owned
         then (case create_chunks (map (\<lambda>(k, offset, len). new_chunk sha e (ids k) offset len) (enumerate 0 specs)) d of
                 Inl err \<Rightarrow> (Inl err, d)
               | Inr d1 \<Rightarrow>
                   let d2 = upd_sched (gs_digest e) (\<lambda>s. s\<lparr>gs_next := newOffset, gs_materialized := gs_materialized s + int (length specs),
                         gs_pending := gs_pending s + int (length specs), gs_updated := now\<rparr>) d1
                   in (Inr (filter (\<lambda>s. gs_digest s = gs_digest e) (gd_schedules d2)), d2))
         else (Inr (filter (\<lambda>s. gs_digest s = gs_digest e) (gd_schedules d)), d))"

end
