(* ===== verification/Generation_Leases.thy ===== *)
theory Generation_Leases
  imports Generation_Table
begin

text \<open>
  The transactions of \<open>internal/store/generation_schedule.go\<close> that move a chunk between its states: claim,
  heartbeat, completion, failure, retry, release, deferral and the reaping of stale leases, with the
  fence of \<open>typed_index_lifecycle.go\<close> that is put in front of a worker's statement, and the
  collection of old schedules of \<open>generation_lifecycle.go\<close>. Rows of other tables that a statement reads are
  arguments: the service-state plan of a generation, and whether a typed-index request is live.
\<close>

section \<open>Claims\<close>

record gplan =
  pl_digest :: gostring
  pl_schedule :: gostring
  pl_repository :: gostring
  pl_phase :: gostring
  pl_base :: int
  pl_next :: int
  pl_state :: gostring

abbreviation "ServiceStateV3ReconcileStage \<equiv> ''service-state-v3-reconcile''"
abbreviation "ServiceStateV3ActivateStage \<equiv> ''service-state-v3-activate''"

definition state_phase :: "gostring \<Rightarrow> gostring" where
  "state_phase stage = (if stage = ServiceStateV3ReconcileStage then ''reconcile''
     else if stage = ServiceStateV3ActivateStage then ''activate'' else [])"

text \<open>The plan admits the applied prefix of its chunks, and everything once a chunk has failed.\<close>

definition plan_admits :: "gplan option \<Rightarrow> gsched \<Rightarrow> int \<Rightarrow> int \<Rightarrow> bool" where
  "plan_admits plan e nfailed offset \<longleftrightarrow>
     state_phase (gs_stage e) = [] \<or>
     (case plan of None \<Rightarrow> False
      | Some p \<Rightarrow> pl_digest p = gs_generation e \<and> pl_schedule p = gs_digest e \<and> pl_repository p = gs_repository e \<and>
          pl_phase p = state_phase (gs_stage e) \<and> (nfailed > 0 \<or> offset \<le> pl_next p - pl_base p))"

definition schedule_ready :: "gsched \<Rightarrow> gdata \<Rightarrow> gsched option" where
  "schedule_ready e d = find (\<lambda>s. gs_digest s = gs_digest e \<and> gs_status s = GenerationScheduleActive \<and> gs_pending s > 0) (gd_schedules d)"

definition claim_candidates :: "int \<Rightarrow> gplan option \<Rightarrow> gsched \<Rightarrow> gdata \<Rightarrow> gchunk list" where
  "claim_candidates now plan e d =
     sort_key (\<lambda>c. (gc_priority c, gc_offset c, gc_attempt c))
       (filter (\<lambda>c. gc_digest c = gs_digest e \<and> gc_status c = GenerationChunkPending \<and>
          (case gc_not_before c of None \<Rightarrow> True | Some nb \<Rightarrow> nb \<le> now) \<and>
          plan_admits plan e (case schedule_ready e d of None \<Rightarrow> 0 | Some s \<Rightarrow> gs_failed s) (gc_offset c)) (gd_chunks d))"

definition repository_free :: "hasher \<Rightarrow> gsched \<Rightarrow> gdata \<Rightarrow> bool" where
  "repository_free sha e d =
     (case gd_repos d (generationRepositoryID sha (gs_repository e)) of None \<Rightarrow> True | Some r \<Rightarrow> rs_running r < gs_tokens e)"

text \<open>The record identifier of the selected chunk, when the schedule is eligible.\<close>

definition claimGenerationChunkSelectionSQL :: "hasher \<Rightarrow> int \<Rightarrow> gplan option \<Rightarrow> gsched \<Rightarrow> gdata \<Rightarrow> gostring option" where
  "claimGenerationChunkSelectionSQL sha now plan e d =
     (if current_digest sha (gs_repository e) (gs_stage e) d = Some (gs_digest e) \<and> schedule_ready e d \<noteq> None \<and> repository_free sha e d
      then (case claim_candidates now plan e d of [] \<Rightarrow> None | c # _ \<Rightarrow> Some (gc_id c)) else None)"

definition claim_chunk :: "int \<Rightarrow> gostring \<Rightarrow> gostring \<Rightarrow> gchunk \<Rightarrow> gchunk" where
  "claim_chunk now worker lease c = c\<lparr>gc_status := GenerationChunkRunning, gc_claimed_by := worker, gc_lease := lease,
     gc_claimed_at := Some now, gc_heartbeat := Some now, gc_not_before := None\<rparr>"

definition claim_sched :: "int \<Rightarrow> gsched \<Rightarrow> gsched" where
  "claim_sched now s = s\<lparr>gs_pending := gs_pending s - 1, gs_running := gs_running s + 1, gs_claimed := Some now, gs_updated := now\<rparr>"

definition claim_repo :: "int \<Rightarrow> grepo \<Rightarrow> grepo" where
  "claim_repo now r = r\<lparr>rs_running := rs_running r + 1, rs_claimed := Some now, rs_updated := now\<rparr>"

definition claimGenerationChunkSQL ::
  "hasher \<Rightarrow> int \<Rightarrow> bool \<Rightarrow> gplan option \<Rightarrow> gsched \<Rightarrow> gostring \<Rightarrow> gostring \<Rightarrow> gostring \<Rightarrow> gdata \<Rightarrow> (serr + gchunk list) \<times> gdata" where
  "claimGenerationChunkSQL sha now fence plan e worker lease chunk d =
     (if gs_class e = GenerationResourceTypedIndex \<and> \<not> fence then (Inl typed_stale, d)
      else case claimGenerationChunkSelectionSQL sha now plan e d of
        None \<Rightarrow> (Inr [], d)
      | Some candidate \<Rightarrow>
          if candidate \<noteq> chunk then (Inl (ErrNew ''generation claim candidate conflict''), d)
          else
            let d1 = upd_chunk chunk (\<lambda>c. if gc_status c = GenerationChunkPending then claim_chunk now worker lease c else c) d;
                claimed = map (claim_chunk now worker lease)
                  (filter (\<lambda>c. gc_id c = chunk \<and> gc_status c = GenerationChunkPending) (gd_chunks d))
            in if length claimed = 1
               then (Inr claimed, upd_repo (generationRepositoryID sha (gs_repository e)) (claim_repo now)
                       (upd_sched (gs_digest e) (claim_sched now) d1))
               else (Inr claimed, d1))"

section \<open>Leases\<close>

definition validGenerationChunkLease :: "gchunk \<Rightarrow> serr option" where
  "validGenerationChunkLease c =
     (if gc_id c = [] \<or> gc_digest c = [] \<or> gc_repository c = [] \<or> gc_stage c = [] \<or> gc_lease c = [] \<or> gc_claimed_by c = [] \<or>
         gc_status c \<noteq> GenerationChunkRunning
      then Some ErrGenerationLeaseLost else None)"

text \<open>The statement that \<open>typedChunkStatement\<close> builds throws in front of its work, or runs it with the lease
  predicate extended by the chunk's immutable scope.\<close>

definition typedChunkStatement :: "(gostring \<Rightarrow> gostring \<Rightarrow> bool) \<Rightarrow> gchunk \<Rightarrow> gdata \<Rightarrow> serr option" where
  "typedChunkStatement live c d =
     (if gc_stage c = [] \<or> int (length (gc_stage c)) > MaxGenerationStageBytes \<or> \<not> validGenerationToken (gc_stage c) \<or>
         \<not> validGenerationResourceClass (gc_class c)
      then Some typed_stale
      else if gc_class c \<noteq> GenerationResourceTypedIndex \<and> gc_stage c \<noteq> TypedIndexScheduleStage then None
      else case find (\<lambda>x. gc_id x = gc_id c) (gd_chunks d) of
        None \<Rightarrow> Some typed_stale
      | Some x \<Rightarrow> if gc_stage x \<noteq> TypedIndexScheduleStage \<or> gc_class x \<noteq> GenerationResourceTypedIndex \<or>
             \<not> live (gc_generation x) (gc_repository x)
           then Some typed_stale else None)"

definition generationLeaseScope :: "gchunk \<Rightarrow> gchunk \<Rightarrow> bool" where
  "generationLeaseScope c x \<longleftrightarrow> gc_identity x = gc_identity c \<and> gc_digest x = gc_digest c \<and> gc_repository x = gc_repository c \<and>
     gc_stage x = gc_stage c \<and> gc_generation x = gc_generation c \<and> gc_class x = gc_class c \<and> gc_offset x = gc_offset c \<and>
     gc_length x = gc_length c \<and> gc_attempt x = gc_attempt c"

definition chunk_lease_row :: "gchunk \<Rightarrow> gchunk \<Rightarrow> bool" where
  "chunk_lease_row c x \<longleftrightarrow> gc_id x = gc_id c \<and> gc_status x = GenerationChunkRunning \<and> gc_lease x = gc_lease c \<and>
     gc_claimed_by x = gc_claimed_by c \<and> generationLeaseScope c x"

definition owned :: "gchunk \<Rightarrow> gdata \<Rightarrow> bool" where
  "owned c d \<longleftrightarrow> list_ex (chunk_lease_row c) (gd_chunks d)"

definition is_current :: "hasher \<Rightarrow> gchunk \<Rightarrow> gdata \<Rightarrow> bool" where
  "is_current sha c d \<longleftrightarrow> current_digest sha (gc_repository c) (gc_stage c) d = Some (gc_digest c)"

record gtransition =
  tr_owned :: bool
  tr_current :: bool
  tr_exhausted :: bool

text \<open>The three updates that end a lease: the chunk, its schedule, and the repository's running count.\<close>

definition end_lease :: "hasher \<Rightarrow> int \<Rightarrow> gchunk \<Rightarrow> (gchunk \<Rightarrow> gchunk) \<Rightarrow> (gsched \<Rightarrow> gsched) \<Rightarrow> gdata \<Rightarrow> gdata" where
  "end_lease sha now c fc fs d =
     upd_repo (generationRepositoryID sha (gc_repository c)) (\<lambda>r. r\<lparr>rs_running := rs_running r - 1, rs_updated := now\<rparr>)
       (upd_sched (gc_digest c) fs (upd_chunk (gc_id c) fc d))"

definition heartbeatSQL :: "int \<Rightarrow> (gostring \<Rightarrow> gostring \<Rightarrow> bool) \<Rightarrow> gchunk \<Rightarrow> gdata \<Rightarrow> (serr + gchunk list) \<times> gdata" where
  "heartbeatSQL now live c d =
     (case typedChunkStatement live c d of
        Some e \<Rightarrow> (Inl e, d)
      | None \<Rightarrow> (Inr (map (\<lambda>x. x\<lparr>gc_heartbeat := Some now\<rparr>) (filter (chunk_lease_row c) (gd_chunks d))),
          upd_chunk (gc_id c) (\<lambda>x. if chunk_lease_row c x then x\<lparr>gc_heartbeat := Some now\<rparr> else x) d))"

section \<open>Completion and failure\<close>

definition settle_chunk :: "gostring \<Rightarrow> bool \<Rightarrow> int \<Rightarrow> gchunk \<Rightarrow> gchunk" where
  "settle_chunk outcome current now x = x\<lparr>gc_status := (if current then outcome else GenerationChunkCanceled),
     gc_finished := Some now, gc_lease := [], gc_heartbeat := None\<rparr>"

definition last_chunk :: "gsched \<Rightarrow> bool" where
  "last_chunk s \<longleftrightarrow> gs_next s = gs_items s \<and> gs_pending s = 0 \<and> gs_running s = 1 \<and> gs_succeeded s + gs_failed s + 1 = gs_total_chunks s"

definition complete_sched :: "bool \<Rightarrow> int \<Rightarrow> gsched \<Rightarrow> gsched" where
  "complete_sched current now s = s\<lparr>gs_running := gs_running s - 1, gs_succeeded := gs_succeeded s + (if current then 1 else 0),
     gs_status := (if current \<and> last_chunk s then GenerationScheduleSettled else gs_status s), gs_updated := now\<rparr>"

definition completeGenerationChunkSQL ::
  "hasher \<Rightarrow> int \<Rightarrow> (gostring \<Rightarrow> gostring \<Rightarrow> bool) \<Rightarrow> gchunk \<Rightarrow> gdata \<Rightarrow> (serr + gtransition) \<times> gdata" where
  "completeGenerationChunkSQL sha now live c d =
     (case typedChunkStatement live c d of
        Some e \<Rightarrow> (Inl e, d)
      | None \<Rightarrow>
          let cur = is_current sha c d
          in (Inr \<lparr>tr_owned = owned c d, tr_current = cur, tr_exhausted = False\<rparr>,
              if owned c d then end_lease sha now c (settle_chunk GenerationChunkDone cur now) (complete_sched cur now) d else d))"

definition fail_sched :: "bool \<Rightarrow> int \<Rightarrow> gsched \<Rightarrow> gsched" where
  "fail_sched current now s = s\<lparr>gs_running := gs_running s - 1, gs_failed := gs_failed s + (if current then 1 else 0),
     gs_status := (if current \<and> last_chunk s then GenerationScheduleSettled else gs_status s), gs_updated := now\<rparr>"

definition failGenerationChunkSQL ::
  "hasher \<Rightarrow> int \<Rightarrow> (gostring \<Rightarrow> gostring \<Rightarrow> bool) \<Rightarrow> gchunk \<Rightarrow> gostring \<Rightarrow> gdata \<Rightarrow> (serr + gtransition) \<times> gdata" where
  "failGenerationChunkSQL sha now live c err d =
     (case typedChunkStatement live c d of
        Some e \<Rightarrow> (Inl e, d)
      | None \<Rightarrow>
          let cur = is_current sha c d
          in (Inr \<lparr>tr_owned = owned c d, tr_current = cur, tr_exhausted = True\<rparr>,
              if owned c d
              then end_lease sha now c (\<lambda>x. (settle_chunk GenerationChunkFailed cur now x)\<lparr>gc_error := err\<rparr>) (fail_sched cur now) d
              else d))"

definition successor :: "hasher \<Rightarrow> gchunk \<Rightarrow> gostring \<Rightarrow> int \<Rightarrow> gchunk" where
  "successor sha c i not_before = \<lparr>gc_id = i, gc_identity = generationChunkID sha (gc_digest c) (gc_offset c) (gc_attempt c + 1),
     gc_digest = gc_digest c, gc_repository = gc_repository c, gc_stage = gc_stage c, gc_generation = gc_generation c,
     gc_class = gc_class c, gc_offset = gc_offset c, gc_length = gc_length c, gc_attempt = gc_attempt c + 1, gc_priority = 1,
     gc_status = GenerationChunkPending, gc_not_before = Some not_before, gc_claimed_by = [], gc_claimed_at = None,
     gc_heartbeat = None, gc_finished = None, gc_error = [], gc_lease = []\<rparr>"

definition retry_sched :: "int \<Rightarrow> gsched \<Rightarrow> gsched" where
  "retry_sched now s = s\<lparr>gs_running := gs_running s - 1, gs_materialized := gs_materialized s + 1,
     gs_pending := gs_pending s + 1, gs_updated := now\<rparr>"

text \<open>\<open>i\<close> is the record identifier of the successor, \<open>max_attempts\<close> comes from the schedule the caller read.\<close>

definition retryGenerationChunkSQL ::
  "hasher \<Rightarrow> int \<Rightarrow> (gostring \<Rightarrow> gostring \<Rightarrow> bool) \<Rightarrow> gostring \<Rightarrow> int \<Rightarrow> gchunk \<Rightarrow> gostring \<Rightarrow> int \<Rightarrow> gdata \<Rightarrow>
   (serr + gtransition) \<times> gdata" where
  "retryGenerationChunkSQL sha now live i max_attempts c err not_before d =
     (case typedChunkStatement live c d of
        Some e \<Rightarrow> (Inl e, d)
      | None \<Rightarrow>
          let cur = is_current sha c d;
              exhausted = gc_attempt c + 1 \<ge> max_attempts;
              fc = (\<lambda>x. (settle_chunk GenerationChunkFailed cur now x)\<lparr>gc_error := err\<rparr>);
              answer = \<lparr>tr_owned = owned c d, tr_current = cur, tr_exhausted = exhausted\<rparr>
          in if \<not> owned c d then (Inr answer, d)
             else if cur \<and> \<not> exhausted
             then (case create_chunk (successor sha c i not_before) (end_lease sha now c fc (retry_sched now) d) of
                     Inl e \<Rightarrow> (Inl e, d)
                   | Inr d1 \<Rightarrow> (Inr answer, d1))
             else (Inr answer, end_lease sha now c fc (fail_sched cur now) d))"

section \<open>Leases handed back\<close>

definition requeue_chunk :: "bool \<Rightarrow> int \<Rightarrow> gostring \<Rightarrow> gchunk \<Rightarrow> gchunk" where
  "requeue_chunk current not_before reason x = x\<lparr>gc_status := (if current then GenerationChunkPending else GenerationChunkCanceled),
     gc_priority := (if current then 2 else gc_priority x), gc_not_before := (if current then Some not_before else None),
     gc_error := reason, gc_claimed_by := [], gc_claimed_at := None, gc_heartbeat := None, gc_lease := []\<rparr>"

definition requeue_sched :: "bool \<Rightarrow> int \<Rightarrow> gsched \<Rightarrow> gsched" where
  "requeue_sched current now s = s\<lparr>gs_running := gs_running s - 1, gs_pending := gs_pending s + (if current then 1 else 0),
     gs_updated := now\<rparr>"

definition deferGenerationChunkSQL ::
  "hasher \<Rightarrow> int \<Rightarrow> (gostring \<Rightarrow> gostring \<Rightarrow> bool) \<Rightarrow> gchunk \<Rightarrow> gostring \<Rightarrow> int \<Rightarrow> gdata \<Rightarrow> (serr + gtransition) \<times> gdata" where
  "deferGenerationChunkSQL sha now live c reason not_before d =
     (case typedChunkStatement live c d of
        Some e \<Rightarrow> (Inl e, d)
      | None \<Rightarrow>
          let cur = is_current sha c d
          in (Inr \<lparr>tr_owned = owned c d, tr_current = cur, tr_exhausted = False\<rparr>,
              if owned c d then end_lease sha now c (requeue_chunk cur not_before reason) (requeue_sched cur now) d else d))"

text \<open>A release differs from a deferral only in the time it writes: the database clock.\<close>

definition releaseGenerationChunkSQL ::
  "hasher \<Rightarrow> int \<Rightarrow> (gostring \<Rightarrow> gostring \<Rightarrow> bool) \<Rightarrow> gchunk \<Rightarrow> gostring \<Rightarrow> gdata \<Rightarrow> (serr + gtransition) \<times> gdata" where
  "releaseGenerationChunkSQL sha now live c reason d = deferGenerationChunkSQL sha now live c reason now d"

definition stale_row :: "gchunk \<Rightarrow> int \<Rightarrow> gchunk \<Rightarrow> bool" where
  "stale_row c cutoff x \<longleftrightarrow> gc_id x = gc_id c \<and> gc_status x = GenerationChunkRunning \<and> gc_lease x = gc_lease c \<and>
     gc_claimed_by x = gc_claimed_by c \<and> gc_heartbeat x = gc_heartbeat c \<and>
     (case gc_heartbeat x of None \<Rightarrow> False | Some h \<Rightarrow> h < cutoff)"

definition reapGenerationChunkSQL :: "hasher \<Rightarrow> int \<Rightarrow> gchunk \<Rightarrow> int \<Rightarrow> gdata \<Rightarrow> (serr + gtransition) \<times> gdata" where
  "reapGenerationChunkSQL sha now c cutoff d =
     (let cur = is_current sha c d; own = list_ex (stale_row c cutoff) (gd_chunks d)
      in (Inr \<lparr>tr_owned = own, tr_current = cur, tr_exhausted = False\<rparr>,
          if own then end_lease sha now c (requeue_chunk cur now ''stale worker lease reaped'') (requeue_sched cur now) d else d))"

section \<open>Diagnostic fence and collection\<close>

definition diagnosticFenceSQL :: "hasher \<Rightarrow> int \<Rightarrow> gchunk \<Rightarrow> gdata \<Rightarrow> (serr + bool) \<times> gdata" where
  "diagnosticFenceSQL sha now sel d =
     (let chunk = find (\<lambda>x. gc_identity x = gc_identity sel \<and> gc_repository x = gc_repository sel \<and> gc_stage x = gc_stage sel \<and>
            gc_generation x = gc_generation sel \<and> gc_attempt x = gc_attempt sel \<and> gc_status x = GenerationChunkRunning) (gd_chunks d);
          key = generationCurrentID sha (gc_repository sel) (gc_stage sel);
          fenced = (case chunk of None \<Rightarrow> False
            | Some x \<Rightarrow> current_digest sha (gc_repository sel) (gc_stage sel) d = Some (gc_digest x))
      in (Inr fenced, if fenced
            then (upd_sched (gc_digest (the chunk)) (superseded_by now) d)\<lparr>gd_current := (gd_current d)(key := None)\<rparr>
            else d))"

text \<open>A schedule is collected when it is not active, not current, has no running chunk, and is not among
  the newest \<open>retained\<close> of its repository and stage.\<close>

definition newest_schedules :: "gsched \<Rightarrow> nat \<Rightarrow> gdata \<Rightarrow> gostring list" where
  "newest_schedules e retained d = take retained (map gs_digest (rev (sort_key (\<lambda>s. (gs_updated s, gs_digest s))
     (filter (\<lambda>s. gs_repository s = gs_repository e \<and> gs_stage s = gs_stage e \<and> gs_status s \<noteq> GenerationScheduleActive)
       (gd_schedules d)))))"

definition collectable :: "hasher \<Rightarrow> gplan option \<Rightarrow> gsched \<Rightarrow> nat \<Rightarrow> gdata \<Rightarrow> bool" where
  "collectable sha plan e retained d \<longleftrightarrow>
     list_ex (\<lambda>s. gs_digest s = gs_digest e \<and> gs_repository s = gs_repository e \<and> gs_stage s = gs_stage e \<and>
       gs_status s \<noteq> GenerationScheduleActive) (gd_schedules d) \<and>
     current_digest sha (gs_repository e) (gs_stage e) d \<noteq> Some (gs_digest e) \<and>
     \<not> list_ex (\<lambda>c. gc_digest c = gs_digest e \<and> gc_status c = GenerationChunkRunning) (gd_chunks d) \<and>
     gs_digest e \<notin> set (newest_schedules e retained d) \<and>
     (state_phase (gs_stage e) = [] \<or> (case plan of None \<Rightarrow> True
        | Some p \<Rightarrow> pl_digest p = gs_generation e \<and> pl_schedule p = gs_digest e \<and> pl_state p \<noteq> ''running''))"

text \<open>The identifiers of the next chunks of a collected schedule.\<close>

definition generationLifecycleSelectionSQL :: "gsched \<Rightarrow> nat \<Rightarrow> gdata \<Rightarrow> gostring list" where
  "generationLifecycleSelectionSQL e chunk_limit d = map gc_id (take chunk_limit (sort_key (\<lambda>c. (gc_offset c, gc_attempt c))
     (filter (\<lambda>c. gc_digest c = gs_digest e) (gd_chunks d))))"

text \<open>The value is the number of deleted rows, the plan's row among them.\<close>

definition collectGenerationScheduleSQL ::
  "hasher \<Rightarrow> gplan option \<Rightarrow> gsched \<Rightarrow> nat \<Rightarrow> nat \<Rightarrow> gostring list \<Rightarrow> gdata \<Rightarrow> (serr + nat) \<times> gdata" where
  "collectGenerationScheduleSQL sha plan e retained chunk_limit ids d =
     (if \<not> collectable sha plan e retained d \<or> generationLifecycleSelectionSQL e chunk_limit d \<noteq> ids \<or> \<not> distinct ids
      then (Inl (ErrNew ''phebs-permanent: generation lifecycle selection changed''), d)
      else
        let d1 = d\<lparr>gd_chunks := filter (\<lambda>c. gc_id c \<notin> set ids) (gd_chunks d)\<rparr>;
            empty = \<not> list_ex (\<lambda>c. gc_digest c = gs_digest e) (gd_chunks d1)
        in (Inr (length ids + (if empty then (if state_phase (gs_stage e) \<noteq> [] \<and> plan \<noteq> None then 1 else 0) + 1 else 0)),
            if empty then d1\<lparr>gd_schedules := filter (\<lambda>s. gs_digest s \<noteq> gs_digest e) (gd_schedules d1)\<rparr> else d1))"

end
