(* ===== verification/Generation_Safety.thy ===== *)
theory Generation_Safety
  imports Generation_Leases
begin

text \<open>
  What holds of the generation scheduler's tables in every interleaving of its clients: the counters of
  the schedules are the counts of their chunks, a repository never runs more chunks than the bound, and
  for every schedule that is still current no chunk is lost and none is worked on twice.
\<close>

section \<open>Counting rows\<close>

definition num :: "('a \<Rightarrow> bool) \<Rightarrow> 'a list \<Rightarrow> int" where
  "num P xs = int (length (filter P xs))"

lemma num_Nil [simp]: "num P [] = 0"
  by (simp add: num_def)

lemma num_Cons [simp]: "num P (x # xs) = (if P x then 1 else 0) + num P xs"
  by (simp add: num_def)

lemma num_append [simp]: "num P (xs @ ys) = num P xs + num P ys"
  by (simp add: num_def)

lemma num_nonneg [simp]: "0 \<le> num P xs"
  by (simp add: num_def)

lemma num_mono: "(\<And>x. x \<in> set xs \<Longrightarrow> P x \<Longrightarrow> Q x) \<Longrightarrow> num P xs \<le> num Q xs"
  by (induction xs) (auto simp: add_increasing)

lemma num_cong: "(\<And>x. x \<in> set xs \<Longrightarrow> P x = Q x) \<Longrightarrow> num P xs = num Q xs"
  by (induction xs) auto

lemma num_zero_iff: "num P xs = 0 \<longleftrightarrow> (\<forall>x \<in> set xs. \<not> P x)"
  by (auto simp: num_def filter_empty_conv)

lemma num_pos: "x \<in> set xs \<Longrightarrow> P x \<Longrightarrow> 0 < num P xs"
  by (induction xs) (auto simp: add_pos_nonneg add_nonneg_pos)

lemma num_pos_ex: "0 < num P xs \<Longrightarrow> \<exists>x \<in> set xs. P x"
  by (induction xs) (auto split: if_splits)

lemma num_map: "(\<And>x. x \<in> set xs \<Longrightarrow> P (f x) = P x) \<Longrightarrow> num P (map f xs) = num P xs"
  by (induction xs) auto

lemma num_all: "(\<And>x. x \<in> set xs \<Longrightarrow> P x) \<Longrightarrow> num P xs = int (length xs)"
  by (induction xs) auto

lemma num_none: "(\<And>x. x \<in> set xs \<Longrightarrow> \<not> P x) \<Longrightarrow> num P xs = 0"
  by (induction xs) auto

text \<open>Replacing the one row of a key changes a count by that row.\<close>

lemma num_replace:
  assumes "distinct (map k xs)" and "x \<in> set xs"
  shows "num P (map (\<lambda>y. if k y = k x then f y else y) xs) = num P xs - (if P x then 1 else 0) + (if P (f x) then 1 else 0)"
  using assms
proof (induction xs)
  case (Cons a xs)
  show ?case
  proof (cases "a = x")
    case True
    then have "k x \<notin> k ` set xs" using Cons.prems by simp
    then have "map (\<lambda>y. if k y = k x then f y else y) xs = xs" by (intro map_idI) (auto simp: image_iff)
    then show ?thesis using True by simp
  next
    case False
    then have "k a \<noteq> k x" using Cons.prems by force
    then show ?thesis using Cons False by simp
  qed
qed simp

section \<open>The invariant\<close>

abbreviation in_status :: "gostring \<Rightarrow> gostring \<Rightarrow> gchunk \<Rightarrow> bool" where
  "in_status g st c \<equiv> gc_digest c = g \<and> gc_status c = st"

abbreviation in_schedule :: "gostring \<Rightarrow> gchunk \<Rightarrow> bool" where
  "in_schedule g c \<equiv> gc_digest c = g"

abbreviation first_try :: "gostring \<Rightarrow> gchunk \<Rightarrow> bool" where
  "first_try g c \<equiv> gc_digest c = g \<and> gc_attempt c = 0"

definition running_at :: "hasher \<Rightarrow> gostring \<Rightarrow> gchunk \<Rightarrow> bool" where
  "running_at sha k c \<longleftrightarrow> gc_status c = GenerationChunkRunning \<and> generationRepositoryID sha (gc_repository c) = k"

definition is_cur :: "hasher \<Rightarrow> (gostring \<Rightarrow> gcurrent option) \<Rightarrow> gsched \<Rightarrow> bool" where
  "is_cur sha cur s \<longleftrightarrow> (\<exists>cu. cur (generationCurrentID sha (gs_repository s) (gs_stage s)) = Some cu \<and> cu_digest cu = gs_digest s)"

definition chunk_ok :: "hasher \<Rightarrow> gsched \<Rightarrow> gchunk \<Rightarrow> bool" where
  "chunk_ok sha s c \<longleftrightarrow> gc_identity c = generationChunkID sha (gc_digest c) (gc_offset c) (gc_attempt c) \<and>
     gc_repository c = gs_repository s \<and> gc_stage c = gs_stage s \<and> gc_generation c = gs_generation s \<and> gc_class c = gs_class s \<and>
     0 \<le> gc_attempt c \<and> gc_attempt c < gs_max_attempts s \<and> 0 \<le> gc_offset c \<and> gc_offset c mod gs_chunk_items s = 0 \<and>
     gc_offset c < gs_next s \<and> gc_length c = min (gs_chunk_items s) (gs_items s - gc_offset c) \<and>
     gc_status c \<in> {GenerationChunkPending, GenerationChunkRunning, GenerationChunkDone, GenerationChunkFailed, GenerationChunkCanceled}"

definition static_ok :: "hasher \<Rightarrow> gsched \<Rightarrow> bool" where
  "static_ok sha s \<longleftrightarrow> normalizeGenerationScheduleSpec (spec_of s) = Inr (spec_of s) \<and> gs_schema s = GenerationScheduleSchema \<and>
     gs_digest s = generationScheduleDigest sha (spec_of s) \<and> gs_total_chunks s = chunk_count (gs_items s) (gs_chunk_items s)"

definition counters_ok :: "gsched \<Rightarrow> bool" where
  "counters_ok s \<longleftrightarrow> 0 \<le> gs_next s \<and> gs_next s \<le> gs_items s \<and> 0 \<le> gs_materialized s \<and>
     gs_materialized s \<le> gs_total_chunks s * gs_max_attempts s \<and>
     0 \<le> gs_pending s \<and> 0 \<le> gs_running s \<and> 0 \<le> gs_succeeded s \<and> 0 \<le> gs_failed s \<and>
     gs_pending s + gs_running s \<le> gs_materialized s \<and> gs_succeeded s + gs_failed s \<le> gs_total_chunks s"

definition dates_ok :: "int \<Rightarrow> gsched \<Rightarrow> bool" where
  "dates_ok clock s \<longleftrightarrow> 0 < gs_created s \<and> gs_created s \<le> gs_updated s \<and> gs_updated s \<le> clock"

definition status_ok :: "gsched \<Rightarrow> bool" where
  "status_ok s \<longleftrightarrow> gs_status s = GenerationScheduleActive \<or> gs_status s = GenerationScheduleSuperseded \<or>
     gs_status s = GenerationScheduleSettled \<and> gs_next s = gs_items s \<and> gs_pending s = 0 \<and> gs_running s = 0 \<and>
       gs_succeeded s + gs_failed s = gs_total_chunks s"

text \<open>The counters of a current schedule, in terms of its chunks. A retried failure is matched by the attempt
  that follows it, so the failed counter is the number of failed chunks less the number of later attempts.\<close>

definition exact :: "gchunk list \<Rightarrow> gsched \<Rightarrow> bool" where
  "exact xs s \<longleftrightarrow>
     gs_pending s = num (in_status (gs_digest s) GenerationChunkPending) xs \<and>
     gs_succeeded s = num (in_status (gs_digest s) GenerationChunkDone) xs \<and>
     gs_materialized s = num (in_schedule (gs_digest s)) xs \<and>
     gs_failed s + (num (in_schedule (gs_digest s)) xs - num (first_try (gs_digest s)) xs) =
       num (in_status (gs_digest s) GenerationChunkFailed) xs \<and>
     num (in_status (gs_digest s) GenerationChunkCanceled) xs = 0 \<and>
     num (first_try (gs_digest s)) xs \<le> gs_total_chunks s \<and>
     gs_next s = min (gs_items s) (num (first_try (gs_digest s)) xs * gs_chunk_items s) \<and>
     (gs_status s = GenerationScheduleActive \<longrightarrow> gs_next s < gs_items s \<or> 0 < gs_pending s + gs_running s)"

definition keys_ok :: "gdata \<Rightarrow> bool" where
  "keys_ok d \<longleftrightarrow> distinct (map gs_digest (gd_schedules d)) \<and> distinct (map gc_id (gd_chunks d)) \<and> distinct (map gc_identity (gd_chunks d))"

definition links_ok :: "hasher \<Rightarrow> gdata \<Rightarrow> bool" where
  "links_ok sha d \<longleftrightarrow> (\<forall>c \<in> set (gd_chunks d). \<exists>s \<in> set (gd_schedules d). gc_digest c = gs_digest s \<and> chunk_ok sha s c)"

definition order_ok :: "gchunk list \<Rightarrow> bool" where
  "order_ok xs \<longleftrightarrow> (\<forall>x \<in> set xs. \<forall>y \<in> set xs. gc_digest x = gc_digest y \<longrightarrow> gc_offset x = gc_offset y \<longrightarrow>
     gc_attempt x < gc_attempt y \<longrightarrow> gc_status x = GenerationChunkFailed)"

definition sched_row_ok :: "hasher \<Rightarrow> int \<Rightarrow> gchunk list \<Rightarrow> gsched \<Rightarrow> bool" where
  "sched_row_ok sha clock xs s \<longleftrightarrow> static_ok sha s \<and> counters_ok s \<and> dates_ok clock s \<and> status_ok s \<and>
     gs_running s = num (in_status (gs_digest s) GenerationChunkRunning) xs"

definition repos_ok :: "hasher \<Rightarrow> gdata \<Rightarrow> bool" where
  "repos_ok sha d \<longleftrightarrow>
     (\<forall>s \<in> set (gd_schedules d). gd_repos d (generationRepositoryID sha (gs_repository s)) \<noteq> None) \<and>
     (\<forall>k r. gd_repos d k = Some r \<longrightarrow> rs_running r = num (running_at sha k) (gd_chunks d) \<and> rs_running r \<le> MaxGenerationRepositoryTokens)"

definition pointer_ok :: "hasher \<Rightarrow> gsched list \<Rightarrow> gostring \<Rightarrow> gcurrent \<Rightarrow> bool" where
  "pointer_ok sha ss k cu \<longleftrightarrow> (\<exists>s \<in> set ss. gs_digest s = cu_digest cu \<and> gs_repository s = cu_repository cu \<and>
     gs_stage s = cu_stage cu \<and> generationCurrentID sha (gs_repository s) (gs_stage s) = k)"

definition current_ok :: "hasher \<Rightarrow> gdata \<Rightarrow> bool" where
  "current_ok sha d \<longleftrightarrow> (\<forall>k cu. gd_current d k = Some cu \<longrightarrow> pointer_ok sha (gd_schedules d) k cu) \<and>
     (\<forall>s \<in> set (gd_schedules d). (gs_status s = GenerationScheduleActive \<longrightarrow> is_cur sha (gd_current d) s) \<and>
        (is_cur sha (gd_current d) s \<longrightarrow> gs_status s \<noteq> GenerationScheduleSuperseded \<and> exact (gd_chunks d) s))"

definition gen_inv :: "hasher \<Rightarrow> int \<Rightarrow> gdata \<Rightarrow> bool" where
  "gen_inv sha clock d \<longleftrightarrow> keys_ok d \<and> links_ok sha d \<and> order_ok (gd_chunks d) \<and>
     (\<forall>s \<in> set (gd_schedules d). sched_row_ok sha clock (gd_chunks d) s) \<and> repos_ok sha d \<and> current_ok sha d"

lemma gen_invD:
  assumes "gen_inv sha clock d"
  shows "keys_ok d" "links_ok sha d" "order_ok (gd_chunks d)" "\<And>s. s \<in> set (gd_schedules d) \<Longrightarrow> sched_row_ok sha clock (gd_chunks d) s"
    "repos_ok sha d" "current_ok sha d"
  using assms by (simp_all add: gen_inv_def)

lemma gen_invI:
  "keys_ok d \<Longrightarrow> links_ok sha d \<Longrightarrow> order_ok (gd_chunks d) \<Longrightarrow> (\<And>s. s \<in> set (gd_schedules d) \<Longrightarrow> sched_row_ok sha clock (gd_chunks d) s) \<Longrightarrow>
     repos_ok sha d \<Longrightarrow> current_ok sha d \<Longrightarrow> gen_inv sha clock d"
  by (simp add: gen_inv_def)

text \<open>What no statement changes in a schedule row.\<close>

definition same_static :: "gsched \<Rightarrow> gsched \<Rightarrow> bool" where
  "same_static t s \<longleftrightarrow> spec_of t = spec_of s \<and> gs_schema t = gs_schema s \<and> gs_digest t = gs_digest s \<and>
     gs_total_chunks t = gs_total_chunks s \<and> gs_created t = gs_created s"

lemma same_staticD:
  assumes "same_static t s"
  shows "gs_digest t = gs_digest s" "gs_repository t = gs_repository s" "gs_stage t = gs_stage s"
    "gs_generation t = gs_generation s" "gs_class t = gs_class s" "gs_items t = gs_items s" "gs_chunk_items t = gs_chunk_items s"
    "gs_max_attempts t = gs_max_attempts s" "gs_tokens t = gs_tokens s" "gs_total_chunks t = gs_total_chunks s"
    "static_ok sha t = static_ok sha s" "is_cur sha cur t = is_cur sha cur s"
  using assms by (auto simp: same_static_def spec_of_def static_ok_def is_cur_def)

lemma chunk_ok_static: "same_static t s \<Longrightarrow> gs_next s \<le> gs_next t \<Longrightarrow> chunk_ok sha s c \<Longrightarrow> chunk_ok sha t c"
  by (auto simp: chunk_ok_def same_staticD)

lemma dates_ok_static: "same_static t s \<Longrightarrow> dates_ok clock s \<Longrightarrow> clock \<le> now \<Longrightarrow> gs_updated t = now \<Longrightarrow> dates_ok now t"
  by (simp add: dates_ok_def same_static_def)

lemma same_static_refl [simp]: "same_static s s"
  by (simp add: same_static_def)

lemma same_static_superseded [simp]: "same_static (superseded_by now s) s"
  by (simp add: same_static_def superseded_by_def spec_of_def)

lemma repos_okD:
  assumes "repos_ok sha d"
  shows "s \<in> set (gd_schedules d) \<Longrightarrow> \<exists>r. gd_repos d (generationRepositoryID sha (gs_repository s)) = Some r"
    "gd_repos d k = Some r \<Longrightarrow> rs_running r = num (running_at sha k) (gd_chunks d)"
    "gd_repos d k = Some r \<Longrightarrow> rs_running r \<le> MaxGenerationRepositoryTokens"
  using assms unfolding repos_ok_def by blast+

lemma repos_okI:
  assumes "\<And>s. s \<in> set (gd_schedules d) \<Longrightarrow> gd_repos d (generationRepositoryID sha (gs_repository s)) \<noteq> None"
    and "\<And>k r. gd_repos d k = Some r \<Longrightarrow> rs_running r = num (running_at sha k) (gd_chunks d) \<and>
      rs_running r \<le> MaxGenerationRepositoryTokens"
  shows "repos_ok sha d"
  using assms unfolding repos_ok_def by blast

lemma current_okD:
  assumes "current_ok sha d"
  shows "gd_current d k = Some cu \<Longrightarrow> pointer_ok sha (gd_schedules d) k cu"
    "s \<in> set (gd_schedules d) \<Longrightarrow> gs_status s = GenerationScheduleActive \<Longrightarrow> is_cur sha (gd_current d) s"
    "s \<in> set (gd_schedules d) \<Longrightarrow> is_cur sha (gd_current d) s \<Longrightarrow> gs_status s \<noteq> GenerationScheduleSuperseded"
    "s \<in> set (gd_schedules d) \<Longrightarrow> is_cur sha (gd_current d) s \<Longrightarrow> exact (gd_chunks d) s"
  using assms unfolding current_ok_def by blast+

lemma current_okI:
  assumes "\<And>k cu. gd_current d k = Some cu \<Longrightarrow> pointer_ok sha (gd_schedules d) k cu"
    and "\<And>s. s \<in> set (gd_schedules d) \<Longrightarrow> gs_status s = GenerationScheduleActive \<Longrightarrow> is_cur sha (gd_current d) s"
    and "\<And>s. s \<in> set (gd_schedules d) \<Longrightarrow> is_cur sha (gd_current d) s \<Longrightarrow>
      gs_status s \<noteq> GenerationScheduleSuperseded \<and> exact (gd_chunks d) s"
  shows "current_ok sha d"
  using assms unfolding current_ok_def by blast

lemma pointer_ok_map:
  assumes "pointer_ok sha ss k cu" and "\<And>s. s \<in> set ss \<Longrightarrow> same_static (f s) s"
  shows "pointer_ok sha (map f ss) k cu"
proof -
  obtain s where s: "s \<in> set ss" "gs_digest s = cu_digest cu" "gs_repository s = cu_repository cu" "gs_stage s = cu_stage cu"
    "generationCurrentID sha (gs_repository s) (gs_stage s) = k" using assms(1) unfolding pointer_ok_def by blast
  show ?thesis using s same_staticD(1-3) [OF assms(2) [OF s(1)]] unfolding pointer_ok_def by (intro bexI [of _ "f s"]) auto
qed

section \<open>Rows\<close>

lemma schedule_eq:
  "keys_ok d \<Longrightarrow> s \<in> set (gd_schedules d) \<Longrightarrow> t \<in> set (gd_schedules d) \<Longrightarrow> gs_digest s = gs_digest t \<Longrightarrow> s = t"
  by (auto simp: keys_ok_def distinct_map inj_on_def)

lemma chunk_eq:
  "keys_ok d \<Longrightarrow> x \<in> set (gd_chunks d) \<Longrightarrow> y \<in> set (gd_chunks d) \<Longrightarrow> gc_id x = gc_id y \<Longrightarrow> x = y"
  by (auto simp: keys_ok_def distinct_map inj_on_def)

lemma chunk_linked:
  assumes "keys_ok d" "links_ok sha d" "s \<in> set (gd_schedules d)" "c \<in> set (gd_chunks d)" "gc_digest c = gs_digest s"
  shows "chunk_ok sha s c"
proof -
  obtain t where t: "t \<in> set (gd_schedules d)" "gc_digest c = gs_digest t" "chunk_ok sha t c"
    using assms(2,4) unfolding links_ok_def by blast
  then show ?thesis using schedule_eq [OF assms(1,3) t(1)] assms(5) by simp
qed

lemma chunk_at:
  assumes "keys_ok d" "links_ok sha d" "x \<in> set (gd_chunks d)" "y \<in> set (gd_chunks d)"
    and "gc_digest x = gc_digest y" "gc_offset x = gc_offset y" "gc_attempt x = gc_attempt y"
  shows "x = y"
proof -
  have "gc_identity x = gc_identity y" using assms(2-7) unfolding links_ok_def chunk_ok_def by metis
  then show ?thesis using assms(1,3,4) by (auto simp: keys_ok_def distinct_map inj_on_def)
qed

lemma normalized_bounds:
  assumes "normalizeGenerationScheduleSpec p = Inr p"
  shows "1 \<le> gp_items p" "1 \<le> gp_chunk_items p" "1 \<le> gp_attempts p" "1 \<le> gp_tokens p" "gp_tokens p \<le> MaxGenerationRepositoryTokens"
  using assms by (auto simp: normalizeGenerationScheduleSpec_def split: if_splits)

lemma static_bounds:
  assumes "static_ok sha s"
  shows "1 \<le> gs_items s" "1 \<le> gs_chunk_items s" "1 \<le> gs_max_attempts s" "1 \<le> gs_tokens s" "gs_tokens s \<le> MaxGenerationRepositoryTokens"
  using normalized_bounds [of "spec_of s"] assms by (auto simp: static_ok_def spec_of_def)

lemma chunk_count_bounds:
  assumes "1 \<le> per"
  shows "items \<le> chunk_count items per * per" "(chunk_count items per - 1) * per < items"
proof -
  have "(items + per - 1) div per * per = items + per - 1 - (items + per - 1) mod per" by (simp add: minus_mod_eq_div_mult)
  moreover have "0 \<le> (items + per - 1) mod per" "(items + per - 1) mod per < per" using assms by simp_all
  ultimately show "items \<le> chunk_count items per * per" "(chunk_count items per - 1) * per < items"
    unfolding chunk_count_def by (simp_all add: left_diff_distrib)
qed

lemma validI:
  assumes "static_ok sha s" "counters_ok s" "dates_ok clock s" "status_ok s"
  shows "ValidateGenerationSchedule sha s = None"
  using assms unfolding ValidateGenerationSchedule_def static_ok_def counters_ok_def dates_ok_def status_ok_def by auto

section \<open>Superseding schedules\<close>

lemma dates_ok_later: "dates_ok clock s \<Longrightarrow> clock \<le> now \<Longrightarrow> dates_ok now s"
  by (simp add: dates_ok_def)

lemma sched_row_ok_later: "sched_row_ok sha clock xs s \<Longrightarrow> clock \<le> now \<Longrightarrow> sched_row_ok sha now xs s"
  by (auto simp: sched_row_ok_def intro: dates_ok_later)

lemma superseded_by_simps [simp]:
  "gs_digest (superseded_by now s) = gs_digest s" "gs_repository (superseded_by now s) = gs_repository s"
  "gs_stage (superseded_by now s) = gs_stage s" "gs_status (superseded_by now s) = GenerationScheduleSuperseded"
  by (simp_all add: superseded_by_def)

lemma sched_row_ok_superseded:
  assumes "sched_row_ok sha clock xs s" and "clock \<le> now"
  shows "sched_row_ok sha now xs (superseded_by now s)"
proof -
  have "counters_ok (superseded_by now s) = counters_ok s" by (simp add: counters_ok_def superseded_by_def)
  moreover have "dates_ok now (superseded_by now s)"
    using assms dates_ok_static [of "superseded_by now s" s clock now] by (auto simp: sched_row_ok_def) (simp add: superseded_by_def)
  ultimately show ?thesis using assms same_staticD(11) [OF same_static_superseded]
    by (simp add: sched_row_ok_def status_ok_def) (simp add: superseded_by_def)
qed

lemma chunk_ok_superseded [simp]: "chunk_ok sha (superseded_by now s) c = chunk_ok sha s c"
  by (simp add: chunk_ok_def superseded_by_def)

lemma is_cur_superseded [simp]: "is_cur sha cur (superseded_by now s) = is_cur sha cur s"
  by (simp add: is_cur_def)

lemma cur_schedule:
  assumes "gen_inv sha clock d" "gd_current d k = Some cu" "s \<in> set (gd_schedules d)" "gs_digest s = cu_digest cu"
  shows "cu_repository cu = gs_repository s" "cu_stage cu = gs_stage s" "generationCurrentID sha (gs_repository s) (gs_stage s) = k"
proof -
  obtain t where t: "t \<in> set (gd_schedules d)" "gs_digest t = cu_digest cu" "gs_repository t = cu_repository cu"
    "gs_stage t = cu_stage cu" "generationCurrentID sha (gs_repository t) (gs_stage t) = k"
    using current_okD(1) [OF gen_invD(6) [OF assms(1)] assms(2)] unfolding pointer_ok_def by blast
  then have "s = t" using schedule_eq [OF gen_invD(1) [OF assms(1)] assms(3) t(1)] assms(4) by simp
  then show "cu_repository cu = gs_repository s" "cu_stage cu = gs_stage s"
    "generationCurrentID sha (gs_repository s) (gs_stage s) = k" using t by simp_all
qed

lemma is_cur_mono: "is_cur sha cur' s \<Longrightarrow> (\<And>k cu. cur' k = Some cu \<Longrightarrow> cur k = Some cu) \<Longrightarrow> is_cur sha cur s"
  unfolding is_cur_def by blast

lemma inv_retire:
  assumes inv: "gen_inv sha clock d" and now: "clock \<le> now"
    and d': "gd_chunks d' = gd_chunks d" "gd_repos d' = gd_repos d" "gd_schedules d' = map g (gd_schedules d)"
    and sub: "\<And>k cu. gd_current d' k = Some cu \<Longrightarrow> gd_current d k = Some cu"
    and g: "\<And>s. s \<in> set (gd_schedules d) \<Longrightarrow> g s = s \<or> g s = superseded_by now s"
    and act: "\<And>s. s \<in> set (gd_schedules d) \<Longrightarrow> gs_status s = GenerationScheduleActive \<Longrightarrow> g s = s \<Longrightarrow> is_cur sha (gd_current d') s"
    and cur: "\<And>s. s \<in> set (gd_schedules d) \<Longrightarrow> is_cur sha (gd_current d') s \<Longrightarrow> g s = s"
  shows "gen_inv sha now d'"
proof (rule gen_invI)
  note I = gen_invD [OF inv]
  have st: "same_static (g s) s" if "s \<in> set (gd_schedules d)" for s using g [OF that] by auto
  have dg: "gs_digest (g s) = gs_digest s" "gs_repository (g s) = gs_repository s" "gs_stage (g s) = gs_stage s"
    "chunk_ok sha (g s) c = chunk_ok sha s c" if "s \<in> set (gd_schedules d)" for s c
    using g [OF that] by auto
  have "map gs_digest (gd_schedules d') = map gs_digest (gd_schedules d)" using dg by (simp add: d' comp_def)
  then show "keys_ok d'" using I(1) by (simp only: keys_ok_def d')
  show "links_ok sha d'" using I(2) dg unfolding links_ok_def d' by fastforce
  show "order_ok (gd_chunks d')" using I(3) by (simp add: d')
  show "sched_row_ok sha now (gd_chunks d') s" if s: "s \<in> set (gd_schedules d')" for s
  proof -
    obtain t where t: "t \<in> set (gd_schedules d)" "s = g t" using s by (auto simp: d')
    show ?thesis using g [OF t(1)] sched_row_ok_superseded [OF I(4) [OF t(1)] now] sched_row_ok_later [OF I(4) [OF t(1)] now] t(2)
      by (auto simp: d')
  qed
  show "repos_ok sha d'"
    using repos_okD [OF I(5)] dg(2) by (intro repos_okI) (auto simp: d')
  show "current_ok sha d'"
  proof (rule current_okI)
    show "pointer_ok sha (gd_schedules d') k cu" if "gd_current d' k = Some cu" for k cu
      unfolding d' by (rule pointer_ok_map [OF current_okD(1) [OF I(6) sub [OF that]] st])
    fix s assume s: "s \<in> set (gd_schedules d')"
    then obtain t where t: "t \<in> set (gd_schedules d)" "s = g t" by (auto simp: d')
    have same: "is_cur sha (gd_current d') s = is_cur sha (gd_current d') t" using g [OF t(1)] t(2) by auto
    show "is_cur sha (gd_current d') s" if "gs_status s = GenerationScheduleActive"
    proof -
      have "g t = t" using g [OF t(1)] that t(2) by auto
      then show ?thesis using act [OF t(1)] that t(2) by simp
    qed
    assume c: "is_cur sha (gd_current d') s"
    then have "s = t" using cur [OF t(1)] same t(2) by simp
    moreover have "is_cur sha (gd_current d) t" using c sub unfolding same by (rule is_cur_mono)
    ultimately show "gs_status s \<noteq> GenerationScheduleSuperseded \<and> exact (gd_chunks d') s"
      using current_okD(3,4) [OF I(6) t(1)] by (simp add: d'(1))
  qed
qed

lemma active_cur:
  "gen_inv sha clock d \<Longrightarrow> s \<in> set (gd_schedules d) \<Longrightarrow> gs_status s = GenerationScheduleActive \<Longrightarrow> is_cur sha (gd_current d) s"
  by (drule gen_invD(6)) (rule current_okD(2))

text \<open>Dropping a current pointer, with the schedule it names superseded.\<close>

lemma inv_drop_current:
  assumes inv: "gen_inv sha clock d" and now: "clock \<le> now"
    and cu: "gd_current d key = Some cu" "cu_digest cu = g"
    and f: "\<And>s. f s = superseded_by now s \<or> f s = s \<and> gs_status s \<noteq> GenerationScheduleActive"
  shows "gen_inv sha now ((upd_sched g f d)\<lparr>gd_current := (gd_current d)(key := None)\<rparr>)" (is "gen_inv sha now ?d")
proof (rule inv_retire [OF inv now, where g = "\<lambda>s. if gs_digest s = g then f s else s"])
  show "gd_current d k = Some cu'" if "gd_current ?d k = Some cu'" for k cu' using that by (auto split: if_splits)
  fix s assume s: "s \<in> set (gd_schedules d)"
  show "(if gs_digest s = g then f s else s) = s \<or> (if gs_digest s = g then f s else s) = superseded_by now s"
    using f [of s] by auto
  show "is_cur sha (gd_current ?d) s"
    if a: "gs_status s = GenerationScheduleActive" and e: "(if gs_digest s = g then f s else s) = s"
  proof -
    have "gs_digest s \<noteq> g"
    proof
      assume "gs_digest s = g"
      then have "gs_status (superseded_by now s) = GenerationScheduleActive" using f [of s] a e by auto
      then show False by simp
    qed
    then show ?thesis using active_cur [OF inv s a] cu by (auto simp: is_cur_def)
  qed
  assume c: "is_cur sha (gd_current ?d) s"
  have "gs_digest s \<noteq> g" using cur_schedule(3) [OF inv cu(1) s] cu(2) c by (auto simp: is_cur_def)
  then show "(if gs_digest s = g then f s else s) = s" by simp
qed (simp_all add: upd_sched_def)

lemma current_digest_Some: "current_digest sha r st d = Some g \<longleftrightarrow>
    (\<exists>cu. gd_current d (generationCurrentID sha r st) = Some cu \<and> cu_digest cu = g)"
  by (auto simp: current_digest_def)

lemma inv_later: "gen_inv sha clock d \<Longrightarrow> clock \<le> now \<Longrightarrow> gen_inv sha now d"
  unfolding gen_inv_def using sched_row_ok_later by blast

lemma inv_retireCurrent:
  assumes "gen_inv sha clock d" "clock \<le> now"
  shows "gen_inv sha now (snd (retireCurrentSQL sha now e d))"
proof -
  let ?key = "generationCurrentID sha (gs_repository e) (gs_stage e)"
  let ?f = "\<lambda>s. if gs_status s = GenerationScheduleActive then superseded_by now s else s"
  show ?thesis
  proof (cases "snd (retireCurrentSQL sha now e d) = d")
    case True
    show ?thesis unfolding True by (rule inv_later [OF assms])
  next
    case False
    then obtain cu where cu: "gd_current d ?key = Some cu" "cu_digest cu = gs_digest e"
      by (auto simp: retireCurrentSQL_def Let_def split: option.splits if_splits)
    have "snd (retireCurrentSQL sha now e d) = (upd_sched (gs_digest e) ?f d)\<lparr>gd_current := (gd_current d)(?key := None)\<rparr>"
      using False by (auto simp: retireCurrentSQL_def Let_def split: if_splits)
    then show ?thesis using inv_drop_current [OF assms cu, of ?f] by simp
  qed
qed

lemma inv_diagnosticFence:
  assumes "gen_inv sha clock d" "clock \<le> now"
  shows "gen_inv sha now (snd (diagnosticFenceSQL sha now sel d))"
proof -
  let ?key = "generationCurrentID sha (gc_repository sel) (gc_stage sel)"
  let ?P = "\<lambda>x. gc_identity x = gc_identity sel \<and> gc_repository x = gc_repository sel \<and> gc_stage x = gc_stage sel \<and>
    gc_generation x = gc_generation sel \<and> gc_attempt x = gc_attempt sel \<and> gc_status x = GenerationChunkRunning"
  show ?thesis
  proof (cases "find ?P (gd_chunks d)")
    case None
    then show ?thesis using inv_later [OF assms] by (simp add: diagnosticFenceSQL_def)
  next
    case (Some x)
    show ?thesis
    proof (cases "current_digest sha (gc_repository sel) (gc_stage sel) d = Some (gc_digest x)")
      case True
      then obtain cu where cu: "gd_current d ?key = Some cu" "cu_digest cu = gc_digest x" by (auto simp: current_digest_Some)
      show ?thesis using True Some inv_drop_current [OF assms cu, of "superseded_by now"] by (simp add: diagnosticFenceSQL_def)
    next
      case False
      then show ?thesis using Some inv_later [OF assms] by (simp add: diagnosticFenceSQL_def)
    qed
  qed
qed

lemma inv_forgetRepository:
  assumes inv: "gen_inv sha clock d" and now: "clock \<le> now"
  shows "gen_inv sha now (snd (forgetRepositorySQL now name stages d))" (is "gen_inv sha now ?d")
proof -
  let ?g = "\<lambda>s. if gs_repository s = name \<and> gs_status s = GenerationScheduleActive \<and> gs_stage s \<in> set stages then superseded_by now s else s"
  have sub: "gd_current d k = Some cu \<and> \<not> (cu_repository cu = name \<and> cu_stage cu \<in> set stages)"
    if "gd_current ?d k = Some cu" for k cu
    using that by (auto simp: forgetRepositorySQL_def split: option.splits if_splits)
  have hit: "gs_repository s = name \<and> gs_stage s \<in> set stages \<longleftrightarrow> \<not> is_cur sha (gd_current ?d) s"
    if s: "s \<in> set (gd_schedules d)" and c: "is_cur sha (gd_current d) s" for s
  proof -
    let ?k = "generationCurrentID sha (gs_repository s) (gs_stage s)"
    obtain cu where cu: "gd_current d ?k = Some cu" "cu_digest cu = gs_digest s" using c by (auto simp: is_cur_def)
    note n = cur_schedule [OF inv cu(1) s cu(2) [symmetric]]
    show ?thesis using cu n by (auto simp: is_cur_def forgetRepositorySQL_def)
  qed
  show ?thesis
  proof (rule inv_retire [OF inv now, where g = ?g])
    show "gd_chunks ?d = gd_chunks d" "gd_repos ?d = gd_repos d" "gd_schedules ?d = map ?g (gd_schedules d)"
      by (simp_all add: forgetRepositorySQL_def)
    show "gd_current d k = Some cu" if "gd_current ?d k = Some cu" for k cu using sub [OF that] by simp
    fix s assume s: "s \<in> set (gd_schedules d)"
    show "?g s = s \<or> ?g s = superseded_by now s" by simp
    show "is_cur sha (gd_current ?d) s" if a: "gs_status s = GenerationScheduleActive" and e: "?g s = s"
    proof -
      have "\<not> (gs_repository s = name \<and> gs_stage s \<in> set stages)"
      proof
        assume "gs_repository s = name \<and> gs_stage s \<in> set stages"
        then have "gs_status (superseded_by now s) = GenerationScheduleActive" using a e by simp
        then show False by simp
      qed
      then show ?thesis using hit [OF s active_cur [OF inv s a]] by simp
    qed
    assume c: "is_cur sha (gd_current ?d) s"
    then have "is_cur sha (gd_current d) s" by (rule is_cur_mono) (simp add: sub)
    then show "?g s = s" using hit [OF s] c by auto
  qed
qed

section \<open>Enqueueing\<close>

text \<open>Digests identify specifications: SHA-256 does not collide on the rows of the table.\<close>

definition digest_known :: "hasher \<Rightarrow> gspec \<Rightarrow> gdata \<Rightarrow> bool" where
  "digest_known sha p d \<longleftrightarrow> (\<forall>s \<in> set (gd_schedules d). gs_digest s = generationScheduleDigest sha p \<longrightarrow> spec_of s = p)"

definition current_row :: "hasher \<Rightarrow> gspec \<Rightarrow> int \<Rightarrow> gcurrent" where
  "current_row sha p now = \<lparr>cu_repository = gp_repository p, cu_stage = gp_stage p, cu_digest = generationScheduleDigest sha p,
     cu_generation = gp_generation p, cu_updated = now\<rparr>"

definition repo_row :: "gspec \<Rightarrow> int \<Rightarrow> grepo option \<Rightarrow> grepo" where
  "repo_row p now r = (case r of None \<Rightarrow> \<lparr>rs_repository = gp_repository p, rs_running = 0, rs_claimed = None, rs_updated = now\<rparr>
     | Some r \<Rightarrow> r\<lparr>rs_repository := gp_repository p, rs_updated := now\<rparr>)"

definition point_at :: "hasher \<Rightarrow> gspec \<Rightarrow> int \<Rightarrow> gdata \<Rightarrow> gdata" where
  "point_at sha p now d =
     d\<lparr>gd_current := (gd_current d)(generationCurrentID sha (gp_repository p) (gp_stage p) \<mapsto> current_row sha p now),
       gd_repos := (gd_repos d)(generationRepositoryID sha (gp_repository p) \<mapsto>
         repo_row p now (gd_repos d (generationRepositoryID sha (gp_repository p))))\<rparr>"

lemma new_schedule_simps [simp]:
  "spec_of (new_schedule sha p now) = p" "gs_digest (new_schedule sha p now) = generationScheduleDigest sha p"
  "gs_repository (new_schedule sha p now) = gp_repository p" "gs_stage (new_schedule sha p now) = gp_stage p"
  "gs_status (new_schedule sha p now) = GenerationScheduleActive"
  by (simp_all add: new_schedule_def spec_of_def)

lemma no_running_at:
  assumes inv: "gen_inv sha clock d" and none: "gd_repos d k = None"
  shows "num (running_at sha k) (gd_chunks d) = 0"
proof (rule num_none)
  fix c assume "c \<in> set (gd_chunks d)"
  then obtain s where s: "s \<in> set (gd_schedules d)" "chunk_ok sha s c" using gen_invD(2) [OF inv] unfolding links_ok_def by blast
  then have "generationRepositoryID sha (gc_repository c) \<noteq> k"
    using repos_okD(1) [OF gen_invD(5) [OF inv] s(1)] none by (auto simp: chunk_ok_def)
  then show "\<not> running_at sha k c" by (simp add: running_at_def)
qed

lemma repos_ok_row:
  assumes inv: "gen_inv sha clock d"
  shows "rs_running (repo_row p now (gd_repos d k)) = num (running_at sha k) (gd_chunks d)"
    "rs_running (repo_row p now (gd_repos d k)) \<le> MaxGenerationRepositoryTokens"
  using repos_okD(2,3) [OF gen_invD(5) [OF inv], of k] no_running_at [OF inv, of k]
  by (cases "gd_repos d k"; simp add: repo_row_def)+

lemma repos_ok_point:
  assumes inv: "gen_inv sha clock d"
    and ss: "\<And>s. s \<in> set (gd_schedules d') \<Longrightarrow> s \<in> set (gd_schedules d) \<or> gs_repository s = gp_repository p"
    and d': "gd_chunks d' = gd_chunks d" "gd_repos d' = gd_repos (point_at sha p now d)"
  shows "repos_ok sha d'"
proof (rule repos_okI)
  show "gd_repos d' (generationRepositoryID sha (gs_repository s)) \<noteq> None" if "s \<in> set (gd_schedules d')" for s
    using ss [OF that] repos_okD(1) [OF gen_invD(5) [OF inv], of s] by (auto simp: d' point_at_def)
  show "rs_running r = num (running_at sha k) (gd_chunks d') \<and> rs_running r \<le> MaxGenerationRepositoryTokens"
    if "gd_repos d' k = Some r" for k r
    using that repos_okD(2,3) [OF gen_invD(5) [OF inv], of k] repos_ok_row [OF inv, of p now k]
    by (auto simp: d' point_at_def split: if_splits)
qed

lemma inv_repoint:
  assumes inv: "gen_inv sha clock d" and known: "digest_known sha p d"
    and cur: "current_digest sha (gp_repository p) (gp_stage p) d = Some (generationScheduleDigest sha p)"
  shows "gen_inv sha clock (point_at sha p now d)" (is "gen_inv sha clock ?d")
proof (rule gen_invI)
  note I = gen_invD [OF inv]
  let ?key = "generationCurrentID sha (gp_repository p) (gp_stage p)"
  obtain cu where cu: "gd_current d ?key = Some cu" "cu_digest cu = generationScheduleDigest sha p"
    using cur by (auto simp: current_digest_Some)
  have cur': "is_cur sha (gd_current ?d) s = is_cur sha (gd_current d) s" for s
    using cu by (auto simp: is_cur_def point_at_def current_row_def)
  show "keys_ok ?d" "links_ok sha ?d" "order_ok (gd_chunks ?d)" using I(1-3)
    by (simp_all add: keys_ok_def links_ok_def point_at_def)
  show "sched_row_ok sha clock (gd_chunks ?d) s" if "s \<in> set (gd_schedules ?d)" for s using I(4) that by (simp add: point_at_def)
  show "repos_ok sha ?d" by (rule repos_ok_point [OF inv]) (auto simp: point_at_def)
  show "current_ok sha ?d"
  proof (rule current_okI)
    fix k cu' assume k: "gd_current ?d k = Some cu'"
    show "pointer_ok sha (gd_schedules ?d) k cu'"
    proof (cases "k = ?key")
      case True
      obtain s where s: "s \<in> set (gd_schedules d)" "gs_digest s = cu_digest cu"
        using current_okD(1) [OF I(6) cu(1)] unfolding pointer_ok_def by blast
      then have "spec_of s = p" using known cu(2) by (simp add: digest_known_def)
      then have "gs_repository s = gp_repository p" "gs_stage s = gp_stage p" by (auto simp: spec_of_def)
      moreover have "cu' = current_row sha p now" using True k by (simp add: point_at_def)
      ultimately show ?thesis using s True cu(2) unfolding pointer_ok_def
        by (intro bexI [of _ s]) (simp_all add: point_at_def current_row_def)
    next
      case False
      then have "gd_current d k = Some cu'" using k by (simp add: point_at_def)
      then show ?thesis using current_okD(1) [OF I(6)] by (simp add: point_at_def)
    qed
  next
    fix s assume "s \<in> set (gd_schedules ?d)"
    then have s: "s \<in> set (gd_schedules d)" by (simp add: point_at_def)
    show "is_cur sha (gd_current ?d) s" if "gs_status s = GenerationScheduleActive"
      using current_okD(2) [OF I(6) s that] by (simp add: cur')
    show "gs_status s \<noteq> GenerationScheduleSuperseded \<and> exact (gd_chunks ?d) s" if "is_cur sha (gd_current ?d) s"
      using current_okD(3,4) [OF I(6) s] that unfolding cur' by (simp add: point_at_def)
  qed
qed

lemma new_schedule_ok:
  assumes "normalizeGenerationScheduleSpec p = Inr p" and "0 < now" and "\<forall>c \<in> set xs. gc_digest c \<noteq> generationScheduleDigest sha p"
  shows "sched_row_ok sha now xs (new_schedule sha p now)" "exact xs (new_schedule sha p now)"
proof -
  note b = normalized_bounds [OF assms(1)]
  have zero: "num (in_status (generationScheduleDigest sha p) st) xs = 0" "num (in_schedule (generationScheduleDigest sha p)) xs = 0"
    "num (first_try (generationScheduleDigest sha p)) xs = 0" for st
    using assms(3) by (auto intro: num_none)
  have "0 < chunk_count (gp_items p) (gp_chunk_items p) * gp_chunk_items p"
    using chunk_count_bounds(1) [OF b(2), of "gp_items p"] b(1) by linarith
  then have pos: "0 < chunk_count (gp_items p) (gp_chunk_items p)" using b(2) by (simp add: zero_less_mult_iff)
  have "static_ok sha (new_schedule sha p now)" using assms(1) by (simp add: static_ok_def) (simp add: new_schedule_def)
  moreover have "counters_ok (new_schedule sha p now)" using pos b by (simp add: counters_ok_def new_schedule_def)
  moreover have "dates_ok now (new_schedule sha p now)" using assms(2) by (simp add: dates_ok_def new_schedule_def)
  ultimately show "sched_row_ok sha now xs (new_schedule sha p now)" using zero
    by (simp add: sched_row_ok_def status_ok_def) (simp add: new_schedule_def)
  show "exact xs (new_schedule sha p now)" using zero pos b by (simp add: exact_def) (simp add: new_schedule_def)
qed

lemma inv_new_schedule:
  assumes inv: "gen_inv sha now d" and p: "normalizeGenerationScheduleSpec p = Inr p" and now: "0 < now"
    and new: "\<not> list_ex (\<lambda>s. gs_digest s = generationScheduleDigest sha p) (gd_schedules d)"
    and free: "gd_current d (generationCurrentID sha (gp_repository p) (gp_stage p)) = None"
  shows "gen_inv sha now (point_at sha p now (d\<lparr>gd_schedules := gd_schedules d @ [new_schedule sha p now]\<rparr>))" (is "gen_inv sha now ?d")
proof (rule gen_invI)
  note I = gen_invD [OF inv]
  let ?s = "new_schedule sha p now"
  let ?key = "generationCurrentID sha (gp_repository p) (gp_stage p)"
  have d': "gd_schedules ?d = gd_schedules d @ [?s]" "gd_chunks ?d = gd_chunks d"
    "gd_current ?d = (gd_current d)(?key \<mapsto> current_row sha p now)" by (simp_all add: point_at_def)
  have fresh: "gs_digest s \<noteq> generationScheduleDigest sha p" if "s \<in> set (gd_schedules d)" for s
    using new that by (auto simp: list_ex_iff)
  have unused: "\<forall>c \<in> set (gd_chunks d). gc_digest c \<noteq> generationScheduleDigest sha p"
    using I(2) fresh unfolding links_ok_def by metis
  note s_ok = new_schedule_ok [OF p now unused]
  have "generationScheduleDigest sha p \<notin> gs_digest ` set (gd_schedules d)" using fresh by (metis imageE)
  then show "keys_ok ?d" using I(1) unfolding keys_ok_def d' by simp
  show "links_ok sha ?d" using I(2) unfolding links_ok_def d' by fastforce
  show "order_ok (gd_chunks ?d)" using I(3) by (simp add: d')
  show "sched_row_ok sha now (gd_chunks ?d) s" if "s \<in> set (gd_schedules ?d)" for s
    using that I(4) s_ok(1) by (auto simp: d')
  show "repos_ok sha ?d" by (rule repos_ok_point [OF inv, where p = p and now = now]) (auto simp: point_at_def)
  have cur: "is_cur sha (gd_current ?d) s = is_cur sha (gd_current d) s" if "s \<in> set (gd_schedules d)" for s
    using fresh [OF that] free by (auto simp: is_cur_def d' current_row_def)
  show "current_ok sha ?d"
  proof (rule current_okI)
    fix k cu assume k: "gd_current ?d k = Some cu"
    show "pointer_ok sha (gd_schedules ?d) k cu"
    proof (cases "k = ?key")
      case True
      then have "cu = current_row sha p now" using k by (simp add: d')
      then show ?thesis using True by (simp add: pointer_ok_def d' current_row_def)
    next
      case False
      then have "pointer_ok sha (gd_schedules d) k cu" using k current_okD(1) [OF I(6)] by (simp add: d')
      then show ?thesis by (auto simp: pointer_ok_def d')
    qed
  next
    fix s assume "s \<in> set (gd_schedules ?d)"
    then consider "s \<in> set (gd_schedules d)" | "s = ?s" by (auto simp: d')
    note s = this
    show "is_cur sha (gd_current ?d) s" if "gs_status s = GenerationScheduleActive"
      using s
    proof cases
      case 1 then show ?thesis using current_okD(2) [OF I(6) 1 that] cur by simp
    next
      case 2 then show ?thesis by (simp add: is_cur_def d' current_row_def)
    qed
    show "gs_status s \<noteq> GenerationScheduleSuperseded \<and> exact (gd_chunks ?d) s" if c: "is_cur sha (gd_current ?d) s"
      using s
    proof cases
      case 1 then show ?thesis using current_okD(3,4) [OF I(6) 1] cur [OF 1] c by (simp add: d')
    next
      case 2 then show ?thesis using s_ok(2) by (simp add: d')
    qed
  qed
qed

definition supersede_prior :: "hasher \<Rightarrow> int \<Rightarrow> gspec \<Rightarrow> gdata \<Rightarrow> gsched \<Rightarrow> gsched" where
  "supersede_prior sha now p d s =
     (if current_digest sha (gp_repository p) (gp_stage p) d = Some (gs_digest s) \<and> gs_digest s \<noteq> generationScheduleDigest sha p \<and>
         gs_status s = GenerationScheduleActive then superseded_by now s else s)"

lemma filter_single:
  assumes "distinct (map f xs)" and "\<And>x y. P x \<Longrightarrow> P y \<Longrightarrow> f x = f y"
  shows "filter P xs = [] \<or> (\<exists>x. filter P xs = [x])"
proof (cases "filter P xs")
  case (Cons a ys)
  have "distinct (map f (filter P xs))" using assms(1) by (simp add: distinct_map_filter)
  moreover have "P y" if "y \<in> set (a # ys)" for y using that Cons [symmetric] by simp
  ultimately show ?thesis using Cons assms(2) by (cases ys) auto
qed simp

text \<open>The prior census holds at most one schedule, and the transaction supersedes exactly that one.\<close>

lemma enqueue_prior:
  assumes keys: "keys_ok d"
  shows "(case snd (enqueueGenerationSchedulePriorSQL sha p d) of
      [old] \<Rightarrow> upd_sched old (\<lambda>s. if Some (gs_digest s) = fst (enqueueGenerationSchedulePriorSQL sha p d) \<and>
        gs_status s = GenerationScheduleActive then superseded_by now s else s) d
    | _ \<Rightarrow> d) = d\<lparr>gd_schedules := map (supersede_prior sha now p d) (gd_schedules d)\<rparr>"
proof -
  let ?old = "current_digest sha (gp_repository p) (gp_stage p) d"
  let ?P = "\<lambda>s. Some (gs_digest s) = ?old \<and> gs_status s = GenerationScheduleActive"
  have fst: "fst (enqueueGenerationSchedulePriorSQL sha p d) = ?old" by (simp add: enqueueGenerationSchedulePriorSQL_def Let_def)
  show ?thesis
  proof (cases "?old = None \<or> ?old = Some (generationScheduleDigest sha p)")
    case True
    then have "supersede_prior sha now p d = (\<lambda>s. s)" by (intro ext) (auto simp: supersede_prior_def)
    then show ?thesis using True by (auto simp: enqueueGenerationSchedulePriorSQL_def Let_def)
  next
    case False
    have "filter ?P (gd_schedules d) = [] \<or> (\<exists>x. filter ?P (gd_schedules d) = [x])"
      by (rule filter_single [where f = gs_digest]) (use keys in \<open>simp add: keys_ok_def\<close>, metis option.inject)
    then show ?thesis
    proof (elim disjE exE)
      assume none: "filter ?P (gd_schedules d) = []"
      then have "map (supersede_prior sha now p d) (gd_schedules d) = gd_schedules d"
        by (intro map_idI) (auto simp: supersede_prior_def filter_empty_conv)
      then show ?thesis using none False by (simp add: enqueueGenerationSchedulePriorSQL_def Let_def)
    next
      fix x assume one: "filter ?P (gd_schedules d) = [x]"
      then have "x \<in> set (filter ?P (gd_schedules d))" by simp
      then have x: "Some (gs_digest x) = ?old" by simp
      have eq: "(if gs_digest s = gs_digest x then if Some (gs_digest s) = ?old \<and> gs_status s = GenerationScheduleActive
          then superseded_by now s else s else s) = supersede_prior sha now p d s" for s
      proof (cases "gs_digest s = gs_digest x \<and> gs_status s = GenerationScheduleActive")
        case True
        then have "Some (gs_digest s) = ?old" "?old = Some (gs_digest s)" "gs_digest s \<noteq> generationScheduleDigest sha p"
          using x False by (simp, metis, metis)
        then show ?thesis unfolding supersede_prior_def using True by simp
      next
        case f: False
        then have "\<not> (?old = Some (gs_digest s) \<and> gs_digest s \<noteq> generationScheduleDigest sha p \<and> gs_status s = GenerationScheduleActive)"
          using x by (metis option.inject)
        then show ?thesis unfolding supersede_prior_def using f by (simp only: if_False) auto
      qed
      have "enqueueGenerationSchedulePriorSQL sha p d = (?old, [gs_digest x])"
        using one False by (simp add: enqueueGenerationSchedulePriorSQL_def Let_def)
      then show ?thesis by (simp only: snd_conv fst_conv list.case upd_sched_def eq)
    qed
  qed
qed

lemma enqueue_result:
  assumes "keys_ok d"
  shows "snd (enqueueGenerationScheduleSQL sha now fence p observed d) = d \<or>
    (list_ex (\<lambda>s. gs_digest s = generationScheduleDigest sha p) (gd_schedules d) \<and>
       current_digest sha (gp_repository p) (gp_stage p) d = Some (generationScheduleDigest sha p) \<and>
       snd (enqueueGenerationScheduleSQL sha now fence p observed d) = point_at sha p now d) \<or>
    (\<not> list_ex (\<lambda>s. gs_digest s = generationScheduleDigest sha p) (gd_schedules d) \<and>
       snd (enqueueGenerationScheduleSQL sha now fence p observed d) =
         point_at sha p now (d\<lparr>gd_schedules := map (supersede_prior sha now p d) (gd_schedules d) @ [new_schedule sha p now]\<rparr>))"
proof -
  let ?prior = "enqueueGenerationSchedulePriorSQL sha p d"
  let ?ex = "list_ex (\<lambda>s. gs_digest s = generationScheduleDigest sha p) (gd_schedules d)"
  let ?others = "length (filter (\<lambda>s. gs_repository s = gp_repository p \<and> gs_status s = GenerationScheduleActive \<and>
            gs_stage s \<noteq> gp_stage p) (gd_schedules d))"
  have fst: "fst ?prior = current_digest sha (gp_repository p) (gp_stage p) d" by (simp add: enqueueGenerationSchedulePriorSQL_def Let_def)
  show ?thesis
  proof (cases "(gp_class p = GenerationResourceTypedIndex \<and> \<not> fence) \<or> ?prior \<noteq> observed \<or>
      (\<not> ?ex \<and> int ?others \<ge> MaxGenerationActiveStagesPerRepository) \<or> (?ex \<and> fst ?prior \<noteq> Some (generationScheduleDigest sha p))")
    case True
    then show ?thesis by (auto simp: enqueueGenerationScheduleSQL_def Let_def)
  next
    case False
    then have ob: "observed = ?prior" by simp
    have c1: "\<not> (gp_class p = GenerationResourceTypedIndex \<and> \<not> fence)" and
      c2: "\<not> (\<not> ?ex \<and> int ?others \<ge> MaxGenerationActiveStagesPerRepository)" using False by blast+
    have c3: "\<not> ?prior \<noteq> ?prior" by simp
    have same: "map (supersede_prior sha now p d) (gd_schedules d) = gd_schedules d" if "fst ?prior = Some (generationScheduleDigest sha p)"
      using that unfolding fst by (intro map_idI) (auto simp: supersede_prior_def)
    note step = enqueueGenerationScheduleSQL_def [of sha now fence p observed d, unfolded Let_def ob if_not_P [OF c1] if_not_P [OF c2]
      if_not_P [OF c3] enqueue_prior [OF assms, of sha p now]]
    show ?thesis
    proof (cases ?ex)
      case True
      then have c: "fst ?prior = Some (generationScheduleDigest sha p)" using False by blast
      have "snd (enqueueGenerationScheduleSQL sha now fence p observed d) = point_at sha p now d"
        unfolding ob step using True c same [OF c] by (simp add: point_at_def current_row_def repo_row_def)
      then show ?thesis using True c fst by auto
    next
      case nex: False
      have "snd (enqueueGenerationScheduleSQL sha now fence p observed d) =
         point_at sha p now (d\<lparr>gd_schedules := map (supersede_prior sha now p d) (gd_schedules d) @ [new_schedule sha p now]\<rparr>)"
        unfolding ob step using nex by (simp add: point_at_def current_row_def repo_row_def)
      then show ?thesis using nex by blast
    qed
  qed
qed

lemma inv_enqueueSchedule:
  assumes inv: "gen_inv sha clock d" and now: "clock \<le> now" "0 < now"
    and p: "normalizeGenerationScheduleSpec p = Inr p" and known: "digest_known sha p d"
  shows "gen_inv sha now (snd (enqueueGenerationScheduleSQL sha now fence p observed d))" (is "gen_inv sha now ?d")
proof -
  let ?key = "generationCurrentID sha (gp_repository p) (gp_stage p)"
  let ?g = "supersede_prior sha now p d"
  let ?dA = "d\<lparr>gd_schedules := map ?g (gd_schedules d), gd_current := (gd_current d)(?key := None)\<rparr>"
  consider "?d = d"
    | "current_digest sha (gp_repository p) (gp_stage p) d = Some (generationScheduleDigest sha p)" "?d = point_at sha p now d"
    | "\<not> list_ex (\<lambda>s. gs_digest s = generationScheduleDigest sha p) (gd_schedules d)"
      "?d = point_at sha p now (d\<lparr>gd_schedules := map ?g (gd_schedules d) @ [new_schedule sha p now]\<rparr>)"
    using enqueue_result [OF gen_invD(1) [OF inv], of sha now fence p observed] by blast
  then show ?thesis
  proof cases
    case 1
    show ?thesis unfolding 1 by (rule inv_later [OF inv now(1)])
  next
    case 2
    show ?thesis unfolding 2(2) by (rule inv_repoint [OF inv_later [OF inv now(1)] known 2(1)])
  next
    case 3
    have g: "?g s = s \<or> ?g s = superseded_by now s" for s by (simp add: supersede_prior_def)
    have none: "gs_digest s \<noteq> generationScheduleDigest sha p" if "s \<in> set (gd_schedules d)" for s
      using 3(1) that by (auto simp: list_ex_iff)
    have "gen_inv sha now ?dA"
    proof (rule inv_retire [OF inv now(1), where g = ?g])
      show "gd_current d k = Some cu" if "gd_current ?dA k = Some cu" for k cu using that by (auto split: if_splits)
      fix s assume s: "s \<in> set (gd_schedules d)"
      show "?g s = s \<or> ?g s = superseded_by now s" by (rule g)
      show "is_cur sha (gd_current ?dA) s" if a: "gs_status s = GenerationScheduleActive" and e: "?g s = s"
      proof -
        have n: "current_digest sha (gp_repository p) (gp_stage p) d \<noteq> Some (gs_digest s)"
        proof
          assume "current_digest sha (gp_repository p) (gp_stage p) d = Some (gs_digest s)"
          then have "?g s = superseded_by now s" using a none [OF s] by (simp add: supersede_prior_def)
          then have "gs_status (superseded_by now s) = GenerationScheduleActive" using a e by simp
          then show False by simp
        qed
        obtain cu where cu: "gd_current d (generationCurrentID sha (gs_repository s) (gs_stage s)) = Some cu" "cu_digest cu = gs_digest s"
          using active_cur [OF inv s a] by (auto simp: is_cur_def)
        then have "generationCurrentID sha (gs_repository s) (gs_stage s) \<noteq> ?key" using n by (auto simp: current_digest_Some)
        then show ?thesis using cu by (auto simp: is_cur_def)
      qed
      assume c: "is_cur sha (gd_current ?dA) s"
      show "?g s = s"
      proof (rule ccontr)
        assume "?g s \<noteq> s"
        then have "current_digest sha (gp_repository p) (gp_stage p) d = Some (gs_digest s)" by (auto simp: supersede_prior_def split: if_splits)
        then obtain cu where "gd_current d ?key = Some cu" "cu_digest cu = gs_digest s" by (auto simp: current_digest_Some)
        then have "generationCurrentID sha (gs_repository s) (gs_stage s) = ?key" using cur_schedule(3) [OF inv _ s] by simp
        then show False using c by (auto simp: is_cur_def)
      qed
    qed simp_all
    then have "gen_inv sha now (point_at sha p now (?dA\<lparr>gd_schedules := gd_schedules ?dA @ [new_schedule sha p now]\<rparr>))"
      using 3(1) same_staticD(1) [OF same_static_superseded] p now(2)
      by (intro inv_new_schedule) (auto simp: list_ex_iff supersede_prior_def)
    then show ?thesis unfolding 3(2) by (simp add: point_at_def)
  qed
qed

end
