(* ===== verification/Generation_Chunks.thy ===== *)
theory Generation_Chunks
  imports Generation_Safety
begin

text \<open>
  The invariant of \<open>Generation_Safety\<close> through the statements that change chunks: fan-out, claim, heartbeat,
  the end of a lease in all its forms, and collection.
\<close>

section \<open>Counts of a current schedule\<close>

abbreviation ind :: "bool \<Rightarrow> int" where
  "ind b \<equiv> (if b then 1 else 0)"

lemma status_partition:
  assumes "\<And>c. c \<in> set xs \<Longrightarrow> gc_digest c = g \<Longrightarrow> gc_status c \<in> {GenerationChunkPending, GenerationChunkRunning, GenerationChunkDone,
     GenerationChunkFailed, GenerationChunkCanceled}"
  shows "num (in_schedule g) xs = num (in_status g GenerationChunkPending) xs + num (in_status g GenerationChunkRunning) xs +
     num (in_status g GenerationChunkDone) xs + num (in_status g GenerationChunkFailed) xs + num (in_status g GenerationChunkCanceled) xs"
  using assms
proof (induction xs)
  case (Cons a xs)
  have "a \<in> set (a # xs)" by simp
  note st = Cons.prems [OF this]
  have "num (in_schedule g) xs = num (in_status g GenerationChunkPending) xs + num (in_status g GenerationChunkRunning) xs +
     num (in_status g GenerationChunkDone) xs + num (in_status g GenerationChunkFailed) xs + num (in_status g GenerationChunkCanceled) xs"
    by (rule Cons.IH) (use Cons.prems in auto)
  then show ?case using st by auto
qed simp

text \<open>Every slot that was fanned out is accounted for by one of the four counters.\<close>

lemma exact_sum:
  assumes "keys_ok d" "links_ok sha d" "s \<in> set (gd_schedules d)" "sched_row_ok sha clock (gd_chunks d) s" "exact (gd_chunks d) s"
  shows "num (first_try (gs_digest s)) (gd_chunks d) = gs_pending s + gs_running s + gs_succeeded s + gs_failed s"
proof -
  have "num (in_schedule (gs_digest s)) (gd_chunks d) = num (in_status (gs_digest s) GenerationChunkPending) (gd_chunks d) +
     num (in_status (gs_digest s) GenerationChunkRunning) (gd_chunks d) + num (in_status (gs_digest s) GenerationChunkDone) (gd_chunks d) +
     num (in_status (gs_digest s) GenerationChunkFailed) (gd_chunks d) + num (in_status (gs_digest s) GenerationChunkCanceled) (gd_chunks d)"
    by (rule status_partition) (use chunk_linked [OF assms(1-3)] in \<open>auto simp: chunk_ok_def\<close>)
  then show ?thesis using assms(4,5) unfolding exact_def sched_row_ok_def by linarith
qed

lemma slots_full:
  assumes "1 \<le> per" "n \<le> chunk_count items per" "items \<le> n * per"
  shows "n = chunk_count items per"
proof (rule ccontr)
  assume "n \<noteq> chunk_count items per"
  then have "n \<le> chunk_count items per - 1" using assms(2) by simp
  then have "n * per \<le> (chunk_count items per - 1) * per" using assms(1) by (intro mult_right_mono) auto
  then show False using chunk_count_bounds(2) [OF assms(1), of items] assms(3) by linarith
qed

text \<open>A fully fanned-out schedule has one first attempt for each of its chunks.\<close>

lemma exact_full:
  assumes "static_ok sha s" "exact xs s" "gs_next s = gs_items s"
  shows "num (first_try (gs_digest s)) xs = gs_total_chunks s"
proof -
  have "gs_items s \<le> num (first_try (gs_digest s)) xs * gs_chunk_items s" "num (first_try (gs_digest s)) xs \<le> gs_total_chunks s"
    using assms(2,3) unfolding exact_def by linarith+
  then show ?thesis
    using slots_full [OF static_bounds(2) [OF assms(1)], of "num (first_try (gs_digest s)) xs" "gs_items s"] assms(1) by (simp add: static_ok_def)
qed

lemma offset_slot:
  assumes "static_ok sha s" "chunk_ok sha s c" "gs_next s \<le> gs_items s"
  shows "gc_offset c = gc_offset c div gs_chunk_items s * gs_chunk_items s" "0 \<le> gc_offset c div gs_chunk_items s"
    "gc_offset c div gs_chunk_items s < gs_total_chunks s"
proof -
  note b = static_bounds [OF assms(1)]
  show e: "gc_offset c = gc_offset c div gs_chunk_items s * gs_chunk_items s"
    using assms(2) by (auto simp: chunk_ok_def)
  show "0 \<le> gc_offset c div gs_chunk_items s" using assms(2) b by (auto simp: chunk_ok_def pos_imp_zdiv_nonneg_iff)
  have "gc_offset c div gs_chunk_items s * gs_chunk_items s < chunk_count (gs_items s) (gs_chunk_items s) * gs_chunk_items s"
    using chunk_count_bounds(1) [OF b(2), of "gs_items s"] assms(2,3) e by (auto simp: chunk_ok_def)
  then show "gc_offset c div gs_chunk_items s < gs_total_chunks s"
    using b(2) assms(1) by (simp add: static_ok_def)
qed

lemma materialized_bound:
  assumes keys: "keys_ok d" and links: "links_ok sha d" and s: "s \<in> set (gd_schedules d)" "static_ok sha s" "gs_next s \<le> gs_items s"
  shows "num (in_schedule (gs_digest s)) (gd_chunks d) \<le> gs_total_chunks s * gs_max_attempts s"
proof -
  let ?xs = "filter (in_schedule (gs_digest s)) (gd_chunks d)"
  let ?f = "\<lambda>c. (gc_offset c div gs_chunk_items s, gc_attempt c)"
  have ok: "chunk_ok sha s c" "c \<in> set (gd_chunks d)" "gc_digest c = gs_digest s" if "c \<in> set ?xs" for c
    using that chunk_linked [OF keys links s(1)] by auto
  have inj: "inj_on ?f (set ?xs)"
  proof (rule inj_onI)
    fix x y assume xy: "x \<in> set ?xs" "y \<in> set ?xs" "?f x = ?f y"
    have "gc_offset x = gc_offset y"
      using offset_slot(1) [OF s(2) ok(1) [OF xy(1)] s(3)] offset_slot(1) [OF s(2) ok(1) [OF xy(2)] s(3)] xy(3) by simp
    then show "x = y" using chunk_at [OF keys links ok(2) [OF xy(1)] ok(2) [OF xy(2)]] ok(3) [OF xy(1)] ok(3) [OF xy(2)] xy(3) by simp
  qed
  have "?f ` set ?xs \<subseteq> {0..<gs_total_chunks s} \<times> {0..<gs_max_attempts s}"
    using offset_slot(2,3) [OF s(2) ok(1) s(3)] ok(1) by (auto simp: chunk_ok_def)
  then have "card (?f ` set ?xs) \<le> card ({0..<gs_total_chunks s} \<times> {0..<gs_max_attempts s})" by (intro card_mono) auto
  moreover have "distinct ?xs" using keys by (auto simp: keys_ok_def distinct_map)
  then have "card (?f ` set ?xs) = length ?xs" by (simp only: card_image [OF inj] distinct_card)
  ultimately have "length ?xs \<le> nat (gs_total_chunks s) * nat (gs_max_attempts s)"
    by (simp only: card_cartesian_product card_atLeastLessThan_int) simp
  then have "int (length ?xs) \<le> int (nat (gs_total_chunks s) * nat (gs_max_attempts s))" by (simp only: of_nat_le_iff)
  moreover have "0 \<le> gs_total_chunks s"
  proof -
    have "0 < chunk_count (gs_items s) (gs_chunk_items s) * gs_chunk_items s"
      using chunk_count_bounds(1) [OF static_bounds(2) [OF s(2)], of "gs_items s"] static_bounds(1) [OF s(2)] by linarith
    then show ?thesis using static_bounds(2) [OF s(2)] s(2) by (simp add: static_ok_def zero_less_mult_iff)
  qed
  ultimately show ?thesis using static_bounds(3) [OF s(2)] by (simp add: num_def)
qed

lemma exact_counters_ok:
  assumes "keys_ok d" "links_ok sha d" "s \<in> set (gd_schedules d)" "static_ok sha s" "exact (gd_chunks d) s"
    and run: "gs_running s = num (in_status (gs_digest s) GenerationChunkRunning) (gd_chunks d)" and f: "0 \<le> gs_failed s"
  shows "counters_ok s"
proof -
  note b = static_bounds [OF assms(4)]
  have nx: "gs_next s \<le> gs_items s" using assms(5) unfolding exact_def by linarith
  note m = materialized_bound [OF assms(1-4) nx]
  have part: "num (in_schedule (gs_digest s)) (gd_chunks d) = num (in_status (gs_digest s) GenerationChunkPending) (gd_chunks d) +
     num (in_status (gs_digest s) GenerationChunkRunning) (gd_chunks d) + num (in_status (gs_digest s) GenerationChunkDone) (gd_chunks d) +
     num (in_status (gs_digest s) GenerationChunkFailed) (gd_chunks d) + num (in_status (gs_digest s) GenerationChunkCanceled) (gd_chunks d)"
    by (rule status_partition) (use chunk_linked [OF assms(1-3)] in \<open>auto simp: chunk_ok_def\<close>)
  have nn: "0 \<le> num (in_status (gs_digest s) st) (gd_chunks d)" "0 \<le> num (first_try (gs_digest s)) (gd_chunks d)" for st by simp_all
  have "0 \<le> num (first_try (gs_digest s)) (gd_chunks d) * gs_chunk_items s" using nn(2) b(2) by simp
  then have n0: "0 \<le> gs_next s" using assms(5) b(1) unfolding exact_def by linarith
  show ?thesis
    unfolding counters_ok_def
    using assms(5) m part nn(1) [of GenerationChunkPending] nn(1) [of GenerationChunkRunning] nn(1) [of GenerationChunkDone]
      nn(1) [of GenerationChunkFailed] nn(2) n0 nx run f
    unfolding exact_def by linarith
qed

section \<open>One chunk changes\<close>

definition same_scope :: "gchunk \<Rightarrow> gchunk \<Rightarrow> bool" where
  "same_scope y x \<longleftrightarrow> gc_id y = gc_id x \<and> gc_identity y = gc_identity x \<and> gc_digest y = gc_digest x \<and>
     gc_repository y = gc_repository x \<and> gc_stage y = gc_stage x \<and> gc_generation y = gc_generation x \<and> gc_class y = gc_class x \<and>
     gc_offset y = gc_offset x \<and> gc_length y = gc_length x \<and> gc_attempt y = gc_attempt x"

definition known_status :: "gostring \<Rightarrow> bool" where
  "known_status st \<longleftrightarrow> st \<in> {GenerationChunkPending, GenerationChunkRunning, GenerationChunkDone, GenerationChunkFailed, GenerationChunkCanceled}"

definition next_attempt :: "hasher \<Rightarrow> gchunk \<Rightarrow> gchunk \<Rightarrow> bool" where
  "next_attempt sha z x \<longleftrightarrow> gc_identity z = generationChunkID sha (gc_digest x) (gc_offset x) (gc_attempt x + 1) \<and> gc_digest z = gc_digest x \<and>
     gc_repository z = gc_repository x \<and> gc_stage z = gc_stage x \<and> gc_generation z = gc_generation x \<and> gc_class z = gc_class x \<and>
     gc_offset z = gc_offset x \<and> gc_length z = gc_length x \<and> gc_attempt z = gc_attempt x + 1 \<and> gc_status z = GenerationChunkPending"

lemma same_scopeD:
  assumes "same_scope y x"
  shows "gc_id y = gc_id x" "gc_identity y = gc_identity x" "gc_digest y = gc_digest x" "gc_repository y = gc_repository x"
    "gc_offset y = gc_offset x" "gc_attempt y = gc_attempt x"
  using assms by (simp_all add: same_scope_def)

lemma chunk_ok_scope: "chunk_ok sha s x \<Longrightarrow> same_scope y x \<Longrightarrow> known_status (gc_status y) \<Longrightarrow> chunk_ok sha s y"
  by (simp add: chunk_ok_def same_scope_def known_status_def)

lemma chunk_ok_next:
  "chunk_ok sha s x \<Longrightarrow> next_attempt sha z x \<Longrightarrow> gc_attempt x + 1 < gs_max_attempts s \<Longrightarrow> chunk_ok sha s z"
  by (simp add: chunk_ok_def next_attempt_def)

lemma distinct_replace:
  "distinct (map k xs) \<Longrightarrow> (\<And>c. c \<in> set xs \<Longrightarrow> k (h c) = k c) \<Longrightarrow> distinct (map k (map h xs))"
  by (simp add: comp_def cong: map_cong)

text \<open>Row \<open>x\<close> becomes \<open>F x\<close>, its schedule \<open>s\<close> becomes \<open>T s\<close>, and a retry adds the attempt that follows.\<close>

definition chunk_step :: "hasher \<Rightarrow> int \<Rightarrow> int \<Rightarrow> gdata \<Rightarrow> gdata \<Rightarrow> gsched \<Rightarrow> gchunk \<Rightarrow> (gchunk \<Rightarrow> gchunk) \<Rightarrow>
  (gsched \<Rightarrow> gsched) \<Rightarrow> (grepo \<Rightarrow> grepo) \<Rightarrow> gchunk list \<Rightarrow> bool" where
  "chunk_step sha clock now d d' s x F T R extra \<longleftrightarrow>
     (gen_inv sha clock d) \<and>
     (clock \<le> now) \<and>
     (x \<in> set (gd_chunks d)) \<and>
     (s \<in> set (gd_schedules d)) \<and>
     (gc_digest x = gs_digest s) \<and>
     (gc_status x = GenerationChunkPending \<and> gc_status (F x) = GenerationChunkRunning \<or> gc_status x = GenerationChunkRunning) \<and>
     (same_scope (F x) x) \<and>
     (known_status (gc_status (F x))) \<and>
     (gd_chunks d' = map (\<lambda>c. if gc_id c = gc_id x then F c else c) (gd_chunks d) @ extra) \<and>
     (gd_schedules d' = map (\<lambda>t. if gs_digest t = gs_digest s then T t else t) (gd_schedules d)) \<and>
     (gd_current d' = gd_current d) \<and>
     (gd_repos d' = (gd_repos d)(generationRepositoryID sha (gs_repository s) :=
      map_option R (gd_repos d (generationRepositoryID sha (gs_repository s))))) \<and>
     (same_static (T s) s) \<and>
     (gs_next (T s) = gs_next s) \<and>
     (gs_updated (T s) = now) \<and>
     (gs_running (T s) = gs_running s - ind (gc_status x = GenerationChunkRunning) + ind (gc_status (F x) = GenerationChunkRunning)) \<and>
     (\<forall>r. gd_repos d (generationRepositoryID sha (gs_repository s)) = Some r \<longrightarrow>
      rs_running (R r) = rs_running r - ind (gc_status x = GenerationChunkRunning) + ind (gc_status (F x) = GenerationChunkRunning) \<and>
      rs_running (R r) \<le> MaxGenerationRepositoryTokens) \<and>
     (extra = [] \<or> (\<exists>z. extra = [z] \<and> gc_status (F x) = GenerationChunkFailed \<and> next_attempt sha z x \<and>
      gc_attempt x + 1 < gs_max_attempts s \<and> gc_id z \<notin> gc_id ` set (gd_chunks d) \<and> gc_identity z \<notin> gc_identity ` set (gd_chunks d))) \<and>
     (is_cur sha (gd_current d) s \<longrightarrow> gc_status (F x) \<noteq> GenerationChunkCanceled \<and>
      gs_pending (T s) = gs_pending s - ind (gc_status x = GenerationChunkPending) + ind (gc_status (F x) = GenerationChunkPending) +
        int (length extra) \<and>
      gs_materialized (T s) = gs_materialized s + int (length extra) \<and>
      gs_succeeded (T s) = gs_succeeded s + ind (gc_status (F x) = GenerationChunkDone) \<and>
      gs_failed (T s) = gs_failed s + ind (gc_status (F x) = GenerationChunkFailed) - int (length extra) \<and>
      gs_status (T s) = (if (gc_status (F x) = GenerationChunkDone \<or> gc_status (F x) = GenerationChunkFailed) \<and> extra = [] \<and> last_chunk s
        then GenerationScheduleSettled else gs_status s)) \<and>
     (\<not> is_cur sha (gd_current d) s \<longrightarrow> gc_status x = GenerationChunkRunning \<and> gc_status (F x) \<noteq> GenerationChunkRunning \<and> extra = [] \<and>
      gs_pending (T s) = gs_pending s \<and> gs_materialized (T s) = gs_materialized s \<and> gs_succeeded (T s) = gs_succeeded s \<and>
      gs_failed (T s) = gs_failed s \<and> gs_status (T s) = gs_status s)"

lemma chunk_stepI:
  assumes "gen_inv sha clock d"
    and "clock \<le> now"
    and "x \<in> set (gd_chunks d)"
    and "s \<in> set (gd_schedules d)"
    and "gc_digest x = gs_digest s"
    and "gc_status x = GenerationChunkPending \<and> gc_status (F x) = GenerationChunkRunning \<or> gc_status x = GenerationChunkRunning"
    and "same_scope (F x) x"
    and "known_status (gc_status (F x))"
    and "gd_chunks d' = map (\<lambda>c. if gc_id c = gc_id x then F c else c) (gd_chunks d) @ extra"
    and "gd_schedules d' = map (\<lambda>t. if gs_digest t = gs_digest s then T t else t) (gd_schedules d)"
    and "gd_current d' = gd_current d"
    and "gd_repos d' = (gd_repos d)(generationRepositoryID sha (gs_repository s) :=
      map_option R (gd_repos d (generationRepositoryID sha (gs_repository s))))"
    and "same_static (T s) s"
    and "gs_next (T s) = gs_next s"
    and "gs_updated (T s) = now"
    and "gs_running (T s) = gs_running s - ind (gc_status x = GenerationChunkRunning) + ind (gc_status (F x) = GenerationChunkRunning)"
    and "\<And>r. gd_repos d (generationRepositoryID sha (gs_repository s)) = Some r \<Longrightarrow>
      rs_running (R r) = rs_running r - ind (gc_status x = GenerationChunkRunning) + ind (gc_status (F x) = GenerationChunkRunning) \<and>
      rs_running (R r) \<le> MaxGenerationRepositoryTokens"
    and "extra = [] \<or> (\<exists>z. extra = [z] \<and> gc_status (F x) = GenerationChunkFailed \<and> next_attempt sha z x \<and>
      gc_attempt x + 1 < gs_max_attempts s \<and> gc_id z \<notin> gc_id ` set (gd_chunks d) \<and> gc_identity z \<notin> gc_identity ` set (gd_chunks d))"
    and "is_cur sha (gd_current d) s \<Longrightarrow> gc_status (F x) \<noteq> GenerationChunkCanceled \<and>
      gs_pending (T s) = gs_pending s - ind (gc_status x = GenerationChunkPending) + ind (gc_status (F x) = GenerationChunkPending) +
        int (length extra) \<and>
      gs_materialized (T s) = gs_materialized s + int (length extra) \<and>
      gs_succeeded (T s) = gs_succeeded s + ind (gc_status (F x) = GenerationChunkDone) \<and>
      gs_failed (T s) = gs_failed s + ind (gc_status (F x) = GenerationChunkFailed) - int (length extra) \<and>
      gs_status (T s) = (if (gc_status (F x) = GenerationChunkDone \<or> gc_status (F x) = GenerationChunkFailed) \<and> extra = [] \<and> last_chunk s
        then GenerationScheduleSettled else gs_status s)"
    and "\<not> is_cur sha (gd_current d) s \<Longrightarrow> gc_status x = GenerationChunkRunning \<and> gc_status (F x) \<noteq> GenerationChunkRunning \<and> extra = [] \<and>
      gs_pending (T s) = gs_pending s \<and> gs_materialized (T s) = gs_materialized s \<and> gs_succeeded (T s) = gs_succeeded s \<and>
      gs_failed (T s) = gs_failed s \<and> gs_status (T s) = gs_status s"
  shows "chunk_step sha clock now d d' s x F T R extra"
  unfolding chunk_step_def using assms by blast

lemma step_inv:
  assumes "chunk_step sha clock now d d' s x F T R extra"
  shows "gen_inv sha clock d"
  using assms unfolding chunk_step_def by (elim conjE; (assumption | simp | blast))+

lemma step_now:
  assumes "chunk_step sha clock now d d' s x F T R extra"
  shows "clock \<le> now"
  using assms unfolding chunk_step_def by (elim conjE; (assumption | simp | blast))+

lemma step_x:
  assumes "chunk_step sha clock now d d' s x F T R extra"
  shows "x \<in> set (gd_chunks d)"
  using assms unfolding chunk_step_def by (elim conjE; (assumption | simp | blast))+

lemma step_s:
  assumes "chunk_step sha clock now d d' s x F T R extra"
  shows "s \<in> set (gd_schedules d)"
  using assms unfolding chunk_step_def by (elim conjE; (assumption | simp | blast))+

lemma step_xs:
  assumes "chunk_step sha clock now d d' s x F T R extra"
  shows "gc_digest x = gs_digest s"
  using assms unfolding chunk_step_def by (elim conjE; (assumption | simp | blast))+

lemma step_live:
  assumes "chunk_step sha clock now d d' s x F T R extra"
  shows "gc_status x = GenerationChunkPending \<and> gc_status (F x) = GenerationChunkRunning \<or> gc_status x = GenerationChunkRunning"
  using assms unfolding chunk_step_def by (elim conjE; (assumption | simp | blast))+

lemma step_y:
  assumes "chunk_step sha clock now d d' s x F T R extra"
  shows "same_scope (F x) x"
  using assms unfolding chunk_step_def by (elim conjE; (assumption | simp | blast))+

lemma step_known:
  assumes "chunk_step sha clock now d d' s x F T R extra"
  shows "known_status (gc_status (F x))"
  using assms unfolding chunk_step_def by (elim conjE; (assumption | simp | blast))+

lemma step_chunks':
  assumes "chunk_step sha clock now d d' s x F T R extra"
  shows "gd_chunks d' = map (\<lambda>c. if gc_id c = gc_id x then F c else c) (gd_chunks d) @ extra"
  using assms unfolding chunk_step_def by (elim conjE; (assumption | simp | blast))+

lemma step_schedules':
  assumes "chunk_step sha clock now d d' s x F T R extra"
  shows "gd_schedules d' = map (\<lambda>t. if gs_digest t = gs_digest s then T t else t) (gd_schedules d)"
  using assms unfolding chunk_step_def by (elim conjE; (assumption | simp | blast))+

lemma step_current':
  assumes "chunk_step sha clock now d d' s x F T R extra"
  shows "gd_current d' = gd_current d"
  using assms unfolding chunk_step_def by (elim conjE; (assumption | simp | blast))+

lemma step_repos':
  assumes "chunk_step sha clock now d d' s x F T R extra"
  shows "gd_repos d' = (gd_repos d)(generationRepositoryID sha (gs_repository s) :=
      map_option R (gd_repos d (generationRepositoryID sha (gs_repository s))))"
  using assms unfolding chunk_step_def by (elim conjE; (assumption | simp | blast))+

lemma step_T:
  assumes "chunk_step sha clock now d d' s x F T R extra"
  shows "same_static (T s) s"
    "gs_next (T s) = gs_next s"
    "gs_updated (T s) = now"
    "gs_running (T s) = gs_running s - ind (gc_status x = GenerationChunkRunning) + ind (gc_status (F x) = GenerationChunkRunning)"
  using assms unfolding chunk_step_def by (elim conjE; (assumption | simp | blast))+

lemma step_R:
  assumes "chunk_step sha clock now d d' s x F T R extra"
  shows "gd_repos d (generationRepositoryID sha (gs_repository s)) = Some r \<Longrightarrow>
      rs_running (R r) = rs_running r - ind (gc_status x = GenerationChunkRunning) + ind (gc_status (F x) = GenerationChunkRunning) \<and>
      rs_running (R r) \<le> MaxGenerationRepositoryTokens"
  using assms unfolding chunk_step_def by blast+

lemma step_extra:
  assumes "chunk_step sha clock now d d' s x F T R extra"
  shows "extra = [] \<or> (\<exists>z. extra = [z] \<and> gc_status (F x) = GenerationChunkFailed \<and> next_attempt sha z x \<and>
      gc_attempt x + 1 < gs_max_attempts s \<and> gc_id z \<notin> gc_id ` set (gd_chunks d) \<and> gc_identity z \<notin> gc_identity ` set (gd_chunks d))"
  using assms unfolding chunk_step_def by (elim conjE; (assumption | simp | blast))+

lemma step_cur:
  assumes "chunk_step sha clock now d d' s x F T R extra"
  shows "is_cur sha (gd_current d) s \<Longrightarrow> gc_status (F x) \<noteq> GenerationChunkCanceled \<and>
      gs_pending (T s) = gs_pending s - ind (gc_status x = GenerationChunkPending) + ind (gc_status (F x) = GenerationChunkPending) +
        int (length extra) \<and>
      gs_materialized (T s) = gs_materialized s + int (length extra) \<and>
      gs_succeeded (T s) = gs_succeeded s + ind (gc_status (F x) = GenerationChunkDone) \<and>
      gs_failed (T s) = gs_failed s + ind (gc_status (F x) = GenerationChunkFailed) - int (length extra) \<and>
      gs_status (T s) = (if (gc_status (F x) = GenerationChunkDone \<or> gc_status (F x) = GenerationChunkFailed) \<and> extra = [] \<and> last_chunk s
        then GenerationScheduleSettled else gs_status s)"
  using assms unfolding chunk_step_def by (elim conjE; (assumption | simp | blast))+

lemma step_old:
  assumes "chunk_step sha clock now d d' s x F T R extra"
  shows "\<not> is_cur sha (gd_current d) s \<Longrightarrow> gc_status x = GenerationChunkRunning \<and> gc_status (F x) \<noteq> GenerationChunkRunning \<and> extra = [] \<and>
      gs_pending (T s) = gs_pending s \<and> gs_materialized (T s) = gs_materialized s \<and> gs_succeeded (T s) = gs_succeeded s \<and>
      gs_failed (T s) = gs_failed s \<and> gs_status (T s) = gs_status s"
  using assms unfolding chunk_step_def by (elim conjE; (assumption | simp | blast))+

lemma step_I:
  assumes "chunk_step sha clock now d d' s x F T R extra"
  shows "keys_ok d" "links_ok sha d" "order_ok (gd_chunks d)" "\<And>t. t \<in> set (gd_schedules d) \<Longrightarrow> sched_row_ok sha clock (gd_chunks d) t"
    "repos_ok sha d" "current_ok sha d"
  using gen_invD [OF step_inv [OF assms]] by blast+

lemma step_x_ok: "chunk_step sha clock now d d' s x F T R extra \<Longrightarrow> chunk_ok sha s x"
  by (rule chunk_linked [OF step_I(1) step_I(2) step_s step_x step_xs])

lemma step_st:
  assumes "chunk_step sha clock now d d' s x F T R extra"
  shows "gs_digest (T s) = gs_digest s" "gs_repository (T s) = gs_repository s" "gs_stage (T s) = gs_stage s"
    "gs_generation (T s) = gs_generation s" "gs_class (T s) = gs_class s" "gs_items (T s) = gs_items s"
    "gs_chunk_items (T s) = gs_chunk_items s" "gs_max_attempts (T s) = gs_max_attempts s" "gs_tokens (T s) = gs_tokens s"
    "gs_total_chunks (T s) = gs_total_chunks s" "static_ok sha (T s) = static_ok sha s" "is_cur sha cu (T s) = is_cur sha cu s"
  by (rule same_staticD [OF step_T(1) [OF assms]])+

lemma step_row:
  assumes step: "chunk_step sha clock now d d' s x F T R extra"
  shows "static_ok sha s" "counters_ok s" "dates_ok clock s" "status_ok s"
  "gs_running s = num (in_status (gs_digest s) GenerationChunkRunning) (gd_chunks d)"
  using step_I(4) [OF step, OF step_s [OF step]] by (simp_all add: sched_row_ok_def)

lemma step_num':
  assumes step: "chunk_step sha clock now d d' s x F T R extra"
  shows "num P (gd_chunks d') = num P (gd_chunks d) - ind (P x) + ind (P (F x)) + num P extra"
  using num_replace [of gc_id "gd_chunks d" x P F] step_I(1) [OF step] step_x [OF step] by (simp add: step_chunks' [OF step] keys_ok_def)

lemma step_num_other:
  assumes step: "chunk_step sha clock now d d' s x F T R extra"
  shows "gs_digest t \<noteq> gs_digest s \<Longrightarrow> num (\<lambda>c. gc_digest c = gs_digest t \<and> P c) (gd_chunks d') =
    num (\<lambda>c. gc_digest c = gs_digest t \<and> P c) (gd_chunks d)"
  using step_xs [OF step] same_scopeD(3) [OF step_y [OF step]] step_extra [OF step] by (auto simp: step_num' [OF step] next_attempt_def)

lemma step_num_other_all:
  assumes step: "chunk_step sha clock now d d' s x F T R extra"
  shows "gs_digest t \<noteq> gs_digest s \<Longrightarrow> num (in_schedule (gs_digest t)) (gd_chunks d') = num (in_schedule (gs_digest t)) (gd_chunks d)"
  using step_num_other [OF step, of t "\<lambda>c. True"] by simp

lemma step_chunk':
  assumes step: "chunk_step sha clock now d d' s x F T R extra"
  shows "c \<in> set (gd_chunks d') \<Longrightarrow> (c \<in> set (gd_chunks d) \<and> c \<noteq> x) \<or> c = F x \<or> c \<in> set extra"
proof -
  assume "c \<in> set (gd_chunks d')"
  then consider "c \<in> set extra" | b where "b \<in> set (gd_chunks d)" "c = (if gc_id b = gc_id x then F b else b)"
    unfolding step_chunks' [OF step] by auto
  then show ?thesis
  proof cases
    case 2
    show ?thesis
    proof (cases "gc_id b = gc_id x")
      case True
      then have "b = x" by (rule chunk_eq [OF step_I(1) [OF step] 2(1) step_x [OF step]])
      then show ?thesis using 2(2) by simp
    qed (use 2 in auto)
  qed simp
qed

lemma step_keys':
  assumes step: "chunk_step sha clock now d d' s x F T R extra"
  shows "keys_ok d'"
proof -
  have F: "gc_id (if gc_id c = gc_id x then F c else c) = gc_id c" "gc_identity (if gc_id c = gc_id x then F c else c) = gc_identity c"
    if "c \<in> set (gd_chunks d)" for c
    using chunk_eq [OF step_I(1) [OF step] that step_x [OF step]] same_scopeD [OF step_y [OF step]] by auto
  have T': "gs_digest (if gs_digest t = gs_digest s then T t else t) = gs_digest t" if "t \<in> set (gd_schedules d)" for t
    using schedule_eq [OF step_I(1) [OF step] that step_s [OF step]] step_st(1) [OF step] by auto
  have "map gs_digest (gd_schedules d') = map gs_digest (gd_schedules d)" unfolding step_schedules' [OF step] map_map by (rule map_cong) (simp_all add: T' del: if_split)
  moreover have "map gc_id (gd_chunks d') = map gc_id (gd_chunks d) @ map gc_id extra"
    unfolding step_chunks' [OF step] map_append map_map by (simp add: F del: if_split cong: map_cong)
  moreover have "map gc_identity (gd_chunks d') = map gc_identity (gd_chunks d) @ map gc_identity extra"
    unfolding step_chunks' [OF step] map_append map_map by (simp add: F del: if_split cong: map_cong)
  ultimately show ?thesis using step_I(1) [OF step] step_extra [OF step] unfolding keys_ok_def by (elim disjE exE conjE) simp_all
qed

lemma step_schedule':
  assumes step: "chunk_step sha clock now d d' s x F T R extra"
  shows "t \<in> set (gd_schedules d') \<Longrightarrow> t = T s \<or> t \<in> set (gd_schedules d) \<and> gs_digest t \<noteq> gs_digest s"
  using schedule_eq [OF step_I(1) [OF step] _ step_s [OF step]] by (auto simp: step_schedules' [OF step])

lemma step_T_in:
  assumes step: "chunk_step sha clock now d d' s x F T R extra"
  shows "T s \<in> set (gd_schedules d')"
  using step_s [OF step] by (auto simp: step_schedules' [OF step])

lemma step_static':
  assumes step: "chunk_step sha clock now d d' s x F T R extra"
  shows "t \<in> set (gd_schedules d) \<Longrightarrow> same_static (if gs_digest t = gs_digest s then T t else t) t"
  using schedule_eq [OF step_I(1) [OF step] _ step_s [OF step]] step_T(1) [OF step] by auto

lemma step_links':
  assumes step: "chunk_step sha clock now d d' s x F T R extra"
  shows "links_ok sha d'"
  unfolding links_ok_def
proof
  fix c assume "c \<in> set (gd_chunks d')"
  then consider "c \<in> set (gd_chunks d)" | "c = F x" | "c \<in> set extra" using step_chunk' [OF step] by blast
  then show "\<exists>t \<in> set (gd_schedules d'). gc_digest c = gs_digest t \<and> chunk_ok sha t c"
  proof cases
    case 1
    then obtain t where t: "t \<in> set (gd_schedules d)" "gc_digest c = gs_digest t" "chunk_ok sha t c" using step_I(2) [OF step] unfolding links_ok_def by blast
    let ?t = "if gs_digest t = gs_digest s then T t else t"
    have "gs_next t \<le> gs_next ?t" using schedule_eq [OF step_I(1) [OF step] t(1) step_s [OF step]] step_T(2) [OF step] by auto
    then have "chunk_ok sha ?t c" by (rule chunk_ok_static [OF step_static' [OF step, OF t(1)] _ t(3)])
    moreover have "?t \<in> set (gd_schedules d')" using t(1) by (auto simp: step_schedules' [OF step])
    ultimately show ?thesis using t(2) same_staticD(1) [OF step_static' [OF step, OF t(1)]] by metis
  next
    case 2
    have "chunk_ok sha (T s) (F x)" by (rule chunk_ok_static [OF step_T(1) [OF step] _ chunk_ok_scope [OF step_x_ok [OF step] step_y [OF step] step_known [OF step]]]) (simp add: step_T(2) [OF step])
    then show ?thesis using step_T_in [OF step] step_xs [OF step] step_st(1) [OF step] same_scopeD(3) [OF step_y [OF step]] 2 by (intro bexI [of _ "T s"]) simp_all
  next
    case 3
    then have n: "next_attempt sha c x" "gc_attempt x + 1 < gs_max_attempts s" using step_extra [OF step] by auto
    have "chunk_ok sha (T s) c" by (rule chunk_ok_static [OF step_T(1) [OF step] _ chunk_ok_next [OF step_x_ok [OF step] n]]) (simp add: step_T(2) [OF step])
    then show ?thesis using step_T_in [OF step] step_xs [OF step] step_st(1) [OF step] n(1) by (intro bexI [of _ "T s"]) (simp_all add: next_attempt_def)
  qed
qed

lemma step_x_top:
  assumes step: "chunk_step sha clock now d d' s x F T R extra"
  shows "c \<in> set (gd_chunks d) \<Longrightarrow> gc_digest c = gc_digest x \<Longrightarrow> gc_offset c = gc_offset x \<Longrightarrow> gc_attempt c \<le> gc_attempt x"
  using step_I(3) [OF step] step_x [OF step] step_live [OF step] unfolding order_ok_def by force

lemma step_order':
  assumes step: "chunk_step sha clock now d d' s x F T R extra"
  shows "order_ok (gd_chunks d')"
  unfolding order_ok_def
proof (intro ballI impI)
  fix a b assume m: "a \<in> set (gd_chunks d')" "b \<in> set (gd_chunks d')"
    and e: "gc_digest a = gc_digest b" "gc_offset a = gc_offset b" "gc_attempt a < gc_attempt b"
  note f = same_scopeD [OF step_y [OF step]]
  have ext: "next_attempt sha c x \<and> gc_status (F x) = GenerationChunkFailed" if "c \<in> set extra" for c using that step_extra [OF step] by auto
  have ord: "gc_status u = GenerationChunkFailed" if "u \<in> set (gd_chunks d)" "v \<in> set (gd_chunks d)" "gc_digest u = gc_digest v"
    "gc_offset u = gc_offset v" "gc_attempt u < gc_attempt v" for u v using step_I(3) [OF step] that unfolding order_ok_def by blast
  consider "a \<in> set (gd_chunks d)" "a \<noteq> x" | "a = F x" | "a \<in> set extra" using step_chunk' [OF step, OF m(1)] by blast
  note ca = this
  consider "b \<in> set (gd_chunks d)" "b \<noteq> x" | "b = F x" | "b \<in> set extra" using step_chunk' [OF step, OF m(2)] by blast
  note cb = this
  show "gc_status a = GenerationChunkFailed"
    using ca
  proof cases
    case 1
    show ?thesis using cb
    proof cases
      case b: 1 show ?thesis by (rule ord [OF 1(1) b(1) e])
    next
      case b: 2 show ?thesis by (rule ord [OF 1(1) step_x [OF step]]) (use e f b in simp_all)
    next
      case b: 3
      then have n: "gc_digest a = gc_digest x" "gc_offset a = gc_offset x" "gc_attempt a < gc_attempt x + 1"
        using e ext [OF b] by (simp_all add: next_attempt_def)
      then have "gc_attempt a \<noteq> gc_attempt x" using chunk_at [OF step_I(1,2) [OF step] 1(1) step_x [OF step]] 1(2) by blast
      then show ?thesis using ord [OF 1(1) step_x [OF step] n(1,2)] n(3) by simp
    qed
  next
    case 2
    show ?thesis using cb
    proof cases
      case b: 1 show ?thesis using step_x_top [OF step, OF b(1)] e f 2 by simp
    next
      case b: 2 then show ?thesis using 2 e(3) by simp
    next
      case b: 3 then show ?thesis using ext 2 by simp
    qed
  next
    case 3
    show ?thesis using cb
    proof cases
      case b: 1 show ?thesis using step_x_top [OF step, OF b(1)] e ext [OF 3] by (simp add: next_attempt_def)
    next
      case b: 2 then show ?thesis using 3 e(3) f ext [OF 3] by (simp add: next_attempt_def)
    next
      case b: 3 then show ?thesis using ext [OF 3] ext [OF b] e(3) by (simp add: next_attempt_def)
    qed
  qed
qed

lemma step_repos_inv':
  assumes step: "chunk_step sha clock now d d' s x F T R extra"
  shows "repos_ok sha d'"
proof (rule repos_okI)
  let ?key = "generationRepositoryID sha (gs_repository s)"
  show "gd_repos d' (generationRepositoryID sha (gs_repository t)) \<noteq> None" if "t \<in> set (gd_schedules d')" for t
    using step_schedule' [OF step, OF that] repos_okD(1) [OF step_I(5) [OF step]] step_s [OF step] step_st(2) [OF step] by (auto simp: step_repos' [OF step])
  fix k r assume r: "gd_repos d' k = Some r"
  have ext: "num (running_at sha k) extra = 0" using step_extra [OF step] by (auto simp: running_at_def next_attempt_def)
  have run: "running_at sha k x \<longleftrightarrow> gc_status x = GenerationChunkRunning \<and> k = ?key"
    "running_at sha k (F x) \<longleftrightarrow> gc_status (F x) = GenerationChunkRunning \<and> k = ?key"
    using step_x_ok [OF step] same_scopeD(4) [OF step_y [OF step]] by (auto simp: running_at_def chunk_ok_def)
  show "rs_running r = num (running_at sha k) (gd_chunks d') \<and> rs_running r \<le> MaxGenerationRepositoryTokens"
  proof (cases "k = ?key")
    case True
    then obtain q where q: "gd_repos d ?key = Some q" "r = R q" using r by (auto simp: step_repos' [OF step])
    show ?thesis using step_R [OF step, OF q(1)] repos_okD(2) [OF step_I(5) [OF step] q(1)] q(2) run True ext by (simp add: step_num' [OF step])
  next
    case False
    then have "gd_repos d k = Some r" using r by (simp add: step_repos' [OF step])
    then show ?thesis using repos_okD(2,3) [OF step_I(5) [OF step]] run False ext by (simp add: step_num' [OF step])
  qed
qed

lemma step_counts:
  assumes step: "chunk_step sha clock now d d' s x F T R extra"
  shows "num (in_status (gs_digest s) sta) (gd_chunks d') = num (in_status (gs_digest s) sta) (gd_chunks d) - ind (gc_status x = sta) +
     ind (gc_status (F x) = sta) + (if sta = GenerationChunkPending then int (length extra) else 0)"
  "num (in_schedule (gs_digest s)) (gd_chunks d') = num (in_schedule (gs_digest s)) (gd_chunks d) + int (length extra)"
  "num (first_try (gs_digest s)) (gd_chunks d') = num (first_try (gs_digest s)) (gd_chunks d)"
  using step_xs [OF step] step_x_ok [OF step] same_scopeD(3,6) [OF step_y [OF step]] step_extra [OF step] by (auto simp: step_num' [OF step] next_attempt_def chunk_ok_def)

lemma step_live_counts:
  assumes step: "chunk_step sha clock now d d' s x F T R extra"
  shows "gc_status x = GenerationChunkRunning \<Longrightarrow> 0 < gs_running s"
  "is_cur sha (gd_current d) s \<Longrightarrow> gc_status x = GenerationChunkPending \<Longrightarrow> 0 < gs_pending s"
  using num_pos [OF step_x [OF step], of "in_status (gs_digest s) GenerationChunkPending"] current_okD(4) [OF step_I(6) [OF step] step_s [OF step]]
    num_pos [OF step_x [OF step], of "in_status (gs_digest s) GenerationChunkRunning"] step_xs [OF step] step_row(5) [OF step] by (auto simp: exact_def)

lemma step_is_active:
  assumes step: "chunk_step sha clock now d d' s x F T R extra"
  shows "is_cur sha (gd_current d) s \<Longrightarrow> gs_status s = GenerationScheduleActive"
proof -
  assume c: "is_cur sha (gd_current d) s"
  have "0 < gs_pending s \<or> 0 < gs_running s" using step_live [OF step] step_live_counts [OF step] c by blast
  then show ?thesis using step_row(4) [OF step] current_okD(3) [OF step_I(6) [OF step] step_s [OF step] c] by (auto simp: status_ok_def)
qed

lemma step_exact':
  assumes step: "chunk_step sha clock now d d' s x F T R extra"
  shows "is_cur sha (gd_current d) s \<Longrightarrow> exact (gd_chunks d') (T s)"
proof -
  assume c: "is_cur sha (gd_current d) s"
  note C = step_cur [OF step, OF c]
  have ex: "exact (gd_chunks d) s" by (rule current_okD(4) [OF step_I(6) [OF step] step_s [OF step] c])
  have parts: "gs_pending (T s) = num (in_status (gs_digest s) GenerationChunkPending) (gd_chunks d')"
    "gs_succeeded (T s) = num (in_status (gs_digest s) GenerationChunkDone) (gd_chunks d')"
    "gs_materialized (T s) = num (in_schedule (gs_digest s)) (gd_chunks d')"
    "gs_failed (T s) + (num (in_schedule (gs_digest s)) (gd_chunks d') - num (first_try (gs_digest s)) (gd_chunks d')) =
       num (in_status (gs_digest s) GenerationChunkFailed) (gd_chunks d')"
    "num (in_status (gs_digest s) GenerationChunkCanceled) (gd_chunks d') = 0"
    using C ex step_live [OF step] unfolding step_counts [OF step] exact_def by auto
  have sum: "num (first_try (gs_digest s)) (gd_chunks d) = gs_pending s + gs_running s + gs_succeeded s + gs_failed s"
    by (rule exact_sum [OF step_I(1,2) [OF step] step_s [OF step] step_I(4) [OF step, OF step_s [OF step]] ex])
  have full: "gs_next s = gs_items s \<Longrightarrow> gs_total_chunks s = gs_pending s + gs_running s + gs_succeeded s + gs_failed s"
    using exact_full [OF step_row(1) [OF step] ex] sum by simp
  have nn: "0 \<le> gs_pending s" "0 \<le> gs_running s" using step_row(2) [OF step] by (simp_all add: counters_ok_def)
  note pos = step_live_counts(2) [OF step, OF c] step_live_counts(1) [OF step]
  have "gs_next s < gs_items s \<or> 0 < gs_pending (T s) + gs_running (T s)" if a: "gs_status (T s) = GenerationScheduleActive"
  proof (rule ccontr)
    assume n: "\<not> (gs_next s < gs_items s \<or> 0 < gs_pending (T s) + gs_running (T s))"
    then have nx: "gs_next s = gs_items s" using step_row(2) [OF step] by (simp add: counters_ok_def)
    have total: "gs_pending (T s) + gs_running (T s) = gs_pending s + gs_running s - 1 + ind (gc_status (F x) = GenerationChunkPending) +
        ind (gc_status (F x) = GenerationChunkRunning) + int (length extra)"
      using C step_T(4) [OF step] step_live [OF step] by auto
    have one: "1 \<le> gs_pending s + gs_running s" using nn pos step_live [OF step] by linarith
    have "gs_pending (T s) + gs_running (T s) \<le> 0" using n by linarith
    then have e: "extra = []" using total one by (cases extra) (simp_all split: if_splits)
    have "gc_status (F x) \<noteq> GenerationChunkPending \<and> gc_status (F x) \<noteq> GenerationChunkRunning"
      using \<open>gs_pending (T s) + gs_running (T s) \<le> 0\<close> total one by (auto split: if_splits)
    then have df: "gc_status (F x) = GenerationChunkDone \<or> gc_status (F x) = GenerationChunkFailed"
      using step_known [OF step] C by (auto simp: known_status_def)
    have "\<not> last_chunk s" using a C e df by auto
    moreover have "last_chunk s"
      using full [OF nx] nx n C step_T(4) [OF step] nn pos step_live [OF step] e df unfolding last_chunk_def by (auto split: if_splits)
    ultimately show False by simp
  qed
  then show ?thesis using parts ex unfolding exact_def step_st(1,6,7,10) [OF step] step_T(2) [OF step] step_counts(3) [OF step] by simp
qed

lemma step_counters_old:
  assumes step: "chunk_step sha clock now d d' s x F T R extra"
  shows "\<not> is_cur sha (gd_current d) s \<Longrightarrow> counters_ok (T s)"
  using step_old [OF step] step_row(2) [OF step] step_T [OF step] step_live_counts(1) [OF step] step_st(6,8,10) [OF step]
  by (auto simp: counters_ok_def)

lemma step_row_T:
  assumes step: "chunk_step sha clock now d d' s x F T R extra"
  shows "sched_row_ok sha now (gd_chunks d') (T s)"
proof -
  have static: "static_ok sha (T s)" using step_row(1) [OF step] step_st(11) [OF step] by simp
  have dates: "dates_ok now (T s)" by (rule dates_ok_static [OF step_T(1) [OF step] step_row(3) [OF step] step_now [OF step] step_T(3) [OF step]])
  have run: "gs_running (T s) = num (in_status (gs_digest (T s)) GenerationChunkRunning) (gd_chunks d')"
    unfolding step_st(1) [OF step] step_counts [OF step] step_T(4) [OF step] step_row(5) [OF step] by simp
  show ?thesis
  proof (cases "is_cur sha (gd_current d) s")
    case True
    note C = step_cur [OF step, OF True]
    have "0 \<le> gs_failed (T s)" using C step_extra [OF step] step_row(2) [OF step] by (auto simp: counters_ok_def)
    then have counters: "counters_ok (T s)" by (rule exact_counters_ok [OF step_keys' [OF step] step_links' [OF step] step_T_in [OF step] static step_exact' [OF step, OF True] run])
    have "status_ok (T s)" using C step_is_active [OF step, OF True] step_st(6,10) [OF step] step_T(2,4) [OF step] step_live [OF step] step_live_counts(2) [OF step, OF True]
      by (auto simp: status_ok_def last_chunk_def split: if_splits)
    then show ?thesis using static dates counters run by (simp add: sched_row_ok_def)
  next
    case False
    have "0 < gs_running s" using step_old [OF step, OF False] step_live_counts(1) [OF step] by simp
    then have "status_ok (T s)" using step_old [OF step, OF False] step_row(4) [OF step] by (auto simp: status_ok_def)
    then show ?thesis using static dates step_counters_old [OF step, OF False] run by (simp add: sched_row_ok_def)
  qed
qed

lemma step_exact_other:
  assumes step: "chunk_step sha clock now d d' s x F T R extra"
  shows "gs_digest t \<noteq> gs_digest s \<Longrightarrow> exact (gd_chunks d') t = exact (gd_chunks d) t"
  by (simp add: exact_def step_num_other [OF step] step_num_other_all [OF step])

lemma step_row_other:
  assumes step: "chunk_step sha clock now d d' s x F T R extra"
  shows "t \<in> set (gd_schedules d) \<Longrightarrow> gs_digest t \<noteq> gs_digest s \<Longrightarrow> sched_row_ok sha now (gd_chunks d') t"
  using sched_row_ok_later [OF step_I(4) [OF step] step_now [OF step]] by (simp add: sched_row_ok_def step_num_other [OF step])

lemma step_current_inv':
  assumes step: "chunk_step sha clock now d d' s x F T R extra"
  shows "current_ok sha d'"
proof (rule current_okI)
  show "pointer_ok sha (gd_schedules d') k cu" if "gd_current d' k = Some cu" for k cu
    unfolding step_schedules' [OF step] by (rule pointer_ok_map [OF current_okD(1) [OF step_I(6) [OF step]] step_static' [OF step]]) (use that in \<open>simp_all add: step_current' [OF step]\<close>)
  fix t assume "t \<in> set (gd_schedules d')"
  then consider "t = T s" | "t \<in> set (gd_schedules d)" "gs_digest t \<noteq> gs_digest s" using step_schedule' [OF step] by blast
  note t = this
  show "is_cur sha (gd_current d') t" if a: "gs_status t = GenerationScheduleActive"
    using t
  proof cases
    case 1
    have "is_cur sha (gd_current d) s"
    proof (rule ccontr)
      assume "\<not> ?thesis"
      then show False using step_old [OF step] current_okD(2) [OF step_I(6) [OF step] step_s [OF step]] a 1 by auto
    qed
    then show ?thesis using 1 step_st(12) [OF step] by (simp add: step_current' [OF step])
  next
    case 2
    then show ?thesis using current_okD(2) [OF step_I(6) [OF step] 2(1) a] by (simp add: step_current' [OF step])
  qed
  show "gs_status t \<noteq> GenerationScheduleSuperseded \<and> exact (gd_chunks d') t" if c: "is_cur sha (gd_current d') t"
    using t
  proof cases
    case 1
    then have "is_cur sha (gd_current d) s" using c step_st(12) [OF step] by (simp add: step_current' [OF step])
    then show ?thesis using step_exact' [OF step] step_cur [OF step] step_is_active [OF step] 1 by auto
  next
    case 2
    then show ?thesis using current_okD(3,4) [OF step_I(6) [OF step] 2(1)] c step_exact_other [OF step] by (simp add: step_current' [OF step])
  qed
qed

lemma step_preserved:
  assumes step: "chunk_step sha clock now d d' s x F T R extra"
  shows "gen_inv sha now d'"
  using step_keys' [OF step] step_links' [OF step] step_order' [OF step] step_repos_inv' [OF step] step_current_inv' [OF step] step_row_T [OF step] step_row_other [OF step] step_schedule' [OF step] by (intro gen_invI) blast+

section \<open>The end of a lease\<close>

definition settles :: "bool \<Rightarrow> gostring \<Rightarrow> int \<Rightarrow> gsched \<Rightarrow> gsched \<Rightarrow> bool" where
  "settles current outcome now s t \<longleftrightarrow> same_static t s \<and> gs_next t = gs_next s \<and> gs_updated t = now \<and> gs_running t = gs_running s - 1 \<and>
     gs_materialized t = gs_materialized s \<and>
     gs_pending t = gs_pending s + ind (current \<and> outcome = GenerationChunkPending) \<and>
     gs_succeeded t = gs_succeeded s + ind (current \<and> outcome = GenerationChunkDone) \<and>
     gs_failed t = gs_failed s + ind (current \<and> outcome = GenerationChunkFailed) \<and>
     gs_status t = (if current \<and> outcome \<noteq> GenerationChunkPending \<and> last_chunk s then GenerationScheduleSettled else gs_status s)"

lemma same_staticI:
  "spec_of t = spec_of s \<Longrightarrow> gs_schema t = gs_schema s \<Longrightarrow> gs_digest t = gs_digest s \<Longrightarrow> gs_total_chunks t = gs_total_chunks s \<Longrightarrow>
     gs_created t = gs_created s \<Longrightarrow> same_static t s"
  by (simp add: same_static_def)

lemma settles_ops:
  "settles cur GenerationChunkDone now s (complete_sched cur now s)"
  "settles cur GenerationChunkFailed now s (fail_sched cur now s)"
  "settles cur GenerationChunkPending now s (requeue_sched cur now s)"
  by (simp_all add: settles_def complete_sched_def fail_sched_def requeue_sched_def same_static_def spec_of_def)

lemma same_scope_ops:
  "same_scope (settle_chunk outcome cur now x) x" "same_scope ((settle_chunk outcome cur now x)\<lparr>gc_error := err\<rparr>) x"
  "same_scope (requeue_chunk cur nb reason x) x" "same_scope (claim_chunk now worker lease x) x"
  by (simp_all add: same_scope_def settle_chunk_def requeue_chunk_def claim_chunk_def)

lemma is_current_cur:
  "gc_repository c = gs_repository s \<Longrightarrow> gc_stage c = gs_stage s \<Longrightarrow> gc_digest c = gs_digest s \<Longrightarrow>
     is_current sha c d = is_cur sha (gd_current d) s"
  by (auto simp: is_current_def is_cur_def current_digest_Some)

text \<open>The scope of \<open>c\<close> is that of the row \<open>x\<close>.\<close>

definition scope_of :: "gchunk \<Rightarrow> gchunk \<Rightarrow> bool" where
  "scope_of c x \<longleftrightarrow> gc_id x = gc_id c \<and> gc_digest x = gc_digest c \<and> gc_repository x = gc_repository c \<and> gc_stage x = gc_stage c"

lemma chunk_schedule:
  assumes "gen_inv sha clock d" "x \<in> set (gd_chunks d)"
  obtains s where "s \<in> set (gd_schedules d)" "gc_digest x = gs_digest s" "chunk_ok sha s x"
  using gen_invD(2) [OF assms(1)] assms(2) unfolding links_ok_def by blast

lemma end_lease_step:
  assumes inv: "gen_inv sha clock d" and now: "clock \<le> now"
    and x: "x \<in> set (gd_chunks d)" "gc_status x = GenerationChunkRunning" "scope_of c x"
    and F: "same_scope (fc x) x" "gc_status (fc x) = (if is_current sha c d then outcome else GenerationChunkCanceled)"
    and out: "outcome \<in> {GenerationChunkPending, GenerationChunkDone, GenerationChunkFailed}"
    and T: "\<And>s. settles (is_current sha c d) outcome now s (fs s)"
  shows "gen_inv sha now (end_lease sha now c fc fs d)"
proof -
  obtain s where s: "s \<in> set (gd_schedules d)" "gc_digest x = gs_digest s" "chunk_ok sha s x" using chunk_schedule [OF inv x(1)] .
  have sc: "gc_repository c = gs_repository s" "gc_stage c = gs_stage s" "gc_digest c = gs_digest s" "gc_id c = gc_id x"
    using x(3) s(2,3) by (simp_all add: scope_of_def chunk_ok_def)
  note cur = is_current_cur [OF sc(1-3)]
  have t: "same_static (fs s) s" "gs_next (fs s) = gs_next s" "gs_updated (fs s) = now" "gs_running (fs s) = gs_running s - 1"
    "gs_materialized (fs s) = gs_materialized s" using T [of s] unfolding settles_def by blast+
  have counts: "gs_pending (fs s) = gs_pending s + ind (is_current sha c d \<and> outcome = GenerationChunkPending)"
    "gs_succeeded (fs s) = gs_succeeded s + ind (is_current sha c d \<and> outcome = GenerationChunkDone)"
    "gs_failed (fs s) = gs_failed s + ind (is_current sha c d \<and> outcome = GenerationChunkFailed)"
    "gs_status (fs s) = (if is_current sha c d \<and> outcome \<noteq> GenerationChunkPending \<and> last_chunk s then GenerationScheduleSettled else gs_status s)"
    using T [of s] unfolding settles_def by blast+
  have not_run: "gc_status (fc x) \<noteq> GenerationChunkRunning" "known_status (gc_status (fc x))"
    using F(2) out by (auto simp: known_status_def)
  have "chunk_step sha clock now d (end_lease sha now c fc fs d) s x fc fs (\<lambda>r. r\<lparr>rs_running := rs_running r - 1, rs_updated := now\<rparr>) []"
  proof (rule chunk_stepI [OF inv now x(1) s(1,2)])
    show "rs_running (r\<lparr>rs_running := rs_running r - 1, rs_updated := now\<rparr>) = rs_running r - ind (gc_status x = GenerationChunkRunning) +
        ind (gc_status (fc x) = GenerationChunkRunning) \<and> rs_running (r\<lparr>rs_running := rs_running r - 1, rs_updated := now\<rparr>)
          \<le> MaxGenerationRepositoryTokens"
      if "gd_repos d (generationRepositoryID sha (gs_repository s)) = Some r" for r
      using repos_okD(3) [OF gen_invD(5) [OF inv] that] x(2) not_run by simp
  qed (use t counts not_run F out x(2) cur in \<open>auto simp: end_lease_def upd_repo_def upd_sched_def upd_chunk_def sc\<close>)
  then show ?thesis by (rule step_preserved)
qed

lemma owned_row:
  assumes "owned c d"
  obtains x where "x \<in> set (gd_chunks d)" "gc_status x = GenerationChunkRunning" "scope_of c x" "chunk_lease_row c x"
  using assms by (auto simp: owned_def list_ex_iff chunk_lease_row_def scope_of_def generationLeaseScope_def)

lemma inv_complete:
  assumes inv: "gen_inv sha clock d" and now: "clock \<le> now"
  shows "gen_inv sha now (snd (completeGenerationChunkSQL sha now live c d))"
proof (cases "typedChunkStatement live c d = None \<and> owned c d")
  case True
  then obtain x where x: "x \<in> set (gd_chunks d)" "gc_status x = GenerationChunkRunning" "scope_of c x" using owned_row by blast
  have "gen_inv sha now (end_lease sha now c (settle_chunk GenerationChunkDone (is_current sha c d) now) (complete_sched (is_current sha c d) now) d)"
    by (rule end_lease_step [OF inv now x, where outcome = GenerationChunkDone], rule same_scope_ops, simp add: settle_chunk_def, simp, rule settles_ops)
  then show ?thesis using True by (simp add: completeGenerationChunkSQL_def Let_def)
next
  case False
  then have "snd (completeGenerationChunkSQL sha now live c d) = d"
    by (auto simp: completeGenerationChunkSQL_def Let_def split: option.splits)
  then show ?thesis using inv_later [OF inv now] by simp
qed

lemma fail_end_lease:
  assumes inv: "gen_inv sha clock d" and now: "clock \<le> now" and own: "owned c d"
  shows "gen_inv sha now (end_lease sha now c (\<lambda>x. (settle_chunk GenerationChunkFailed (is_current sha c d) now x)\<lparr>gc_error := err\<rparr>)
    (fail_sched (is_current sha c d) now) d)"
proof -
  obtain x where x: "x \<in> set (gd_chunks d)" "gc_status x = GenerationChunkRunning" "scope_of c x" using owned_row [OF own] by blast
  show ?thesis
    by (rule end_lease_step [OF inv now x, where outcome = GenerationChunkFailed], rule same_scope_ops, simp add: settle_chunk_def, simp, rule settles_ops)
qed

lemma inv_fail:
  assumes "gen_inv sha clock d" "clock \<le> now"
  shows "gen_inv sha now (snd (failGenerationChunkSQL sha now live c err d))"
  using fail_end_lease [OF assms] inv_later [OF assms] by (simp add: failGenerationChunkSQL_def Let_def split: option.splits)

lemma inv_deferChunk:
  assumes inv: "gen_inv sha clock d" and now: "clock \<le> now"
  shows "gen_inv sha now (snd (deferGenerationChunkSQL sha now live c reason nb d))"
proof (cases "typedChunkStatement live c d = None \<and> owned c d")
  case True
  then obtain x where x: "x \<in> set (gd_chunks d)" "gc_status x = GenerationChunkRunning" "scope_of c x" using owned_row by blast
  have "gen_inv sha now (end_lease sha now c (requeue_chunk (is_current sha c d) nb reason) (requeue_sched (is_current sha c d) now) d)"
    by (rule end_lease_step [OF inv now x, where outcome = GenerationChunkPending], rule same_scope_ops, simp add: requeue_chunk_def, simp, rule settles_ops)
  then show ?thesis using True by (simp add: deferGenerationChunkSQL_def Let_def)
next
  case False
  then have "snd (deferGenerationChunkSQL sha now live c reason nb d) = d"
    by (auto simp: deferGenerationChunkSQL_def Let_def split: option.splits)
  then show ?thesis using inv_later [OF inv now] by simp
qed

lemma inv_reap:
  assumes inv: "gen_inv sha clock d" and now: "clock \<le> now"
    and seen: "\<And>x. x \<in> set (gd_chunks d) \<Longrightarrow> gc_id x = gc_id c \<Longrightarrow> scope_of c x"
  shows "gen_inv sha now (snd (reapGenerationChunkSQL sha now c cutoff d))"
proof (cases "list_ex (stale_row c cutoff) (gd_chunks d)")
  case True
  then obtain x where x: "x \<in> set (gd_chunks d)" "gc_status x = GenerationChunkRunning" "gc_id x = gc_id c"
    by (auto simp: list_ex_iff stale_row_def)
  have "gen_inv sha now (end_lease sha now c (requeue_chunk (is_current sha c d) now ''stale worker lease reaped'')
      (requeue_sched (is_current sha c d) now) d)"
    by (rule end_lease_step [OF inv now x(1,2) seen [OF x(1,3)], where outcome = GenerationChunkPending], rule same_scope_ops, simp add: requeue_chunk_def, simp, rule settles_ops)
  then show ?thesis using True by (simp add: reapGenerationChunkSQL_def Let_def)
qed (use inv_later [OF inv now] in \<open>simp add: reapGenerationChunkSQL_def Let_def\<close>)

section \<open>Retry\<close>

lemma create_chunk_Inr:
  "create_chunk c d = Inr d' \<longleftrightarrow> gc_identity c \<notin> gc_identity ` set (gd_chunks d) \<and> d' = d\<lparr>gd_chunks := gd_chunks d @ [c]\<rparr>"
proof -
  have "list_ex (\<lambda>x. gc_identity x = gc_identity c) (gd_chunks d) \<longleftrightarrow> gc_identity c \<in> gc_identity ` set (gd_chunks d)"
    by (auto simp: list_ex_iff image_iff) metis+
  then show ?thesis by (auto simp: create_chunk_def)
qed

lemma retry_step:
  assumes inv: "gen_inv sha clock d" and now: "clock \<le> now" and own: "owned c d"
    and cur: "is_current sha c d" and more: "\<not> max_attempts \<le> gc_attempt c + 1"
    and bounds: "\<And>s. s \<in> set (gd_schedules d) \<Longrightarrow> gs_digest s = gc_digest c \<Longrightarrow> gs_max_attempts s = max_attempts"
    and fresh: "i \<notin> gc_id ` set (gd_chunks d)"
    and made: "create_chunk (successor sha c i nb) (end_lease sha now c
      (\<lambda>x. (settle_chunk GenerationChunkFailed True now x)\<lparr>gc_error := err\<rparr>) (retry_sched now) d) = Inr d'"
  shows "gen_inv sha now d'"
proof -
  let ?F = "\<lambda>x. (settle_chunk GenerationChunkFailed True now x)\<lparr>gc_error := err\<rparr>"
  obtain x where x: "x \<in> set (gd_chunks d)" "gc_status x = GenerationChunkRunning" "scope_of c x" "chunk_lease_row c x"
    using owned_row [OF own] .
  obtain s where s: "s \<in> set (gd_schedules d)" "gc_digest x = gs_digest s" "chunk_ok sha s x" using chunk_schedule [OF inv x(1)] .
  have sc: "gc_repository c = gs_repository s" "gc_stage c = gs_stage s" "gc_digest c = gs_digest s" "gc_id c = gc_id x"
    using x(3) s(2,3) by (simp_all add: scope_of_def chunk_ok_def)
  have cu: "is_cur sha (gd_current d) s" using cur is_current_cur [OF sc(1-3)] by blast
  have F: "same_scope (?F x) x" "gc_status (?F x) = GenerationChunkFailed" by (rule same_scope_ops) (simp add: settle_chunk_def)
  have nxt: "next_attempt sha (successor sha c i nb) x"
    using x(4) by (simp add: next_attempt_def successor_def chunk_lease_row_def generationLeaseScope_def)
  have att: "gc_attempt x + 1 < gs_max_attempts s"
    using more bounds [OF s(1)] sc(3) x(4) by (simp add: chunk_lease_row_def generationLeaseScope_def)
  have F_ident: "gc_identity (?F y) = gc_identity y" for y by (simp add: settle_chunk_def)
  have ident: "gc_identity (successor sha c i nb) \<notin> gc_identity ` set (gd_chunks d)"
  proof
    assume "gc_identity (successor sha c i nb) \<in> gc_identity ` set (gd_chunks d)"
    then obtain y where y: "y \<in> set (gd_chunks d)" "gc_identity y = gc_identity (successor sha c i nb)" by auto
    let ?y = "if gc_id y = gc_id c then ?F y else y"
    have "?y \<in> set (gd_chunks (end_lease sha now c ?F (retry_sched now) d))"
      using y(1) by (auto simp: end_lease_def upd_repo_def upd_sched_def upd_chunk_def)
    moreover have "gc_identity ?y = gc_identity (successor sha c i nb)" using y(2) F_ident by simp
    ultimately have "gc_identity (successor sha c i nb) \<in> gc_identity ` set (gd_chunks (end_lease sha now c ?F (retry_sched now) d))"
      by (intro image_eqI [of _ _ ?y]) simp_all
    then show False using made unfolding create_chunk_Inr by blast
  qed
  have d': "d' = (end_lease sha now c ?F (retry_sched now) d)
      \<lparr>gd_chunks := gd_chunks (end_lease sha now c ?F (retry_sched now) d) @ [successor sha c i nb]\<rparr>"
    using made unfolding create_chunk_Inr by blast
  have T: "same_static (retry_sched now s) s" by (simp add: same_static_def retry_sched_def spec_of_def)
  have "chunk_step sha clock now d d' s x ?F (retry_sched now) (\<lambda>r. r\<lparr>rs_running := rs_running r - 1, rs_updated := now\<rparr>)
      [successor sha c i nb]"
  proof (rule chunk_stepI [OF inv now x(1) s(1,2)])
    show "same_scope (?F x) x" by (rule F(1))
    show "gd_chunks d' = map (\<lambda>y. if gc_id y = gc_id x then ?F y else y) (gd_chunks d) @ [successor sha c i nb]"
      "gd_schedules d' = map (\<lambda>t. if gs_digest t = gs_digest s then retry_sched now t else t) (gd_schedules d)"
      "gd_current d' = gd_current d"
      "gd_repos d' = (gd_repos d)(generationRepositoryID sha (gs_repository s) :=
        map_option (\<lambda>r. r\<lparr>rs_running := rs_running r - 1, rs_updated := now\<rparr>) (gd_repos d (generationRepositoryID sha (gs_repository s))))"
      unfolding d' by (simp_all add: end_lease_def upd_repo_def upd_sched_def upd_chunk_def sc)
    show "rs_running (r\<lparr>rs_running := rs_running r - 1, rs_updated := now\<rparr>) = rs_running r - ind (gc_status x = GenerationChunkRunning) +
        ind (gc_status (?F x) = GenerationChunkRunning) \<and> rs_running (r\<lparr>rs_running := rs_running r - 1, rs_updated := now\<rparr>)
          \<le> MaxGenerationRepositoryTokens"
      if "gd_repos d (generationRepositoryID sha (gs_repository s)) = Some r" for r
      using repos_okD(3) [OF gen_invD(5) [OF inv] that] x(2) F(2) by simp
    show "[successor sha c i nb] = [] \<or> (\<exists>z. [successor sha c i nb] = [z] \<and> gc_status (?F x) = GenerationChunkFailed \<and> next_attempt sha z x \<and>
       gc_attempt x + 1 < gs_max_attempts s \<and> gc_id z \<notin> gc_id ` set (gd_chunks d) \<and> gc_identity z \<notin> gc_identity ` set (gd_chunks d))"
      using nxt att ident fresh F(2) by (intro disjI2 exI [of _ "successor sha c i nb"]) (simp add: successor_def)
  qed (use T F cu x(2) in \<open>simp_all add: retry_sched_def known_status_def\<close>)
  then show ?thesis by (rule step_preserved)
qed

lemma inv_retry:
  assumes inv: "gen_inv sha clock d" and now: "clock \<le> now"
    and bounds: "\<And>s. s \<in> set (gd_schedules d) \<Longrightarrow> gs_digest s = gc_digest c \<Longrightarrow> gs_max_attempts s = max_attempts"
    and fresh: "i \<notin> gc_id ` set (gd_chunks d)"
  shows "gen_inv sha now (snd (retryGenerationChunkSQL sha now live i max_attempts c err nb d))"
proof (cases "typedChunkStatement live c d = None \<and> owned c d")
  case True
  show ?thesis
  proof (cases "is_current sha c d \<and> \<not> max_attempts \<le> gc_attempt c + 1")
    case more: True
    let ?d1 = "end_lease sha now c (\<lambda>x. (settle_chunk GenerationChunkFailed True now x)\<lparr>gc_error := err\<rparr>) (retry_sched now) d"
    show ?thesis
    proof (cases "create_chunk (successor sha c i nb) ?d1")
      case (Inl e)
      then show ?thesis using True more inv_later [OF inv now] by (simp add: retryGenerationChunkSQL_def Let_def)
    next
      case (Inr d')
      have "gen_inv sha now d'"
        by (rule retry_step [OF inv now _ _ _ bounds fresh Inr]) (use True more in auto)
      then show ?thesis using True more Inr by (simp add: retryGenerationChunkSQL_def Let_def)
    qed
  next
    case False
    then show ?thesis using True fail_end_lease [OF inv now, of c err] by (auto simp: retryGenerationChunkSQL_def Let_def)
  qed
next
  case False
  then have "snd (retryGenerationChunkSQL sha now live i max_attempts c err nb d) = d"
    by (auto simp: retryGenerationChunkSQL_def Let_def split: option.splits)
  then show ?thesis using inv_later [OF inv now] by simp
qed

section \<open>Claim\<close>

text \<open>A schedule value read from the table at any time still describes the row of its digest.\<close>

definition seen_schedule :: "gsched \<Rightarrow> gdata \<Rightarrow> bool" where
  "seen_schedule e d \<longleftrightarrow> (\<forall>s \<in> set (gd_schedules d). gs_digest s = gs_digest e \<longrightarrow> spec_of s = spec_of e)"

lemma seen_scheduleD:
  assumes "seen_schedule e d" "s \<in> set (gd_schedules d)" "gs_digest s = gs_digest e"
  shows "gs_repository s = gs_repository e" "gs_stage s = gs_stage e" "gs_generation s = gs_generation e" "gs_class s = gs_class e"
    "gs_items s = gs_items e" "gs_chunk_items s = gs_chunk_items e" "gs_max_attempts s = gs_max_attempts e" "gs_tokens s = gs_tokens e"
  using assms by (auto simp: seen_schedule_def spec_of_def)

lemma candidate_row:
  assumes "claimGenerationChunkSelectionSQL sha now plan e d = Some i"
  obtains c where "c \<in> set (gd_chunks d)" "gc_id c = i" "gc_status c = GenerationChunkPending" "gc_digest c = gs_digest e"
proof -
  obtain c cs where c: "claim_candidates now plan e d = c # cs" "gc_id c = i"
    using assms by (auto simp: claimGenerationChunkSelectionSQL_def split: if_splits list.splits)
  then have "c \<in> set (claim_candidates now plan e d)" by simp
  then show ?thesis using that c(2) by (auto simp: claim_candidates_def)
qed

lemma selection_eligible:
  assumes "claimGenerationChunkSelectionSQL sha now plan e d = Some i"
  shows "current_digest sha (gs_repository e) (gs_stage e) d = Some (gs_digest e)" "repository_free sha e d"
    "\<exists>s \<in> set (gd_schedules d). gs_digest s = gs_digest e \<and> gs_status s = GenerationScheduleActive \<and> 0 < gs_pending s"
  using assms by (auto simp: claimGenerationChunkSelectionSQL_def schedule_ready_def find_Some_iff split: if_splits)

lemma claim_step:
  assumes inv: "gen_inv sha clock d" and now: "clock \<le> now" and seen: "seen_schedule e d"
    and sel: "claimGenerationChunkSelectionSQL sha now plan e d = Some chunk"
  shows "gen_inv sha now (upd_repo (generationRepositoryID sha (gs_repository e)) (claim_repo now)
    (upd_sched (gs_digest e) (claim_sched now)
      (upd_chunk chunk (\<lambda>c. if gc_status c = GenerationChunkPending then claim_chunk now worker lease c else c) d)))"
    (is "gen_inv sha now ?d")
proof -
  let ?F = "\<lambda>c. if gc_status c = GenerationChunkPending then claim_chunk now worker lease c else c"
  obtain x where x: "x \<in> set (gd_chunks d)" "gc_id x = chunk" "gc_status x = GenerationChunkPending" "gc_digest x = gs_digest e"
    using candidate_row [OF sel] .
  obtain s where s: "s \<in> set (gd_schedules d)" "gs_digest s = gs_digest e" using selection_eligible(3) [OF sel] by blast
  note e = seen_scheduleD [OF seen s]
  have cu: "is_cur sha (gd_current d) s" using selection_eligible(1) [OF sel] e s(2) by (auto simp: is_cur_def current_digest_Some)
  have F: "same_scope (?F x) x" "gc_status (?F x) = GenerationChunkRunning"
    using same_scope_ops(4) [of now worker lease x] x(3) by (simp_all add: claim_chunk_def)
  have T: "same_static (claim_sched now s) s" by (simp add: same_static_def claim_sched_def spec_of_def)
  have row: "static_ok sha s" using gen_invD(4) [OF inv s(1)] by (simp add: sched_row_ok_def)
  have "chunk_step sha clock now d ?d s x ?F (claim_sched now) (claim_repo now) []"
  proof (rule chunk_stepI [OF inv now x(1) s(1)])
    show "same_scope (?F x) x" by (rule F(1))
    show "rs_running (claim_repo now r) = rs_running r - ind (gc_status x = GenerationChunkRunning) +
        ind (gc_status (?F x) = GenerationChunkRunning) \<and> rs_running (claim_repo now r) \<le> MaxGenerationRepositoryTokens"
      if "gd_repos d (generationRepositoryID sha (gs_repository s)) = Some r" for r
      using selection_eligible(2) [OF sel] that e static_bounds(5) [OF row] x(3) F(2) by (simp add: repository_free_def claim_repo_def)
    show "gs_running (claim_sched now s) = gs_running s - ind (gc_status x = GenerationChunkRunning) +
        ind (gc_status (?F x) = GenerationChunkRunning)" unfolding F(2) using x(3) by (simp add: claim_sched_def)
  qed (use T F(2) cu x s(2) e in \<open>simp_all add: claim_sched_def known_status_def upd_repo_def upd_sched_def upd_chunk_def\<close>)
  then show ?thesis by (rule step_preserved)
qed

lemma claimed_rows:
  assumes keys: "keys_ok d" and x: "x \<in> set (gd_chunks d)" "P x"
  shows "filter (\<lambda>c. gc_id c = gc_id x \<and> P c) (gd_chunks d) = [x]"
proof -
  have "filter (\<lambda>c. gc_id c = gc_id x \<and> P c) (gd_chunks d) = [] \<or> (\<exists>y. filter (\<lambda>c. gc_id c = gc_id x \<and> P c) (gd_chunks d) = [y])"
    by (rule filter_single [where f = gc_id]) (use keys in \<open>auto simp: keys_ok_def\<close>)
  moreover have "x \<in> set (filter (\<lambda>c. gc_id c = gc_id x \<and> P c) (gd_chunks d))" using x by simp
  ultimately show ?thesis by (metis empty_iff empty_set set_ConsD)
qed

lemma inv_claimChunk:
  assumes inv: "gen_inv sha clock d" and now: "clock \<le> now" and seen: "seen_schedule e d"
  shows "gen_inv sha now (snd (claimGenerationChunkSQL sha now fence plan e worker lease chunk d))"
proof (cases "\<not> (gs_class e = GenerationResourceTypedIndex \<and> \<not> fence) \<and> claimGenerationChunkSelectionSQL sha now plan e d = Some chunk")
  case True
  then have sel: "claimGenerationChunkSelectionSQL sha now plan e d = Some chunk" by blast
  obtain x where x: "x \<in> set (gd_chunks d)" "gc_id x = chunk" "gc_status x = GenerationChunkPending"
    using candidate_row [OF sel] by blast
  have "filter (\<lambda>c. gc_id c = chunk \<and> gc_status c = GenerationChunkPending) (gd_chunks d) = [x]"
    using claimed_rows [OF gen_invD(1) [OF inv] x(1), of "\<lambda>c. gc_status c = GenerationChunkPending"] x(2,3) by simp
  then show ?thesis using True claim_step [OF inv now seen sel, of worker lease]
    by (auto simp: claimGenerationChunkSQL_def Let_def)
next
  case False
  then have "snd (claimGenerationChunkSQL sha now fence plan e worker lease chunk d) = d"
    by (auto simp: claimGenerationChunkSQL_def Let_def split: option.splits)
  then show ?thesis using inv_later [OF inv now] by simp
qed

end
