(* ===== verification/Generation_Fanout.thy ===== *)
theory Generation_Fanout
  imports Generation_Chunks
begin

text \<open>
  The invariant through heartbeats, fan-out and the collection of old schedules.
\<close>

section \<open>Heartbeats\<close>

lemma inv_same_chunks:
  assumes inv: "gen_inv sha clock d" and h: "\<And>c. c \<in> set (gd_chunks d) \<Longrightarrow> same_scope (h c) c \<and> gc_status (h c) = gc_status c"
  shows "gen_inv sha clock (d\<lparr>gd_chunks := map h (gd_chunks d)\<rparr>)" (is "gen_inv sha clock ?d")
proof (rule gen_invI)
  note I = gen_invD [OF inv]
  have H: "gc_id (h c) = gc_id c" "gc_identity (h c) = gc_identity c" "gc_digest (h c) = gc_digest c" "gc_status (h c) = gc_status c"
    "gc_attempt (h c) = gc_attempt c" "gc_offset (h c) = gc_offset c" "gc_repository (h c) = gc_repository c"
    "chunk_ok sha s (h c) = chunk_ok sha s c" if "c \<in> set (gd_chunks d)" for c s
    using h [OF that] by (simp_all add: same_scope_def chunk_ok_def)
  have n: "num (in_status g st) (gd_chunks ?d) = num (in_status g st) (gd_chunks d)" "num (in_schedule g) (gd_chunks ?d) = num (in_schedule g) (gd_chunks d)"
    "num (first_try g) (gd_chunks ?d) = num (first_try g) (gd_chunks d)" "num (running_at sha k) (gd_chunks ?d) = num (running_at sha k) (gd_chunks d)"
    for g st k
    by (simp_all add: num_map H running_at_def)
  have ex: "exact (gd_chunks ?d) s = exact (gd_chunks d) s" for s unfolding exact_def by (simp only: n)
  show "keys_ok ?d" using I(1) by (simp add: keys_ok_def comp_def H cong: map_cong)
  show "links_ok sha ?d" using I(2) by (simp add: links_ok_def H)
  show "order_ok (gd_chunks ?d)" using I(3) by (simp add: order_ok_def H)
  show "sched_row_ok sha clock (gd_chunks ?d) s" if "s \<in> set (gd_schedules ?d)" for s
    using I(4) [of s] that unfolding sched_row_ok_def by (simp only: n) simp
  show "repos_ok sha ?d"
    using repos_okD [OF I(5)] by (intro repos_okI) (simp_all only: n, simp_all)
  show "current_ok sha ?d" using I(6) unfolding current_ok_def by (simp only: ex) simp
qed

lemma inv_heartbeat:
  assumes inv: "gen_inv sha clock d" and now: "clock \<le> now"
  shows "gen_inv sha now (snd (heartbeatSQL now live c d))"
proof (cases "typedChunkStatement live c d")
  case None
  let ?h = "\<lambda>x. if gc_id x = gc_id c then if chunk_lease_row c x then x\<lparr>gc_heartbeat := Some now\<rparr> else x else x"
  have "gen_inv sha now (d\<lparr>gd_chunks := map ?h (gd_chunks d)\<rparr>)"
    by (rule inv_same_chunks [OF inv_later [OF inv now]]) (simp add: same_scope_def)
  then show ?thesis using None by (simp add: heartbeatSQL_def upd_chunk_def)
qed (use inv_later [OF inv now] in \<open>simp add: heartbeatSQL_def\<close>)

section \<open>Fan-out\<close>

lemma create_chunks_Inr:
  assumes "create_chunks cs d = Inr d'"
  shows "d' = d\<lparr>gd_chunks := gd_chunks d @ cs\<rparr>" "distinct (map gc_identity cs)"
    "set (map gc_identity cs) \<inter> gc_identity ` set (gd_chunks d) = {}"
proof -
  have "d' = d\<lparr>gd_chunks := gd_chunks d @ cs\<rparr> \<and> distinct (map gc_identity cs) \<and>
      set (map gc_identity cs) \<inter> gc_identity ` set (gd_chunks d) = {}"
    using assms
  proof (induction cs arbitrary: d)
    case (Cons c cs)
    obtain d1 where d1: "create_chunk c d = Inr d1" "create_chunks cs d1 = Inr d'"
      using Cons.prems by (auto split: sum.splits)
    have c: "gc_identity c \<notin> gc_identity ` set (gd_chunks d)" "d1 = d\<lparr>gd_chunks := gd_chunks d @ [c]\<rparr>"
      using d1(1) unfolding create_chunk_Inr by blast+
    show ?case using Cons.IH [OF d1(2)] c by (auto simp: c(2))
  qed simp
  then show "d' = d\<lparr>gd_chunks := gd_chunks d @ cs\<rparr>" "distinct (map gc_identity cs)"
    "set (map gc_identity cs) \<inter> gc_identity ` set (gd_chunks d) = {}" by blast+
qed

lemma chunk_count_rest:
  assumes "1 \<le> per"
  shows "chunk_count (items - n * per) per = chunk_count items per - n"
proof -
  have e: "items - n * per + per - 1 = (items + per - 1) + (- n) * per" by simp
  have "((items + per - 1) + (- n) * per) div per = - n + (items + per - 1) div per"
    by (rule div_mult_self1) (use assms in simp)
  then show ?thesis unfolding chunk_count_def e by simp
qed

lemma slot_below:
  assumes "1 \<le> per" "k < chunk_count r per"
  shows "k * per < r"
proof -
  have "k * per \<le> (chunk_count r per - 1) * per" using assms by (intro mult_right_mono) auto
  then show ?thesis using chunk_count_bounds(2) [OF assms(1), of r] by linarith
qed

lemma sum_lengths:
  assumes "1 \<le> per" "int n \<le> chunk_count r per" "0 \<le> r"
  shows "sum_list (map (\<lambda>k. min per (r - int k * per)) [0..<n]) = min r (int n * per)"
  using assms(2)
proof (induction n)
  case 0
  then show ?case using assms(3) by simp
next
  case (Suc n)
  have "int n * per < r" by (rule slot_below [OF assms(1)]) (use Suc.prems in simp)
  then show ?case using Suc by (auto simp: min_def algebra_simps)
qed

definition fanout_count :: "gsched \<Rightarrow> int" where
  "fanout_count e = min MaxGenerationFanoutPage (chunk_count (gs_items e - gs_next e) (gs_chunk_items e))"

definition fanout_chunks :: "hasher \<Rightarrow> (nat \<Rightarrow> gostring) \<Rightarrow> gsched \<Rightarrow> gchunk list" where
  "fanout_chunks sha ids e = map (\<lambda>(k, offset, len). new_chunk sha e (ids k) offset len) (enumerate 0 (generationChunkSpecs e))"

definition fanout_chunk :: "hasher \<Rightarrow> (nat \<Rightarrow> gostring) \<Rightarrow> gsched \<Rightarrow> nat \<Rightarrow> gchunk" where
  "fanout_chunk sha ids e k = new_chunk sha e (ids k) (gs_next e + int k * gs_chunk_items e)
     (min (gs_chunk_items e) (gs_items e - (gs_next e + int k * gs_chunk_items e)))"

lemma fanout_chunks_eq: "fanout_chunks sha ids e = map (fanout_chunk sha ids e) [0..<nat (fanout_count e)]"
  by (intro nth_equalityI) (simp_all add: fanout_chunks_def generationChunkSpecs_def fanout_count_def fanout_chunk_def Let_def nth_enumerate_eq)

lemma new_offset:
  assumes "1 \<le> gs_chunk_items e" "gs_next e \<le> gs_items e" "0 \<le> fanout_count e"
  shows "gs_next e + sum_list (map snd (generationChunkSpecs e)) = min (gs_items e) (gs_next e + fanout_count e * gs_chunk_items e)"
proof -
  let ?r = "gs_items e - gs_next e"
  have "map snd (generationChunkSpecs e) = map (\<lambda>k. min (gs_chunk_items e) (?r - int k * gs_chunk_items e)) [0..<nat (fanout_count e)]"
    by (simp add: generationChunkSpecs_def fanout_count_def Let_def comp_def algebra_simps)
  moreover have "int (nat (fanout_count e)) \<le> chunk_count ?r (gs_chunk_items e)" using assms(3) by (simp add: fanout_count_def)
  ultimately show ?thesis using sum_lengths [OF assms(1), of "nat (fanout_count e)" ?r] assms(2,3) by (simp add: min_def)
qed

section \<open>The invariant through fan-out\<close>

definition expanded :: "gsched \<Rightarrow> int \<Rightarrow> int \<Rightarrow> gsched \<Rightarrow> gsched" where
  "expanded e n now s = s\<lparr>gs_next := gs_next e + sum_list (map snd (generationChunkSpecs e)), gs_materialized := gs_materialized s + n,
     gs_pending := gs_pending s + n, gs_updated := now\<rparr>"

lemma fanout_chunk_simps [simp]:
  "gc_digest (fanout_chunk sha ids e k) = gs_digest e" "gc_status (fanout_chunk sha ids e k) = GenerationChunkPending"
  "gc_attempt (fanout_chunk sha ids e k) = 0" "gc_id (fanout_chunk sha ids e k) = ids k"
  "gc_offset (fanout_chunk sha ids e k) = gs_next e + int k * gs_chunk_items e"
  by (simp_all add: fanout_chunk_def new_chunk_def)

lemma fanout_state:
  assumes inv: "gen_inv sha clock d" and seen: "seen_schedule e d"
    and s: "s \<in> set (gd_schedules d)" "gs_digest s = gs_digest e" "gs_next s = gs_next e"
    and act: "gs_status s = GenerationScheduleActive"
  shows "exact (gd_chunks d) s" "0 \<le> fanout_count e" "gs_next e \<le> gs_items e" "1 \<le> gs_chunk_items e"
    "0 < fanout_count e \<Longrightarrow> gs_next e = num (first_try (gs_digest e)) (gd_chunks d) * gs_chunk_items e"
    "num (first_try (gs_digest e)) (gd_chunks d) + fanout_count e \<le> gs_total_chunks s"
    "gs_next e + sum_list (map snd (generationChunkSpecs e)) =
       min (gs_items e) ((num (first_try (gs_digest e)) (gd_chunks d) + fanout_count e) * gs_chunk_items e)"
proof -
  let ?f = "num (first_try (gs_digest e)) (gd_chunks d)"
  note e = seen_scheduleD [OF seen s(1,2)]
  have row: "static_ok sha s" "counters_ok s" using gen_invD(4) [OF inv s(1)] by (simp_all add: sched_row_ok_def)
  show ex: "exact (gd_chunks d) s" by (rule current_okD(4) [OF gen_invD(6) [OF inv] s(1) active_cur [OF inv s(1) act]])
  show per: "1 \<le> gs_chunk_items e" using static_bounds(2) [OF row(1)] e by simp
  show le: "gs_next e \<le> gs_items e" using row(2) s(3) e by (simp add: counters_ok_def)
  show nn: "0 \<le> fanout_count e"
    using per le by (simp add: fanout_count_def chunk_count_def pos_imp_zdiv_nonneg_iff)
  have tot: "gs_total_chunks s = chunk_count (gs_items e) (gs_chunk_items e)" using row(1) e by (simp add: static_ok_def)
  have nx: "gs_next e = min (gs_items e) (?f * gs_chunk_items e)" "?f \<le> gs_total_chunks s"
    using ex s e unfolding exact_def by simp_all
  show slot: "gs_next e = ?f * gs_chunk_items e" if "0 < fanout_count e"
  proof -
    have "chunk_count (gs_items e - gs_next e) (gs_chunk_items e) > 0" using that by (simp add: fanout_count_def)
    then have "0 * gs_chunk_items e < gs_items e - gs_next e" by (intro slot_below [OF per])
    then show ?thesis using nx by (simp add: min_def split: if_splits)
  qed
  show "?f + fanout_count e \<le> gs_total_chunks s"
  proof (cases "0 < fanout_count e")
    case True
    have "fanout_count e \<le> chunk_count (gs_items e - ?f * gs_chunk_items e) (gs_chunk_items e)"
      unfolding slot [OF True, symmetric] by (simp add: fanout_count_def)
    then show ?thesis using chunk_count_rest [OF per] tot by simp
  qed (use nn nx(2) in simp)
  show "gs_next e + sum_list (map snd (generationChunkSpecs e)) = min (gs_items e) ((?f + fanout_count e) * gs_chunk_items e)"
  proof (cases "0 < fanout_count e")
    case True
    then show ?thesis using new_offset [OF per le nn] slot by (simp add: distrib_right)
  next
    case False
    then have "fanout_count e = 0" using nn by simp
    then show ?thesis using new_offset [OF per le nn] nx(1) le by simp
  qed
qed

lemma fanout_chunk_ok:
  assumes "static_ok sha t" "spec_of t = spec_of e" "gs_digest t = gs_digest e"
    and "int k < fanout_count e" "0 \<le> gs_next e" "gs_next e mod gs_chunk_items e = 0"
    and "gs_next t = gs_next e + sum_list (map snd (generationChunkSpecs e))" "gs_next e \<le> gs_items e"
  shows "chunk_ok sha t (fanout_chunk sha ids e k)"
proof -
  have e: "gs_repository t = gs_repository e" "gs_stage t = gs_stage e" "gs_generation t = gs_generation e" "gs_class t = gs_class e"
    "gs_items t = gs_items e" "gs_chunk_items t = gs_chunk_items e" "gs_max_attempts t = gs_max_attempts e"
    using assms(2) by (simp_all add: spec_of_def)
  have per: "1 \<le> gs_chunk_items e" using static_bounds(2) [OF assms(1)] e by simp
  have "int k * gs_chunk_items e < gs_items e - gs_next e"
    by (rule slot_below [OF per]) (use assms(4) in \<open>simp add: fanout_count_def\<close>)
  moreover have "int k * gs_chunk_items e < fanout_count e * gs_chunk_items e" using assms(4) per by simp
  ultimately have "gs_next e + int k * gs_chunk_items e < gs_next t"
    using new_offset [OF per assms(8)] assms(4,7) by simp
  then show ?thesis using static_bounds(3) [OF assms(1)] assms(3,5,6) e per
    by (simp add: chunk_ok_def fanout_chunk_def new_chunk_def mod_add_left_eq [symmetric])
qed

lemma same_static_expanded: "same_static (expanded e n now s) s"
  by (simp add: same_static_def expanded_def spec_of_def)

lemma expanded_simps [simp]:
  "gs_digest (expanded e n now s) = gs_digest s"
  "gs_status (expanded e n now s) = gs_status s" "gs_running (expanded e n now s) = gs_running s"
  "gs_pending (expanded e n now s) = gs_pending s + n" "gs_materialized (expanded e n now s) = gs_materialized s + n"
  "gs_succeeded (expanded e n now s) = gs_succeeded s" "gs_failed (expanded e n now s) = gs_failed s" "gs_updated (expanded e n now s) = now"
  "gs_next (expanded e n now s) = gs_next e + sum_list (map snd (generationChunkSpecs e))"
  by (simp_all add: expanded_def)

text \<open>The page \<open>cs\<close> is fanned out for the row \<open>s\<close> that the caller read as \<open>e\<close>.\<close>

definition fan_step :: "hasher \<Rightarrow> int \<Rightarrow> int \<Rightarrow> gdata \<Rightarrow> gsched \<Rightarrow> gsched \<Rightarrow> (nat \<Rightarrow> gostring) \<Rightarrow> gchunk list \<Rightarrow> bool" where
  "fan_step sha clock now d e s ids cs \<longleftrightarrow> gen_inv sha clock d \<and> clock \<le> now \<and> seen_schedule e d \<and> s \<in> set (gd_schedules d) \<and>
     gs_digest s = gs_digest e \<and> gs_next s = gs_next e \<and> gs_status s = GenerationScheduleActive \<and>
     cs = map (fanout_chunk sha ids e) [0..<nat (fanout_count e)] \<and>
     distinct (map gc_id cs) \<and> gc_id ` set cs \<inter> gc_id ` set (gd_chunks d) = {} \<and>
     distinct (map gc_identity cs) \<and> gc_identity ` set cs \<inter> gc_identity ` set (gd_chunks d) = {}"

definition fanned :: "int \<Rightarrow> gsched \<Rightarrow> gchunk list \<Rightarrow> gdata \<Rightarrow> gdata" where
  "fanned now e cs d = upd_sched (gs_digest e) (expanded e (fanout_count e) now) (d\<lparr>gd_chunks := gd_chunks d @ cs\<rparr>)"

lemma fan_stepD:
  assumes "fan_step sha clock now d e s ids cs"
  shows "gen_inv sha clock d" "clock \<le> now" "seen_schedule e d" "s \<in> set (gd_schedules d)" "gs_digest s = gs_digest e"
    "gs_next s = gs_next e" "gs_status s = GenerationScheduleActive" "cs = map (fanout_chunk sha ids e) [0..<nat (fanout_count e)]"
    "distinct (map gc_id cs)" "gc_id ` set cs \<inter> gc_id ` set (gd_chunks d) = {}"
    "distinct (map gc_identity cs)" "gc_identity ` set cs \<inter> gc_identity ` set (gd_chunks d) = {}"
  using assms unfolding fan_step_def by blast+

lemma fan_state:
  assumes "fan_step sha clock now d e s ids cs"
  shows "exact (gd_chunks d) s" "0 \<le> fanout_count e" "gs_next e \<le> gs_items e" "1 \<le> gs_chunk_items e"
    "0 < fanout_count e \<Longrightarrow> gs_next e = num (first_try (gs_digest e)) (gd_chunks d) * gs_chunk_items e"
    "num (first_try (gs_digest e)) (gd_chunks d) + fanout_count e \<le> gs_total_chunks s"
    "gs_next e + sum_list (map snd (generationChunkSpecs e)) =
       min (gs_items e) ((num (first_try (gs_digest e)) (gd_chunks d) + fanout_count e) * gs_chunk_items e)"
    "gs_items s = gs_items e" "gs_chunk_items s = gs_chunk_items e"
    "static_ok sha s" "counters_ok s" "dates_ok clock s" "gs_running s = num (in_status (gs_digest s) GenerationChunkRunning) (gd_chunks d)"
  using fanout_state [OF fan_stepD(1,3-7) [OF assms]] seen_scheduleD(5,6) [OF fan_stepD(3-5) [OF assms]]
    gen_invD(4) [OF fan_stepD(1,4) [OF assms]] by (simp_all add: sched_row_ok_def)

lemma fanned_simps:
  assumes "fan_step sha clock now d e s ids cs"
  shows "gd_chunks (fanned now e cs d) = gd_chunks d @ cs" "gd_current (fanned now e cs d) = gd_current d"
    "gd_repos (fanned now e cs d) = gd_repos d"
    "gd_schedules (fanned now e cs d) = map (\<lambda>t. if gs_digest t = gs_digest s then expanded e (fanout_count e) now t else t) (gd_schedules d)"
  using fan_stepD(5) [OF assms] by (simp_all add: fanned_def upd_sched_def)

lemma fanned_schedule:
  assumes "fan_step sha clock now d e s ids cs" and "t \<in> set (gd_schedules (fanned now e cs d))"
  shows "t = expanded e (fanout_count e) now s \<or> t \<in> set (gd_schedules d) \<and> gs_digest t \<noteq> gs_digest s"
  using assms(2) schedule_eq [OF gen_invD(1) [OF fan_stepD(1) [OF assms(1)]] _ fan_stepD(4) [OF assms(1)]]
  unfolding fanned_simps(4) [OF assms(1)] by auto

lemma fanned_in: "fan_step sha clock now d e s ids cs \<Longrightarrow>
    expanded e (fanout_count e) now s \<in> set (gd_schedules (fanned now e cs d))"
  by (frule fan_stepD(4)) (auto simp: fanned_simps(4))

lemma fan_chunks:
  assumes fan: "fan_step sha clock now d e s ids cs" and c: "c \<in> set cs"
  shows "gc_digest c = gs_digest s" "gc_status c = GenerationChunkPending" "gc_attempt c = 0" "gs_next e \<le> gc_offset c"
    "chunk_ok sha (expanded e (fanout_count e) now s) c"
proof -
  note S = fan_state [OF fan]
  obtain k where k: "c = fanout_chunk sha ids e k" "int k < fanout_count e"
    using c S(2) unfolding fan_stepD(8) [OF fan] by auto
  have "gs_next e mod gs_chunk_items e = 0" using S(5) k(2) by simp
  moreover have "spec_of (expanded e (fanout_count e) now s) = spec_of e"
    using fan_stepD(3-5) [OF fan] by (simp add: seen_schedule_def expanded_def spec_of_def)
  ultimately show "chunk_ok sha (expanded e (fanout_count e) now s) c"
    unfolding k(1) using S(3,10,11) k(2) fan_stepD(5,6) [OF fan] same_staticD(11) [OF same_static_expanded]
    by (intro fanout_chunk_ok) (simp_all add: counters_ok_def)
  show "gc_digest c = gs_digest s" "gc_status c = GenerationChunkPending" "gc_attempt c = 0" "gs_next e \<le> gc_offset c"
    using k(1) fan_stepD(5) [OF fan] S(4) by simp_all
qed

lemma fan_num:
  assumes fan: "fan_step sha clock now d e s ids cs"
  shows "(\<And>c. gc_digest c = gs_digest s \<Longrightarrow> gc_status c = GenerationChunkPending \<Longrightarrow> gc_attempt c = 0 \<Longrightarrow> P c) \<Longrightarrow> num P cs = fanout_count e"
    "(\<And>c. gc_digest c = gs_digest s \<Longrightarrow> gc_status c = GenerationChunkPending \<Longrightarrow> gc_attempt c = 0 \<Longrightarrow> \<not> P c) \<Longrightarrow> num P cs = 0"
proof -
  have "int (length cs) = fanout_count e" using fan_state(2) [OF fan] unfolding fan_stepD(8) [OF fan] by simp
  then show "num P cs = fanout_count e"
    if "\<And>c. gc_digest c = gs_digest s \<Longrightarrow> gc_status c = GenerationChunkPending \<Longrightarrow> gc_attempt c = 0 \<Longrightarrow> P c"
    using num_all [of cs P] fan_chunks(1-3) [OF fan] that by simp
  show "num P cs = 0" if "\<And>c. gc_digest c = gs_digest s \<Longrightarrow> gc_status c = GenerationChunkPending \<Longrightarrow> gc_attempt c = 0 \<Longrightarrow> \<not> P c"
    by (rule num_none) (use fan_chunks(1-3) [OF fan] that in blast)
qed

lemma fan_counts:
  assumes fan: "fan_step sha clock now d e s ids cs"
  shows "num (in_status (gs_digest s) sta) (gd_chunks (fanned now e cs d)) = num (in_status (gs_digest s) sta) (gd_chunks d) +
      (if sta = GenerationChunkPending then fanout_count e else 0)"
    "num (in_schedule (gs_digest s)) (gd_chunks (fanned now e cs d)) = num (in_schedule (gs_digest s)) (gd_chunks d) + fanout_count e"
    "num (first_try (gs_digest s)) (gd_chunks (fanned now e cs d)) = num (first_try (gs_digest s)) (gd_chunks d) + fanout_count e"
    "num (running_at sha k) (gd_chunks (fanned now e cs d)) = num (running_at sha k) (gd_chunks d)"
    "gs_digest t \<noteq> gs_digest s \<Longrightarrow> num (\<lambda>c. gc_digest c = gs_digest t \<and> Q c) (gd_chunks (fanned now e cs d)) =
       num (\<lambda>c. gc_digest c = gs_digest t \<and> Q c) (gd_chunks d)"
    "gs_digest t \<noteq> gs_digest s \<Longrightarrow> num (in_schedule (gs_digest t)) (gd_chunks (fanned now e cs d)) = num (in_schedule (gs_digest t)) (gd_chunks d)"
  unfolding fanned_simps(1) [OF fan] num_append
  using fan_num(1) [OF fan, of "in_status (gs_digest s) sta"] fan_num(2) [OF fan, of "in_status (gs_digest s) sta"]
    fan_num(1) [OF fan, of "in_schedule (gs_digest s)"] fan_num(1) [OF fan, of "first_try (gs_digest s)"]
    fan_num(2) [OF fan, of "running_at sha k"] fan_num(2) [OF fan, of "\<lambda>c. gc_digest c = gs_digest t \<and> Q c"]
    fan_num(2) [OF fan, of "in_schedule (gs_digest t)"]
  by (auto simp: running_at_def)

lemma fan_keys:
  assumes fan: "fan_step sha clock now d e s ids cs"
  shows "keys_ok (fanned now e cs d)"
proof -
  have "map gs_digest (gd_schedules (fanned now e cs d)) = map gs_digest (gd_schedules d)"
    unfolding fanned_simps(4) [OF fan] map_map by (rule map_cong) simp_all
  then show ?thesis using gen_invD(1) [OF fan_stepD(1) [OF fan]] fan_stepD(9-12) [OF fan]
    unfolding keys_ok_def fanned_simps(1) [OF fan] by (simp add: Int_commute)
qed

lemma fan_links:
  assumes fan: "fan_step sha clock now d e s ids cs"
  shows "links_ok sha (fanned now e cs d)"
  unfolding links_ok_def
proof
  let ?T = "expanded e (fanout_count e) now"
  note I = gen_invD [OF fan_stepD(1) [OF fan]]
  note S = fan_state [OF fan]
  fix c assume "c \<in> set (gd_chunks (fanned now e cs d))"
  then consider "c \<in> set cs" | t where "t \<in> set (gd_schedules d)" "gc_digest c = gs_digest t" "chunk_ok sha t c"
    using I(2) unfolding links_ok_def fanned_simps(1) [OF fan] by auto
  then show "\<exists>t \<in> set (gd_schedules (fanned now e cs d)). gc_digest c = gs_digest t \<and> chunk_ok sha t c"
  proof cases
    case 1
    then show ?thesis using fan_chunks(1,5) [OF fan 1] fanned_in [OF fan] by (intro bexI [of _ "?T s"]) simp_all
  next
    case 2
    let ?t = "if gs_digest t = gs_digest s then ?T t else t"
    have "gs_next t \<le> gs_next ?t"
    proof (cases "gs_digest t = gs_digest s")
      case True
      have "t = s" by (rule schedule_eq [OF I(1) 2(1) fan_stepD(4) [OF fan] True])
      then show ?thesis using new_offset [OF S(4,3,2)] S(2,3,4) fan_stepD(6) [OF fan] by simp
    qed simp
    then have "chunk_ok sha ?t c" by (rule chunk_ok_static [OF _ _ 2(3), rotated]) (simp add: same_static_expanded)
    moreover have "?t \<in> set (gd_schedules (fanned now e cs d))" using 2(1) unfolding fanned_simps(4) [OF fan] by auto
    moreover have "gs_digest ?t = gs_digest t" by simp
    ultimately show ?thesis using 2(2) by metis
  qed
qed

lemma fan_order:
  assumes fan: "fan_step sha clock now d e s ids cs"
  shows "order_ok (gd_chunks (fanned now e cs d))"
  unfolding order_ok_def fanned_simps(1) [OF fan]
proof (intro ballI impI)
  note I = gen_invD [OF fan_stepD(1) [OF fan]]
  fix a b assume m: "a \<in> set (gd_chunks d @ cs)" "b \<in> set (gd_chunks d @ cs)"
    and q: "gc_digest a = gc_digest b" "gc_offset a = gc_offset b" "gc_attempt a < gc_attempt b"
  have pos: "0 \<le> gc_attempt a"
    using m(1) fan_chunks(3) [OF fan] I(2) unfolding links_ok_def chunk_ok_def by force
  have b: "b \<in> set (gd_chunks d)" using m(2) fan_chunks(3) [OF fan] q(3) pos by force
  have "a \<notin> set cs"
  proof
    assume a: "a \<in> set cs"
    then have "chunk_ok sha s b"
      using chunk_linked [OF I(1,2) fan_stepD(4) [OF fan] b] fan_chunks(1) [OF fan] q(1) by simp
    then show False using fan_chunks(4) [OF fan a] q(2) fan_stepD(6) [OF fan] by (simp add: chunk_ok_def)
  qed
  then show "gc_status a = GenerationChunkFailed" using m(1) I(3) b q unfolding order_ok_def by auto
qed

lemma fan_exact:
  assumes fan: "fan_step sha clock now d e s ids cs"
  shows "exact (gd_chunks (fanned now e cs d)) (expanded e (fanout_count e) now s)"
proof -
  note S = fan_state [OF fan]
  note st = same_staticD [OF same_static_expanded [of e "fanout_count e" now s]]
  have pend: "fanout_count e = 0 \<Longrightarrow> gs_next e < gs_items e \<or> 0 < gs_pending s + gs_running s"
  proof -
    have "gs_status s = GenerationScheduleActive \<longrightarrow> gs_next s < gs_items s \<or> 0 < gs_pending s + gs_running s"
      using S(1) unfolding exact_def by blast
    then show ?thesis using S(8) fan_stepD(6,7) [OF fan] by metis
  qed
  have nn: "0 \<le> gs_pending s" "0 \<le> gs_running s" using S(11) by (simp_all add: counters_ok_def)
  have zero: "fanout_count e = 0 \<Longrightarrow> gs_next e + sum_list (map snd (generationChunkSpecs e)) = gs_next e"
    using new_offset [OF S(4,3,2)] S(3) by simp
  have "gs_next e + sum_list (map snd (generationChunkSpecs e)) < gs_items e \<or> 0 < gs_pending s + fanout_count e + gs_running s"
    using pend zero S(2) nn by (cases "fanout_count e = 0") auto
  then show ?thesis using S(1,6-9) fan_stepD(5) [OF fan]
    unfolding exact_def expanded_simps st fan_counts [OF fan] by simp
qed

lemma fan_row:
  assumes fan: "fan_step sha clock now d e s ids cs"
  shows "sched_row_ok sha now (gd_chunks (fanned now e cs d)) (expanded e (fanout_count e) now s)"
proof -
  note S = fan_state [OF fan]
  let ?t = "expanded e (fanout_count e) now s"
  have static: "static_ok sha ?t" using S(10) same_staticD(11) [OF same_static_expanded] by simp
  have run: "gs_running ?t = num (in_status (gs_digest ?t) GenerationChunkRunning) (gd_chunks (fanned now e cs d))"
    using S(13) fan_counts(1) [OF fan, of GenerationChunkRunning] by simp
  have "counters_ok ?t"
    by (rule exact_counters_ok [OF fan_keys [OF fan] fan_links [OF fan] fanned_in [OF fan] static fan_exact [OF fan] run])
      (use S(11) in \<open>simp add: counters_ok_def\<close>)
  moreover have "dates_ok now ?t" by (rule dates_ok_static [OF same_static_expanded S(12) fan_stepD(2) [OF fan]]) simp
  ultimately show ?thesis using static run fan_stepD(7) [OF fan] by (simp add: sched_row_ok_def status_ok_def)
qed

lemma fan_current:
  assumes fan: "fan_step sha clock now d e s ids cs"
  shows "current_ok sha (fanned now e cs d)"
proof (rule current_okI)
  note I = gen_invD [OF fan_stepD(1) [OF fan]]
  show "pointer_ok sha (gd_schedules (fanned now e cs d)) k cu" if "gd_current (fanned now e cs d) k = Some cu" for k cu
    unfolding fanned_simps(4) [OF fan]
    by (rule pointer_ok_map [OF current_okD(1) [OF I(6)]]) (use that fanned_simps(2) [OF fan] in \<open>simp_all add: same_static_expanded\<close>)
  fix t assume "t \<in> set (gd_schedules (fanned now e cs d))"
  then consider "t = expanded e (fanout_count e) now s" | "t \<in> set (gd_schedules d)" "gs_digest t \<noteq> gs_digest s"
    using fanned_schedule [OF fan] by blast
  note t = this
  have cur: "is_cur sha (gd_current (fanned now e cs d)) t = is_cur sha (gd_current d) t" by (simp add: fanned_simps(2) [OF fan])
  show "is_cur sha (gd_current (fanned now e cs d)) t" if a: "gs_status t = GenerationScheduleActive"
    using t
  proof cases
    case 1
    then show ?thesis unfolding cur using current_okD(2) [OF I(6) fan_stepD(4,7) [OF fan]] same_staticD(12) [OF same_static_expanded] by simp
  qed (use current_okD(2) [OF I(6) _ a] cur in simp)
  show "gs_status t \<noteq> GenerationScheduleSuperseded \<and> exact (gd_chunks (fanned now e cs d)) t"
    if c: "is_cur sha (gd_current (fanned now e cs d)) t"
    using t
  proof cases
    case 1
    then show ?thesis using fan_exact [OF fan] fan_stepD(7) [OF fan] by simp
  next
    case 2
    have "exact (gd_chunks (fanned now e cs d)) t = exact (gd_chunks d) t"
      unfolding exact_def by (simp only: fan_counts(5,6) [OF fan 2(2)])
    then show ?thesis using current_okD(3,4) [OF I(6) 2(1)] c cur by simp
  qed
qed

lemma fan_preserved:
  assumes fan: "fan_step sha clock now d e s ids cs"
  shows "gen_inv sha now (fanned now e cs d)"
proof (rule gen_invI [OF fan_keys [OF fan] fan_links [OF fan] fan_order [OF fan] _ _ fan_current [OF fan]])
  note I = gen_invD [OF fan_stepD(1) [OF fan]]
  show "sched_row_ok sha now (gd_chunks (fanned now e cs d)) t" if t: "t \<in> set (gd_schedules (fanned now e cs d))" for t
    using fanned_schedule [OF fan t] fan_row [OF fan] sched_row_ok_later [OF I(4) fan_stepD(2) [OF fan], of t] fan_counts(5) [OF fan, of t]
    by (auto simp: sched_row_ok_def)
  show "repos_ok sha (fanned now e cs d)"
  proof (rule repos_okI)
    show "gd_repos (fanned now e cs d) (generationRepositoryID sha (gs_repository t)) \<noteq> None"
      if t: "t \<in> set (gd_schedules (fanned now e cs d))" for t
      using fanned_schedule [OF fan t] repos_okD(1) [OF I(5)] fan_stepD(4) [OF fan] same_staticD(2) [OF same_static_expanded, of e "fanout_count e" now s]
      by (auto simp: fanned_simps(3) [OF fan])
    show "rs_running r = num (running_at sha k) (gd_chunks (fanned now e cs d)) \<and> rs_running r \<le> MaxGenerationRepositoryTokens"
      if "gd_repos (fanned now e cs d) k = Some r" for k r
      using repos_okD(2,3) [OF I(5), of k r] that by (simp add: fanned_simps(3) [OF fan] fan_counts(4) [OF fan])
  qed
qed

text \<open>The record identifiers the database draws are new.\<close>

definition fresh_ids :: "(nat \<Rightarrow> gostring) \<Rightarrow> nat \<Rightarrow> gdata \<Rightarrow> bool" where
  "fresh_ids ids n d \<longleftrightarrow> distinct (map ids [0..<n]) \<and> set (map ids [0..<n]) \<inter> gc_id ` set (gd_chunks d) = {}"

lemma inv_expand:
  assumes inv: "gen_inv sha clock d" and now: "clock \<le> now" and seen: "seen_schedule e d"
    and fresh: "fresh_ids ids (length (generationChunkSpecs e)) d"
  shows "gen_inv sha now (snd (expandGenerationScheduleSQL sha now fence ids e d))" (is "gen_inv sha now ?d")
proof -
  let ?owned = "\<lambda>s. gs_digest s = gs_digest e \<and> gs_status s = GenerationScheduleActive \<and> gs_next s = gs_next e"
  let ?cs = "fanout_chunks sha ids e"
  have len: "length (generationChunkSpecs e) = nat (fanout_count e)" by (simp add: generationChunkSpecs_def fanout_count_def Let_def)
  have res: "?d = d \<or> list_ex ?owned (gd_schedules d) \<and> (\<exists>d1. create_chunks ?cs d = Inr d1 \<and>
      ?d = upd_sched (gs_digest e) (expanded e (int (length (generationChunkSpecs e))) now) d1)"
    by (auto simp: expandGenerationScheduleSQL_def Let_def fanout_chunks_def expanded_def [abs_def] split: sum.splits)
  show ?thesis
  proof (cases "?d = d")
    case True
    show ?thesis unfolding True by (rule inv_later [OF inv now])
  next
    case False
    then obtain d1 s where d1: "create_chunks ?cs d = Inr d1"
      "?d = upd_sched (gs_digest e) (expanded e (int (length (generationChunkSpecs e))) now) d1"
      and s: "s \<in> set (gd_schedules d)" "?owned s" using res by (auto simp: list_ex_iff)
    note c = create_chunks_Inr [OF d1(1)]
    have nn: "0 \<le> fanout_count e" using fanout_state(2) [OF inv seen s(1)] s(2) by blast
    have idm: "map gc_id ?cs = map ids [0..<nat (fanout_count e)]" by (simp add: fanout_chunks_eq comp_def)
    have "set (map gc_id ?cs) = set (map ids [0..<nat (fanout_count e)])" "distinct (map gc_id ?cs)"
      using fresh unfolding idm fresh_ids_def len by blast+
    then have "distinct (map gc_id ?cs)" "gc_id ` set ?cs \<inter> gc_id ` set (gd_chunks d) = {}"
      using fresh unfolding fresh_ids_def len by (simp_all only: set_map)
    then have "fan_step sha clock now d e s ids ?cs"
      unfolding fan_step_def using inv now seen s c(2) c(3) [unfolded set_map] fanout_chunks_eq by blast
    then have "gen_inv sha now (fanned now e ?cs d)" by (rule fan_preserved)
    then show ?thesis unfolding d1(2) using c(1) nn len by (simp add: fanned_def)
  qed
qed

section \<open>Collection\<close>

lemma num_filter: "num P (filter Q xs) = num (\<lambda>x. P x \<and> Q x) xs"
  by (induction xs) auto

lemma inv_drop_chunks:
  assumes inv: "gen_inv sha clock d"
    and gone: "\<And>c. c \<in> set (gd_chunks d) \<Longrightarrow> \<not> Q c \<Longrightarrow> gc_digest c = g \<and> gc_status c \<noteq> GenerationChunkRunning"
    and old: "\<And>s. s \<in> set (gd_schedules d) \<Longrightarrow> gs_digest s = g \<Longrightarrow> \<not> is_cur sha (gd_current d) s"
  shows "gen_inv sha clock (d\<lparr>gd_chunks := filter Q (gd_chunks d)\<rparr>)" (is "gen_inv sha clock ?d")
proof (rule gen_invI)
  note I = gen_invD [OF inv]
  have run: "num (in_status g' GenerationChunkRunning) (gd_chunks ?d) = num (in_status g' GenerationChunkRunning) (gd_chunks d)"
    "num (running_at sha k) (gd_chunks ?d) = num (running_at sha k) (gd_chunks d)" for g' k
    using gone by (auto simp: num_filter running_at_def intro!: num_cong) (metis gone)+
  have other: "num (\<lambda>c. gc_digest c = g' \<and> P c) (gd_chunks ?d) = num (\<lambda>c. gc_digest c = g' \<and> P c) (gd_chunks d)" if "g' \<noteq> g" for g' P
    using gone that by (auto simp: num_filter intro!: num_cong)
  have other_all: "num (in_schedule g') (gd_chunks ?d) = num (in_schedule g') (gd_chunks d)" if "g' \<noteq> g" for g'
    using other [OF that, of "\<lambda>c. True"] by simp
  show "keys_ok ?d" using I(1) by (simp add: keys_ok_def distinct_map_filter)
  show "links_ok sha ?d" using I(2) by (simp add: links_ok_def)
  show "order_ok (gd_chunks ?d)" using I(3) unfolding order_ok_def by auto
  show "sched_row_ok sha clock (gd_chunks ?d) s" if "s \<in> set (gd_schedules ?d)" for s
    using I(4) [of s] that unfolding sched_row_ok_def by (simp only: run) simp
  show "repos_ok sha ?d" using repos_okD [OF I(5)] by (intro repos_okI) (simp_all only: run, simp_all)
  show "current_ok sha ?d"
  proof (rule current_okI)
    show "pointer_ok sha (gd_schedules ?d) k cu" if "gd_current ?d k = Some cu" for k cu
      using current_okD(1) [OF I(6), of k cu] that by simp
    fix s assume "s \<in> set (gd_schedules ?d)"
    then have s: "s \<in> set (gd_schedules d)" by simp
    show "is_cur sha (gd_current ?d) s" if "gs_status s = GenerationScheduleActive" using current_okD(2) [OF I(6) s that] by simp
    show "gs_status s \<noteq> GenerationScheduleSuperseded \<and> exact (gd_chunks ?d) s" if c: "is_cur sha (gd_current ?d) s"
    proof -
      have c': "is_cur sha (gd_current d) s" using c by simp
      then have "gs_digest s \<noteq> g" using old [OF s] by blast
      then have "exact (gd_chunks ?d) s = exact (gd_chunks d) s" unfolding exact_def by (simp only: other other_all not_False_eq_True)
      then show ?thesis using current_okD(3,4) [OF I(6) s c'] by simp
    qed
  qed
qed

lemma inv_drop_schedule:
  assumes inv: "gen_inv sha clock d" and none: "\<And>c. c \<in> set (gd_chunks d) \<Longrightarrow> gc_digest c \<noteq> g"
    and old: "\<And>s. s \<in> set (gd_schedules d) \<Longrightarrow> gs_digest s = g \<Longrightarrow> \<not> is_cur sha (gd_current d) s"
  shows "gen_inv sha clock (d\<lparr>gd_schedules := filter (\<lambda>s. gs_digest s \<noteq> g) (gd_schedules d)\<rparr>)" (is "gen_inv sha clock ?d")
proof (rule gen_invI)
  note I = gen_invD [OF inv]
  show "keys_ok ?d" using I(1) by (simp add: keys_ok_def distinct_map_filter)
  show "links_ok sha ?d" using I(2) none unfolding links_ok_def by fastforce
  show "order_ok (gd_chunks ?d)" using I(3) by simp
  show "sched_row_ok sha clock (gd_chunks ?d) s" if "s \<in> set (gd_schedules ?d)" for s using I(4) [of s] that by simp
  show "repos_ok sha ?d" using repos_okD [OF I(5)] by (intro repos_okI) auto
  show "current_ok sha ?d"
  proof (rule current_okI)
    fix k cu assume k: "gd_current ?d k = Some cu"
    then obtain s where s: "s \<in> set (gd_schedules d)" "gs_digest s = cu_digest cu" "gs_repository s = cu_repository cu" "gs_stage s = cu_stage cu"
      "generationCurrentID sha (gs_repository s) (gs_stage s) = k"
      using current_okD(1) [OF I(6), of k cu] by (auto simp: pointer_ok_def)
    then have "is_cur sha (gd_current d) s" using k by (simp add: is_cur_def)
    then have "gs_digest s \<noteq> g" using old [OF s(1)] by blast
    then show "pointer_ok sha (gd_schedules ?d) k cu" using s unfolding pointer_ok_def by (intro bexI [of _ s]) simp_all
  next
    fix s assume "s \<in> set (gd_schedules ?d)"
    then have s: "s \<in> set (gd_schedules d)" by simp
    show "is_cur sha (gd_current ?d) s" if "gs_status s = GenerationScheduleActive" using current_okD(2) [OF I(6) s that] by simp
    show "gs_status s \<noteq> GenerationScheduleSuperseded \<and> exact (gd_chunks ?d) s" if "is_cur sha (gd_current ?d) s"
      using current_okD(3,4) [OF I(6) s] that by simp
  qed
qed

lemma collectable_old:
  assumes inv: "gen_inv sha clock d" and col: "collectable sha plan e retained d"
    and s: "s \<in> set (gd_schedules d)" "gs_digest s = gs_digest e"
  shows "\<not> is_cur sha (gd_current d) s"
proof -
  obtain t where t: "t \<in> set (gd_schedules d)" "gs_digest t = gs_digest e" "gs_repository t = gs_repository e" "gs_stage t = gs_stage e"
    using col by (auto simp: collectable_def list_ex_iff)
  have "s = t" by (rule schedule_eq [OF gen_invD(1) [OF inv] s(1) t(1)]) (simp add: s t)
  moreover have "current_digest sha (gs_repository e) (gs_stage e) d \<noteq> Some (gs_digest e)" using col by (simp add: collectable_def)
  ultimately show ?thesis using t by (auto simp: is_cur_def current_digest_Some)
qed

lemma inv_collect:
  assumes inv: "gen_inv sha clock d" and now: "clock \<le> now"
  shows "gen_inv sha now (snd (collectGenerationScheduleSQL sha plan e retained chunk_limit ids d))"
proof (cases "\<not> collectable sha plan e retained d \<or> generationLifecycleSelectionSQL e chunk_limit d \<noteq> ids \<or> \<not> distinct ids")
  case True
  then show ?thesis using inv_later [OF inv now] by (simp add: collectGenerationScheduleSQL_def)
next
  case False
  let ?d1 = "d\<lparr>gd_chunks := filter (\<lambda>c. gc_id c \<notin> set ids) (gd_chunks d)\<rparr>"
  have col: "collectable sha plan e retained d" and ids: "generationLifecycleSelectionSQL e chunk_limit d = ids" using False by blast+
  note old = collectable_old [OF inv col]
  have "gen_inv sha clock ?d1"
  proof (rule inv_drop_chunks [OF inv _ old, where g = "gs_digest e"])
    fix c assume c: "c \<in> set (gd_chunks d)" and "\<not> gc_id c \<notin> set ids"
    then have "gc_id c \<in> gc_id ` {x \<in> set (gd_chunks d). gc_digest x = gs_digest e}"
      using ids by (auto simp: generationLifecycleSelectionSQL_def dest!: in_set_takeD)
    then obtain x where "x \<in> set (gd_chunks d)" "gc_digest x = gs_digest e" "gc_id c = gc_id x" by auto
    then have "gc_digest c = gs_digest e" using chunk_eq [OF gen_invD(1) [OF inv] c] by metis
    then show "gc_digest c = gs_digest e \<and> gc_status c \<noteq> GenerationChunkRunning"
      using col c by (auto simp: collectable_def list_ex_iff)
  qed
  note d1 = inv_later [OF this now]
  show ?thesis
  proof (cases "list_ex (\<lambda>c. gc_digest c = gs_digest e) (gd_chunks ?d1)")
    case True
    then show ?thesis using d1 False by (simp add: collectGenerationScheduleSQL_def Let_def)
  next
    case none: False
    have "gen_inv sha now (?d1\<lparr>gd_schedules := filter (\<lambda>s. gs_digest s \<noteq> gs_digest e) (gd_schedules ?d1)\<rparr>)"
      by (rule inv_drop_schedule [OF d1]) (use none old in \<open>auto simp: list_ex_iff\<close>)
    then show ?thesis using none False by (simp add: collectGenerationScheduleSQL_def Let_def)
  qed
qed

end
