(* ===== verification/Generation_Fences.thy ===== *)
theory Generation_Fences
  imports Generation_Fanout
begin

text \<open>
  The transactions of other components that also write the scheduler's tables: the successor of a service
  catalog fences the activation schedule of the old one (\<open>service_state_v3.go\<close>), and the retirement of a
  typed index retires its schedule (\<open>typed_index_lifecycle.go\<close>). Both drop a current pointer and supersede
  the schedule it names. What they read from tables of their own is an argument: the service-state plans,
  each with whether it validates, and whether the caller's observation of the typed index still holds.
\<close>

section \<open>The transactions\<close>

definition validSHA256Digest :: "gostring \<Rightarrow> bool" where
  "validSHA256Digest value \<longleftrightarrow> HasPrefix value ''sha256:'' \<and> length value = 71 \<and>
     (case hex_decode (drop 7 value) of None \<Rightarrow> False | Some decoded \<Rightarrow> ''sha256:'' @ hex_encode decoded = value)"

abbreviation ErrInvalidServiceStateV3 :: serr where
  "ErrInvalidServiceStateV3 \<equiv> ErrNew ''invalid service state v3''"

definition serviceStateV3Stage :: "gostring \<Rightarrow> gostring" where
  "serviceStateV3Stage phase = (if phase = ''reconcile'' then ServiceStateV3ReconcileStage else ServiceStateV3ActivateStage)"

definition serviceStateV3PlanInTransaction ::
  "hasher \<Rightarrow> (gostring \<Rightarrow> (gplan \<times> bool) option) \<Rightarrow> gostring \<Rightarrow> gostring \<Rightarrow> gdata \<Rightarrow> serr + (gplan option \<times> gsched) option" where
  "serviceStateV3PlanInTransaction sha plans repository phase d =
     (case current_digest sha repository (serviceStateV3Stage phase) d of
        None \<Rightarrow> Inr None
      | Some digest \<Rightarrow>
          if \<not> validSHA256Digest digest then Inl ErrInvalidServiceStateV3
          else (case find (\<lambda>s. gs_digest s = digest) (gd_schedules d) of
             None \<Rightarrow> Inl ErrInvalidServiceStateV3
           | Some s \<Rightarrow>
               if ValidateGenerationSchedule sha s \<noteq> None \<or> gs_repository s \<noteq> repository \<or> gs_stage s \<noteq> serviceStateV3Stage phase
               then Inl ErrInvalidServiceStateV3
               else (case plans (gs_generation s) of
                  None \<Rightarrow> Inr (Some (None, s))
                | Some (p, valid) \<Rightarrow>
                    if \<not> valid \<or> pl_schedule p \<noteq> gs_digest s \<or> pl_repository p \<noteq> repository \<or> pl_phase p \<noteq> phase
                    then Inl ErrInvalidServiceStateV3 else Inr (Some (Some p, s)))))"

definition fence_sched :: "int \<Rightarrow> gsched \<Rightarrow> gsched" where
  "fence_sched now s = s\<lparr>gs_status := (if gs_status s = GenerationScheduleActive then GenerationScheduleSuperseded else gs_status s),
     gs_updated := now\<rparr>"

definition fenceServiceStateV3CandidateAdvance ::
  "hasher \<Rightarrow> int \<Rightarrow> (gostring \<Rightarrow> (gplan \<times> bool) option) \<Rightarrow> gostring \<Rightarrow> gostring \<Rightarrow> gostring \<Rightarrow> gdata \<Rightarrow> (serr + unit) \<times> gdata" where
  "fenceServiceStateV3CandidateAdvance sha now plans repository priorRoot nextRoot d =
     (if priorRoot = [] \<or> priorRoot = nextRoot then (Inr (), d)
      else case serviceStateV3PlanInTransaction sha plans repository ''reconcile'' d of
        Inl e \<Rightarrow> (Inl e, d)
      | Inr reconcile \<Rightarrow>
          if (case reconcile of Some (Some p, _) \<Rightarrow> pl_state p = ''running'' | _ \<Rightarrow> False)
          then (Inl (ErrWrap ''service catalog v3 successor refused while state reconcile is unsettled: '' (ErrNew ''conflict'')), d)
          else if (case reconcile of Some (None, _) \<Rightarrow> True | _ \<Rightarrow> False) then (Inl ErrInvalidServiceStateV3, d)
          else (case serviceStateV3PlanInTransaction sha plans repository ''activate'' d of
             Inl e \<Rightarrow> (Inl e, d)
           | Inr None \<Rightarrow> (Inr (), d)
           | Inr (Some (None, s)) \<Rightarrow> (Inl ErrInvalidServiceStateV3, d)
           | Inr (Some (Some p, s)) \<Rightarrow>
               let key = generationCurrentID sha repository ServiceStateV3ActivateStage;
                   d1 = upd_sched (gs_digest s) (fence_sched now) d
               in (Inr (), d1\<lparr>gd_current := (gd_current d1)(key := (case gd_current d1 key of None \<Rightarrow> None
                     | Some cu \<Rightarrow> if cu_digest cu = gs_digest s then None else Some cu))\<rparr>)))"

text \<open>The schedule of a typed index is determined by its repository and its root.\<close>

definition typed_index_spec :: "gostring \<Rightarrow> gostring \<Rightarrow> gspec" where
  "typed_index_spec repository root = \<lparr>gp_repository = repository, gp_stage = TypedIndexScheduleStage, gp_generation = root,
     gp_class = GenerationResourceTypedIndex, gp_items = 1, gp_chunk_items = 1, gp_attempts = 3, gp_tokens = 1\<rparr>"

definition beginTypedIndexRetirementSQL :: "hasher \<Rightarrow> int \<Rightarrow> bool \<Rightarrow> gostring \<Rightarrow> gostring \<Rightarrow> gdata \<Rightarrow> (serr + unit) \<times> gdata" where
  "beginTypedIndexRetirementSQL sha now observed root repository d =
     (if \<not> observed \<or> list_ex (\<lambda>c. gc_generation c = root \<and> gc_stage c = TypedIndexScheduleStage \<and>
            gc_status c = GenerationChunkRunning) (gd_chunks d)
      then (Inl typed_stale, d)
      else (Inr (), snd (retireCurrentSQL sha now (new_schedule sha (typed_index_spec repository root) now) d)))"

section \<open>They keep the invariant\<close>

definition touched :: "int \<Rightarrow> gsched \<Rightarrow> gsched" where
  "touched now s = (if gs_status s = GenerationScheduleActive then s else s\<lparr>gs_updated := now\<rparr>)"

lemma same_static_touched [simp]: "same_static (touched now s) s" "same_static (fence_sched now s) s"
  by (simp_all add: same_static_def touched_def fence_sched_def spec_of_def)

lemma touched_simps [simp]:
  "gs_status (touched now s) = gs_status s" "gs_digest (touched now s) = gs_digest s" "gs_repository (touched now s) = gs_repository s"
  "chunk_ok sha (touched now s) c = chunk_ok sha s c" "is_cur sha cur (touched now s) = is_cur sha cur s"
  "exact xs (touched now s) = exact xs s" "counters_ok (touched now s) = counters_ok s" "status_ok (touched now s) = status_ok s"
  "gs_running (touched now s) = gs_running s"
  by (simp_all add: touched_def chunk_ok_def is_cur_def exact_def counters_ok_def status_ok_def)

lemma inv_touch:
  assumes inv: "gen_inv sha clock d" and now: "clock \<le> now"
  shows "gen_inv sha now (upd_sched g (touched now) d)" (is "gen_inv sha now ?d")
proof (rule gen_invI)
  note I = gen_invD [OF inv]
  define h where "h = (\<lambda>s. if gs_digest s = g then touched now s else s)"
  have d: "gd_schedules ?d = map h (gd_schedules d)" "gd_chunks ?d = gd_chunks d" "gd_repos ?d = gd_repos d" "gd_current ?d = gd_current d"
    by (simp_all add: upd_sched_def h_def)
  have h: "same_static (h s) s" "gs_status (h s) = gs_status s" "gs_digest (h s) = gs_digest s" "gs_repository (h s) = gs_repository s"
    "chunk_ok sha (h s) c = chunk_ok sha s c" "is_cur sha cur (h s) = is_cur sha cur s" "exact xs (h s) = exact xs s" for s c cur xs
    by (simp_all add: h_def)
  have "map gs_digest (gd_schedules ?d) = map gs_digest (gd_schedules d)" by (simp add: d h comp_def)
  then show "keys_ok ?d" using I(1) by (simp only: keys_ok_def d)
  show "links_ok sha ?d" using I(2) by (simp add: links_ok_def d h)
  show "order_ok (gd_chunks ?d)" using I(3) by (simp add: d)
  show "repos_ok sha ?d" using repos_okD [OF I(5)] by (intro repos_okI) (auto simp: d h)
  show "sched_row_ok sha now (gd_chunks ?d) s" if row: "s \<in> set (gd_schedules ?d)" for s
  proof -
    obtain t where t: "t \<in> set (gd_schedules d)" "s = h t" using row unfolding d by auto
    have ok: "static_ok sha t" "counters_ok t" "dates_ok clock t" "status_ok t" "gs_running t = num (in_status (gs_digest t) GenerationChunkRunning) (gd_chunks d)"
      using I(4) [OF t(1)] by (simp_all add: sched_row_ok_def)
    have "dates_ok now (h t)"
    proof (cases "h t = t")
      case False
      then have "gs_updated (h t) = now" by (auto simp: h_def touched_def split: if_splits)
      then show ?thesis by (rule dates_ok_static [OF h(1) ok(3) now])
    qed (use dates_ok_later [OF ok(3) now] in simp)
    moreover have "counters_ok (h t)" "status_ok (h t)" "gs_running (h t) = gs_running t" using ok by (simp_all add: h_def)
    ultimately show ?thesis using ok same_staticD(11) [OF h(1)] by (simp add: t(2) sched_row_ok_def d h)
  qed
  show "current_ok sha ?d"
  proof (rule current_okI)
    show "pointer_ok sha (gd_schedules ?d) k cu" if "gd_current ?d k = Some cu" for k cu
      using pointer_ok_map [OF current_okD(1) [OF I(6)] h(1)] that by (simp add: d)
    fix s assume "s \<in> set (gd_schedules ?d)"
    then obtain t where t: "t \<in> set (gd_schedules d)" "s = h t" unfolding d by auto
    show "is_cur sha (gd_current ?d) s" if "gs_status s = GenerationScheduleActive"
      using current_okD(2) [OF I(6) t(1)] that by (simp add: t(2) h d)
    show "gs_status s \<noteq> GenerationScheduleSuperseded \<and> exact (gd_chunks ?d) s" if "is_cur sha (gd_current ?d) s"
      using current_okD(3,4) [OF I(6) t(1)] that by (simp add: t(2) h d)
  qed
qed

text \<open>A fence that writes: the activation schedule of the repository is current, and its pointer is dropped.\<close>

lemma plan_in_transaction:
  assumes "serviceStateV3PlanInTransaction sha plans repository phase d = Inr (Some (p, s))"
  shows "current_digest sha repository (serviceStateV3Stage phase) d = Some (gs_digest s)"
  using assms by (auto simp: serviceStateV3PlanInTransaction_def find_Some_iff split: option.splits if_splits)

lemma fence_cases:
  obtains (kept) "snd (fenceServiceStateV3CandidateAdvance sha now plans repository priorRoot nextRoot d) = d"
  | (fenced) s :: gsched where "current_digest sha repository ServiceStateV3ActivateStage d = Some (gs_digest s)"
    "snd (fenceServiceStateV3CandidateAdvance sha now plans repository priorRoot nextRoot d) =
       (upd_sched (gs_digest s) (fence_sched now) d)
         \<lparr>gd_current := (gd_current d)(generationCurrentID sha repository ServiceStateV3ActivateStage := None)\<rparr>"
proof (cases "snd (fenceServiceStateV3CandidateAdvance sha now plans repository priorRoot nextRoot d) = d")
  case False
  let ?key = "generationCurrentID sha repository ServiceStateV3ActivateStage"
  obtain p s where s: "serviceStateV3PlanInTransaction sha plans repository ''activate'' d = Inr (Some (Some p, s))"
    and res: "snd (fenceServiceStateV3CandidateAdvance sha now plans repository priorRoot nextRoot d) =
       (upd_sched (gs_digest s) (fence_sched now) d)\<lparr>gd_current := (gd_current d)(?key := (case gd_current d ?key of None \<Rightarrow> None
                     | Some cu \<Rightarrow> if cu_digest cu = gs_digest s then None else Some cu))\<rparr>"
    using False by (auto simp: fenceServiceStateV3CandidateAdvance_def Let_def upd_sched_def split: if_splits sum.splits option.splits)
  have cur: "current_digest sha repository ServiceStateV3ActivateStage d = Some (gs_digest s)"
    using plan_in_transaction [OF s] by (simp add: serviceStateV3Stage_def)
  then obtain cu where "gd_current d ?key = Some cu" "cu_digest cu = gs_digest s" by (auto simp: current_digest_Some)
  then show ?thesis using fenced [OF cur] res by simp
qed (rule kept)

lemma upd_sched_twice:
  assumes "\<And>t. gs_digest (h t) = gs_digest t"
  shows "upd_sched g f (upd_sched g h d) = upd_sched g (\<lambda>t. f (h t)) d"
proof -
  have "map (\<lambda>s. if gs_digest s = g then f s else s) (map (\<lambda>s. if gs_digest s = g then h s else s) ss) =
      map (\<lambda>s. if gs_digest s = g then f (h s) else s) ss" for ss
    using assms by simp
  then show ?thesis by (simp only: upd_sched_def gdata.simps) simp
qed

lemma inv_fenceAdvance:
  assumes inv: "gen_inv sha clock d" and now: "clock \<le> now"
  shows "gen_inv sha now (snd (fenceServiceStateV3CandidateAdvance sha now plans repository priorRoot nextRoot d))"
proof (cases rule: fence_cases [of sha now plans repository priorRoot nextRoot d])
  case kept
  then show ?thesis using inv_later [OF inv now] by simp
next
  case (fenced s)
  let ?key = "generationCurrentID sha repository ServiceStateV3ActivateStage"
  let ?f = "\<lambda>s. if gs_status s = GenerationScheduleActive then superseded_by now s else s"
  obtain cu where cu: "gd_current d ?key = Some cu" "cu_digest cu = gs_digest s" using fenced(1) by (auto simp: current_digest_Some)
  let ?d = "upd_sched (gs_digest s) (touched now) d"
  have cur: "gd_current ?d ?key = Some cu" using cu(1) by (simp add: upd_sched_def)
  have "?f (touched now t) = fence_sched now t" for t by (simp add: touched_def fence_sched_def superseded_by_def)
  then have "upd_sched (gs_digest s) ?f ?d = upd_sched (gs_digest s) (fence_sched now) d"
    using upd_sched_twice [of "touched now" "gs_digest s" ?f d] by (simp only: touched_simps simp_thms)
  moreover have "gen_inv sha now ((upd_sched (gs_digest s) ?f ?d)\<lparr>gd_current := (gd_current ?d)(?key := None)\<rparr>)"
    by (rule inv_drop_current [OF inv_touch [OF inv now] order_refl cur cu(2)]) auto
  moreover have "gd_current ?d = gd_current d" by (simp add: upd_sched_def)
  ultimately show ?thesis using fenced(2) by simp
qed

lemma inv_typedRetirement:
  "gen_inv sha clock d \<Longrightarrow> clock \<le> now \<Longrightarrow> gen_inv sha now (snd (beginTypedIndexRetirementSQL sha now observed root repository d))"
  using inv_retireCurrent inv_later by (simp add: beginTypedIndexRetirementSQL_def)

lemma fence_chunks [simp]:
  "gd_chunks (snd (fenceServiceStateV3CandidateAdvance sha now plans repository priorRoot nextRoot d)) = gd_chunks d"
  by (rule fence_cases [of sha now plans repository priorRoot nextRoot d]) (simp_all add: upd_sched_def)

end
