(* ===== verification/Generation_Runs.thy ===== *)
theory Generation_Runs
  imports Generation_Fences
begin

text \<open>
  The scheduler's clients as a transition system: every transaction of a running store that writes the
  scheduler's tables (those of \<open>generation_schedule.go\<close> and \<open>generation_lifecycle.go\<close>, the deletion of a
  repository, and the fences of \<open>Generation_Fences\<close>), in any order, at any time and with any arguments a
  client can have, over one set of tables and one database clock. The offline restore, which clears the
  tables before the store serves anyone, is not a client. With it the reads that report a schedule and its
  settlement, and what they promise.
\<close>

section \<open>Transactions of the clients\<close>

type_synonym liveness = "gostring \<Rightarrow> gostring \<Rightarrow> bool"

datatype gop =
    OpEnqueue bool gspec "gostring option \<times> gostring list"
  | OpRetire gsched
  | OpForget gostring "gostring list"
  | OpFence gchunk
  | OpExpand bool "nat \<Rightarrow> gostring" gsched
  | OpClaim bool "gplan option" gsched gostring gostring gostring
  | OpHeartbeat liveness gchunk
  | OpComplete liveness gchunk
  | OpFail liveness gchunk gostring
  | OpRetry liveness gostring int gchunk gostring int
  | OpDefer liveness gchunk gostring int
  | OpRelease liveness gchunk gostring
  | OpReap gchunk int
  | OpCollect "gplan option" gsched nat nat "gostring list"
  | OpAdvance "gostring \<Rightarrow> (gplan \<times> bool) option" gostring gostring gostring
  | OpTypedRetire bool gostring gostring

fun run_gop :: "hasher \<Rightarrow> int \<Rightarrow> gop \<Rightarrow> gdata \<Rightarrow> gdata" where
  "run_gop sha now (OpEnqueue fence p observed) d = snd (enqueueGenerationScheduleSQL sha now fence p observed d)"
| "run_gop sha now (OpRetire e) d = snd (retireCurrentSQL sha now e d)"
| "run_gop sha now (OpForget name stages) d = snd (forgetRepositorySQL now name stages d)"
| "run_gop sha now (OpFence c) d = snd (diagnosticFenceSQL sha now c d)"
| "run_gop sha now (OpExpand fence ids e) d = snd (expandGenerationScheduleSQL sha now fence ids e d)"
| "run_gop sha now (OpClaim fence plan e worker lease chunk) d = snd (claimGenerationChunkSQL sha now fence plan e worker lease chunk d)"
| "run_gop sha now (OpHeartbeat live c) d = snd (heartbeatSQL now live c d)"
| "run_gop sha now (OpComplete live c) d = snd (completeGenerationChunkSQL sha now live c d)"
| "run_gop sha now (OpFail live c err) d = snd (failGenerationChunkSQL sha now live c err d)"
| "run_gop sha now (OpRetry live i max_attempts c err nb) d = snd (retryGenerationChunkSQL sha now live i max_attempts c err nb d)"
| "run_gop sha now (OpDefer live c reason nb) d = snd (deferGenerationChunkSQL sha now live c reason nb d)"
| "run_gop sha now (OpRelease live c reason) d = snd (releaseGenerationChunkSQL sha now live c reason d)"
| "run_gop sha now (OpReap c cutoff) d = snd (reapGenerationChunkSQL sha now c cutoff d)"
| "run_gop sha now (OpCollect plan e retained limit ids) d = snd (collectGenerationScheduleSQL sha plan e retained limit ids d)"
| "run_gop sha now (OpAdvance plans repository prior upcoming) d =
     snd (fenceServiceStateV3CandidateAdvance sha now plans repository prior upcoming d)"
| "run_gop sha now (OpTypedRetire observed root repository) d = snd (beginTypedIndexRetirementSQL sha now observed root repository d)"

text \<open>What a client's arguments satisfy: it enqueues a normalised specification whose digest names no other
  one, the values it read describe the rows they came from, and drawn identifiers are new.\<close>

fun gop_ok :: "hasher \<Rightarrow> gdata \<Rightarrow> gop \<Rightarrow> bool" where
  "gop_ok sha d (OpEnqueue fence p observed) \<longleftrightarrow> normalizeGenerationScheduleSpec p = Inr p \<and> digest_known sha p d"
| "gop_ok sha d (OpExpand fence ids e) \<longleftrightarrow> seen_schedule e d \<and> fresh_ids ids (length (generationChunkSpecs e)) d"
| "gop_ok sha d (OpClaim fence plan e worker lease chunk) \<longleftrightarrow> seen_schedule e d"
| "gop_ok sha d (OpRetry live i max_attempts c err nb) \<longleftrightarrow>
     (\<forall>s \<in> set (gd_schedules d). gs_digest s = gc_digest c \<longrightarrow> gs_max_attempts s = max_attempts) \<and> i \<notin> gc_id ` set (gd_chunks d)"
| "gop_ok sha d (OpReap c cutoff) \<longleftrightarrow> (\<forall>x \<in> set (gd_chunks d). gc_id x = gc_id c \<longrightarrow> scope_of c x)"
| "gop_ok sha d _ \<longleftrightarrow> True"

type_synonym gstate = "int \<times> gdata"

definition empty_tables :: gdata where
  "empty_tables = \<lparr>gd_schedules = [], gd_chunks = [], gd_current = (\<lambda>k. None), gd_repos = (\<lambda>k. None)\<rparr>"

fun gen_initial :: "gstate \<Rightarrow> bool" where
  "gen_initial (clock, d) \<longleftrightarrow> 0 < clock \<and> d = empty_tables"

inductive gen_step :: "hasher \<Rightarrow> gstate \<Rightarrow> gstate \<Rightarrow> bool" for sha where
  gen_stepI: "clock \<le> now \<Longrightarrow> gop_ok sha d op \<Longrightarrow> gen_step sha (clock, d) (now, run_gop sha now op d)"

inductive_cases gen_stepE: "gen_step sha (clock, d) t"

abbreviation gen_reachable :: "hasher \<Rightarrow> gstate \<Rightarrow> bool" where
  "gen_reachable sha \<equiv> reachable gen_initial (gen_step sha)"

fun gen_invar :: "hasher \<Rightarrow> gstate \<Rightarrow> bool" where
  "gen_invar sha (clock, d) \<longleftrightarrow> 0 < clock \<and> gen_inv sha clock d"

lemma inv_run:
  assumes "gen_inv sha clock d" "0 < clock" "clock \<le> now" "gop_ok sha d op"
  shows "gen_inv sha now (run_gop sha now op d)"
  using assms
  by (cases op)
    (auto simp: releaseGenerationChunkSQL_def intro!: inv_enqueueSchedule inv_retireCurrent inv_forgetRepository inv_diagnosticFence inv_expand
      inv_claimChunk inv_heartbeat inv_complete inv_fail inv_retry inv_deferChunk inv_reap inv_collect inv_fenceAdvance inv_typedRetirement)

lemma inv_empty: "gen_inv sha clock empty_tables"
  by (simp add: gen_inv_def empty_tables_def keys_ok_def links_ok_def order_ok_def repos_ok_def current_ok_def)

interpretation gen: invariant_system gen_initial "gen_step sha" "gen_invar sha" for sha
proof
  show "gen_invar sha st" if "gen_initial st" for st using that inv_empty by (cases st) auto
  show "gen_invar sha t" if "gen_invar sha st" "gen_step sha st t" for st t
    using that by (cases st) (auto elim!: gen_stepE intro: inv_run)
qed

lemma reachable_inv: "gen_reachable sha (clock, d) \<Longrightarrow> gen_inv sha clock d \<and> 0 < clock"
  using gen.reachable_invar [of sha "(clock, d)"] by simp

section \<open>Reading schedules\<close>

text \<open>The query of \<open>GetGenerationSchedule\<close> has two statements, the pointer and the row it names, outside a
  transaction block. Both are read here from one state of the tables: the answer of a run in which no other
  transaction commits between them.\<close>

definition GetGenerationSchedule :: "hasher \<Rightarrow> gostring \<Rightarrow> gostring \<Rightarrow> gdata \<Rightarrow> serr + gsched" where
  "GetGenerationSchedule sha repository stage d =
     (if TrimSpace repository \<noteq> repository \<or> repository = [] \<or> \<not> validGenerationToken stage \<or> stage = []
      then Inl (ErrNew ''get generation schedule: invalid scope'')
      else case find (\<lambda>s. current_digest sha repository stage d = Some (gs_digest s)) (gd_schedules d) of
        None \<Rightarrow> Inl (ErrWrap ''get generation schedule: '' (ErrNew ''not found''))
      | Some s \<Rightarrow> (case ValidateGenerationSchedule sha s of
          Some e \<Rightarrow> Inl (ErrWrap ''get generation schedule: '' e)
        | None \<Rightarrow> Inr s))"

record gsettlement =
  st_digest :: gostring
  st_status :: gostring
  st_total :: int
  st_pending :: int
  st_running :: int
  st_succeeded :: int
  st_failed :: int

record gsettlement_request =
  rq_repository :: gostring
  rq_stage :: gostring
  rq_generation :: gostring
  rq_class :: gostring
  rq_digest :: gostring

definition settlement_complete :: "gsettlement \<Rightarrow> bool" where
  "settlement_complete v \<longleftrightarrow> st_status v = GenerationScheduleSettled \<and> st_total v > 0 \<and> st_pending v = 0 \<and> st_running v = 0 \<and>
     st_failed v = 0 \<and> st_succeeded v = st_total v"

abbreviation ErrGenerationScheduleFailed :: serr where
  "ErrGenerationScheduleFailed \<equiv> ErrNew ''generation schedule settled with failures''"

definition settlement_of :: "gsched \<Rightarrow> gsettlement" where
  "settlement_of s = \<lparr>st_digest = gs_digest s, st_status = gs_status s, st_total = gs_total_chunks s, st_pending = gs_pending s,
     st_running = gs_running s, st_succeeded = gs_succeeded s, st_failed = gs_failed s\<rparr>"

text \<open>The counts that go with \<open>ErrGenerationScheduleFailed\<close> are left out of the result.\<close>

definition generationScheduleSettlement :: "hasher \<Rightarrow> gsettlement_request \<Rightarrow> gsched \<Rightarrow> serr + gsettlement" where
  "generationScheduleSettlement sha rq s =
     (if ValidateGenerationSchedule sha s \<noteq> None \<or> gs_digest s \<noteq> rq_digest rq \<or> gs_repository s \<noteq> rq_repository rq \<or>
         gs_stage s \<noteq> rq_stage rq \<or> gs_generation s \<noteq> rq_generation rq \<or> gs_class s \<noteq> rq_class rq \<or>
         gs_next s \<noteq> gs_items s \<or> gs_materialized s < gs_total_chunks s \<or>
         gs_status s \<noteq> GenerationScheduleActive \<and> gs_status s \<noteq> GenerationScheduleSettled
      then Inl ErrGenerationStale
      else if gs_status s = GenerationScheduleSettled \<and> \<not> settlement_complete (settlement_of s)
      then Inl ErrGenerationScheduleFailed
      else Inr (settlement_of s))"

definition ReadGenerationScheduleSettlement :: "hasher \<Rightarrow> gsettlement_request \<Rightarrow> gdata \<Rightarrow> serr + gsettlement" where
  "ReadGenerationScheduleSettlement sha rq d =
     (if TrimSpace (rq_repository rq) \<noteq> rq_repository rq \<or> rq_repository rq = [] \<or>
         int (length (rq_repository rq)) > MaxJobHistoryTargetCharacters \<or> \<not> ValidString (rq_repository rq) \<or>
         \<not> validGenerationToken (rq_stage rq) \<or> rq_stage rq = [] \<or> \<not> validSHA256 (rq_generation rq) \<or>
         \<not> validGenerationResourceClass (rq_class rq) \<or> \<not> validSHA256 (rq_digest rq)
      then Inl (ErrNew ''read generation schedule settlement: request is invalid'')
      else case GetGenerationSchedule sha (rq_repository rq) (rq_stage rq) d of
        Inl e \<Rightarrow> Inl (ErrWrap ''read generation schedule settlement: '' e)
      | Inr s \<Rightarrow> generationScheduleSettlement sha rq s)"

section \<open>What the rows promise\<close>

lemma cur_exact:
  assumes "gen_inv sha clock d" "s \<in> set (gd_schedules d)" "is_cur sha (gd_current d) s"
  shows "exact (gd_chunks d) s" "gs_status s \<noteq> GenerationScheduleSuperseded"
  using current_okD(3,4) [OF gen_invD(6) [OF assms(1)] assms(2,3)] by blast+

lemma schedule_row:
  assumes "gen_inv sha clock d" "s \<in> set (gd_schedules d)"
  shows "ValidateGenerationSchedule sha s = None" "gs_running s = num (in_status (gs_digest s) GenerationChunkRunning) (gd_chunks d)"
    "static_ok sha s" "counters_ok s" "status_ok s"
  using gen_invD(4) [OF assms] validI by (auto simp: sched_row_ok_def)

lemma repository_row:
  assumes "gen_inv sha clock d" "s \<in> set (gd_schedules d)"
  obtains r where "gd_repos d (generationRepositoryID sha (gs_repository s)) = Some r"
    "rs_running r = num (running_at sha (generationRepositoryID sha (gs_repository s))) (gd_chunks d)"
    "rs_running r \<le> MaxGenerationRepositoryTokens"
  using repos_okD [OF gen_invD(5) [OF assms(1)]] assms(2) by metis

text \<open>
  C13. Every row that a client of the scheduler can ever read is well-formed: in every interleaving of
  enqueues, fan-outs, claims, heartbeats, completions, failures, retries, deferrals, releases, reaps,
  retirements, repository deletions, diagnostic, service-state and typed-index fences and collections, by any number of clients, each
  schedule row passes \<open>ValidateGenerationSchedule\<close>, its running counter is the number of its running
  chunks, and the row of its repository exists and counts the chunks that run for that repository, at
  most \<open>MaxGenerationRepositoryTokens\<close> of them. As \<open>gop_ok\<close> says, clients enqueue specifications whose digests
  do not collide with stored ones, and draw record identifiers that are new.
\<close>

theorem schedule_rows_valid:
  assumes "gen_reachable sha (clock, d)" and "s \<in> set (gd_schedules d)"
  shows "ValidateGenerationSchedule sha s = None \<and>
    gs_running s = int (length (filter (\<lambda>c. gc_digest c = gs_digest s \<and> gc_status c = GenerationChunkRunning) (gd_chunks d))) \<and>
    (\<exists>r. gd_repos d (generationRepositoryID sha (gs_repository s)) = Some r \<and>
       rs_running r = int (length (filter (\<lambda>c. gc_status c = GenerationChunkRunning \<and>
         generationRepositoryID sha (gc_repository c) = generationRepositoryID sha (gs_repository s)) (gd_chunks d))) \<and>
       0 \<le> rs_running r \<and> rs_running r \<le> MaxGenerationRepositoryTokens)"
proof -
  have inv: "gen_inv sha clock d" using reachable_inv [OF assms(1)] by blast
  obtain r where r: "gd_repos d (generationRepositoryID sha (gs_repository s)) = Some r"
    "rs_running r = num (running_at sha (generationRepositoryID sha (gs_repository s))) (gd_chunks d)"
    "rs_running r \<le> MaxGenerationRepositoryTokens" using repository_row [OF inv assms(2)] .
  show ?thesis using schedule_row(1,2) [OF inv assms(2)] r by (simp add: num_def running_at_def [abs_def])
qed

text \<open>
  C18. An unsettled schedule can always be worked on. Take an active schedule that is fully fanned out,
  outside the two serial service-state stages, at a moment when no chunk of its repository is running and
  the delays of its pending chunks have passed. Whatever happened before, claims, lost leases, retries,
  reaps, in any order, the selection of \<open>ClaimGenerationChunk\<close> finds a chunk of it: the counters never
  strand a schedule with its work neither pending nor settled.
\<close>

theorem schedule_never_stranded:
  assumes reach: "gen_reachable sha (clock, d)" and s: "s \<in> set (gd_schedules d)"
    and act: "gs_status s = GenerationScheduleActive" and full: "gs_next s = gs_items s" and stage: "state_phase (gs_stage s) = []"
    and idle: "\<not> list_ex (\<lambda>c. gc_status c = GenerationChunkRunning \<and>
      generationRepositoryID sha (gc_repository c) = generationRepositoryID sha (gs_repository s)) (gd_chunks d)"
    and due: "list_all (\<lambda>c. case gc_not_before c of None \<Rightarrow> True | Some nb \<Rightarrow> nb \<le> now) (gd_chunks d)"
  shows "\<exists>c. c \<in> set (gd_chunks d) \<and> gc_digest c = gs_digest s \<and> gc_status c = GenerationChunkPending \<and>
    claimGenerationChunkSelectionSQL sha now plan s d = Some (gc_id c)"
proof -
  have inv: "gen_inv sha clock d" using reachable_inv [OF reach] by blast
  note cur = active_cur [OF inv s act]
  note ex = cur_exact(1) [OF inv s cur]
  have no_run: "num (running_at sha (generationRepositoryID sha (gs_repository s))) (gd_chunks d) = 0"
    by (rule num_none) (use idle in \<open>auto simp: list_ex_iff running_at_def\<close>)
  have "gs_running s = 0"
    unfolding schedule_row(2) [OF inv s]
  proof (rule num_none)
    fix c assume "c \<in> set (gd_chunks d)"
    then show "\<not> in_status (gs_digest s) GenerationChunkRunning c"
      using chunk_linked [OF gen_invD(1,2) [OF inv] s] idle by (auto simp: list_ex_iff chunk_ok_def)
  qed
  then have pend: "0 < gs_pending s" using ex act full by (simp add: exact_def)
  then have "0 < num (in_status (gs_digest s) GenerationChunkPending) (gd_chunks d)" using ex by (simp add: exact_def)
  then obtain p where p: "p \<in> set (gd_chunks d)" "gc_digest p = gs_digest s" "gc_status p = GenerationChunkPending"
    using num_pos_ex by blast
  have "p \<in> set (claim_candidates now plan s d)"
    using p due stage by (simp add: claim_candidates_def plan_admits_def list_all_iff)
  then obtain c cs where c: "claim_candidates now plan s d = c # cs" by (cases "claim_candidates now plan s d") auto
  then have "c \<in> set (claim_candidates now plan s d)" by simp
  then have in_c: "c \<in> set (gd_chunks d)" "gc_digest c = gs_digest s" "gc_status c = GenerationChunkPending"
    by (auto simp: claim_candidates_def)
  have "current_digest sha (gs_repository s) (gs_stage s) d = Some (gs_digest s)" using cur by (auto simp: is_cur_def current_digest_Some)
  moreover have "schedule_ready s d \<noteq> None" using s act pend by (auto simp: schedule_ready_def find_None_iff)
  moreover have "repository_free sha s d"
  proof -
    obtain r where "gd_repos d (generationRepositoryID sha (gs_repository s)) = Some r" "rs_running r = 0"
      using repository_row [OF inv s] no_run by metis
    then show ?thesis using static_bounds(4) [OF schedule_row(3) [OF inv s]] by (simp add: repository_free_def)
  qed
  ultimately show ?thesis using c in_c by (intro exI [of _ c]) (simp add: claimGenerationChunkSelectionSQL_def)
qed

section \<open>Settlement\<close>

lemma slot_of:
  fixes i per off :: int
  assumes "0 < per" "off mod per = 0" "off \<le> i" "i < off + per"
  shows "i div per = off div per"
proof -
  have "i = off div per * per + (i - off)" using assms(2) by auto
  then have "i div per = (i - off + off div per * per) div per" by (simp add: add.commute)
  also have "\<dots> = off div per + (i - off) div per" by (rule div_mult_self1) (use assms(1) in simp)
  also have "(i - off) div per = 0" using assms(3,4) by (intro div_pos_pos_trivial) auto
  finally show ?thesis by simp
qed

lemma done_slots:
  assumes inv: "gen_inv sha clock d" and s: "s \<in> set (gd_schedules d)" and cur: "is_cur sha (gd_current d) s"
    and succ: "gs_succeeded s = gs_total_chunks s"
  shows "(\<lambda>c. gc_offset c div gs_chunk_items s) ` {c \<in> set (gd_chunks d). in_status (gs_digest s) GenerationChunkDone c} = {0..<gs_total_chunks s}"
    and "inj_on (\<lambda>c. gc_offset c div gs_chunk_items s) {c \<in> set (gd_chunks d). in_status (gs_digest s) GenerationChunkDone c}"
proof -
  let ?D = "{c \<in> set (gd_chunks d). in_status (gs_digest s) GenerationChunkDone c}"
  let ?f = "\<lambda>c. gc_offset c div gs_chunk_items s"
  note keys = gen_invD(1) [OF inv] and links = gen_invD(2) [OF inv]
  note R = schedule_row [OF inv s]
  have nx: "gs_next s \<le> gs_items s" using R(4) by (simp add: counters_ok_def)
  have ok: "chunk_ok sha s c" if "c \<in> ?D" for c using chunk_linked [OF keys links s] that by blast
  show inj: "inj_on ?f ?D"
  proof (rule inj_onI)
    fix x y assume xy: "x \<in> ?D" "y \<in> ?D" "?f x = ?f y"
    have off: "gc_offset x = gc_offset y"
      using offset_slot(1) [OF R(3) ok [OF xy(1)] nx] offset_slot(1) [OF R(3) ok [OF xy(2)] nx] xy(3) by simp
    have "\<not> gc_attempt x < gc_attempt y" "\<not> gc_attempt y < gc_attempt x"
      using gen_invD(3) [OF inv] xy(1,2) off unfolding order_ok_def by force+
    then show "x = y" using chunk_at [OF keys links, of x y] xy(1,2) off by simp
  qed
  have "int (card ?D) = num (in_status (gs_digest s) GenerationChunkDone) (gd_chunks d)"
  proof -
    have "distinct (gd_chunks d)" using keys by (auto simp: keys_ok_def distinct_map)
    then show ?thesis
      using distinct_card [of "filter (in_status (gs_digest s) GenerationChunkDone) (gd_chunks d)"] by (simp add: num_def)
  qed
  then have "int (card (?f ` ?D)) = gs_total_chunks s"
    using card_image [OF inj] cur_exact(1) [OF inv s cur] succ by (simp add: exact_def)
  then have c: "card (?f ` ?D) = card {0..<gs_total_chunks s}" by simp
  have "?f ` ?D \<subseteq> {0..<gs_total_chunks s}" using offset_slot(2,3) [OF R(3) ok nx] by auto
  then show "?f ` ?D = {0..<gs_total_chunks s}" using c by (intro card_subset_eq) auto
qed

lemma settled_covers:
  assumes inv: "gen_inv sha clock d" and s: "s \<in> set (gd_schedules d)" and cur: "is_cur sha (gd_current d) s"
    and succ: "gs_succeeded s = gs_total_chunks s" and i: "0 \<le> i" "i < gs_items s"
  shows "\<exists>!c. c \<in> set (gd_chunks d) \<and> gc_digest c = gs_digest s \<and> gc_status c = GenerationChunkDone \<and>
    gc_offset c \<le> i \<and> i < gc_offset c + gc_length c"
proof -
  let ?per = "gs_chunk_items s"
  note R = schedule_row [OF inv s]
  note D = done_slots [OF inv s cur succ]
  have per: "0 < ?per" using static_bounds(2) [OF R(3)] by simp
  have nx: "gs_next s \<le> gs_items s" using R(4) by (simp add: counters_ok_def)
  have ok: "chunk_ok sha s c" if "c \<in> set (gd_chunks d)" "gc_digest c = gs_digest s" for c
    using chunk_linked [OF gen_invD(1,2) [OF inv] s that] .
  have "gs_items s \<le> gs_total_chunks s * ?per"
    using chunk_count_bounds(1) [of ?per "gs_items s"] per R(3) by (simp add: static_ok_def)
  then have "i div ?per * ?per < gs_total_chunks s * ?per"
    using i(2) per by (simp add: minus_mod_eq_div_mult [symmetric]) (smt (verit) pos_mod_sign)
  then have "i div ?per \<in> {0..<gs_total_chunks s}" using per i(1) by (simp add: pos_imp_zdiv_nonneg_iff)
  then obtain c where c: "c \<in> set (gd_chunks d)" "in_status (gs_digest s) GenerationChunkDone c" "gc_offset c div ?per = i div ?per"
    unfolding D(1) [symmetric] by auto
  have oc: "gc_offset c = i div ?per * ?per" using offset_slot(1) [OF R(3) ok [OF c(1)] nx] c(2,3) by simp
  have range: "gc_offset c \<le> i \<and> i < gc_offset c + gc_length c"
  proof -
    have "i div ?per * ?per = i - i mod ?per" "0 \<le> i mod ?per" "i mod ?per < ?per" using per by (simp_all add: minus_mod_eq_div_mult)
    then show ?thesis using ok [OF c(1)] c(2) oc i(2) by (auto simp: chunk_ok_def)
  qed
  have only: "x = c" if x: "x \<in> set (gd_chunks d)" "in_status (gs_digest s) GenerationChunkDone x" "gc_offset x \<le> i" "i < gc_offset x + gc_length x" for x
  proof -
    have "gc_offset x mod ?per = 0" "i < gc_offset x + ?per" using ok [OF x(1)] x(2,4) by (auto simp: chunk_ok_def)
    then have "gc_offset x div ?per = gc_offset c div ?per" using slot_of [OF per _ x(3)] c(3) by simp
    then show ?thesis using inj_onD [OF D(2)] x(1,2) c(1,2) by blast
  qed
  show ?thesis
  proof (rule ex1I [of _ c])
    show "c \<in> set (gd_chunks d) \<and> gc_digest c = gs_digest s \<and> gc_status c = GenerationChunkDone \<and>
      gc_offset c \<le> i \<and> i < gc_offset c + gc_length c" using c(1,2) range by blast
  qed (use only in blast)
qed

lemma settlement_read:
  assumes inv: "gen_inv sha clock d" and read: "ReadGenerationScheduleSettlement sha rq d = res"
    and res: "res = Inr v \<or> res = Inl ErrGenerationScheduleFailed"
  obtains s where "s \<in> set (gd_schedules d)" "is_cur sha (gd_current d) s" "gs_digest s = rq_digest rq" "gs_next s = gs_items s"
    "generationScheduleSettlement sha rq s = res" "gs_status s = GenerationScheduleActive \<or> gs_status s = GenerationScheduleSettled"
proof -
  obtain s where s: "GetGenerationSchedule sha (rq_repository rq) (rq_stage rq) d = Inr s" "generationScheduleSettlement sha rq s = res"
    using read res by (auto simp: ReadGenerationScheduleSettlement_def split: if_splits sum.splits)
  have in_d: "s \<in> set (gd_schedules d)" "current_digest sha (rq_repository rq) (rq_stage rq) d = Some (gs_digest s)"
    using s(1) by (auto simp: GetGenerationSchedule_def find_Some_iff split: if_splits option.splits)
  have "gs_digest s = rq_digest rq \<and> gs_repository s = rq_repository rq \<and> gs_stage s = rq_stage rq \<and> gs_next s = gs_items s \<and>
      (gs_status s = GenerationScheduleActive \<or> gs_status s = GenerationScheduleSettled)"
    using s(2) res by (auto simp: generationScheduleSettlement_def split: if_splits)
  then show ?thesis using that [OF in_d(1)] in_d(2) s(2) by (auto simp: is_cur_def current_digest_Some)
qed

lemma settlement_result:
  assumes "generationScheduleSettlement sha rq s = res" "res = Inr v \<or> res = Inl ErrGenerationScheduleFailed"
  shows "res = Inr v \<Longrightarrow> v = settlement_of s \<and> (gs_status s = GenerationScheduleSettled \<longrightarrow> settlement_complete v)"
    "res = Inl ErrGenerationScheduleFailed \<Longrightarrow> gs_status s = GenerationScheduleSettled \<and> \<not> settlement_complete (settlement_of s)"
  using assms by (auto simp: generationScheduleSettlement_def split: if_splits)

lemma total_positive: "static_ok sha s \<Longrightarrow> 0 < gs_total_chunks s"
proof -
  assume s: "static_ok sha s"
  note b = static_bounds(1,2) [OF s]
  have "0 < chunk_count (gs_items s) (gs_chunk_items s) * gs_chunk_items s"
    using chunk_count_bounds(1) [OF b(2), of "gs_items s"] b(1) by linarith
  then show ?thesis using s b(2) by (simp add: static_ok_def zero_less_mult_iff)
qed

lemma failed_chunk:
  assumes inv: "gen_inv sha clock d" and s: "s \<in> set (gd_schedules d)" "is_cur sha (gd_current d) s" and f: "0 < gs_failed s"
  shows "\<exists>c \<in> set (gd_chunks d). gc_digest c = gs_digest s \<and> gc_status c = GenerationChunkFailed"
proof -
  have "num (first_try (gs_digest s)) (gd_chunks d) \<le> num (in_schedule (gs_digest s)) (gd_chunks d)" by (rule num_mono) simp
  then have "0 < num (in_status (gs_digest s) GenerationChunkFailed) (gd_chunks d)"
    using cur_exact(1) [OF inv s] f unfolding exact_def by linarith
  then show ?thesis by (rule num_pos_ex)
qed

lemma unfinished_chunk:
  assumes inv: "gen_inv sha clock d" and s: "s \<in> set (gd_schedules d)" "is_cur sha (gd_current d) s"
    and f: "0 < gs_pending s + gs_running s"
  shows "\<exists>c \<in> set (gd_chunks d). gc_digest c = gs_digest s \<and> gc_status c \<in> {GenerationChunkPending, GenerationChunkRunning}"
proof -
  have "0 < num (in_status (gs_digest s) GenerationChunkPending) (gd_chunks d) \<or>
      0 < num (in_status (gs_digest s) GenerationChunkRunning) (gd_chunks d)"
    using cur_exact(1) [OF inv s] schedule_row(2) [OF inv s(1)] f unfolding exact_def by linarith
  then show ?thesis
  proof
    assume "0 < num (in_status (gs_digest s) GenerationChunkPending) (gd_chunks d)"
    then show ?thesis using num_pos_ex by blast
  next
    assume "0 < num (in_status (gs_digest s) GenerationChunkRunning) (gd_chunks d)"
    then show ?thesis using num_pos_ex by blast
  qed
qed

text \<open>
  C25. A settlement barrier that passes means that the work was done, all of it and once. When a caller of
  \<open>ReadGenerationScheduleSettlement\<close> is told that the schedule it named is complete, in any state the
  clients can reach, then for every item of the generation there is exactly one completed chunk of that
  schedule whose range holds the item. When it is told that the schedule failed, some chunk of it failed,
  and when it is told to poll again, a chunk of it is still pending or running.
\<close>

theorem settlement_covers_items:
  assumes reach: "gen_reachable sha (clock, d)"
  shows "(case ReadGenerationScheduleSettlement sha rq d of
      Inr v \<Rightarrow> (\<exists>s \<in> set (gd_schedules d). gs_digest s = rq_digest rq \<and>
        (if settlement_complete v
         then \<forall>i. 0 \<le> i \<and> i < gs_items s \<longrightarrow> (\<exists>!c. c \<in> set (gd_chunks d) \<and> gc_digest c = rq_digest rq \<and>
           gc_status c = GenerationChunkDone \<and> gc_offset c \<le> i \<and> i < gc_offset c + gc_length c)
         else \<exists>c \<in> set (gd_chunks d). gc_digest c = rq_digest rq \<and> gc_status c \<in> {GenerationChunkPending, GenerationChunkRunning}))
    | Inl e \<Rightarrow> e = ErrGenerationScheduleFailed \<longrightarrow>
        (\<exists>c \<in> set (gd_chunks d). gc_digest c = rq_digest rq \<and> gc_status c = GenerationChunkFailed))"
proof -
  have inv: "gen_inv sha clock d" using reachable_inv [OF reach] by blast
  show ?thesis
  proof (cases "ReadGenerationScheduleSettlement sha rq d")
    case (Inr v)
    obtain s where s: "s \<in> set (gd_schedules d)" "is_cur sha (gd_current d) s" "gs_digest s = rq_digest rq" "gs_next s = gs_items s"
      "generationScheduleSettlement sha rq s = Inr v" "gs_status s = GenerationScheduleActive \<or> gs_status s = GenerationScheduleSettled"
      using settlement_read [OF inv Inr, of v] by blast
    have v: "v = settlement_of s" "gs_status s = GenerationScheduleSettled \<longrightarrow> settlement_complete v" using settlement_result(1) [OF s(5)] by blast+
    note ex = cur_exact(1) [OF inv s(1,2)]
    show ?thesis
    proof (cases "settlement_complete v")
      case True
      then have "gs_succeeded s = gs_total_chunks s" by (simp add: v settlement_complete_def settlement_of_def)
      then have "\<forall>i. 0 \<le> i \<and> i < gs_items s \<longrightarrow> (\<exists>!c. c \<in> set (gd_chunks d) \<and> gc_digest c = rq_digest rq \<and>
           gc_status c = GenerationChunkDone \<and> gc_offset c \<le> i \<and> i < gc_offset c + gc_length c)"
        using settled_covers [OF inv s(1,2)] unfolding s(3) by blast
      then show ?thesis using True s(1,3) by (simp only: Inr sum.case if_True) blast
    next
      case False
      then have "0 < gs_pending s + gs_running s" using ex s(4,6) v(2) unfolding exact_def by auto
      then have "\<exists>c \<in> set (gd_chunks d). gc_digest c = rq_digest rq \<and> gc_status c \<in> {GenerationChunkPending, GenerationChunkRunning}"
        using unfinished_chunk [OF inv s(1,2)] s(3) by simp
      then show ?thesis using False s(1,3) by (auto simp: Inr)
    qed
  next
    case (Inl e)
    show ?thesis
    proof (cases "e = ErrGenerationScheduleFailed")
      case True
      obtain s where s: "s \<in> set (gd_schedules d)" "is_cur sha (gd_current d) s" "gs_digest s = rq_digest rq"
        "generationScheduleSettlement sha rq s = Inl e" using settlement_read [OF inv Inl] True by blast
      have b: "gs_status s = GenerationScheduleSettled" "\<not> settlement_complete (settlement_of s)"
        using settlement_result(2) [OF s(4)] True by blast+
      have "0 < gs_failed s"
        using b schedule_row(4,5) [OF inv s(1)] total_positive [OF schedule_row(3) [OF inv s(1)]]
        by (auto simp: status_ok_def settlement_complete_def settlement_of_def counters_ok_def)
      then show ?thesis using failed_chunk [OF inv s(1,2)] s(3) by (simp add: Inl)
    qed (simp add: Inl)
  qed
qed

section \<open>A run\<close>

text \<open>One schedule of one item is enqueued, fanned out, claimed and completed; the hash is constant.\<close>

definition run_sha :: hasher where
  "run_sha s = replicate 32 0"

definition run_zero :: gostring where
  "run_zero = ''sha256:'' @ replicate 64 (CHR ''0'')"

definition run_spec :: gspec where
  "run_spec = \<lparr>gp_repository = ''r'', gp_stage = ''s'', gp_generation = run_zero, gp_class = ''cpu'', gp_items = 1, gp_chunk_items = 1,
     gp_attempts = 2, gp_tokens = 1\<rparr>"

definition run_row :: "int \<Rightarrow> int \<Rightarrow> int \<Rightarrow> int \<Rightarrow> gostring \<Rightarrow> int option \<Rightarrow> gsched" where
  "run_row made waiting active_now finished status claimed = \<lparr>gs_schema = GenerationScheduleSchema, gs_digest = run_zero, gs_repository = ''r'',
     gs_stage = ''s'', gs_generation = run_zero, gs_class = ''cpu'', gs_items = 1, gs_chunk_items = 1, gs_total_chunks = 1,
     gs_max_attempts = 2, gs_tokens = 1, gs_next = made, gs_materialized = made, gs_pending = waiting, gs_running = active_now,
     gs_succeeded = finished, gs_failed = 0, gs_status = status, gs_created = 1, gs_updated = 1, gs_claimed = claimed\<rparr>"

definition run_chunk :: "gostring \<Rightarrow> gostring \<Rightarrow> int option \<Rightarrow> int option \<Rightarrow> int option \<Rightarrow> gostring \<Rightarrow> gchunk" where
  "run_chunk status worker claimed beat finished lease = \<lparr>gc_id = ''c'', gc_identity = run_zero, gc_digest = run_zero, gc_repository = ''r'',
     gc_stage = ''s'', gc_generation = run_zero, gc_class = ''cpu'', gc_offset = 0, gc_length = 1, gc_attempt = 0, gc_priority = 0,
     gc_status = status, gc_not_before = None, gc_claimed_by = worker, gc_claimed_at = claimed, gc_heartbeat = beat,
     gc_finished = finished, gc_error = [], gc_lease = lease\<rparr>"

definition run_tables :: "gsched \<Rightarrow> gchunk list \<Rightarrow> int \<Rightarrow> int option \<Rightarrow> gdata" where
  "run_tables s cs active_now claimed = \<lparr>gd_schedules = [s], gd_chunks = cs,
     gd_current = (\<lambda>k. None)(run_zero \<mapsto> \<lparr>cu_repository = ''r'', cu_stage = ''s'', cu_digest = run_zero, cu_generation = run_zero, cu_updated = 1\<rparr>),
     gd_repos = (\<lambda>k. None)(run_zero \<mapsto> \<lparr>rs_repository = ''r'', rs_running = active_now, rs_claimed = claimed, rs_updated = 1\<rparr>)\<rparr>"

abbreviation "run_enqueued \<equiv> run_tables (run_row 0 0 0 0 GenerationScheduleActive None) [] 0 None"
abbreviation "run_expanded \<equiv> run_tables (run_row 1 1 0 0 GenerationScheduleActive None) [run_chunk GenerationChunkPending [] None None None []] 0 None"
abbreviation "run_lease \<equiv> run_chunk GenerationChunkRunning ''w'' (Some 1) (Some 1) None ''l''"
abbreviation "run_claimed \<equiv> run_tables (run_row 1 0 1 0 GenerationScheduleActive (Some 1)) [run_lease] 1 (Some 1)"
abbreviation "run_completed \<equiv> run_tables (run_row 1 0 0 1 GenerationScheduleSettled (Some 1)) [run_chunk GenerationChunkDone ''w'' (Some 1) None (Some 1) []] 0 (Some 1)"

lemma run_digest: "generationSchedulerDigest run_sha a b = run_zero"
proof -
  have "hex_encode (replicate 32 0) = replicate 64 (CHR ''0'')" by code_simp
  then show ?thesis by (simp only: generationSchedulerDigest_def run_sha_def run_zero_def)
qed

lemma run_ids:
  "generationCurrentID run_sha a b = run_zero" "generationRepositoryID run_sha a = run_zero" "generationChunkID run_sha a i j = run_zero"
  "generationScheduleDigest run_sha p = run_zero"
  by (simp_all add: generationCurrentID_def generationRepositoryID_def generationChunkID_def generationScheduleDigest_def run_digest)

lemmas grun_defs = run_tables_def run_row_def run_chunk_def

lemma run_enqueue: "run_gop run_sha 1 (OpEnqueue False run_spec (None, [])) empty_tables = run_enqueued"
  by (simp add: enqueueGenerationScheduleSQL_def enqueueGenerationSchedulePriorSQL_def current_digest_def empty_tables_def run_ids
      grun_defs run_spec_def new_schedule_def chunk_count_def Let_def)

lemma run_expand: "run_gop run_sha 1 (OpExpand False (\<lambda>n. ''c'') (run_row 0 0 0 0 GenerationScheduleActive None)) run_enqueued = run_expanded"
  by (simp add: expandGenerationScheduleSQL_def generationChunkSpecs_def current_digest_def run_ids grun_defs new_chunk_def chunk_count_def
      create_chunk_def upd_sched_def Let_def)

lemma run_claim:
  "run_gop run_sha 1 (OpClaim False None (run_row 1 1 0 0 GenerationScheduleActive None) ''w'' ''l'' ''c'') run_expanded = run_claimed"
  by (simp add: claimGenerationChunkSQL_def claimGenerationChunkSelectionSQL_def claim_candidates_def plan_admits_def state_phase_def
      schedule_ready_def repository_free_def current_digest_def run_ids grun_defs claim_chunk_def claim_sched_def claim_repo_def
      upd_chunk_def upd_sched_def upd_repo_def Let_def)

lemma run_complete_sql:
  "completeGenerationChunkSQL run_sha 1 (\<lambda>g r. True) run_lease run_claimed = (Inr \<lparr>tr_owned = True, tr_current = True, tr_exhausted = False\<rparr>, run_completed)"
proof -
  have v: "validGenerationToken ''s''" by code_simp
  show ?thesis
    by (simp add: completeGenerationChunkSQL_def typedChunkStatement_def v validGenerationResourceClass_def owned_def chunk_lease_row_def
      generationLeaseScope_def is_current_def current_digest_def run_ids grun_defs end_lease_def settle_chunk_def complete_sched_def last_chunk_def
      upd_chunk_def upd_sched_def upd_repo_def Let_def)
qed

lemma reach_run:
  assumes "gen_reachable sha (clock, d)" "clock \<le> now" "gop_ok sha d op" "run_gop sha now op d = d'"
  shows "gen_reachable sha (now, d')"
  unfolding assms(4) [symmetric] by (rule reachable_step [OF assms(1)]) (rule gen_stepI [OF assms(2,3)])

lemma run_reach:
  "gen_reachable run_sha (1, run_enqueued)" "gen_reachable run_sha (1, run_expanded)" "gen_reachable run_sha (1, run_claimed)"
  "gen_reachable run_sha (1, run_completed)"
proof -
  have zero: "gen_reachable run_sha (1, empty_tables)" by (rule reachable_init) simp
  have "normalizeGenerationScheduleSpec run_spec = Inr run_spec" by code_simp
  then show e: "gen_reachable run_sha (1, run_enqueued)"
    by (intro reach_run [OF zero order_refl _ run_enqueue]) (simp add: digest_known_def empty_tables_def)
  show x: "gen_reachable run_sha (1, run_expanded)"
    by (rule reach_run [OF e order_refl _ run_expand])
      (simp add: seen_schedule_def fresh_ids_def generationChunkSpecs_def chunk_count_def grun_defs Let_def)
  show c: "gen_reachable run_sha (1, run_claimed)"
    by (rule reach_run [OF x order_refl _ run_claim]) (simp add: seen_schedule_def grun_defs spec_of_def)
  show "gen_reachable run_sha (1, run_completed)"
    by (rule reach_run [OF c order_refl, of "OpComplete (\<lambda>g r. True) run_lease"]) (simp_all add: run_complete_sql)
qed

theorem schedule_rows_valid_witness:
  "ValidateGenerationSchedule run_sha (run_row 1 0 1 0 GenerationScheduleActive (Some 1)) = None \<and>
   (\<exists>r. gd_repos run_claimed run_zero = Some r \<and> rs_running r = 1)"
proof -
  have s: "run_row 1 0 1 0 GenerationScheduleActive (Some 1) \<in> set (gd_schedules run_claimed)" by (simp add: run_tables_def)
  show ?thesis using schedule_rows_valid [OF run_reach(3) s] by (simp add: run_ids grun_defs)
qed

theorem schedule_never_stranded_witness:
  "\<exists>c. c \<in> set (gd_chunks run_expanded) \<and> gc_status c = GenerationChunkPending \<and>
     claimGenerationChunkSelectionSQL run_sha 1 None (run_row 1 1 0 0 GenerationScheduleActive None) run_expanded = Some (gc_id c)"
proof -
  let ?s = "run_row 1 1 0 0 GenerationScheduleActive None"
  have s: "?s \<in> set (gd_schedules run_expanded)" "gs_status ?s = GenerationScheduleActive" "gs_next ?s = gs_items ?s"
    "state_phase (gs_stage ?s) = []" by (simp_all add: grun_defs state_phase_def)
  have idle: "\<not> list_ex (\<lambda>c. gc_status c = GenerationChunkRunning \<and>
      generationRepositoryID run_sha (gc_repository c) = generationRepositoryID run_sha (gs_repository ?s)) (gd_chunks run_expanded)"
    and due: "list_all (\<lambda>c. case gc_not_before c of None \<Rightarrow> True | Some nb \<Rightarrow> nb \<le> 1) (gd_chunks run_expanded)" by (simp_all add: grun_defs)
  show ?thesis using schedule_never_stranded [OF run_reach(2) s idle due, of None] by blast
qed

definition run_request :: gsettlement_request where
  "run_request = \<lparr>rq_repository = ''r'', rq_stage = ''s'', rq_generation = run_zero, rq_class = ''cpu'', rq_digest = run_zero\<rparr>"

lemma run_settlement:
  "\<exists>v. ReadGenerationScheduleSettlement run_sha run_request run_completed = Inr v \<and> settlement_complete v"
proof -
  have valid: "ValidateGenerationSchedule run_sha (run_row 1 0 0 1 GenerationScheduleSettled (Some 1)) = None"
    by (rule schedule_row(1) [OF conjunct1 [OF reachable_inv [OF run_reach(4)]]]) (simp add: run_tables_def)
  have ok: "TrimSpace ''r'' = ''r''" "ValidString ''r''" "validGenerationToken ''s''" "validSHA256 run_zero" by code_simp+
  show ?thesis
    using valid by (simp add: ReadGenerationScheduleSettlement_def GetGenerationSchedule_def run_request_def ok run_tables_def current_digest_def
        run_ids generationScheduleSettlement_def settlement_complete_def settlement_of_def validGenerationResourceClass_def)
      (simp add: run_row_def)
qed

theorem settlement_covers_items_witness:
  "\<exists>!c. c \<in> set (gd_chunks run_completed) \<and> gc_digest c = run_zero \<and> gc_status c = GenerationChunkDone \<and>
     gc_offset c \<le> 0 \<and> 0 < gc_offset c + gc_length c"
proof -
  obtain v where v: "ReadGenerationScheduleSettlement run_sha run_request run_completed = Inr v" "settlement_complete v"
    using run_settlement by blast
  have q: "rq_digest run_request = run_zero" by (simp add: run_request_def)
  obtain s where s: "s \<in> set (gd_schedules run_completed)"
    "\<forall>i. 0 \<le> i \<and> i < gs_items s \<longrightarrow> (\<exists>!c. c \<in> set (gd_chunks run_completed) \<and> gc_digest c = run_zero \<and>
       gc_status c = GenerationChunkDone \<and> gc_offset c \<le> i \<and> i < gc_offset c + gc_length c)"
    using settlement_covers_items [OF run_reach(4), of run_request] unfolding v(1) q by (simp only: sum.case v(2) if_True) blast
  have "gs_items s = 1" using s(1) by (simp add: run_tables_def run_row_def)
  then show ?thesis using s(2) [rule_format, of 0] by simp
qed

end
