(* ===== verification/Generation_Methods.thy ===== *)
theory Generation_Methods
  imports Generation_Runs Job_Queue
begin

text \<open>
  Two methods of \<open>generation_schedule.go\<close> as a worker runs them, over a database that other clients use at
  the same time and whose answers may be lost: \<open>CompleteGenerationChunk\<close> and \<open>RetryGenerationChunk\<close>, with
  the reconciliation that follows an ambiguous answer. The world is the scheduler's tables with a script
  of what the coming calls meet, as in \<open>Job_Queue\<close>. Calls are made outside an accounting scope, and the
  time limit of a reconciliation is one of the faults of its calls.
\<close>

section \<open>Database calls\<close>

record gevent =
  ge_others :: "(int \<times> gop) list"
  ge_now :: int
  ge_fault :: qfault
  ge_cancels :: bool

record gworld =
  gw_data :: gdata
  gw_now :: int
  gw_script :: "gevent list"
  gw_done :: bool

text \<open>Other clients act when their arguments are admissible; the database clock never runs backwards.\<close>

fun run_gops :: "hasher \<Rightarrow> int \<Rightarrow> (int \<times> gop) list \<Rightarrow> gdata \<Rightarrow> int \<times> gdata" where
  "run_gops sha clock [] d = (clock, d)"
| "run_gops sha clock ((n, t) # ts) d =
     (if gop_ok sha d t then run_gops sha (max clock n) ts (run_gop sha (max clock n) t d) else run_gops sha clock ts d)"

definition gen_call :: "hasher \<Rightarrow> (int \<Rightarrow> gdata \<Rightarrow> (serr + 'a) \<times> gdata) \<Rightarrow> gworld \<Rightarrow> (serr + 'a) \<times> gworld" where
  "gen_call sha f w =
     (case gw_script w of
        [] \<Rightarrow> (case f (gw_now w) (gw_data w) of (r, d) \<Rightarrow> (r, w\<lparr>gw_data := d\<rparr>))
      | ev # rest \<Rightarrow>
          (case run_gops sha (max (gw_now w) (ge_now ev)) (ge_others ev) (gw_data w) of (now, d1) \<Rightarrow>
             let w1 = w\<lparr>gw_data := d1, gw_now := now, gw_script := rest, gw_done := gw_done w \<or> ge_cancels ev\<rparr>
             in (case ge_fault ev of
                   QOk \<Rightarrow> (case f now d1 of (r, d) \<Rightarrow> (r, w1\<lparr>gw_data := d\<rparr>))
                 | QFail e \<Rightarrow> (Inl e, w1)
                 | QLost e \<Rightarrow> (Inl e, w1\<lparr>gw_data := snd (f now d1)\<rparr>))))"

text \<open>The bounded retry loop of \<open>queryGenerationSchedule\<close>.\<close>

fun query_loop :: "nat \<Rightarrow> (gworld \<Rightarrow> (serr + 'a) \<times> gworld) \<Rightarrow> gworld \<Rightarrow> (serr + 'a) \<times> gworld" where
  "query_loop 0 call w = call w"
| "query_loop (Suc n) call w =
     (case call w of
        (Inr x, w1) \<Rightarrow> (Inr x, w1)
      | (Inl e, w1) \<Rightarrow> if \<not> isRetryable e \<or> gw_done w1 then (Inl e, w1) else query_loop n call w1)"

definition queryGenerationSchedule ::
  "hasher \<Rightarrow> (int \<Rightarrow> gdata \<Rightarrow> (serr + 'a) \<times> gdata) \<Rightarrow> gworld \<Rightarrow> (serr + 'a) \<times> gworld" where
  "queryGenerationSchedule sha f = query_loop (maxQueueRetries - 1) (gen_call sha f)"

definition read_call :: "(gdata \<Rightarrow> 'a) \<Rightarrow> int \<Rightarrow> gdata \<Rightarrow> (serr + 'a) \<times> gdata" where
  "read_call f now d = (Inr (f d), d)"

section \<open>Reads\<close>

definition generationChunkByIdentity :: "hasher \<Rightarrow> gostring \<Rightarrow> gworld \<Rightarrow> (serr + gchunk) \<times> gworld" where
  "generationChunkByIdentity sha identity w =
     (case queryGenerationSchedule sha (read_call (\<lambda>d. find (\<lambda>c. gc_identity c = identity) (gd_chunks d))) w of
        (Inl e, w1) \<Rightarrow> (Inl (ErrWrap ''read generation chunk: '' e), w1)
      | (Inr None, w1) \<Rightarrow> (Inl (ErrWrap ''read generation chunk: '' ErrNotFound), w1)
      | (Inr (Some c), w1) \<Rightarrow> (Inr c, w1))"

definition generationScheduleByDigest :: "hasher \<Rightarrow> gostring \<Rightarrow> gworld \<Rightarrow> (serr + gsched) \<times> gworld" where
  "generationScheduleByDigest sha digest w =
     (if \<not> validSHA256 digest then (Inl (ErrNew ''generation schedule digest is invalid''), w)
      else case gen_call sha (read_call (\<lambda>d. find (\<lambda>s. gs_digest s = digest) (gd_schedules d))) w of
        (Inl e, w1) \<Rightarrow> (Inl (ErrWrap ''read generation schedule: '' e), w1)
      | (Inr None, w1) \<Rightarrow> (Inl (ErrWrap ''read generation schedule: '' ErrNotFound), w1)
      | (Inr (Some s), w1) \<Rightarrow> (Inr s, w1))"

text \<open>\<open>GetGenerationSchedule\<close> with its query; \<open>Generation_Runs\<close> has its answer on one state of the tables.\<close>

definition get_schedule_call :: "hasher \<Rightarrow> gostring \<Rightarrow> gostring \<Rightarrow> gworld \<Rightarrow> (serr + gsched) \<times> gworld" where
  "get_schedule_call sha repository stage w =
     (if TrimSpace repository \<noteq> repository \<or> repository = [] \<or> \<not> validGenerationToken stage \<or> stage = []
      then (Inl (ErrNew ''get generation schedule: invalid scope''), w)
      else case queryGenerationSchedule sha (read_call (GetGenerationSchedule sha repository stage)) w of
        (Inl e, w1) \<Rightarrow> (Inl (ErrWrap ''get generation schedule: '' e), w1)
      | (Inr r, w1) \<Rightarrow> (r, w1))"

section \<open>Completion\<close>

definition same_claim :: "gchunk \<Rightarrow> gchunk \<Rightarrow> bool" where
  "same_claim claimed x \<longleftrightarrow> gc_id x = gc_id claimed \<and> gc_digest x = gc_digest claimed \<and> gc_repository x = gc_repository claimed \<and>
     gc_stage x = gc_stage claimed \<and> gc_generation x = gc_generation claimed \<and> gc_class x = gc_class claimed \<and>
     gc_length x = gc_length claimed \<and> gc_offset x = gc_offset claimed \<and> gc_attempt x = gc_attempt claimed"

text \<open>The context of a reconciliation is not the caller's: it starts alive.\<close>

definition reconcileGenerationCompletion :: "hasher \<Rightarrow> gchunk \<Rightarrow> gworld \<Rightarrow> (serr + bool) \<times> gworld" where
  "reconcileGenerationCompletion sha claimed w0 =
     (case generationChunkByIdentity sha (gc_identity claimed) (w0\<lparr>gw_done := False\<rparr>) of
        (Inl e, w) \<Rightarrow> (Inl e, w)
      | (Inr x, w) \<Rightarrow>
          if \<not> same_claim claimed x then (Inl ErrGenerationLeaseLost, w)
          else if gc_status x = GenerationChunkDone
          then if gc_claimed_by x \<noteq> gc_claimed_by claimed then (Inl ErrGenerationLeaseLost, w)
               else (case get_schedule_call sha (gc_repository claimed) (gc_stage claimed) w of
                  (Inl e, w1) \<Rightarrow> (Inl e, w1)
                | (Inr s, w1) \<Rightarrow> if gs_digest s \<noteq> gc_digest claimed \<or> gs_generation s \<noteq> gc_generation claimed
                    then (Inl ErrGenerationStale, w1) else (Inr True, w1))
          else if gc_status x = GenerationChunkCanceled then (Inl ErrGenerationStale, w)
          else if gc_status x = GenerationChunkRunning
          then if gc_lease x \<noteq> gc_lease claimed \<or> gc_claimed_by x \<noteq> gc_claimed_by claimed
               then (Inl ErrGenerationLeaseLost, w) else (Inr False, w)
          else (Inl ErrGenerationLeaseLost, w))"

text \<open>What an ambiguous completion returns; \<open>err\<close> is the error when reconciliation settles nothing.\<close>

definition complete_reconciled :: "hasher \<Rightarrow> gchunk \<Rightarrow> serr \<Rightarrow> gworld \<Rightarrow> serr option \<times> gworld" where
  "complete_reconciled sha c err w =
     (case reconcileGenerationCompletion sha c w of
        (Inr True, w1) \<Rightarrow> (None, w1)
      | (Inr False, w1) \<Rightarrow> (Some err, w1)
      | (Inl e, w1) \<Rightarrow> if errors_Is e ErrGenerationStale \<or> errors_Is e ErrGenerationLeaseLost then (Some e, w1) else (Some err, w1))"

definition CompleteGenerationChunk :: "hasher \<Rightarrow> liveness \<Rightarrow> gchunk \<Rightarrow> gworld \<Rightarrow> serr option \<times> gworld" where
  "CompleteGenerationChunk sha live c w =
     (case validGenerationChunkLease c of
        Some e \<Rightarrow> (Some e, w)
      | None \<Rightarrow>
          (case queryGenerationSchedule sha (\<lambda>now. completeGenerationChunkSQL sha now live c) w of
             (Inl e, w1) \<Rightarrow> complete_reconciled sha c (ErrWrap ''complete generation chunk: '' e) w1
           | (Inr t, w1) \<Rightarrow>
               if \<not> tr_owned t then complete_reconciled sha c ErrGenerationLeaseLost w1
               else if \<not> tr_current t then (Some ErrGenerationStale, w1)
               else (None, w1)))"

section \<open>Retry\<close>

definition reconcileGenerationExhaustion :: "hasher \<Rightarrow> gchunk \<Rightarrow> int \<Rightarrow> gostring \<Rightarrow> gworld \<Rightarrow> bool \<times> gworld" where
  "reconcileGenerationExhaustion sha claimed max_attempts errMessage w =
     (if gc_attempt claimed + 1 < max_attempts then (False, w)
      else case generationChunkByIdentity sha (gc_identity claimed) (w\<lparr>gw_done := False\<rparr>) of
        (Inl e, w1) \<Rightarrow> (False, w1)
      | (Inr x, w1) \<Rightarrow> (same_claim claimed x \<and> gc_claimed_by x = gc_claimed_by claimed \<and> gc_status x = GenerationChunkFailed \<and>
          gc_error x = boundedGenerationError errMessage, w1))"

definition retry_reconciled :: "hasher \<Rightarrow> gchunk \<Rightarrow> int \<Rightarrow> gostring \<Rightarrow> serr \<Rightarrow> gworld \<Rightarrow> (serr + gchunk) \<times> gworld" where
  "retry_reconciled sha c max_attempts errMessage err w =
     (case reconcileGenerationExhaustion sha c max_attempts errMessage w of
        (exhausted, w1) \<Rightarrow> (Inl (if exhausted then ErrGenerationExhausted else err), w1))"

text \<open>\<open>fresh\<close> draws the record identifier of a created row; times are counted from Go's zero time.\<close>

definition RetryGenerationChunk ::
  "hasher \<Rightarrow> liveness \<Rightarrow> (gdata \<Rightarrow> gostring) \<Rightarrow> gchunk \<Rightarrow> gostring \<Rightarrow> int \<Rightarrow> gworld \<Rightarrow> (serr + gchunk) \<times> gworld" where
  "RetryGenerationChunk sha live fresh c errMessage notBefore w =
     (case validGenerationChunkLease c of
        Some e \<Rightarrow> (Inl e, w)
      | None \<Rightarrow>
          if notBefore = 0 then (Inl (ErrNew ''retry generation chunk: not-before is required''), w)
          else case generationScheduleByDigest sha (gc_digest c) w of
            (Inl e, w1) \<Rightarrow> (Inl e, w1)
          | (Inr s, w1) \<Rightarrow>
              if gs_max_attempts s < 1 \<or> gs_max_attempts s > MaxGenerationAttempts \<or> gc_attempt c < 0 \<or> gc_attempt c \<ge> gs_max_attempts s
              then (Inl (ErrNew ''retry generation chunk: invalid attempt bounds''), w1)
              else case queryGenerationSchedule sha (\<lambda>now d. retryGenerationChunkSQL sha now live (fresh d) (gs_max_attempts s) c
                  (boundedGenerationError errMessage) notBefore d) w1 of
                (Inl e, w2) \<Rightarrow> retry_reconciled sha c (gs_max_attempts s) errMessage (ErrWrap ''retry generation chunk: '' e) w2
              | (Inr t, w2) \<Rightarrow>
                  if \<not> tr_owned t then retry_reconciled sha c (gs_max_attempts s) errMessage ErrGenerationLeaseLost w2
                  else if \<not> tr_current t then (Inl ErrGenerationStale, w2)
                  else if tr_exhausted t then (Inl ErrGenerationExhausted, w2)
                  else generationChunkByIdentity sha (generationChunkID sha (gc_digest c) (gc_offset c) (gc_attempt c + 1)) w2)"

section \<open>Settled chunks stay settled\<close>

definition settled_chunk :: "gchunk \<Rightarrow> bool" where
  "settled_chunk x \<longleftrightarrow> gc_status x = GenerationChunkDone \<or> gc_status x = GenerationChunkFailed"

fun collects :: "gop \<Rightarrow> bool" where
  "collects (OpCollect plan e retained limit ids) \<longleftrightarrow> True"
| "collects _ \<longleftrightarrow> False"

lemma end_lease_chunks: "gd_chunks (end_lease sha now c fc fs d) = map (\<lambda>y. if gc_id y = gc_id c then fc y else y) (gd_chunks d)"
  by (simp add: end_lease_def upd_repo_def upd_sched_def upd_chunk_def)

lemma end_lease_schedules:
  "gd_schedules (end_lease sha now c fc fs d) = map (\<lambda>s. if gs_digest s = gc_digest c then fs s else s) (gd_schedules d)"
  by (simp add: end_lease_def upd_repo_def upd_sched_def upd_chunk_def)

lemma kept_map: "x \<in> set xs \<Longrightarrow> h x = x \<Longrightarrow> x \<in> set (map h xs)"
  by force

lemma kept_end_lease:
  assumes "keys_ok d" "x \<in> set (gd_chunks d)" "settled_chunk x"
    and r: "r \<in> set (gd_chunks d)" "gc_id r = gc_id c" "gc_status r = GenerationChunkRunning"
  shows "x \<in> set (gd_chunks (end_lease sha now c fc fs d))"
proof -
  have "x \<noteq> r" using assms(3) r(3) by (auto simp: settled_chunk_def)
  then have "gc_id x \<noteq> gc_id c" using chunk_eq [OF assms(1,2) r(1)] r(2) by metis
  then show ?thesis unfolding end_lease_chunks by (intro kept_map assms(2)) simp
qed

lemma owned_running: "owned c d \<Longrightarrow> \<exists>r \<in> set (gd_chunks d). gc_id r = gc_id c \<and> gc_status r = GenerationChunkRunning"
  by (auto simp: owned_def list_ex_iff chunk_lease_row_def)

lemma kept_owned: "keys_ok d \<Longrightarrow> x \<in> set (gd_chunks d) \<Longrightarrow> settled_chunk x \<Longrightarrow> owned c d \<Longrightarrow> x \<in> set (gd_chunks (end_lease sha now c fc fs d))"
  using owned_running [of c d] kept_end_lease [of d x] by blast

lemma kept_retry:
  assumes "keys_ok d" "x \<in> set (gd_chunks d)" "settled_chunk x"
  shows "x \<in> set (gd_chunks (snd (retryGenerationChunkSQL sha now live i m c err nb d)))"
proof -
  have k: "x \<in> set (gd_chunks (end_lease sha now c fc fs d))" if "owned c d" for fc fs by (rule kept_owned [OF assms that])
  have "x \<in> set (gd_chunks d1)" if "create_chunk z (end_lease sha now c fc fs d) = Inr d1" "owned c d" for z fc fs d1
    using that k unfolding create_chunk_Inr by auto
  then show ?thesis using k assms(2)
    by (auto simp: retryGenerationChunkSQL_def Let_def split: option.splits sum.splits)
qed

lemma kept_claim:
  assumes "x \<in> set (gd_chunks d)" "settled_chunk x"
  shows "x \<in> set (gd_chunks (snd (claimGenerationChunkSQL sha now fence plan e worker lease chunk d)))"
proof -
  have "gc_status x \<noteq> GenerationChunkPending" using assms(2) by (auto simp: settled_chunk_def)
  then have "x \<in> set (gd_chunks (upd_chunk chunk (\<lambda>c. if gc_status c = GenerationChunkPending then claim_chunk now worker lease c else c) d))"
    using assms(1) by (force simp: upd_chunk_def)
  then show ?thesis using assms(1)
    by (auto simp: claimGenerationChunkSQL_def Let_def upd_repo_def upd_sched_def split: option.splits)
qed

lemma kept_reap:
  assumes "keys_ok d" "x \<in> set (gd_chunks d)" "settled_chunk x"
  shows "x \<in> set (gd_chunks (snd (reapGenerationChunkSQL sha now c cutoff d)))"
proof (cases "list_ex (stale_row c cutoff) (gd_chunks d)")
  case True
  then obtain r where "r \<in> set (gd_chunks d)" "gc_id r = gc_id c" "gc_status r = GenerationChunkRunning"
    by (auto simp: list_ex_iff stale_row_def)
  then show ?thesis using kept_end_lease [OF assms] True by (simp add: reapGenerationChunkSQL_def Let_def)
qed (use assms(2) in \<open>simp add: reapGenerationChunkSQL_def Let_def\<close>)

lemma chunks_enqueue: "keys_ok d \<Longrightarrow> gd_chunks (snd (enqueueGenerationScheduleSQL sha now fence p observed d)) = gd_chunks d"
  using enqueue_result [of d sha now fence p observed] by (auto simp: point_at_def)

lemma chunks_expand: "x \<in> set (gd_chunks d) \<Longrightarrow> x \<in> set (gd_chunks (snd (expandGenerationScheduleSQL sha now fence ids e d)))"
  by (auto simp: expandGenerationScheduleSQL_def Let_def upd_sched_def dest!: create_chunks_Inr(1) split: sum.splits)

lemma chunks_schedule_ops:
  "gd_chunks (snd (retireCurrentSQL sha now e d)) = gd_chunks d" "gd_chunks (snd (forgetRepositorySQL now name stages d)) = gd_chunks d"
  "gd_chunks (snd (diagnosticFenceSQL sha now c d)) = gd_chunks d"
  by (auto simp: retireCurrentSQL_def forgetRepositorySQL_def diagnosticFenceSQL_def Let_def upd_sched_def)

lemma kept_heartbeat: "x \<in> set (gd_chunks d) \<Longrightarrow> settled_chunk x \<Longrightarrow> x \<in> set (gd_chunks (snd (heartbeatSQL now live c d)))"
  by (auto simp: heartbeatSQL_def upd_chunk_def settled_chunk_def chunk_lease_row_def image_iff split: option.splits)

lemma kept_lease_ops:
  assumes "keys_ok d" "x \<in> set (gd_chunks d)" "settled_chunk x"
  shows "x \<in> set (gd_chunks (snd (completeGenerationChunkSQL sha now live c d)))"
    "x \<in> set (gd_chunks (snd (failGenerationChunkSQL sha now live c err d)))"
    "x \<in> set (gd_chunks (snd (deferGenerationChunkSQL sha now live c reason nb d)))"
  using kept_owned [OF assms] assms(2)
  by (simp_all add: completeGenerationChunkSQL_def failGenerationChunkSQL_def deferGenerationChunkSQL_def Let_def split: option.splits)

lemma settled_kept:
  assumes "keys_ok d" "x \<in> set (gd_chunks d)" "settled_chunk x" "\<not> collects op"
  shows "x \<in> set (gd_chunks (run_gop sha now op d))"
  using assms kept_retry kept_claim kept_reap chunks_expand kept_heartbeat kept_lease_ops
  by (cases op) (simp_all add: chunks_enqueue chunks_schedule_ops releaseGenerationChunkSQL_def beginTypedIndexRetirementSQL_def)

section \<open>Schedules keep what identifies them\<close>

lemma static_map: "s \<in> set ss \<Longrightarrow> (\<And>t. same_static (f t) t) \<Longrightarrow> \<exists>t \<in> set (map f ss). same_static t s"
  by auto

lemma static_refl: "s \<in> set ss \<Longrightarrow> \<exists>t \<in> set ss. same_static t s"
  by (auto intro: bexI [of _ s])

lemma static_upd: "s \<in> set (gd_schedules d) \<Longrightarrow> (\<And>t. same_static (f t) t) \<Longrightarrow> \<exists>t \<in> set (gd_schedules (upd_sched g f d)). same_static t s"
proof -
  assume "s \<in> set (gd_schedules d)" and f: "\<And>t. same_static (f t) t"
  then have "\<exists>t \<in> set (map (\<lambda>s. if gs_digest s = g then f s else s) (gd_schedules d)). same_static t s"
    by (intro static_map) (auto simp: f)
  then show ?thesis by (simp add: upd_sched_def)
qed

lemma static_end_lease:
  "s \<in> set (gd_schedules d) \<Longrightarrow> (\<And>t. same_static (fs t) t) \<Longrightarrow> \<exists>t \<in> set (gd_schedules (end_lease sha now c fc fs d)). same_static t s"
  unfolding end_lease_schedules by (rule static_map, auto)

lemma same_static_ops [simp]:
  "same_static (complete_sched cur now s) s" "same_static (fail_sched cur now s) s" "same_static (requeue_sched cur now s) s"
  "same_static (retry_sched now s) s" "same_static (claim_sched now s) s" "same_static (supersede_prior sha now p d s) s"
  by (simp_all add: same_static_def complete_sched_def fail_sched_def requeue_sched_def retry_sched_def claim_sched_def
      supersede_prior_def superseded_by_def spec_of_def)

lemma static_kept_leases:
  assumes "s \<in> set (gd_schedules d)"
  shows "\<exists>t \<in> set (gd_schedules (snd (completeGenerationChunkSQL sha now live c d))). same_static t s"
    "\<exists>t \<in> set (gd_schedules (snd (failGenerationChunkSQL sha now live c err d))). same_static t s"
    "\<exists>t \<in> set (gd_schedules (snd (deferGenerationChunkSQL sha now live c reason nb d))). same_static t s"
    "\<exists>t \<in> set (gd_schedules (snd (reapGenerationChunkSQL sha now c cutoff d))). same_static t s"
    "\<exists>t \<in> set (gd_schedules (snd (heartbeatSQL now live c d))). same_static t s"
  using assms by (auto simp: completeGenerationChunkSQL_def failGenerationChunkSQL_def deferGenerationChunkSQL_def reapGenerationChunkSQL_def
      heartbeatSQL_def upd_chunk_def Let_def split: option.splits intro: static_end_lease static_refl)

lemma static_kept_retry:
  assumes "s \<in> set (gd_schedules d)"
  shows "\<exists>t \<in> set (gd_schedules (snd (retryGenerationChunkSQL sha now live i m c err nb d))). same_static t s"
proof -
  have k: "\<exists>t \<in> set (gd_schedules (end_lease sha now c fc fs d)). same_static t s" if "\<And>t. same_static (fs t) t" for fc fs
    using assms that by (rule static_end_lease)
  have "\<exists>t \<in> set (gd_schedules d1). same_static t s"
    if "create_chunk z (end_lease sha now c fc (retry_sched now) d) = Inr d1" for z fc d1
    using that k [of "retry_sched now"] unfolding create_chunk_Inr by auto
  then show ?thesis using k static_refl [OF assms]
    by (auto simp: retryGenerationChunkSQL_def Let_def split: option.splits sum.splits)
qed

lemma static_kept_schedules:
  assumes "s \<in> set (gd_schedules d)"
  shows "keys_ok d \<Longrightarrow> \<exists>t \<in> set (gd_schedules (snd (enqueueGenerationScheduleSQL sha now fence p observed d))). same_static t s"
    "\<exists>t \<in> set (gd_schedules (snd (retireCurrentSQL sha now e d))). same_static t s"
    "\<exists>t \<in> set (gd_schedules (snd (forgetRepositorySQL now name stages d))). same_static t s"
    "\<exists>t \<in> set (gd_schedules (snd (diagnosticFenceSQL sha now c d))). same_static t s"
    "\<exists>t \<in> set (gd_schedules (snd (expandGenerationScheduleSQL sha now fence ids e d))). same_static t s"
    "\<exists>t \<in> set (gd_schedules (snd (claimGenerationChunkSQL sha now fence plan e worker lease chunk d))). same_static t s"
proof -
  have m: "\<exists>t \<in> set (map f (gd_schedules d)). same_static t s" if "\<And>t. same_static (f t) t" for f
    using assms that by (rule static_map)
  have u: "\<exists>t \<in> set (gd_schedules (upd_sched g f d)). same_static t s" if "\<And>t. same_static (f t) t" for g f
    using assms that by (rule static_upd)
  note r = static_refl [OF assms]
  show "\<exists>t \<in> set (gd_schedules (snd (enqueueGenerationScheduleSQL sha now fence p observed d))). same_static t s" if "keys_ok d"
    using enqueue_result [OF that, of sha now fence p observed] r m [of "supersede_prior sha now p d"] by (auto simp: point_at_def)
  show "\<exists>t \<in> set (gd_schedules (snd (retireCurrentSQL sha now e d))). same_static t s"
    using r u [of "\<lambda>s. if gs_status s = GenerationScheduleActive then superseded_by now s else s" "gs_digest e"]
    by (auto simp: retireCurrentSQL_def Let_def)
  show "\<exists>t \<in> set (gd_schedules (snd (forgetRepositorySQL now name stages d))). same_static t s"
    using m [of "\<lambda>s. if gs_repository s = name \<and> gs_status s = GenerationScheduleActive \<and> gs_stage s \<in> set stages
      then superseded_by now s else s"] by (simp add: forgetRepositorySQL_def)
  show "\<exists>t \<in> set (gd_schedules (snd (diagnosticFenceSQL sha now c d))). same_static t s"
    using r u [of "superseded_by now"] by (auto simp: diagnosticFenceSQL_def Let_def)
  have e: "\<exists>t \<in> set (gd_schedules (upd_sched g f d1)). same_static t s"
    if "gd_schedules d1 = gd_schedules d" "\<And>t. same_static (f t) t" for d1 g f
    using u [OF that(2)] that(1) by (simp add: upd_sched_def)
  have x: "same_static (t\<lparr>gs_next := a, gs_materialized := gs_materialized t + b, gs_pending := gs_pending t + b, gs_updated := now\<rparr>) t" for t a b
    by (simp add: same_static_def spec_of_def)
  show "\<exists>t \<in> set (gd_schedules (snd (expandGenerationScheduleSQL sha now fence ids e d))). same_static t s"
    using r by (auto simp: expandGenerationScheduleSQL_def Let_def dest!: create_chunks_Inr(1) split: sum.splits intro!: e x)
  show "\<exists>t \<in> set (gd_schedules (snd (claimGenerationChunkSQL sha now fence plan e worker lease chunk d))). same_static t s"
    using r by (auto simp: claimGenerationChunkSQL_def Let_def upd_repo_def upd_chunk_def split: option.splits intro!: e)
qed

lemma static_kept_fences:
  assumes "s \<in> set (gd_schedules d)"
  shows "\<exists>t \<in> set (gd_schedules (snd (fenceServiceStateV3CandidateAdvance sha now plans repository prior upcoming d))). same_static t s"
    "\<exists>t \<in> set (gd_schedules (snd (beginTypedIndexRetirementSQL sha now observed root repository d))). same_static t s"
proof -
  show "\<exists>t \<in> set (gd_schedules (snd (fenceServiceStateV3CandidateAdvance sha now plans repository prior upcoming d))). same_static t s"
    using static_refl [OF assms] static_upd [OF assms, of "fence_sched now"]
    by (rule_tac fence_cases [of sha now plans repository prior upcoming d]) simp_all
  show "\<exists>t \<in> set (gd_schedules (snd (beginTypedIndexRetirementSQL sha now observed root repository d))). same_static t s"
    using static_refl [OF assms] static_kept_schedules(2) [OF assms] by (simp add: beginTypedIndexRetirementSQL_def)
qed

lemma static_kept:
  assumes "keys_ok d" "s \<in> set (gd_schedules d)" "\<not> collects op"
  shows "\<exists>t \<in> set (gd_schedules (run_gop sha now op d)). same_static t s"
  using assms static_kept_schedules [OF assms(2)] static_kept_retry [OF assms(2)] static_kept_leases [OF assms(2)] static_kept_fences [OF assms(2)]
  by (cases op) (simp_all add: releaseGenerationChunkSQL_def)

section \<open>Runs of a method\<close>

definition gworld_ok :: "hasher \<Rightarrow> gworld \<Rightarrow> bool" where
  "gworld_ok sha w \<longleftrightarrow> gen_inv sha (gw_now w) (gw_data w) \<and> 0 < gw_now w \<and>
     list_all (\<lambda>ev. list_all (\<lambda>(n, t). \<not> collects t) (ge_others ev)) (gw_script w)"

definition tables_keep :: "gdata \<Rightarrow> gdata \<Rightarrow> bool" where
  "tables_keep d d' \<longleftrightarrow> (\<forall>x \<in> set (gd_chunks d). settled_chunk x \<longrightarrow> x \<in> set (gd_chunks d')) \<and>
     (\<forall>s \<in> set (gd_schedules d). \<exists>t \<in> set (gd_schedules d'). same_static t s)"

lemma same_static_trans: "same_static a b \<Longrightarrow> same_static b c \<Longrightarrow> same_static a c"
  by (simp add: same_static_def)

lemma tables_keep_refl [simp]: "tables_keep d d"
  by (auto simp: tables_keep_def intro: static_refl)

lemma tables_keep_trans: "tables_keep a b \<Longrightarrow> tables_keep b c \<Longrightarrow> tables_keep a c"
  unfolding tables_keep_def by (meson same_static_trans)

lemma tables_keep_run: "keys_ok d \<Longrightarrow> \<not> collects op \<Longrightarrow> tables_keep d (run_gop sha now op d)"
  by (simp add: tables_keep_def settled_kept static_kept)

lemma run_gops_inv:
  assumes "gen_inv sha clock d" "0 < clock" "list_all (\<lambda>(n, t). \<not> collects t) ts"
  shows "gen_inv sha (fst (run_gops sha clock ts d)) (snd (run_gops sha clock ts d)) \<and> clock \<le> fst (run_gops sha clock ts d) \<and>
    tables_keep d (snd (run_gops sha clock ts d))"
  using assms
proof (induction ts arbitrary: clock d)
  case (Cons a ts)
  obtain n t where a: "a = (n, t)" by (cases a)
  show ?case
  proof (cases "gop_ok sha d t")
    case True
    have "gen_inv sha (max clock n) (run_gop sha (max clock n) t d)"
      by (rule inv_run [OF Cons.prems(1,2) _ True]) simp
    moreover have "tables_keep d (run_gop sha (max clock n) t d)"
      by (rule tables_keep_run [OF gen_invD(1) [OF Cons.prems(1)]]) (use Cons.prems(3) a in simp)
    ultimately show ?thesis
      using Cons.IH [of "max clock n" "run_gop sha (max clock n) t d"] Cons.prems(2,3) True a
      by (auto intro: tables_keep_trans)
  next
    case False
    then show ?thesis using Cons.IH [OF Cons.prems(1,2)] Cons.prems(3) a by simp
  qed
qed simp

text \<open>A call keeps the world when its own transaction does, and what it answers is what its transaction
  answered on the state it then committed.\<close>

definition tables_stable :: "(gdata \<Rightarrow> bool) \<Rightarrow> bool" where
  "tables_stable P \<longleftrightarrow> (\<forall>d d'. P d \<longrightarrow> tables_keep d d' \<longrightarrow> keys_ok d' \<longrightarrow> P d')"

definition safe_txn :: "hasher \<Rightarrow> (gdata \<Rightarrow> bool) \<Rightarrow> (int \<Rightarrow> gdata \<Rightarrow> (serr + 'a) \<times> gdata) \<Rightarrow> bool" where
  "safe_txn sha P f \<longleftrightarrow> (\<forall>now d. gen_inv sha now d \<longrightarrow> 0 < now \<longrightarrow> P d \<longrightarrow> gen_inv sha now (snd (f now d)) \<and> tables_keep d (snd (f now d)))"

lemma gen_call_safe:
  assumes w: "gworld_ok sha w" and f: "safe_txn sha P f" and P: "P (gw_data w)" "tables_stable P"
    and run: "gen_call sha f w = (r, w')"
  shows "gworld_ok sha w'" "tables_keep (gw_data w) (gw_data w')"
    "r = Inr v \<Longrightarrow> \<exists>now d. gen_inv sha now d \<and> tables_keep (gw_data w) d \<and> P d \<and> f now d = (Inr v, gw_data w')"
proof -
  have inv: "gen_inv sha (gw_now w) (gw_data w)" "0 < gw_now w" using w by (simp_all add: gworld_ok_def)
  have "gworld_ok sha w' \<and> tables_keep (gw_data w) (gw_data w') \<and>
      (r = Inr v \<longrightarrow> (\<exists>now d. gen_inv sha now d \<and> tables_keep (gw_data w) d \<and> P d \<and> f now d = (Inr v, gw_data w')))"
  proof (cases "gw_script w")
    case Nil
    obtain d where d: "f (gw_now w) (gw_data w) = (r, d)" "w' = w\<lparr>gw_data := d\<rparr>"
      using run Nil by (auto simp: gen_call_def split: prod.splits)
    have "gen_inv sha (gw_now w) d \<and> tables_keep (gw_data w) d" using f inv P(1) d(1) unfolding safe_txn_def by (metis snd_conv)
    then show ?thesis using d inv w P(1) Nil by (auto simp: gworld_ok_def intro!: exI [of _ "gw_now w"] exI [of _ "gw_data w"])
  next
    case (Cons ev rest)
    let ?c = "max (gw_now w) (ge_now ev)"
    obtain now d1 where g: "run_gops sha ?c (ge_others ev) (gw_data w) = (now, d1)" by (cases "run_gops sha ?c (ge_others ev) (gw_data w)")
    have "gen_inv sha ?c (gw_data w)" by (rule inv_later [OF inv(1)]) simp
    then have d1: "gen_inv sha now d1" "?c \<le> now" "tables_keep (gw_data w) d1"
      using run_gops_inv [of sha ?c "gw_data w" "ge_others ev"] inv(2) w Cons g by (auto simp: gworld_ok_def)
    then have now: "0 < now" using inv(2) by simp
    have P1: "P d1" using P d1(3) gen_invD(1) [OF d1(1)] unfolding tables_stable_def by blast
    have fd: "gen_inv sha now (snd (f now d1)) \<and> tables_keep d1 (snd (f now d1))" using f d1(1) now P1 unfolding safe_txn_def by blast
    have "gw_now w' = now \<and> gw_script w' = rest \<and> (gw_data w' = d1 \<and> (\<exists>e. r = Inl e) \<or> gw_data w' = snd (f now d1) \<and> (r = fst (f now d1) \<or> (\<exists>e. r = Inl e)))"
      using run Cons g by (auto simp: gen_call_def Let_def split: qfault.splits prod.splits)
    then show ?thesis using d1 fd now w Cons P1 tables_keep_trans [OF d1(3)]
      by (auto simp: gworld_ok_def prod_eq_iff intro!: exI [of _ now] exI [of _ d1])
  qed
  then show "gworld_ok sha w'" "tables_keep (gw_data w) (gw_data w')"
    "r = Inr v \<Longrightarrow> \<exists>now d. gen_inv sha now d \<and> tables_keep (gw_data w) d \<and> P d \<and> f now d = (Inr v, gw_data w')" by blast+
qed

lemma query_loop_safe:
  assumes w: "gworld_ok sha w" and f: "safe_txn sha P f" and P: "P (gw_data w)" "tables_stable P"
    and run: "query_loop n (gen_call sha f) w = (r, w')"
  shows "gworld_ok sha w' \<and> tables_keep (gw_data w) (gw_data w') \<and>
    (\<forall>v. r = Inr v \<longrightarrow> (\<exists>now d. gen_inv sha now d \<and> tables_keep (gw_data w) d \<and> P d \<and> f now d = (Inr v, gw_data w')))"
  using w P(1) run
proof (induction n arbitrary: w)
  case 0
  then have c: "gen_call sha f w = (r, w')" by simp
  show ?case using gen_call_safe [OF 0(1) f 0(2) P(2) c] by blast
next
  case (Suc n)
  obtain r1 w1 where c: "gen_call sha f w = (r1, w1)" by (cases "gen_call sha f w")
  note s = gen_call_safe [OF Suc.prems(1) f Suc.prems(2) P(2) c]
  show ?case
  proof (cases "(r1, w1) = (r, w')")
    case True
    then show ?thesis using s by auto
  next
    case False
    then have "query_loop n (gen_call sha f) w1 = (r, w')"
      using Suc.prems(3) c by (auto split: sum.splits if_splits)
    moreover have "P (gw_data w1)"
      using P(2) Suc.prems(2) s(1,2) gen_invD(1) unfolding tables_stable_def gworld_ok_def by blast
    ultimately have "gworld_ok sha w' \<and> tables_keep (gw_data w1) (gw_data w') \<and>
      (\<forall>v. r = Inr v \<longrightarrow> (\<exists>now d. gen_inv sha now d \<and> tables_keep (gw_data w1) d \<and> P d \<and> f now d = (Inr v, gw_data w')))"
      using Suc.IH [OF s(1)] by blast
    then show ?thesis using tables_keep_trans [OF s(2)] by blast
  qed
qed

lemmas query_safe = query_loop_safe [where n = "maxQueueRetries - 1", folded queryGenerationSchedule_def]

section \<open>What the methods report\<close>

lemma typed_read: "tables_stable (\<lambda>d. True)"
  by (simp add: tables_stable_def)

lemma safe_read: "safe_txn sha P (read_call f)"
  by (simp add: safe_txn_def read_call_def)

lemma safe_complete: "safe_txn sha P (\<lambda>now. completeGenerationChunkSQL sha now live c)"
  unfolding safe_txn_def
proof (intro allI impI)
  fix now d assume inv: "gen_inv sha now d"
  show "gen_inv sha now (snd (completeGenerationChunkSQL sha now live c d)) \<and> tables_keep d (snd (completeGenerationChunkSQL sha now live c d))"
    using inv_complete [OF inv] tables_keep_run [OF gen_invD(1) [OF inv], of "OpComplete live c" sha now] by simp
qed

definition attempts_known :: "gchunk \<Rightarrow> int \<Rightarrow> gdata \<Rightarrow> bool" where
  "attempts_known c m d \<longleftrightarrow> keys_ok d \<and> (\<exists>s \<in> set (gd_schedules d). gs_digest s = gc_digest c \<and> gs_max_attempts s = m)"

lemma attempts_stable: "tables_stable (attempts_known c m)"
  unfolding tables_stable_def
proof (intro allI impI)
  fix d d' assume a: "attempts_known c m d" and k: "tables_keep d d'" and keys: "keys_ok d'"
  obtain s where s: "s \<in> set (gd_schedules d)" "gs_digest s = gc_digest c" "gs_max_attempts s = m" using a by (auto simp: attempts_known_def)
  obtain t where t: "t \<in> set (gd_schedules d')" "same_static t s" using k s(1) unfolding tables_keep_def by blast
  then show "attempts_known c m d'" using keys s(2,3) same_staticD(1,8) [OF t(2)] by (auto simp: attempts_known_def)
qed

lemma safe_retry:
  assumes "\<And>d. fresh d \<notin> gc_id ` set (gd_chunks d)"
  shows "safe_txn sha (attempts_known c m) (\<lambda>now d. retryGenerationChunkSQL sha now live (fresh d) m c err nb d)"
  unfolding safe_txn_def
proof (intro allI impI)
  fix now d assume inv: "gen_inv sha now d" and a: "attempts_known c m d"
  obtain t where t: "t \<in> set (gd_schedules d)" "gs_digest t = gc_digest c" "gs_max_attempts t = m"
    using a unfolding attempts_known_def by blast
  have "gs_max_attempts s = m" if "s \<in> set (gd_schedules d)" "gs_digest s = gc_digest c" for s
    using schedule_eq [OF gen_invD(1) [OF inv] that(1) t(1)] that(2) t(2,3) by simp
  then have "gen_inv sha now (snd (retryGenerationChunkSQL sha now live (fresh d) m c err nb d))"
    by (intro inv_retry [OF inv]) (simp_all add: assms)
  then show "gen_inv sha now (snd (retryGenerationChunkSQL sha now live (fresh d) m c err nb d)) \<and>
      tables_keep d (snd (retryGenerationChunkSQL sha now live (fresh d) m c err nb d))"
    using tables_keep_run [OF gen_invD(1) [OF inv], of "OpRetry live (fresh d) m c err nb" sha now] by simp
qed

text \<open>The worker's claim \<open>c\<close> ended with status \<open>st\<close>.\<close>

definition ended :: "gchunk \<Rightarrow> gostring \<Rightarrow> gdata \<Rightarrow> bool" where
  "ended c st d \<longleftrightarrow> (\<exists>x \<in> set (gd_chunks d). same_claim c x \<and> gc_status x = st \<and> gc_claimed_by x = gc_claimed_by c)"

lemma ended_stable:
  assumes "st = GenerationChunkDone \<or> st = GenerationChunkFailed" "ended c st d" "tables_keep d d'"
  shows "ended c st d'"
proof -
  obtain x where x: "x \<in> set (gd_chunks d)" "same_claim c x" "gc_status x = st" "gc_claimed_by x = gc_claimed_by c"
    using assms(2) unfolding ended_def by blast
  then have "x \<in> set (gd_chunks d')" using assms(1,3) by (auto simp: tables_keep_def settled_chunk_def)
  then show ?thesis using x unfolding ended_def by blast
qed

lemma ended_settle:
  assumes own: "owned c d" and fc: "\<And>x. fc x = (settle_chunk st True now x)\<lparr>gc_error := e x\<rparr>"
  shows "ended c st (end_lease sha now c fc fs d)"
proof -
  obtain r where r: "r \<in> set (gd_chunks d)" "chunk_lease_row c r" using own by (auto simp: owned_def list_ex_iff)
  then have "gc_id r = gc_id c" by (simp add: chunk_lease_row_def)
  then have "fc r \<in> set (gd_chunks (end_lease sha now c fc fs d))"
    unfolding end_lease_chunks set_map using r(1) by (intro image_eqI [of _ _ r]) simp_all
  moreover have "same_claim c (fc r)" "gc_status (fc r) = st" "gc_claimed_by (fc r) = gc_claimed_by c"
    using r(2) by (simp_all add: fc same_claim_def settle_chunk_def chunk_lease_row_def generationLeaseScope_def)
  ultimately show ?thesis unfolding ended_def by blast
qed

lemma chunk_by_identity:
  assumes w: "gworld_ok sha w" and run: "generationChunkByIdentity sha i w = (r, w')"
  shows "gworld_ok sha w'" "tables_keep (gw_data w) (gw_data w')" "r = Inr x \<Longrightarrow> x \<in> set (gd_chunks (gw_data w'))"
proof -
  obtain q where q: "queryGenerationSchedule sha (read_call (\<lambda>d. find (\<lambda>c. gc_identity c = i) (gd_chunks d))) w = (q, w')"
    using run by (auto simp: generationChunkByIdentity_def split: prod.splits sum.splits option.splits)
  note s = query_safe [OF w safe_read _ typed_read q, simplified]
  show "gworld_ok sha w'" "tables_keep (gw_data w) (gw_data w')" using s by blast+
  show "x \<in> set (gd_chunks (gw_data w'))" if "r = Inr x"
  proof -
    have "q = Inr (Some x)" using run q that by (auto simp: generationChunkByIdentity_def split: sum.splits option.splits)
    then obtain now d where "read_call (\<lambda>d. find (\<lambda>c. gc_identity c = i) (gd_chunks d)) now d = (Inr (Some x), gw_data w')"
      using s by blast
    then show ?thesis by (auto simp: read_call_def find_Some_iff)
  qed
qed

lemma gworld_ok_alive: "gworld_ok sha w \<Longrightarrow> gworld_ok sha (w\<lparr>gw_done := b\<rparr>)"
  by (simp add: gworld_ok_def)

lemma completion_reconciled:
  assumes w: "gworld_ok sha w" and run: "reconcileGenerationCompletion sha c w = (Inr True, w')"
  shows "ended c GenerationChunkDone (gw_data w')"
proof -
  obtain x w1 where x: "generationChunkByIdentity sha (gc_identity c) (w\<lparr>gw_done := False\<rparr>) = (Inr x, w1)"
    using run by (auto simp: reconcileGenerationCompletion_def split: prod.splits sum.splits)
  note cx = chunk_by_identity [OF gworld_ok_alive [OF w] x]
  have st: "same_claim c x" "gc_status x = GenerationChunkDone" "gc_claimed_by x = gc_claimed_by c"
    using run x by (auto simp: reconcileGenerationCompletion_def split: if_splits)
  have e: "ended c GenerationChunkDone (gw_data w1)" using cx(3) st unfolding ended_def by blast
  obtain s where g: "get_schedule_call sha (gc_repository c) (gc_stage c) w1 = (Inr s, w')"
    using run x st by (auto simp: reconcileGenerationCompletion_def split: prod.splits sum.splits if_splits)
  obtain q where q: "queryGenerationSchedule sha (read_call (GetGenerationSchedule sha (gc_repository c) (gc_stage c))) w1 = (q, w')"
    using g by (auto simp: get_schedule_call_def split: if_splits prod.splits sum.splits)
  have "tables_keep (gw_data w1) (gw_data w')" using query_safe [OF cx(1) safe_read _ typed_read q] by blast
  then show ?thesis using ended_stable [OF _ e] by blast
qed

lemma complete_reported:
  assumes w: "gworld_ok sha w" and run: "CompleteGenerationChunk sha live c w = (None, w')"
  shows "ended c GenerationChunkDone (gw_data w')"
proof -
  obtain q w1 where q: "queryGenerationSchedule sha (\<lambda>now. completeGenerationChunkSQL sha now live c) w = (q, w1)"
    by (cases "queryGenerationSchedule sha (\<lambda>now. completeGenerationChunkSQL sha now live c) w")
  have s: "gworld_ok sha w1" "\<And>v. q = Inr v \<Longrightarrow> \<exists>now d. completeGenerationChunkSQL sha now live c d = (Inr v, gw_data w1)"
    using query_safe [OF w safe_complete _ typed_read q] by blast+
  have rec: "ended c GenerationChunkDone (gw_data w')" if "complete_reconciled sha c e w1 = (None, w')" for e
    using that completion_reconciled [OF s(1)] by (auto simp: complete_reconciled_def split: prod.splits sum.splits bool.splits if_splits)
  show ?thesis
  proof (cases q)
    case (Inl e)
    then show ?thesis using run q rec by (auto simp: CompleteGenerationChunk_def split: option.splits)
  next
    case (Inr t)
    show ?thesis
    proof (cases "tr_owned t \<and> tr_current t")
      case True
      then have w': "w' = w1" using run q Inr by (auto simp: CompleteGenerationChunk_def split: option.splits)
      obtain now d where t: "completeGenerationChunkSQL sha now live c d = (Inr t, gw_data w1)" using s(2) [OF Inr] by blast
      then have "owned c d" "gw_data w1 = end_lease sha now c (settle_chunk GenerationChunkDone True now) (complete_sched True now) d"
        using True by (auto simp: completeGenerationChunkSQL_def Let_def split: option.splits if_splits)
      moreover have "settle_chunk GenerationChunkDone True now x = (settle_chunk GenerationChunkDone True now x)\<lparr>gc_error := gc_error x\<rparr>" for x
        by (simp add: settle_chunk_def)
      ultimately show ?thesis unfolding w' by (metis ended_settle)
    next
      case False
      then show ?thesis using run q Inr rec by (auto simp: CompleteGenerationChunk_def split: option.splits if_splits)
    qed
  qed
qed

lemma schedule_by_digest:
  assumes w: "gworld_ok sha w" and run: "generationScheduleByDigest sha (gc_digest c) w = (Inr s, w')"
  shows "gworld_ok sha w'" "attempts_known c (gs_max_attempts s) (gw_data w')"
proof -
  let ?f = "read_call (\<lambda>d. find (\<lambda>s. gs_digest s = gc_digest c) (gd_schedules d))"
  have q: "gen_call sha ?f w = (Inr (Some s), w')"
    using run by (auto simp: generationScheduleByDigest_def split: if_splits prod.splits sum.splits option.splits)
  note g = gen_call_safe [OF w safe_read _ typed_read q, simplified]
  show ok: "gworld_ok sha w'" by (rule g(1))
  obtain now d where "?f now d = (Inr (Some s), gw_data w')" using g(3) by blast
  then have "s \<in> set (gd_schedules (gw_data w')) \<and> gs_digest s = gc_digest c" by (auto simp: read_call_def find_Some_iff)
  then show "attempts_known c (gs_max_attempts s) (gw_data w')"
    using ok gen_invD(1) unfolding attempts_known_def gworld_ok_def by blast
qed

lemma exhaustion_reconciled:
  assumes w: "gworld_ok sha w" and run: "reconcileGenerationExhaustion sha c m msg w = (True, w')"
  shows "ended c GenerationChunkFailed (gw_data w')"
proof -
  obtain x where x: "generationChunkByIdentity sha (gc_identity c) (w\<lparr>gw_done := False\<rparr>) = (Inr x, w')"
    "same_claim c x" "gc_claimed_by x = gc_claimed_by c" "gc_status x = GenerationChunkFailed"
    using run by (auto simp: reconcileGenerationExhaustion_def split: if_splits prod.splits sum.splits)
  then show ?thesis using chunk_by_identity(3) [OF gworld_ok_alive [OF w] x(1)] unfolding ended_def by blast
qed

lemma exhausted_row:
  assumes "retryGenerationChunkSQL sha now live i m c err nb d = (Inr t, d')" "tr_owned t" "tr_current t" "tr_exhausted t"
  shows "ended c GenerationChunkFailed d'"
proof -
  have "owned c d" "d' = end_lease sha now c (\<lambda>x. (settle_chunk GenerationChunkFailed True now x)\<lparr>gc_error := err\<rparr>) (fail_sched True now) d"
    using assms by (auto simp: retryGenerationChunkSQL_def Let_def split: option.splits if_splits sum.splits)
  then show ?thesis by (metis ended_settle)
qed

lemma retry_reported:
  assumes w: "gworld_ok sha w" and fresh: "\<And>d. fresh d \<notin> gc_id ` set (gd_chunks d)"
    and run: "RetryGenerationChunk sha live fresh c msg nb w = (Inl ErrGenerationExhausted, w')"
  shows "ended c GenerationChunkFailed (gw_data w')"
proof -
  have nn: "validGenerationChunkLease c = None" "nb \<noteq> 0"
    using run by (auto simp: RetryGenerationChunk_def validGenerationChunkLease_def split: if_splits)
  obtain s w1 where s: "generationScheduleByDigest sha (gc_digest c) w = (Inr s, w1)"
    using run nn by (auto simp: RetryGenerationChunk_def generationScheduleByDigest_def split: prod.splits sum.splits if_splits option.splits)
  note g = schedule_by_digest [OF w s]
  let ?f = "\<lambda>now d. retryGenerationChunkSQL sha now live (fresh d) (gs_max_attempts s) c (boundedGenerationError msg) nb d"
  obtain q w2 where q: "queryGenerationSchedule sha ?f w1 = (q, w2)" by (cases "queryGenerationSchedule sha ?f w1")
  have S: "gworld_ok sha w2" "\<And>v. q = Inr v \<Longrightarrow> \<exists>now d. ?f now d = (Inr v, gw_data w2)"
    using query_safe [OF g(1) safe_retry [OF fresh] g(2) attempts_stable q] by blast+
  have rec: "ended c GenerationChunkFailed (gw_data w')"
    if "retry_reconciled sha c m msg e w2 = (Inl ErrGenerationExhausted, w')" "e \<noteq> ErrGenerationExhausted" for m e
    using that exhaustion_reconciled [OF S(1)] by (auto simp: retry_reconciled_def split: prod.splits if_splits)
  have byid: "generationChunkByIdentity sha i w2 \<noteq> (Inl ErrGenerationExhausted, w')" for i
    by (auto simp: generationChunkByIdentity_def split: prod.splits sum.splits option.splits)
  show ?thesis
  proof (cases q)
    case (Inl e)
    then show ?thesis using run nn s q rec by (auto simp: RetryGenerationChunk_def split: if_splits)
  next
    case (Inr t)
    obtain now d where t: "?f now d = (Inr t, gw_data w2)" using S(2) [OF Inr] by blast
    show ?thesis using run nn s q Inr rec byid exhausted_row [OF t]
      by (auto simp: RetryGenerationChunk_def split: if_splits)
  qed
qed

text \<open>
  C3. What a worker is told about its chunk is true in the database, lost answers included. In a world where
  other clients act between any two calls, answers get lost before or after their transaction commits,
  conflicts are retried and contexts end, \<open>CompleteGenerationChunk\<close> returns no error only when the worker's
  own chunk is recorded as done under its name, and \<open>RetryGenerationChunk\<close> reports exhaustion only when it
  is recorded as failed under its name. The other clients may do everything except collect old schedules,
  and record identifiers are drawn anew.
\<close>

theorem reported_outcomes_durable:
  assumes "gen_reachable sha (gw_now w, gw_data w)"
    and "list_all (\<lambda>ev. list_all (\<lambda>(n, t). \<not> collects t) (ge_others ev)) (gw_script w)"
    and "\<And>d. fresh d \<notin> gc_id ` set (gd_chunks d)"
  shows "(fst (CompleteGenerationChunk sha live c w) = None \<longrightarrow>
      (\<exists>x \<in> set (gd_chunks (gw_data (snd (CompleteGenerationChunk sha live c w)))).
        same_claim c x \<and> gc_claimed_by x = gc_claimed_by c \<and> gc_status x = GenerationChunkDone)) \<and>
    (fst (RetryGenerationChunk sha live fresh c msg nb w) = Inl ErrGenerationExhausted \<longrightarrow>
      (\<exists>x \<in> set (gd_chunks (gw_data (snd (RetryGenerationChunk sha live fresh c msg nb w)))).
        same_claim c x \<and> gc_claimed_by x = gc_claimed_by c \<and> gc_status x = GenerationChunkFailed))"
proof -
  have w: "gworld_ok sha w" using assms(1,2) reachable_inv by (auto simp: gworld_ok_def)
  show ?thesis
    using complete_reported [OF w, of live c] retry_reported [OF w assms(3), of live c msg nb]
    unfolding ended_def by (metis prod.collapse)
qed


text \<open>The first answer is lost after its commit; the replay finds the lease gone and reconciles.\<close>

definition run_world :: gworld where
  "run_world = \<lparr>gw_data = run_claimed, gw_now = 1, gw_script = [\<lparr>ge_others = [], ge_now = 1, ge_fault = QLost (ErrNew ''conflict''), ge_cancels = False\<rparr>],
     gw_done = False\<rparr>"

definition run_fresh :: "gdata \<Rightarrow> gostring" where
  "run_fresh d = ''x'' @ concat (map gc_id (gd_chunks d))"

lemma run_fresh_new: "run_fresh d \<notin> gc_id ` set (gd_chunks d)"
proof
  assume "run_fresh d \<in> gc_id ` set (gd_chunks d)"
  then obtain c where c: "c \<in> set (gd_chunks d)" "gc_id c = run_fresh d" by force
  have "length (gc_id c) \<le> sum_list (map length (map gc_id (gd_chunks d)))"
    by (rule member_le_sum_list) (use c(1) in auto)
  then show False using c(2) by (simp add: run_fresh_def length_concat)
qed

lemma run_completed_again:
  "completeGenerationChunkSQL run_sha 1 (\<lambda>g r. True) run_lease run_completed =
     (Inr \<lparr>tr_owned = False, tr_current = True, tr_exhausted = False\<rparr>, run_completed)"
proof -
  have v: "validGenerationToken ''s''" by code_simp
  show ?thesis
    by (simp add: completeGenerationChunkSQL_def typedChunkStatement_def v validGenerationResourceClass_def owned_def chunk_lease_row_def
      is_current_def current_digest_def run_ids grun_defs Let_def)
qed

lemma query_loop_first: "call w = (Inr v, w1) \<Longrightarrow> query_loop n call w = (Inr v, w1)"
  by (cases n) simp_all

lemma query_loop_again:
  "call w = (Inl e, w1) \<Longrightarrow> isRetryable e \<Longrightarrow> \<not> gw_done w1 \<Longrightarrow> call w1 = (Inr v, w2) \<Longrightarrow> query_loop (Suc n) call w = (Inr v, w2)"
  by (simp add: query_loop_first)

theorem reported_outcomes_durable_witness:
  "fst (CompleteGenerationChunk run_sha (\<lambda>g r. True) run_lease run_world) = None \<and>
   (\<exists>x \<in> set (gd_chunks (gw_data (snd (CompleteGenerationChunk run_sha (\<lambda>g r. True) run_lease run_world)))).
     same_claim run_lease x \<and> gc_status x = GenerationChunkDone)"
proof -
  let ?live = "\<lambda>g r. True" and ?w = "run_world\<lparr>gw_data := run_completed, gw_script := []\<rparr>"
  have ok: "isRetryable (ErrNew ''conflict'' :: serr)" "TrimSpace ''r'' = ''r''" "validGenerationToken ''s''" by code_simp+
  have n: "maxQueueRetries - 1 = Suc 62" by (simp add: maxQueueRetries_def)
  have valid: "ValidateGenerationSchedule run_sha (run_row 1 0 0 1 GenerationScheduleSettled (Some 1)) = None"
    by (rule schedule_row(1) [OF conjunct1 [OF reachable_inv [OF run_reach(4)]]]) (simp add: run_tables_def)
  have c: "gen_call run_sha (\<lambda>now. completeGenerationChunkSQL run_sha now ?live run_lease) run_world = (Inl (ErrNew ''conflict''), ?w)"
    by (simp add: gen_call_def run_world_def run_complete_sql)
  have a: "gen_call run_sha (\<lambda>now. completeGenerationChunkSQL run_sha now ?live run_lease) ?w =
      (Inr \<lparr>tr_owned = False, tr_current = True, tr_exhausted = False\<rparr>, ?w)"
    by (simp add: gen_call_def run_world_def run_completed_again)
  have q: "queryGenerationSchedule run_sha (\<lambda>now. completeGenerationChunkSQL run_sha now ?live run_lease) run_world =
      (Inr \<lparr>tr_owned = False, tr_current = True, tr_exhausted = False\<rparr>, ?w)"
    unfolding queryGenerationSchedule_def n by (rule query_loop_again [OF c ok(1) _ a]) (simp add: run_world_def)
  have r: "queryGenerationSchedule run_sha (read_call f) ?w = (Inr (f run_completed), ?w)" for f :: "gdata \<Rightarrow> 'z"
    unfolding queryGenerationSchedule_def by (rule query_loop_first) (simp add: gen_call_def read_call_def run_world_def)
  have alive: "?w\<lparr>gw_done := False\<rparr> = ?w" by (simp add: run_world_def)
  have i: "generationChunkByIdentity run_sha (gc_identity run_lease) ?w = (Inr (run_chunk GenerationChunkDone ''w'' (Some 1) None (Some 1) []), ?w)"
    by (simp add: generationChunkByIdentity_def r) (simp add: grun_defs)
  have G: "GetGenerationSchedule run_sha ''r'' ''s'' run_completed = Inr (run_row 1 0 0 1 GenerationScheduleSettled (Some 1))"
    using valid by (simp add: GetGenerationSchedule_def ok run_tables_def current_digest_def run_ids) (simp add: run_row_def)
  have rep: "gc_repository run_lease = ''r''" "gc_stage run_lease = ''s''" by (simp_all add: run_chunk_def)
  have g: "get_schedule_call run_sha (gc_repository run_lease) (gc_stage run_lease) ?w = (Inr (run_row 1 0 0 1 GenerationScheduleSettled (Some 1)), ?w)"
    by (simp add: get_schedule_call_def rep r ok G)
  have rec: "reconcileGenerationCompletion run_sha run_lease ?w = (Inr True, ?w)"
    unfolding reconcileGenerationCompletion_def alive i by (simp add: g) (simp add: same_claim_def grun_defs)
  have lease: "validGenerationChunkLease run_lease = None" by (simp add: validGenerationChunkLease_def grun_defs) (simp add: run_zero_def)
  have "CompleteGenerationChunk run_sha ?live run_lease run_world = (None, ?w)"
    unfolding CompleteGenerationChunk_def lease option.case q prod.case sum.case complete_reconciled_def rec by simp
  moreover have "gen_reachable run_sha (gw_now run_world, gw_data run_world)" using run_reach(3) by (simp add: run_world_def)
  moreover have "list_all (\<lambda>ev. list_all (\<lambda>(n, t). \<not> collects t) (ge_others ev)) (gw_script run_world)" by (simp add: run_world_def)
  ultimately show ?thesis
    using reported_outcomes_durable [OF _ _ run_fresh_new, of run_sha run_world ?live run_lease "[]" 1] by auto
qed

end
