(* ===== verification/Generation_Client.thy ===== *)
theory Generation_Client
  imports Generation_Methods "HOL-Library.Option_ord"
begin

text \<open>
  The other methods of \<open>generation_schedule.go\<close> and \<open>generation_lifecycle.go\<close> as their callers run them, in the
  world of \<open>Generation_Methods\<close>: enqueueing, retiring and expanding a schedule, claiming a chunk over the
  candidate schedules, the heartbeat, failing, releasing and deferring a lease, the reaper with its observer,
  and the sweep that collects old schedules. What the methods read from tables of other packages is an
  argument: the authority, plan rows and liveness of typed-index roots. Driver responses are well formed.
\<close>

section \<open>Leases\<close>

text \<open>What a transition's answer means to a worker.\<close>

definition transition_answer :: "gtransition \<Rightarrow> serr option" where
  "transition_answer t = (if \<not> tr_owned t then Some ErrGenerationLeaseLost else if \<not> tr_current t then Some ErrGenerationStale else None)"

definition lease_call :: "gostring \<Rightarrow> hasher \<Rightarrow> (int \<Rightarrow> gdata \<Rightarrow> (serr + gtransition) \<times> gdata) \<Rightarrow> gchunk \<Rightarrow> gworld \<Rightarrow> serr option \<times> gworld" where
  "lease_call context sha f c w =
     (case validGenerationChunkLease c of
        Some e \<Rightarrow> (Some e, w)
      | None \<Rightarrow>
          (case queryGenerationSchedule sha f w of
             (Inl e, w1) \<Rightarrow> (Some (ErrWrap context e), w1)
           | (Inr t, w1) \<Rightarrow> (transition_answer t, w1)))"

definition HeartbeatGenerationChunk :: "hasher \<Rightarrow> liveness \<Rightarrow> gchunk \<Rightarrow> gworld \<Rightarrow> serr option \<times> gworld" where
  "HeartbeatGenerationChunk sha live c w =
     (case validGenerationChunkLease c of
        Some e \<Rightarrow> (Some e, w)
      | None \<Rightarrow>
          (case queryGenerationSchedule sha (\<lambda>now. heartbeatSQL now live c) w of
             (Inl e, w1) \<Rightarrow> (Some (ErrWrap ''heartbeat generation chunk: '' e), w1)
           | (Inr rows, w1) \<Rightarrow> (if length rows \<noteq> 1 then Some ErrGenerationLeaseLost else None, w1)))"

definition FailGenerationChunk :: "hasher \<Rightarrow> liveness \<Rightarrow> gchunk \<Rightarrow> gostring \<Rightarrow> gworld \<Rightarrow> serr option \<times> gworld" where
  "FailGenerationChunk sha live c errMessage =
     lease_call ''fail generation chunk: '' sha (\<lambda>now. failGenerationChunkSQL sha now live c (boundedGenerationError errMessage)) c"

definition ReleaseGenerationChunk :: "hasher \<Rightarrow> liveness \<Rightarrow> gchunk \<Rightarrow> gostring \<Rightarrow> gworld \<Rightarrow> serr option \<times> gworld" where
  "ReleaseGenerationChunk sha live c reason =
     lease_call ''release generation chunk: '' sha (\<lambda>now. releaseGenerationChunkSQL sha now live c (boundedGenerationError reason)) c"

text \<open>A deferral has its own retry loop because the fence time is taken anew for each attempt; \<open>wall\<close> gives
  the worker's clock when the database's shows a time.\<close>

definition DeferGenerationChunk :: "hasher \<Rightarrow> liveness \<Rightarrow> (int \<Rightarrow> int) \<Rightarrow> gchunk \<Rightarrow> gostring \<Rightarrow> int \<Rightarrow> gworld \<Rightarrow> serr option \<times> gworld" where
  "DeferGenerationChunk sha live wall c reason delay w =
     (case validGenerationChunkLease c of
        Some e \<Rightarrow> (Some e, w)
      | None \<Rightarrow>
          if delay \<le> 0 then (Some (ErrNew ''defer generation chunk: delay is required''), w)
          else (case query_loop (maxQueueRetries - 1) (gen_call sha (\<lambda>now.
              deferGenerationChunkSQL sha now live c (boundedGenerationError reason) (wall now + delay))) w of
             (Inl e, w1) \<Rightarrow> (Some (ErrWrap ''defer generation chunk: '' e), w1)
           | (Inr t, w1) \<Rightarrow> (transition_answer t, w1)))"

section \<open>Reaping\<close>

definition MaxGenerationClaimCandidates :: nat where
  "MaxGenerationClaimCandidates = 64"

definition stale_candidates :: "gostring \<Rightarrow> int \<Rightarrow> gdata \<Rightarrow> gchunk list" where
  "stale_candidates class cutoff d =
     take MaxGenerationClaimCandidates (sort_key (\<lambda>c. (gc_heartbeat c, gc_repository c, gc_stage c, gc_offset c))
       (filter (\<lambda>c. gc_class c = class \<and> gc_status c = GenerationChunkRunning \<and>
          (case gc_heartbeat c of None \<Rightarrow> False | Some h \<Rightarrow> h < cutoff)) (gd_chunks d)))"

definition releaseStaleGenerationChunk :: "hasher \<Rightarrow> gchunk \<Rightarrow> int \<Rightarrow> gworld \<Rightarrow> serr option \<times> gworld" where
  "releaseStaleGenerationChunk sha c cutoff w =
     (if validGenerationChunkLease c = None \<and> (case gc_heartbeat c of None \<Rightarrow> True | Some h \<Rightarrow> \<not> h < cutoff)
      then (Some ErrGenerationLeaseLost, w)
      else lease_call ''reap generation chunk: '' sha (\<lambda>now. reapGenerationChunkSQL sha now c cutoff) c w)"

text \<open>The observer is told the transition's point, its chunk and the cutoff, which determine all it is given.\<close>

datatype stale_point = StaleHit | StaleRequeued

type_synonym stale_observer = "stale_point \<Rightarrow> gchunk \<Rightarrow> int \<Rightarrow> serr option"

definition observe :: "stale_observer option \<Rightarrow> stale_point \<Rightarrow> gchunk \<Rightarrow> int \<Rightarrow> serr option" where
  "observe observer point c cutoff = (case observer of None \<Rightarrow> None | Some f \<Rightarrow> f point c cutoff)"

fun reap_chunks :: "hasher \<Rightarrow> stale_observer option \<Rightarrow> int \<Rightarrow> gchunk list \<Rightarrow> int \<Rightarrow> gworld \<Rightarrow> (int \<times> serr option) \<times> gworld" where
  "reap_chunks sha observer cutoff [] reaped w = ((reaped, None), w)"
| "reap_chunks sha observer cutoff (c # cs) reaped w =
     (case observe observer StaleHit c cutoff of
        Some e \<Rightarrow> ((reaped, Some (ErrWrap ''observe generation stale lease hit: '' e)), w)
      | None \<Rightarrow>
          (case releaseStaleGenerationChunk sha c cutoff w of
             (Some e, w1) \<Rightarrow>
               if errors_Is e ErrGenerationStale then reap_chunks sha observer cutoff cs (reaped + 1) w1
               else if errors_Is e ErrGenerationLeaseLost then reap_chunks sha observer cutoff cs reaped w1
               else ((reaped, Some e), w1)
           | (None, w1) \<Rightarrow>
               (case observe observer StaleRequeued c cutoff of
                  Some e \<Rightarrow> ((reaped + 1, Some (ErrWrap ''observe generation stale lease requeue: '' e)), w1)
                | None \<Rightarrow> reap_chunks sha observer cutoff cs (reaped + 1) w1)))"

definition reapStaleGenerationChunks ::
  "hasher \<Rightarrow> int \<Rightarrow> gostring \<Rightarrow> int \<Rightarrow> stale_observer option \<Rightarrow> gworld \<Rightarrow> (int \<times> serr option) \<times> gworld" where
  "reapStaleGenerationChunks sha wall class staleAfter observer w =
     (if \<not> validGenerationResourceClass class \<or> staleAfter \<le> 0
      then ((0, Some (ErrNew ''reap generation chunks: invalid class or cutoff'')), w)
      else case queryGenerationSchedule sha (read_call (stale_candidates class (wall - staleAfter))) w of
        (Inl e, w1) \<Rightarrow> ((0, Some (ErrWrap ''reap generation chunk candidates: '' e)), w1)
      | (Inr cs, w1) \<Rightarrow> reap_chunks sha observer (wall - staleAfter) cs 0 w1)"

definition ReapStaleGenerationChunks :: "hasher \<Rightarrow> int \<Rightarrow> gostring \<Rightarrow> int \<Rightarrow> gworld \<Rightarrow> (int \<times> serr option) \<times> gworld" where
  "ReapStaleGenerationChunks sha wall class staleAfter = reapStaleGenerationChunks sha wall class staleAfter None"

definition ReapStaleGenerationChunksObserved ::
  "hasher \<Rightarrow> int \<Rightarrow> gostring \<Rightarrow> int \<Rightarrow> stale_observer option \<Rightarrow> gworld \<Rightarrow> (int \<times> serr option) \<times> gworld" where
  "ReapStaleGenerationChunksObserved sha wall class staleAfter observer w =
     (if observer = None then ((0, Some (ErrNew ''reap generation chunks: observer is required'')), w)
      else reapStaleGenerationChunks sha wall class staleAfter observer w)"

section \<open>Schedules\<close>

definition RetireCurrentGenerationSchedule :: "hasher \<Rightarrow> gsched \<Rightarrow> gworld \<Rightarrow> serr option \<times> gworld" where
  "RetireCurrentGenerationSchedule sha expected w =
     (case ValidateGenerationSchedule sha expected of
        Some e \<Rightarrow> (Some (ErrWrap ''retire current generation schedule: '' e), w)
      | None \<Rightarrow>
          (case queryGenerationSchedule sha (\<lambda>now. retireCurrentSQL sha now expected) w of
             (Inl e, w1) \<Rightarrow> (Some (ErrWrap ''retire current generation schedule: '' e), w1)
           | (Inr retired, w1) \<Rightarrow> (if retired then None else Some ErrGenerationStale, w1)))"

text \<open>\<open>root\<close> is the read of a typed-index root outside the transaction, \<open>live\<close> the fence inside it; \<open>ids\<close>
  draws the record identifiers of a page.\<close>

definition ExpandGenerationSchedule ::
  "hasher \<Rightarrow> (gostring \<Rightarrow> gostring \<Rightarrow> serr option) \<Rightarrow> liveness \<Rightarrow> (gdata \<Rightarrow> nat \<Rightarrow> gostring) \<Rightarrow> gostring \<Rightarrow> gostring \<Rightarrow> gostring \<Rightarrow> gworld \<Rightarrow>
   (serr + gsched) \<times> gworld" where
  "ExpandGenerationSchedule sha root live ids repository stage generation w =
     (case get_schedule_call sha repository stage w of
        (Inl e, w1) \<Rightarrow> (Inl e, w1)
      | (Inr s, w1) \<Rightarrow>
          if gs_generation s \<noteq> generation \<or> gs_status s \<noteq> GenerationScheduleActive then (Inl ErrGenerationStale, w1)
          else case (if gs_class s = GenerationResourceTypedIndex then root repository generation else None) of
            Some e \<Rightarrow> (Inl e, w1)
          | None \<Rightarrow>
              if gs_next s = gs_items s then (Inr s, w1)
              else case queryGenerationSchedule sha (\<lambda>now d. expandGenerationScheduleSQL sha now (live generation repository) (ids d) s d) w1 of
                (Inl e, w2) \<Rightarrow> (Inl (ErrWrap ''expand generation schedule: '' e), w2)
              | (Inr [x], w2) \<Rightarrow> if gs_next x \<noteq> gs_next s + sum_list (map snd (generationChunkSpecs s))
                    then (Inl ErrGenerationStale, w2) else (Inr x, w2)
              | (Inr _, w2) \<Rightarrow> (Inl (ErrNew ''expand generation schedule: schedule row is absent''), w2))"

definition expandable_schedules :: "gostring \<Rightarrow> gdata \<Rightarrow> gsched list" where
  "expandable_schedules class d =
     take 1 (sort_key (\<lambda>s. (gs_updated s, gs_repository s, gs_stage s))
       (filter (\<lambda>s. gs_class s = class \<and> gs_status s = GenerationScheduleActive \<and> gs_next s < gs_items s) (gd_schedules d)))"

definition ExpandNextGenerationSchedule ::
  "hasher \<Rightarrow> (gostring \<Rightarrow> gostring \<Rightarrow> serr option) \<Rightarrow> liveness \<Rightarrow> (gdata \<Rightarrow> nat \<Rightarrow> gostring) \<Rightarrow> gostring \<Rightarrow> gworld \<Rightarrow> (serr + gsched) \<times> gworld" where
  "ExpandNextGenerationSchedule sha root live ids class w =
     (if \<not> validGenerationResourceClass class then (Inl (ErrNew ''expand next generation schedule: invalid resource class''), w)
      else case queryGenerationSchedule sha (read_call (expandable_schedules class)) w of
        (Inl e, w1) \<Rightarrow> (Inl (ErrWrap ''expand next generation schedule: '' e), w1)
      | (Inr [], w1) \<Rightarrow> (Inl (ErrWrap ''expand next generation schedule: '' ErrNotFound), w1)
      | (Inr (s # _), w1) \<Rightarrow> ExpandGenerationSchedule sha root live ids (gs_repository s) (gs_stage s) (gs_generation s) w1)"

text \<open>The row that an enqueue got back, checked against what it asked for.\<close>

definition enqueue_answer :: "hasher \<Rightarrow> gspec \<Rightarrow> gostring option \<Rightarrow> gsched \<Rightarrow> serr + gsched" where
  "enqueue_answer sha p old s =
     (if gs_digest s \<noteq> generationScheduleDigest sha p \<or> spec_of s \<noteq> p
      then Inl (ErrNew ''enqueue generation schedule: immutable schedule collision'')
      else if gs_status s \<noteq> GenerationScheduleActive \<and>
         (gp_class p \<noteq> GenerationResourceTypedIndex \<or> gs_status s \<noteq> GenerationScheduleSettled \<or>
          old \<noteq> Some (generationScheduleDigest sha p) \<or> ValidateGenerationSchedule sha s \<noteq> None)
      then Inl ErrGenerationStale
      else Inr s)"

fun enqueue_loop :: "nat \<Rightarrow> hasher \<Rightarrow> (int \<Rightarrow> bool) \<Rightarrow> gspec \<Rightarrow> gworld \<Rightarrow> (serr + gsched) \<times> gworld" where
  "enqueue_loop left sha fence p w =
     (case gen_call sha (read_call (enqueueGenerationSchedulePriorSQL sha p)) w of
        (Inl e, w1) \<Rightarrow>
          if isRetryableEnqueue e \<and> \<not> gw_done w1 \<and> 0 < left then enqueue_loop (left - 1) sha fence p w1
          else (Inl (ErrWrap ''read generation enqueue prior: '' e), w1)
      | (Inr prior, w1) \<Rightarrow>
          if gw_done w1 then (Inl ErrCtxDone, w1)
          else if length (snd prior) > 1 then (Inl (ErrNew ''read generation enqueue prior: invalid record identities''), w1)
          else if (case fst prior of None \<Rightarrow> False | Some old \<Rightarrow> \<not> validSHA256 old)
          then (Inl (ErrNew ''read generation enqueue prior: invalid digest''), w1)
          else case gen_call sha (\<lambda>now. enqueueGenerationScheduleSQL sha now (fence now) p prior) w1 of
            (Inl e, w2) \<Rightarrow>
              if isRetryableEnqueue e \<and> \<not> gw_done w2 \<and> 0 < left then enqueue_loop (left - 1) sha fence p w2
              else (Inl (ErrWrap ''enqueue generation schedule: '' e), w2)
          | (Inr [s], w2) \<Rightarrow> (enqueue_answer sha p (fst prior) s, w2)
          | (Inr _, w2) \<Rightarrow> (Inl (ErrNew ''enqueue generation schedule: schedule row is absent''), w2))"

declare enqueue_loop.simps [simp del]

text \<open>\<open>authority\<close> gives the specification that the typed-index authority of a repository allows.\<close>

definition EnqueueGenerationSchedule ::
  "hasher \<Rightarrow> (gostring \<Rightarrow> serr + gspec) \<Rightarrow> (int \<Rightarrow> bool) \<Rightarrow> gspec \<Rightarrow> gworld \<Rightarrow> (serr + gsched) \<times> gworld" where
  "EnqueueGenerationSchedule sha authority fence spec w =
     (case normalizeGenerationScheduleSpec spec of
        Inl e \<Rightarrow> (Inl e, w)
      | Inr p \<Rightarrow>
          if gp_class p = GenerationResourceTypedIndex
          then (case authority (gp_repository p) of
              Inl e \<Rightarrow> (Inl e, w)
            | Inr allowed \<Rightarrow> if allowed \<noteq> p then (Inl ErrGenerationStale, w) else enqueue_loop (maxQueueRetries - 1) sha fence p w)
          else enqueue_loop (maxQueueRetries - 1) sha fence p w)"

section \<open>Claims\<close>

definition maxGenerationScheduleClaimCandidates :: nat where
  "maxGenerationScheduleClaimCandidates = MaxGenerationClaimCandidates * nat MaxGenerationActiveStagesPerRepository"

definition claimable_schedules :: "gostring \<Rightarrow> gdata \<Rightarrow> gsched list" where
  "claimable_schedules class d =
     take maxGenerationScheduleClaimCandidates (sort_key (\<lambda>s. (gs_claimed s, gs_created s, gs_repository s, gs_stage s))
       (filter (\<lambda>s. gs_class s = class \<and> gs_status s = GenerationScheduleActive \<and> gs_pending s > 0) (gd_schedules d)))"

text \<open>The selection read and the claim of one candidate schedule, until it yields a chunk or has none.\<close>

definition selection_call :: "hasher \<Rightarrow> liveness \<Rightarrow> (int \<Rightarrow> gostring \<Rightarrow> gplan option) \<Rightarrow> gsched \<Rightarrow> int \<Rightarrow> gdata \<Rightarrow> (serr + gostring option) \<times> gdata" where
  "selection_call sha live plans e now d =
     (if gs_class e = GenerationResourceTypedIndex \<and> \<not> live (gs_generation e) (gs_repository e) then Inl typed_stale
      else Inr (claimGenerationChunkSelectionSQL sha now (plans now (gs_generation e)) e d), d)"

fun claim_schedule ::
  "nat \<Rightarrow> hasher \<Rightarrow> liveness \<Rightarrow> (int \<Rightarrow> gostring \<Rightarrow> gplan option) \<Rightarrow> gsched \<Rightarrow> gostring \<Rightarrow> gostring \<Rightarrow> gworld \<Rightarrow>
   (serr + gchunk option) \<times> gworld" where
  "claim_schedule left sha live plans e worker lease w =
     (case gen_call sha (selection_call sha live plans e) w of
        (Inl err, w1) \<Rightarrow>
          if gs_class e = GenerationResourceTypedIndex \<and> Contains (err_text err) ''typed-stale'' then (Inr None, w1)
          else if isRetryable err \<and> \<not> gw_done w1 \<and> 0 < left then claim_schedule (left - 1) sha live plans e worker lease w1
          else (Inl (ErrWrap ''select generation chunk: '' err), w1)
      | (Inr selected, w1) \<Rightarrow>
          if gw_done w1 then (Inl ErrCtxDone, w1)
          else case selected of
            None \<Rightarrow> (Inr None, w1)
          | Some chunk \<Rightarrow>
              (case gen_call sha (\<lambda>now. claimGenerationChunkSQL sha now (live (gs_generation e) (gs_repository e))
                  (plans now (gs_generation e)) e worker lease chunk) w1 of
                 (Inl err, w2) \<Rightarrow>
                   if isRetryable err \<and> \<not> gw_done w2 \<and> 0 < left then claim_schedule (left - 1) sha live plans e worker lease w2
                   else (Inl (ErrWrap ''claim generation chunk: '' err), w2)
               | (Inr [], w2) \<Rightarrow> (Inr None, w2)
               | (Inr (c # _), w2) \<Rightarrow> (Inr (Some c), w2)))"

declare claim_schedule.simps [simp del]

text \<open>\<open>tokens k\<close> is the lease drawn for the candidate at position \<open>k\<close>.\<close>

fun claim_schedules ::
  "hasher \<Rightarrow> liveness \<Rightarrow> (int \<Rightarrow> gostring \<Rightarrow> gplan option) \<Rightarrow> (nat \<Rightarrow> serr + gostring) \<Rightarrow> gostring \<Rightarrow> nat \<Rightarrow> gsched list \<Rightarrow> gworld \<Rightarrow>
   (serr + gchunk) \<times> gworld" where
  "claim_schedules sha live plans tokens worker k [] w = (Inl (ErrWrap ''claim generation chunk: '' ErrNotFound), w)"
| "claim_schedules sha live plans tokens worker k (e # es) w =
     (case tokens k of
        Inl err \<Rightarrow> (Inl err, w)
      | Inr lease \<Rightarrow>
          (case claim_schedule (maxQueueRetries - 1) sha live plans e worker lease w of
             (Inl err, w1) \<Rightarrow> (Inl err, w1)
           | (Inr (Some c), w1) \<Rightarrow> (Inr c, w1)
           | (Inr None, w1) \<Rightarrow> claim_schedules sha live plans tokens worker (Suc k) es w1))"

definition ClaimGenerationChunk ::
  "hasher \<Rightarrow> liveness \<Rightarrow> (int \<Rightarrow> gostring \<Rightarrow> gplan option) \<Rightarrow> (nat \<Rightarrow> serr + gostring) \<Rightarrow> gostring \<Rightarrow> gostring \<Rightarrow> gworld \<Rightarrow>
   (serr + gchunk) \<times> gworld" where
  "ClaimGenerationChunk sha live plans tokens class worker w =
     (if \<not> validGenerationResourceClass class \<or> TrimSpace worker \<noteq> worker \<or> worker = [] \<or> length worker > 256 \<or> \<not> ValidString worker
      then (Inl (ErrNew ''claim generation chunk: invalid class or worker''), w)
      else case gen_call sha (read_call (claimable_schedules class)) w of
        (Inl e, w1) \<Rightarrow> (Inl (ErrWrap ''claim generation chunk candidates: '' e), w1)
      | (Inr es, w1) \<Rightarrow> claim_schedules sha live plans tokens worker 0 es w1)"

section \<open>Collection\<close>

record gsweep =
  sw_cursor :: gostring
  sw_scanned :: int
  sw_deleted :: int
  sw_more :: bool

text \<open>The plan's row, one of the control rows, is not part of the tables here.\<close>

definition collectGenerationSchedule ::
  "hasher \<Rightarrow> (int \<Rightarrow> gostring \<Rightarrow> gplan option) \<Rightarrow> gsched \<Rightarrow> int \<Rightarrow> nat \<Rightarrow> gworld \<Rightarrow> (serr + int) \<times> gworld" where
  "collectGenerationSchedule sha plans e deleteLimit retained w =
     (if deleteLimit < 2 then (Inr 0, w)
      else
        let controlRows = (if state_phase (gs_stage e) \<noteq> [] then 2 else 1);
            chunkLimit = nat (max 0 (deleteLimit - controlRows))
        in case gen_call sha (\<lambda>now d. (Inr (if collectable sha (plans now (gs_generation e)) e retained d
               then Some (generationLifecycleSelectionSQL e chunkLimit d) else None), d)) w of
             (Inl err, w1) \<Rightarrow> (Inl (ErrWrap ''select generation lifecycle: '' err), w1)
           | (Inr selected, w1) \<Rightarrow>
               if gw_done w1 then (Inl ErrCtxDone, w1)
               else case selected of
                 None \<Rightarrow> (Inr 0, w1)
               | Some ids \<Rightarrow>
                   if length ids > chunkLimit then (Inl (ErrNew ''select generation lifecycle: invalid identities''), w1)
                   else case gen_call sha (\<lambda>now. collectGenerationScheduleSQL sha (plans now (gs_generation e)) e retained chunkLimit ids) w1 of
                     (Inl err, w2) \<Rightarrow> (Inl (ErrWrap ''collect generation lifecycle: '' err), w2)
                   | (Inr n, w2) \<Rightarrow> if int n > deleteLimit then (Inl (ErrNew ''collect generation lifecycle: invalid deletion count''), w2)
                       else (Inr (int n), w2))"

definition lifecycle_candidates :: "gostring \<Rightarrow> nat \<Rightarrow> gdata \<Rightarrow> gsched list" where
  "lifecycle_candidates after limit d =
     take limit (sort_key gs_digest (filter (\<lambda>s. gs_status s \<noteq> GenerationScheduleActive \<and> after < gs_digest s) (gd_schedules d)))"

fun sweep_candidates ::
  "hasher \<Rightarrow> (int \<Rightarrow> gostring \<Rightarrow> gplan option) \<Rightarrow> int \<Rightarrow> nat \<Rightarrow> gsched list \<Rightarrow> gsweep \<Rightarrow> gworld \<Rightarrow>
   (gsweep \<times> serr option \<times> bool) \<times> gworld" where
  "sweep_candidates sha plans deleteLimit retained [] sw w = ((sw, None, False), w)"
| "sweep_candidates sha plans deleteLimit retained (e # es) sw w =
     (if \<not> validSHA256 (gs_digest e) \<or> \<not> validSHA256 (gs_generation e) \<or> gs_repository e = [] \<or>
         \<not> validGenerationToken (gs_stage e) \<or> gs_updated e = 0
      then ((sw, Some (ErrNew ''scan generation lifecycle: candidate is malformed''), True), w)
      else
        let sw1 = sw\<lparr>sw_cursor := gs_digest e\<rparr>
        in case collectGenerationSchedule sha plans e (deleteLimit - sw_deleted sw) retained w of
             (Inl err, w1) \<Rightarrow> ((sw1, Some err, True), w1)
           | (Inr n, w1) \<Rightarrow>
               let sw2 = sw1\<lparr>sw_deleted := sw_deleted sw + n\<rparr>
               in if sw_deleted sw2 \<ge> deleteLimit then ((sw2\<lparr>sw_more := True\<rparr>, None, True), w1)
                  else sweep_candidates sha plans deleteLimit retained es sw2 w1)"

definition no_sweep :: gsweep where
  "no_sweep = \<lparr>sw_cursor = [], sw_scanned = 0, sw_deleted = 0, sw_more = False\<rparr>"

definition SweepGenerationScheduleLifecycle ::
  "hasher \<Rightarrow> (int \<Rightarrow> gostring \<Rightarrow> gplan option) \<Rightarrow> gostring \<Rightarrow> int \<Rightarrow> int \<Rightarrow> int \<Rightarrow> gworld \<Rightarrow> (gsweep \<times> serr option) \<times> gworld" where
  "SweepGenerationScheduleLifecycle sha plans after scanLimit deleteLimit retained w =
     (if after \<noteq> [] \<and> \<not> validSHA256 after then ((no_sweep, Some (ErrNew ''sweep generation lifecycle: cursor is invalid'')), w)
      else if scanLimit < 1 \<or> scanLimit > int MaxGenerationClaimCandidates \<or> deleteLimit < 1 \<or> deleteLimit > MaxGenerationFanoutPage \<or>
         retained < 1 \<or> retained > 8
      then ((no_sweep, Some (ErrNew ''sweep generation lifecycle: limits are invalid'')), w)
      else case gen_call sha (read_call (lifecycle_candidates after (nat scanLimit))) w of
        (Inl e, w1) \<Rightarrow> ((no_sweep, Some (ErrWrap ''scan generation lifecycle: '' e)), w1)
      | (Inr es, w1) \<Rightarrow>
          if es = [] then ((no_sweep, None), w1)
          else case sweep_candidates sha plans deleteLimit (nat retained) es (no_sweep\<lparr>sw_scanned := int (length es)\<rparr>) w1 of
            ((sw, err, stopped), w2) \<Rightarrow>
              if stopped then ((sw, err), w2)
              else if int (length es) = scanLimit then ((sw\<lparr>sw_more := True\<rparr>, None), w2)
              else ((sw\<lparr>sw_cursor := [], sw_more := after \<noteq> []\<rparr>, None), w2))"

end
