(* ===== verification/Generation_Worlds.thy ===== *)
theory Generation_Worlds
  imports Generation_Client
begin

text \<open>
  Calls in a world with other clients, collectors included. A condition on the tables that no admissible
  transaction of the other clients breaks is kept by every call whose own transaction keeps it, and what the
  call answers is what its transaction answered on the tables it then committed. The locale is used twice:
  with no condition, and with the condition that every stored specification is one of a given set.
\<close>

section \<open>Specifications in play\<close>

definition specs_in :: "gdata \<Rightarrow> gspec set" where
  "specs_in d = spec_of ` set (gd_schedules d)"

fun enqueued :: "gop \<Rightarrow> gspec set" where
  "enqueued (OpEnqueue fence p observed) = {p}"
| "enqueued _ = {}"

text \<open>The specifications that the tables hold or another client of the world enqueues.\<close>

definition world_specs :: "gworld \<Rightarrow> gspec set" where
  "world_specs w = specs_in (gw_data w) \<union> (\<Union>ev \<in> set (gw_script w). \<Union>(n, t) \<in> set (ge_others ev). enqueued t)"

lemma specs_same: "gd_schedules d' = gd_schedules d \<Longrightarrow> specs_in d' = specs_in d"
  by (simp add: specs_in_def)

lemma specs_map: "gd_schedules d' = map f (gd_schedules d) \<Longrightarrow> (\<And>t. same_static (f t) t) \<Longrightarrow> specs_in d' = specs_in d"
  by (simp add: specs_in_def image_image same_static_def)

lemma specs_upd:
  assumes "\<And>t. same_static (f t) t"
  shows "specs_in (upd_sched g f d) = specs_in d"
  by (rule specs_map [where f = "\<lambda>s. if gs_digest s = g then f s else s"]) (simp_all add: upd_sched_def assms)

lemma specs_end_lease: "(\<And>t. same_static (fs t) t) \<Longrightarrow> specs_in (end_lease sha now c fc fs d) = specs_in d"
  by (rule specs_map [where f = "\<lambda>s. if gs_digest s = gc_digest c then fs s else s"]) (simp_all add: end_lease_schedules)

lemma specs_leases:
  "specs_in (snd (completeGenerationChunkSQL sha now live c d)) = specs_in d"
  "specs_in (snd (failGenerationChunkSQL sha now live c err d)) = specs_in d"
  "specs_in (snd (deferGenerationChunkSQL sha now live c reason nb d)) = specs_in d"
  "specs_in (snd (reapGenerationChunkSQL sha now c cutoff d)) = specs_in d"
  "specs_in (snd (heartbeatSQL now live c d)) = specs_in d"
  by (auto simp: completeGenerationChunkSQL_def failGenerationChunkSQL_def deferGenerationChunkSQL_def reapGenerationChunkSQL_def
      heartbeatSQL_def Let_def specs_end_lease split: option.splits intro!: specs_same) (simp_all add: upd_chunk_def)

lemma specs_create: "create_chunk z d = Inr d1 \<Longrightarrow> specs_in d1 = specs_in d"
  unfolding create_chunk_Inr by (simp add: specs_in_def)

lemma specs_retry: "specs_in (snd (retryGenerationChunkSQL sha now live i m c err nb d)) = specs_in d"
proof (cases "typedChunkStatement live c d = None \<and> owned c d \<and> is_current sha c d \<and> gc_attempt c + 1 < m")
  case True
  let ?fc = "\<lambda>x. (settle_chunk GenerationChunkFailed True now x)\<lparr>gc_error := err\<rparr>"
  let ?d1 = "end_lease sha now c ?fc (retry_sched now) d"
  have one: "specs_in ?d1 = specs_in d" by (rule specs_end_lease) simp
  show ?thesis
  proof (cases "create_chunk (successor sha c i nb) ?d1")
    case (Inr d1)
    then have "specs_in d1 = specs_in ?d1" by (rule specs_create)
    then show ?thesis using True Inr one by (simp add: retryGenerationChunkSQL_def)
  qed (use True in \<open>simp add: retryGenerationChunkSQL_def\<close>)
next
  case False
  have "specs_in (end_lease sha now c fc (fail_sched cur now) d) = specs_in d" for fc cur by (rule specs_end_lease) simp
  then show ?thesis using False by (cases "typedChunkStatement live c d") (auto simp: retryGenerationChunkSQL_def Let_def)
qed

lemma specs_enqueue:
  assumes "keys_ok d"
  shows "specs_in (snd (enqueueGenerationScheduleSQL sha now fence p observed d)) \<subseteq> insert p (specs_in d)"
proof -
  have new: "spec_of (new_schedule sha p now) = p" by (simp add: spec_of_def new_schedule_def)
  have old: "spec_of (supersede_prior sha now p d s) = spec_of s" for s
    using same_static_ops(6) [of sha now p d s] by (simp add: same_static_def)
  show ?thesis using enqueue_result [OF assms, of sha now fence p observed]
    by (auto simp: specs_in_def point_at_def old new)
qed

lemma specs_schedules:
  "specs_in (snd (retireCurrentSQL sha now e d)) = specs_in d"
  "specs_in (snd (forgetRepositorySQL now name stages d)) = specs_in d"
  "specs_in (snd (diagnosticFenceSQL sha now c d)) = specs_in d"
  "specs_in (snd (expandGenerationScheduleSQL sha now fence ids e d)) = specs_in d"
  "specs_in (snd (claimGenerationChunkSQL sha now fence plan e worker lease chunk d)) = specs_in d"
  "specs_in (snd (fenceServiceStateV3CandidateAdvance sha now plans repository prior upcoming d)) = specs_in d"
  "specs_in (snd (beginTypedIndexRetirementSQL sha now observed root repository d)) = specs_in d"
  "specs_in (snd (collectGenerationScheduleSQL sha plan e retained limit chunks d)) \<subseteq> specs_in d"
proof -
  let ?f = "\<lambda>s. if gs_status s = GenerationScheduleActive then superseded_by now s else s"
  have cur: "specs_in (d'\<lparr>gd_current := m\<rparr>) = specs_in d'" for d' m by (simp add: specs_in_def)
  show retire: "specs_in (snd (retireCurrentSQL sha now e d)) = specs_in d" for e
    by (simp add: retireCurrentSQL_def Let_def cur specs_upd)
  show "specs_in (snd (forgetRepositorySQL now name stages d)) = specs_in d"
    by (rule specs_map [where f = "\<lambda>s. if gs_repository s = name \<and> gs_status s = GenerationScheduleActive \<and> gs_stage s \<in> set stages
      then superseded_by now s else s"]) (simp_all add: forgetRepositorySQL_def)
  show "specs_in (snd (diagnosticFenceSQL sha now c d)) = specs_in d"
    by (simp add: diagnosticFenceSQL_def Let_def cur specs_upd)
  have x: "same_static (t\<lparr>gs_next := a, gs_materialized := gs_materialized t + b, gs_pending := gs_pending t + b, gs_updated := now\<rparr>) t" for t a b
    by (simp add: same_static_def spec_of_def)
  have up: "specs_in (upd_sched g f d1) = specs_in d" if "gd_schedules d1 = gd_schedules d" "\<And>t. same_static (f t) t" for g f d1
    using specs_upd [of f g d1, OF that(2)] specs_same [OF that(1)] by simp
  show "specs_in (snd (expandGenerationScheduleSQL sha now fence ids e d)) = specs_in d"
    by (auto simp: expandGenerationScheduleSQL_def Let_def dest!: create_chunks_Inr(1) split: sum.splits intro!: up x)
  have repo: "specs_in (upd_repo k f d') = specs_in d'" "gd_schedules (upd_chunk i g d') = gd_schedules d'"
    "specs_in (upd_chunk i g d') = specs_in d'" for k f i g d'
    by (simp_all add: specs_in_def upd_repo_def upd_chunk_def)
  show "specs_in (snd (claimGenerationChunkSQL sha now fence plan e worker lease chunk d)) = specs_in d"
    by (auto simp: claimGenerationChunkSQL_def Let_def repo split: option.splits intro!: up)
  show "specs_in (snd (fenceServiceStateV3CandidateAdvance sha now plans repository prior upcoming d)) = specs_in d"
    by (rule fence_cases [of sha now plans repository prior upcoming d]) (simp_all add: cur specs_upd)
  show "specs_in (snd (beginTypedIndexRetirementSQL sha now observed root repository d)) = specs_in d"
    by (simp add: beginTypedIndexRetirementSQL_def retire)
  show "specs_in (snd (collectGenerationScheduleSQL sha plan e retained limit chunks d)) \<subseteq> specs_in d"
    by (auto simp: collectGenerationScheduleSQL_def specs_in_def Let_def)
qed

lemma specs_run:
  assumes "keys_ok d"
  shows "specs_in (run_gop sha now op d) \<subseteq> specs_in d \<union> enqueued op"
  using specs_enqueue [OF assms] specs_schedules specs_leases specs_retry
  by (cases op) (simp_all add: releaseGenerationChunkSQL_def)

text \<open>Among specifications with different digests, a digest determines what it names.\<close>

lemma seen_among:
  assumes "inj_on (generationScheduleDigest sha) S" and "gen_inv sha now d" "specs_in d \<subseteq> S"
    and "spec_of e \<in> S" "gs_digest e = generationScheduleDigest sha (spec_of e)"
  shows "seen_schedule e d"
  unfolding seen_schedule_def
proof (intro ballI impI)
  fix s assume s: "s \<in> set (gd_schedules d)" "gs_digest s = gs_digest e"
  have "gs_digest s = generationScheduleDigest sha (spec_of s)" using schedule_row(3) [OF assms(2) s(1)] by (simp add: static_ok_def)
  moreover have "spec_of s \<in> S" using s(1) assms(3) by (auto simp: specs_in_def)
  ultimately show "spec_of s = spec_of e" using inj_onD [OF assms(1)] assms(4,5) s(2) by metis
qed

lemma known_among:
  assumes "inj_on (generationScheduleDigest sha) S" and "gen_inv sha now d" "specs_in d \<subseteq> S" and "p \<in> S"
  shows "digest_known sha p d"
  unfolding digest_known_def
proof (intro ballI impI)
  fix s assume s: "s \<in> set (gd_schedules d)" "gs_digest s = generationScheduleDigest sha p"
  have "gs_digest s = generationScheduleDigest sha (spec_of s)" using schedule_row(3) [OF assms(2) s(1)] by (simp add: static_ok_def)
  moreover have "spec_of s \<in> S" using s(1) assms(3) by (auto simp: specs_in_def)
  ultimately show "spec_of s = p" using inj_onD [OF assms(1)] assms(4) s(2) by metis
qed

section \<open>Calls\<close>

definition gworld_in :: "hasher \<Rightarrow> (gdata \<Rightarrow> bool) \<Rightarrow> (gop \<Rightarrow> bool) \<Rightarrow> gworld \<Rightarrow> bool" where
  "gworld_in sha I A w \<longleftrightarrow> gen_inv sha (gw_now w) (gw_data w) \<and> 0 < gw_now w \<and> I (gw_data w) \<and>
     list_all (\<lambda>ev. list_all (\<lambda>(n, t). A t) (ge_others ev)) (gw_script w)"

definition own_txn :: "hasher \<Rightarrow> (gdata \<Rightarrow> bool) \<Rightarrow> (int \<Rightarrow> gdata \<Rightarrow> (serr + 'a) \<times> gdata) \<Rightarrow> bool" where
  "own_txn sha I f \<longleftrightarrow> (\<forall>now d. gen_inv sha now d \<longrightarrow> 0 < now \<longrightarrow> I d \<longrightarrow> gen_inv sha now (snd (f now d)) \<and> I (snd (f now d)))"

lemma gworld_inD: "gworld_in sha I A w \<Longrightarrow> gen_inv sha (gw_now w) (gw_data w) \<and> I (gw_data w)"
  by (simp add: gworld_in_def)

lemma own_read: "own_txn sha I (read_call f)"
  by (simp add: own_txn_def read_call_def)

locale closed_world =
  fixes sha :: hasher and I :: "gdata \<Rightarrow> bool" and A :: "gop \<Rightarrow> bool"
  assumes others_keep: "gen_inv sha clock d \<Longrightarrow> I d \<Longrightarrow> A t \<Longrightarrow> I (run_gop sha now t d)"
begin

lemma own_op:
  assumes "\<And>now d. gen_inv sha now d \<Longrightarrow> 0 < now \<Longrightarrow> I d \<Longrightarrow> gop_ok sha d (op now d)"
    and "\<And>now d. snd (f now d) = run_gop sha now (op now d) d" and "\<And>now d. A (op now d)"
  shows "own_txn sha I f"
  unfolding own_txn_def
proof (intro allI impI)
  fix now d assume inv: "gen_inv sha now d" and now: "0 < now" and d: "I d"
  show "gen_inv sha now (snd (f now d)) \<and> I (snd (f now d))"
    unfolding assms(2) using inv_run [OF inv now order_refl assms(1) [OF inv now d]] others_keep [OF inv d assms(3)] by blast
qed

lemma others_in:
  assumes "gen_inv sha clock d" "0 < clock" "I d" "list_all (\<lambda>(n, t). A t) ts"
  shows "gen_inv sha (fst (run_gops sha clock ts d)) (snd (run_gops sha clock ts d)) \<and> clock \<le> fst (run_gops sha clock ts d) \<and>
    I (snd (run_gops sha clock ts d))"
  using assms
proof (induction ts arbitrary: clock d)
  case (Cons a ts)
  obtain n t where a: "a = (n, t)" by (cases a)
  show ?case
  proof (cases "gop_ok sha d t")
    case True
    have "gen_inv sha (max clock n) (run_gop sha (max clock n) t d)"
      by (rule inv_run [OF Cons.prems(1,2) _ True]) simp
    moreover have "I (run_gop sha (max clock n) t d)"
      by (rule others_keep [OF Cons.prems(1,3)]) (use Cons.prems(4) a in simp)
    ultimately show ?thesis
      using Cons.IH [of "max clock n" "run_gop sha (max clock n) t d"] Cons.prems(2,4) True a by auto
  next
    case False
    then show ?thesis using Cons.IH [OF Cons.prems(1-3)] Cons.prems(4) a by simp
  qed
qed simp

lemma call_in:
  assumes w: "gworld_in sha I A w" and f: "own_txn sha I f" and run: "gen_call sha f w = (r, w')"
  shows "gworld_in sha I A w'" "r = Inr v \<Longrightarrow> \<exists>now d. gen_inv sha now d \<and> I d \<and> f now d = (Inr v, gw_data w')"
proof -
  have inv: "gen_inv sha (gw_now w) (gw_data w)" "0 < gw_now w" "I (gw_data w)" using w by (simp_all add: gworld_in_def)
  have "gworld_in sha I A w' \<and> (r = Inr v \<longrightarrow> (\<exists>now d. gen_inv sha now d \<and> I d \<and> f now d = (Inr v, gw_data w')))"
  proof (cases "gw_script w")
    case Nil
    obtain d where d: "f (gw_now w) (gw_data w) = (r, d)" "w' = w\<lparr>gw_data := d\<rparr>"
      using run Nil by (auto simp: gen_call_def split: prod.splits)
    have "gen_inv sha (gw_now w) d \<and> I d" using f inv d(1) unfolding own_txn_def by (metis snd_conv)
    then show ?thesis using d inv Nil by (auto simp: gworld_in_def intro!: exI [of _ "gw_now w"] exI [of _ "gw_data w"])
  next
    case (Cons ev rest)
    let ?c = "max (gw_now w) (ge_now ev)"
    obtain now d1 where g: "run_gops sha ?c (ge_others ev) (gw_data w) = (now, d1)" by (cases "run_gops sha ?c (ge_others ev) (gw_data w)")
    have "gen_inv sha ?c (gw_data w)" by (rule inv_later [OF inv(1)]) simp
    then have d1: "gen_inv sha now d1" "?c \<le> now" "I d1"
      using others_in [of ?c "gw_data w" "ge_others ev"] inv(2,3) w Cons g by (auto simp: gworld_in_def)
    then have now: "0 < now" using inv(2) by simp
    have fd: "gen_inv sha now (snd (f now d1)) \<and> I (snd (f now d1))" using f d1(1,3) now unfolding own_txn_def by blast
    have "gw_now w' = now \<and> gw_script w' = rest \<and> (gw_data w' = d1 \<and> (\<exists>e. r = Inl e) \<or> gw_data w' = snd (f now d1) \<and> (r = fst (f now d1) \<or> (\<exists>e. r = Inl e)))"
      using run Cons g by (auto simp: gen_call_def Let_def split: qfault.splits prod.splits)
    then show ?thesis using d1 fd now w Cons
      by (auto simp: gworld_in_def prod_eq_iff intro!: exI [of _ now] exI [of _ d1])
  qed
  then show "gworld_in sha I A w'" "r = Inr v \<Longrightarrow> \<exists>now d. gen_inv sha now d \<and> I d \<and> f now d = (Inr v, gw_data w')" by blast+
qed

lemma query_in:
  assumes "gworld_in sha I A w" and f: "own_txn sha I f" and "query_loop n (gen_call sha f) w = (r, w')"
  shows "gworld_in sha I A w' \<and> (\<forall>v. r = Inr v \<longrightarrow> (\<exists>now d. gen_inv sha now d \<and> I d \<and> f now d = (Inr v, gw_data w')))"
  using assms(1,3)
proof (induction n arbitrary: w)
  case 0
  then have c: "gen_call sha f w = (r, w')" by simp
  show ?case using call_in [OF 0(1) f c] by blast
next
  case (Suc n)
  obtain r1 w1 where c: "gen_call sha f w = (r1, w1)" by (cases "gen_call sha f w")
  note s = call_in [OF Suc.prems(1) f c]
  show ?case
  proof (cases "(r1, w1) = (r, w')")
    case True
    then show ?thesis using s by auto
  next
    case False
    then have "query_loop n (gen_call sha f) w1 = (r, w')"
      using Suc.prems(2) c by (auto split: sum.splits if_splits)
    then show ?thesis by (rule Suc.IH [OF s(1)])
  qed
qed

end

interpretation anyone: closed_world sha "\<lambda>d. True" "\<lambda>t. True" for sha
  by unfold_locales simp

interpretation among: closed_world sha "\<lambda>d. specs_in d \<subseteq> S" "\<lambda>t. enqueued t \<subseteq> S" for sha S
  using specs_run gen_invD(1) by unfold_locales blast

abbreviation any_world :: "hasher \<Rightarrow> gworld \<Rightarrow> bool" where
  "any_world sha \<equiv> gworld_in sha (\<lambda>d. True) (\<lambda>t. True)"

abbreviation spec_world :: "hasher \<Rightarrow> gspec set \<Rightarrow> gworld \<Rightarrow> bool" where
  "spec_world sha S \<equiv> gworld_in sha (\<lambda>d. specs_in d \<subseteq> S) (\<lambda>t. enqueued t \<subseteq> S)"

lemma reachable_anyone: "gen_reachable sha (gw_now w, gw_data w) \<Longrightarrow> any_world sha w"
  using reachable_inv by (auto simp: gworld_in_def list_all_iff)

lemma reachable_among:
  assumes "gen_reachable sha (gw_now w, gw_data w)" "world_specs w \<subseteq> S"
  shows "spec_world sha S w"
proof -
  have "enqueued t \<subseteq> S" if "ev \<in> set (gw_script w)" "(n, t) \<in> set (ge_others ev)" for ev n t
    using assms(2) that unfolding world_specs_def by blast
  moreover have "specs_in (gw_data w) \<subseteq> S" using assms(2) unfolding world_specs_def by blast
  ultimately show ?thesis using reachable_inv [OF assms(1)] unfolding gworld_in_def list_all_iff by blast
qed

end
