(* ===== verification/Generation_Outcomes.thy ===== *)
theory Generation_Outcomes
  imports Generation_Worlds
begin

text \<open>
  What the methods of \<open>Generation_Client\<close> report, in a world with other clients (collectors of old schedules
  among them), lost answers and retries:
  a lease that was handed back is a pending row, an enqueued schedule is the current one of its stage, and
  a claimed chunk is leased to the caller alone, within the tokens of its repository.
\<close>

section \<open>Leases handed back\<close>

definition row_with :: "gchunk \<Rightarrow> (gchunk \<Rightarrow> bool) \<Rightarrow> gdata \<Rightarrow> bool" where
  "row_with c P d \<longleftrightarrow> (\<exists>x \<in> set (gd_chunks d). same_claim c x \<and> P x)"

lemma row_end_lease:
  assumes own: "list_ex Q (gd_chunks d)" and Q: "\<And>x. Q x \<Longrightarrow> gc_id x = gc_id c \<and> same_claim c (fc x) \<and> P (fc x)"
  shows "row_with c P (end_lease sha now c fc fs d)"
proof -
  obtain r where r: "r \<in> set (gd_chunks d)" "Q r" using own by (auto simp: list_ex_iff)
  then have "fc r \<in> set (gd_chunks (end_lease sha now c fc fs d))"
    unfolding end_lease_chunks set_map using Q [OF r(2)] by (intro image_eqI [of _ _ r]) simp_all
  then show ?thesis using Q [OF r(2)] unfolding row_with_def by blast
qed

lemma lease_row_claim: "chunk_lease_row c x \<Longrightarrow> gc_id x = gc_id c \<and> same_claim c x \<and> gc_claimed_by x = gc_claimed_by c"
  by (simp add: chunk_lease_row_def generationLeaseScope_def same_claim_def)

lemma fail_row:
  assumes "failGenerationChunkSQL sha now live c err d = (Inr t, d')" "transition_answer t = None"
  shows "row_with c (\<lambda>x. gc_status x = GenerationChunkFailed \<and> gc_claimed_by x = gc_claimed_by c \<and> gc_error x = err) d'"
proof -
  have "owned c d" "d' = end_lease sha now c (\<lambda>x. (settle_chunk GenerationChunkFailed True now x)\<lparr>gc_error := err\<rparr>) (fail_sched True now) d"
    using assms by (auto simp: failGenerationChunkSQL_def transition_answer_def Let_def split: option.splits if_splits)
  then show ?thesis unfolding owned_def
    by (elim ssubst, intro row_end_lease [where Q = "chunk_lease_row c"]) (auto simp: settle_chunk_def same_claim_def dest!: lease_row_claim)
qed

lemma defer_row:
  assumes "deferGenerationChunkSQL sha now live c reason nb d = (Inr t, d')" "transition_answer t = None"
  shows "row_with c (\<lambda>x. gc_status x = GenerationChunkPending \<and> gc_not_before x = Some nb \<and> gc_error x = reason \<and> gc_lease x = []) d'"
proof -
  have "owned c d" "d' = end_lease sha now c (requeue_chunk True nb reason) (requeue_sched True now) d"
    using assms by (auto simp: deferGenerationChunkSQL_def transition_answer_def Let_def split: option.splits if_splits)
  then show ?thesis unfolding owned_def
    by (elim ssubst, intro row_end_lease [where Q = "chunk_lease_row c"]) (auto simp: requeue_chunk_def same_claim_def dest!: lease_row_claim)
qed

lemma own_fail: "own_txn sha (\<lambda>d. True) (\<lambda>now. failGenerationChunkSQL sha now live c err)"
  by (rule anyone.own_op [where op = "\<lambda>now d. OpFail live c err"]) simp_all

lemma own_defer: "own_txn sha (\<lambda>d. True) (\<lambda>now. deferGenerationChunkSQL sha now live c reason (nb now))"
  by (rule anyone.own_op [where op = "\<lambda>now d. OpDefer live c reason (nb now)"]) simp_all

lemma own_release: "own_txn sha (\<lambda>d. True) (\<lambda>now. releaseGenerationChunkSQL sha now live c reason)"
  by (rule anyone.own_op [where op = "\<lambda>now d. OpRelease live c reason"]) simp_all

lemma lease_call_reported:
  assumes w: "any_world sha w" and f: "own_txn sha (\<lambda>d. True) f" and run: "lease_call txt sha f c w = (None, w')"
  shows "\<exists>now d t. f now d = (Inr t, gw_data w') \<and> transition_answer t = None"
proof -
  obtain q where q: "queryGenerationSchedule sha f w = (q, w')"
    using run by (auto simp: lease_call_def split: option.splits prod.splits sum.splits)
  obtain t where t: "q = Inr t" "transition_answer t = None"
    using run q by (auto simp: lease_call_def split: option.splits sum.splits)
  show ?thesis using anyone.query_in [OF w f q [unfolded queryGenerationSchedule_def]] t by blast
qed

lemma fail_reported:
  assumes "any_world sha w" and "FailGenerationChunk sha live c msg w = (None, w')"
  shows "row_with c (\<lambda>x. gc_status x = GenerationChunkFailed \<and> gc_claimed_by x = gc_claimed_by c \<and>
    gc_error x = boundedGenerationError msg) (gw_data w')"
  using lease_call_reported [OF assms(1) own_fail assms(2) [unfolded FailGenerationChunk_def]] fail_row by blast

lemma release_reported:
  assumes "any_world sha w" and "ReleaseGenerationChunk sha live c reason w = (None, w')"
  shows "row_with c (\<lambda>x. gc_status x = GenerationChunkPending \<and> gc_lease x = [] \<and> gc_error x = boundedGenerationError reason) (gw_data w')"
proof -
  obtain now d t where t: "releaseGenerationChunkSQL sha now live c (boundedGenerationError reason) d = (Inr t, gw_data w')" "transition_answer t = None"
    using lease_call_reported [OF assms(1) own_release assms(2) [unfolded ReleaseGenerationChunk_def]] by blast
  show ?thesis using defer_row [OF t [unfolded releaseGenerationChunkSQL_def]] unfolding row_with_def by blast
qed

lemma defer_reported:
  assumes w: "any_world sha w" and run: "DeferGenerationChunk sha live wall c reason delay w = (None, w')"
  shows "\<exists>now. row_with c (\<lambda>x. gc_status x = GenerationChunkPending \<and> gc_not_before x = Some (wall now + delay) \<and>
    gc_error x = boundedGenerationError reason \<and> gc_lease x = []) (gw_data w')"
proof -
  let ?f = "\<lambda>now. deferGenerationChunkSQL sha now live c (boundedGenerationError reason) (wall now + delay)"
  obtain t where t: "query_loop (maxQueueRetries - 1) (gen_call sha ?f) w = (Inr t, w')" "transition_answer t = None"
    using run by (auto simp: DeferGenerationChunk_def split: option.splits if_splits prod.splits sum.splits)
  have "\<exists>now d. ?f now d = (Inr t, gw_data w')"
    using anyone.query_in [OF w own_defer [where nb = "\<lambda>now. wall now + delay"] t(1)] by blast
  then obtain now d where "?f now d = (Inr t, gw_data w')" by blast
  then show ?thesis using defer_row t(2) by blast
qed

section \<open>Enqueued schedules\<close>

lemma normalize_id: "normalizeGenerationScheduleSpec p = Inr q \<Longrightarrow> q = p"
  by (auto simp: normalizeGenerationScheduleSpec_def split: if_splits)

text \<open>\<open>S\<close> holds the specifications in play, which have different digests.\<close>

lemma own_enqueue:
  assumes "normalizeGenerationScheduleSpec p = Inr p" "inj_on (generationScheduleDigest sha) S" "p \<in> S"
  shows "own_txn sha (\<lambda>d. specs_in d \<subseteq> S) (\<lambda>now. enqueueGenerationScheduleSQL sha now (fence now) p observed)"
  by (rule among.own_op [where op = "\<lambda>now d. OpEnqueue (fence now) p observed"]) (use assms known_among in auto)

lemma enqueue_points:
  assumes run: "enqueueGenerationScheduleSQL sha now fence p prior d = (Inr rows, d')" and inv: "gen_inv sha clock d'"
    and s: "s \<in> set rows" and answer: "enqueue_answer sha p (fst prior) s = Inr x"
  shows "x = s \<and> s \<in> set (gd_schedules d') \<and> spec_of s = p \<and> gs_digest s = generationScheduleDigest sha p \<and>
    current_digest sha (gp_repository p) (gp_stage p) d' = Some (generationScheduleDigest sha p)"
proof -
  have in_d: "s \<in> set (gd_schedules d')" using run s by (auto simp: enqueueGenerationScheduleSQL_def Let_def split: if_splits)
  have a: "x = s" "spec_of s = p" "gs_digest s = generationScheduleDigest sha p"
    "gs_status s = GenerationScheduleActive \<or> fst prior = Some (generationScheduleDigest sha p)"
    using answer by (auto simp: enqueue_answer_def split: if_splits)
  have key: "gs_repository s = gp_repository p" "gs_stage s = gp_stage p" using a(2) by (auto simp: spec_of_def)
  show ?thesis
  proof (cases "gs_status s = GenerationScheduleActive")
    case True
    have "is_cur sha (gd_current d') s" by (rule active_cur [OF inv in_d True])
    then show ?thesis using a in_d key by (auto simp: is_cur_def current_digest_Some)
  next
    case False
    then have "fst prior = Some (generationScheduleDigest sha p)" using a(4) by blast
    moreover have "prior = enqueueGenerationSchedulePriorSQL sha p d"
      using run by (auto simp: enqueueGenerationScheduleSQL_def Let_def split: if_splits)
    ultimately have "current_digest sha (gp_repository p) (gp_stage p) d' = Some (generationScheduleDigest sha p)"
      using run by (auto simp: enqueueGenerationScheduleSQL_def Let_def current_digest_def split: if_splits)
    then show ?thesis using a in_d by blast
  qed
qed

lemma enqueue_loop_reported:
  assumes w: "spec_world sha S w"
    and p: "normalizeGenerationScheduleSpec p = Inr p" "inj_on (generationScheduleDigest sha) S" "p \<in> S"
    and run: "enqueue_loop left sha fence p w = (Inr s, w')"
  shows "spec_world sha S w' \<and> s \<in> set (gd_schedules (gw_data w')) \<and> spec_of s = p \<and> gs_digest s = generationScheduleDigest sha p \<and>
    current_digest sha (gp_repository p) (gp_stage p) (gw_data w') = Some (generationScheduleDigest sha p)"
  using w run
proof (induction left arbitrary: w rule: less_induct)
  case (less left)
  let ?r = "read_call (enqueueGenerationSchedulePriorSQL sha p)"
  obtain q w1 where q: "gen_call sha ?r w = (q, w1)" by (cases "gen_call sha ?r w")
  note r = among.call_in [OF less.prems(1) own_read q]
  have again: "?thesis" if "enqueue_loop (left - 1) sha fence p v = (Inr s, w')" "spec_world sha S v" "0 < left" for v
    by (rule less.IH [OF _ that(2,1)]) (use that(3) in simp)
  show ?case
  proof (cases q)
    case (Inl e)
    then show ?thesis using less.prems(2) q again [OF _ r(1)] by (subst (asm) enqueue_loop.simps) (auto split: if_splits)
  next
    case (Inr prior)
    let ?f = "\<lambda>now. enqueueGenerationScheduleSQL sha now (fence now) p prior"
    obtain t w2 where t: "gen_call sha ?f w1 = (t, w2)" by (cases "gen_call sha ?f w1")
    note f = among.call_in [OF r(1) own_enqueue [OF p] t]
    have cond: "\<not> gw_done w1" "\<not> length (snd prior) > 1" "\<not> (case fst prior of None \<Rightarrow> False | Some old \<Rightarrow> \<not> validSHA256 old)"
      using less.prems(2) q Inr by (subst (asm) enqueue_loop.simps, auto split: if_splits)+
    show ?thesis
    proof (cases t)
      case (Inl e)
      then show ?thesis using less.prems(2) q Inr t cond again [OF _ f(1)]
        by (subst (asm) enqueue_loop.simps) (auto split: if_splits)
    next
      case t: (Inr rows)
      obtain x where rows: "rows = [x]" "enqueue_answer sha p (fst prior) x = Inr s" "w' = w2"
        using less.prems(2) q Inr t \<open>gen_call sha ?f w1 = (t, w2)\<close> cond
        by (subst (asm) enqueue_loop.simps) (auto split: if_splits list.splits)
      obtain now d where d: "?f now d = (Inr rows, gw_data w2)" "gen_inv sha now d" using f(2) [OF t] by blast
      have "gen_inv sha (gw_now w2) (gw_data w2)" using f(1) by (simp add: gworld_in_def)
      then show ?thesis using enqueue_points [OF d(1) _ _ rows(2)] f(1) rows(1,3) by simp
    qed
  qed
qed

section \<open>Claimed chunks\<close>

text \<open>A candidate: a row as it was once read, its specification in play.\<close>

definition candidate_in :: "hasher \<Rightarrow> gspec set \<Rightarrow> gsched \<Rightarrow> bool" where
  "candidate_in sha S e \<longleftrightarrow> spec_of e \<in> S \<and> gs_digest e = generationScheduleDigest sha (spec_of e)"

lemma own_claim:
  assumes "inj_on (generationScheduleDigest sha) S" "candidate_in sha S e"
  shows "own_txn sha (\<lambda>d. specs_in d \<subseteq> S) (\<lambda>now. claimGenerationChunkSQL sha now fence (plans now g) e worker lease chunk)"
  by (rule among.own_op [where op = "\<lambda>now d. OpClaim fence (plans now g) e worker lease chunk"])
    (use assms seen_among in \<open>auto simp: candidate_in_def\<close>)

lemma own_selection: "own_txn sha I (selection_call sha live plans e)"
  by (simp add: own_txn_def selection_call_def)

text \<open>The chunk that a claim of \<open>e\<close> yields, in the tables it leaves.\<close>

definition leased_chunk :: "hasher \<Rightarrow> gsched \<Rightarrow> gostring \<Rightarrow> gostring \<Rightarrow> gchunk \<Rightarrow> gdata \<Rightarrow> bool" where
  "leased_chunk sha e worker lease c d \<longleftrightarrow>
     c \<in> set (gd_chunks d) \<and> gc_status c = GenerationChunkRunning \<and> gc_claimed_by c = worker \<and> gc_lease c = lease \<and>
     gc_digest c = gs_digest e \<and> gc_class c = gs_class e \<and> gc_repository c = gs_repository e \<and>
     current_digest sha (gs_repository e) (gs_stage e) d = Some (gs_digest e) \<and>
     (\<exists>s \<in> set (gd_schedules d). gs_digest s = gs_digest e \<and> spec_of s = spec_of e \<and> gs_status s = GenerationScheduleActive) \<and>
     num (running_at sha (generationRepositoryID sha (gs_repository e))) (gd_chunks d) \<le> gs_tokens e"

lemma claim_leases:
  assumes inv: "gen_inv sha clock d" and seen: "seen_schedule e d" and inv': "gen_inv sha clock' d'"
    and run: "claimGenerationChunkSQL sha now fence plan e worker lease chunk d = (Inr (c # cs), d')"
  shows "leased_chunk sha e worker lease c d'"
proof -
  let ?F = "\<lambda>c. if gc_status c = GenerationChunkPending then claim_chunk now worker lease c else c"
  let ?k = "generationRepositoryID sha (gs_repository e)"
  have sel: "claimGenerationChunkSelectionSQL sha now plan e d = Some chunk"
    using run by (auto simp: claimGenerationChunkSQL_def Let_def split: if_splits option.splits)
  obtain x where x: "x \<in> set (gd_chunks d)" "gc_id x = chunk" "gc_status x = GenerationChunkPending" "gc_digest x = gs_digest e"
    using candidate_row [OF sel] .
  have "filter (\<lambda>c. gc_id c = chunk \<and> gc_status c = GenerationChunkPending) (gd_chunks d) = [x]"
    using claimed_rows [OF gen_invD(1) [OF inv] x(1), of "\<lambda>c. gc_status c = GenerationChunkPending"] x(2,3) by simp
  then have c: "c = claim_chunk now worker lease x" and d': "d' = upd_repo ?k (claim_repo now) (upd_sched (gs_digest e) (claim_sched now) (upd_chunk chunk ?F d))"
    using run sel by (auto simp: claimGenerationChunkSQL_def Let_def split: if_splits)
  obtain s where s: "s \<in> set (gd_schedules d)" "gs_digest s = gs_digest e" "gs_status s = GenerationScheduleActive"
    using selection_eligible(3) [OF sel] by blast
  have spec: "spec_of s = spec_of e" using seen s(1,2) by (simp add: seen_schedule_def)
  then have se: "gs_repository s = gs_repository e" "gs_class s = gs_class e" by (simp_all add: spec_of_def)
  have xs: "gc_class x = gs_class e" "gc_repository x = gs_repository e"
    using chunk_linked [OF gen_invD(1,2) [OF inv] s(1) x(1)] x(4) s(2) se by (simp_all add: chunk_ok_def)
  have "?F x \<in> set (gd_chunks d')" using x(1,2) by (simp add: d' upd_repo_def upd_sched_def upd_chunk_def)
  then have in_d': "c \<in> set (gd_chunks d')" using x(3) by (simp add: c)
  obtain r where r: "gd_repos d ?k = Some r" using repository_row [OF inv s(1)] se(1) by metis
  have "rs_running r < gs_tokens e" using selection_eligible(2) [OF sel] r by (simp add: repository_free_def)
  moreover have r': "gd_repos d' ?k = Some (claim_repo now r)" using r by (simp add: d' upd_repo_def upd_sched_def upd_chunk_def)
  ultimately have "num (running_at sha ?k) (gd_chunks d') \<le> gs_tokens e"
    using repos_okD(2) [OF gen_invD(5) [OF inv'] r'] by (simp add: claim_repo_def)
  moreover have "claim_sched now s \<in> set (gd_schedules d')"
    using s(1,2) by (force simp: d' upd_repo_def upd_sched_def upd_chunk_def)
  moreover have "spec_of (claim_sched now s) = spec_of e" "gs_digest (claim_sched now s) = gs_digest e"
    "gs_status (claim_sched now s) = GenerationScheduleActive"
    using s spec by (simp_all add: claim_sched_def spec_of_def)
  moreover have "current_digest sha (gs_repository e) (gs_stage e) d' = Some (gs_digest e)"
    using selection_eligible(1) [OF sel] by (simp add: d' current_digest_def upd_repo_def upd_sched_def upd_chunk_def)
  ultimately show ?thesis using in_d' x(4) xs unfolding leased_chunk_def by (auto simp: c claim_chunk_def)
qed

lemma claim_schedule_reported:
  assumes "spec_world sha S w" and S: "inj_on (generationScheduleDigest sha) S" "candidate_in sha S e"
    and "claim_schedule left sha live plans e worker lease w = (r, w')"
  shows "spec_world sha S w' \<and> (\<forall>c. r = Inr (Some c) \<longrightarrow> leased_chunk sha e worker lease c (gw_data w'))"
  using assms(1,4)
proof (induction left arbitrary: w rule: less_induct)
  case (less left)
  let ?s = "selection_call sha live plans e"
  obtain q w1 where q: "gen_call sha ?s w = (q, w1)" by (cases "gen_call sha ?s w")
  note s = among.call_in [OF less.prems(1) own_selection q]
  have again: "?case" if "claim_schedule (left - 1) sha live plans e worker lease v = (r, w')" "spec_world sha S v" "0 < left" for v
    by (rule less.IH [OF _ that(2,1)]) (use that(3) in simp)
  show ?case
  proof (cases q)
    case (Inl err)
    then show ?thesis using less.prems(2) q s(1) again [OF _ s(1)]
      by (subst (asm) claim_schedule.simps) (auto split: if_splits)
  next
    case (Inr selected)
    show ?thesis
    proof (cases "gw_done w1 \<or> selected = None")
      case True
      then show ?thesis using less.prems(2) q Inr s(1) by (subst (asm) claim_schedule.simps) (auto split: if_splits)
    next
      case False
      then obtain chunk where sel: "selected = Some chunk" "\<not> gw_done w1" by auto
      let ?f = "\<lambda>now. claimGenerationChunkSQL sha now (live (gs_generation e) (gs_repository e)) (plans now (gs_generation e)) e worker lease chunk"
      obtain t w2 where t: "gen_call sha ?f w1 = (t, w2)" by (cases "gen_call sha ?f w1")
      have own: "own_txn sha (\<lambda>d. specs_in d \<subseteq> S) ?f" by (rule own_claim [OF S])
      note f = among.call_in [OF s(1) own t]
      show ?thesis
      proof (cases t)
        case (Inl err)
        then show ?thesis using less.prems(2) q Inr t sel f(1) again [OF _ f(1)]
          by (subst (asm) claim_schedule.simps) (auto split: if_splits)
      next
        case rows: (Inr rows)
        have res: "w' = w2" "r = Inr (case rows of [] \<Rightarrow> None | c # _ \<Rightarrow> Some c)"
          using less.prems(2) q Inr t sel rows by (subst (asm) claim_schedule.simps, auto split: list.splits)+
        have "leased_chunk sha e worker lease c (gw_data w2)" if "rows = c # cs" for c cs
        proof -
          have "t = Inr (c # cs)" using rows that by simp
          from f(2) [OF this] obtain now d where d: "gen_inv sha now d" "specs_in d \<subseteq> S" "?f now d = (Inr (c # cs), gw_data w2)"
            by (elim exE conjE)
          have "seen_schedule e d" using seen_among [OF S(1) d(1,2)] S(2) by (simp add: candidate_in_def)
          then show ?thesis by (rule claim_leases [OF d(1) _ _ d(3)]) (use gworld_inD [OF f(1)] in blast)
        qed
        then show ?thesis using res f(1) by (auto split: list.splits)
      qed
    qed
  qed
qed

lemma claim_schedules_reported:
  assumes "spec_world sha S w" and S: "inj_on (generationScheduleDigest sha) S" and "\<And>e. e \<in> set es \<Longrightarrow> candidate_in sha S e"
    and "claim_schedules sha live plans tokens worker k es w = (r, w')"
  shows "spec_world sha S w' \<and>
    (\<forall>c. r = Inr c \<longrightarrow> (\<exists>e \<in> set es. \<exists>j. tokens j = Inr (gc_lease c) \<and> leased_chunk sha e worker (gc_lease c) c (gw_data w')))"
  using assms(1,3,4)
proof (induction es arbitrary: k w)
  case (Cons e es)
  show ?case
  proof (cases "tokens k")
    case (Inr lease)
    obtain q w1 where q: "claim_schedule (maxQueueRetries - 1) sha live plans e worker lease w = (q, w1)"
      by (cases "claim_schedule (maxQueueRetries - 1) sha live plans e worker lease w")
    have known: "candidate_in sha S e" using Cons.prems(2) by simp
    note s = claim_schedule_reported [OF Cons.prems(1) S known q]
    have lease: "gc_lease c = lease" if "leased_chunk sha e worker lease c d" for c d using that by (simp add: leased_chunk_def)
    have later: "candidate_in sha S a" if "a \<in> set es" for a using Cons.prems(2) that by simp
    show ?thesis
    proof (cases "q = Inr None")
      case True
      then have run: "claim_schedules sha live plans tokens worker (Suc k) es w1 = (r, w')" using Cons.prems(3) Inr q by simp
      show ?thesis using Cons.IH [OF conjunct1 [OF s] later run] by (metis list.set_intros(2))
    next
      case False
      then consider err where "q = Inl err" | c where "q = Inr (Some c)" by (metis not_None_eq sum.exhaust)
      then show ?thesis
      proof cases
        case 1
        then show ?thesis using Cons.prems(3) Inr q s by auto
      next
        case 2
        then have "leased_chunk sha e worker lease c (gw_data w1)" "r = Inr c" "w' = w1" using Cons.prems(3) Inr q s by auto
        then show ?thesis using s Inr lease by (auto intro!: exI [of _ k])
      qed
    qed
  qed (use Cons.prems in auto)
qed auto

lemma claim_reported:
  assumes w: "spec_world sha S w" and S: "inj_on (generationScheduleDigest sha) S"
    and run: "ClaimGenerationChunk sha live plans tokens class worker w = (Inr c, w')"
  shows "\<exists>e j. gs_class e = class \<and> tokens j = Inr (gc_lease c) \<and> leased_chunk sha e worker (gc_lease c) c (gw_data w')"
proof -
  obtain es w1 where es: "gen_call sha (read_call (claimable_schedules class)) w = (Inr es, w1)"
    and loop: "claim_schedules sha live plans tokens worker 0 es w1 = (Inr c, w')"
    using run by (auto simp: ClaimGenerationChunk_def split: if_splits prod.splits sum.splits)
  note s = among.call_in [OF w own_read es]
  obtain now d where d: "read_call (claimable_schedules class) now d = (Inr es, gw_data w1)" using s(2) by blast
  then have es_in: "e \<in> set (gd_schedules (gw_data w1)) \<and> gs_class e = class" if "e \<in> set es" for e
    using that by (auto simp: read_call_def claimable_schedules_def dest!: in_set_takeD)
  have "candidate_in sha S e" if "e \<in> set es" for e
  proof -
    have inv: "gen_inv sha (gw_now w1) (gw_data w1)" "specs_in (gw_data w1) \<subseteq> S" using gworld_inD [OF s(1)] by blast+
    note row = conjunct1 [OF es_in [OF that]]
    have "gs_digest e = generationScheduleDigest sha (spec_of e)" using schedule_row(3) [OF inv(1) row] by (simp add: static_ok_def)
    moreover have "spec_of e \<in> S" using inv(2) row by (auto simp: specs_in_def)
    ultimately show ?thesis by (simp add: candidate_in_def)
  qed
  then show ?thesis using claim_schedules_reported [OF s(1) S _ loop] es_in by blast
qed

end
