(* ===== verification/Generation_Digests.thy ===== *)
theory Generation_Digests
  imports Generation_Table
begin

text \<open>
  What the digests of \<open>generation_schedule.go\<close> identify. The hashed texts join their fields with NUL bytes;
  only the repository may contain one, and it comes first, so the fields can be read back from the end.
\<close>

section \<open>Fields without NUL\<close>

abbreviation NUL :: char where "NUL \<equiv> CHR 0x00"

lemma join_last: "xs \<noteq> [] \<Longrightarrow> Join c (xs @ [y]) = Join c xs @ c # y"
  by (induction c xs rule: Join.induct) auto

lemma last_field: "c \<notin> set y \<Longrightarrow> c \<notin> set z \<Longrightarrow> u @ c # y = v @ c # z \<Longrightarrow> u = v \<and> y = z"
proof (induction u arbitrary: v)
  case Nil
  then show ?case by (cases v) auto
next
  case (Cons a u)
  show ?case
  proof (cases v)
    case Nil
    then show ?thesis using Cons.prems by auto
  next
    case (Cons b w)
    then show ?thesis using Cons.IH [OF Cons.prems(1,2), of w] Cons.prems(3) by simp
  qed
qed

lemma join_snoc_eq:
  assumes "Join c (xs @ [y]) = Join c (xs' @ [z])" "xs \<noteq> []" "xs' \<noteq> []" "c \<notin> set y" "c \<notin> set z"
  shows "Join c xs = Join c xs' \<and> y = z"
  using last_field [OF assms(4,5)] assms(1) unfolding join_last [OF assms(2)] join_last [OF assms(3)] by blast

lemma decimal_nat_digits: "c \<in> set (decimal_nat n) \<Longrightarrow> 48 \<le> byte c \<and> byte c \<le> 57"
proof (induction n rule: decimal_nat.induct)
  case (1 n)
  show ?case
  proof (cases "n < 10")
    case True
    then show ?thesis using 1(2) by (subst (asm) decimal_nat.simps) (auto simp: of_char_of)
  next
    case False
    then have "c \<in> set (decimal_nat (n div 10)) \<or> c = char_of (48 + n mod 10)" using 1(2) by (subst (asm) decimal_nat.simps) auto
    then show ?thesis using 1(1) [OF False] by (auto simp: of_char_of)
  qed
qed

lemma decimal_nat_nonempty [simp]: "decimal_nat n \<noteq> []"
  by (subst decimal_nat.simps) simp

lemma decimal_nat_inject: "decimal_nat m = decimal_nat n \<Longrightarrow> m = n"
proof (induction m arbitrary: n rule: decimal_nat.induct)
  case (1 m)
  have last: "last (decimal_nat k) = char_of (48 + k mod 10)" for k by (subst decimal_nat.simps) simp
  have d: "(char_of (48 + a mod 10) :: char) = char_of (48 + b mod 10) \<Longrightarrow> a mod 10 = b mod 10" for a b :: nat
  proof -
    assume "(char_of (48 + a mod 10) :: char) = char_of (48 + b mod 10)"
    then have "(of_char (char_of (48 + a mod 10) :: char) :: nat) = of_char (char_of (48 + b mod 10) :: char)" by simp
    then show "a mod 10 = b mod 10" by (simp add: of_char_of)
  qed
  have m10: "m mod 10 = n mod 10" using last [of m] last [of n] 1(2) d by simp
  have short: "length (decimal_nat k) = 1 \<longleftrightarrow> k < 10" for k
    by (subst decimal_nat.simps) (auto simp: Suc_le_eq)
  show ?case
  proof (cases "m < 10")
    case True
    then have "n < 10" using short 1(2) by metis
    then show ?thesis using True m10 by simp
  next
    case False
    then have n: "\<not> n < 10" using short 1(2) by metis
    have "decimal_nat k = decimal_nat (k div 10) @ [char_of (48 + k mod 10)]" if "\<not> k < 10" for k
      using that by (subst decimal_nat.simps) simp
    then have "decimal_nat (m div 10) = decimal_nat (n div 10)" using False n 1(2) by (metis butlast_snoc)
    then have "m div 10 = n div 10" by (rule 1(1) [OF False])
    then show ?thesis using m10 by (metis div_mult_mod_eq)
  qed
qed

lemma decimal_plain: "NUL \<notin> set (decimal i)"
  using decimal_nat_digits [of NUL] by (auto simp: decimal_def)

lemma decimal_inject: "decimal i = decimal j \<Longrightarrow> i = j"
proof -
  assume e: "decimal i = decimal j"
  have minus: "decimal_nat n \<noteq> CHR ''-'' # t" for n t using decimal_nat_digits [of "CHR ''-''" n] by auto
  have "i < 0 \<longleftrightarrow> j < 0" using e minus minus [symmetric] by (auto simp: decimal_def split: if_splits)
  then show ?thesis using e by (auto simp: decimal_def split: if_splits dest!: decimal_nat_inject)
qed

lemma hex_plain: "hex_decode s \<noteq> None \<Longrightarrow> NUL \<notin> set s"
  by (induction s rule: hex_decode.induct) (auto simp: hex_value_def Let_def split: option.splits)

lemma sha_plain: "validSHA256 g \<Longrightarrow> NUL \<notin> set g"
proof -
  assume g: "validSHA256 g"
  then have "NUL \<notin> set (drop 7 g)" "take (length ''sha256:'') g = ''sha256:''"
    using hex_plain unfolding validSHA256_def HasPrefix_def by blast+
  moreover have "length ''sha256:'' = 7" by simp
  ultimately have "NUL \<notin> set (drop 7 g)" "take 7 g = ''sha256:''" by argo+
  then have "NUL \<notin> set (take 7 g @ drop 7 g)" by simp
  then show ?thesis by simp
qed

lemma class_plain: "validGenerationResourceClass c \<Longrightarrow> NUL \<notin> set c"
  by (auto simp: validGenerationResourceClass_def)

text \<open>A token is ASCII: a rune below 128 is a byte.\<close>

lemma decode_low: "decode_rune (c # cs) = Some (r, n) \<Longrightarrow> r < 128 \<Longrightarrow> r = byte c \<and> n = 1"
  by (auto simp: Let_def second_range_def cont_byte_def split: if_splits list.splits)

lemma token_plain: "validGenerationToken s \<Longrightarrow> NUL \<notin> set s"
proof (induction s)
  case (Cons c cs)
  show ?case
  proof (cases "decode_rune (c # cs)")
    case None
    then show ?thesis using Cons.prems by (simp add: validGenerationToken_def runes.simps [of "c # cs"])
  next
    case (Some a)
    obtain r n where a: "a = (r, n)" by (cases a)
    have r: "97 \<le> r \<and> r \<le> 122 \<or> 48 \<le> r \<and> r \<le> 57 \<or> r = 45" and rest: "validGenerationToken (drop n (c # cs))"
      using Cons.prems Some a by (auto simp: validGenerationToken_def runes.simps [of "c # cs"])
    then have "r = byte c" "n = 1" using decode_low [of c cs r n] Some a by auto
    then show ?thesis using Cons.IH rest r by auto
  qed
qed simp

section \<open>Schedules and chunks\<close>

definition schedule_text :: "gspec \<Rightarrow> gostring" where
  "schedule_text p = Join NUL [gp_repository p, gp_stage p, gp_generation p, gp_class p, decimal (gp_items p), decimal (gp_chunk_items p),
     decimal (gp_attempts p), decimal (gp_tokens p)]"

lemma schedule_text_inject:
  assumes p: "normalizeGenerationScheduleSpec p = Inr p" and q: "normalizeGenerationScheduleSpec q = Inr q"
    and same: "schedule_text p = schedule_text q"
  shows "p = q"
proof -
  have plain: "NUL \<notin> set (gp_stage r) \<and> NUL \<notin> set (gp_generation r) \<and> NUL \<notin> set (gp_class r)"
    if "normalizeGenerationScheduleSpec r = Inr r" for r
    using that token_plain sha_plain class_plain by (auto simp: normalizeGenerationScheduleSpec_def split: if_splits)
  note join = join_snoc_eq [of NUL, OF _ _ _ decimal_plain decimal_plain]
  have e: "Join NUL ([gp_repository p, gp_stage p, gp_generation p, gp_class p, decimal (gp_items p), decimal (gp_chunk_items p),
       decimal (gp_attempts p)] @ [decimal (gp_tokens p)]) =
     Join NUL ([gp_repository q, gp_stage q, gp_generation q, gp_class q, decimal (gp_items q), decimal (gp_chunk_items q),
       decimal (gp_attempts q)] @ [decimal (gp_tokens q)])" using same by (simp add: schedule_text_def)
  note j1 = join [OF e]
  have "Join NUL ([gp_repository p, gp_stage p, gp_generation p, gp_class p, decimal (gp_items p), decimal (gp_chunk_items p)] @ [decimal (gp_attempts p)]) =
     Join NUL ([gp_repository q, gp_stage q, gp_generation q, gp_class q, decimal (gp_items q), decimal (gp_chunk_items q)] @ [decimal (gp_attempts q)])"
    using j1 by simp
  note j2 = join [OF this]
  have "Join NUL ([gp_repository p, gp_stage p, gp_generation p, gp_class p, decimal (gp_items p)] @ [decimal (gp_chunk_items p)]) =
     Join NUL ([gp_repository q, gp_stage q, gp_generation q, gp_class q, decimal (gp_items q)] @ [decimal (gp_chunk_items q)])"
    using j2 by simp
  note j3 = join [OF this]
  have "Join NUL ([gp_repository p, gp_stage p, gp_generation p, gp_class p] @ [decimal (gp_items p)]) =
     Join NUL ([gp_repository q, gp_stage q, gp_generation q, gp_class q] @ [decimal (gp_items q)])" using j3 by simp
  note j4 = join [OF this]
  have "Join NUL ([gp_repository p, gp_stage p, gp_generation p] @ [gp_class p]) = Join NUL ([gp_repository q, gp_stage q, gp_generation q] @ [gp_class q])"
    using j4 by simp
  note j5 = join_snoc_eq [OF this]
  have "Join NUL ([gp_repository p, gp_stage p] @ [gp_generation p]) = Join NUL ([gp_repository q, gp_stage q] @ [gp_generation q])"
    using j5 plain [OF p] plain [OF q] by simp
  note j6 = join_snoc_eq [OF this]
  have "Join NUL ([gp_repository p] @ [gp_stage p]) = Join NUL ([gp_repository q] @ [gp_stage q])"
    using j6 plain [OF p] plain [OF q] by simp
  note j7 = join_snoc_eq [OF this]
  show ?thesis using j1 j2 j3 j4 j5 j6 j7 plain [OF p] plain [OF q] decimal_inject by (cases p, cases q) simp
qed

lemma hex_encode_inject: "hex_encode a = hex_encode b \<Longrightarrow> a = b"
  by (metis hex_decode_encode option.inject)

text \<open>Two different hashed texts with one hash.\<close>

definition collision :: "hasher \<Rightarrow> bool" where
  "collision sha \<longleftrightarrow> (\<exists>a b. a \<noteq> b \<and> sha a = sha b)"

lemma digest_inject:
  assumes "generationSchedulerDigest sha d v = generationSchedulerDigest sha d' v'" "NUL \<notin> set d" "NUL \<notin> set d'" "\<not> collision sha"
  shows "d = d' \<and> v = v'"
proof -
  have "sha (d @ [NUL] @ v) = sha (d' @ [NUL] @ v')"
    using assms(1) hex_encode_inject by (simp add: generationSchedulerDigest_def)
  then have "d @ NUL # v = d' @ NUL # v'" using assms(4) by (auto simp: collision_def)
  then have "rev v @ NUL # rev d = rev v' @ NUL # rev d'" by (metis append.assoc append_Cons append_Nil rev.simps(2) rev_append)
  then show ?thesis using last_field [of NUL "rev d" "rev d'" "rev v" "rev v'"] assms(2,3) by simp
qed

text \<open>
  The identities of the scheduler commit to everything they name. Two valid specifications have the same
  schedule digest, and two chunks the same identity, only when all their fields agree, offsets and attempts
  included, and no schedule has the identity of a chunk; otherwise two different texts with the same hash
  have been found.
\<close>

theorem identities_bind:
  assumes p: "normalizeGenerationScheduleSpec p = Inr p" and q: "normalizeGenerationScheduleSpec q = Inr q"
  shows "(\<exists>a b. a \<noteq> b \<and> sha a = sha b) \<or>
    ((generationScheduleDigest sha p = generationScheduleDigest sha q \<longleftrightarrow> p = q) \<and>
     (generationChunkID sha s i m = generationChunkID sha s' j n \<longleftrightarrow> s = s' \<and> i = j \<and> m = n) \<and>
     (generationRepositoryID sha r = generationRepositoryID sha r' \<longleftrightarrow> r = r') \<and>
     generationScheduleDigest sha p \<noteq> generationChunkID sha s i m)"
proof (cases "collision sha")
  case False
  note inject = digest_inject [OF _ _ _ False]
  have texts: "generationScheduleDigest sha x = generationSchedulerDigest sha ''phebs-generation-schedule-v1'' (schedule_text x)" for x
    by (simp add: generationScheduleDigest_def schedule_text_def)
  have "p = q" if "generationScheduleDigest sha p = generationScheduleDigest sha q"
    using inject [OF that [unfolded texts]] schedule_text_inject [OF p q] by simp
  moreover have "s = s' \<and> i = j \<and> m = n" if "generationChunkID sha s i m = generationChunkID sha s' j n"
  proof -
    have "(s @ NUL # decimal i) @ NUL # decimal m = (s' @ NUL # decimal j) @ NUL # decimal n"
      using inject [OF that [unfolded generationChunkID_def]] by simp
    then have "s @ NUL # decimal i = s' @ NUL # decimal j \<and> decimal m = decimal n" by (rule last_field [OF decimal_plain decimal_plain])
    then show ?thesis using last_field [OF decimal_plain decimal_plain] decimal_inject by blast
  qed
  moreover have "r = r'" if "generationRepositoryID sha r = generationRepositoryID sha r'"
    using inject [OF that [unfolded generationRepositoryID_def]] by simp
  moreover have False if "generationScheduleDigest sha p = generationChunkID sha s i m"
    using inject [OF that [unfolded texts generationChunkID_def]] by simp
  ultimately show ?thesis by metis
qed (simp add: collision_def)

definition bind_spec :: "int \<Rightarrow> gspec" where
  "bind_spec attempts = \<lparr>gp_repository = ''r'', gp_stage = ''s'', gp_generation = ''sha256:'' @ replicate 64 (CHR ''0''),
     gp_class = ''cpu'', gp_items = 1, gp_chunk_items = 1, gp_attempts = attempts, gp_tokens = 1\<rparr>"

lemma bytes_inject: "map (of_char :: char \<Rightarrow> 8 word) a = map of_char b \<Longrightarrow> a = b"
proof (induction a b rule: list_induct2')
  case (4 c a d b)
  have n: "unat (of_char x :: 8 word) = of_char x" for x :: char
  proof -
    have "(of_char x :: 8 word) = word_of_nat (of_char x)" by (rule of_nat_of_char [symmetric])
    moreover have "of_char x mod 256 = (of_char x :: nat)" using nat_of_char_less_256 [of x] by (rule mod_less)
    ultimately show ?thesis by (simp only: unat_of_nat) simp
  qed
  have "(of_char c :: 8 word) = of_char d" using 4(2) by simp
  then have "(of_char c :: nat) = of_char d" by (rule n [THEN subst, OF n [THEN subst, OF arg_cong]])
  then have "c = d" by (rule of_char_eqI)
  moreover have "a = b" using 4 by simp
  ultimately show ?case by simp
qed simp_all

theorem identities_bind_witness:
  "generationScheduleDigest (map of_char) (bind_spec 2) \<noteq> generationScheduleDigest (map of_char) (bind_spec 3)"
proof -
  have v: "normalizeGenerationScheduleSpec (bind_spec 2) = Inr (bind_spec 2)" "normalizeGenerationScheduleSpec (bind_spec 3) = Inr (bind_spec 3)"
    by code_simp+
  have "bind_spec 2 \<noteq> bind_spec 3" by (simp add: bind_spec_def)
  moreover have "\<not> (\<exists>a b. a \<noteq> b \<and> map (of_char :: char \<Rightarrow> 8 word) a = map of_char b)"
    using bytes_inject by blast
  ultimately show ?thesis
    using identities_bind [OF v, where sha = "map of_char" and s = "[]" and s' = "[]" and i = 0 and j = 0 and m = 0 and n = 0
        and r = "[]" and r' = "[]"] by blast
qed

end
