(* ===== verification/Generation_Promises.thy ===== *)
theory Generation_Promises
  imports Generation_Outcomes Generation_Digests
begin

text \<open>
  What a caller of the scheduler's methods can rely on: the schedule it enqueued is the current one, the
  chunk it claimed is leased to it within the repository's tokens, and a chunk it handed back is recorded.
  Each is shown in a world where other clients run any admissible transactions between the calls (enqueues,
  claims, reaps, fences and the collection of old schedules included), answers are lost before or after
  their commit, and attempts are retried. The first two assume that the specifications in play, those the
  tables hold, those other clients enqueue and the caller's own, have different SHA-256 digests.
\<close>

section \<open>Promises\<close>

text \<open>
  C29. An enqueued schedule is the one that will be worked on. When \<open>EnqueueGenerationSchedule\<close> returns a
  schedule, whatever admissible transactions other clients ran in between, collections of old schedules
  included, and whichever of its attempts got lost, then at that moment the tables hold that row, it is
  valid, it has exactly the requested specification, and it is the current schedule of its repository and
  stage. Assumed is that the digests of the specifications in play (stored, enqueued by other clients, and
  the requested one) do not collide.
\<close>

theorem enqueued_schedule_current:
  assumes "gen_reachable sha (gw_now w, gw_data w)"
    and "inj_on (generationScheduleDigest sha) (insert spec (world_specs w))"
    and run: "EnqueueGenerationSchedule sha authority fence spec w = (Inr s, w')"
  shows "s \<in> set (gd_schedules (gw_data w')) \<and> spec_of s = spec \<and> ValidateGenerationSchedule sha s = None \<and>
    current_digest sha (gp_repository spec) (gp_stage spec) (gw_data w') = Some (gs_digest s)"
proof -
  have p: "normalizeGenerationScheduleSpec spec = Inr spec"
    using run normalize_id by (cases "normalizeGenerationScheduleSpec spec") (auto simp: EnqueueGenerationSchedule_def)
  have "enqueue_loop (maxQueueRetries - 1) sha fence spec w = (Inr s, w')"
    using run p by (auto simp: EnqueueGenerationSchedule_def split: if_splits sum.splits)
  from enqueue_loop_reported [OF reachable_among [OF assms(1) subset_insertI] p assms(2) insertI1 this]
  show ?thesis using schedule_row(1) by (auto simp: gworld_in_def)
qed

text \<open>
  C14. A claimed chunk is the caller's. When \<open>ClaimGenerationChunk\<close> returns a chunk, then at that moment its
  row is running under the caller's name with one of the leases it drew, the chunk's schedule has the
  requested class, is active and is current for its repository and stage, and no more chunks of the
  repository run than that schedule has tokens; other clients may have claimed, reaped, superseded or
  collected anything, and enqueued it again, while the candidates were tried. Assumed is that the digests of
  the specifications in play (stored, or enqueued by other clients meanwhile) do not collide.
\<close>

theorem claimed_chunk_leased:
  assumes "gen_reachable sha (gw_now w, gw_data w)"
    and "inj_on (generationScheduleDigest sha) (world_specs w)"
    and "ClaimGenerationChunk sha live plans tokens class worker w = (Inr c, w')"
  shows "c \<in> set (gd_chunks (gw_data w')) \<and> gc_status c = GenerationChunkRunning \<and> gc_claimed_by c = worker \<and>
    (\<exists>k. tokens k = Inr (gc_lease c)) \<and>
    (\<exists>s \<in> set (gd_schedules (gw_data w')). gs_digest s = gc_digest c \<and> gs_class s = class \<and> gs_status s = GenerationScheduleActive \<and>
       current_digest sha (gs_repository s) (gs_stage s) (gw_data w') = Some (gs_digest s) \<and>
       int (length (filter (\<lambda>x. gc_status x = GenerationChunkRunning \<and> gc_repository x = gs_repository s) (gd_chunks (gw_data w')))) \<le> gs_tokens s)"
proof -
  obtain e j where e: "gs_class e = class" "tokens j = Inr (gc_lease c)" "leased_chunk sha e worker (gc_lease c) c (gw_data w')"
    using claim_reported [OF reachable_among [OF assms(1) order_refl] assms(2,3)] by blast
  obtain s where s: "s \<in> set (gd_schedules (gw_data w'))" "gs_digest s = gs_digest e" "spec_of s = spec_of e"
    "gs_status s = GenerationScheduleActive" using e(3) unfolding leased_chunk_def by blast
  have se: "gs_repository s = gs_repository e" "gs_stage s = gs_stage e" "gs_class s = gs_class e" "gs_tokens s = gs_tokens e"
    using s(3) by (simp_all add: spec_of_def)
  have "num (\<lambda>x. gc_status x = GenerationChunkRunning \<and> gc_repository x = gs_repository s) (gd_chunks (gw_data w')) \<le>
      num (running_at sha (generationRepositoryID sha (gs_repository e))) (gd_chunks (gw_data w'))"
    by (rule num_mono) (simp add: running_at_def se)
  also have "\<dots> \<le> gs_tokens s" using e(3) by (simp add: leased_chunk_def se)
  finally show ?thesis using e s se unfolding leased_chunk_def num_def by (intro conjI bexI [of _ s]) auto
qed

text \<open>
  Leases that were given up without an error are recorded: a failed chunk under the worker's name, a released
  or deferred one as a pending row that nobody holds.
\<close>

lemma handed_back_recorded:
  assumes "gen_reachable sha (gw_now w, gw_data w)"
  shows "FailGenerationChunk sha live c msg w = (None, w1) \<Longrightarrow>
      \<exists>x \<in> set (gd_chunks (gw_data w1)). same_claim c x \<and> gc_status x = GenerationChunkFailed \<and> gc_claimed_by x = gc_claimed_by c"
    and "ReleaseGenerationChunk sha live c msg w = (None, w2) \<Longrightarrow>
      \<exists>x \<in> set (gd_chunks (gw_data w2)). same_claim c x \<and> gc_status x = GenerationChunkPending \<and> gc_lease x = []"
    and "DeferGenerationChunk sha live wall c msg delay w = (None, w3) \<Longrightarrow>
      \<exists>x \<in> set (gd_chunks (gw_data w3)). same_claim c x \<and> gc_status x = GenerationChunkPending \<and> gc_lease x = []"
  using fail_reported [OF reachable_anyone [OF assms]] release_reported [OF reachable_anyone [OF assms]]
    defer_reported [OF reachable_anyone [OF assms]] unfolding row_with_def by blast+

section \<open>One enqueue and one claim\<close>

definition first_world :: "gdata \<Rightarrow> gworld" where
  "first_world d = \<lparr>gw_data = d, gw_now = 1, gw_script = [], gw_done = False\<rparr>"

text \<open>Before the first answer another client sweeps: a collector that finds nothing to collect.\<close>

definition sweep_op :: gop where
  "sweep_op = OpCollect None (run_row 1 1 0 0 GenerationScheduleActive None) 1 1 []"

definition swept_world :: "gdata \<Rightarrow> gworld" where
  "swept_world d = \<lparr>gw_data = d, gw_now = 1, gw_script = [\<lparr>ge_others = [(1, sweep_op)], ge_now = 1, ge_fault = QOk, ge_cancels = False\<rparr>],
     gw_done = False\<rparr>"

lemma sweep_keeps: "run_gop sha 1 sweep_op empty_tables = empty_tables" "run_gop run_sha 1 sweep_op run_expanded = run_expanded"
  by (simp_all add: sweep_op_def collectGenerationScheduleSQL_def collectable_def empty_tables_def)
    (simp_all add: run_tables_def run_row_def)

lemma swept_read: "run_gop sha 1 sweep_op d = d \<Longrightarrow> gen_call sha (read_call f) (swept_world d) = (Inr (f d), first_world d)"
  by (simp add: gen_call_def read_call_def swept_world_def first_world_def sweep_op_def)

lemma swept_specs: "world_specs (swept_world d) = specs_in d"
  by (simp add: world_specs_def swept_world_def sweep_op_def)

theorem enqueued_schedule_current_witness:
  "\<exists>s w'. EnqueueGenerationSchedule (map of_char) (\<lambda>r. Inl typed_stale) (\<lambda>now. True) run_spec (swept_world empty_tables) = (Inr s, w') \<and>
     current_digest (map of_char) ''r'' ''s'' (gw_data w') = Some (gs_digest s)"
proof -
  let ?sha = "map of_char :: hasher" and ?f = "\<lambda>now. True"
  have p: "normalizeGenerationScheduleSpec run_spec = Inr run_spec" by code_simp
  have field: "gp_repository run_spec = ''r''" "gp_stage run_spec = ''s''" "gp_class run_spec = ''cpu''" by (simp_all add: run_spec_def)
  have prior: "enqueueGenerationSchedulePriorSQL ?sha run_spec empty_tables = (None, [])"
    by (simp add: enqueueGenerationSchedulePriorSQL_def current_digest_def empty_tables_def)
  obtain d where sql: "enqueueGenerationScheduleSQL ?sha 1 True run_spec (None, []) empty_tables = (Inr [new_schedule ?sha run_spec 1], d)"
    by (simp add: enqueueGenerationScheduleSQL_def prior field Let_def) (simp add: empty_tables_def)
  have "enqueue_loop n ?sha ?f run_spec (swept_world empty_tables) = (Inr (new_schedule ?sha run_spec 1), first_world d)" for n
    by (subst enqueue_loop.simps) (simp add: swept_read sweep_keeps, simp add: gen_call_def first_world_def prior sql enqueue_answer_def)
  then have run: "EnqueueGenerationSchedule ?sha (\<lambda>r. Inl typed_stale) ?f run_spec (swept_world empty_tables) =
      (Inr (new_schedule ?sha run_spec 1), first_world d)"
    by (simp add: EnqueueGenerationSchedule_def p field)
  have "gen_reachable ?sha (gw_now (swept_world empty_tables), gw_data (swept_world empty_tables))"
    by (rule reachable_init) (simp add: swept_world_def)
  moreover have "inj_on (generationScheduleDigest ?sha) (insert run_spec (world_specs (swept_world empty_tables)))"
    unfolding swept_specs by (simp add: specs_in_def empty_tables_def)
  ultimately have "current_digest ?sha (gp_repository run_spec) (gp_stage run_spec) (gw_data (first_world d)) =
      Some (gs_digest (new_schedule ?sha run_spec 1))"
    using enqueued_schedule_current [OF _ _ run] by blast
  then show ?thesis using run unfolding field by blast
qed

lemma run_claim_sql:
  "claimGenerationChunkSQL run_sha 1 True None (run_row 1 1 0 0 GenerationScheduleActive None) ''w'' ''l'' ''c'' run_expanded =
     (Inr [run_lease], run_claimed)"
  by (simp add: claimGenerationChunkSQL_def claimGenerationChunkSelectionSQL_def claim_candidates_def plan_admits_def state_phase_def
      schedule_ready_def repository_free_def current_digest_def run_ids grun_defs claim_chunk_def claim_sched_def claim_repo_def
      upd_chunk_def upd_sched_def upd_repo_def Let_def)

lemma run_select:
  "claimGenerationChunkSelectionSQL run_sha 1 None (run_row 1 1 0 0 GenerationScheduleActive None) run_expanded = Some ''c''"
  by (simp add: claimGenerationChunkSelectionSQL_def claim_candidates_def plan_admits_def state_phase_def
      schedule_ready_def repository_free_def current_digest_def run_ids grun_defs)

theorem claimed_chunk_leased_witness:
  "\<exists>w'. ClaimGenerationChunk run_sha (\<lambda>g r. True) (\<lambda>now g. None) (\<lambda>k. Inr ''l'') ''cpu'' ''w'' (swept_world run_expanded) = (Inr run_lease, w') \<and>
     (\<exists>s \<in> set (gd_schedules (gw_data w')). gs_digest s = run_zero \<and> gs_class s = ''cpu'' \<and> gs_status s = GenerationScheduleActive)"
proof -
  let ?e = "run_row 1 1 0 0 GenerationScheduleActive None"
  have ok: "validGenerationResourceClass ''cpu''" "TrimSpace ''w'' = ''w''" "ValidString ''w''" by code_simp+
  have "maxGenerationScheduleClaimCandidates = Suc 511"
    by (simp add: maxGenerationScheduleClaimCandidates_def MaxGenerationClaimCandidates_def)
  then have cs: "claimable_schedules ''cpu'' run_expanded = [?e]"
    by (simp add: claimable_schedules_def run_tables_def) (simp add: run_row_def)
  have "claim_schedule n run_sha (\<lambda>g r. True) (\<lambda>now g. None) ?e ''w'' ''l'' (first_world run_expanded) = (Inr (Some run_lease), first_world run_claimed)" for n
    by (subst claim_schedule.simps) (simp add: gen_call_def selection_call_def first_world_def run_select run_claim_sql)
  then have run: "ClaimGenerationChunk run_sha (\<lambda>g r. True) (\<lambda>now g. None) (\<lambda>k. Inr ''l'') ''cpu'' ''w'' (swept_world run_expanded) =
      (Inr run_lease, first_world run_claimed)"
    by (simp add: ClaimGenerationChunk_def ok swept_read sweep_keeps cs)
  have "gen_reachable run_sha (gw_now (swept_world run_expanded), gw_data (swept_world run_expanded))"
    using run_reach(2) by (simp add: swept_world_def)
  moreover have "inj_on (generationScheduleDigest run_sha) (world_specs (swept_world run_expanded))"
    unfolding swept_specs by (simp add: specs_in_def run_tables_def)
  ultimately have "\<exists>s \<in> set (gd_schedules (gw_data (first_world run_claimed))). gs_digest s = gc_digest run_lease \<and> gs_class s = ''cpu'' \<and>
      gs_status s = GenerationScheduleActive"
    using claimed_chunk_leased [OF _ _ run] by blast
  moreover have "gc_digest run_lease = run_zero" by (simp add: run_chunk_def)
  ultimately show ?thesis using run by auto
qed

end
