(* ===== verification/Spec2Isabelle.thy ===== *)
theory Spec2Isabelle
  imports Owners_Safety Lifecycle_Runner Lifecycle_Jobs Lifecycle_Status Read_Accounting
    Pipeline_Refusal Job_Runner Source_Superroot Generation_Promises
begin

text \<open>
  A verification development for \<open>phebs\<close>, a self-hosted code-intelligence server written in Go. The
  server mirrors Git repositories, indexes them, extracts evidence and publishes immutable generations
  of artifacts; its state is a SurrealDB database and a data directory. This development models the
  parts that decide whether such a generation is produced, kept and collected correctly: the barrier
  that drains work, the collector of old state and its disk-pressure gate, the durable job queue with
  its workers, the scheduler of generation work, the accounting and refusal envelopes around them, the identities of repositories and
  the partition planner of source generations.

  \<^bold>\<open>Prelude.\<close> \<open>Go_Base\<close> has Go's integers at 64 bits, byte strings and their order, contexts,
  \<open>sort.Search\<close>, and the two locales every stateful component interprets: \<open>invariant_system\<close> (an
  invariant of a transition system holds in every reachable state) and \<open>sticky_latch\<close> (the first
  failure is kept). \<open>Go_Errors\<close> has error values as trees with \<open>errors.Is\<close>, \<open>errors.As\<close> and
  \<open>errors.Join\<close>; \<open>Go_Strings\<close> has UTF-8 decoding, trimming, splitting and joining; \<open>Go_Json\<close> the tokens of
  \<open>encoding/json\<close> and that plain texts and decimals are read back.

  \<^bold>\<open>Owner barrier\<close> (\<open>internal/dispatchadmission/owners.go\<close>, \<open>owner_measurement.go\<close>). \<open>Owners\<close> has every
  method as an atomic segment under the mutex, with a waiting call as a pending call of the relation
  \<open>owners_step\<close>; \<open>Owners_Safety\<close> proves the invariant and C1, C2, C4, C5: ready fences are drained, no wake-up is
  lost, admission refines a bounded set of slots, failures stick; and that a token ends only its own turn.

  \<^bold>\<open>Lifecycle\<close> (\<open>internal/lifecycle\<close>, \<open>internal/store/lifecycle.go\<close>, \<open>job_lifecycle.go\<close>).
  \<open>Lifecycle_Capacity\<close> has the policy, the probe and the pressure gate (C6 the exact percentage, C7 the
  hysteresis). \<open>Lifecycle_Controller\<close> has the fair rotation over durable cursors; Go's \<open>CursorStore\<close>
  interface is the locale \<open>cursor_store\<close>, interpreted on the SurrealDB-backed table whose calls may fail
  before or after they commit (C8--C10). \<open>Lifecycle_Runner\<close> has the pacing decision of a turn (C11),
  \<open>Lifecycle_Jobs\<close> the three-phase collector of finished jobs (C12), \<open>Lifecycle_Status\<close> the owner
  adapters and the status monitor (C15, C16).

  \<^bold>\<open>Accounting and refusals.\<close> \<open>Read_Accounting\<close> has the read ledger and the observers of
  \<open>internal/readaccounting\<close> (C17); \<open>Pipeline_Refusal\<close> the closed refusal envelope of
  \<open>internal/pipelinerefusal\<close> with its strict decoder (C19--C21: what a boundary seals, and that exactly the
  durable texts of valid receipts are read back), which the job errors and the partition planner build on.

  \<^bold>\<open>Durable jobs\<close> (\<open>internal/store/surreal.go\<close>, \<open>class.go\<close>, \<open>runner.go\<close>). \<open>Job_Kinds\<close> and \<open>Job_Errors\<close>
  have the vocabulary; \<open>Job_Table\<close> reads the SurrealQL of every queue method as a transaction on a table
  of rows; \<open>Job_Safety\<close> proves the invariant of every interleaving and C22--C24; \<open>Job_Queue\<close> has the
  methods as the retry loops callers run, against a script of concurrent transactions, faults before and
  after a commit and cancellation (C26--C28); \<open>Job_Runner\<close> has the heartbeat, the retried settlement
  writes and one \<open>execute\<close> turn composed with the queue (C30--C32: how long a handler can outlive its lease,
  that this exceeds the reaper's cutoff, and what a turn settles).

  \<^bold>\<open>Generation scheduler\<close> (\<open>internal/store/generation_schedule.go\<close>, \<open>generation_lifecycle.go\<close>,
  \<open>typed_index_lifecycle.go\<close>, \<open>service_state_v3.go\<close>). A generation's items are cut into chunks that workers lease, complete, retry
  or hand back. \<open>Generation_Table\<close> has the rows, validators, identities and the transactions on schedules;
  \<open>Generation_Leases\<close> those on chunks. \<open>Generation_Safety\<close> states the invariant that ties counters to chunks and
  shows that scheduling keeps it, \<open>Generation_Chunks\<close> and \<open>Generation_Fanout\<close> that every other transaction does;
  \<open>Generation_Fences\<close> has the two transactions of other components that write these tables, the fence of a
  service catalog's successor and the retirement of a typed index. \<open>Generation_Runs\<close> has all of them as one
  transition system: stored rows are valid (C13), an active current
  schedule is never stranded (C18), a complete settlement covers every item once (C25). There a client
  enqueues specifications whose digests do not collide, and draws record identifiers that are new.
  \<open>Generation_Methods\<close> has completion and retry as a worker calls them, with lost answers and reconciliation:
  what they report is recorded (C3), as long as nothing is collected under them. The query of
  \<open>GetGenerationSchedule\<close> reads a pointer and then its row; it is modelled as one read of one state.
  \<open>Generation_Client\<close> has the
  other methods: enqueueing, expanding and retiring schedules, claims over the candidate schedules, heartbeats,
  leases given up, the reaper and the sweep of old schedules. \<open>Generation_Worlds\<close> has the locale of conditions
  that no other client breaks; \<open>Generation_Outcomes\<close> and \<open>Generation_Promises\<close> use it to show, with collectors
  among the other clients and as long as the digests of the specifications in play do not collide, that a claimed chunk is leased to its caller alone within the repository's tokens (C14) and that an
  enqueued schedule is the current one of its stage (C29). \<open>Generation_Digests\<close> shows that the hashed texts
  commit to every field, so equal identities mean equal things or a collision of the hash.

  \<^bold>\<open>Repository identity.\<close> \<open>Repo_Identity\<close> has \<open>reponame.Validate\<close>, \<open>repopath.Validate\<close>, object
  identifiers, digests and the mirror directory, with \<open>path.Clean\<close> (C33).

  \<^bold>\<open>Source partitions\<close> (\<open>internal/sourcepartition\<close>). A source generation is shared out over members by
  prefixes of the hashes of its objects. \<open>Source_Model\<close> has the data and validators (\<open>model.go\<close>);
  \<open>Source_Spool\<close> the planner \<open>planLeaves\<close> with \<open>splitSpool\<close> over a directory of spool files and a script of
  file faults (\<open>plan.go\<close>); \<open>Source_Leaves\<close> that a returned plan is a partition of the selected records (C34);
  \<open>Source_Progress\<close> that within the documented bounds a plan is returned (C35). \<open>Source_Member\<close> has the
  writing and reading of member files, which round trip (C36). \<open>Source_Manifest\<close> has \<open>ValidateManifest\<close>: a valid
  manifest is a partition (C37); \<open>Source_Build\<close> composes planner, members and manifest as \<open>Build\<close> does and shows
  for which inputs the result is accepted (C38). \<open>Source_Segments\<close> has \<open>packSegments\<close>, which is optimal (C39),
  and \<open>Source_Superroot\<close> the root over several segments, read back through control files (C40).

  \<^bold>\<open>Fuel and bounds.\<close> \<open>claim_loop\<close> and \<open>sweep_all\<close> take fuel: C28 and C12 prove that fuel above the length
  of the script, or above the bounded number of turns, gives a result. \<open>queue_retry\<close>, \<open>query_loop\<close>, \<open>enqueue_loop\<close> and
  \<open>claim_schedule\<close> have the code's own 64 attempts. \<open>splitSpool\<close> recurses on the 256 bits of a hash and needs no fuel. Every other loop is
  structural. 64-bit arithmetic is written with \<open>wrap64\<close> or \<open>u64\<close> where the code can wrap and with
  \<open>int\<close> where a guard keeps it in range.

  \<^bold>\<open>Parameters.\<close> Hash functions, the JSON of member and manifest files, system calls, clocks, random identifiers and
  the callbacks of other packages are arguments of the definitions that use them.

  \<^bold>\<open>Not modelled.\<close> HTTP and MCP handlers, authentication, configuration and the command line; Git child
  processes, code-host synchronisation, search and code navigation; extraction, candidate, resolver,
  caller, relationship, observation, service-state and typed-index publication and their SurrealQL (but for the two fences above); of the generation
  scheduler the diagnostic readers, the migration, the restore clear and the workers of \<open>internal/generationscheduler\<close>; of the source partitions the reading of blobs through a Git child process, the reuse of prior
  members and the directory listings of a stage; backup and recovery; process bootstrap, sockets and measurement transports of
  \<open>internal/dispatchadmission\<close>; the goroutine loops, timers, metrics and log lines of the modelled
  runners; experiments under \<open>spike\<close>, tools and user interface. The manifest lists each of them with
  its reason.
\<close>

end
